(* ===== verification/Prelude.thy ===== *)
theory Prelude
  imports Main "HOL-Library.Word" "HOL-Library.Sublist"
begin

text \<open>
  Shared vocabulary of the development: Go's time values, the string test
  \<^verbatim>\<open>oneOf\<close> of the controller, association lists for Go maps that are
  iterated, generic list lemmas, the transition-system interface with its
  invariant rule, and the printer/parser interface.

  Conventions.  A Go \<^verbatim>\<open>string\<close> is a HOL \<open>string\<close> (a list of bytes).
  A \<^verbatim>\<open>time.Time\<close> in UTC is an \<open>int\<close>: nanoseconds since the zero time of
  the Go \<^verbatim>\<open>time\<close> package, so that \<^verbatim>\<open>IsZero\<close> is equality with \<open>0\<close>.  A
  \<^verbatim>\<open>time.Duration\<close> is an \<open>int\<close> number of nanoseconds.  A pointer that may be
  \<^verbatim>\<open>nil\<close> is an \<open>option\<close>.
\<close>

section \<open>Time\<close>

type_synonym gotime = int
type_synonym duration = int

definition nanosecond :: duration where "nanosecond = 1"
definition millisecond :: duration where "millisecond = 1000000"
definition second :: duration where "second = 1000000000"
definition minute :: duration where "minute = 60000000000"
definition hour :: duration where "hour = 3600000000000"

definition zeroTime :: gotime where "zeroTime = 0"

named_theorems time_defs

lemmas [time_defs] = nanosecond_def millisecond_def second_def minute_def hour_def zeroTime_def

section \<open>Signed 64-bit arithmetic\<close>

text \<open>
  Where the code multiplies or adds \<^verbatim>\<open>int64\<close> values that could leave the range, the
  wrap-around is written out; division truncates towards zero.
\<close>

definition int64 :: "int \<Rightarrow> int" where
  "int64 x = signed_take_bit 63 x"

definition quot :: "int \<Rightarrow> int \<Rightarrow> int" where
  "quot a b = (if 0 \<le> a then a div b else - ((- a) div b))"

lemma int64_id: "- (2 ^ 63) \<le> x \<Longrightarrow> x < 2 ^ 63 \<Longrightarrow> int64 x = x"
  by (simp add: int64_def signed_take_bit_int_eq_self)

lemma quot_nonneg [simp]: "0 \<le> a \<Longrightarrow> quot a b = a div b"
  by (simp add: quot_def)

section \<open>Membership in a list of strings\<close>

fun oneOf :: "string \<Rightarrow> string list \<Rightarrow> bool" where
  "oneOf v [] = False"
| "oneOf v (x # values) = (if x = v then True else oneOf v values)"

fun oneOfInt :: "int \<Rightarrow> int list \<Rightarrow> bool" where
  "oneOfInt v [] = False"
| "oneOfInt v (x # values) = (if x = v then True else oneOfInt v values)"

lemma oneOf_iff: "oneOf v vs \<longleftrightarrow> v \<in> set vs"
  by (induction vs) auto

lemma oneOfInt_iff: "oneOfInt v vs \<longleftrightarrow> v \<in> set vs"
  by (induction vs) auto

section \<open>Generic list lemmas\<close>

lemma find_Some_split:
  "List.find P xs = Some x \<longleftrightarrow>
     (\<exists>us vs. xs = us @ x # vs \<and> P x \<and> (\<forall>u\<in>set us. \<not> P u))"
proof (induction xs)
  case Nil
  then show ?case by simp
next
  case (Cons a xs)
  show ?case
  proof (cases "P a")
    case True
    then show ?thesis
      by (auto simp: Cons_eq_append_conv intro: exI[of _ "[]"])
  next
    case False
    have "(\<exists>us vs. a # xs = us @ x # vs \<and> P x \<and> (\<forall>u\<in>set us. \<not> P u)) \<longleftrightarrow>
          (\<exists>us vs. xs = us @ x # vs \<and> P x \<and> (\<forall>u\<in>set us. \<not> P u))" (is "?l \<longleftrightarrow> ?r")
    proof
      assume ?l
      then show ?r using False by (auto simp: Cons_eq_append_conv)
    next
      assume ?r
      then obtain us vs where "xs = us @ x # vs" "P x" "\<forall>u\<in>set us. \<not> P u" by blast
      with False show ?l by (intro exI[of _ "a # us"] exI[of _ vs]) simp
    qed
    with False Cons.IH show ?thesis by simp
  qed
qed

lemma find_None_all: "List.find P xs = None \<longleftrightarrow> (\<forall>x\<in>set xs. \<not> P x)"
  by (induction xs) auto

lemma find_Some_in: "List.find P xs = Some x \<Longrightarrow> x \<in> set xs \<and> P x"
  by (auto simp: find_Some_split)

lemma all_plus_le_Max:
  fixes f :: "'a \<Rightarrow> nat"
  assumes "xs \<noteq> []"
  shows "(\<forall>x\<in>set xs. d + f x \<le> n) \<longleftrightarrow> d + Max (f ` set xs) \<le> n"
proof -
  have "Max (f ` set xs) \<in> f ` set xs" using assms by (intro Max_in) auto
  moreover have "\<forall>x\<in>set xs. f x \<le> Max (f ` set xs)" by auto
  ultimately show ?thesis by fastforce
qed

section \<open>Transition systems and their invariants\<close>

text \<open>
  The interface every state machine of the development is proved against: an
  initial predicate, a step relation and an inductive invariant.  The lemma of
  the locale lifts the invariant to every reachable state.
\<close>

inductive reach :: "('s \<Rightarrow> bool) \<Rightarrow> ('s \<Rightarrow> 's \<Rightarrow> bool) \<Rightarrow> 's \<Rightarrow> bool"
  for start :: "'s \<Rightarrow> bool" and trans :: "'s \<Rightarrow> 's \<Rightarrow> bool" where
  reach_start: "start s \<Longrightarrow> reach start trans s"
| reach_trans: "reach start trans s \<Longrightarrow> trans s t \<Longrightarrow> reach start trans t"

locale invariant_system =
  fixes start :: "'s \<Rightarrow> bool"
    and trans :: "'s \<Rightarrow> 's \<Rightarrow> bool"
    and inv :: "'s \<Rightarrow> bool"
  assumes inv_start: "start s \<Longrightarrow> inv s"
    and inv_trans: "inv s \<Longrightarrow> trans s t \<Longrightarrow> inv t"
begin

lemma reach_inv: "reach start trans s \<Longrightarrow> inv s"
  by (induction rule: reach.induct) (auto intro: inv_start inv_trans)

end

section \<open>Printers and parsers\<close>

text \<open>
  A textual format with a canonical printer: the parser inverts the printer and
  accepts nothing but printed text.  Then text is a faithful name of the value:
  distinct texts that parse denote distinct values.
\<close>

locale canonical_text =
  fixes show_text :: "'a \<Rightarrow> string"
    and parse_text :: "string \<Rightarrow> 'a option"
  assumes parse_show: "parse_text (show_text a) = Some a"
    and show_parse: "parse_text s = Some a \<Longrightarrow> show_text a = s"
begin

lemma parse_iff: "parse_text s = Some a \<longleftrightarrow> s = show_text a"
  using parse_show show_parse by auto

lemma parse_inj: "parse_text s = Some a \<Longrightarrow> parse_text s' = Some a \<Longrightarrow> s = s'"
  by (simp add: parse_iff)

lemma show_inj: "show_text a = show_text b \<Longrightarrow> a = b"
  by (metis parse_show option.inject)

lemma distinct_parsed:
  "distinct ss \<Longrightarrow> (\<forall>s\<in>set ss. parse_text s \<noteq> None) \<Longrightarrow> distinct (map (the \<circ> parse_text) ss)"
proof (induction ss)
  case Nil
  then show ?case by simp
next
  case (Cons s ss)
  have "(the \<circ> parse_text) s \<noteq> (the \<circ> parse_text) s'" if mem: "s' \<in> set ss" for s'
  proof
    assume eq: "(the \<circ> parse_text) s = (the \<circ> parse_text) s'"
    obtain a where a: "parse_text s = Some a" using Cons.prems by auto
    obtain b where b: "parse_text s' = Some b" using Cons.prems mem by auto
    from eq a b have "a = b" by simp
    with a b have "s = s'" by (auto intro: parse_inj)
    with mem Cons.prems show False by simp
  qed
  then show ?case using Cons by auto
qed

end

end
