(* ===== verification/Wire.thy ===== *)
theory Wire
  imports Prelude
begin

text \<open>
  The package \<^verbatim>\<open>internal/wire\<close>: the structured error value, its classification,
  the conversion of arbitrary Go errors to structured ones, the retry predicate
  of evidence collection, the identifier patterns, the command specification
  and its validation, and the strict JSON decoder's checks (duplicate keys,
  nesting depth, exact field names).
\<close>

section \<open>Structured errors\<close>

text \<open>
  \<^verbatim>\<open>wire.Error\<close> and the values its \<^verbatim>\<open>Details\<close> map may hold
  (\<^verbatim>\<open>map[string]any\<close>, an association list).
\<close>

datatype werror =
  WError (Code: string) (Message: string) (Category: string) (Retry: string)
    (NextAction: string) (Details: "(string \<times> gval) list")
and gval =
  GStr string | GInt int | GBool bool | GTime int | GNil
| GErr werror | GList "gval list" | GMap "(string \<times> gval) list"

definition simpleError :: "string \<Rightarrow> string \<Rightarrow> werror" where
  "simpleError code message = WError code message [] [] [] []"

definition errorString :: "werror \<Rightarrow> string" where
  "errorString e = Code e @ '': '' @ Message e"

text \<open>
  The table of \<^verbatim>\<open>classifyError\<close>: category, retry and next action of a code.
\<close>

definition classTable :: "string \<Rightarrow> string \<times> string \<times> string" where
  "classTable code =
    (if oneOf code [''executor_unavailable'', ''executor_identity'', ''executor_setup'',
         ''executor_persistence'', ''resource_release_unconfirmed'', ''client_identity'',
         ''resources_blocked'', ''evidence_blocked'']
     then (''execution'', ''reconcile'',
       ''Inspect the recorded cause and required actor, then recover the existing job'')
     else if oneOf code [''invalid_argument'']
     then (''validation'', ''after_change'',
       ''Inspect tools/list constraints; correct parameters and use a new request_id for changed arguments'')
     else if oneOf code [''unauthorized'', ''forbidden'', ''host_denied'', ''origin_denied'', ''policy_denied'']
     then (''authorization'', ''after_change'',
       ''Use authorized credentials and permitted resources; inspect the effective service policy'')
     else if oneOf code [''invalid_state'', ''guest_not_ready'', ''network_not_ready'',
         ''guest_protocol_mismatch'', ''guest_service_unavailable'', ''guest_service_mismatch'',
         ''guest_execution_unavailable'', ''desktop_unavailable'', ''unsupported_context'',
         ''not_found'', ''purged'', ''expired'']
     then (''precondition'', ''after_change'',
       ''Inspect live task/node/transfer state and meet the documented operation precondition'')
     else if oneOf code [''resource_busy'', ''unavailable'', ''router_unavailable'', ''node_unavailable'']
     then (''capacity'', ''after_recovery'',
       ''Inspect queue, polling and cleanup state; wait for confirmed capacity or recovery before a new action'')
     else if oneOf code [''limit_exceeded'', ''endpoint_limit'', ''input_limit'', ''guest_session_limit'']
     then (''capacity'', ''after_change'',
       ''Inspect the reported limit and reduce the request or complete and release this batch'')
     else if oneOf code [''request_conflict'', ''input_conflict'', ''input_order'', ''input_closed'',
         ''cleanup_conflict'', ''gui_conflict'', ''conflict'']
     then (''conflict'', ''after_change'',
       ''Reconcile retained identities and live ownership; do not overwrite prior inputs or external state'')
     else if oneOf code [''initialization_failed'', ''firstboot_failed'']
     then (''execution'', ''after_change'',
       ''Inspect the recorded preparation step and diagnostics; correct guest or template prerequisites before a fresh execution'')
     else if oneOf code [''backend_timeout'', ''backend_cancelled'', ''backend_error'',
         ''worker_unavailable'', ''worker_protocol_error'', ''worker_restarted'', ''supervision_failed'',
         ''terminal_write'', ''missing_terminal_status'', ''supervisor_lost'', ''termination_unconfirmed'']
     then (''execution'', ''reconcile'',
       ''Reconcile the existing request_id and live execution; an observation error does not confirm termination'')
     else (''unknown'', ''inspect'',
       ''Inspect the operation receipt, live task state and bounded diagnostics before another mutation''))"

definition classifyError :: "werror \<Rightarrow> werror" where
  "classifyError original =
    (if Category original \<noteq> [] then original
     else (case classTable (Code original) of (category, retry, nextAction) \<Rightarrow>
       WError (Code original) (Message original) category
         (if Retry original \<noteq> [] then Retry original else retry)
         (if NextAction original \<noteq> [] then NextAction original else nextAction)
         (Details original)))"

section \<open>Go errors\<close>

text \<open>
  An error value as the code inspects it: a structured error, the sentinel
  errors the code tests for, a system call number with its message, the
  wrappers of \<^verbatim>\<open>os\<close> and \<^verbatim>\<open>net\<close>, a formatted wrapper (\<^verbatim>\<open>%w\<close>), or other text.
  \<^verbatim>\<open>errors.Join\<close> of errors is a tree of \<open>EJoin\<close>.  \<^verbatim>\<open>errors.As\<close> and \<^verbatim>\<open>errors.Is\<close> walk the wrappers, a
  joined error from left to right.
\<close>

datatype goerr =
  EWire werror
| EDeadlineExceeded
| ECanceled
| EUnexpectedEOF
| EErrno int string
| EPathError string goerr
| ESyscallError string goerr
| ENetError bool goerr
| EWrapped string goerr
| EJoin goerr goerr
| EText string

type_synonym 'a res = "goerr + 'a"

fun asWire :: "goerr \<Rightarrow> werror option" where
  "asWire (EWire e) = Some e"
| "asWire (EPathError _ e) = asWire e"
| "asWire (ESyscallError _ e) = asWire e"
| "asWire (ENetError _ e) = asWire e"
| "asWire (EWrapped _ e) = asWire e"
| "asWire (EJoin a b) = (case asWire a of Some x \<Rightarrow> Some x | None \<Rightarrow> asWire b)"
| "asWire _ = None"

fun isDeadlineExceeded :: "goerr \<Rightarrow> bool" where
  "isDeadlineExceeded EDeadlineExceeded = True"
| "isDeadlineExceeded (EPathError _ e) = isDeadlineExceeded e"
| "isDeadlineExceeded (ESyscallError _ e) = isDeadlineExceeded e"
| "isDeadlineExceeded (ENetError _ e) = isDeadlineExceeded e"
| "isDeadlineExceeded (EWrapped _ e) = isDeadlineExceeded e"
| "isDeadlineExceeded (EJoin a b) = (isDeadlineExceeded a \<or> isDeadlineExceeded b)"
| "isDeadlineExceeded _ = False"

fun isCanceled :: "goerr \<Rightarrow> bool" where
  "isCanceled ECanceled = True"
| "isCanceled (EPathError _ e) = isCanceled e"
| "isCanceled (ESyscallError _ e) = isCanceled e"
| "isCanceled (ENetError _ e) = isCanceled e"
| "isCanceled (EWrapped _ e) = isCanceled e"
| "isCanceled (EJoin a b) = (isCanceled a \<or> isCanceled b)"
| "isCanceled _ = False"

fun isUnexpectedEOF :: "goerr \<Rightarrow> bool" where
  "isUnexpectedEOF EUnexpectedEOF = True"
| "isUnexpectedEOF (EPathError _ e) = isUnexpectedEOF e"
| "isUnexpectedEOF (ESyscallError _ e) = isUnexpectedEOF e"
| "isUnexpectedEOF (ENetError _ e) = isUnexpectedEOF e"
| "isUnexpectedEOF (EWrapped _ e) = isUnexpectedEOF e"
| "isUnexpectedEOF (EJoin a b) = (isUnexpectedEOF a \<or> isUnexpectedEOF b)"
| "isUnexpectedEOF _ = False"

fun asErrno :: "goerr \<Rightarrow> (int \<times> string) option" where
  "asErrno (EErrno n m) = Some (n, m)"
| "asErrno (EPathError _ e) = asErrno e"
| "asErrno (ESyscallError _ e) = asErrno e"
| "asErrno (ENetError _ e) = asErrno e"
| "asErrno (EWrapped _ e) = asErrno e"
| "asErrno (EJoin a b) = (case asErrno a of Some x \<Rightarrow> Some x | None \<Rightarrow> asErrno b)"
| "asErrno _ = None"

fun asPathOp :: "goerr \<Rightarrow> string option" where
  "asPathOp (EPathError oper _) = Some oper"
| "asPathOp (ESyscallError _ e) = asPathOp e"
| "asPathOp (ENetError _ e) = asPathOp e"
| "asPathOp (EWrapped _ e) = asPathOp e"
| "asPathOp (EJoin a b) = (case asPathOp a of Some x \<Rightarrow> Some x | None \<Rightarrow> asPathOp b)"
| "asPathOp _ = None"

fun asSyscall :: "goerr \<Rightarrow> string option" where
  "asSyscall (ESyscallError call _) = Some call"
| "asSyscall (EPathError _ e) = asSyscall e"
| "asSyscall (ENetError _ e) = asSyscall e"
| "asSyscall (EWrapped _ e) = asSyscall e"
| "asSyscall (EJoin a b) = (case asSyscall a of Some x \<Rightarrow> Some x | None \<Rightarrow> asSyscall b)"
| "asSyscall _ = None"

text \<open>
  \<^verbatim>\<open>errors.As(err, &n) && n.Timeout()\<close> for \<^verbatim>\<open>net.Error\<close>: the first value of the
  chain that implements the interface.  \<^verbatim>\<open>context.DeadlineExceeded\<close> and
  \<^verbatim>\<open>syscall.Errno\<close> do (the latter times out for \<^verbatim>\<open>EAGAIN\<close> 11 and
  \<^verbatim>\<open>ETIMEDOUT\<close> 110); \<^verbatim>\<open>os.PathError\<close> and \<^verbatim>\<open>os.SyscallError\<close> do not.
\<close>

fun asNet :: "goerr \<Rightarrow> bool option" where
  "asNet EDeadlineExceeded = Some True"
| "asNet (EErrno n _) = Some (n = 11 \<or> n = 110)"
| "asNet (ENetError t _) = Some t"
| "asNet (EPathError _ e) = asNet e"
| "asNet (ESyscallError _ e) = asNet e"
| "asNet (EWrapped _ e) = asNet e"
| "asNet (EJoin a b) = (case asNet a of Some t \<Rightarrow> Some t | None \<Rightarrow> asNet b)"
| "asNet _ = None"

definition netTimeout :: "goerr \<Rightarrow> bool" where
  "netTimeout err \<longleftrightarrow> asNet err = Some True"

definition Fail :: "string \<Rightarrow> string \<Rightarrow> goerr" where
  "Fail code message = EWire (classifyError (simpleError code message))"

definition Safe :: "goerr \<Rightarrow> werror" where
  "Safe err =
    (case asWire err of
       Some e \<Rightarrow> classifyError e
     | None \<Rightarrow>
        if isDeadlineExceeded err
        then classifyError (simpleError ''backend_timeout'' ''Operation exceeded its time budget'')
        else if isCanceled err
        then classifyError (simpleError ''backend_cancelled'' ''Operation was cancelled before its result was confirmed'')
        else classifyError (simpleError ''backend_error'' ''Operation failed; inspect task events and administrator diagnostics''))"

definition LifecycleCause :: "goerr \<Rightarrow> werror" where
  "LifecycleCause err =
    (case asWire err of
       Some _ \<Rightarrow> Safe err
     | None \<Rightarrow>
        (case asErrno err of
           None \<Rightarrow> Safe err
         | Some (errno, message) \<Rightarrow>
             WError ''system_error'' message ''execution'' ''after_change''
               (''Resolve the operating-system error for this job'' @ [CHR 0x27] @
                ''s recorded resource or evidence before recovery'')
               ([(''errno'', GInt errno)] @
                (case asPathOp err of Some oper \<Rightarrow> [(''operation'', GStr oper)] | None \<Rightarrow> []) @
                (case asSyscall err of Some call \<Rightarrow> [(''syscall'', GStr call)] | None \<Rightarrow> []))))"

definition TransientEvidence :: "goerr \<Rightarrow> bool" where
  "TransientEvidence err =
    (if netTimeout err then True
     else if isDeadlineExceeded err \<or> isUnexpectedEOF err \<or>
             (case asErrno err of Some (n, _) \<Rightarrow> n = 104 \<or> n = 111 \<or> n = 11 | None \<Rightarrow> False)
     then True
     else (case asWire err of
             Some e \<Rightarrow> Code e = ''worker_unavailable'' \<or> Code e = ''backend_timeout''
           | None \<Rightarrow> False))"

section \<open>Identifiers and bounded text\<close>

definition hexLower :: "char \<Rightarrow> bool" where
  "hexLower c \<longleftrightarrow> c \<in> set ''abcdef0123456789''"

definition hexAny :: "char \<Rightarrow> bool" where
  "hexAny c \<longleftrightarrow> c \<in> set ''abcdefABCDEF0123456789''"

definition lowerAlpha :: "char \<Rightarrow> bool" where
  "lowerAlpha c \<longleftrightarrow> c \<in> set ''abcdefghijklmnopqrstuvwxyz''"

definition decimalDigit :: "char \<Rightarrow> bool" where
  "decimalDigit c \<longleftrightarrow> c \<in> set ''0123456789''"

definition IDPattern :: "string \<Rightarrow> bool" where
  "IDPattern s \<longleftrightarrow> length s = 32 \<and> list_all hexLower s"

definition sha256Pattern :: "string \<Rightarrow> bool" where
  "sha256Pattern s \<longleftrightarrow> length s = 64 \<and> list_all hexLower s"

definition NamePattern :: "string \<Rightarrow> bool" where
  "NamePattern s \<longleftrightarrow> (case s of [] \<Rightarrow> False
     | c # cs \<Rightarrow> lowerAlpha c \<and> length cs \<le> 30 \<and>
         list_all (\<lambda>x. lowerAlpha x \<or> decimalDigit x \<or> x = CHR ''-'') cs)"

definition UUIDPattern :: "string \<Rightarrow> bool" where
  "UUIDPattern s \<longleftrightarrow> length s = 36 \<and>
     list_all hexAny (take 8 s) \<and> take 1 (drop 8 s) = ''-'' \<and>
     list_all hexAny (take 4 (drop 9 s)) \<and> take 1 (drop 13 s) = ''-'' \<and>
     list_all hexAny (take 4 (drop 14 s)) \<and> take 1 (drop 18 s) = ''-'' \<and>
     list_all hexAny (take 4 (drop 19 s)) \<and> take 1 (drop 23 s) = ''-'' \<and>
     list_all hexAny (drop 24 s)"

definition StorePattern :: "string \<Rightarrow> bool" where
  "StorePattern s \<longleftrightarrow>
     take 11 s = ''/nix/store/'' \<and>
     length (take 32 (drop 11 s)) = 32 \<and>
     list_all (\<lambda>c. c \<in> set ''0123456789abcdfghijklmnpqrsvwxyz'') (take 32 (drop 11 s)) \<and>
     take 1 (drop 43 s) = ''-'' \<and> drop 44 s \<noteq> [] \<and>
     list_all (\<lambda>c. c \<in> set ''ABCDEFGHIJKLMNOPQRSTUVWXYZabcdefghijklmnopqrstuvwxyz0123456789+._?=-'') (drop 44 s)"

definition ValidText :: "string \<Rightarrow> nat \<Rightarrow> bool" where
  "ValidText s m \<longleftrightarrow> length s \<le> m \<and> CHR 0x00 \<notin> set s"

text \<open>The version-4 shape of \<^verbatim>\<open>UUID()\<close>, from the 32 digits \<^verbatim>\<open>ID()\<close> drew.\<close>

definition UUID_of :: "string \<Rightarrow> string" where
  "UUID_of b = take 8 b @ ''-'' @ take 4 (drop 8 b) @ ''-4'' @ take 3 (drop 13 b) @ ''-8'' @
     take 3 (drop 17 b) @ ''-'' @ drop 20 b"

section \<open>Command specifications\<close>

record CommandSpec =
  cs_ID :: string
  cs_Argv :: "string list"
  cs_Context :: string
  cs_Cwd :: string
  cs_Env :: "(string \<times> string) list"
  cs_TimeoutSeconds :: int

definition CommandSpec_Validate :: "CommandSpec \<Rightarrow> goerr option" where
  "CommandSpec_Validate s =
    (if cs_Context s \<noteq> '''' \<and> cs_Context s \<noteq> ''service'' \<and> cs_Context s \<noteq> ''desktop''
     then Some (Fail ''invalid_argument'' ''context must be service or desktop'')
     else if \<not> IDPattern (cs_ID s) \<or> length (cs_Argv s) = 0 \<or> length (cs_Argv s) > 256 \<or>
             hd (cs_Argv s) = '''' \<or> cs_TimeoutSeconds s < 0 \<or> cs_TimeoutSeconds s > 86400 * 30
     then Some (Fail ''invalid_argument'' ''Invalid command'')
     else if \<exists>a\<in>set (cs_Argv s). \<not> ValidText a 32768
     then Some (Fail ''invalid_argument'' ''Invalid command argument'')
     else if \<not> ValidText (cs_Cwd s) 32768
     then Some (Fail ''invalid_argument'' ''Invalid guest directory'')
     else if \<exists>(k, v)\<in>set (cs_Env s). k = '''' \<or> CHR ''='' \<in> set k \<or> CHR 0x00 \<in> set k \<or> \<not> ValidText v 32768
     then Some (Fail ''invalid_argument'' ''Invalid environment'')
     else None)"

section \<open>Strict JSON\<close>

text \<open>
  A document as the token stream of the decoder shows it: its size, its first
  value (none when the text has no value or a syntax error in it) and whether
  only white space follows.  Object members keep their textual order and may
  repeat a key.
\<close>

datatype jval = JNull | JBool bool | JNum string | JStr string
  | JArr "jval list" | JObj "(string \<times> jval) list"

record jdoc =
  jd_bytes :: nat
  jd_first :: "jval option"
  jd_ended :: bool

text \<open>
  The closure \<^verbatim>\<open>value(depth)\<close> of \<^verbatim>\<open>checkJSON\<close>; \<open>seen\<close> is the set of keys of the
  object being read.
\<close>

fun checkValue :: "nat \<Rightarrow> jval \<Rightarrow> bool"
  and checkMembers :: "nat \<Rightarrow> string list \<Rightarrow> (string \<times> jval) list \<Rightarrow> bool"
  and checkElements :: "nat \<Rightarrow> jval list \<Rightarrow> bool" where
  "checkValue depth v =
    (if depth > 64 then False
     else (case v of
             JObj ms \<Rightarrow> checkMembers (depth + 1) [] ms
           | JArr vs \<Rightarrow> checkElements (depth + 1) vs
           | _ \<Rightarrow> True))"
| "checkMembers depth seen [] = True"
| "checkMembers depth seen ((k, v) # ms) =
    (if k \<in> set seen then False
     else checkValue depth v \<and> checkMembers depth (k # seen) ms)"
| "checkElements depth [] = True"
| "checkElements depth (v # vs) = (checkValue depth v \<and> checkElements depth vs)"

definition checkJSON :: "jdoc \<Rightarrow> nat \<Rightarrow> goerr option" where
  "checkJSON d limit =
    (if jd_bytes d > limit then Some (Fail ''too_large'' ''JSON exceeds its byte limit'')
     else if (case jd_first d of None \<Rightarrow> True | Some v \<Rightarrow> \<not> checkValue 0 v)
     then Some (Fail ''invalid_argument'' ''Invalid JSON or duplicate field'')
     else if \<not> jd_ended d
     then Some (Fail ''invalid_argument'' ''Expected one JSON value'')
     else None)"

text \<open>
  Destination types as \<^verbatim>\<open>reflect\<close> shows them.  \<open>TUnm t\<close> is a type of kind \<open>t\<close>
  whose pointer implements \<^verbatim>\<open>json.Unmarshaler\<close>.  A struct field has its name,
  its \<^verbatim>\<open>json\<close> tag, whether it is embedded and whether it is exported.
\<close>

datatype gotype = TPtr gotype | TSlice gotype | TMap gotype | TIface | TBasic
  | TUnm gotype | TStruct "gofield list"
and gofield = GField (fName: string) (fTag: string) (fAnonymous: bool) (fExported: bool) (fType: gotype)

fun derefType :: "gotype \<Rightarrow> gotype" where
  "derefType (TPtr t) = derefType t"
| "derefType t = t"

fun nilable :: "gotype \<Rightarrow> bool" where
  "nilable (TPtr _) = True"
| "nilable (TMap _) = True"
| "nilable (TSlice _) = True"
| "nilable TIface = True"
| "nilable (TUnm t) = nilable t"
| "nilable _ = False"

fun structFields :: "gotype \<Rightarrow> gofield list option" where
  "structFields (TStruct fs) = Some fs"
| "structFields (TUnm t) = structFields t"
| "structFields _ = None"

definition tagName :: "gofield \<Rightarrow> string" where
  "tagName f = takeWhile (\<lambda>c. c \<noteq> CHR '','') (fTag f)"

lemma size_derefType [termination_simp]: "size (derefType t) \<le> size t"
  by (induction t rule: derefType.induct) auto

lemma size_structFields [termination_simp]:
  "structFields t = Some fs \<Longrightarrow> size_list size fs < size t"
  by (induction t rule: structFields.induct) auto

lemma size_field_type [termination_simp]: "size (fType f) < size f"
  by (cases f) auto

text \<open>The closure \<^verbatim>\<open>add\<close>: the members a JSON object may have for a struct.\<close>

function addFields :: "gofield list \<Rightarrow> (string \<rightharpoonup> gotype) \<Rightarrow> (string \<rightharpoonup> gotype)" where
  "addFields [] m = m"
| "addFields (f # fs) m =
    addFields fs
     (case (if fAnonymous f then structFields (derefType (fType f)) else None) of
        Some inner \<Rightarrow> addFields inner m
      | None \<Rightarrow>
         if \<not> fExported f then m
         else if tagName f = ''-'' then m
         else m((if tagName f = [] then fName f else tagName f) \<mapsto> fType f))"
  by pat_completeness auto
termination
proof (relation "measure (\<lambda>(fs, m). size_list size fs)", goal_cases)
  case (2 f fs m inner)
  then have "structFields (derefType (fType f)) = Some inner" by (simp split: if_splits)
  then have "size_list size inner < size (derefType (fType f))" by (rule size_structFields)
  also have "\<dots> \<le> size (fType f)" by (rule size_derefType)
  also have "\<dots> < size f" by (rule size_field_type)
  finally show ?case by simp
qed auto

fun exactFields :: "jval \<Rightarrow> gotype \<Rightarrow> bool" where
  "exactFields v t =
    (if v = JNull then nilable t else
     case derefType t of
       TUnm _ \<Rightarrow> True
     | TStruct fs \<Rightarrow>
        (case v of
           JObj ms \<Rightarrow> list_all (\<lambda>(k, x). case addFields fs Map.empty k of
                         None \<Rightarrow> False | Some ft \<Rightarrow> exactFields x ft) ms
         | _ \<Rightarrow> False)
     | TSlice e \<Rightarrow> (case v of JArr xs \<Rightarrow> list_all (\<lambda>x. exactFields x e) xs | _ \<Rightarrow> False)
     | TMap e \<Rightarrow> (case v of JObj ms \<Rightarrow> list_all (\<lambda>(k, x). exactFields x e) ms | _ \<Rightarrow> False)
     | _ \<Rightarrow> True)"

declare exactFields.simps [simp del]

text \<open>
  \<^verbatim>\<open>DecodeLimit\<close>.  The destination type is \<open>Some t\<close> for a pointer to \<open>t\<close> and
  \<open>None\<close> for anything else; \<open>assign\<close> is the final \<^verbatim>\<open>Decode\<close> of \<^verbatim>\<open>encoding/json\<close>
  with unknown fields disallowed, which may still refuse a value of the wrong type.
\<close>

definition DecodeLimit :: "jdoc \<Rightarrow> gotype option \<Rightarrow> (jval \<Rightarrow> 'a option) \<Rightarrow> nat \<Rightarrow> 'a res" where
  "DecodeLimit d target assign limit =
    (case checkJSON d limit of
       Some err \<Rightarrow> Inl err
     | None \<Rightarrow>
       (case jd_first d of
          None \<Rightarrow> Inl (Fail ''invalid_argument'' ''Invalid JSON'')
        | Some v \<Rightarrow>
          (case target of
             None \<Rightarrow> Inl (Fail ''invalid_argument'' ''Expected a decode destination'')
           | Some t \<Rightarrow>
              if \<not> exactFields v t then Inl (Fail ''invalid_argument'' ''Unknown field or invalid field type'')
              else (case assign v of
                      None \<Rightarrow> Inl (Fail ''invalid_argument'' ''Unknown field or invalid field type'')
                    | Some r \<Rightarrow> Inr r))))"

section \<open>Facts about errors\<close>

lemma classTable_category: "fst (classTable c) \<noteq> []"
  unfolding classTable_def
  by (simp only: fst_conv list.distinct not_False_eq_True simp_thms split: if_split)

lemma classifyError_code [simp]: "Code (classifyError e) = Code e"
  by (simp add: classifyError_def split: prod.splits)

lemma classifyError_details [simp]: "Details (classifyError e) = Details e"
  by (simp add: classifyError_def split: prod.splits)

lemma classifyError_category: "Category (classifyError e) \<noteq> []"
  using classTable_category[of "Code e"]
  by (auto simp: classifyError_def split: prod.splits)

lemma classifyError_idem [simp]: "classifyError (classifyError e) = classifyError e"
  using classifyError_category[of e] by (simp add: classifyError_def)

lemma Safe_category: "Category (Safe err) \<noteq> []"
  by (simp add: Safe_def classifyError_category split: option.splits)

lemma asWire_Fail [simp]: "asWire (Fail c m) = Some (classifyError (simpleError c m))"
  by (simp add: Fail_def)

lemma Code_simpleError [simp]: "Code (simpleError c m) = c"
  by (simp add: simpleError_def)

lemma Code_Safe_Fail [simp]: "Code (Safe (Fail c m)) = c"
  by (simp add: Safe_def Fail_def)

lemma Safe_EWire_Code [simp]: "Code (Safe (EWire e)) = Code e"
  by (simp add: Safe_def)

lemma Safe_Safe [simp]: "Safe (EWire (Safe err)) = Safe err"
  by (simp add: Safe_def split: option.splits)

section \<open>Facts about strict decoding\<close>

text \<open>The specification: no object repeats a key, at any depth, and bounded nesting.\<close>

fun jnodup :: "jval \<Rightarrow> bool" where
  "jnodup (JArr vs) = list_all jnodup vs"
| "jnodup (JObj ms) = (distinct (map fst ms) \<and> list_all (\<lambda>m. jnodup (snd m)) ms)"
| "jnodup _ = True"

fun jdepth :: "jval \<Rightarrow> nat" where
  "jdepth (JArr vs) = (if vs = [] then 0 else Suc (Max (set (map jdepth vs))))"
| "jdepth (JObj ms) = (if ms = [] then 0 else Suc (Max (set (map (\<lambda>m. jdepth (snd m)) ms))))"
| "jdepth _ = 0"

declare checkValue.simps [simp del]

lemma checkElements_iff: "checkElements d vs \<longleftrightarrow> list_all (checkValue d) vs"
  by (induction vs) auto

lemma checkMembers_iff:
  "checkMembers d seen ms \<longleftrightarrow>
     distinct (map fst ms) \<and> set seen \<inter> fst ` set ms = {} \<and> list_all (\<lambda>m. checkValue d (snd m)) ms"
proof (induction ms arbitrary: seen)
  case (Cons m ms)
  then show ?case by (cases m) (auto split: if_splits)
qed simp

lemma checkValue_iff: "checkValue d v \<longleftrightarrow> jnodup v \<and> d + jdepth v \<le> 64"
proof (induction v arbitrary: d)
  case (JArr vs)
  show ?case
  proof (cases "vs = []")
    case False
    have "checkValue d (JArr vs) \<longleftrightarrow>
        d \<le> 64 \<and> (\<forall>v\<in>set vs. jnodup v) \<and> (\<forall>v\<in>set vs. Suc d + jdepth v \<le> 64)"
      using JArr by (auto simp: checkValue.simps[of d] checkElements_iff list_all_iff)
    then show ?thesis using False all_plus_le_Max[OF False, of "Suc d" jdepth 64]
      by (auto simp: list_all_iff)
  qed (simp add: checkValue.simps[of d] checkElements_iff)
next
  case (JObj ms)
  show ?case
  proof (cases "ms = []")
    case False
    have IH: "checkValue n (snd m) \<longleftrightarrow> jnodup (snd m) \<and> n + jdepth (snd m) \<le> 64"
      if "m \<in> set ms" for m n
      using JObj[of m "snd m"] that by (cases m) auto
    have "checkValue d (JObj ms) \<longleftrightarrow> d \<le> 64 \<and> distinct (map fst ms) \<and>
        (\<forall>m\<in>set ms. jnodup (snd m)) \<and> (\<forall>m\<in>set ms. Suc d + jdepth (snd m) \<le> 64)"
      by (auto simp: checkValue.simps[of d] checkMembers_iff list_all_iff IH)
    then show ?thesis using False all_plus_le_Max[OF False, of "Suc d" "\<lambda>m. jdepth (snd m)" 64]
      by (auto simp: list_all_iff simp del: split_paired_Ex split_paired_All)
  qed (simp add: checkValue.simps[of d])
qed (simp_all add: checkValue.simps)

end
