(* ===== verification/Ipv4.thy ===== *)
theory Ipv4
  imports Prelude
begin

unbundle bit_operations_syntax

text \<open>
  What the sources use of \<^verbatim>\<open>net/netip\<close> and \<^verbatim>\<open>net.ParseMAC\<close> for IPv4.  An address
  is a 32-bit word, a prefix an address with its number of bits.  Every use in
  the sources refuses IPv6 in the same test that refuses a text which does not
  parse (\<^verbatim>\<open>Is4\<close>, or containment in an IPv4 prefix), so the parsers return
  \<open>None\<close> for both.
\<close>

type_synonym addr = "32 word"

record prefix4 =
  px_addr :: addr
  px_bits :: nat

section \<open>Decimal text\<close>

definition digitChar :: "nat \<Rightarrow> char" where
  "digitChar d = ''0123456789'' ! d"

definition digitVal :: "char \<Rightarrow> nat option" where
  "digitVal = map_of (zip ''0123456789'' [0, 1, 2, 3, 4, 5, 6, 7, 8, 9])"

fun showNat :: "nat \<Rightarrow> string" where
  "showNat n = (if n < 10 then [digitChar n] else showNat (n div 10) @ [digitChar (n mod 10)])"

declare showNat.simps [simp del]

definition showInt :: "int \<Rightarrow> string" where
  "showInt i = (if i < 0 then CHR ''-'' # showNat (nat (- i)) else showNat (nat i))"

fun readDigits :: "nat \<Rightarrow> string \<Rightarrow> nat option" where
  "readDigits acc [] = Some acc"
| "readDigits acc (c # cs) =
    (case digitVal c of None \<Rightarrow> None | Some d \<Rightarrow> readDigits (10 * acc + d) cs)"

text \<open>An unsigned decimal without superfluous zeros and of at most \<open>m\<close>.\<close>

definition parseDec :: "nat \<Rightarrow> string \<Rightarrow> nat option" where
  "parseDec m s =
    (if s = [] \<or> (length s > 1 \<and> hd s = CHR ''0'') then None
     else (case readDigits 0 s of
             None \<Rightarrow> None
           | Some n \<Rightarrow> if n \<le> m then Some n else None))"

section \<open>Splitting text\<close>

fun splitOn :: "char \<Rightarrow> string \<Rightarrow> string list" where
  "splitOn sep [] = [[]]"
| "splitOn sep (c # cs) =
    (if c = sep then [] # splitOn sep cs
     else (case splitOn sep cs of [] \<Rightarrow> [[c]] | p # ps \<Rightarrow> (c # p) # ps))"

fun joinWith :: "string \<Rightarrow> string list \<Rightarrow> string" where
  "joinWith sep [] = []"
| "joinWith sep [p] = p"
| "joinWith sep (p # q # ps) = p @ sep @ joinWith sep (q # ps)"

section \<open>Addresses and prefixes\<close>

definition octets :: "addr \<Rightarrow> nat list" where
  "octets a = [unat a div 16777216, unat a div 65536 mod 256, unat a div 256 mod 256, unat a mod 256]"

definition ofOctets :: "nat \<Rightarrow> nat \<Rightarrow> nat \<Rightarrow> nat \<Rightarrow> addr" where
  "ofOctets a b c d = of_nat (a * 16777216 + b * 65536 + c * 256 + d)"

definition Addr_String :: "addr \<Rightarrow> string" where
  "Addr_String a = joinWith ''.'' (map showNat (octets a))"

definition ParseAddr4 :: "string \<Rightarrow> addr option" where
  "ParseAddr4 s =
    (case splitOn CHR ''.'' s of
       [w, x, y, z] \<Rightarrow>
        (case (parseDec 255 w, parseDec 255 x, parseDec 255 y, parseDec 255 z) of
           (Some a, Some b, Some c, Some d) \<Rightarrow> Some (ofOctets a b c d)
         | _ \<Rightarrow> None)
     | _ \<Rightarrow> None)"

definition Addr_Next :: "addr \<Rightarrow> addr option" where
  "Addr_Next a = (if a = - 1 then None else Some (a + 1))"

text \<open>\<^verbatim>\<open>ParsePrefix\<close> cuts at the last slash.\<close>

definition ParsePrefix4 :: "string \<Rightarrow> prefix4 option" where
  "ParsePrefix4 s =
    (let parts = splitOn CHR ''/'' s in
     if length parts < 2 then None
     else (case (ParseAddr4 (joinWith ''/'' (butlast parts)), parseDec 32 (last parts)) of
             (Some a, Some n) \<Rightarrow> Some \<lparr>px_addr = a, px_bits = n\<rparr>
           | _ \<Rightarrow> None))"

definition samePrefix :: "nat \<Rightarrow> addr \<Rightarrow> addr \<Rightarrow> bool" where
  "samePrefix n a b \<longleftrightarrow> drop_bit (32 - n) a = drop_bit (32 - n) b"

definition Prefix_Contains :: "prefix4 \<Rightarrow> addr \<Rightarrow> bool" where
  "Prefix_Contains p a \<longleftrightarrow> samePrefix (px_bits p) (px_addr p) a"

definition Prefix_Masked :: "prefix4 \<Rightarrow> prefix4" where
  "Prefix_Masked p =
    p\<lparr>px_addr := push_bit (32 - px_bits p) (drop_bit (32 - px_bits p) (px_addr p))\<rparr>"

definition Prefix_Overlaps :: "prefix4 \<Rightarrow> prefix4 \<Rightarrow> bool" where
  "Prefix_Overlaps p q \<longleftrightarrow>
     p = q \<or> samePrefix (min (px_bits p) (px_bits q)) (px_addr p) (px_addr q)"

section \<open>Hardware addresses\<close>

definition hexChar :: "char \<Rightarrow> bool" where
  "hexChar c \<longleftrightarrow> c \<in> set ''0123456789abcdefABCDEF''"

text \<open>
  \<^verbatim>\<open>net.ParseMAC\<close> succeeds with six bytes: five separators \<^verbatim>\<open>:\<close> or \<^verbatim>\<open>-\<close>, all
  the same, or three groups of four digits separated by dots.
\<close>

definition ParseMAC6 :: "string \<Rightarrow> bool" where
  "ParseMAC6 s \<longleftrightarrow>
    (length s = 17 \<and> (s ! 2 = CHR '':'' \<or> s ! 2 = CHR ''-'') \<and>
       s ! 5 = s ! 2 \<and> s ! 8 = s ! 2 \<and> s ! 11 = s ! 2 \<and> s ! 14 = s ! 2 \<and>
       (\<forall>i\<in>set [0, 1, 3, 4, 6, 7, 9, 10, 12, 13, 15, 16]. hexChar (s ! i))) \<or>
    (length s = 14 \<and> s ! 4 = CHR ''.'' \<and> s ! 9 = CHR ''.'' \<and>
       (\<forall>i\<in>set [0, 1, 2, 3, 5, 6, 7, 8, 10, 11, 12, 13]. hexChar (s ! i)))"

section \<open>Decimal text round trips\<close>

lemma less_10_cases: "(d::nat) < 10 \<longleftrightarrow> d \<in> {0, 1, 2, 3, 4, 5, 6, 7, 8, 9}"
  by auto

lemma digitVal_digitChar [simp]: "d < 10 \<Longrightarrow> digitVal (digitChar d) = Some d"
  by (auto simp: less_10_cases digitVal_def digitChar_def)

lemma digitVal_SomeD: "digitVal c = Some d \<Longrightarrow> d < 10 \<and> c = digitChar d"
  by (auto simp: digitVal_def digitChar_def split: if_splits)

lemma digitVal_Some: "digitVal c = Some d \<longleftrightarrow> d < 10 \<and> c = digitChar d"
  using digitVal_SomeD digitVal_digitChar by blast

lemma digitChar_0: "digitChar 0 = CHR ''0''"
  by (simp add: digitChar_def)

lemma readDigits_append:
  "readDigits acc (xs @ ys) = Option.bind (readDigits acc xs) (\<lambda>n. readDigits n ys)"
  by (induction xs arbitrary: acc) (auto split: option.splits)

lemma showNat_nonempty [simp]: "showNat n \<noteq> []"
  by (subst showNat.simps) simp

lemma readDigits_showNat [simp]: "readDigits 0 (showNat n) = Some n"
proof (induction n rule: showNat.induct)
  case (1 n)
  show ?case
  proof (cases "n < 10")
    case True
    then show ?thesis by (simp add: showNat.simps[of n])
  next
    case False
    with 1 show ?thesis by (simp add: showNat.simps[of n] readDigits_append)
  qed
qed

lemma hd_showNat: "n \<noteq> 0 \<Longrightarrow> hd (showNat n) \<noteq> CHR ''0''"
proof (induction n rule: showNat.induct)
  case (1 n)
  show ?case
  proof (cases "n < 10")
    case True
    have "digitChar n = CHR ''0'' \<Longrightarrow> n = 0"
      using digitVal_digitChar[OF True] digitVal_digitChar[of 0] by (auto simp: digitChar_0)
    with True 1 show ?thesis by (auto simp: showNat.simps[of n])
  next
    case False
    with 1 show ?thesis by (auto simp: showNat.simps[of n])
  qed
qed

lemma length_showNat_1: "n < 10 \<Longrightarrow> length (showNat n) = 1"
  by (simp add: showNat.simps[of n])

lemma parseDec_showNat: "n \<le> m \<Longrightarrow> parseDec m (showNat n) = Some n"
  using hd_showNat[of n] by (cases "n = 0") (auto simp: parseDec_def length_showNat_1)

text \<open>
  Reading inverts printing: a digit string with a nonzero start is the print of
  the number it denotes.
\<close>

lemma readDigits_ge: "readDigits acc s = Some n \<Longrightarrow> acc \<le> n"
proof (induction s arbitrary: acc)
  case (Cons c cs)
  then obtain d where "readDigits (10 * acc + d) cs = Some n" by (auto split: option.splits)
  from Cons.IH[OF this] show ?case by simp
qed simp

lemma showNat_readDigits:
  "readDigits acc s = Some n \<Longrightarrow> acc \<noteq> 0 \<Longrightarrow> showNat n = showNat acc @ s"
proof (induction s arbitrary: acc)
  case (Cons c cs)
  then obtain d where d: "digitVal c = Some d" and r: "readDigits (10 * acc + d) cs = Some n"
    by (auto split: option.splits)
  from d have dlt: "d < 10" and c: "c = digitChar d" by (auto simp: digitVal_Some)
  have "showNat n = showNat (10 * acc + d) @ cs" using Cons.IH[OF r] Cons.prems by simp
  also have "showNat (10 * acc + d) = showNat acc @ [c]"
    using Cons.prems dlt by (simp add: showNat.simps[of "10 * acc + d"] c)
  finally show ?case by simp
qed simp

lemma parseDec_Some: "parseDec m s = Some n \<longleftrightarrow> n \<le> m \<and> s = showNat n"
proof
  assume h: "parseDec m s = Some n"
  then have ne: "s \<noteq> []" and z: "length s > 1 \<Longrightarrow> hd s \<noteq> CHR ''0''"
    and r: "readDigits 0 s = Some n" and le: "n \<le> m"
    by (auto simp: parseDec_def split: if_splits option.splits)
  obtain c cs where s: "s = c # cs" using ne by (cases s) auto
  from r s obtain d where d: "d < 10" "c = digitChar d" and rest: "readDigits d cs = Some n"
    by (auto simp: digitVal_Some split: option.splits)
  show "n \<le> m \<and> s = showNat n"
  proof (cases "d = 0")
    case True
    with z s d digitChar_0 have "cs = []" by (cases cs) auto
    with rest s d le show ?thesis by (simp add: showNat.simps[of n])
  next
    case False
    with rest have "showNat n = showNat d @ cs" by (rule showNat_readDigits)
    with d s le show ?thesis by (simp add: showNat.simps[of d])
  qed
next
  assume "n \<le> m \<and> s = showNat n"
  then show "parseDec m s = Some n" by (simp add: parseDec_showNat)
qed

definition digits :: "char set" where
  "digits = set ''0123456789''"

definition digitText :: "string \<Rightarrow> bool" where
  "digitText s \<longleftrightarrow> set s \<subseteq> digits"

lemma digitChar_in: "d < 10 \<Longrightarrow> digitChar d \<in> digits"
  unfolding digitChar_def digits_def by (rule nth_mem) simp

lemma digitText_showNat [simp]: "digitText (showNat n)"
proof (induction n rule: showNat.induct)
  case (1 n)
  then show ?case
    using digitChar_in[of n] digitChar_in[of "n mod 10"]
    by (cases "n < 10") (auto simp: showNat.simps[of n] digitText_def)
qed

section \<open>Address text round trips\<close>

lemma splitOn_nonempty [simp]: "splitOn sep s \<noteq> []"
  by (induction s) (auto split: list.splits)

lemma splitOn_absent: "sep \<notin> set s \<Longrightarrow> splitOn sep s = [s]"
  by (induction s) auto

lemma splitOn_sep: "sep \<notin> set p \<Longrightarrow> splitOn sep (p @ sep # s) = p # splitOn sep s"
  by (induction p) auto

lemma splitOn_join: "joinWith [sep] (splitOn sep s) = s"
proof (induction s)
  case (Cons c s)
  obtain p ps where ps: "splitOn sep s = p # ps" by (cases "splitOn sep s") auto
  show ?case using Cons ps by (cases ps) auto
qed simp

lemma join_splitOn:
  "ps \<noteq> [] \<Longrightarrow> \<forall>p\<in>set ps. sep \<notin> set p \<Longrightarrow> splitOn sep (joinWith [sep] ps) = ps"
proof (induction ps)
  case (Cons p ps)
  then show ?case by (cases ps) (auto simp: splitOn_absent splitOn_sep)
qed simp

lemma set_joinWith: "set (joinWith sep ps) \<subseteq> set sep \<union> (\<Union>p\<in>set ps. set p)"
  by (induction sep ps rule: joinWith.induct) auto

lemma splitOn_parts: "p \<in> set (splitOn sep s) \<Longrightarrow> set p \<subseteq> set s \<and> sep \<notin> set p"
proof (induction s arbitrary: p)
  case (Cons c s)
  obtain q qs where q: "splitOn sep s = q # qs" by (cases "splitOn sep s") auto
  show ?case using Cons q by (fastforce split: if_splits)
qed simp

lemma octets_bound: "n \<in> set (octets a) \<Longrightarrow> n \<le> 255"
proof -
  have "unat a < 2 ^ 32" using unsigned_less[of a] by simp
  then have "unat a div 16777216 < 256" by (simp add: less_mult_imp_div_less)
  then show "n \<in> set (octets a) \<Longrightarrow> n \<le> 255" by (auto simp: octets_def)
qed

lemma ofOctets_octets: "octets a = [w, x, y, z] \<Longrightarrow> ofOctets w x y z = a"
proof -
  assume "octets a = [w, x, y, z]"
  then have "w = unat a div 16777216" "x = unat a div 65536 mod 256"
    "y = unat a div 256 mod 256" "z = unat a mod 256" by (auto simp: octets_def)
  moreover have "unat a div 65536 = unat a div 256 div 256"
    "unat a div 16777216 = unat a div 65536 div 256" by (simp_all flip: div_mult2_eq)
  moreover have "unat a = unat a div 256 * 256 + unat a mod 256"
    "unat a div 256 = unat a div 256 div 256 * 256 + unat a div 256 mod 256"
    "unat a div 65536 = unat a div 65536 div 256 * 256 + unat a div 65536 mod 256"
    by (simp_all only: div_mult_mod_eq)
  ultimately have "w * 16777216 + x * 65536 + y * 256 + z = unat a" by linarith
  then show ?thesis by (simp add: ofOctets_def)
qed

lemma octets_ofOctets:
  assumes "w \<le> 255" "x \<le> 255" "y \<le> 255" "z \<le> 255"
  shows "octets (ofOctets w x y z) = [w, x, y, z]"
proof -
  have "w * 16777216 + x * 65536 + y * 256 + z < 2 ^ 32" using assms by simp
  then have u: "unat (ofOctets w x y z) = w * 16777216 + x * 65536 + y * 256 + z"
    unfolding ofOctets_def by (simp add: unat_of_nat take_bit_nat_eq_self del: of_nat_add of_nat_mult)
  let ?n = "w * 16777216 + x * 65536 + y * 256 + z"
  have n: "?n = ((w * 256 + x) * 256 + y) * 256 + z" by simp
  have dm: "(m * 256 + k) div 256 = m" "(m * 256 + k) mod 256 = k" if "k \<le> 255" for m k :: nat
    using that by simp_all
  have 1: "?n div 256 = (w * 256 + x) * 256 + y" "?n mod 256 = z"
    unfolding n by (rule dm[OF assms(4)])+
  have 2: "?n div 65536 = w * 256 + x"
    using assms div_mult2_eq[of ?n 256 256] by (simp add: 1)
  have 3: "?n div 16777216 = w"
    using assms div_mult2_eq[of ?n 65536 256] by (simp add: 2)
  show ?thesis unfolding octets_def u 1 2 3 by (simp only: dm assms)
qed

lemma not_digits [simp]:
  "CHR ''.'' \<notin> digits" "CHR ''/'' \<notin> digits" "CHR '','' \<notin> digits" "CHR '';'' \<notin> digits"
  "CHR ''{'' \<notin> digits" "CHR ''}'' \<notin> digits" "CHR 0x0A \<notin> digits" "CHR '' '' \<notin> digits"
  by (simp_all add: digits_def)

lemma digitText_notin: "digitText s \<Longrightarrow> c \<notin> digits \<Longrightarrow> c \<notin> set s"
  by (auto simp: digitText_def)

lemma ParseAddr4_String: "ParseAddr4 (Addr_String a) = Some a"
proof -
  obtain w x y z where o: "octets a = [w, x, y, z]" by (simp add: octets_def)
  have b: "w \<le> 255" "x \<le> 255" "y \<le> 255" "z \<le> 255" using octets_bound[of _ a] o by auto
  have "splitOn CHR ''.'' (Addr_String a) = map showNat (octets a)"
    unfolding Addr_String_def
    by (rule join_splitOn) (simp_all add: o digitText_notin)
  with o b show ?thesis by (simp add: ParseAddr4_def parseDec_showNat ofOctets_octets)
qed

lemma String_ParseAddr4: "ParseAddr4 s = Some a \<Longrightarrow> Addr_String a = s"
proof -
  assume h: "ParseAddr4 s = Some a"
  then obtain w x y z where sp: "splitOn CHR ''.'' s = [w, x, y, z]"
    by (auto simp: ParseAddr4_def split: list.splits)
  with h obtain i j k l where p: "parseDec 255 w = Some i" "parseDec 255 x = Some j"
      "parseDec 255 y = Some k" "parseDec 255 z = Some l" and a: "a = ofOctets i j k l"
    by (auto simp: ParseAddr4_def split: option.splits)
  then have "octets a = [i, j, k, l]" by (simp add: parseDec_Some octets_ofOctets)
  then have "Addr_String a = joinWith ''.'' (splitOn CHR ''.'' s)"
    using p sp by (simp add: Addr_String_def parseDec_Some)
  then show ?thesis by (simp add: splitOn_join)
qed

interpretation ipv4_text: canonical_text Addr_String ParseAddr4
  by unfold_locales (auto intro: ParseAddr4_String String_ParseAddr4)

lemma ParseAddr4_chars:
  assumes "ParseAddr4 s = Some a"
  shows "set s \<subseteq> insert CHR ''.'' digits"
proof -
  have "s = joinWith ''.'' (map showNat (octets a))"
    using String_ParseAddr4[OF assms] by (simp add: Addr_String_def)
  then have "set s \<subseteq> set ''.'' \<union> (\<Union>p\<in>set (map showNat (octets a)). set p)"
    using set_joinWith by metis
  also have "\<dots> \<subseteq> insert CHR ''.'' digits"
    using digitText_showNat unfolding digitText_def by auto
  finally show ?thesis .
qed

lemma joinWith_snoc: "qs \<noteq> [] \<Longrightarrow> joinWith sep (qs @ [q]) = joinWith sep qs @ sep @ q"
proof (induction qs)
  case (Cons p qs)
  then show ?case by (cases qs) auto
qed simp

lemma ParsePrefix4_Some:
  assumes "ParsePrefix4 s = Some p"
  shows "\<exists>t. ParseAddr4 t = Some (px_addr p) \<and> px_bits p \<le> 32 \<and> s = t @ ''/'' @ showNat (px_bits p)"
proof -
  let ?parts = "splitOn CHR ''/'' s"
  from assms have len: "length ?parts \<ge> 2"
    by (auto simp: ParsePrefix4_def Let_def split: if_splits)
  with assms obtain a n where a: "ParseAddr4 (joinWith ''/'' (butlast ?parts)) = Some a"
    and n: "parseDec 32 (last ?parts) = Some n" and p: "p = \<lparr>px_addr = a, px_bits = n\<rparr>"
    by (auto simp: ParsePrefix4_def Let_def split: option.splits)
  have parts: "?parts = butlast ?parts @ [last ?parts]" by simp
  have "butlast ?parts \<noteq> []" using len by (auto simp: butlast_conv_take)
  then have "joinWith ''/'' ?parts = joinWith ''/'' (butlast ?parts) @ ''/'' @ last ?parts"
    by (subst parts) (rule joinWith_snoc)
  then have "s = joinWith ''/'' (butlast ?parts) @ ''/'' @ last ?parts"
    by (simp add: splitOn_join)
  with a n p show ?thesis by (intro exI[of _ "joinWith ''/'' (butlast ?parts)"]) (simp add: parseDec_Some)
qed

lemma ParsePrefix4_chars:
  assumes "ParsePrefix4 s = Some p"
  shows "set s \<subseteq> {CHR ''/'', CHR ''.''} \<union> digits"
proof -
  obtain t where t: "ParseAddr4 t = Some (px_addr p)" and s: "s = t @ ''/'' @ showNat (px_bits p)"
    using ParsePrefix4_Some[OF assms] by blast
  have "set (showNat (px_bits p)) \<subseteq> digits"
    using digitText_showNat by (simp only: digitText_def)
  then show ?thesis using ParseAddr4_chars[OF t] by (auto simp: s)
qed

lemma ParseMAC6_chars:
  assumes "ParseMAC6 s"
  shows "set s \<subseteq> {c. hexChar c \<or> c \<in> set '':-.''}"
proof
  fix c assume "c \<in> set s"
  then obtain i where i: "i < length s" "c = s ! i" by (auto simp: in_set_conv_nth)
  show "c \<in> {c. hexChar c \<or> c \<in> set '':-.''}"
  proof (cases "length s = 17")
    case True
    then have "i \<in> {0,1,2,3,4,5,6,7,8,9,10,11,12,13,14,15,16}" using i by (simp only: insert_iff empty_iff) presburger
    then show ?thesis using assms True i by (auto simp: ParseMAC6_def)
  next
    case False
    then have "length s = 14" using assms by (simp add: ParseMAC6_def)
    then have "i \<in> {0,1,2,3,4,5,6,7,8,9,10,11,12,13}" using i by (simp only: insert_iff empty_iff) presburger
    then show ?thesis using assms False i by (auto simp: ParseMAC6_def)
  qed
qed

end
