(* ===== verification/Safefs.thy ===== *)
theory Safefs
  imports Wire Ipv4
begin

text \<open>
  The package \<^verbatim>\<open>internal/safefs\<close>: relative object names and the operations of a
  private directory handle (\<^verbatim>\<open>Regular\<close>, \<^verbatim>\<open>Read\<close>, \<^verbatim>\<open>Write\<close>, \<^verbatim>\<open>Publish\<close>), with what
  they use of Go's \<^verbatim>\<open>path\<close> package.  The files below the root are a finite map
  from relative names to entries; the outcome of each system call is an input
  (\<open>None\<close> for success), so every error return of the source is a branch.
\<close>

section \<open>The path package\<close>

definition pathElems :: "string \<Rightarrow> string list" where
  "pathElems s = filter (\<lambda>e. e \<noteq> [] \<and> e \<noteq> ''.'') (splitOn CHR ''/'' s)"

text \<open>
  The loop of \<^verbatim>\<open>path.Clean\<close> over the elements: the elements written so far, last
  first.  A \<^verbatim>\<open>..\<close> drops the last written element, or is kept at the start of a
  path that is not rooted, or vanishes at the root.
\<close>

fun cleanLoop :: "bool \<Rightarrow> string list \<Rightarrow> string list \<Rightarrow> string list" where
  "cleanLoop rooted out [] = rev out"
| "cleanLoop rooted out (e # es) =
    (if e = ''..'' then
       (case out of
          [] \<Rightarrow> cleanLoop rooted (if rooted then [] else [''..'']) es
        | t # ts \<Rightarrow> cleanLoop rooted (if t = ''..'' then ''..'' # out else ts) es)
     else cleanLoop rooted (e # out) es)"

definition isAbs :: "string \<Rightarrow> bool" where
  "isAbs s \<longleftrightarrow> (case s of [] \<Rightarrow> False | c # _ \<Rightarrow> c = CHR ''/'')"

definition Clean :: "string \<Rightarrow> string" where
  "Clean s =
    (let body = joinWith ''/'' (cleanLoop (isAbs s) [] (pathElems s)) in
     if isAbs s then CHR ''/'' # body else if body = [] then ''.'' else body)"

definition pathJoin :: "string \<Rightarrow> string \<Rightarrow> string" where
  "pathJoin a b =
    (if a = [] \<and> b = [] then [] else if a = [] then Clean b else if b = [] then Clean a
     else Clean (a @ ''/'' @ b))"

definition pathDir :: "string \<Rightarrow> string" where
  "pathDir s = Clean (rev (dropWhile (\<lambda>c. c \<noteq> CHR ''/'') (rev s)))"

section \<open>Object names\<close>

definition Name :: "string \<Rightarrow> goerr option" where
  "Name name =
    (if name = [] \<or> name = ''.'' \<or> isAbs name \<or> Clean name \<noteq> name \<or>
        CHR 0x5C \<in> set name \<or> CHR 0x00 \<in> set name
     then Some (Fail ''invalid_path'' ''Invalid relative object path'')
     else if \<exists>p\<in>set (splitOn CHR ''/'' name). p = ''..'' \<or> p = ''.'' \<or> p = []
     then Some (Fail ''invalid_path'' ''Invalid relative object path'')
     else None)"

section \<open>Operations of a root\<close>

datatype fsnode = FFile string | FDir | FLink | FOther

type_synonym fs = "string \<rightharpoonup> fsnode"

definition notExist :: goerr where
  "notExist = EPathError ''open'' (EErrno 2 ''no such file or directory'')"

text \<open>The loop of \<^verbatim>\<open>Regular\<close>: every existing component is looked at without following links.\<close>

fun regularWalk :: "fs \<Rightarrow> string \<Rightarrow> string list \<Rightarrow> goerr option" where
  "regularWalk f cur [] = None"
| "regularWalk f cur (p # ps) =
    (let cur' = pathJoin cur p in
     (case f cur' of
        None \<Rightarrow> Some notExist
      | Some FLink \<Rightarrow> Some (Fail ''invalid_path'' ''Symbolic links are not transferable'')
      | Some _ \<Rightarrow> regularWalk f cur' ps))"

definition Regular :: "fs \<Rightarrow> string \<Rightarrow> string res" where
  "Regular f name =
    (case Name name of
       Some e \<Rightarrow> Inl e
     | None \<Rightarrow>
       (case regularWalk f [] (splitOn CHR ''/'' name) of
          Some e \<Rightarrow> Inl e
        | None \<Rightarrow>
          (case f name of
             None \<Rightarrow> Inl notExist
           | Some (FFile content) \<Rightarrow> Inr content
           | Some _ \<Rightarrow> Inl (Fail ''invalid_path'' ''Expected ordinary file''))))"

definition Read :: "fs \<Rightarrow> string \<Rightarrow> nat \<Rightarrow> string res" where
  "Read f name m =
    (case Regular f name of
       Inl e \<Rightarrow> Inl e
     | Inr content \<Rightarrow>
        if length (take (m + 1) content) > m then Inl (Fail ''too_large'' ''Object exceeds read limit'')
        else Inr (take (m + 1) content))"

text \<open>The outcomes of the system calls of one \<^verbatim>\<open>Publish\<close> and one \<^verbatim>\<open>Write\<close>.\<close>

record publish_io =
  io_rename :: "goerr option"
  io_opendir :: "goerr option"
  io_syncdir :: "goerr option"

record write_io =
  io_mkdir :: "goerr option"
  io_create :: "goerr option"
  io_copy :: "goerr option"
  io_sync :: "goerr option"
  io_close :: "goerr option"
  io_publish :: publish_io

definition orElse :: "goerr option \<Rightarrow> goerr option \<Rightarrow> goerr option" where
  "orElse a b = (case a of Some e \<Rightarrow> Some e | None \<Rightarrow> b)"

definition Publish :: "publish_io \<Rightarrow> fs \<Rightarrow> string \<Rightarrow> string \<Rightarrow> fs \<times> goerr option" where
  "Publish io f tmp name =
    (case orElse (Name tmp) (Name name) of
       Some e \<Rightarrow> (f, Some e)
     | None \<Rightarrow>
       if pathDir tmp \<noteq> pathDir name
       then (f, Some (Fail ''invalid_path'' ''Publication requires the same directory''))
       else (case io_rename io of
               Some e \<Rightarrow> (f, Some e)
             | None \<Rightarrow>
                (case f tmp of
                   None \<Rightarrow> (f, Some notExist)
                 | Some n \<Rightarrow> (f(name \<mapsto> n, tmp := None), orElse (io_opendir io) (io_syncdir io)))))"

text \<open>
  \<^verbatim>\<open>Write\<close>: \<open>fresh\<close> is the random part of the temporary name, \<open>src\<close> the bytes the
  reader yields and \<open>hash\<close> the SHA-256 of a byte string in hexadecimal.  The
  deferred \<^verbatim>\<open>Remove(tmp)\<close> runs on every return after the creation.
\<close>

definition tmpName :: "string \<Rightarrow> string \<Rightarrow> string" where
  "tmpName name fresh = name @ ''.'' @ fresh @ ''.partial''"

definition createExcl :: "write_io \<Rightarrow> fs \<Rightarrow> string \<Rightarrow> goerr option" where
  "createExcl io f tmp =
    (if f tmp \<noteq> None then Some (EPathError ''openat'' (EErrno 17 ''file exists'')) else io_create io)"

definition Write :: "write_io \<Rightarrow> (string \<Rightarrow> string) \<Rightarrow> string \<Rightarrow> fs \<Rightarrow> string \<Rightarrow> string \<Rightarrow> nat
    \<Rightarrow> fs \<times> (nat \<times> string) res" where
  "Write io hash fresh f name src limit =
    (case orElse (Name name) (orElse (io_mkdir io) (createExcl io f (tmpName name fresh))) of
       Some e \<Rightarrow> (f, Inl e)
     | None \<Rightarrow>
       let tmp = tmpName name fresh;
           data = take (limit + 1) src;
           err = (if length data > limit
                  then Some (Fail ''quota_exceeded'' ''Object exceeds transfer limit'')
                  else io_copy io);
           err = orElse (orElse err (io_sync io)) (io_close io)
       in (case err of
             Some e \<Rightarrow> (f(tmp := None), Inl e)
           | None \<Rightarrow>
             (case Publish (io_publish io) (f(tmp \<mapsto> FFile data)) tmp name of
                (f', Some e) \<Rightarrow> (f'(tmp := None), Inl e)
              | (f', None) \<Rightarrow> (f'(tmp := None), Inr (length data, hash data)))))"

section \<open>Facts about cleaning\<close>

definition plainElem :: "string \<Rightarrow> bool" where
  "plainElem e \<longleftrightarrow> e \<noteq> [] \<and> e \<noteq> ''.'' \<and> e \<noteq> ''..'' \<and> CHR ''/'' \<notin> set e"

lemma cleanLoop_plain:
  "\<forall>e\<in>set es. e \<noteq> ''..'' \<Longrightarrow> cleanLoop r out es = rev out @ es"
  by (induction es arbitrary: out) auto

lemma pathElems_join:
  assumes "\<forall>e\<in>set es. plainElem e"
  shows "pathElems (joinWith ''/'' es) = es"
proof (cases "es = []")
  case False
  then have "splitOn CHR ''/'' (joinWith ''/'' es) = es"
    using assms by (intro join_splitOn) (auto simp: plainElem_def)
  then show ?thesis using assms by (auto simp: pathElems_def plainElem_def filter_id_conv)
qed (simp add: pathElems_def)

lemma isAbs_join: "es \<noteq> [] \<Longrightarrow> \<forall>e\<in>set es. plainElem e \<Longrightarrow> \<not> isAbs (joinWith ''/'' es)"
proof (cases es)
  case (Cons e rest)
  assume "\<forall>e\<in>set es. plainElem e"
  then obtain c cs where "e = c # cs" "c \<noteq> CHR ''/''"
    using Cons by (cases e) (auto simp: plainElem_def)
  then show ?thesis using Cons by (cases rest) (auto simp: isAbs_def)
qed auto

lemma joinWith_Nil: "joinWith sep es = [] \<Longrightarrow> \<forall>e\<in>set es. e \<noteq> [] \<Longrightarrow> es = []"
  by (induction sep es rule: joinWith.induct) auto

lemma Clean_join_plain:
  assumes "es \<noteq> []" "\<forall>e\<in>set es. plainElem e"
  shows "Clean (joinWith ''/'' es) = joinWith ''/'' es"
proof -
  have "joinWith ''/'' es \<noteq> []" using assms joinWith_Nil by (auto simp: plainElem_def)
  then show ?thesis
    using assms by (simp add: Clean_def Let_def isAbs_join pathElems_join cleanLoop_plain plainElem_def)
qed

lemma Name_None_iff:
  "Name name = None \<longleftrightarrow>
     (\<forall>p\<in>set (splitOn CHR ''/'' name). plainElem p) \<and> CHR 0x5C \<notin> set name \<and> CHR 0x00 \<notin> set name"
proof
  assume "Name name = None"
  then show "(\<forall>p\<in>set (splitOn CHR ''/'' name). plainElem p) \<and> CHR 0x5C \<notin> set name \<and> CHR 0x00 \<notin> set name"
    using splitOn_parts[of _ "CHR ''/''" name]
    by (auto simp: Name_def plainElem_def split: if_splits)
next
  assume h: "(\<forall>p\<in>set (splitOn CHR ''/'' name). plainElem p) \<and> CHR 0x5C \<notin> set name \<and> CHR 0x00 \<notin> set name"
  let ?es = "splitOn CHR ''/'' name"
  have es: "?es \<noteq> []" "\<forall>e\<in>set ?es. plainElem e" using h by auto
  have j: "joinWith ''/'' ?es = name" by (rule splitOn_join)
  have "Clean name = name" "\<not> isAbs name" using Clean_join_plain[OF es] isAbs_join[OF es] j by auto
  moreover have "name \<noteq> []" using h by (intro notI) (simp add: plainElem_def)
  moreover have "name \<noteq> ''.''" using h by (intro notI) (simp add: plainElem_def)
  moreover have "\<not> (\<exists>p\<in>set ?es. p = ''..'' \<or> p = ''.'' \<or> p = [])" using es unfolding plainElem_def by blast
  ultimately show "Name name = None" using h unfolding Name_def by (simp only: simp_thms if_False)
qed

text \<open>A rooted path in normal form and an accepted name join without leaving the root.\<close>

lemma joinWith_append:
  "xs \<noteq> [] \<Longrightarrow> ys \<noteq> [] \<Longrightarrow> joinWith sep (xs @ ys) = joinWith sep xs @ sep @ joinWith sep ys"
proof (induction xs)
  case (Cons x xs)
  then show ?case by (cases xs; cases ys) auto
qed simp

lemma Clean_rooted_join:
  assumes "\<forall>e\<in>set es. plainElem e"
  shows "Clean (CHR ''/'' # joinWith ''/'' es) = CHR ''/'' # joinWith ''/'' es"
proof -
  have "pathElems (CHR ''/'' # joinWith ''/'' es) = pathElems (joinWith ''/'' es)"
    by (simp add: pathElems_def)
  then show ?thesis
    using assms by (simp add: Clean_def isAbs_def pathElems_join cleanLoop_plain plainElem_def)
qed

lemma pathJoin_confined:
  assumes root: "\<forall>e\<in>set es. plainElem e" "es \<noteq> []" and name: "Name name = None"
  shows "pathJoin (CHR ''/'' # joinWith ''/'' es) name = CHR ''/'' # joinWith ''/'' es @ ''/'' @ name"
proof -
  let ?ns = "splitOn CHR ''/'' name"
  have ns: "\<forall>e\<in>set (es @ ?ns). plainElem e" using name root by (auto simp: Name_None_iff)
  have "name \<noteq> []" using name by (auto simp: Name_def)
  moreover have "joinWith ''/'' (es @ ?ns) = joinWith ''/'' es @ ''/'' @ name"
    using root by (simp add: joinWith_append splitOn_join)
  ultimately show ?thesis using Clean_rooted_join[OF ns] by (simp add: pathJoin_def)
qed

section \<open>Facts about publication\<close>

lemma tmpName_neq [simp]: "tmpName name fresh \<noteq> name" "name \<noteq> tmpName name fresh"
  by (auto simp: tmpName_def)

lemma Write_Inr:
  assumes "Write io hash fresh f name src limit = (f', Inr (n, h))"
  shows "f' = f(name \<mapsto> FFile src, tmpName name fresh := None) \<and> n = length src \<and>
    h = hash src \<and> length src \<le> limit"
  using assms
  by (auto simp: Write_def Publish_def Let_def orElse_def split: option.splits if_splits prod.splits)

lemma Write_Inl:
  assumes "Write io hash fresh f name src limit = (f', Inl e)"
  shows "f' = f \<or> f' = f(name \<mapsto> FFile src) \<and> length src \<le> limit"
proof (cases "f (tmpName name fresh)")
  case None
  have "f(tmpName name fresh := None) = f" using None by auto
  moreover have "f(name \<mapsto> x, tmpName name fresh := None) = f(name \<mapsto> x)" for x
    using None by (auto simp: fun_eq_iff)
  ultimately show ?thesis using assms None
    by (auto simp: Write_def createExcl_def Publish_def Let_def orElse_def
        split: option.splits if_splits prod.splits)
next
  case Some
  then show ?thesis using assms
    by (auto simp: Write_def createExcl_def orElse_def split: option.splits)
qed

end
