(* ===== verification/Config.thy ===== *)
theory Config
  imports Complex_Main Wire Ipv4 Safefs
begin

text \<open>
  The package \<^verbatim>\<open>internal/config\<close>: the administrator's configuration, its
  defaults and \<^verbatim>\<open>Validate\<close>, which fills in template and timeout defaults and
  refuses values outside their documented ranges.
\<close>

section \<open>Data\<close>

record Media =
  m_Camera :: bool
  m_AudioInput :: bool
  m_AudioOutput :: bool
  m_Accelerate3D :: bool

text \<open>A \<^verbatim>\<open>float64\<close> as the validation sees it.\<close>

datatype gofloat = FNaN | FInf | FVal real

record Template =
  tp_Kind :: string
  tp_VM :: string
  tp_Snapshot :: string
  tp_Username :: string
  tp_Password :: string
  tp_Domain :: string
  tp_Supervisor :: string
  tp_WorkDir :: string
  tp_StartupEnv :: "(string \<times> string) list"
  tp_InputInterval :: "gofloat option"
  tp_CPUs :: int
  tp_MemoryMiB :: int
  tp_MaxCPUs :: int
  tp_MaxMemoryMiB :: int
  tp_Media :: Media
  tp_Cameras :: "(string \<times> string) list"

record Tasks =
  tk_DefaultTimeout :: duration
  tk_MaxDuration :: duration
  tk_CleanupTimeout :: duration
  tk_EvidenceTimeout :: duration

record Network =
  nw_LAN :: string
  nw_WAN :: string
  nw_DNS :: "string list"
  nw_Protected :: "string list"
  nw_PublicHostAddresses :: "string list"
  nw_Listen :: string
  nw_Sources :: "string list"
  nw_PortMin :: int
  nw_PortMax :: int
  nw_LeaseSeconds :: int

record VirtualBox =
  vb_Executable :: string
  vb_LibraryDir :: string
  vb_APIHelper :: string
  vb_ISOBuilder :: string
  vb_StartupTimeout :: duration
  vb_StartupParallelism :: int
  vb_ShutdownTimeout :: duration
  vb_UnavailableAfter :: duration
  vb_RouterISO :: string
  vb_Network :: Network
  vb_Templates :: "(string \<times> Template) list"

record Storage =
  st_SuccessDays :: int
  st_FailureDays :: int
  st_SummaryDays :: int
  st_EvidenceBytes :: int
  st_LowWaterBytes :: int
  st_InputBytes :: int
  st_UploadIdle :: duration
  st_MaxUploadBytes :: int

record Config =
  cf_Tasks :: Tasks
  cf_VirtualBox :: VirtualBox
  cf_Storage :: Storage
  cf_NixSocket :: string

section \<open>Operations\<close>

text \<open>Conversion to whole seconds truncates towards zero.\<close>

definition Duration_Seconds :: "duration \<Rightarrow> int" where
  "Duration_Seconds d = (if d < 0 then - ((- d) div second) else d div second)"

definition Media_Allows :: "Media \<Rightarrow> Media \<Rightarrow> bool" where
  "Media_Allows m v \<longleftrightarrow>
     (\<not> m_Camera v \<or> m_Camera m) \<and> (\<not> m_AudioInput v \<or> m_AudioInput m) \<and>
     (\<not> m_AudioOutput v \<or> m_AudioOutput m) \<and> (\<not> m_Accelerate3D v \<or> m_Accelerate3D m)"

definition VirtualBoxEnabled :: "Config \<Rightarrow> bool" where
  "VirtualBoxEnabled c \<longleftrightarrow>
     vb_RouterISO (cf_VirtualBox c) \<noteq> [] \<or> length (vb_Templates (cf_VirtualBox c)) \<noteq> 0"

definition defaultVirtualBox :: VirtualBox where
  "defaultVirtualBox =
    \<lparr>vb_Executable = [], vb_LibraryDir = [], vb_APIHelper = [], vb_ISOBuilder = [],
     vb_StartupTimeout = 10 * minute, vb_StartupParallelism = 1, vb_ShutdownTimeout = minute,
     vb_UnavailableAfter = 30 * second, vb_RouterISO = [],
     vb_Network = \<lparr>nw_LAN = ''10.77.0.0/24'', nw_WAN = ''10.0.2.0/24'', nw_DNS = [''1.1.1.1'', ''9.9.9.9''],
       nw_Protected = [], nw_PublicHostAddresses = [], nw_Listen = ''127.0.0.1'',
       nw_Sources = [''127.0.0.1/32''], nw_PortMin = 20000, nw_PortMax = 29999, nw_LeaseSeconds = 15\<rparr>,
     vb_Templates = []\<rparr>"

definition Defaults :: Config where
  "Defaults =
    \<lparr>cf_Tasks = \<lparr>tk_DefaultTimeout = hour, tk_MaxDuration = 24 * hour, tk_CleanupTimeout = 5 * minute,
       tk_EvidenceTimeout = 5 * minute\<rparr>,
     cf_VirtualBox = defaultVirtualBox,
     cf_Storage = \<lparr>st_SuccessDays = 1, st_FailureDays = 7, st_SummaryDays = 30,
       st_EvidenceBytes = 40 * 2 ^ 30, st_LowWaterBytes = 32 * 2 ^ 30, st_InputBytes = 16 * 2 ^ 30,
       st_UploadIdle = hour, st_MaxUploadBytes = 8 * 2 ^ 30\<rparr>,
     cf_NixSocket = []\<rparr>"

definition absolute :: "string \<Rightarrow> bool" where
  "absolute p \<longleftrightarrow> isAbs p \<and> Clean p = p \<and> CHR 0x00 \<notin> set p"

definition PrivateLAN :: "prefix4 \<Rightarrow> bool" where
  "PrivateLAN p \<longleftrightarrow>
     (if p \<noteq> Prefix_Masked p \<or> px_bits p > 29 then False
      else list_ex (\<lambda>s. case ParsePrefix4 s of
             None \<Rightarrow> False
           | Some q \<Rightarrow> Prefix_Contains q (px_addr p) \<and> px_bits p \<ge> px_bits q)
           [''10.0.0.0/8'', ''172.16.0.0/12'', ''192.168.0.0/16''])"

definition bad :: "string \<Rightarrow> goerr" where
  "bad s = EText (''invalid configuration: '' @ s)"

definition validateTasks :: "Tasks \<Rightarrow> goerr option" where
  "validateTasks t =
    (if tk_DefaultTimeout t < second \<or> tk_MaxDuration t < tk_DefaultTimeout t \<or>
        tk_MaxDuration t > 24 * hour \<or> tk_CleanupTimeout t < second \<or> tk_CleanupTimeout t > hour
     then Some (bad ''deadline limits'')
     else if tk_EvidenceTimeout t < second \<or> tk_EvidenceTimeout t > hour
     then Some (bad ''evidence_timeout must be between 1s and 1h'')
     else None)"

definition validateStorage :: "Storage \<Rightarrow> goerr option" where
  "validateStorage s =
    (if st_SuccessDays s < 1 \<or> st_FailureDays s < st_SuccessDays s \<or> st_SummaryDays s < st_FailureDays s \<or>
        st_MaxUploadBytes s < 1 \<or> st_MaxUploadBytes s > 8 * 2 ^ 30 \<or>
        st_InputBytes s < st_MaxUploadBytes s \<or> st_LowWaterBytes s < 1 \<or>
        st_EvidenceBytes s \<le> st_LowWaterBytes s \<or> st_UploadIdle s < second
     then Some (bad ''retention limits'')
     else None)"

text \<open>
  \<^verbatim>\<open>strings.TrimSpace(s) == ""\<close>: the bytes are the UTF-8 encodings of white space.
\<close>

fun blankText :: "string \<Rightarrow> bool" where
  "blankText [] = True"
| "blankText (c # cs) =
    (if (of_char c :: nat) \<in> {9, 10, 11, 12, 13, 32} then blankText cs
     else if (of_char c :: nat) = 0xC2 then
       (case cs of d # ds \<Rightarrow> (of_char d :: nat) \<in> {0x85, 0xA0} \<and> blankText ds | [] \<Rightarrow> False)
     else (case cs of
             d # e # ds \<Rightarrow>
               ((of_char c :: nat, of_char d :: nat, of_char e :: nat) \<in>
                  {(0xE1, 0x9A, 0x80), (0xE2, 0x80, 0xA8), (0xE2, 0x80, 0xA9), (0xE2, 0x80, 0xAF),
                   (0xE2, 0x81, 0x9F), (0xE3, 0x80, 0x80)} \<or>
                (of_char c :: nat) = 0xE2 \<and> (of_char d :: nat) = 0x80 \<and>
                0x80 \<le> (of_char e :: nat) \<and> (of_char e :: nat) \<le> 0x8A) \<and> blankText ds
           | _ \<Rightarrow> False))"

definition windowsSupervisor :: string where
  "windowsSupervisor = ''C:'' @ [CHR 0x5C] @ ''ProgramData'' @ [CHR 0x5C] @ ''vm-test'' @ [CHR 0x5C] @ ''vm-test-guest.exe''"

definition windowsWorkDir :: string where
  "windowsWorkDir = ''C:'' @ [CHR 0x5C] @ ''ProgramData'' @ [CHR 0x5C] @ ''vm-test'' @ [CHR 0x5C] @ ''work''"

definition templateDefaults :: "Template \<Rightarrow> Template" where
  "templateDefaults t = t\<lparr>
     tp_Supervisor := (if tp_Supervisor t = [] then
        (if tp_Kind t = ''windows'' then windowsSupervisor else ''/opt/vm-test/vm-test-guest'') else tp_Supervisor t),
     tp_WorkDir := (if tp_WorkDir t = [] then
        (if tp_Kind t = ''windows'' then windowsWorkDir else ''/var/lib/vm-test/work'') else tp_WorkDir t),
     tp_CPUs := (if tp_CPUs t = 0 then 2 else tp_CPUs t),
     tp_MemoryMiB := (if tp_MemoryMiB t = 0 then
        (if tp_Kind t = ''windows'' then 4096 else 2048) else tp_MemoryMiB t),
     tp_MaxCPUs := (if tp_MaxCPUs t = 0 then 8 else tp_MaxCPUs t),
     tp_MaxMemoryMiB := (if tp_MaxMemoryMiB t = 0 then 16384 else tp_MaxMemoryMiB t),
     tp_InputInterval := (case tp_InputInterval t of None \<Rightarrow> Some (FVal 1) | Some v \<Rightarrow> Some v)\<rparr>"

definition intervalOK :: "gofloat option \<Rightarrow> bool" where
  "intervalOK v \<longleftrightarrow> (case v of Some (FVal x) \<Rightarrow> 0 \<le> x \<and> x \<le> 60 | _ \<Rightarrow> False)"

definition windowsDirOK :: "string \<Rightarrow> bool" where
  "windowsDirOK d \<longleftrightarrow> length d \<ge> 3 \<and> d ! 1 = CHR '':'' \<and> (d ! 2 = CHR 0x5C \<or> d ! 2 = CHR ''/'')"

definition validateTemplate :: "string \<Rightarrow> Template \<Rightarrow> goerr option" where
  "validateTemplate name t =
    (if \<not> NamePattern name \<or> (tp_Kind t \<noteq> ''windows'' \<and> tp_Kind t \<noteq> ''linux'') \<or>
        \<not> ValidText (tp_VM t) 256 \<or> blankText (tp_VM t) \<or> \<not> UUIDPattern (tp_Snapshot t) \<or>
        tp_Username t = [] \<or> tp_Password t = [] \<or> \<not> ValidText (tp_Domain t) 256
     then Some (bad ''template identity or guest settings'')
     else if tp_Kind t = ''linux'' \<and> (tp_Username t \<noteq> ''root'' \<or> tp_Domain t \<noteq> [])
     then Some (bad ''Linux templates require root credentials'')
     else if \<not> intervalOK (tp_InputInterval t)
     then Some (bad ''input interval must be 0..60 seconds'')
     else if \<exists>(k, v)\<in>set (tp_StartupEnv t). k = [] \<or> set k \<inter> {CHR ''='', CHR 0x00, CHR 0x0D, CHR 0x0A} \<noteq> {} \<or>
               \<not> ValidText v 4096
     then Some (bad ''startup environment'')
     else if tp_CPUs t < 1 \<or> tp_CPUs t > tp_MaxCPUs t \<or> tp_MemoryMiB t < 128 \<or> tp_MemoryMiB t > tp_MaxMemoryMiB t
     then Some (bad ''template resource bounds'')
     else if \<not> ValidText (tp_WorkDir t) 32768 \<or> (tp_Kind t = ''linux'' \<and> \<not> absolute (tp_WorkDir t)) \<or>
             (tp_Kind t = ''windows'' \<and> \<not> windowsDirOK (tp_WorkDir t))
     then Some (bad ''absolute guest work directory is required'')
     else if \<exists>(k, v)\<in>set (tp_Cameras t). \<not> NamePattern k \<or> v = [] \<or> \<not> ValidText v 4096
     then Some (bad ''camera mapping'')
     else None)"

text \<open>The loop over the template map; the result replaces each entry.\<close>

fun validateTemplates :: "(string \<times> Template) list \<Rightarrow> (string \<times> Template) list res" where
  "validateTemplates [] = Inr []"
| "validateTemplates ((name, t) # ts) =
    (case validateTemplate name (templateDefaults t) of
       Some e \<Rightarrow> Inl e
     | None \<Rightarrow> (case validateTemplates ts of
                 Inl e \<Rightarrow> Inl e
               | Inr ts' \<Rightarrow> Inr ((name, templateDefaults t) # ts')))"

definition timeoutDefaults :: "VirtualBox \<Rightarrow> VirtualBox" where
  "timeoutDefaults v = v\<lparr>
     vb_StartupTimeout := (if vb_StartupTimeout v = 0 then vb_StartupTimeout defaultVirtualBox else vb_StartupTimeout v),
     vb_ShutdownTimeout := (if vb_ShutdownTimeout v = 0 then vb_ShutdownTimeout defaultVirtualBox else vb_ShutdownTimeout v),
     vb_UnavailableAfter := (if vb_UnavailableAfter v = 0 then vb_UnavailableAfter defaultVirtualBox else vb_UnavailableAfter v)\<rparr>"

definition validateTimeouts :: "VirtualBox \<Rightarrow> goerr option" where
  "validateTimeouts v =
    (if list_ex (\<lambda>d. d < second \<or> d > hour) [vb_StartupTimeout v, vb_ShutdownTimeout v, vb_UnavailableAfter v]
     then Some (bad ''node timeouts must be between 1s and 1h'') else None)"

definition validateVirtualBoxPaths :: "Config \<Rightarrow> goerr option" where
  "validateVirtualBoxPaths c =
    (let v = cf_VirtualBox c in
     if VirtualBoxEnabled c \<and>
        list_ex (\<lambda>p. p \<noteq> [] \<and> \<not> absolute p) [vb_Executable v, vb_LibraryDir v, vb_APIHelper v, vb_ISOBuilder v]
     then Some (bad ''VirtualBox path overrides must be absolute'')
     else if VirtualBoxEnabled c \<and> \<not> absolute (vb_RouterISO v)
     then Some (bad ''virtualbox.router.iso must be an absolute Live ISO path'')
     else if cf_NixSocket c \<noteq> [] \<and> \<not> absolute (cf_NixSocket c)
     then Some (bad ''worker socket'')
     else None)"

definition canonicalCIDR :: "string \<Rightarrow> bool" where
  "canonicalCIDR s \<longleftrightarrow> (case ParsePrefix4 s of None \<Rightarrow> False | Some p \<Rightarrow> p = Prefix_Masked p)"

definition validateNetwork :: "Network \<Rightarrow> goerr option" where
  "validateNetwork n =
    (case ParsePrefix4 (nw_LAN n) of
       None \<Rightarrow> Some (bad ''LAN must be a canonical RFC1918 IPv4 subnet /8 through /29'')
     | Some lan \<Rightarrow>
       if \<not> PrivateLAN lan then Some (bad ''LAN must be a canonical RFC1918 IPv4 subnet /8 through /29'')
       else (case ParsePrefix4 (nw_WAN n) of
          None \<Rightarrow> Some (bad ''WAN subnet'')
        | Some wan \<Rightarrow>
          if wan \<noteq> Prefix_Masked wan \<or> px_bits wan > 28 \<or> Prefix_Overlaps lan wan then Some (bad ''WAN subnet'')
          else if ParseAddr4 (nw_Listen n) = None then Some (bad ''endpoint IPv4 listener'')
          else if length (nw_Sources n) = 0 then Some (bad ''endpoint source CIDRs are required'')
          else if list_ex (\<lambda>s. \<not> canonicalCIDR s) (nw_Sources n @ nw_Protected n)
          then Some (bad ''invalid IPv4 CIDR'')
          else if list_ex (\<lambda>s. ParseAddr4 s = None) (nw_DNS n @ nw_PublicHostAddresses n)
          then Some (bad ''invalid IPv4 address'')
          else if length (nw_DNS n) = 0 \<or> length (nw_DNS n) > 8 \<or> nw_PortMin n < 1024 \<or> nw_PortMax n > 65535 \<or>
                  nw_PortMin n > nw_PortMax n \<or> nw_LeaseSeconds n < 5 \<or> nw_LeaseSeconds n > 60
          then Some (bad ''network limits'')
          else None))"

text \<open>
  \<^verbatim>\<open>Config.Validate\<close> from the deadline limits on: \<open>service\<close> is the outcome of the
  checks of the service block and the state directories, which come first.  The
  method updates the configuration in place; the model returns it.
\<close>

definition Config_Validate :: "goerr option \<Rightarrow> Config \<Rightarrow> Config res" where
  "Config_Validate service c =
    (case orElse service (orElse (validateTasks (cf_Tasks c)) (validateStorage (cf_Storage c))) of
       Some e \<Rightarrow> Inl e
     | None \<Rightarrow>
      (case validateTemplates (vb_Templates (cf_VirtualBox c)) of
         Inl e \<Rightarrow> Inl e
       | Inr ts \<Rightarrow>
         let c1 = c\<lparr>cf_VirtualBox := (cf_VirtualBox c)\<lparr>vb_Templates := ts\<rparr>\<rparr> in
         if vb_StartupParallelism (cf_VirtualBox c1) < 1 \<or> vb_StartupParallelism (cf_VirtualBox c1) > 64
         then Inl (bad ''startup_parallelism must be between 1 and 64'')
         else let c2 = c1\<lparr>cf_VirtualBox := timeoutDefaults (cf_VirtualBox c1)\<rparr> in
           (case orElse (validateTimeouts (cf_VirtualBox c2))
                  (orElse (validateVirtualBoxPaths c2) (validateNetwork (vb_Network (cf_VirtualBox c2)))) of
              Some e \<Rightarrow> Inl e
            | None \<Rightarrow> Inr c2)))"

section \<open>Facts\<close>

lemma orElse_None [simp]: "orElse a b = None \<longleftrightarrow> a = None \<and> b = None"
  by (simp add: orElse_def split: option.splits)

lemma templateDefaults_idem [simp]: "templateDefaults (templateDefaults t) = templateDefaults t"
  by (simp add: templateDefaults_def windowsSupervisor_def windowsWorkDir_def split: option.splits)

lemma timeoutDefaults_idem [simp]: "timeoutDefaults (timeoutDefaults v) = timeoutDefaults v"
  by (simp add: timeoutDefaults_def defaultVirtualBox_def time_defs)

lemma validateTemplates_idem: "validateTemplates ts = Inr us \<Longrightarrow> validateTemplates us = Inr us"
proof (induction ts arbitrary: us)
  case (Cons nt ts)
  obtain name t where nt: "nt = (name, t)" by (cases nt)
  from Cons.prems nt obtain us' where v: "validateTemplate name (templateDefaults t) = None"
    and r: "validateTemplates ts = Inr us'" and us: "us = (name, templateDefaults t) # us'"
    by (auto split: option.splits sum.splits)
  show ?case using Cons.IH[OF r] v us by simp
qed simp

lemma validateTemplates_Inr:
  "validateTemplates ts = Inr us \<Longrightarrow> (name, t) \<in> set us \<Longrightarrow> validateTemplate name t = None \<and> templateDefaults t = t"
  by (induction ts arbitrary: us) (auto split: option.splits sum.splits)

lemma Config_Validate_Inr:
  assumes "Config_Validate service c = Inr c'"
  shows "validateTasks (cf_Tasks c') = None" "validateStorage (cf_Storage c') = None"
    "validateNetwork (vb_Network (cf_VirtualBox c')) = None" "validateTimeouts (cf_VirtualBox c') = None"
    "validateTemplates (vb_Templates (cf_VirtualBox c')) = Inr (vb_Templates (cf_VirtualBox c'))"
    "1 \<le> vb_StartupParallelism (cf_VirtualBox c') \<and> vb_StartupParallelism (cf_VirtualBox c') \<le> 64"
  using assms
  by (auto simp: Config_Validate_def Let_def timeoutDefaults_def dest: validateTemplates_idem
      split: option.splits sum.splits if_splits)

lemma samePrefix_mono: "m \<le> n \<Longrightarrow> n \<le> 32 \<Longrightarrow> samePrefix n a b \<Longrightarrow> samePrefix m a b"
proof -
  assume h: "m \<le> n" "n \<le> 32" "samePrefix n a b"
  have "drop_bit (32 - m) x = drop_bit (n - m) (drop_bit (32 - n) x)" for x :: addr
    using h by simp
  with h(3) show ?thesis unfolding samePrefix_def by metis
qed

lemma samePrefix_sym: "samePrefix n a b \<longleftrightarrow> samePrefix n b a"
  by (auto simp: samePrefix_def)

lemma samePrefix_trans: "samePrefix n a b \<Longrightarrow> samePrefix n b c \<Longrightarrow> samePrefix n a c"
  by (simp add: samePrefix_def)

text \<open>Two prefixes that do not overlap share no address.\<close>

lemma not_overlap_disjoint:
  assumes "\<not> Prefix_Overlaps p q" "px_bits p \<le> 32" "px_bits q \<le> 32" "Prefix_Contains p a"
  shows "\<not> Prefix_Contains q a"
proof
  assume "Prefix_Contains q a"
  let ?m = "min (px_bits p) (px_bits q)"
  have "samePrefix ?m (px_addr p) a" "samePrefix ?m (px_addr q) a"
    using assms \<open>Prefix_Contains q a\<close> samePrefix_mono[of ?m "px_bits p"] samePrefix_mono[of ?m "px_bits q"]
    by (auto simp: Prefix_Contains_def)
  then have "samePrefix ?m (px_addr p) (px_addr q)" using samePrefix_sym samePrefix_trans by blast
  with assms(1) show False by (simp add: Prefix_Overlaps_def)
qed

lemma ParsePrefix4_bits: "ParsePrefix4 s = Some p \<Longrightarrow> px_bits p \<le> 32"
  using ParsePrefix4_Some by blast

end
