(* ===== verification/Netpolicy.thy ===== *)
theory Netpolicy
  imports Config
begin

text \<open>
  The package \<^verbatim>\<open>internal/network\<close>: the router policy, its validation, the
  classification of public addresses, and the generated \<^verbatim>\<open>dnsmasq\<close> and \<^verbatim>\<open>nft\<close>
  texts.
\<close>

section \<open>Data\<close>

definition NonPublic :: "string list" where
  "NonPublic =
    [''0.0.0.0/8'', ''10.0.0.0/8'', ''100.64.0.0/10'', ''127.0.0.0/8'', ''169.254.0.0/16'',
     ''172.16.0.0/12'', ''192.0.0.0/29'', ''192.0.0.8/32'', ''192.0.0.11/32'', ''192.0.0.12/30'',
     ''192.0.0.16/28'', ''192.0.0.32/27'', ''192.0.0.64/26'', ''192.0.0.128/25'', ''192.0.2.0/24'',
     ''192.88.99.0/24'', ''192.168.0.0/16'', ''198.18.0.0/15'', ''198.51.100.0/24'', ''203.0.113.0/24'',
     ''224.0.0.0/4'', ''240.0.0.0/4'']"

record Lease =
  l_Name :: string
  l_MAC :: string
  l_IPv4 :: string

record Entry =
  e_Protocol :: string
  e_Port :: int
  e_IPv4 :: string
  e_GuestPort :: int

record Policy =
  p_LAN :: string
  p_WAN :: string
  p_DHCP :: bool
  p_Internet :: bool
  p_DNS :: "string list"
  p_Protected :: "string list"
  p_LeaseSeconds :: int
  p_Nodes :: "Lease list"
  p_Entries :: "Entry list"

section \<open>Operations\<close>

text \<open>
  The text of an address that may be the invalid one, and \<^verbatim>\<open>Next\<close> on it (the
  successor of the last address and of the invalid address is invalid).
\<close>

definition optString :: "addr option \<Rightarrow> string" where
  "optString a = (case a of None \<Rightarrow> ''invalid IP'' | Some x \<Rightarrow> Addr_String x)"

definition optNext :: "addr option \<Rightarrow> addr option" where
  "optNext a = Option.bind a Addr_Next"

definition Gateway :: "string \<Rightarrow> string" where
  "Gateway lan = optString (optNext (map_option px_addr (ParsePrefix4 lan)))"

definition WANAddresses :: "string \<Rightarrow> string \<times> string" where
  "WANAddresses wan =
    (let a = map_option px_addr (ParsePrefix4 wan) in
     (optString ((optNext ^^ 15) a), optString (optNext (optNext a))))"

definition Public :: "addr \<Rightarrow> bool" where
  "Public a \<longleftrightarrow> list_all (\<lambda>s. case ParsePrefix4 s of None \<Rightarrow> True | Some p \<Rightarrow> \<not> Prefix_Contains p a) NonPublic"

definition badPolicy :: goerr where
  "badPolicy = Fail ''invalid_argument'' ''Invalid router policy''"

definition dnsOK :: "string \<Rightarrow> bool" where
  "dnsOK s \<longleftrightarrow> (case ParseAddr4 s of None \<Rightarrow> False | Some a \<Rightarrow> Public a)"

text \<open>The loop over the leases, with the sets of seen addresses, names and hardware addresses.\<close>

fun validateNodes :: "prefix4 \<Rightarrow> string list \<Rightarrow> string list \<Rightarrow> string list \<Rightarrow> Lease list \<Rightarrow> string list option" where
  "validateNodes lan seen names macs [] = Some seen"
| "validateNodes lan seen names macs (n # ns) =
    (case ParseAddr4 (l_IPv4 n) of
       None \<Rightarrow> None
     | Some a \<Rightarrow>
       if \<not> Prefix_Contains lan a \<or>
          \<not> (case Addr_Next a of None \<Rightarrow> False | Some b \<Rightarrow> Prefix_Contains lan b) \<or>
          l_IPv4 n \<in> set seen \<or> \<not> NamePattern (l_Name n) \<or> l_Name n \<in> set names \<or>
          \<not> ParseMAC6 (l_MAC n) \<or> l_MAC n \<in> set macs
       then None
       else validateNodes lan (l_IPv4 n # seen) (l_Name n # names) (l_MAC n # macs) ns)"

definition entryKey :: "Entry \<Rightarrow> string" where
  "entryKey v = e_Protocol v @ '':'' @ showInt (e_Port v)"

fun validateEntries :: "string \<Rightarrow> string list \<Rightarrow> string list \<Rightarrow> Entry list \<Rightarrow> bool" where
  "validateEntries gateway seen ports [] = True"
| "validateEntries gateway seen ports (v # vs) =
    (if (e_Protocol v \<noteq> ''tcp'' \<and> e_Protocol v \<noteq> ''udp'') \<or> e_Port v < 1024 \<or> e_Port v > 65535 \<or>
        e_GuestPort v < 1 \<or> e_GuestPort v > 65535 \<or> e_IPv4 v \<notin> set seen \<or> e_IPv4 v = gateway \<or>
        entryKey v \<in> set ports
     then False
     else validateEntries gateway seen (entryKey v # ports) vs)"

definition Policy_Validate :: "Policy \<Rightarrow> goerr option" where
  "Policy_Validate p =
    (case ParsePrefix4 (p_LAN p) of
       None \<Rightarrow> Some badPolicy
     | Some lan \<Rightarrow>
       if \<not> PrivateLAN lan then Some badPolicy
       else (case ParsePrefix4 (p_WAN p) of
          None \<Rightarrow> Some badPolicy
        | Some wan \<Rightarrow>
          if wan \<noteq> Prefix_Masked wan \<or> px_bits wan > 28 \<or> Prefix_Overlaps lan wan then Some badPolicy
          else if p_LeaseSeconds p < 5 \<or> p_LeaseSeconds p > 60 \<or> length (p_Nodes p) > 64 \<or>
                  length (p_Entries p) > 128 \<or> length (p_Protected p) > 2048 \<or>
                  length (p_DNS p) < 1 \<or> length (p_DNS p) > 8
          then Some badPolicy
          else if \<not> list_all canonicalCIDR (p_Protected p) then Some badPolicy
          else if \<not> list_all dnsOK (p_DNS p) then Some badPolicy
          else (case validateNodes lan [Gateway (p_LAN p), Addr_String (px_addr lan)] [] [] (p_Nodes p) of
                  None \<Rightarrow> Some badPolicy
                | Some seen \<Rightarrow>
                    if \<not> validateEntries (Gateway (p_LAN p)) seen [] (p_Entries p) then Some badPolicy
                    else None)))"

abbreviation nl :: string where "nl \<equiv> [CHR 0x0A]"

definition DNSMasq :: "Policy \<Rightarrow> string res" where
  "DNSMasq p =
    (case Policy_Validate p of
       Some e \<Rightarrow> Inl e
     | None \<Rightarrow> Inr (
        ''interface=lan'' @ nl @ ''bind-interfaces'' @ nl @ ''no-resolv'' @ nl @ ''domain=lab.test'' @ nl @
        ''local=/lab.test/'' @ nl @ ''domain-needed'' @ nl @ ''bogus-priv'' @ nl @ ''no-hosts'' @ nl @
        ''leasefile-ro'' @ nl @
        concat (map (\<lambda>d. ''server='' @ d @ nl) (p_DNS p)) @
        (if p_DHCP p then ''dhcp-range='' @ Gateway (p_LAN p) @ '',static'' @ nl @
           ''dhcp-option=option:router,'' @ Gateway (p_LAN p) @ nl @
           ''dhcp-option=option:dns-server,'' @ Gateway (p_LAN p) @ nl else []) @
        concat (map (\<lambda>n. ''host-record='' @ l_Name n @ ''.lab.test,'' @ l_IPv4 n @ nl @
           (if p_DHCP p then ''dhcp-host='' @ l_MAC n @ '','' @ l_IPv4 n @ '','' @ l_Name n @ '',infinite'' @ nl
            else [])) (p_Nodes p))))"

definition entryRule :: "Entry \<Rightarrow> string" where
  "entryRule v = ''iifname wan '' @ e_Protocol v @ '' dport '' @ showInt (e_Port v) @
     '' ct mark set 1 dnat ip to '' @ e_IPv4 v @ '':'' @ showInt (e_GuestPort v) @ '';'' @ nl"

definition NFT :: "Policy \<Rightarrow> string res" where
  "NFT p =
    (case Policy_Validate p of
       Some e \<Rightarrow> Inl e
     | None \<Rightarrow> Inr (
        ''destroy table inet vm_test'' @ nl @ ''table inet vm_test {'' @ nl @
        ''set protected { type ipv4_addr; flags interval; auto-merge; elements = { '' @
          joinWith '', '' (p_Protected p @ [p_WAN p]) @ '' }; }'' @ nl @
        ''set nonpublic { type ipv4_addr; flags interval; auto-merge; elements = { '' @
          joinWith '', '' NonPublic @ '' }; }'' @ nl @
        ''set alive { type ipv4_addr; flags interval,timeout; timeout '' @ showInt (p_LeaseSeconds p) @
          ''s; elements = { 0.0.0.0/0 timeout '' @ showInt (p_LeaseSeconds p) @ ''s }; }'' @ nl @
        ''chain public { ip daddr @protected drop; ip daddr @nonpublic drop; meta l4proto { tcp, udp } ip daddr @alive accept; ct state related ip daddr @alive accept; drop; }'' @ nl @
        ''chain input { type filter hook input priority 0; policy drop; iifname lo accept; iifname lan udp dport { 53, 67 } accept; iifname lan tcp dport 53 accept;'' @ nl @
        (if p_Internet p then ''iifname wan ip saddr @protected drop; iifname wan ip saddr @nonpublic drop; iifname wan ct state { established, related } ip saddr @alive accept;'' @ nl else []) @
        ''}'' @ nl @
        ''chain output { type filter hook output priority 0; policy drop; oifname lo accept; oifname lan accept;'' @ nl @
        (if p_Internet p then ''oifname wan jump public;'' @ nl else []) @
        ''}'' @ nl @
        ''chain forward { type filter hook forward priority 0; policy drop;'' @ nl @
        ''iifname wan oifname lan ct mark 1 ip saddr @alive accept; iifname lan oifname wan ct mark 1 ip saddr '' @ p_LAN p @ '' ip daddr @alive accept;'' @ nl @
        (if p_Internet p then ''iifname lan oifname wan ip saddr '' @ p_LAN p @ '' jump public;'' @ nl @
           ''iifname wan oifname lan ip saddr @protected drop; iifname wan oifname lan ip saddr @nonpublic drop; iifname wan oifname lan ct state { established, related } ip saddr @alive accept;'' @ nl else []) @
        ''}'' @ nl @
        ''chain prerouting { type nat hook prerouting priority dstnat; policy accept;'' @ nl @
        concat (map entryRule (p_Entries p)) @
        ''}'' @ nl @
        ''chain postrouting { type nat hook postrouting priority srcnat; policy accept; oifname wan masquerade; oifname lan ct mark 1 snat ip to '' @ Gateway (p_LAN p) @ ''; }'' @ nl @ ''}'' @ nl))"

section \<open>Facts about validated policies\<close>

definition broadcastOf :: "prefix4 \<Rightarrow> addr \<Rightarrow> bool" where
  "broadcastOf lan a \<longleftrightarrow> Prefix_Contains lan a \<and>
     (case Addr_Next a of None \<Rightarrow> True | Some b \<Rightarrow> \<not> Prefix_Contains lan b)"

lemma validateNodes_facts:
  assumes "validateNodes lan seen names macs ns = Some seen'"
  shows "set seen' = l_IPv4 ` set ns \<union> set seen"
    and "\<forall>n\<in>set ns. \<exists>a. ParseAddr4 (l_IPv4 n) = Some a \<and> Prefix_Contains lan a \<and> \<not> broadcastOf lan a \<and>
           NamePattern (l_Name n) \<and> ParseMAC6 (l_MAC n)"
    and "distinct (map l_IPv4 ns) \<and> set (map l_IPv4 ns) \<inter> set seen = {}"
    and "distinct (map l_Name ns) \<and> set (map l_Name ns) \<inter> set names = {}"
    and "distinct (map l_MAC ns) \<and> set (map l_MAC ns) \<inter> set macs = {}"
proof -
  have "set seen' = l_IPv4 ` set ns \<union> set seen \<and>
    (\<forall>n\<in>set ns. \<exists>a. ParseAddr4 (l_IPv4 n) = Some a \<and> Prefix_Contains lan a \<and> \<not> broadcastOf lan a \<and>
           NamePattern (l_Name n) \<and> ParseMAC6 (l_MAC n)) \<and>
    distinct (map l_IPv4 ns) \<and> set (map l_IPv4 ns) \<inter> set seen = {} \<and>
    distinct (map l_Name ns) \<and> set (map l_Name ns) \<inter> set names = {} \<and>
    distinct (map l_MAC ns) \<and> set (map l_MAC ns) \<inter> set macs = {}"
    using assms
  proof (induction ns arbitrary: seen names macs)
    case (Cons n ns)
    from Cons.prems obtain a where a: "ParseAddr4 (l_IPv4 n) = Some a" "Prefix_Contains lan a"
        "\<not> broadcastOf lan a" "l_IPv4 n \<notin> set seen" "NamePattern (l_Name n)" "l_Name n \<notin> set names"
        "ParseMAC6 (l_MAC n)" "l_MAC n \<notin> set macs"
      and r: "validateNodes lan (l_IPv4 n # seen) (l_Name n # names) (l_MAC n # macs) ns = Some seen'"
      by (auto simp: broadcastOf_def split: option.splits if_splits)
    show ?case using Cons.IH[OF r] a by auto
  qed simp
  then show "set seen' = l_IPv4 ` set ns \<union> set seen"
    and "\<forall>n\<in>set ns. \<exists>a. ParseAddr4 (l_IPv4 n) = Some a \<and> Prefix_Contains lan a \<and> \<not> broadcastOf lan a \<and>
           NamePattern (l_Name n) \<and> ParseMAC6 (l_MAC n)"
    and "distinct (map l_IPv4 ns) \<and> set (map l_IPv4 ns) \<inter> set seen = {}"
    and "distinct (map l_Name ns) \<and> set (map l_Name ns) \<inter> set names = {}"
    and "distinct (map l_MAC ns) \<and> set (map l_MAC ns) \<inter> set macs = {}"
    by auto
qed

lemma validateEntries_facts:
  assumes "validateEntries gw seen ports vs"
  shows "(\<forall>v\<in>set vs. e_Protocol v \<in> {''tcp'', ''udp''} \<and> 1024 \<le> e_Port v \<and> e_Port v \<le> 65535 \<and>
            1 \<le> e_GuestPort v \<and> e_GuestPort v \<le> 65535 \<and> e_IPv4 v \<in> set seen \<and> e_IPv4 v \<noteq> gw) \<and>
         distinct (map entryKey vs) \<and> set (map entryKey vs) \<inter> set ports = {}"
  using assms
proof (induction vs arbitrary: ports)
  case (Cons v vs)
  from Cons.prems have h: "e_Protocol v \<in> {''tcp'', ''udp''}" "1024 \<le> e_Port v" "e_Port v \<le> 65535"
      "1 \<le> e_GuestPort v" "e_GuestPort v \<le> 65535" "e_IPv4 v \<in> set seen" "e_IPv4 v \<noteq> gw"
      "entryKey v \<notin> set ports"
    and r: "validateEntries gw seen (entryKey v # ports) vs"
    by (auto split: if_splits)
  show ?case using Cons.IH[OF r] h by simp
qed simp

lemma Policy_Validate_None:
  assumes "Policy_Validate p = None"
  obtains lan wan seen where
    "ParsePrefix4 (p_LAN p) = Some lan" "PrivateLAN lan"
    "ParsePrefix4 (p_WAN p) = Some wan" "wan = Prefix_Masked wan" "px_bits wan \<le> 28" "\<not> Prefix_Overlaps lan wan"
    "5 \<le> p_LeaseSeconds p" "p_LeaseSeconds p \<le> 60" "length (p_Nodes p) \<le> 64" "length (p_Entries p) \<le> 128"
    "list_all canonicalCIDR (p_Protected p)" "list_all dnsOK (p_DNS p)" "p_DNS p \<noteq> []"
    "validateNodes lan [Gateway (p_LAN p), Addr_String (px_addr lan)] [] [] (p_Nodes p) = Some seen"
    "validateEntries (Gateway (p_LAN p)) seen [] (p_Entries p)"
  using assms unfolding Policy_Validate_def
  by (simp add: not_less split: option.splits if_splits)

section \<open>No rule text can be smuggled through a validated policy\<close>

text \<open>
  Every field a policy interpolates into the generated texts consists of
  harmless characters: none of them ends a line, a statement or a block.
\<close>

definition special :: "char set" where
  "special = {CHR 0x0A, CHR '';'', CHR ''{'', CHR ''}''}"

definition inert :: "string \<Rightarrow> bool" where
  "inert s \<longleftrightarrow> set s \<inter> special = {}"

lemma inert_Nil [simp]: "inert []"
  by (simp add: inert_def)

lemma inert_append [simp]: "inert (a @ b) \<longleftrightarrow> inert a \<and> inert b"
  by (auto simp: inert_def)

lemma inert_digits: "set s \<subseteq> {CHR ''/'', CHR ''.''} \<union> digits \<Longrightarrow> inert s"
  unfolding inert_def special_def using not_digits by auto

lemma inert_showNat [simp]: "inert (showNat n)"
  using digitText_showNat[of n] by (intro inert_digits) (auto simp: digitText_def)

lemma inert_Cons: "inert (c # s) \<longleftrightarrow> c \<notin> special \<and> inert s"
  by (auto simp: inert_def)

lemma inert_showInt [simp]: "inert (showInt i)"
  by (simp add: showInt_def inert_Cons special_def)

lemma inert_addr: "ParseAddr4 s = Some a \<Longrightarrow> inert s"
  using ParseAddr4_chars[of s a] by (intro inert_digits) auto

lemma inert_prefix: "ParsePrefix4 s = Some a \<Longrightarrow> inert s"
  using ParsePrefix4_chars[of s a] by (rule inert_digits)

lemma inert_Addr_String [simp]: "inert (Addr_String a)"
  by (rule inert_addr[OF ParseAddr4_String])

lemma inert_Gateway [simp]: "inert (Gateway lan)"
  by (simp add: Gateway_def optString_def inert_def[of "''invalid IP''"] special_def split: option.splits)

lemma inert_mac: "ParseMAC6 s \<Longrightarrow> inert s"
proof -
  assume "ParseMAC6 s"
  moreover have "\<not> hexChar c \<and> c \<notin> set '':-.''" if "c \<in> special" for c
    using that by (auto simp: special_def hexChar_def)
  ultimately show ?thesis using ParseMAC6_chars unfolding inert_def by blast
qed

lemma inert_name: "NamePattern s \<Longrightarrow> inert s"
proof -
  assume h: "NamePattern s"
  have nc: "\<not> lowerAlpha c \<and> \<not> decimalDigit c \<and> c \<noteq> CHR ''-''" if "c \<in> special" for c
    using that by (auto simp: special_def lowerAlpha_def decimalDigit_def)
  have "\<forall>c\<in>set s. lowerAlpha c \<or> decimalDigit c \<or> c = CHR ''-''"
    using h by (auto simp: NamePattern_def list_all_iff split: list.splits)
  then show ?thesis using nc unfolding inert_def by blast
qed

lemma inert_join: "inert sep \<Longrightarrow> \<forall>x\<in>set xs. inert x \<Longrightarrow> inert (joinWith sep xs)"
  by (induction sep xs rule: joinWith.induct) auto

definition skeleton :: "string \<Rightarrow> string" where
  "skeleton s = filter (\<lambda>c. c \<in> special) s"

lemma skeleton_append: "skeleton (a @ b) = skeleton a @ skeleton b"
  by (simp add: skeleton_def)

lemma skeleton_inert: "inert s \<Longrightarrow> skeleton s = []"
  by (auto simp: skeleton_def inert_def filter_empty_conv)

lemma skeleton_concat: "skeleton (concat (map f xs)) = concat (map (\<lambda>x. skeleton (f x)) xs)"
  by (induction xs) (auto simp: skeleton_def)

lemma concat_const: "\<forall>x\<in>set xs. f x = c \<Longrightarrow> concat (map f xs) = concat (replicate (length xs) c)"
  by (induction xs) auto

lemma inert_protocol: "s \<in> {''tcp'', ''udp''} \<Longrightarrow> inert s"
  by (auto simp: inert_Cons special_def)

lemma validated_inert:
  assumes "Policy_Validate p = None"
  shows "inert (p_LAN p)" "inert (p_WAN p)" "\<forall>s\<in>set (p_Protected p). inert s" "\<forall>s\<in>set (p_DNS p). inert s"
    "\<forall>n\<in>set (p_Nodes p). inert (l_Name n) \<and> inert (l_MAC n) \<and> inert (l_IPv4 n)"
    "\<forall>v\<in>set (p_Entries p). inert (e_Protocol v) \<and> inert (e_IPv4 v)"
proof -
  obtain lan wan seen where v: "ParsePrefix4 (p_LAN p) = Some lan" "ParsePrefix4 (p_WAN p) = Some wan"
    "list_all canonicalCIDR (p_Protected p)" "list_all dnsOK (p_DNS p)"
    and n: "validateNodes lan [Gateway (p_LAN p), Addr_String (px_addr lan)] [] [] (p_Nodes p) = Some seen"
    and e: "validateEntries (Gateway (p_LAN p)) seen [] (p_Entries p)"
    using assms by (rule Policy_Validate_None)
  show "inert (p_LAN p)" "inert (p_WAN p)" using v by (auto intro: inert_prefix)
  show "\<forall>s\<in>set (p_Protected p). inert s"
    using v(3) by (auto simp: list_all_iff canonicalCIDR_def intro: inert_prefix split: option.splits)
  show "\<forall>s\<in>set (p_DNS p). inert s"
    using v(4) by (auto simp: list_all_iff dnsOK_def intro: inert_addr split: option.splits)
  show nodes: "\<forall>n\<in>set (p_Nodes p). inert (l_Name n) \<and> inert (l_MAC n) \<and> inert (l_IPv4 n)"
    using validateNodes_facts(2)[OF n] by (auto intro: inert_addr inert_mac inert_name)
  have "\<forall>s\<in>set seen. inert s" using nodes validateNodes_facts(1)[OF n] by auto
  then show "\<forall>v\<in>set (p_Entries p). inert (e_Protocol v) \<and> inert (e_IPv4 v)"
    using validateEntries_facts[OF e] inert_protocol by blast
qed

lemma skeleton_showInt [simp]: "skeleton (showInt i) = []"
  by (simp add: skeleton_inert)

lemma skeleton_Gateway [simp]: "skeleton (Gateway lan) = []"
  by (simp add: skeleton_inert)

lemma skeleton_protected:
  assumes "Policy_Validate p = None"
  shows "skeleton (joinWith '', '' (p_Protected p @ [p_WAN p])) = []"
  by (intro skeleton_inert inert_join) (use validated_inert(2,3)[OF assms] in \<open>auto simp: inert_Cons special_def\<close>)

lemma skeleton_entries:
  assumes "Policy_Validate p = None"
  shows "skeleton (concat (map entryRule (p_Entries p))) =
    concat (replicate (length (p_Entries p)) ([CHR '';''] @ nl))"
proof -
  have "skeleton (entryRule v) = [CHR '';''] @ nl" if "v \<in> set (p_Entries p)" for v
  proof -
    have "skeleton (e_Protocol v) = []" "skeleton (e_IPv4 v) = []"
      using validated_inert(6)[OF assms] that by (auto intro: skeleton_inert)
    then have "skeleton (entryRule v) = skeleton ''iifname wan '' @ skeleton '' dport '' @
       skeleton '' ct mark set 1 dnat ip to '' @ skeleton '':'' @ skeleton '';'' @ skeleton nl"
      unfolding entryRule_def by (simp only: skeleton_append skeleton_showInt append_Nil)
    also have "\<dots> = [CHR '';''] @ nl" by (simp add: skeleton_def special_def)
    finally show ?thesis .
  qed
  then show ?thesis unfolding skeleton_concat by (intro concat_const) blast
qed

section \<open>Facts about address classes\<close>

lemma Prefix_Contains_unat:
  "Prefix_Contains p a \<longleftrightarrow>
     unat (px_addr p) div 2 ^ (32 - px_bits p) = unat a div 2 ^ (32 - px_bits p)"
  by (simp only: Prefix_Contains_def samePrefix_def word_unat_eq_iff unat_drop_bit_eq)
     (simp only: drop_bit_eq_div)

lemmas parse_simps = ParsePrefix4_def ParseAddr4_def parseDec_def digitVal_def ofOctets_def Let_def

lemma rfc1918_parse:
  "ParsePrefix4 ''10.0.0.0/8'' = Some \<lparr>px_addr = 167772160, px_bits = 8\<rparr>"
  "ParsePrefix4 ''172.16.0.0/12'' = Some \<lparr>px_addr = 2886729728, px_bits = 12\<rparr>"
  "ParsePrefix4 ''192.168.0.0/16'' = Some \<lparr>px_addr = 3232235520, px_bits = 16\<rparr>"
  by (simp_all add: parse_simps)

lemma Public_not_contains:
  "Public a \<Longrightarrow> s \<in> set NonPublic \<Longrightarrow> ParsePrefix4 s = Some p \<Longrightarrow> \<not> Prefix_Contains p a"
  by (fastforce simp: Public_def list_all_iff)

lemma private_not_public:
  assumes "PrivateLAN lan" "Prefix_Contains lan a"
  shows "\<not> Public a"
proof -
  have bits: "px_bits lan \<le> 32" using assms(1) by (auto simp: PrivateLAN_def split: if_splits)
  from assms(1) obtain s q where s: "s \<in> set [''10.0.0.0/8'', ''172.16.0.0/12'', ''192.168.0.0/16'']"
    and q: "ParsePrefix4 s = Some q" "Prefix_Contains q (px_addr lan)" "px_bits q \<le> px_bits lan"
    unfolding PrivateLAN_def list_ex_iff by (auto split: if_splits option.splits simp del: list.set)
  have "samePrefix (px_bits q) (px_addr lan) a"
    using assms(2) q(3) bits by (intro samePrefix_mono[of "px_bits q" "px_bits lan"]) (auto simp: Prefix_Contains_def)
  then have "Prefix_Contains q a" using q(2) samePrefix_trans by (auto simp: Prefix_Contains_def)
  moreover have "s \<in> set NonPublic" using s by (auto simp: NonPublic_def)
  ultimately show ?thesis using Public_not_contains q(1) by blast
qed

lemma NonPublic_parsed:
  "map ParsePrefix4 NonPublic = map (\<lambda>(a, n). Some \<lparr>px_addr = a, px_bits = n\<rparr>)
    [(0, 8), (167772160, 8), (1681915904, 10), (2130706432, 8), (2851995648, 16), (2886729728, 12),
     (3221225472, 29), (3221225480, 32), (3221225483, 32), (3221225484, 30), (3221225488, 28),
     (3221225504, 27), (3221225536, 26), (3221225600, 25), (3221225984, 24), (3227017984, 24),
     (3232235520, 16), (3323068416, 15), (3325256704, 24), (3405803776, 24), (3758096384, 4), (4026531840, 4)]"
  by (simp add: NonPublic_def parse_simps)

lemma Public_iff:
  "Public a \<longleftrightarrow> list_all (\<lambda>(b, n). b div 2 ^ (32 - n) \<noteq> unat a div 2 ^ (32 - n))
    [(0, 8), (167772160, 8), (1681915904, 10), (2130706432, 8), (2851995648, 16), (2886729728, 12),
     (3221225472, 29), (3221225480, 32), (3221225483, 32), (3221225484, 30), (3221225488, 28),
     (3221225504, 27), (3221225536, 26), (3221225600, 25), (3221225984, 24), (3227017984, 24),
     (3232235520, 16), (3323068416, 15), (3325256704, 24), (3405803776, 24), (3758096384, 4), (4026531840, 4 :: nat)]"
proof -
  have "Public a \<longleftrightarrow> list_all (\<lambda>x. case x of None \<Rightarrow> True | Some p \<Rightarrow> \<not> Prefix_Contains p a) (map ParsePrefix4 NonPublic)"
    by (simp add: Public_def list.pred_map comp_def)
  then show ?thesis
    by (simp only: NonPublic_parsed list.pred_map) (simp add: Prefix_Contains_unat)
qed

lemma unat_192_0_0: "x \<le> 255 \<Longrightarrow> unat (ofOctets 192 0 0 x) = 3221225472 + x"
  by (simp add: ofOctets_def unat_of_nat take_bit_nat_eq_self del: of_nat_add of_nat_mult)

lemma div_192: "x \<le> 255 \<Longrightarrow> k \<le> 30 \<Longrightarrow> (3221225472 + x) div 2 ^ k = 3221225472 div 2 ^ k + x div 2 ^ k" for x k :: nat
proof -
  assume "k \<le> 30"
  then have "(2::nat) ^ k dvd 2 ^ 30" by (rule le_imp_power_dvd)
  then have "(2::nat) ^ k dvd 2 ^ 30 * 3" by (rule dvd_mult2)
  then have "2 ^ k dvd (3221225472 :: nat)" by simp
  then show ?thesis by (rule div_plus_div_distrib_dvd_left)
qed

lemma div_eq_bounds: "0 < n \<Longrightarrow> m div n = k \<longleftrightarrow> k * n \<le> m \<and> m < Suc k * n" for m n k :: nat
  by (metis div_nat_eqI div_times_less_eq_dividend dividend_less_div_times mult.commute mult_Suc add.commute)

lemma anycast_bits: "x \<le> 255 \<Longrightarrow> (x div 8 \<noteq> 0 \<and> x \<noteq> 8 \<and> x \<noteq> 11 \<and> x div 4 \<noteq> 3 \<and> x div 16 \<noteq> 1 \<and> x div 32 \<noteq> 1 \<and>
   x div 64 \<noteq> 1 \<and> x div 128 \<noteq> 1) \<longleftrightarrow> x = 9 \<or> x = 10" for x :: nat
  by (subst div_eq_bounds, simp)+ auto

lemma anycast: "x \<le> 255 \<Longrightarrow> Public (ofOctets 192 0 0 x) \<longleftrightarrow> x = 9 \<or> x = 10"
  unfolding Public_iff anycast_bits[symmetric] 
  by (simp only: unat_192_0_0 list.pred_inject prod.case diff_0_eq_0 div_192[of x]) (simp add: div_192[of x, of 28] div_192[of x, of 24]  div_192[of x, of 22] div_192[of x, of 20] div_192[of x, of 17] div_192[of x, of 16] div_192[of x, of 8] div_192[of x, of 7] div_192[of x, of 6] div_192[of x, of 5] div_192[of x, of 4] div_192[of x, of 3] div_192[of x, of 2] div_less)
section \<open>Properties\<close>

text \<open>
  In a validated policy the leases are pairwise distinct addresses of the LAN;
  none is the network address, the gateway or the broadcast address, and none is
  an address of the WAN block.
\<close>
lemma leases_sound:
  assumes "Policy_Validate p = None"
  shows "\<exists>lan wan as. ParsePrefix4 (p_LAN p) = Some lan \<and> ParsePrefix4 (p_WAN p) = Some wan \<and>
    map ParseAddr4 (map l_IPv4 (p_Nodes p)) = map Some as \<and> distinct as \<and>
    (\<forall>a\<in>set as. Prefix_Contains lan a \<and> a \<noteq> px_addr lan \<and> Addr_String a \<noteq> Gateway (p_LAN p) \<and>
       \<not> broadcastOf lan a \<and> \<not> Prefix_Contains wan a \<and> \<not> Public a)"
proof -
  from assms obtain lan wan seen where
    v: "ParsePrefix4 (p_LAN p) = Some lan" "ParsePrefix4 (p_WAN p) = Some wan" "\<not> Prefix_Overlaps lan wan" "PrivateLAN lan"
    and n: "validateNodes lan [Gateway (p_LAN p), Addr_String (px_addr lan)] [] [] (p_Nodes p) = Some seen"
    by (rule Policy_Validate_None)
  let ?ss = "map l_IPv4 (p_Nodes p)" and ?as = "map (the \<circ> ParseAddr4) (map l_IPv4 (p_Nodes p))"
  note f = validateNodes_facts[OF n]
  have parsed: "\<forall>s\<in>set ?ss. ParseAddr4 s \<noteq> None" using f(2) by fastforce
  then have eq: "map ParseAddr4 ?ss = map Some ?as" by auto
  have d: "distinct ?as" using f(3) parsed by (intro ipv4_text.distinct_parsed) auto
  have "Prefix_Contains lan a \<and> a \<noteq> px_addr lan \<and> Addr_String a \<noteq> Gateway (p_LAN p) \<and>
       \<not> broadcastOf lan a \<and> \<not> Prefix_Contains wan a \<and> \<not> Public a" if "a \<in> set ?as" for a
  proof -
    from that obtain m where m: "m \<in> set (p_Nodes p)" "a = the (ParseAddr4 (l_IPv4 m))" by auto
    then have a: "ParseAddr4 (l_IPv4 m) = Some a" "Prefix_Contains lan a" "\<not> broadcastOf lan a"
      using f(2) by auto
    then have s: "Addr_String a = l_IPv4 m" by (simp add: ipv4_text.parse_iff)
    have i: "l_IPv4 m \<in> l_IPv4 ` set (p_Nodes p)" using m(1) by (rule imageI)
    show ?thesis using a i s f(3) not_overlap_disjoint[OF v(3)] private_not_public[OF v(4)]
        ParsePrefix4_bits[OF v(1)] ParsePrefix4_bits[OF v(2)] by auto
  qed
  with v eq d show ?thesis by blast
qed

definition samplePolicy :: "int \<Rightarrow> Policy" where
  "samplePolicy lease = \<lparr>p_LAN = ''10.1.0.0/24'', p_WAN = ''10.2.0.0/28'', p_DHCP = True, p_Internet = True,
     p_DNS = [''1.1.1.1''], p_Protected = [''203.0.113.0/24''], p_LeaseSeconds = lease,
     p_Nodes = [\<lparr>l_Name = ''a'', l_MAC = ''02:00:00:00:00:01'', l_IPv4 = ''10.1.0.2''\<rparr>],
     p_Entries = [\<lparr>e_Protocol = ''tcp'', e_Port = 2022, e_IPv4 = ''10.1.0.2'', e_GuestPort = 22\<rparr>]\<rparr>"

lemma sample_dns: "Public 0x01010101"
  unfolding Public_iff by simp

lemma sample_show: "showNat 0 = ''0''" "showNat (Suc 0) = ''1''" "showNat 10 = ''10''"
  by (simp_all add: showNat.simps digitChar_def)

lemmas sample_eval = Policy_Validate_def samplePolicy_def parse_simps PrivateLAN_def Prefix_Masked_def
  Prefix_Overlaps_def samePrefix_def Prefix_Contains_def canonicalCIDR_def dnsOK_def sample_dns Gateway_def
  optString_def optNext_def Addr_Next_def entryKey_def Addr_String_def octets_def showInt_def ParseMAC6_def
  hexChar_def NamePattern_def lowerAlpha_def decimalDigit_def sample_show

lemma samplePolicy_ok: "5 \<le> t \<Longrightarrow> t \<le> 60 \<Longrightarrow> Policy_Validate (samplePolicy t) = None"
  by (simp add: sample_eval)

text \<open>
  C29. No field of a validated policy can add a line, a statement or a block to the
  generated \<^verbatim>\<open>nft\<close> script: two accepted policies with the same \<^verbatim>\<open>Internet\<close> flag
  and the same number of entries give scripts with the same sequence of newlines,
  semicolons and braces.
\<close>
theorem NFT_structure:
  assumes "NFT p = Inr t" "NFT q = Inr u"
    and "p_Internet p = p_Internet q" "length (p_Entries p) = length (p_Entries q)"
  shows "skeleton t = skeleton u"
proof -
  have v: "Policy_Validate p = None" "Policy_Validate q = None"
    using assms by (auto simp: NFT_def split: option.splits)
  have l: "skeleton (p_LAN p) = []" "skeleton (p_LAN q) = []"
    using validated_inert(1) v by (auto intro: skeleton_inert)
  note t = assms(1)[unfolded NFT_def v option.case sum.inject, symmetric]
  note u = assms(2)[unfolded NFT_def v option.case sum.inject, symmetric]
  show ?thesis
    by (cases "p_Internet q"; simp only: t u assms(3,4) skeleton_append skeleton_showInt skeleton_Gateway
        skeleton_protected[OF v(1)] skeleton_protected[OF v(2)] skeleton_entries[OF v(1)] skeleton_entries[OF v(2)]
        l append_Nil if_True if_False)
qed

theorem NFT_structure_witness:
  "\<exists>t u. NFT (samplePolicy 30) = Inr t \<and> NFT (samplePolicy 45) = Inr u \<and> skeleton t = skeleton u"
proof -
  obtain t u where tu: "NFT (samplePolicy 30) = Inr t" "NFT (samplePolicy 45) = Inr u"
    by (simp add: NFT_def samplePolicy_ok)
  then show ?thesis using NFT_structure[OF tu] by (simp add: samplePolicy_def)
qed

text \<open>
  In the special-purpose block 192.0.0.0/24 exactly the two globally reachable
  anycast addresses 192.0.0.9 and 192.0.0.10 count as public.
\<close>
lemma Public_anycast:
  "x \<le> 255 \<Longrightarrow> Public (ofOctets 192 0 0 x) \<longleftrightarrow> x = 9 \<or> x = 10"
  by (rule anycast)

text \<open>
  The validation of entries admits the network address of the LAN as a forwarding
  target, although no node can lease it: the table of known addresses is seeded with
  it and only the gateway is excluded again.
\<close>
lemma entry_may_target_network_address:
  "Policy_Validate ((samplePolicy 30)\<lparr>p_Entries :=
     [\<lparr>e_Protocol = ''tcp'', e_Port = 2022, e_IPv4 = ''10.1.0.0'', e_GuestPort = 22\<rparr>]\<rparr>) = None"
  by (simp add: sample_eval)

end
