(* ===== verification/Health.thy ===== *)
theory Health
  imports Wire
begin

text \<open>
  Capability observations of a node (\<^verbatim>\<open>internal/control/health.go\<close>): the update of
  one observation with its thresholds, the three observations of a node, the
  verdict during startup, and the records of preparation, expected power state
  and cleanup steps.
\<close>

section \<open>Data\<close>

record Observation =
  ob_State :: string
  ob_Checked :: "gotime option"
  ob_LastSuccess :: "gotime option"
  ob_FailureSince :: "gotime option"
  ob_Failures :: int
  ob_Successes :: int
  ob_Error :: "werror option"

definition zeroObservation :: Observation where
  "zeroObservation = \<lparr>ob_State = [], ob_Checked = None, ob_LastSuccess = None, ob_FailureSince = None,
     ob_Failures = 0, ob_Successes = 0, ob_Error = None\<rparr>"

record Health =
  h_VirtualBox :: Observation
  h_GuestControl :: Observation
  h_Commands :: Observation

record Preparation =
  pr_Stage :: string
  pr_Started :: "gotime option"
  pr_StageStarted :: "gotime option"
  pr_Deadline :: "gotime option"
  pr_Updated :: gotime
  pr_Error :: "werror option"

record ExpectedState =
  ex_RequestID :: string
  ex_BeforeBoot :: string
  ex_Dispatched :: "gotime option"
  ex_Ready :: bool
  ex_PowerObserved :: bool
  ex_Action :: string
  ex_Power :: string
  ex_Requested :: gotime
  ex_Until :: "gotime option"

record CleanupStep =
  cl_State :: string
  cl_Attempts :: int
  cl_Started :: "gotime option"
  cl_Deadline :: "gotime option"
  cl_Updated :: gotime
  cl_Error :: "werror option"

text \<open>
  The fields of a node's status report that the controller reads.  The guest map
  (\<^verbatim>\<open>map[string]any\<close>) is an association list; a missing key is \<^verbatim>\<open>nil\<close>.
\<close>

type_synonym guestmap = "(string \<times> gval) list"

record NodeStatus =
  ns_State :: string
  ns_Guest :: guestmap
  ns_GuestError :: "werror option"
  ns_ServiceError :: "werror option"
  ns_PreparationFailed :: bool

section \<open>Operations\<close>

definition Observation_update :: "gotime \<Rightarrow> werror option \<Rightarrow> duration \<Rightarrow> bool \<Rightarrow> Observation \<Rightarrow> Observation" where
  "Observation_update now err after immediate obs =
    (let o1 = obs\<lparr>ob_Checked := Some now\<rparr> in
     case err of
       None \<Rightarrow>
        let o2 = o1\<lparr>ob_LastSuccess := Some now, ob_FailureSince := None, ob_Error := None,
                    ob_Failures := 0, ob_Successes := ob_Successes o1 + 1\<rparr> in
        if ob_State o2 \<noteq> ''unavailable'' \<or> ob_Successes o2 \<ge> 2 then o2\<lparr>ob_State := ''available''\<rparr> else o2
     | Some e \<Rightarrow>
        let o2 = o1\<lparr>ob_Successes := 0, ob_Error := Some e\<rparr> in
        if Code e = ''resource_busy''
        then (if ob_State o2 \<noteq> ''unavailable'' then o2\<lparr>ob_State := ''unknown''\<rparr> else o2)
        else
          let since = (case ob_FailureSince o2 of None \<Rightarrow> now | Some t \<Rightarrow> t);
              o3 = o2\<lparr>ob_FailureSince := Some since, ob_Failures := ob_Failures o2 + 1\<rparr> in
          if immediate \<or> (ob_Failures o3 \<ge> 3 \<and> now - since \<ge> after)
          then o3\<lparr>ob_State := ''unavailable''\<rparr>
          else if ob_State o3 \<noteq> ''unavailable'' then o3\<lparr>ob_State := ''suspect''\<rparr> else o3)"

definition Health_unavailable :: "Health \<Rightarrow> bool" where
  "Health_unavailable h \<longleftrightarrow> ob_State (h_VirtualBox h) = ''unavailable'' \<or>
     ob_State (h_GuestControl h) = ''unavailable'' \<or> ob_State (h_Commands h) = ''unavailable''"

definition normalizeObservation :: "Observation \<Rightarrow> Observation" where
  "normalizeObservation obs = (if ob_State obs = [] then obs\<lparr>ob_State := ''unknown''\<rparr> else obs)"

definition Health_normalize :: "Health \<Rightarrow> Health" where
  "Health_normalize h = h\<lparr>h_VirtualBox := normalizeObservation (h_VirtualBox h),
     h_GuestControl := normalizeObservation (h_GuestControl h),
     h_Commands := normalizeObservation (h_Commands h)\<rparr>"

text \<open>The details of an error that carries the observations.\<close>

definition timeVal :: "gotime option \<Rightarrow> gval" where
  "timeVal t = (case t of None \<Rightarrow> GNil | Some x \<Rightarrow> GTime x)"

definition observationVal :: "Observation \<Rightarrow> gval" where
  "observationVal obs = GMap
     [(''state'', GStr (ob_State obs)), (''checked'', timeVal (ob_Checked obs)),
      (''last_success'', timeVal (ob_LastSuccess obs)), (''failure_since'', timeVal (ob_FailureSince obs)),
      (''failures'', GInt (ob_Failures obs)), (''successes'', GInt (ob_Successes obs)),
      (''error'', case ob_Error obs of None \<Rightarrow> GNil | Some e \<Rightarrow> GErr e)]"

definition healthVal :: "Health \<Rightarrow> gval" where
  "healthVal h = GMap [(''virtualbox'', observationVal (h_VirtualBox h)),
     (''guest_control'', observationVal (h_GuestControl h)), (''commands'', observationVal (h_Commands h))]"

definition guestNotReady :: "werror option \<Rightarrow> bool" where
  "guestNotReady e = (case e of None \<Rightarrow> False | Some x \<Rightarrow> Code x = ''guest_not_ready'')"

definition startupFailure ::
  "gotime \<Rightarrow> NodeStatus \<Rightarrow> goerr option \<Rightarrow> duration \<Rightarrow> Health \<Rightarrow> Health \<times> werror option" where
  "startupFailure now status err after h =
    (let h1 = (case err of
        Some e \<Rightarrow> h\<lparr>h_VirtualBox := Observation_update now (Some (Safe e)) after False (h_VirtualBox h)\<rparr>
      | None \<Rightarrow>
          let ha = h\<lparr>h_VirtualBox := Observation_update now None after False (h_VirtualBox h)\<rparr>;
              hb = (if ob_LastSuccess (h_GuestControl ha) = None \<and> ns_GuestError status = None
                    then ha\<lparr>h_GuestControl := (h_GuestControl ha)\<lparr>ob_State := ''unknown''\<rparr>\<rparr> else ha);
              hc = hb\<lparr>h_GuestControl := Observation_update now (ns_GuestError status) after False (h_GuestControl hb)\<rparr>;
              serviceErr = (if guestNotReady (ns_ServiceError status) then None else ns_ServiceError status)
          in if ns_GuestError status = None
             then hc\<lparr>h_Commands := Observation_update now serviceErr after (ns_PreparationFailed status) (h_Commands hc)\<rparr>
             else hc)
     in (h1,
         if ob_State (h_VirtualBox h1) = ''unavailable'' \<or>
            (ob_State (h_GuestControl h1) = ''unavailable'' \<and> ob_LastSuccess (h_GuestControl h1) \<noteq> None) \<or>
            ob_State (h_Commands h1) = ''unavailable''
         then Some (WError ''node_unavailable'' ''Node control capability remained unresponsive during preparation''
                [] [] [] [(''observations'', healthVal h1)])
         else None))"

section \<open>The specification of an observation's state\<close>

text \<open>
  A probe is a time and an error; the run of a list of probes without immediate
  verdicts.  A probe succeeds, finds the resource busy, or fails.
\<close>

type_synonym probe = "gotime \<times> werror option"

definition updates :: "duration \<Rightarrow> probe list \<Rightarrow> Observation \<Rightarrow> Observation" where
  "updates after ps obs = fold (\<lambda>(now, err). Observation_update now err after False) ps obs"

definition succeeds :: "probe \<Rightarrow> bool" where
  "succeeds p \<longleftrightarrow> snd p = None"

definition fails :: "probe \<Rightarrow> bool" where
  "fails p \<longleftrightarrow> (case snd p of None \<Rightarrow> False | Some e \<Rightarrow> Code e \<noteq> ''resource_busy'')"

text \<open>
  The failures of the current outage: the failing probes after the last success.
\<close>

definition outage :: "probe list \<Rightarrow> probe list" where
  "outage ps = filter fails (rev (takeWhile (\<lambda>p. \<not> succeeds p) (rev ps)))"

fun twoSuccesses :: "probe list \<Rightarrow> bool" where
  "twoSuccesses (p # q # ps) = (succeeds p \<and> succeeds q \<or> twoSuccesses (q # ps))"
| "twoSuccesses _ = False"

text \<open>
  An outage is declared at a failing probe when at least three probes of it failed and the
  first of them is at least \<open>after\<close> old.
\<close>

definition declared :: "duration \<Rightarrow> probe list \<Rightarrow> bool" where
  "declared after ps \<longleftrightarrow> ps \<noteq> [] \<and> fails (last ps) \<and> length (outage ps) \<ge> 3 \<and>
     fst (last ps) - fst (hd (outage ps)) \<ge> after"

lemma outage_snoc:
  "outage (ps @ [p]) = (if succeeds p then [] else outage ps @ (if fails p then [p] else []))"
  by (simp add: outage_def)

lemma updates_Nil [simp]: "updates after [] obs = obs"
  by (simp add: updates_def)

lemma updates_snoc [simp]:
  "updates after (ps @ [p]) obs = Observation_update (fst p) (snd p) after False (updates after ps obs)"
  by (simp add: updates_def split_beta)

lemma updates_counters:
  "ob_Failures (updates after ps zeroObservation) = int (length (outage ps)) \<and>
   ob_FailureSince (updates after ps zeroObservation) = (if outage ps = [] then None else Some (fst (hd (outage ps)))) \<and>
   ob_Successes (updates after ps zeroObservation) = int (length (takeWhile succeeds (rev ps)))"
proof (induction ps rule: rev_induct)
  case Nil
  then show ?case by (simp add: zeroObservation_def outage_def)
next
  case (snoc p ps)
  obtain t e where p: "p = (t, e)" by force
  show ?case
  proof (cases e)
    case None
    then show ?thesis using snoc p
      by (simp add: Observation_update_def Let_def outage_snoc succeeds_def fails_def)
  next
    case (Some x)
    then show ?thesis using snoc p
      by (auto simp: Observation_update_def Let_def outage_snoc succeeds_def fails_def)
  qed
qed

lemma twoSuccesses_snoc:
  "twoSuccesses (ps @ [p]) \<longleftrightarrow> twoSuccesses ps \<or> ps \<noteq> [] \<and> succeeds (last ps) \<and> succeeds p"
  by (induction ps rule: twoSuccesses.induct) auto

lemma updates_state_snoc:
  "ob_State (updates after (ps @ [p]) zeroObservation) = ''unavailable'' \<longleftrightarrow>
     declared after (ps @ [p]) \<or>
     ob_State (updates after ps zeroObservation) = ''unavailable'' \<and> \<not> (ps \<noteq> [] \<and> succeeds (last ps) \<and> succeeds p)"
proof -
  let ?o = "updates after ps zeroObservation"
  note c = updates_counters[of after ps]
  have s: "ob_Successes ?o \<ge> 1 \<longleftrightarrow> ps \<noteq> [] \<and> succeeds (last ps)"
    using c by (cases ps rule: rev_cases) auto
  have nn: "ob_Successes ?o \<ge> 0" using c by simp
  obtain t e where p: "p = (t, e)" by force
  show ?thesis
  proof (cases e)
    case None
    then have "succeeds p" "\<not> fails p" by (simp_all add: p succeeds_def fails_def)
    moreover have "ob_Successes ?o + 1 \<ge> 2 \<longleftrightarrow> ps \<noteq> [] \<and> succeeds (last ps)" using s by linarith
    ultimately show ?thesis using None 
      by (auto simp: p Observation_update_def Let_def declared_def)
  next
    case (Some x)
    then have "\<not> succeeds p" "fails p \<longleftrightarrow> Code x \<noteq> ''resource_busy''" by (simp_all add: p succeeds_def fails_def)
    then show ?thesis using Some c
      by (auto simp: p Observation_update_def Let_def declared_def outage_snoc)
  qed
qed


text \<open>
  While a guest answers, startup never fails for lack of readiness: a status with
  no guest error and no service error other than \<^verbatim>\<open>guest_not_ready\<close> yields no
  failure, however long preparation takes, unless an earlier observation of the
  hypervisor or of the command service was already unavailable.
\<close>
lemma startup_tolerates_initialising_guest:
  assumes "ns_GuestError status = None"
    and "ns_ServiceError status = None \<or> guestNotReady (ns_ServiceError status)"
    and "ob_State (h_VirtualBox h) \<noteq> ''unavailable''" "ob_State (h_Commands h) \<noteq> ''unavailable''"
    and "ob_State (h_GuestControl h) = ''unavailable'' \<longrightarrow> ob_LastSuccess (h_GuestControl h) = None"
  shows "snd (startupFailure now status None after h) = None"
  using assms by (auto simp: startupFailure_def Observation_update_def Let_def)

end
