(* ===== verification/Polling.thy ===== *)
theory Polling
  imports Ipv4 Health
begin

text \<open>
  Poll schedules and the retry delay with stable jitter
  (\<^verbatim>\<open>internal/control/polling.go\<close>).
\<close>

section \<open>Data and operations\<close>

unbundle bit_operations_syntax

record PollSchedule =
  po_Next :: "gotime option"
  po_IntervalMS :: int
  po_Reason :: string

definition zeroSchedule :: PollSchedule where
  "zeroSchedule = \<lparr>po_Next = None, po_IntervalMS = 0, po_Reason = []\<rparr>"

definition PollSchedule_due :: "PollSchedule \<Rightarrow> gotime \<Rightarrow> bool" where
  "PollSchedule_due p now \<longleftrightarrow> (case po_Next p of None \<Rightarrow> True | Some t \<Rightarrow> \<not> now < t)"

definition PollSchedule_set :: "gotime \<Rightarrow> duration \<Rightarrow> string \<Rightarrow> PollSchedule \<Rightarrow> PollSchedule" where
  "PollSchedule_set now delay reason p =
    p\<lparr>po_Next := Some (now + delay), po_IntervalMS := quot delay millisecond, po_Reason := reason\<rparr>"

text \<open>The 32-bit FNV-1a hash of the Go standard library.\<close>

definition fnv32a :: "string \<Rightarrow> 32 word" where
  "fnv32a s = fold (\<lambda>c h. (h XOR of_nat (of_char c)) * 16777619) s 2166136261"

text \<open>
  \<^verbatim>\<open>int64(delay) * (800 + jitter) / 1000\<close> and the product with the power of two wrap
  like every \<^verbatim>\<open>int64\<close> product.
\<close>

definition retryDelay :: "string \<Rightarrow> nat \<Rightarrow> duration \<Rightarrow> duration" where
  "retryDelay ident failures base =
    (if failures = 0 then base
     else
       let delay = min (30 * second) (int64 (base * 2 ^ min failures 5));
           h = fnv32a (ident @ '':'' @ showInt (int failures));
           jittered = quot (int64 (delay * (800 + int (unat h mod 401)))) 1000
       in min jittered (30 * second))"

record preparationPolling =
  pp_stage :: string
  pp_retries :: nat

definition preparationPolling_next ::
  "preparationPolling \<Rightarrow> string \<Rightarrow> string \<Rightarrow> gotime \<Rightarrow> preparationPolling \<times> PollSchedule" where
  "preparationPolling_next p ident stage now =
    (let p1 = (if pp_stage p \<noteq> stage then p\<lparr>pp_stage := stage, pp_retries := 0\<rparr>
               else p\<lparr>pp_retries := min (pp_retries p + 1) 5\<rparr>);
         reason = (if pp_retries p1 > 0 then ''preparation_backoff'' else ''preparation_wait'')
     in (p1, PollSchedule_set now (retryDelay ident (pp_retries p1) (2 * second)) reason zeroSchedule))"

section \<open>Bounds of the delay\<close>

lemma retryDelay_0 [simp]: "retryDelay ident 0 base = base"
  by (simp add: retryDelay_def)

lemma jitter_bounds: "800 \<le> 800 + int (unat (h :: 32 word) mod 401) \<and> 800 + int (unat h mod 401) \<le> 1200"
proof -
  have "unat h mod 401 \<le> 400" using mod_less_divisor[of 401 "unat h"] by linarith
  then show ?thesis by simp
qed

lemma doubled_bounds:
  assumes "0 < base" "base \<le> 24 * second" "0 < f"
  obtains x where "base * 2 ^ min f 5 = x" "2 * base \<le> x" "int64 x = x"
proof -
  have "(2::int) ^ 1 \<le> 2 ^ min f 5" using assms(3) by (intro power_increasing) auto
  then have two: "2 \<le> (2::int) ^ min f 5" by simp
  have le: "(2::int) ^ min f 5 \<le> 2 ^ 5" by (intro power_increasing) auto
  define x where "x = base * 2 ^ min f 5"
  have low: "2 * base \<le> x" unfolding x_def using two assms(1) by (simp add: mult.commute mult_left_mono)
  have "x \<le> (24 * second) * 2 ^ 5"
    unfolding x_def using assms le two by (intro mult_mono) (auto simp: second_def)
  then have "int64 x = x" using low assms by (intro int64_id) (simp_all add: second_def)
  then show thesis using low by (intro that[of x]) (auto simp: x_def)
qed

lemma retryDelay_bounds:
  assumes "0 < base" "base \<le> 24 * second"
  shows "base \<le> retryDelay ident f base \<and> retryDelay ident f base \<le> 30 * second"
proof (cases "f = 0")
  case True
  then show ?thesis using assms by (simp add: second_def)
next
  case False
  define d where "d = min (30 * second) (int64 (base * 2 ^ min f 5))"
  define j where "j = 800 + int (unat (fnv32a (ident @ '':'' @ showInt (int f))) mod 401)"
  have j: "800 \<le> j" "j \<le> 1200" using jitter_bounds by (simp_all add: j_def)
  obtain x where x: "base * 2 ^ min f 5 = x" "2 * base \<le> x" "int64 x = x"
    using False doubled_bounds[OF assms, of f] by blast
  have d: "0 < d" "d \<le> 30 * second" "min (30 * second) (2 * base) \<le> d"
    using x assms by (auto simp: d_def x(1) second_def)
  have prod: "d * 800 \<le> d * j" using j d by (intro mult_left_mono) auto
  have prod2: "d * j \<le> (30 * second) * 1200" using j d by (intro mult_mono) (auto simp: second_def)
  have nn: "0 \<le> d * j" using d(1) j(1) by simp
  then have w: "int64 (d * j) = d * j" using prod2 by (intro int64_id) (simp_all add: second_def)
  have r: "retryDelay ident f base = min (quot (int64 (d * j)) 1000) (30 * second)"
    using False unfolding retryDelay_def Let_def d_def j_def by (simp only: if_False)
  then have r: "retryDelay ident f base = min (d * j div 1000) (30 * second)" using w nn by simp
  have "base * 1000 \<le> d * 800" using d(3) assms by (auto simp: min_def second_def split: if_splits)
  then have "base \<le> d * j div 1000" using prod by (simp add: zdiv_mono1 [of "base * 1000" "d * j" 1000, simplified])
  then show ?thesis using r assms by (simp add: second_def)
qed

section \<open>Rate of scheduled polls\<close>

text \<open>
  The polls of one resource, each with its number of failures: after each the next is
  scheduled with the delay, and a poll happens only when the schedule is due.
\<close>

definition scheduled :: "(nat \<Rightarrow> duration) \<Rightarrow> gotime \<Rightarrow> nat \<Rightarrow> PollSchedule" where
  "scheduled delay now f = PollSchedule_set now (delay f) [] zeroSchedule"

fun paced :: "(nat \<Rightarrow> duration) \<Rightarrow> (gotime \<times> nat) list \<Rightarrow> bool" where
  "paced delay ((t, f) # (u, g) # ps) \<longleftrightarrow>
     PollSchedule_due (scheduled delay t f) u \<and> paced delay ((u, g) # ps)"
| "paced delay _ = True"

locale delay_policy =
  fixes delay :: "nat \<Rightarrow> duration"
    and shortest :: duration
    and longest :: duration
  assumes delay_bounds: "shortest \<le> delay f \<and> delay f \<le> longest"
begin

lemma not_due_early: "PollSchedule_due (scheduled delay now f) t \<Longrightarrow> now + shortest \<le> t"
  using delay_bounds[of f] by (simp add: scheduled_def PollSchedule_due_def PollSchedule_set_def)

lemma due_in_time: "now + longest \<le> t \<Longrightarrow> PollSchedule_due (scheduled delay now f) t"
  using delay_bounds[of f] by (simp add: scheduled_def PollSchedule_due_def PollSchedule_set_def)

lemma paced_span:
  "paced delay ps \<Longrightarrow> ps \<noteq> [] \<Longrightarrow> fst (hd ps) + shortest * (int (length ps) - 1) \<le> fst (last ps)"
proof (induction ps rule: induct_list012)
  case (3 p q ps)
  then have "fst p + shortest \<le> fst q" using not_due_early by (cases p; cases q) auto
  moreover have "paced delay (q # ps)" using "3.prems" by (cases p; cases q) auto
  ultimately show ?case using "3.IH"(2) by (auto simp: algebra_simps)
qed auto

end

text \<open>The three base intervals of the controller: preparation, commands and node probes.\<close>

interpretation probe_delay: delay_policy "\<lambda>f. retryDelay ident f (5 * second)" "5 * second" "30 * second"
  for ident
  by unfold_locales (rule retryDelay_bounds; simp add: second_def)

interpretation command_delay: delay_policy "\<lambda>f. retryDelay ident f second" second "30 * second"
  for ident
  by unfold_locales (rule retryDelay_bounds; simp add: second_def)

interpretation preparation_delay: delay_policy "\<lambda>f. retryDelay ident f (2 * second)" "2 * second" "30 * second"
  for ident
  by unfold_locales (rule retryDelay_bounds; simp add: second_def)

text \<open>
  The retry delay of polls never drops below its base and never exceeds thirty
  seconds, for every identifier, every number of failures and every base up to
  24 seconds; no \<^verbatim>\<open>int64\<close> product in it wraps.
\<close>
lemma retryDelay_within:
  assumes "0 < base" "base \<le> 24 * second"
  shows "base \<le> retryDelay ident f base \<and> retryDelay ident f base \<le> 30 * second"
  by (rule retryDelay_bounds[OF assms])

text \<open>
  A backed-off node probe is never stuck and never a storm: whatever the failures,
  it is due no later than thirty seconds after the previous one, and a series of
  \<open>n\<close> probes spans at least \<open>5 (n - 1)\<close> seconds.
\<close>
lemma probe_rate:
  assumes "paced (\<lambda>f. retryDelay ident f (5 * second)) ps" "ps \<noteq> []"
  shows "fst (hd ps) + 5 * second * (int (length ps) - 1) \<le> fst (last ps) \<and>
    PollSchedule_due (scheduled (\<lambda>f. retryDelay ident f (5 * second)) (fst (last ps)) (snd (last ps)))
      (fst (last ps) + 30 * second)"
  using probe_delay.paced_span[OF assms] probe_delay.due_in_time by simp

lemma preparation_retries:
  "pp_retries p \<le> 5 \<Longrightarrow> pp_retries (fst (preparationPolling_next p ident stage now)) \<le> 5"
  by (simp add: preparationPolling_next_def Let_def)

end
