(* ===== verification/Model.thy ===== *)
theory Model
  imports Config Polling
begin

text \<open>
  The controller's data model (\<^verbatim>\<open>internal/control/model.go\<close>, \<^verbatim>\<open>lab.go\<close>, the status
  records of \<^verbatim>\<open>internal/wire\<close>, \<^verbatim>\<open>internal/nixos/model.go\<close> and
  \<^verbatim>\<open>internal/execution\<close>) and its projections.
\<close>

section \<open>Records of the guest protocol and of the Nix worker\<close>

record ProcessIdentity =
  pi_PID :: int
  pi_Start :: string

record Termination =
  tm_Reason :: string
  tm_Requested :: gotime
  tm_ProcessExited :: bool
  tm_RequestDelivered :: "bool option"
  tm_GroupStopped :: bool
  tm_Source :: string
  tm_Error :: "werror option"

record CommandOutput =
  co_State :: string
  co_StdoutBytes :: int
  co_StderrBytes :: int
  co_StdoutSHA256 :: string
  co_StderrSHA256 :: string
  co_StdoutTruncated :: bool
  co_StderrTruncated :: bool
  co_Error :: "werror option"

record CommandExecution =
  ce_Context :: string
  ce_Identity :: string
  ce_Cwd :: string
  ce_Inherited :: string
  ce_EnvironmentKeys :: "string list"

record CommandStatus =
  st_State :: string
  st_ExitCode :: "int option"
  st_ExitSignal :: string
  st_CoreDumped :: bool
  st_WrittenInput :: int
  st_InputClosed :: bool
  st_Error :: string
  st_Stage :: string
  st_Final :: bool
  st_Started :: "gotime option"
  st_Deadline :: "gotime option"
  st_Updated :: "gotime option"
  st_Finished :: "gotime option"
  st_Supervisor :: "ProcessIdentity option"
  st_Termination :: "Termination option"
  st_Output :: "CommandOutput option"
  st_Execution :: "CommandExecution option"

record NixResources =
  nr_Attempts :: int
  nr_ReleaseStarted :: "gotime option"
  nr_ReleaseDeadline :: "gotime option"
  nr_State :: string
  nr_SessionID :: string
  nr_ExecutorInstance :: string
  nr_Confirmation :: string
  nr_Reason :: string
  nr_Observed :: "gotime option"
  nr_Error :: "werror option"

definition nixResourcesIn :: "string \<Rightarrow> NixResources" where
  "nixResourcesIn state = \<lparr>nr_Attempts = 0, nr_ReleaseStarted = None, nr_ReleaseDeadline = None, nr_State = state,
     nr_SessionID = [], nr_ExecutorInstance = [], nr_Confirmation = [], nr_Reason = [], nr_Observed = None,
     nr_Error = None\<rparr>"

definition NixResources_Released :: "NixResources \<Rightarrow> bool" where
  "NixResources_Released r \<longleftrightarrow> nr_State r = ''released'' \<or> nr_State r = ''unallocated''"

record NixEvidence =
  ne_State :: string
  ne_Attempts :: int
  ne_Updated :: "gotime option"
  ne_NextAttempt :: "gotime option"
  ne_Error :: "werror option"

definition nixEvidenceIn :: "string \<Rightarrow> NixEvidence" where
  "nixEvidenceIn state = \<lparr>ne_State = state, ne_Attempts = 0, ne_Updated = None, ne_NextAttempt = None, ne_Error = None\<rparr>"

record NixProcessResult =
  np_Stage :: string
  np_Source :: string
  np_Exited :: bool
  np_ExitCode :: "int option"
  np_ExitSignal :: string
  np_CoreDumped :: bool

record NixExecution =
  nx_Resources :: NixResources
  nx_Evidence :: NixEvidence
  nx_Imported :: bool
  nx_Stage :: string
  nx_Process :: "NixProcessResult option"
  nx_Error :: "werror option"
  nx_PersistenceError :: "werror option"
  nx_Finished :: "gotime option"

definition zeroNixExecution :: NixExecution where
  "zeroNixExecution = \<lparr>nx_Resources = nixResourcesIn [], nx_Evidence = nixEvidenceIn [], nx_Imported = False,
     nx_Stage = [], nx_Process = None, nx_Error = None, nx_PersistenceError = None, nx_Finished = None\<rparr>"

record NixJobState =
  nj_Dispatched :: bool
  nj_Evidence :: NixEvidence
  nj_ManifestDigest :: string
  nj_WorkerInstance :: string
  nj_CacheID :: string
  nj_Derivation :: string
  nj_System :: string
  nj_NixExecution :: "NixExecution option"
  nj_HandoffComplete :: bool

section \<open>Labs\<close>

record NodeRequest =
  rq_Name :: string
  rq_Template :: string
  rq_IPv4 :: string
  rq_CPUs :: int
  rq_MemoryMiB :: int
  rq_GUI :: bool
  rq_Media :: Media
  rq_Camera :: string

record LabRequest =
  lr_UploadIDs :: "string list"
  lr_RequestID :: string
  lr_Nodes :: "NodeRequest list option"
  lr_LAN :: string
  lr_DHCP :: "bool option"
  lr_DNS :: "string list option"
  lr_Internet :: "bool option"
  lr_TimeoutSeconds :: int

record GuestSessionState =
  gs_State :: string
  gs_Checked :: gotime
  gs_Observed :: "gotime option"
  gs_Before :: "int option"
  gs_After :: "int option"
  gs_Matched :: int
  gs_CloseRequested :: int
  gs_CloseErrors :: int
  gs_CloseError :: int
  gs_LiveOwner :: int
  gs_ForeignOwner :: int
  gs_Unconfirmed :: int
  gs_InFlight :: int
  gs_AttributionPending :: bool
  gs_RuntimeVersion :: int
  gs_Error :: "werror option"

record NodeIdentity =
  ni_State :: string
  ni_Observed :: gotime
  ni_ConfiguredSHA256 :: string
  ni_SourceSHA256 :: string
  ni_Hardware :: "(string \<times> string) list"
  ni_HardwareSHA256 :: string

record Node =
  n_ID :: string
  n_Request :: NodeRequest
  n_UUID :: string
  n_MAC :: string
  n_State :: string
  n_Intent :: bool
  n_Cleaned :: bool
  n_Link :: bool
  n_AutoResize :: bool
  n_LastInput :: gotime
  n_Guest :: guestmap
  n_Health :: Health
  n_Polling :: PollSchedule
  n_GuestSessions :: "GuestSessionState option"
  n_Identity :: "NodeIdentity option"
  n_Preparation :: Preparation
  n_Expected :: "ExpectedState option"
  n_CleanupSteps :: "(string \<times> CleanupStep) list"

record RetainedStream =
  rs_State :: string
  rs_Bytes :: int
  rs_SHA256 :: string
  rs_Error :: "werror option"

record RetainedOutput =
  ro_Deadline :: "gotime option"
  ro_Stdout :: RetainedStream
  ro_Stderr :: RetainedStream

record InputQueue =
  iq_NextSequence :: int
  iq_Delivered :: int
  iq_Written :: int
  iq_Bytes :: int
  iq_Closed :: bool

record CommandRelease =
  cr_Source :: string
  cr_Time :: gotime

record VersionState =
  vs_Revision :: int
  vs_StateDigest :: string

record Command =
  c_Version :: VersionState
  c_ID :: string
  c_NodeID :: string
  c_Status :: CommandStatus
  c_Observation :: Observation
  c_Cancellation :: string
  c_Release :: "CommandRelease option"
  c_StatusDeadline :: "gotime option"
  c_Retained :: RetainedOutput
  c_Schedule :: PollSchedule
  c_IdlePolls :: int
  c_Stdin :: InputQueue
  c_Created :: gotime

record Endpoint =
  en_ID :: string
  en_NodeID :: string
  en_Protocol :: string
  en_GuestPort :: int
  en_HostPort :: int
  en_RouterPort :: int
  en_LoopbackPort :: int
  en_State :: string

record Capture =
  ca_ID :: string
  ca_NodeID :: string
  ca_Kind :: string
  ca_State :: string
  ca_ArtifactID :: string

record NetworkAttempt =
  na_clockStart :: gotime
  na_Stage :: string
  na_Started :: gotime
  na_Deadline :: gotime
  na_Finished :: gotime
  na_BudgetMS :: int
  na_LockWaitMS :: int
  na_ExecutionMS :: int
  na_Error :: "werror option"
  na_PolicyHash :: string

record GUIOwnership =
  gu_Original :: string
  gu_Expected :: string
  gu_Pending :: "string option"
  gu_Restored :: bool

record LabState =
  lb_Nodes :: "Node list"
  lb_Router :: "Node option"
  lb_RouterPassword :: string
  lb_RouterISO :: string
  lb_RouterBootID :: string
  lb_NetworkUpdated :: gotime
  lb_NetworkLeaseExpires :: gotime
  lb_NetworkPolicyHash :: string
  lb_NetworkObservation :: "NetworkAttempt option"
  lb_GUI :: "GUIOwnership option"
  lb_LAN :: string
  lb_DHCP :: bool
  lb_DNS :: "string list"
  lb_Internet :: bool
  lb_Network :: string
  lb_Commands :: "Command list"
  lb_Endpoints :: "Endpoint list"
  lb_Captures :: "Capture list"

section \<open>Executions\<close>

record Hold =
  ho_Reason :: string
  ho_Updated :: gotime
  ho_Until :: gotime

record Artifact =
  ar_ExecutionID :: string
  ar_ExecutionKind :: string
  ar_Source :: string
  ar_Pinned :: bool
  ar_ID :: string
  ar_Name :: string
  ar_Size :: int
  ar_SHA256 :: string
  ar_Created :: gotime
  ar_Path :: string

record Event =
  ev_Time :: gotime
  ev_Code :: string
  ev_Message :: string
  ev_Phase :: string
  ev_Result :: gval
  ev_Cleanup :: string
  ev_Details :: gval

datatype executionDomain = DLab LabState | DNix NixJobState

record Task =
  t_DetailExpires :: "gotime option"
  t_ResourceCounts :: "(string \<times> int) list"
  t_Version :: VersionState
  t_ID :: string
  t_Kind :: string
  t_State :: string
  t_Created :: gotime
  t_Started :: "gotime option"
  t_Deadline :: "gotime option"
  t_Ended :: "gotime option"
  t_TimeoutSeconds :: int
  t_Conclusion :: string
  t_Summary :: string
  t_Reason :: string
  t_Cleanup :: string
  t_CleanupErrors :: "werror list"
  t_Failure :: "werror option"
  t_Purged :: bool
  t_Hold :: "Hold option"
  t_domain :: executionDomain
  t_Artifacts :: "Artifact list"
  t_pendingEvents :: "Event list"

section \<open>Operations\<close>

definition Observing :: "Command \<Rightarrow> bool" where
  "Observing c \<longleftrightarrow> \<not> st_Final (c_Status c) \<and> oneOf (st_State (c_Status c)) [''starting'', ''running'', ''uncertain'']"

definition RetainedStream_done :: "RetainedStream \<Rightarrow> bool" where
  "RetainedStream_done s \<longleftrightarrow> oneOf (rs_State s) [''complete'', ''incomplete'']"

definition RetainedOutput_done :: "RetainedOutput \<Rightarrow> bool" where
  "RetainedOutput_done r \<longleftrightarrow> RetainedStream_done (ro_Stdout r) \<and> RetainedStream_done (ro_Stderr r)"

definition Command_Polling :: "Command \<Rightarrow> bool" where
  "Command_Polling c \<longleftrightarrow> c_Release c = None \<and> (Observing c \<or> \<not> RetainedOutput_done (c_Retained c))"

definition stopStream :: "goerr \<Rightarrow> RetainedStream \<Rightarrow> RetainedStream" where
  "stopStream err stream =
    (if \<not> RetainedStream_done stream then stream\<lparr>rs_State := ''incomplete'', rs_Error := Some (Safe err)\<rparr> else stream)"

definition RetainedOutput_stop :: "goerr \<Rightarrow> RetainedOutput \<Rightarrow> RetainedOutput" where
  "RetainedOutput_stop err r =
    r\<lparr>ro_Stdout := stopStream err (ro_Stdout r), ro_Stderr := stopStream err (ro_Stderr r)\<rparr>"

definition InputQueue_Accept :: "string \<Rightarrow> bool \<Rightarrow> InputQueue \<Rightarrow> InputQueue" where
  "InputQueue_Accept data eof q =
    q\<lparr>iq_NextSequence := iq_NextSequence q + 1, iq_Bytes := iq_Bytes q + int (length data), iq_Closed := eof\<rparr>"

definition resourceState :: "bool \<Rightarrow> Node \<Rightarrow> string" where
  "resourceState ended n =
    (if n_Cleaned n then ''released''
     else if \<not> n_Intent n then (if ended then ''never_allocated'' else ''planned'')
     else if list_ex (\<lambda>(_, step). cl_State step = ''failed'') (n_CleanupSteps n) then ''release_failed''
     else ''allocated'')"

definition Terminal :: "Task \<Rightarrow> bool" where
  "Terminal t \<longleftrightarrow> t_State t = ''finished'' \<or> t_State t = ''cancelled'' \<or> t_State t = ''timed_out'' \<or>
     t_State t = ''failed'' \<or> t_State t = ''interrupted''"

definition phase :: "Task \<Rightarrow> string" where
  "phase t = (if Terminal t then ''ended'' else t_State t)"

definition cleanupState :: "Task \<Rightarrow> string" where
  "cleanupState t = (if t_Cleanup t = ''required'' then ''blocked'' else t_Cleanup t)"

definition resultVal :: "Task \<Rightarrow> gval" where
  "resultVal t =
    (if \<not> Terminal t then GNil
     else GMap [(''conclusion'', GStr (t_Conclusion t)), (''summary'', GStr (t_Summary t)),
       (''reason'', GStr (t_Reason t)), (''termination'', GStr (t_State t)),
       (''error'', case t_Failure t of None \<Rightarrow> GNil | Some e \<Rightarrow> GErr e)])"

text \<open>
  \<^verbatim>\<open>t.lab()\<close> and \<^verbatim>\<open>t.nix()\<close> are type assertions; every caller checks the kind
  first.  An operation on the wrong domain leaves the task as it is.
\<close>

definition mapLab :: "(LabState \<Rightarrow> LabState) \<Rightarrow> Task \<Rightarrow> Task" where
  "mapLab f t = (case t_domain t of DLab l \<Rightarrow> t\<lparr>t_domain := DLab (f l)\<rparr> | DNix _ \<Rightarrow> t)"

definition mapNix :: "(NixJobState \<Rightarrow> NixJobState) \<Rightarrow> Task \<Rightarrow> Task" where
  "mapNix f t = (case t_domain t of DNix j \<Rightarrow> t\<lparr>t_domain := DNix (f j)\<rparr> | DLab _ \<Rightarrow> t)"

text \<open>The kind of a task names its domain.\<close>

definition kindOK :: "Task \<Rightarrow> bool" where
  "kindOK t \<longleftrightarrow> (case t_domain t of DLab _ \<Rightarrow> t_Kind t = ''lab'' | DNix _ \<Rightarrow> t_Kind t = ''nixos'')"

definition executionSnapshot :: "Task \<Rightarrow> Task" where
  "executionSnapshot t = t\<lparr>t_Artifacts := [], t_pendingEvents := []\<rparr>"

definition jobResources :: "NixJobState \<Rightarrow> NixResources" where
  "jobResources j =
    (case nj_NixExecution j of
       Some x \<Rightarrow> nx_Resources x
     | None \<Rightarrow> if \<not> nj_Dispatched j then nixResourcesIn ''unallocated'' else nixResourcesIn ''owned'')"

definition settled :: "Task \<Rightarrow> bool" where
  "settled t \<longleftrightarrow> Terminal t \<and> t_Cleanup t = ''complete'' \<and>
     (t_Kind t = ''lab'' \<or> (case t_domain t of DNix j \<Rightarrow> ne_State (nj_Evidence j) = ''complete'' | DLab _ \<Rightarrow> False))"

definition activity :: "Task \<Rightarrow> nat \<times> nat \<times> nat" where
  "activity t =
    (if t_Kind t \<noteq> ''lab'' then (0, 0, 0)
     else case t_domain t of
       DNix _ \<Rightarrow> (0, 0, 0)
     | DLab l \<Rightarrow>
        (length (filter Command_Polling (lb_Commands l)),
         length (filter (\<lambda>e. en_State e = ''open'') (lb_Endpoints l)),
         length (filter (\<lambda>c. \<not> oneOf (ca_State c) [''stopped'', ''released'']) (lb_Captures l))))"

definition Task_Node :: "Task \<Rightarrow> string \<Rightarrow> Node res" where
  "Task_Node t ident =
    (if t_Kind t \<noteq> ''lab'' then Inl (Fail ''not_found'' ''Node requires a lab'')
     else case t_domain t of
       DNix _ \<Rightarrow> Inl (Fail ''not_found'' ''Node requires a lab'')
     | DLab l \<Rightarrow> (case List.find (\<lambda>n. n_ID n = ident) (lb_Nodes l) of
         Some n \<Rightarrow> Inr n
       | None \<Rightarrow> Inl (Fail ''not_found'' ''Node does not belong to this task'')))"

text \<open>The lookup of a settled command in the repository is the parameter \<open>stored\<close>.\<close>

definition Task_Command :: "(string \<Rightarrow> string \<Rightarrow> Command res) option \<Rightarrow> Task \<Rightarrow> string \<Rightarrow> Command res" where
  "Task_Command stored t ident =
    (if t_Kind t \<noteq> ''lab'' then Inl (Fail ''not_found'' ''Command requires a lab'')
     else case t_domain t of
       DNix _ \<Rightarrow> Inl (Fail ''not_found'' ''Command requires a lab'')
     | DLab l \<Rightarrow> (case List.find (\<lambda>c. c_ID c = ident) (lb_Commands l) of
         Some c \<Rightarrow> Inr c
       | None \<Rightarrow> (case stored of
           Some lookup \<Rightarrow> lookup (t_ID t) ident
         | None \<Rightarrow> Inl (Fail ''not_found'' ''Command does not belong to this task''))))"

text \<open>
  \<^verbatim>\<open>Server.save\<close>: the expiry of the details is fixed when the execution has ended;
  after a successful write the settled children leave memory.
\<close>

definition detailExpiry :: "Storage \<Rightarrow> Task \<Rightarrow> Task" where
  "detailExpiry cfg t =
    (case (t_Ended t, t_DetailExpires t) of
       (Some ended, None) \<Rightarrow>
         let days = (if t_State t = ''finished'' \<and> t_Conclusion t = ''passed'' then st_SuccessDays cfg else st_FailureDays cfg)
         in t\<lparr>t_DetailExpires := Some (ended + days * 24 * hour)\<rparr>
     | _ \<Rightarrow> t)"

definition pruneLab :: "LabState \<Rightarrow> LabState" where
  "pruneLab l = l\<lparr>lb_Commands := filter Command_Polling (lb_Commands l),
     lb_Endpoints := filter (\<lambda>e. en_State e \<noteq> ''closed'') (lb_Endpoints l),
     lb_Captures := filter (\<lambda>c. \<not> oneOf (ca_State c) [''stopped'', ''released'']) (lb_Captures l)\<rparr>"

definition eventDetails :: "gotime \<Rightarrow> string \<Rightarrow> string \<Rightarrow> gval \<Rightarrow> Task \<Rightarrow> Task" where
  "eventDetails now code msg details t =
    t\<lparr>t_pendingEvents := t_pendingEvents t @
       [\<lparr>ev_Time = now, ev_Code = code, ev_Message = msg, ev_Phase = phase t, ev_Result = resultVal t,
         ev_Cleanup = cleanupState t, ev_Details = details\<rparr>]\<rparr>"

section \<open>Shared facts\<close>

lemma stopStream_done [simp]: "RetainedStream_done (stopStream err s)"
  by (auto simp: stopStream_def RetainedStream_done_def)

lemma RetainedOutput_stop_done [simp]: "RetainedOutput_done (RetainedOutput_stop err r)"
  by (simp add: RetainedOutput_stop_def RetainedOutput_done_def)

lemma stopStream_kept [simp]: "rs_Bytes (stopStream err s) = rs_Bytes s" "rs_SHA256 (stopStream err s) = rs_SHA256 s"
  by (simp_all add: stopStream_def)

lemma detailExpiry_kept [simp]:
  "t_ID (detailExpiry cfg t) = t_ID t" "t_State (detailExpiry cfg t) = t_State t"
  "t_Cleanup (detailExpiry cfg t) = t_Cleanup t" "t_Started (detailExpiry cfg t) = t_Started t"
  "t_domain (detailExpiry cfg t) = t_domain t" "t_Kind (detailExpiry cfg t) = t_Kind t"
  "t_Deadline (detailExpiry cfg t) = t_Deadline t" "t_Ended (detailExpiry cfg t) = t_Ended t"
  "Terminal (detailExpiry cfg t) = Terminal t"
  by (auto simp: detailExpiry_def Let_def Terminal_def split: option.splits)

lemma mapLab_kept [simp]:
  "t_ID (mapLab f t) = t_ID t" "t_State (mapLab f t) = t_State t" "t_Cleanup (mapLab f t) = t_Cleanup t"
  "t_Started (mapLab f t) = t_Started t" "t_Kind (mapLab f t) = t_Kind t" "Terminal (mapLab f t) = Terminal t"
  "t_Deadline (mapLab f t) = t_Deadline t" "t_Ended (mapLab f t) = t_Ended t"
  by (simp_all add: mapLab_def Terminal_def split: executionDomain.splits)

lemma mapNix_kept [simp]:
  "t_ID (mapNix f t) = t_ID t" "t_State (mapNix f t) = t_State t" "t_Cleanup (mapNix f t) = t_Cleanup t"
  "t_Started (mapNix f t) = t_Started t" "t_Kind (mapNix f t) = t_Kind t" "Terminal (mapNix f t) = Terminal t"
  "t_Deadline (mapNix f t) = t_Deadline t" "t_Ended (mapNix f t) = t_Ended t"
  by (simp_all add: mapNix_def Terminal_def split: executionDomain.splits)

lemma mapLab_kind [simp]: "kindOK (mapLab f t) = kindOK t"
  by (simp add: mapLab_def kindOK_def split: executionDomain.splits)

lemma mapNix_kind [simp]: "kindOK (mapNix f t) = kindOK t"
  by (simp add: mapNix_def kindOK_def split: executionDomain.splits)

lemma detailExpiry_kind [simp]: "kindOK (detailExpiry cfg t) = kindOK t"
  by (simp add: kindOK_def split: executionDomain.splits)

end
