(* ===== verification/Nodes.thy ===== *)
theory Nodes
  imports Model
begin

text \<open>
  The controller's view of one node: applying a status report (\<^verbatim>\<open>observeNode\<close>), the
  published capabilities, the gate for command polls, the next probe, the
  bookkeeping of command polls, and the progress of preparation and cleanup.
\<close>

section \<open>Operations\<close>

text \<open>\<^verbatim>\<open>guest[key]\<close> of a \<^verbatim>\<open>map[string]any\<close>; a missing key reads as \<^verbatim>\<open>nil\<close>.\<close>

definition guestValue :: "guestmap \<Rightarrow> string \<Rightarrow> gval" where
  "guestValue g key = (case map_of g key of None \<Rightarrow> GNil | Some v \<Rightarrow> v)"

definition bootOf :: "guestmap \<Rightarrow> string" where
  "bootOf g = (case guestValue g ''boot_id'' of GStr s \<Rightarrow> s | _ \<Rightarrow> [])"

definition afterDispatch :: "ExpectedState \<Rightarrow> gotime \<Rightarrow> bool" where
  "afterDispatch e now \<longleftrightarrow> (case ex_Dispatched e of None \<Rightarrow> False | Some d \<Rightarrow> now > d)"

definition expectedObservation :: "gotime \<Rightarrow> werror option \<Rightarrow> Observation" where
  "expectedObservation now err = zeroObservation\<lparr>ob_State := ''expected'', ob_Checked := Some now, ob_Error := err\<rparr>"

definition nodeStopped :: "string \<Rightarrow> werror" where
  "nodeStopped pw = WError ''node_stopped'' ''Node is not running'' [] [] [] [(''power'', GStr pw)]"

definition notReady :: werror where
  "notReady = simpleError ''guest_not_ready'' ''Guest command service is not ready''"

text \<open>The health part of a report taken while the hypervisor answered.\<close>

definition isExpected :: "gotime \<Rightarrow> NodeStatus \<Rightarrow> ExpectedState option \<Rightarrow> bool" where
  "isExpected now status expected =
    (if oneOf (ns_State status) [''aborted'', ''stuck'', ''gurumeditation''] \<or> ns_PreparationFailed status then False
     else (case expected of
        None \<Rightarrow> False
      | Some e \<Rightarrow> (case ex_Until e of None \<Rightarrow> False | Some u \<Rightarrow> now < u) \<or>
                 (ns_State status \<noteq> ''running'' \<and> ex_Power e = ns_State status)))"

definition serviceError :: "NodeStatus \<Rightarrow> werror option" where
  "serviceError status =
    (case (if ns_GuestError status \<noteq> None then ns_GuestError status else ns_ServiceError status) of
       Some e \<Rightarrow> Some e
     | None \<Rightarrow> if guestValue (ns_Guest status) ''prepared'' \<noteq> GBool True \<or>
                  guestValue (ns_Guest status) ''privileged'' \<noteq> GBool True
               then Some notReady else None)"

definition transitionObserved :: "NodeStatus \<Rightarrow> ExpectedState option \<Rightarrow> bool" where
  "transitionObserved status expected =
    (case expected of
       None \<Rightarrow> True
     | Some e \<Rightarrow> \<not> oneOf (ex_Action e) [''reboot'', ''reset''] \<or>
         (ex_BeforeBoot e \<noteq> [] \<and> bootOf (ns_Guest status) \<noteq> [] \<and> bootOf (ns_Guest status) \<noteq> ex_BeforeBoot e))"

definition observeNode ::
  "duration \<Rightarrow> NodeStatus \<Rightarrow> GuestSessionState option \<Rightarrow> goerr option \<Rightarrow> gotime \<Rightarrow> Node \<Rightarrow> Node \<times> bool" where
  "observeNode after status sessions err now n =
    (let wasUnavailable = Health_unavailable (n_Health n);
         n' = (case err of
           Some e \<Rightarrow>
             let forget = (\<lambda>obs. if ob_State obs \<noteq> ''unavailable'' then obs\<lparr>ob_State := ''unknown''\<rparr> else obs)
             in n\<lparr>n_Health := (n_Health n)\<lparr>
                  h_VirtualBox := Observation_update now (Some (Safe e)) after False (h_VirtualBox (n_Health n)),
                  h_GuestControl := forget (h_GuestControl (n_Health n)),
                  h_Commands := forget (h_Commands (n_Health n))\<rparr>\<rparr>
         | None \<Rightarrow>
             let n1 = n\<lparr>n_Health := (n_Health n)\<lparr>h_VirtualBox := Observation_update now None after False (h_VirtualBox (n_Health n))\<rparr>,
                        n_State := ns_State status, n_Guest := ns_Guest status, n_GuestSessions := sessions,
                        n_Expected := map_option (\<lambda>e. if afterDispatch e now
                             then e\<lparr>ex_PowerObserved := (ns_State status = ex_Power e)\<rparr> else e) (n_Expected n)\<rparr>;
                 expected = isExpected now status (n_Expected n1);
                 h = n_Health n1
             in if ns_State status \<noteq> ''running'' then
                  (if expected
                   then n1\<lparr>n_Health := h\<lparr>h_GuestControl := expectedObservation now None,
                                           h_Commands := expectedObservation now None\<rparr>\<rparr>
                   else let e = nodeStopped (ns_State status) in
                        n1\<lparr>n_Health := h\<lparr>h_GuestControl := Observation_update now (Some e) after True (h_GuestControl h),
                                           h_Commands := Observation_update now (Some e) after True (h_Commands h)\<rparr>\<rparr>)
                else if expected \<and> (ns_GuestError status \<noteq> None \<or> ns_ServiceError status \<noteq> None)
                then n1\<lparr>n_Health := h\<lparr>h_GuestControl := expectedObservation now (ns_GuestError status),
                                        h_Commands := expectedObservation now (ns_ServiceError status)\<rparr>\<rparr>
                else
                  let serviceErr = serviceError status;
                      commands = (if pr_Stage (n_Preparation n1) \<noteq> ''ready'' \<and> guestNotReady serviceErr
                                  then expectedObservation now serviceErr
                                  else Observation_update now serviceErr after (ns_PreparationFailed status) (h_Commands h));
                      n2 = n1\<lparr>n_Health := h\<lparr>h_GuestControl := Observation_update now (ns_GuestError status) after False (h_GuestControl h),
                                               h_Commands := commands\<rparr>\<rparr>
                  in if ns_GuestError status = None \<and> serviceErr = None \<and> transitionObserved status (n_Expected n2) \<and>
                        (case n_Expected n2 of None \<Rightarrow> True | Some e \<Rightarrow> ex_Power e = ''running'')
                     then n2\<lparr>n_Expected := map_option (\<lambda>e. if afterDispatch e now then e\<lparr>ex_Ready := True\<rparr> else e) (n_Expected n2)\<rparr>
                     else n2)
     in (n', \<not> wasUnavailable \<and> Health_unavailable (n_Health n')))"

record Capabilities =
  cap_control :: bool
  cap_screenshot :: bool
  cap_exec :: bool
  cap_commands :: bool

definition capabilities :: "Node \<Rightarrow> Capabilities" where
  "capabilities n =
    (let vm = n_Intent n \<and> \<not> n_Cleaned n \<and> ob_State (h_VirtualBox (n_Health n)) \<noteq> ''unavailable'';
         running = (n_State n = ''running'');
         guest = (vm \<and> running \<and> ob_State (h_GuestControl (n_Health n)) \<noteq> ''unavailable'')
     in \<lparr>cap_control = vm, cap_screenshot = (vm \<and> (running \<or> n_State n = ''paused'')), cap_exec = guest,
         cap_commands = (guest \<and> pr_Stage (n_Preparation n) = ''ready'' \<and>
           \<not> oneOf (ob_State (h_Commands (n_Health n))) [''unavailable'', ''expected''])\<rparr>)"

definition blocksCommands :: "Node \<Rightarrow> bool" where
  "blocksCommands n \<longleftrightarrow> n_State n \<noteq> ''running'' \<or> Health_unavailable (n_Health n) \<or>
     ob_State (h_GuestControl (n_Health n)) = ''expected'' \<or> ob_State (h_Commands (n_Health n)) = ''expected''"

definition probeInterval :: duration where
  "probeInterval = 5 * second"

definition nextProbe :: "gotime \<Rightarrow> Node \<Rightarrow> Node" where
  "nextProbe now n =
    (let failures = max (ob_Failures (h_VirtualBox (n_Health n)))
           (max (ob_Failures (h_GuestControl (n_Health n))) (ob_Failures (h_Commands (n_Health n))));
         reason = (if failures > 0 then ''backoff'' else ''periodic'')
     in n\<lparr>n_Polling := PollSchedule_set now (retryDelay (n_ID n) (nat failures) probeInterval) reason (n_Polling n)\<rparr>)"

definition failedPoll :: "gotime \<Rightarrow> Command \<Rightarrow> Command" where
  "failedPoll now c =
    (if (case ob_Error (c_Observation c) of None \<Rightarrow> False | Some e \<Rightarrow> Code e = ''resource_busy'')
     then c\<lparr>c_Schedule := PollSchedule_set now probeInterval ''capacity_wait'' (c_Schedule c)\<rparr>
     else c\<lparr>c_Schedule := PollSchedule_set now (retryDelay (c_ID c) (nat (ob_Failures (c_Observation c))) second)
              ''backoff'' (c_Schedule c)\<rparr>)"

definition successfulPoll :: "gotime \<Rightarrow> bool \<Rightarrow> Command \<Rightarrow> Command" where
  "successfulPoll now changed c =
    (let c1 = c\<lparr>c_IdlePolls := (if changed then 0 else min (c_IdlePolls c + 1) 4)\<rparr>;
         reason = (if c_IdlePolls c1 > 0 then ''idle'' else ''active'')
     in c1\<lparr>c_Schedule := PollSchedule_set now ((1 + c_IdlePolls c1) * second) reason (c_Schedule c1)\<rparr>)"

text \<open>
  The result of a status poll applied to the live node (\<^verbatim>\<open>pollNode\<close> after the
  backend's reply): \<open>before\<close> is the expectation in the snapshot the poll started from.
  A reply from before a power request, or from before its dispatch, is dropped.
\<close>

definition pollStale :: "ExpectedState option \<Rightarrow> ExpectedState option \<Rightarrow> bool" where
  "pollStale before now =
    (case before of
       None \<Rightarrow> now \<noteq> None
     | Some b \<Rightarrow> ex_Dispatched b = None \<or> (case now of None \<Rightarrow> True | Some e \<Rightarrow> ex_RequestID b \<noteq> ex_RequestID e))"

definition allAvailable :: "Health \<Rightarrow> bool" where
  "allAvailable h \<longleftrightarrow> ob_State (h_VirtualBox h) = ''available'' \<and> ob_State (h_GuestControl h) = ''available'' \<and>
     ob_State (h_Commands h) = ''available''"

definition pollNodeApply ::
  "duration \<Rightarrow> ExpectedState option \<Rightarrow> NodeStatus \<Rightarrow> GuestSessionState option \<Rightarrow> goerr option \<Rightarrow> gotime \<Rightarrow> Node \<Rightarrow>
     (Node \<times> string list) option" where
  "pollNodeApply after before status sessions err now n =
    (let err' = (if err = None \<and> ns_State status = []
                 then Some (Fail ''backend_protocol_error'' ''Node observation has no power state'') else err)
     in if pollStale before (n_Expected n) then None
        else let wasUnavailable = Health_unavailable (n_Health n);
                 (n1, incident) = observeNode after status sessions err' now n;
                 n2 = nextProbe now n1
             in Some (n2, (if incident then [''node_unavailable''] else []) @
                  (if wasUnavailable \<and> allAvailable (n_Health n2) then [''node_recovered''] else [])))"

section \<open>Properties\<close>

text \<open>The invariant: guest control is only \<^verbatim>\<open>expected\<close> together with the command service.\<close>

definition expectedTogether :: "Node \<Rightarrow> bool" where
  "expectedTogether n \<longleftrightarrow> (ob_State (h_GuestControl (n_Health n)) = ''expected'' \<longrightarrow>
     ob_State (h_Commands (n_Health n)) = ''expected'')"

lemma update_not_expected [simp]: "ob_State (Observation_update now err after imm obs) \<noteq> ''expected''"
  by (auto simp: Observation_update_def Let_def split: option.splits)

lemma observeNode_expectedTogether:
  "expectedTogether n \<Longrightarrow> expectedTogether (fst (observeNode after status sessions err now n))"
  by (auto simp: observeNode_def expectedTogether_def expectedObservation_def Let_def split: option.splits if_splits)

lemma observeNode_kept [simp]:
  "n_Intent (fst (observeNode after status g err now n)) = n_Intent n"
  "n_Cleaned (fst (observeNode after status g err now n)) = n_Cleaned n"
  "n_Preparation (fst (observeNode after status g err now n)) = n_Preparation n"
  "n_ID (fst (observeNode after status g err now n)) = n_ID n"
  by (cases err; simp add: observeNode_def Let_def)+

lemma nextProbe_kept [simp]:
  "n_Health (nextProbe now n) = n_Health n" "n_State (nextProbe now n) = n_State n"
  "n_Preparation (nextProbe now n) = n_Preparation n" "n_Expected (nextProbe now n) = n_Expected n"
  by (simp_all add: nextProbe_def Let_def)

text \<open>
  The published \<^verbatim>\<open>commands\<close> capability and the gate of command polls agree on a
  prepared, live node: after any poll of such a node, commands are offered exactly
  when command polls are not blocked.
\<close>
lemma capabilities_gate:
  assumes "expectedTogether n" "n_Intent n" "\<not> n_Cleaned n" "pr_Stage (n_Preparation n) = ''ready''"
    and "pollNodeApply after before status sessions err now n = Some (n', codes)"
  shows "cap_commands (capabilities n') \<longleftrightarrow> \<not> blocksCommands n'"
proof -
  obtain e where n': "n' = nextProbe now (fst (observeNode after status sessions e now n))"
    using assms(5) unfolding pollNodeApply_def Let_def split_beta by (auto split: if_splits)
  have e: "expectedTogether n'"
    using observeNode_expectedTogether[OF assms(1)] by (simp add: n' expectedTogether_def)
  have k: "n_Intent n' = n_Intent n" "n_Cleaned n' = n_Cleaned n" "n_Preparation n' = n_Preparation n"
    by (simp_all add: n' nextProbe_def Let_def)
  show ?thesis using e k assms(2-4)
    by (auto simp: capabilities_def blocksCommands_def Health_unavailable_def expectedTogether_def Let_def)
qed

text \<open>A status report of a healthy, prepared guest.\<close>

definition healthyStatus :: "NodeStatus \<Rightarrow> bool" where
  "healthyStatus status \<longleftrightarrow> ns_State status = ''running'' \<and> ns_GuestError status = None \<and>
     ns_ServiceError status = None \<and> guestValue (ns_Guest status) ''prepared'' = GBool True \<and>
     guestValue (ns_Guest status) ''privileged'' = GBool True"

lemma healthy_serviceError [simp]: "healthyStatus status \<Longrightarrow> serviceError status = None"
  by (simp add: healthyStatus_def serviceError_def)

lemma observeNode_healthy:
  "healthyStatus status \<Longrightarrow> n_Health (fst (observeNode after status sessions None now n)) =
     \<lparr>h_VirtualBox = Observation_update now None after False (h_VirtualBox (n_Health n)),
      h_GuestControl = Observation_update now None after False (h_GuestControl (n_Health n)),
      h_Commands = Observation_update now None after (ns_PreparationFailed status) (h_Commands (n_Health n))\<rparr>"
  by (auto simp: observeNode_def Let_def healthyStatus_def guestNotReady_def serviceError_def)

lemma two_updates_available:
  "ob_Successes obs \<ge> 0 \<Longrightarrow>
   ob_State (Observation_update t2 None a2 i2 (Observation_update t1 None a1 i1 obs)) = ''available''"
  by (auto simp: Observation_update_def Let_def)

definition countersOK :: "Node \<Rightarrow> bool" where
  "countersOK n \<longleftrightarrow> ob_Successes (h_VirtualBox (n_Health n)) \<ge> 0 \<and>
     ob_Successes (h_GuestControl (n_Health n)) \<ge> 0 \<and> ob_Successes (h_Commands (n_Health n)) \<ge> 0"

text \<open>
  Recovery is bounded: whatever the recorded health of a node, two consecutive
  healthy status reports make all its capabilities available.
\<close>
lemma two_reports_recover:
  assumes "healthyStatus s1" "healthyStatus s2" "countersOK n"
  shows "allAvailable (n_Health (fst (observeNode after s2 g2 None t2 (fst (observeNode after s1 g1 None t1 n)))))"
  using assms by (simp add: observeNode_healthy allAvailable_def countersOK_def two_updates_available)

text \<open>
  A node found stopped without a pending power request, or in a crashed state at any
  time, raises the incident at once: guest control and the command service become
  unavailable on that single report.
\<close>
lemma unexpected_stop_is_immediate:
  assumes "ns_State status \<noteq> ''running''"
    and "n_Expected n = None \<or> oneOf (ns_State status) [''aborted'', ''stuck'', ''gurumeditation'']"
  shows "ob_State (h_GuestControl (n_Health (fst (observeNode after status g None now n)))) = ''unavailable'' \<and>
    ob_State (h_Commands (n_Health (fst (observeNode after status g None now n)))) = ''unavailable'' \<and>
    (snd (observeNode after status g None now n) \<longleftrightarrow> \<not> Health_unavailable (n_Health n))"
proof -
  have x: "\<not> isExpected now status (map_option (\<lambda>e. if afterDispatch e now
             then e\<lparr>ex_PowerObserved := (ns_State status = ex_Power e)\<rparr> else e) (n_Expected n))"
    using assms(2) by (auto simp: isExpected_def split: option.splits)
  have u: "ob_State (Observation_update now (Some (nodeStopped s)) after True obs) = ''unavailable''" for s obs
    by (simp add: Observation_update_def Let_def nodeStopped_def)
  show ?thesis
    using assms(1) x u by (simp add: observeNode_def Let_def Health_unavailable_def)
qed

section \<open>Witnesses\<close>

definition sampleNode :: Node where
  "sampleNode = \<lparr>n_ID = ''n1'',
     n_Request = \<lparr>rq_Name = ''a'', rq_Template = ''t'', rq_IPv4 = ''10.1.0.2'', rq_CPUs = 2, rq_MemoryMiB = 2048,
       rq_GUI = False, rq_Media = \<lparr>m_Camera = False, m_AudioInput = False, m_AudioOutput = False, m_Accelerate3D = False\<rparr>,
       rq_Camera = []\<rparr>,
     n_UUID = [], n_MAC = [], n_State = ''running'', n_Intent = True, n_Cleaned = False, n_Link = True,
     n_AutoResize = False, n_LastInput = 0, n_Guest = [],
     n_Health = \<lparr>h_VirtualBox = zeroObservation, h_GuestControl = zeroObservation, h_Commands = zeroObservation\<rparr>,
     n_Polling = zeroSchedule, n_GuestSessions = None, n_Identity = None,
     n_Preparation = \<lparr>pr_Stage = ''ready'', pr_Started = None, pr_StageStarted = None, pr_Deadline = None,
       pr_Updated = 0, pr_Error = None\<rparr>,
     n_Expected = None, n_CleanupSteps = []\<rparr>"

definition sampleStatus :: "string \<Rightarrow> NodeStatus" where
  "sampleStatus st = \<lparr>ns_State = st, ns_Guest = [(''prepared'', GBool True), (''privileged'', GBool True)],
     ns_GuestError = None, ns_ServiceError = None, ns_PreparationFailed = False\<rparr>"

end
