(* ===== verification/CommandIO.thy ===== *)
theory CommandIO
  imports Safefs Nodes
begin

text \<open>
  Retention of command output and acceptance of command input
  (\<^verbatim>\<open>internal/control/command_output.go\<close>, \<^verbatim>\<open>startCommand\<close> and \<^verbatim>\<open>commandInput\<close> of
  \<^verbatim>\<open>operations.go\<close>).  The digest in hexadecimal and the strict base64 decoder are
  the arguments \<open>sha\<close> and \<open>b64\<close>; every statement holds for all such functions.
\<close>

section \<open>Data\<close>

record StreamChunk =
  ch_State :: string
  ch_Offset :: int
  ch_Next :: int
  ch_Size :: int
  ch_Data :: string
  ch_SHA256 :: string
  ch_Error :: "werror option"

record CommandSnapshot =
  sn_Protocol :: int
  sn_CommandID :: string
  sn_Checked :: gotime
  sn_Pending :: bool
  sn_Status :: "CommandStatus option"
  sn_Stdout :: StreamChunk
  sn_Stderr :: StreamChunk
  sn_Error :: "werror option"

definition CommandProtocol :: int where "CommandProtocol = 2"
definition CommandReadLimit :: int where "CommandReadLimit = 256 * 2 ^ 10"
definition CommandOutputLimit :: int where "CommandOutputLimit = 64 * 2 ^ 20"
definition CommandInputLimit :: int where "CommandInputLimit = 64 * 2 ^ 20"
definition InputPacketLimit :: nat where "InputPacketLimit = 64 * 2 ^ 10"
definition InputPacketCount :: int where "InputPacketCount = 4096"
definition commandStatusGrace :: duration where "commandStatusGrace = 30 * second"
definition commandOutputBudget :: duration where "commandOutputBudget = 60 * second"

section \<open>The append-only output file\<close>

text \<open>
  The outcomes of the system calls of one \<^verbatim>\<open>appendOutput\<close>; a failing write may have
  stored any number of bytes before it failed.
\<close>

record append_io =
  ap_mkdir :: "goerr option"
  ap_open :: "goerr option"
  ap_stat :: "goerr option"
  ap_read :: "goerr option"
  ap_write :: "(goerr \<times> nat) option"
  ap_sync :: "goerr option"

text \<open>The work on the content of the opened regular file.\<close>

definition appendData :: "append_io \<Rightarrow> string \<Rightarrow> nat \<Rightarrow> string \<Rightarrow> string \<times> goerr option" where
  "appendData io old offset data =
    (if length old < offset
     then (old, Some (Fail ''output_gap'' ''Retained output is missing confirmed bytes''))
     else
       let existing = min (length data) (length old - offset) in
       if existing > 0 \<and> ap_read io \<noteq> None then (old, ap_read io)
       else if existing > 0 \<and> take existing (drop offset old) \<noteq> take existing data
       then (old, Some (Fail ''output_changed'' ''Replayed output differs from the retained prefix''))
       else if existing < length data then
         (case ap_write io of
            Some (e, k) \<Rightarrow> (old @ take k (drop existing data), Some e)
          | None \<Rightarrow> (old @ drop existing data, ap_sync io))
       else (old, ap_sync io))"

definition openOutput :: "append_io \<Rightarrow> fs \<Rightarrow> string \<Rightarrow> fsnode res" where
  "openOutput io f name =
    (case orElse (ap_mkdir io) (ap_open io) of
       Some e \<Rightarrow> Inl e
     | None \<Rightarrow>
        (case f name of
           None \<Rightarrow> Inr (FFile [])
         | Some FLink \<Rightarrow> Inl (EPathError ''openat'' (EErrno 40 ''too many levels of symbolic links''))
         | Some FDir \<Rightarrow> Inl (EPathError ''openat'' (EErrno 21 ''is a directory''))
         | Some nd \<Rightarrow> Inr nd))"

definition appendOutput :: "append_io \<Rightarrow> fs \<Rightarrow> string \<Rightarrow> nat \<Rightarrow> string \<Rightarrow> fs \<times> goerr option" where
  "appendOutput io f name offset data =
    (case openOutput io f name of
       Inl e \<Rightarrow> (f, Some e)
     | Inr nd \<Rightarrow>
        (case ap_stat io of
           Some e \<Rightarrow> (f(name \<mapsto> nd), Some e)
         | None \<Rightarrow>
           (case nd of
              FFile old \<Rightarrow> (case appendData io old offset data of (new, err) \<Rightarrow> (f(name \<mapsto> FFile new), err))
            | _ \<Rightarrow> (f(name \<mapsto> nd), Some (Fail ''output_gap'' ''Retained output is missing confirmed bytes'')))))"

definition fileContent :: "fs \<Rightarrow> string \<Rightarrow> string" where
  "fileContent f name = (case f name of Some (FFile s) \<Rightarrow> s | _ \<Rightarrow> [])"

section \<open>Retention of one stream\<close>

definition failStream :: "goerr \<Rightarrow> RetainedStream \<Rightarrow> RetainedStream" where
  "failStream err r = r\<lparr>rs_State := ''incomplete'', rs_Error := Some (Safe err)\<rparr>"

text \<open>The checks on a chunk: the retained state of a rejected chunk, or the decoded bytes.\<close>

definition checkChunk ::
  "(string \<Rightarrow> string) \<Rightarrow> (string \<Rightarrow> string option) \<Rightarrow> RetainedStream \<Rightarrow> StreamChunk \<Rightarrow> bool \<Rightarrow> RetainedStream + string" where
  "checkChunk sha b64 r chunk final =
    (if ch_Offset chunk \<noteq> rs_Bytes r \<or> ch_Next chunk < ch_Offset chunk \<or> ch_Size chunk < ch_Next chunk \<or>
        ch_Size chunk > CommandOutputLimit
     then Inl (failStream (Fail ''output_offset'' ''Guest output offsets are inconsistent with the retained prefix'') r)
     else if ch_State chunk = ''unavailable''
     then Inl (failStream (EWire (case ch_Error chunk of
               None \<Rightarrow> simpleError ''output_unavailable'' ''Guest output is unavailable'' | Some e \<Rightarrow> e)) r)
     else if ch_State chunk = ''pending'' \<and> \<not> final
     then Inl (r\<lparr>rs_State := ''pending''\<rparr>)
     else if ch_State chunk \<noteq> ''available'' \<or> ch_Next chunk - ch_Offset chunk > CommandReadLimit
     then Inl (failStream (Fail ''guest_protocol_error'' ''Invalid guest output chunk'') r)
     else (case b64 (ch_Data chunk) of
        None \<Rightarrow> Inl (failStream (Fail ''output_encoding'' ''Guest output chunk has invalid base64 or length'') r)
      | Some data \<Rightarrow>
        if int (length data) \<noteq> ch_Next chunk - ch_Offset chunk
        then Inl (failStream (Fail ''output_encoding'' ''Guest output chunk has invalid base64 or length'') r)
        else if sha data \<noteq> ch_SHA256 chunk
        then Inl (failStream (Fail ''output_checksum'' ''Guest output chunk checksum does not match'') r)
        else Inr data))"

text \<open>
  The end of a stream of a finished command; \<open>readErr\<close> is the failure, if any, of
  reading the file back for its digest.
\<close>

definition finishStream ::
  "(string \<Rightarrow> string) \<Rightarrow> goerr option \<Rightarrow> fs \<Rightarrow> string \<Rightarrow> RetainedStream \<Rightarrow> StreamChunk \<Rightarrow> CommandStatus \<Rightarrow> int \<Rightarrow> string \<Rightarrow>
   RetainedStream" where
  "finishStream sha readErr f name r chunk status sz expectedHash =
    (if (case st_Output status of None \<Rightarrow> True | Some out \<Rightarrow> co_State out \<noteq> ''complete'')
     then failStream (Fail ''output_incomplete'' ''Supervisor did not confirm complete output drainage'') r
     else if sz \<noteq> ch_Size chunk \<or> expectedHash = []
     then failStream (Fail ''output_size'' ''Final output size or checksum is missing or inconsistent'') r
     else (case Regular f name of
        Inl e \<Rightarrow> failStream e r
      | Inr content \<Rightarrow>
         (case readErr of
            Some e \<Rightarrow> failStream e r
          | None \<Rightarrow>
            let r2 = r\<lparr>rs_SHA256 := sha content\<rparr> in
            if int (length content) \<noteq> sz \<or> rs_SHA256 r2 \<noteq> expectedHash
            then failStream (Fail ''output_checksum''
                   (''Retained output does not match the supervisor'' @ [CHR 0x27] @ ''s final checksum'')) r2
            else r2\<lparr>rs_State := ''complete''\<rparr>)))"

text \<open>
  The result is the file system, the retained state, and whether another read may
  bring more.
\<close>

definition retainStream ::
  "(string \<Rightarrow> string) \<Rightarrow> (string \<Rightarrow> string option) \<Rightarrow> append_io \<Rightarrow> goerr option \<Rightarrow> fs \<Rightarrow> string \<Rightarrow> RetainedStream \<Rightarrow>
   StreamChunk \<Rightarrow> CommandStatus \<Rightarrow> int \<Rightarrow> string \<Rightarrow> fs \<times> RetainedStream \<times> bool" where
  "retainStream sha b64 io readErr f name r chunk status sz expectedHash =
    (if RetainedStream_done r then (f, r, False)
     else (case checkChunk sha b64 r chunk (st_Final status) of
        Inl r' \<Rightarrow> (f, r', False)
      | Inr data \<Rightarrow>
        (case appendOutput io f name (nat (rs_Bytes r)) data of
           (f1, Some e) \<Rightarrow> (f1, failStream e r, False)
         | (f1, None) \<Rightarrow>
            let r1 = r\<lparr>rs_Bytes := ch_Next chunk, rs_State := ''collecting'', rs_Error := None\<rparr>
            in if \<not> (st_Final status \<and> ch_Next chunk = ch_Size chunk)
               then (f1, r1, ch_Next chunk > ch_Offset chunk \<and> ch_Next chunk < ch_Size chunk)
               else (f1, finishStream sha readErr f1 name r1 chunk status sz expectedHash, False))))"

definition validateSnapshot :: "string \<Rightarrow> CommandSnapshot \<Rightarrow> goerr option" where
  "validateSnapshot ident v =
    (if sn_Protocol v \<noteq> CommandProtocol \<or> sn_CommandID v \<noteq> ident \<or> sn_Checked v = zeroTime
     then Some (Fail ''guest_protocol_error'' ''Guest command protocol, identity or observation time is invalid'')
     else if sn_Pending v \<and> sn_Status v = None then None
     else (case sn_Status v of
        None \<Rightarrow> Some (Fail ''guest_protocol_error'' ''Guest command has no recognized execution state'')
      | Some st \<Rightarrow>
        if sn_Pending v \<or> \<not> oneOf (st_State st) [''starting'', ''running'', ''exited'', ''cancelled'', ''timed_out'', ''uncertain'', ''failed'']
        then Some (Fail ''guest_protocol_error'' ''Guest command has no recognized execution state'')
        else if (st_Final st \<and> oneOf (st_State st) [''starting'', ''running'']) \<or>
                (\<not> st_Final st \<and> oneOf (st_State st) [''exited'', ''cancelled'', ''timed_out'', ''failed''])
        then Some (Fail ''guest_protocol_error'' ''Guest command finality conflicts with its execution state'')
        else if st_WrittenInput st < 0
        then Some (Fail ''guest_protocol_error'' ''Guest input acknowledgement has a negative sequence'')
        else None))"

section \<open>One read of a command\<close>

text \<open>
  \<open>reply\<close> is the decoded answer of the guest (or the error of the call or of the
  decoder); \<open>c0\<close> is the command when the read started and \<open>c\<close> when its result is
  applied.  The equality of two statuses stands for the equality of their JSON
  texts.  \<open>inputs\<close> is the result of reading the persisted stdin packets.
\<close>

record stream_io =
  si_append :: append_io
  si_readback :: "goerr option"

record ReadOutcome =
  rd_fs :: fs
  rd_command :: Command
  rd_more :: bool
  rd_events :: "string list"
  rd_cancel :: bool
  rd_packets :: bool

definition replyError :: "string \<Rightarrow> CommandStatus \<Rightarrow> CommandSnapshot res \<Rightarrow> CommandSnapshot res" where
  "replyError ident previous reply =
    (case reply of
       Inl e \<Rightarrow> Inl e
     | Inr v \<Rightarrow>
       (case validateSnapshot ident v of
          Some e \<Rightarrow> Inl e
        | None \<Rightarrow>
          if st_Final previous \<and> sn_Status v \<noteq> Some previous
          then Inl (Fail ''command_status_changed'' ''Guest changed a previously observed final execution record'')
          else (case (st_Supervisor previous, sn_Status v) of
             (Some p, Some st) \<Rightarrow>
               if st_Supervisor st \<noteq> Some p
               then Inl (Fail ''command_identity_changed'' ''Guest command supervisor identity changed'')
               else Inr v
           | _ \<Rightarrow> Inr v)))"

definition pendingReply :: "gotime \<Rightarrow> Command \<Rightarrow> Command" where
  "pendingReply now c =
    (let c1 = (case c_StatusDeadline c of None \<Rightarrow> c\<lparr>c_StatusDeadline := Some (now + commandStatusGrace)\<rparr> | Some _ \<Rightarrow> c);
         end = (case c_StatusDeadline c1 of Some d \<Rightarrow> d | None \<Rightarrow> now);
         c2 = (if ob_LastSuccess (c_Observation c1) \<noteq> None
               then c1\<lparr>c_Observation := Observation_update now
                      (Some (simpleError ''command_status_lost'' ''A previously observed supervisor status disappeared''))
                      0 True (c_Observation c1)\<rparr>
               else if now < end
               then c1\<lparr>c_Observation := zeroObservation\<lparr>ob_State := ''pending'', ob_Checked := Some now\<rparr>\<rparr>
               else c1\<lparr>c_Status := (c_Status c1)\<lparr>st_State := ''uncertain''\<rparr>,
                      c_Observation := Observation_update now
                        (Some (WError ''command_status_missing'' ''Supervisor has not published a status within the observation budget''
                           [] [] [] [(''deadline'', GTime end)])) 0 True (c_Observation c1)\<rparr>)
     in if ob_State (c_Observation c2) = ''pending''
        then c2\<lparr>c_Schedule := PollSchedule_set now second ''awaiting_status'' (c_Schedule c2)\<rparr>
        else failedPoll now c2)"

definition statusChanged :: "CommandStatus \<Rightarrow> CommandStatus \<Rightarrow> RetainedOutput \<Rightarrow> RetainedOutput \<Rightarrow> bool" where
  "statusChanged previous status before after \<longleftrightarrow>
     st_State previous \<noteq> st_State status \<or> st_Stage previous \<noteq> st_Stage status \<or> st_Final previous \<noteq> st_Final status \<or>
     st_WrittenInput previous \<noteq> st_WrittenInput status \<or> st_InputClosed previous \<noteq> st_InputClosed status \<or>
     rs_Bytes (ro_Stdout before) \<noteq> rs_Bytes (ro_Stdout after) \<or> rs_Bytes (ro_Stderr before) \<noteq> rs_Bytes (ro_Stderr after)"

definition applyStatus ::
  "gotime \<Rightarrow> CommandStatus \<Rightarrow> CommandStatus \<Rightarrow> RetainedOutput \<Rightarrow> werror option \<Rightarrow> Command \<Rightarrow> Command" where
  "applyStatus now previous status retained verr c =
    (let changed = statusChanged previous status (c_Retained c) retained;
         c1 = c\<lparr>c_Status := status, c_Retained := retained,
                c_Stdin := (c_Stdin c)\<lparr>iq_Written := st_WrittenInput status,
                                        iq_Delivered := max (iq_Delivered (c_Stdin c)) (st_WrittenInput status)\<rparr>\<rparr>;
         c2 = successfulPoll now changed c1;
         c3 = c2\<lparr>c_Observation := zeroObservation\<lparr>ob_State := (if verr \<noteq> None then ''suspect'' else ''available''),
                  ob_Checked := Some now, ob_LastSuccess := Some now, ob_Successes := 1, ob_Error := verr\<rparr>\<rparr>
     in if st_State status = ''cancelled'' then c3\<lparr>c_Cancellation := ''confirmed''\<rparr> else c3)"

text \<open>
  With \<open>sendInput\<close> a requested cancellation is passed on and undelivered stdin packets
  are read (the second and third result).
\<close>

definition acceptStatus ::
  "gotime \<Rightarrow> bool \<Rightarrow> goerr option \<Rightarrow> CommandStatus \<Rightarrow> CommandStatus \<Rightarrow> RetainedOutput \<Rightarrow> werror option \<Rightarrow> Command \<Rightarrow>
     Command \<times> bool \<times> bool" where
  "acceptStatus now sendInput inputs previous status retained verr c =
    (let c4 = applyStatus now previous status retained verr c;
         cancel = (sendInput \<and> Observing c4 \<and> c_Cancellation c4 = ''requested'');
         wanted = (sendInput \<and> Observing c4 \<and> st_WrittenInput status \<ge> 0 \<and>
                   st_WrittenInput status < iq_NextSequence (c_Stdin c4))
     in (case inputs of
           Some e \<Rightarrow> if wanted
             then (c4\<lparr>c_Observation := (c_Observation c4)\<lparr>ob_State := ''suspect'', ob_Error := Some
                     (WError ''input_read'' ''Cannot read persisted stdin packets'' [] [] [] [(''cause'', GErr (Safe e))])\<rparr>\<rparr>,
                   cancel, False)
             else (c4, cancel, False)
         | None \<Rightarrow> (c4, cancel, wanted)))"

definition readReply ::
  "(string \<Rightarrow> string) \<Rightarrow> (string \<Rightarrow> string option) \<Rightarrow> stream_io \<Rightarrow> stream_io \<Rightarrow> duration \<Rightarrow> gotime \<Rightarrow> string \<Rightarrow>
   CommandSnapshot res \<Rightarrow> goerr option \<Rightarrow> bool \<Rightarrow> fs \<Rightarrow> string \<Rightarrow> Command \<Rightarrow> Command \<Rightarrow> ReadOutcome" where
  "readReply sha b64 ioOut ioErr after now ident reply inputs sendInput f base c0 c =
    (case replyError ident (c_Status c0) reply of
       Inl e \<Rightarrow>
         let wasUnavailable = (ob_State (c_Observation c) = ''unavailable'');
             c1 = c\<lparr>c_Observation := Observation_update now (Some (Safe e)) after False (c_Observation c)\<rparr>;
             c2 = failedPoll now c1
         in \<lparr>rd_fs = f, rd_command = c2, rd_more = False,
             rd_events = (if \<not> wasUnavailable \<and> ob_State (c_Observation c2) = ''unavailable'' then [''command_unavailable''] else []),
             rd_cancel = False, rd_packets = False\<rparr>
     | Inr v \<Rightarrow>
        (case (sn_Pending v, sn_Status v) of
           (False, Some status) \<Rightarrow>
             let retained = (if st_Final status \<and> ro_Deadline (c_Retained c0) = None
                             then (c_Retained c0)\<lparr>ro_Deadline := Some (now + commandOutputBudget)\<rparr> else c_Retained c0);
                 (outBytes, outHash, errBytes, errHash) = (case st_Output status of
                     None \<Rightarrow> (0, [], 0, [])
                   | Some ot \<Rightarrow> (co_StdoutBytes ot, co_StdoutSHA256 ot, co_StderrBytes ot, co_StderrSHA256 ot));
                 (f1, r1, moreOut) = retainStream sha b64 (si_append ioOut) (si_readback ioOut) f (base @ ''/stdout'')
                     (ro_Stdout retained) (sn_Stdout v) status outBytes outHash;
                 (f2, r2, moreErr) = retainStream sha b64 (si_append ioErr) (si_readback ioErr) f1 (base @ ''/stderr'')
                     (ro_Stderr retained) (sn_Stderr v) status errBytes errHash;
                 (c1, cancel, packets) = acceptStatus now sendInput inputs (c_Status c0) status
                     (retained\<lparr>ro_Stdout := r1, ro_Stderr := r2\<rparr>) (sn_Error v) c
             in \<lparr>rd_fs = f2, rd_command = c1, rd_more = (moreOut \<or> moreErr), rd_events = [],
                 rd_cancel = cancel, rd_packets = packets\<rparr>
         | _ \<Rightarrow> \<lparr>rd_fs = f, rd_command = pendingReply now c, rd_more = False, rd_events = [],
                 rd_cancel = False, rd_packets = False\<rparr>))"

text \<open>The part of \<^verbatim>\<open>readCommand\<close> before the call: \<open>None\<close> means that the read goes on.\<close>

definition readAdmission :: "gotime \<Rightarrow> Command \<Rightarrow> Command option" where
  "readAdmission now c =
    (if \<not> Command_Polling c then Some c
     else (case ro_Deadline (c_Retained c) of
        Some d \<Rightarrow> if \<not> now < d
          then Some (c\<lparr>c_Retained := RetainedOutput_stop
                 (Fail ''output_timeout'' ''Final output collection exceeded its time budget'') (c_Retained c)\<rparr>)
          else None
      | None \<Rightarrow> None))"

text \<open>
  \<^verbatim>\<open>pollCommandContext\<close>: at most sixteen reads; \<open>step i c\<close> is the outcome of the
  \<open>i\<close>-th read (the command and whether to go on), \<open>live i\<close> whether the context still
  is.
\<close>

fun pollLoop :: "(nat \<Rightarrow> bool) \<Rightarrow> (nat \<Rightarrow> 'c \<Rightarrow> 'c \<times> bool) \<Rightarrow> nat \<Rightarrow> nat \<Rightarrow> 'c \<Rightarrow> 'c \<times> nat" where
  "pollLoop live step i 0 c = (c, i)"
| "pollLoop live step i (Suc fuel) c =
    (if \<not> live i then (c, i)
     else (case step i c of (c', again) \<Rightarrow> if again then pollLoop live step (Suc i) fuel c' else (c', Suc i)))"

definition pollCommandContext :: "(nat \<Rightarrow> bool) \<Rightarrow> (nat \<Rightarrow> 'c \<Rightarrow> 'c \<times> bool) \<Rightarrow> 'c \<Rightarrow> 'c \<times> nat" where
  "pollCommandContext live step c = pollLoop live step 0 16 c"

section \<open>Command input\<close>

record InputRequest =
  ir_Sequence :: int
  ir_Data :: string
  ir_EOF :: bool

datatype InputReply = Replayed bool bool | Accepted string

text \<open>
  \<open>stored\<close> reads one persisted packet, \<open>appendErr\<close> is the failure of persisting the new
  one, and \<open>delivery\<close> the outcome of the immediate delivery: \<open>None\<close> when the guest was
  not reached, otherwise the new delivered count if that was recorded.
\<close>

definition commandInput ::
  "(int \<Rightarrow> (string \<times> bool) option) \<Rightarrow> goerr option \<Rightarrow> int option option \<Rightarrow> Task res \<Rightarrow> Command res \<Rightarrow> InputRequest \<Rightarrow>
     (Command \<times> InputReply) res" where
  "commandInput stored appendErr delivery task command a =
    (if ir_Sequence a < 0 \<or> length (ir_Data a) > InputPacketLimit
     then Inl (Fail ''invalid_argument'' ''Invalid input packet'')
     else (case task of
        Inl e \<Rightarrow> Inl e
      | Inr t \<Rightarrow>
        if t_Kind t \<noteq> ''lab'' \<or> \<not> oneOf (t_State t) [''preparing'', ''running'']
        then Inl (Fail ''invalid_state'' ''An executing lab is required'')
        else (case command of
           Inl e \<Rightarrow> Inl e
         | Inr c \<Rightarrow>
           if ir_Sequence a \<noteq> iq_NextSequence (c_Stdin c)
           then (if ir_Sequence a < iq_NextSequence (c_Stdin c) \<and> stored (ir_Sequence a) = Some (ir_Data a, ir_EOF a)
                 then Inr (c, Replayed (ir_Sequence a < iq_Delivered (c_Stdin c)) (ir_Sequence a < st_WrittenInput (c_Status c)))
                 else Inl (Fail ''input_order'' ''sequence must equal the next persisted input sequence''))
           else if \<not> Observing c then Inl (Fail ''invalid_state'' ''Command cannot accept more input'')
           else if iq_Closed (c_Stdin c) then Inl (Fail ''input_closed'' ''stdin already ended'')
           else if iq_NextSequence (c_Stdin c) \<ge> InputPacketCount \<or>
                   iq_Bytes (c_Stdin c) + int (length (ir_Data a)) > CommandInputLimit
           then Inl (Fail ''input_limit'' ''stdin accepts at most 4096 packets and 64MiB; upload larger inputs as files'')
           else (case appendErr of
              Some e \<Rightarrow> Inl e
            | None \<Rightarrow>
              let q = InputQueue_Accept (ir_Data a) (ir_EOF a) (c_Stdin c) in
              (case delivery of
                 None \<Rightarrow> Inr (c\<lparr>c_Stdin := q\<rparr>, Accepted ''pending'')
               | Some None \<Rightarrow> Inr (c\<lparr>c_Stdin := q\<rparr>, Accepted ''submitted'')
               | Some (Some next) \<Rightarrow> Inr (c\<lparr>c_Stdin := q\<lparr>iq_Delivered := next\<rparr>\<rparr>, Accepted ''submitted''))))))"

section \<open>Creation of a command\<close>

definition newCommand :: "string \<Rightarrow> string \<Rightarrow> gotime \<Rightarrow> Command" where
  "newCommand ident node now =
    \<lparr>c_Version = \<lparr>vs_Revision = 0, vs_StateDigest = []\<rparr>, c_ID = ident, c_NodeID = node,
     c_Status = \<lparr>st_State = ''starting'', st_ExitCode = None, st_ExitSignal = [], st_CoreDumped = False,
       st_WrittenInput = 0, st_InputClosed = False, st_Error = [], st_Stage = ''submitting'', st_Final = False,
       st_Started = None, st_Deadline = None, st_Updated = None, st_Finished = None, st_Supervisor = None,
       st_Termination = None, st_Output = None, st_Execution = None\<rparr>,
     c_Observation = zeroObservation, c_Cancellation = [], c_Release = None,
     c_StatusDeadline = Some (now + 120 * second + commandStatusGrace),
     c_Retained = \<lparr>ro_Deadline = None,
       ro_Stdout = \<lparr>rs_State = ''pending'', rs_Bytes = 0, rs_SHA256 = [], rs_Error = None\<rparr>,
       ro_Stderr = \<lparr>rs_State = ''pending'', rs_Bytes = 0, rs_SHA256 = [], rs_Error = None\<rparr>\<rparr>,
     c_Schedule = zeroSchedule, c_IdlePolls = 0,
     c_Stdin = \<lparr>iq_NextSequence = 0, iq_Delivered = 0, iq_Written = 0, iq_Bytes = 0, iq_Closed = False\<rparr>,
     c_Created = now\<rparr>"

text \<open>
  The first part of \<^verbatim>\<open>startCommand\<close>: \<open>access\<close> is the result of \<^verbatim>\<open>nodeAccess\<close> and of the
  node lookup (the node's template kind), \<open>saved\<close> the failure of the transaction.
\<close>

definition startAdmission ::
  "CommandSpec \<Rightarrow> string res \<Rightarrow> goerr option \<Rightarrow> string \<Rightarrow> string \<Rightarrow> gotime \<Rightarrow> LabState \<Rightarrow> LabState res" where
  "startAdmission spec access saved ident node now l =
    (case CommandSpec_Validate spec of
       Some e \<Rightarrow> Inl e
     | None \<Rightarrow>
       (case access of
          Inl e \<Rightarrow> Inl e
        | Inr kind \<Rightarrow>
          if cs_Context spec = ''desktop'' \<and> kind \<noteq> ''windows''
          then Inl (Fail ''unsupported_context'' ''desktop requires a Windows template; select the Linux user/session in the guest fixture'')
          else (case saved of
             Some e \<Rightarrow> Inl e
           | None \<Rightarrow> Inr (l\<lparr>lb_Commands := lb_Commands l @ [newCommand ident node now]\<rparr>))))"

text \<open>The second part, after the guest was asked to start: \<open>err\<close> is the outcome of that call.\<close>

definition startResult :: "duration \<Rightarrow> gotime \<Rightarrow> goerr option \<Rightarrow> Command \<Rightarrow> Command" where
  "startResult after now err c =
    (if \<not> st_Final (c_Status c) \<and> ob_LastSuccess (c_Observation c) = None
     then
       let c1 = c\<lparr>c_Status := (c_Status c)\<lparr>st_State := ''starting'', st_Stage := ''awaiting_status''\<rparr>,
                  c_StatusDeadline := (case c_StatusDeadline c of
                     Some d \<Rightarrow> if now + commandStatusGrace < d then Some (now + commandStatusGrace) else Some d
                   | None \<Rightarrow> None)\<rparr>
       in (case err of
             None \<Rightarrow> c1
           | Some e \<Rightarrow> c1\<lparr>c_Status := (c_Status c1)\<lparr>st_State := ''uncertain''\<rparr>,
                         c_Observation := Observation_update now (Some (Safe e)) after False (c_Observation c1)\<rparr>)
     else c)"

section \<open>Facts about the output file\<close>

lemma appendData_effect:
  assumes "appendData io old off data = (new, err)"
  shows "new = old \<or> (\<exists>k. off \<le> length old \<and> drop off old = take (length old - off) data \<and>
      new = old @ take k (drop (length old - off) data))"
proof -
  define x where "x = min (length data) (length old - off)"
  define k where "k = (case ap_write io of Some (e, k) \<Rightarrow> k | None \<Rightarrow> length data)"
  note d = assms[unfolded appendData_def Let_def, folded x_def]
  show ?thesis
  proof (cases "off \<le> length old \<and> x < length data \<and> take x (drop off old) = take x data \<and> \<not> (x > 0 \<and> ap_read io \<noteq> None)")
    case True
    then have "new = old @ take k (drop x data)"
      using d unfolding k_def by (cases "ap_write io") (simp_all split: if_splits prod.splits)
    moreover have "x < length data" using True by blast
    then have "x = length old - off" by (simp add: x_def min_def split: if_splits)
    ultimately show ?thesis using True by auto
  next
    case False
    then have "new = old" using d by (simp add: not_less split: if_splits)
    then show ?thesis ..
  qed
qed

lemma appendData_confirmed:
  assumes "appendData io old off data = (new, None)"
  shows "off \<le> length old" "take (length data) (drop off new) = data" "off + length data \<le> length new"
proof -
  let ?x = "min (length data) (length old - off)"
  have h: "off \<le> length old" "take ?x (drop off old) = take ?x data"
     "if ?x < length data then new = old @ drop ?x data else new = old"
    using assms by (auto simp: appendData_def Let_def not_less split: if_splits option.splits)
  have "take (length data) (drop off new) = data \<and> off + length data \<le> length new"
  proof (cases "?x < length data")
    case True
    then have x: "?x = length old - off" by simp
    then have "drop off old = take ?x data" using h(2) by simp
    then show ?thesis using h True x by simp
  next
    case False
    then show ?thesis using h by (simp add: min_def split: if_splits)
  qed
  then show "off \<le> length old" "take (length data) (drop off new) = data" "off + length data \<le> length new"
    using h(1) by auto
qed

lemma fileContent_upd [simp]: "fileContent (f(name \<mapsto> FFile s)) name = s"
  by (simp add: fileContent_def)

lemma openOutput_file: "openOutput io f name = Inr (FFile old) \<Longrightarrow> fileContent f name = old"
  by (auto simp: openOutput_def fileContent_def split: option.splits fsnode.splits)

lemma openOutput_other: "openOutput io f name = Inr nd \<Longrightarrow> \<forall>s. nd \<noteq> FFile s \<Longrightarrow> f name = Some nd"
  by (auto simp: openOutput_def split: option.splits fsnode.splits)

lemma appendOutput_cases:
  assumes "appendOutput io f name off data = (f', err)"
  shows "(fileContent f' name = fileContent f name \<and> err \<noteq> None) \<or>
    (\<exists>new. appendData io (fileContent f name) off data = (new, err) \<and> f' = f(name \<mapsto> FFile new))"
proof (cases "openOutput io f name")
  case (Inl e)
  then have "f' = f" "err = Some e" using assms by (simp_all add: appendOutput_def)
  then show ?thesis by simp
next
  case (Inr nd)
  show ?thesis
  proof (cases "\<exists>old. nd = FFile old")
    case True
    then obtain old where nd: "nd = FFile old" ..
    then have old: "fileContent f name = old" using Inr openOutput_file by simp
    obtain new e where a: "appendData io old off data = (new, e)" by force
    show ?thesis
      using assms by (cases "ap_stat io") (simp_all add: appendOutput_def Inr nd old a, metis option.distinct(1) fileContent_upd)
  next
    case False
    then have "f name = Some nd" using Inr openOutput_other by blast
    moreover have "f' = f(name \<mapsto> nd)" "err \<noteq> None"
      using assms Inr False by (auto simp: appendOutput_def dest: sym split: option.splits fsnode.splits)
    ultimately show ?thesis by (simp add: fileContent_def)
  qed
qed

section \<open>The output file as an append-only log\<close>

text \<open>
  What the retention relies on: an append either leaves the content as it is or
  extends it by bytes of the chunk that continue it, and a confirmed append holds
  the chunk at its offset.
\<close>

locale append_log =
  fixes append :: "'io \<Rightarrow> 'fs \<Rightarrow> nat \<Rightarrow> string \<Rightarrow> 'fs \<times> goerr option"
    and contents :: "'fs \<Rightarrow> string"
  assumes append_effect: "append io f off data = (f', err) \<Longrightarrow> contents f' = contents f \<or>
      (\<exists>k. off \<le> length (contents f) \<and> drop off (contents f) = take (length (contents f) - off) data \<and>
           contents f' = contents f @ take k (drop (length (contents f) - off) data))"
    and append_confirmed: "append io f off data = (f', None) \<Longrightarrow>
      take (length data) (drop off (contents f')) = data \<and> off + length data \<le> length (contents f')"
begin

lemma append_only: "append io f off data = (f', err) \<Longrightarrow> prefix (contents f) (contents f')"
  using append_effect[of io f off data f' err] by auto

lemma honest_append:
  assumes "append io f off data = (f', err)" "prefix (contents f) g" "data = take n (drop off g)"
  shows "prefix (contents f') g"
  using append_effect[OF assms(1)]
proof
  assume "contents f' = contents f"
  then show ?thesis using assms(2) by simp
next
  let ?l = "length (contents f)"
  assume "\<exists>k. off \<le> ?l \<and> drop off (contents f) = take (?l - off) data \<and>
           contents f' = contents f @ take k (drop (?l - off) data)"
  then obtain k where k: "off \<le> ?l" "contents f' = contents f @ take k (drop (?l - off) data)" by blast
  have "drop (?l - off) data = take (n - (?l - off)) (drop ?l g)"
    using k(1) assms(3) by (simp add: drop_take)
  then have "contents f' = contents f @ take (min k (n - (?l - off))) (drop ?l g)"
    using k(2) by (simp add: min.commute)
  moreover have "contents f = take ?l g" using assms(2) by (metis prefix_def append_eq_conv_conj)
  ultimately have "contents f' = take (?l + min k (n - (?l - off))) g" by (metis take_add)
  then show ?thesis by (simp add: take_is_prefix)
qed

lemma replay:
  assumes "append io f off data = (f1, None)" "append io' f1 off data = (f2, err)"
  shows "contents f2 = contents f1"
  using append_effect[OF assms(2)] append_confirmed[OF assms(1)] by auto

lemma honest_run:
  assumes "\<forall>(io, off, data)\<in>set calls. \<exists>n. data = take n (drop off g)" "prefix (contents f) g"
  shows "prefix (contents (foldl (\<lambda>f (io, off, data). fst (append io f off data)) f calls)) g"
  using assms
proof (induction calls arbitrary: f)
  case (Cons c calls)
  obtain io off data where c: "c = (io, off, data)" by (cases c) auto
  then obtain n where n: "data = take n (drop off g)" using Cons.prems(1) by auto
  obtain f' err where a: "append io f off data = (f', err)" by force
  have "prefix (contents f') g" by (rule honest_append[OF a Cons.prems(2) n])
  then show ?case using Cons.IH[of f'] Cons.prems(1) a c by simp
qed simp

end

interpretation output_log: append_log "\<lambda>io f. appendOutput io f name" "\<lambda>f. fileContent f name" for name
proof unfold_locales
  fix io f off data f' err
  assume a: "appendOutput io f name off data = (f', err)"
  show "fileContent f' name = fileContent f name \<or>
      (\<exists>k. off \<le> length (fileContent f name) \<and>
           drop off (fileContent f name) = take (length (fileContent f name) - off) data \<and>
           fileContent f' name = fileContent f name @ take k (drop (length (fileContent f name) - off) data))"
    using appendOutput_cases[OF a] appendData_effect[of io "fileContent f name" off data]
    by (metis fileContent_upd)
next
  fix io f off data f'
  assume "appendOutput io f name off data = (f', None)"
  from appendOutput_cases[OF this] obtain new where
    "appendData io (fileContent f name) off data = (new, None)" "f' = f(name \<mapsto> FFile new)" by auto
  then show "take (length data) (drop off (fileContent f' name)) = data \<and> off + length data \<le> length (fileContent f' name)"
    using appendData_confirmed by simp
qed

section \<open>Properties of retention\<close>

text \<open>
  C26. Output is append-only and replay-safe: start from no file and apply any sequence of
  appends of chunks of one guest stream, at any offsets (replays after an
  interrupted state write included) and with any system-call failure in any of
  them, a partial write included; the retained file is always a prefix of the
  stream.
\<close>
theorem output_is_prefix:
  assumes "\<forall>(io, off, data)\<in>set calls. \<exists>n. data = take n (drop off stream)" "f name = None"
  shows "prefix (fileContent (foldl (\<lambda>f (io, off, data). fst (appendOutput io f name off data)) f calls) name) stream"
  using output_log.honest_run[of calls stream f name] assms by (simp add: fileContent_def)

definition quietIO :: append_io where
  "quietIO = \<lparr>ap_mkdir = None, ap_open = None, ap_stat = None, ap_read = None, ap_write = None, ap_sync = None\<rparr>"

theorem output_is_prefix_witness:
  "prefix (fileContent (foldl (\<lambda>f (io, off, data). fst (appendOutput io f ''o'' off data)) (\<lambda>_. None)
     [(quietIO, 0, ''ab''), (quietIO\<lparr>ap_write := Some (EUnexpectedEOF, 1)\<rparr>, 2, ''cd''), (quietIO, 2, ''cde'')]) ''o'') ''abcdef''"
proof (rule output_is_prefix)
  show "\<forall>(io, off, data)\<in>set [(quietIO, 0, ''ab''), (quietIO\<lparr>ap_write := Some (EUnexpectedEOF, 1)\<rparr>, 2, ''cd''),
      (quietIO, 2, ''cde'')]. \<exists>n. data = take n (drop off ''abcdef'')"
    using exI[of "\<lambda>n. ''ab'' = take n ''abcdef''" 2] exI[of "\<lambda>n. ''cd'' = take n ''cdef''" 2]
      exI[of "\<lambda>n. ''cde'' = take n ''cdef''" 3] by simp
qed simp

lemma Regular_content: "Regular f name = Inr content \<Longrightarrow> f name = Some (FFile content)"
  by (auto simp: Regular_def split: option.splits fsnode.splits)

lemma failStream_state [simp]: "rs_State (failStream e r) = ''incomplete''" "rs_Bytes (failStream e r) = rs_Bytes r"
  by (simp_all add: failStream_def)


lemma checkChunk_Inl:
  "checkChunk sha b64 r chunk fin = Inl r' \<Longrightarrow> rs_State r' \<in> {''incomplete'', ''pending''} \<and> rs_Bytes r' = rs_Bytes r"
  by (auto simp: checkChunk_def split: if_splits option.splits)

lemma checkChunk_Inr:
  "checkChunk sha b64 r chunk fin = Inr data \<Longrightarrow>
     b64 (ch_Data chunk) = Some data \<and> sha data = ch_SHA256 chunk \<and> ch_Offset chunk = rs_Bytes r \<and>
     int (length data) = ch_Next chunk - ch_Offset chunk \<and> ch_Next chunk \<le> ch_Size chunk \<and>
     ch_Size chunk \<le> CommandOutputLimit"
  by (simp add: checkChunk_def not_less split: if_splits option.splits)

lemma finishStream_complete:
  "rs_State (finishStream sha rb f name r chunk status sz eh) = ''complete'' \<Longrightarrow> rs_State r \<noteq> ''complete'' \<Longrightarrow>
     sz = ch_Size chunk \<and> (\<exists>content. f name = Some (FFile content) \<and> int (length content) = sz \<and> sha content = eh \<and>
       rs_SHA256 (finishStream sha rb f name r chunk status sz eh) = eh)"
  by (auto simp: finishStream_def Let_def dest!: Regular_content split: if_splits option.splits sum.splits)

lemma finishStream_kept:
  "rs_Bytes (finishStream sha rb f name r chunk status sz eh) = rs_Bytes r"
  "rs_State (finishStream sha rb f name r chunk status sz eh) \<in> {''complete'', ''incomplete''}"
  by (auto simp: finishStream_def Let_def split: option.splits sum.splits)

lemma retainStream_outcome:
  assumes "retainStream sha b64 io rb f name r chunk status sz eh = (f', r', again)" "\<not> RetainedStream_done r"
  shows "rs_State r' \<in> {''incomplete'', ''pending''} \<and> rs_Bytes r' = rs_Bytes r \<and> \<not> again \<or>
    (\<exists>data. checkChunk sha b64 r chunk (st_Final status) = Inr data \<and>
       appendOutput io f name (nat (rs_Bytes r)) data = (f', None) \<and> rs_Bytes r' = ch_Next chunk \<and>
       (rs_State r' = ''collecting'' \<and> (again \<longleftrightarrow> ch_Next chunk > ch_Offset chunk \<and> ch_Next chunk < ch_Size chunk) \<or>
        st_Final status \<and> ch_Next chunk = ch_Size chunk \<and> \<not> again \<and>
        r' = finishStream sha rb f' name (r\<lparr>rs_Bytes := ch_Next chunk, rs_State := ''collecting'', rs_Error := None\<rparr>)
               chunk status sz eh))"
proof (cases "checkChunk sha b64 r chunk (st_Final status)")
  case (Inl x)
  then have "r' = x" "\<not> again" using assms by (auto simp: retainStream_def)
  then show ?thesis using checkChunk_Inl[OF Inl] by simp
next
  case (Inr data)
  obtain f1 err where a: "appendOutput io f name (nat (rs_Bytes r)) data = (f1, err)" by force
  show ?thesis
  proof (cases err)
    case None
    then show ?thesis using assms Inr a by (auto simp: retainStream_def Let_def finishStream_kept split: if_splits)
  next
    case (Some e)
    then have "r' = failStream e r" "\<not> again" using assms Inr a by (auto simp: retainStream_def)
    then show ?thesis by simp
  qed
qed

text \<open>
  A stream is only reported complete when the file on disk is: the step that marks
  it complete has a final status, and the retained file has exactly the size and
  the digest the supervisor confirmed, which are also the recorded ones.
\<close>
lemma complete_output_verified:
  assumes "retainStream sha b64 io rb f name r chunk status sz eh = (f', r', again)" "\<not> RetainedStream_done r"
    and "rs_State r' = ''complete''"
  shows "st_Final status \<and> rs_Bytes r' = sz \<and> rs_SHA256 r' = eh \<and>
    (\<exists>content. f' name = Some (FFile content) \<and> int (length content) = sz \<and> sha content = eh)"
proof -
  let ?r1 = "r\<lparr>rs_Bytes := ch_Next chunk, rs_State := ''collecting'', rs_Error := None\<rparr>"
  from retainStream_outcome[OF assms(1,2)] assms(3) have e: "st_Final status" "ch_Next chunk = ch_Size chunk"
      "rs_Bytes r' = ch_Next chunk" "r' = finishStream sha rb f' name ?r1 chunk status sz eh"
    by auto
  have "sz = ch_Size chunk \<and> (\<exists>content. f' name = Some (FFile content) \<and> int (length content) = sz \<and> sha content = eh \<and>
       rs_SHA256 (finishStream sha rb f' name ?r1 chunk status sz eh) = eh)"
    by (rule finishStream_complete) (use assms(3) e(4) in simp_all)
  then show ?thesis using e by auto
qed

text \<open>
  The retained count of a stream never moves back and never passes the 64 MiB
  limit, it always counts bytes that are in the file, and a further read is only
  asked for after progress.
\<close>
lemma retained_bytes_bounded:
  assumes "retainStream sha b64 io rb f name r chunk status sz eh = (f', r', again)"
    and "0 \<le> rs_Bytes r" "rs_Bytes r \<le> CommandOutputLimit" "rs_Bytes r \<le> int (length (fileContent f name))"
  shows "rs_Bytes r \<le> rs_Bytes r' \<and> rs_Bytes r' \<le> CommandOutputLimit \<and>
    rs_Bytes r' \<le> int (length (fileContent f' name)) \<and> (again \<longrightarrow> rs_Bytes r < rs_Bytes r')"
proof (cases "RetainedStream_done r")
  case True
  then show ?thesis using assms by (auto simp: retainStream_def)
next
  case False
  have grow: "int (length (fileContent f name)) \<le> int (length (fileContent f' name))"
  proof -
    obtain g err where "f' = f \<or> (\<exists>data. appendOutput io f name (nat (rs_Bytes r)) data = (f', err))"
      using assms(1) False by (auto simp: retainStream_def Let_def split: sum.splits prod.splits option.splits if_splits)
    then show ?thesis using output_log.append_only[THEN prefix_length_le] by auto
  qed
  from retainStream_outcome[OF assms(1) False] show ?thesis
  proof
    assume "rs_State r' \<in> {''incomplete'', ''pending''} \<and> rs_Bytes r' = rs_Bytes r \<and> \<not> again"
    then show ?thesis using assms grow by auto
  next
    assume "\<exists>data. checkChunk sha b64 r chunk (st_Final status) = Inr data \<and>
       appendOutput io f name (nat (rs_Bytes r)) data = (f', None) \<and> rs_Bytes r' = ch_Next chunk \<and>
       (rs_State r' = ''collecting'' \<and> (again \<longleftrightarrow> ch_Next chunk > ch_Offset chunk \<and> ch_Next chunk < ch_Size chunk) \<or>
        st_Final status \<and> ch_Next chunk = ch_Size chunk \<and> \<not> again \<and>
        r' = finishStream sha rb f' name (r\<lparr>rs_Bytes := ch_Next chunk, rs_State := ''collecting'', rs_Error := None\<rparr>)
               chunk status sz eh)"
    then obtain data where d: "checkChunk sha b64 r chunk (st_Final status) = Inr data"
      "appendOutput io f name (nat (rs_Bytes r)) data = (f', None)" "rs_Bytes r' = ch_Next chunk"
      "again \<longrightarrow> ch_Next chunk > ch_Offset chunk" by blast
    then show ?thesis
      using checkChunk_Inr[OF d(1)] output_log.append_confirmed[OF d(2)] assms(2) by auto
  qed
qed

section \<open>Properties of one read\<close>

lemma failedPoll_kept [simp]:
  "c_Status (failedPoll now c) = c_Status c" "c_Retained (failedPoll now c) = c_Retained c"
  "c_Stdin (failedPoll now c) = c_Stdin c" "c_Observation (failedPoll now c) = c_Observation c"
  by (simp_all add: failedPoll_def)

lemma successfulPoll_kept [simp]:
  "c_Status (successfulPoll now ch c) = c_Status c" "c_Retained (successfulPoll now ch c) = c_Retained c"
  "c_Stdin (successfulPoll now ch c) = c_Stdin c"
  by (simp_all add: successfulPoll_def Let_def)

lemma replyError_Inr:
  assumes "replyError ident previous reply = Inr v"
  shows "validateSnapshot ident v = None" "st_Final previous \<Longrightarrow> sn_Status v = Some previous"
    "st_Supervisor previous = Some p \<Longrightarrow> sn_Status v = Some st \<Longrightarrow> st_Supervisor st = Some p"
  using assms by (auto simp: replyError_def split: sum.splits option.splits if_splits)

lemma validated_pending: "validateSnapshot ident v = None \<Longrightarrow> sn_Pending v \<longleftrightarrow> sn_Status v = None"
proof -
  assume "validateSnapshot ident v = None"
  moreover have "validateSnapshot ident v \<noteq> None" if "sn_Pending v" "sn_Status v = Some st" for st
    using that by (simp add: validateSnapshot_def)
  moreover have "validateSnapshot ident v \<noteq> None" if "\<not> sn_Pending v" "sn_Status v = None"
    using that by (simp add: validateSnapshot_def)
  ultimately show ?thesis by (cases "sn_Status v") auto
qed

lemma applyStatus_status [simp]: "c_Status (applyStatus now prev st ret ve c) = st"
  by (simp add: applyStatus_def Let_def)

lemma acceptStatus_status: "c_Status (fst (acceptStatus now si inp prev st ret ve c)) = st"
  by (cases inp) (simp_all add: acceptStatus_def Let_def)

lemma readReply_status:
  "c_Status (rd_command (readReply sha b64 io1 io2 after now ident reply inputs si f base c0 c)) =
    (case replyError ident (c_Status c0) reply of
       Inl e \<Rightarrow> c_Status c
     | Inr v \<Rightarrow> (case (sn_Pending v, sn_Status v) of
          (False, Some st) \<Rightarrow> st
        | _ \<Rightarrow> c_Status (pendingReply now c)))"
  by (auto simp: readReply_def Let_def acceptStatus_status split: sum.splits bool.splits option.splits prod.splits)
     (metis acceptStatus_status fst_conv)+

text \<open>
  A final execution record is immutable: once a final status was observed, no later
  reply of the guest, valid or not, changes the recorded status; a reply that
  differs is an observation error.
\<close>
lemma final_status_immutable:
  assumes "st_Final (c_Status c)"
  shows "c_Status (rd_command (readReply sha b64 io1 io2 after now ident reply inputs si f base c c)) = c_Status c"
proof (cases "replyError ident (c_Status c) reply")
  case (Inl e)
  then show ?thesis by (simp add: readReply_status)
next
  case (Inr v)
  have s: "sn_Status v = Some (c_Status c)" using replyError_Inr(2)[OF Inr] assms by simp
  moreover have "\<not> sn_Pending v" using validated_pending[OF replyError_Inr(1)[OF Inr]] s by simp
  ultimately show ?thesis by (simp add: readReply_status Inr)
qed

lemma pollLoop_bound: "snd (pollLoop live step i n c) \<le> i + n"
proof (induction n arbitrary: i c)
  case (Suc n)
  show ?case using Suc.IH[of "Suc i"] by (auto split: prod.splits)
qed simp

lemma pollCommandContext_bound: "snd (pollCommandContext live step c) \<le> 16"
  using pollLoop_bound[of live step 0 16 c] by (simp add: pollCommandContext_def)

section \<open>The stdin of a command as a state machine\<close>

text \<open>
  The state is the command and the list of persisted packets.  A step is a request in any
  circumstances (accepted, replayed or refused) or a read of the command.
\<close>

type_synonym instate = "Command \<times> (string \<times> bool) list"

definition storedAt :: "(string \<times> bool) list \<Rightarrow> int \<Rightarrow> (string \<times> bool) option" where
  "storedAt pk i = (if 0 \<le> i \<and> nat i < length pk then Some (pk ! nat i) else None)"

inductive inputTrans :: "instate \<Rightarrow> instate \<Rightarrow> bool" where
  accepted: "commandInput (storedAt pk) err delivery task (Inr c) a = Inr (c', Accepted how) \<Longrightarrow>
     inputTrans (c, pk) (c', pk @ [(ir_Data a, ir_EOF a)])"
| replayed: "commandInput (storedAt pk) err delivery task (Inr c) a = Inr (c', Replayed d w) \<Longrightarrow>
     inputTrans (c, pk) (c', pk)"
| refused: "commandInput (storedAt pk) err delivery task (Inr c) a = Inl e \<Longrightarrow> inputTrans (c, pk) (c, pk)"
| observed: "inputTrans (c, pk)
     (rd_command (readReply sha b64 io1 io2 after now ident reply inputs si f base c0 c), pk)"

inductive_cases inputTransE: "inputTrans s s'"

definition inputStart :: "instate \<Rightarrow> bool" where
  "inputStart s \<longleftrightarrow> (\<exists>ident node now. s = (newCommand ident node now, []))"

definition inputInv :: "instate \<Rightarrow> bool" where
  "inputInv s \<longleftrightarrow> (case s of (c, pk) \<Rightarrow>
     iq_NextSequence (c_Stdin c) = int (length pk) \<and>
     iq_Bytes (c_Stdin c) = sum_list (map (int \<circ> length \<circ> fst) pk) \<and>
     iq_Closed (c_Stdin c) = (pk \<noteq> [] \<and> snd (last pk)) \<and>
     (\<forall>p\<in>set (butlast pk). \<not> snd p) \<and>
     int (length pk) \<le> InputPacketCount \<and> iq_Bytes (c_Stdin c) \<le> CommandInputLimit \<and>
     (\<forall>p\<in>set pk. length (fst p) \<le> InputPacketLimit))"

lemma commandInput_accepted:
  assumes "commandInput st err dl task (Inr c) a = Inr (c', Accepted how)"
  shows "ir_Sequence a = iq_NextSequence (c_Stdin c)" "length (ir_Data a) \<le> InputPacketLimit"
    "iq_NextSequence (c_Stdin c) < InputPacketCount" "\<not> iq_Closed (c_Stdin c)"
    "iq_Bytes (c_Stdin c) + int (length (ir_Data a)) \<le> CommandInputLimit"
    "iq_NextSequence (c_Stdin c') = iq_NextSequence (c_Stdin c) + 1"
    "iq_Bytes (c_Stdin c') = iq_Bytes (c_Stdin c) + int (length (ir_Data a))" "iq_Closed (c_Stdin c') = ir_EOF a"
  using assms unfolding commandInput_def Let_def
  by (simp_all add: InputQueue_Accept_def not_less not_le split: if_splits sum.splits option.splits del: oneOf.simps)
     (auto simp: InputQueue_Accept_def)

lemma commandInput_replayed:
  "commandInput st err dl task (Inr c) a = Inr (c', Replayed d w) \<Longrightarrow> c' = c"
  unfolding commandInput_def Let_def
  by (simp split: if_splits sum.splits option.splits del: oneOf.simps)

definition sameQueue :: "InputQueue \<Rightarrow> InputQueue \<Rightarrow> bool" where
  "sameQueue q q' \<longleftrightarrow> iq_NextSequence q' = iq_NextSequence q \<and> iq_Bytes q' = iq_Bytes q \<and> iq_Closed q' = iq_Closed q"

lemma applyStatus_queue: "sameQueue (c_Stdin c) (c_Stdin (applyStatus now prev st ret ve c))"
  by (simp add: applyStatus_def Let_def sameQueue_def)

lemma acceptStatus_queue: "sameQueue (c_Stdin c) (c_Stdin (fst (acceptStatus now si inp prev st ret ve c)))"
  using applyStatus_queue[of c now prev st ret ve] by (cases inp) (simp_all add: acceptStatus_def Let_def)

lemma pendingReply_queue: "c_Stdin (pendingReply now c) = c_Stdin c"
  by (simp add: pendingReply_def Let_def split: option.splits)

lemma readReply_queue:
  "sameQueue (c_Stdin c) (c_Stdin (rd_command (readReply sha b64 io1 io2 after now ident reply inputs si f base c0 c)))"
proof -
  have r: "sameQueue q q" for q by (simp add: sameQueue_def)
  show ?thesis
    by (simp add: readReply_def Let_def r pendingReply_queue split_beta acceptStatus_queue
        split: sum.splits bool.splits option.splits)
qed

lemma inputInv_accept:
  assumes "inputInv (c, pk)" "commandInput st err dl task (Inr c) a = Inr (c', Accepted how)"
  shows "inputInv (c', pk @ [(ir_Data a, ir_EOF a)])"
proof -
  note f = commandInput_accepted[OF assms(2)]
  have no: "\<forall>p\<in>set pk. \<not> snd p"
  proof (cases pk rule: rev_cases)
    case (snoc ps p)
    then show ?thesis using assms(1) f(4) by (auto simp: inputInv_def)
  qed simp
  then show ?thesis using assms(1) f by (auto simp: inputInv_def)
qed

lemma inputInv_trans: "inputTrans s s' \<Longrightarrow> inputInv s \<Longrightarrow> inputInv s'"
proof (induction rule: inputTrans.induct)
  case (accepted pk err delivery task c a c' how)
  then show ?case using inputInv_accept by blast
next
  case (replayed pk err delivery task c a c' d w)
  then show ?case using commandInput_replayed by blast
next
  case (observed c pk sha b64 io1 io2 after now ident reply inputs si f base c0)
  then show ?case
    using readReply_queue[of c sha b64 io1 io2 after now ident reply inputs si f base c0]
    by (simp add: inputInv_def sameQueue_def)
qed

interpretation stdin: invariant_system inputStart inputTrans inputInv
proof unfold_locales
  show "inputStart s \<Longrightarrow> inputInv s" for s
    by (auto simp: inputStart_def inputInv_def newCommand_def InputPacketCount_def CommandInputLimit_def)
  show "inputInv s \<Longrightarrow> inputTrans s t \<Longrightarrow> inputInv t" for s t
    using inputInv_trans by blast
qed


definition sampleTask :: Task where
  "sampleTask = \<lparr>t_DetailExpires = None, t_ResourceCounts = [], t_Version = \<lparr>vs_Revision = 0, vs_StateDigest = []\<rparr>,
     t_ID = ''t1'', t_Kind = ''lab'', t_State = ''running'', t_Created = 0, t_Started = Some 1, t_Deadline = Some 100,
     t_Ended = None, t_TimeoutSeconds = 60, t_Conclusion = [], t_Summary = [], t_Reason = [], t_Cleanup = ''pending'',
     t_CleanupErrors = [], t_Failure = None, t_Purged = False, t_Hold = None,
     t_domain = DLab \<lparr>lb_Nodes = [sampleNode], lb_Router = None, lb_RouterPassword = [], lb_RouterISO = [],
       lb_RouterBootID = [], lb_NetworkUpdated = 0, lb_NetworkLeaseExpires = 0, lb_NetworkPolicyHash = [],
       lb_NetworkObservation = None, lb_GUI = None, lb_LAN = ''10.1.0.0/24'', lb_DHCP = True, lb_DNS = [],
       lb_Internet = False, lb_Network = ''ready'', lb_Commands = [], lb_Endpoints = [], lb_Captures = []\<rparr>,
     t_Artifacts = [], t_pendingEvents = []\<rparr>"


section \<open>Witnesses\<close>

definition sampleChunk :: StreamChunk where
  "sampleChunk = \<lparr>ch_State = ''available'', ch_Offset = 0, ch_Next = 2, ch_Size = 2, ch_Data = ''ab'', ch_SHA256 = ''h'',
     ch_Error = None\<rparr>"

definition sampleFinal :: CommandStatus where
  "sampleFinal = (c_Status (newCommand ''c1'' ''n1'' 0))\<lparr>st_State := ''exited'', st_Final := True,
     st_Output := Some \<lparr>co_State = ''complete'', co_StdoutBytes = 2, co_StderrBytes = 0, co_StdoutSHA256 = ''h'',
       co_StderrSHA256 = [], co_StdoutTruncated = False, co_StderrTruncated = False, co_Error = None\<rparr>\<rparr>"

lemma sampleRetain:
  "retainStream (\<lambda>_. ''h'') Some quietIO None (\<lambda>_. None) ''o'' (ro_Stdout (c_Retained (newCommand ''c1'' ''n1'' 0)))
     sampleChunk sampleFinal 2 ''h'' =
   ((\<lambda>_. None)(''o'' \<mapsto> FFile ''ab''),
    \<lparr>rs_State = ''complete'', rs_Bytes = 2, rs_SHA256 = ''h'', rs_Error = None\<rparr>, False)"
proof -
  have n: "Name ''o'' = None" "splitOn CHR ''/'' ''o'' = [''o'']" "pathJoin [] ''o'' = ''o''"
    by (simp_all add: Name_def pathJoin_def Clean_def pathElems_def isAbs_def)
  show ?thesis
    by (simp add: retainStream_def checkChunk_def finishStream_def appendOutput_def openOutput_def appendData_def
        quietIO_def orElse_def sampleChunk_def sampleFinal_def newCommand_def RetainedStream_done_def Let_def
        CommandOutputLimit_def CommandReadLimit_def Regular_def n)
qed

end
