(* ===== verification/Server.thy ===== *)
theory Server
  imports CommandIO
begin

text \<open>
  The controller's state and the critical sections of its task life cycle
  (\<^verbatim>\<open>internal/control/server.go\<close>, \<^verbatim>\<open>cleanup.go\<close>, the task operations of
  \<^verbatim>\<open>operations.go\<close> and \<^verbatim>\<open>extend.go\<close>).  Each function is one section executed under
  the mutex \<^verbatim>\<open>s.mu\<close>; what happens between two sections (calls of the backend,
  timers) reaches the next section as an argument.
\<close>

section \<open>State\<close>

text \<open>The observation flags of a Nix job's runtime.\<close>

record NixRuntime =
  nixObserving :: bool
  nixCollecting :: bool
  nixNextObservation :: gotime

definition zeroNixRuntime :: NixRuntime where
  "zeroNixRuntime = \<lparr>nixObserving = False, nixCollecting = False, nixNextObservation = zeroTime\<rparr>"

record Server =
  s_nixEvidenceActive :: int
  s_nixRuntime :: "string \<Rightarrow> NixRuntime"
  s_storageBlocked :: bool
  s_tasks :: "Task list"
  s_active :: string
  s_closed :: bool

definition findTask :: "string \<Rightarrow> Server \<Rightarrow> Task option" where
  "findTask ident s = List.find (\<lambda>t. t_ID t = ident) (s_tasks s)"

text \<open>The code changes a task through its pointer; the model through its identifier.\<close>

definition updTask :: "string \<Rightarrow> (Task \<Rightarrow> Task) \<Rightarrow> Server \<Rightarrow> Server" where
  "updTask ident g s = s\<lparr>s_tasks := map (\<lambda>t. if t_ID t = ident then g t else t) (s_tasks s)\<rparr>"

text \<open>
  \<^verbatim>\<open>Server.task\<close>: the live tasks first, then the stored ones (the parameter \<open>stored\<close>).
\<close>

definition Server_task :: "(string \<Rightarrow> Task option) \<Rightarrow> string \<Rightarrow> Server \<Rightarrow> Task res" where
  "Server_task stored ident s =
    (case findTask ident s of
       Some t \<Rightarrow> Inr t
     | None \<Rightarrow> (case stored ident of Some t \<Rightarrow> Inr t | None \<Rightarrow> Inl (Fail ''not_found'' ''Execution not found'')))"

definition Server_running :: "(string \<Rightarrow> Task option) \<Rightarrow> string \<Rightarrow> Server \<Rightarrow> Task res" where
  "Server_running stored ident s =
    (case Server_task stored ident s of
       Inl e \<Rightarrow> Inl e
     | Inr t \<Rightarrow> if t_State t \<noteq> ''running'' \<or> t_Kind t \<noteq> ''lab''
               then Inl (Fail ''invalid_state'' ''A running lab is required'') else Inr t)"

text \<open>
  \<^verbatim>\<open>Server.save\<close> with the outcome \<open>ok\<close> of the write: a failed write closes the service,
  and after a successful one the settled children leave memory.
\<close>

definition Server_save :: "Storage \<Rightarrow> bool \<Rightarrow> string \<Rightarrow> Server \<Rightarrow> Server" where
  "Server_save cfg ok ident s =
    (let s1 = (updTask ident (detailExpiry cfg) s)\<lparr>s_closed := s_closed s \<or> \<not> ok\<rparr>
     in if s_closed s1 then s1 else updTask ident (mapLab pruneLab) s1)"

section \<open>Scheduling\<close>

text \<open>
  The first section of a scheduler tick: the queue is served in order, one task at a
  time, and only while the slot is free.  The second result is the task whose
  backend is asked next.
\<close>

definition schedulePick :: "Server \<Rightarrow> Server \<times> string option" where
  "schedulePick s =
    (if s_active s \<noteq> [] \<or> s_closed s \<or> s_storageBlocked s then (s, None)
     else (case List.find (\<lambda>t. t_State t = ''queued'') (s_tasks s) of
        None \<Rightarrow> (s, None)
      | Some t \<Rightarrow> (s\<lparr>s_active := t_ID t\<rparr>, Some (t_ID t))))"

text \<open>
  The second section, with the reply of the backend: the reason it is unavailable or an
  error.  The result tells whether the execution starts.
\<close>

definition refusedTask :: "gotime \<Rightarrow> string \<Rightarrow> Task \<Rightarrow> Task" where
  "refusedTask now reason t =
    (let t1 = t\<lparr>t_Reason := (if reason \<noteq> [] then reason else ''backend_unavailable'')\<rparr> in
     if t_Kind t1 = ''nixos'' \<and> oneOf reason [''worker_unavailable'', ''nix_disabled''] \<and> t_State t1 = ''queued''
     then t1\<lparr>t_State := ''failed'', t_Cleanup := ''complete'', t_Ended := Some now\<rparr> else t1)"

definition admittedTask :: "gotime \<Rightarrow> Task \<Rightarrow> Task" where
  "admittedTask now t = t\<lparr>t_Started := Some now, t_Deadline := Some (now + t_TimeoutSeconds t * second),
     t_State := ''preparing'', t_Reason := []\<rparr>"

definition scheduleAdmit :: "Storage \<Rightarrow> bool \<Rightarrow> gotime \<Rightarrow> string \<Rightarrow> bool \<Rightarrow> string \<Rightarrow> Server \<Rightarrow> Server \<times> bool" where
  "scheduleAdmit cfg ok now reason failed ident s =
    (if failed \<or> reason \<noteq> []
     then ((Server_save cfg ok ident (updTask ident (refusedTask now reason) s))\<lparr>s_active := []\<rparr>, False)
     else if (case findTask ident s of None \<Rightarrow> True | Some t \<Rightarrow> t_State t \<noteq> ''queued'')
     then (s\<lparr>s_active := []\<rparr>, False)
     else (Server_save cfg ok ident (updTask ident (admittedTask now) s), True))"

text \<open>
  A task leaves the list only after it was released (\<^verbatim>\<open>forget\<close> follows a \<^verbatim>\<open>purge\<close>, which
  demands a settled task); a goroutine that still holds its pointer sees it released.
\<close>

definition isReleased :: "string \<Rightarrow> Server \<Rightarrow> bool" where
  "isReleased ident s = (case findTask ident s of None \<Rightarrow> True | Some t \<Rightarrow> t_Cleanup t = ''complete'')"

definition releaseScheduler :: "string \<Rightarrow> Server \<Rightarrow> Server" where
  "releaseScheduler ident s =
    (if s_active s \<noteq> ident \<or> \<not> isReleased ident s then s
     else s\<lparr>s_active := (case List.find (\<lambda>x. Terminal x \<and> t_Cleanup x \<noteq> ''complete'') (s_tasks s) of
              None \<Rightarrow> [] | Some x \<Rightarrow> t_ID x)\<rparr>)"

section \<open>Execution\<close>

text \<open>The deadline watcher of \<^verbatim>\<open>execute\<close>.\<close>

definition expired :: "gotime \<Rightarrow> Task \<Rightarrow> bool" where
  "expired now t \<longleftrightarrow> (case t_Deadline t of None \<Rightarrow> False | Some d \<Rightarrow> \<not> now < d) \<and> \<not> Terminal t"

definition expireDeadline :: "Storage \<Rightarrow> bool \<Rightarrow> gotime \<Rightarrow> string \<Rightarrow> Server \<Rightarrow> Server" where
  "expireDeadline cfg ok now ident s =
    (if (case findTask ident s of None \<Rightarrow> False | Some t \<Rightarrow> expired now t)
     then Server_save cfg ok ident (updTask ident (\<lambda>t. t\<lparr>t_State := ''timed_out''\<rparr>) s)
     else s)"

definition dispatchNix :: "Storage \<Rightarrow> bool \<Rightarrow> string \<Rightarrow> Server \<Rightarrow> Server" where
  "dispatchNix cfg ok ident s = Server_save cfg ok ident
     (updTask ident (mapNix (\<lambda>j. j\<lparr>nj_Dispatched := True, nj_Evidence := nixEvidenceIn ''pending''\<rparr>)) s)"

text \<open>
  The section of \<^verbatim>\<open>execute\<close> after preparation: \<open>err\<close> is its outcome and \<open>stopped\<close>
  whether the service is stopping.
\<close>

definition preparedTask :: "gotime \<Rightarrow> goerr option \<Rightarrow> bool \<Rightarrow> Task \<Rightarrow> Task" where
  "preparedTask now err stopped t =
    (case err of
       Some e \<Rightarrow>
         if \<not> Terminal t then
           let t1 = t\<lparr>t_State := ''failed'', t_Reason := Code (Safe e), t_Failure := Some (Safe e)\<rparr>;
               t2 = (if stopped then t1\<lparr>t_State := ''interrupted'', t_Reason := ''service_stopped''\<rparr> else t1)
           in eventDetails now ''prepare_failed'' ''Backend preparation failed'' GNil t2
         else if t_State t = ''preparing'' then t\<lparr>t_State := ''running''\<rparr> else t
     | None \<Rightarrow> if t_State t = ''preparing'' then t\<lparr>t_State := ''running''\<rparr> else t)"

definition prepared :: "Storage \<Rightarrow> bool \<Rightarrow> gotime \<Rightarrow> goerr option \<Rightarrow> bool \<Rightarrow> string \<Rightarrow> Server \<Rightarrow> Server" where
  "prepared cfg ok now err stopped ident s =
    Server_save cfg ok ident (updTask ident (preparedTask now err stopped) s)"

text \<open>
  The sections of the \<^verbatim>\<open>observe\<close> loop that touch the task's state: the context was
  cancelled; the ticker fired; the worker reported an execution record; the worker
  reported a state.  The flag tells whether the loop ends.
\<close>

datatype observeInput = ContextDone | Ticked gotime | NixStatus "NixExecution option" | NixConcluded string

definition nixFinal :: "string \<Rightarrow> bool" where
  "nixFinal v \<longleftrightarrow> v = ''succeeded'' \<or> v = ''failed'' \<or> v = ''cleanup_required'' \<or> v = ''interrupted''"

definition nixResult :: "string \<Rightarrow> Task \<Rightarrow> Task" where
  "nixResult v t =
    (if v = ''interrupted'' then t\<lparr>t_State := ''interrupted'', t_Conclusion := ''inconclusive''\<rparr>
     else if v \<noteq> ''succeeded'' then t\<lparr>t_State := ''failed'', t_Conclusion := ''failed''\<rparr>
     else t\<lparr>t_State := ''finished'', t_Conclusion := ''passed''\<rparr>)"

definition nixObserved :: "NixExecution option \<Rightarrow> Task \<Rightarrow> Task" where
  "nixObserved ex t =
    (case (ex, t_domain t) of
       (Some x, DNix j) \<Rightarrow>
         if nj_NixExecution j \<noteq> Some x
         then (mapNix (\<lambda>j. j\<lparr>nj_NixExecution := Some x\<rparr>) t)
                \<lparr>t_Failure := (case nx_Error x of Some e \<Rightarrow> Some e | None \<Rightarrow> nx_PersistenceError x)\<rparr>
         else t
     | _ \<Rightarrow> t)"

definition observeTask :: "observeInput \<Rightarrow> Task \<Rightarrow> Task \<times> bool" where
  "observeTask i t =
    (case i of
       ContextDone \<Rightarrow>
         (if \<not> Terminal t then t\<lparr>t_State := ''interrupted'', t_Reason := ''service_stopped''\<rparr> else t, True)
     | Ticked now \<Rightarrow>
         if Terminal t then (t, True)
         else if (case t_Deadline t of None \<Rightarrow> False | Some d \<Rightarrow> \<not> now < d)
         then (t\<lparr>t_State := ''timed_out''\<rparr>, True)
         else (t, False)
     | NixStatus ex \<Rightarrow> (nixObserved ex t, False)
     | NixConcluded v \<Rightarrow>
         if \<not> nixFinal v then (t, False)
         else if Terminal t then (t, True)
         else (nixResult v t, True))"

definition observeTurn :: "Storage \<Rightarrow> bool \<Rightarrow> observeInput \<Rightarrow> string \<Rightarrow> Server \<Rightarrow> Server \<times> bool" where
  "observeTurn cfg ok i ident s =
    (case findTask ident s of
       None \<Rightarrow> (s, True)
     | Some t \<Rightarrow>
       (if fst (observeTask i t) = t then s
        else Server_save cfg ok ident (updTask ident (\<lambda>t. fst (observeTask i t)) s),
        snd (observeTask i t)))"

section \<open>Requests on a task\<close>

definition blankSummary :: "string \<Rightarrow> bool" where
  "blankSummary sm \<longleftrightarrow> blankText sm \<or> length sm > 8192"

definition finishTask :: "Storage \<Rightarrow> bool \<Rightarrow> (string \<Rightarrow> Task option) \<Rightarrow> string \<Rightarrow> string \<Rightarrow> string \<Rightarrow> Server \<Rightarrow> Server res" where
  "finishTask cfg ok stored ident conclusion sm s =
    (if conclusion \<noteq> ''passed'' \<and> conclusion \<noteq> ''failed'' \<and> conclusion \<noteq> ''inconclusive''
     then Inl (Fail ''invalid_argument'' ''Invalid conclusion'')
     else if blankSummary sm then Inl (Fail ''invalid_argument'' ''Conclusion summary is required'')
     else (case Server_running stored ident s of
        Inl e \<Rightarrow> Inl e
      | Inr _ \<Rightarrow> Inr (Server_save cfg ok ident (updTask ident (\<lambda>t. t\<lparr>t_State := ''finished'',
            t_Conclusion := conclusion, t_Summary := sm\<rparr>) s))))"

text \<open>
  Cancellation; \<open>uploads\<close> tells whether uploads bound to the task are still running.  A
  queued task without such uploads is released at once; with them a cleanup is
  started in the background (the second result).
\<close>

definition cancelledTask :: "gotime \<Rightarrow> bool \<Rightarrow> Task \<Rightarrow> Task" where
  "cancelledTask now uploads t =
    (let t1 = t\<lparr>t_State := ''cancelled'', t_Conclusion := ''inconclusive''\<rparr> in
     if t_State t = ''queued''
     then (let t2 = t1\<lparr>t_Ended := Some now\<rparr> in if \<not> uploads then t2\<lparr>t_Cleanup := ''complete''\<rparr> else t2)
     else t1)"

definition cancelTask ::
  "Storage \<Rightarrow> bool \<Rightarrow> gotime \<Rightarrow> bool \<Rightarrow> (string \<Rightarrow> Task option) \<Rightarrow> string \<Rightarrow> Server \<Rightarrow> (Server \<times> bool) res" where
  "cancelTask cfg ok now uploads stored ident s =
    (case Server_task stored ident s of
       Inl e \<Rightarrow> Inl e
     | Inr t \<Rightarrow>
       if Terminal t then Inr (s, False)
       else Inr (Server_save cfg ok ident (updTask ident (cancelledTask now uploads) s),
                 t_State t = ''queued'' \<and> uploads))"

text \<open>
  Extension: the checks with the new deadline, and the section that commits it after the
  worker (for a Nix job) confirmed.  A lock per execution keeps two extensions apart.
\<close>

definition extendAdmit :: "Tasks \<Rightarrow> string \<Rightarrow> int \<Rightarrow> Task \<Rightarrow> gotime res" where
  "extendAdmit cfg reason seconds t =
    (if blankText reason \<or> \<not> ValidText reason 1024
     then Inl (Fail ''invalid_argument'' ''A concrete continued-work reason of 1..1024 bytes is required'')
     else if seconds < 1 \<or> seconds > Duration_Seconds (tk_MaxDuration cfg) \<or> Terminal t
     then Inl (Fail ''invalid_state'' ''Task cannot be extended'')
     else (case (t_Started t, t_Deadline t) of
        (Some started, Some dl) \<Rightarrow>
          let until = dl + seconds * second in
          if until > started + tk_MaxDuration cfg
          then Inl (Fail ''limit_exceeded'' ''Maximum total task duration exceeded'')
          else Inr until
      | _ \<Rightarrow> Inl (Fail ''invalid_state'' ''Task cannot be extended'')))"

definition extendCommit :: "gotime \<Rightarrow> string \<Rightarrow> gotime \<Rightarrow> Task \<Rightarrow> Task res" where
  "extendCommit now reason until t =
    (if Terminal t then Inl (Fail ''invalid_state'' ''Task ended before the extension was confirmed'')
     else Inr (t\<lparr>t_Deadline := Some until, t_Hold := Some \<lparr>ho_Reason = reason, ho_Updated = now, ho_Until = until\<rparr>\<rparr>))"

section \<open>Release of a lab\<close>

text \<open>
  The sections of \<^verbatim>\<open>cleanup\<close> for a lab.  The first one refuses a released task; the
  last one takes the errors of the release (of uploads, gates, nodes, the display
  policy and temporary files).
\<close>

definition cleaningTask :: "gotime \<Rightarrow> Task \<Rightarrow> Task" where
  "cleaningTask now t =
    (mapLab (\<lambda>l. l\<lparr>lb_Endpoints := map (\<lambda>e. e\<lparr>en_State := ''closing''\<rparr>) (lb_Endpoints l)\<rparr>) t)
      \<lparr>t_Cleanup := ''running'', t_Ended := (case t_Ended t of None \<Rightarrow> Some now | Some x \<Rightarrow> Some x)\<rparr>"

definition cleanupBegin :: "Storage \<Rightarrow> bool \<Rightarrow> gotime \<Rightarrow> string \<Rightarrow> Server \<Rightarrow> Server \<times> bool" where
  "cleanupBegin cfg ok now ident s =
    (case findTask ident s of
       None \<Rightarrow> (s, False)
     | Some t \<Rightarrow>
       if t_Cleanup t = ''complete'' then (s, False)
       else (Server_save cfg ok ident (updTask ident (cleaningTask now) s), True))"

definition releaseCommand :: "gotime \<Rightarrow> Command \<Rightarrow> Command" where
  "releaseCommand now c =
    (let c1 = c\<lparr>c_Release := Some \<lparr>cr_Source = ''vm_deleted'', cr_Time = now\<rparr>,
               c_Retained := RetainedOutput_stop (Fail ''vm_released'' ''VM was released before all command output was retained'')
                               (c_Retained c)\<rparr>
     in if Observing c1
        then c1\<lparr>c_Status := (c_Status c1)\<lparr>st_State := ''uncertain'', st_Stage := ''finished'', st_Final := True,
                 st_Error := (if st_Error (c_Status c1) = [] then ''Guest execution result was not observed before VM release''
                              else st_Error (c_Status c1)),
                 st_Finished := Some now\<rparr>\<rparr>
        else c1)"

definition releaseLab :: "gotime \<Rightarrow> LabState \<Rightarrow> LabState" where
  "releaseLab now l = l\<lparr>
     lb_Endpoints := map (\<lambda>e. e\<lparr>en_State := ''closed''\<rparr>) (lb_Endpoints l),
     lb_Captures := map (\<lambda>c. if ca_State c \<noteq> ''stopped'' then c\<lparr>ca_State := ''released''\<rparr> else c) (lb_Captures l),
     lb_Commands := map (releaseCommand now) (lb_Commands l)\<rparr>"

definition cleanupResult :: "gotime \<Rightarrow> goerr list \<Rightarrow> Task \<Rightarrow> Task" where
  "cleanupResult now errs t =
    (let t1 = t\<lparr>t_Cleanup := ''complete'', t_CleanupErrors := map Safe errs\<rparr> in
     if errs \<noteq> []
     then eventDetails now ''cleanup_blocked'' ''Resource cleanup is incomplete; scheduling remains occupied'' GNil
            (t1\<lparr>t_Cleanup := ''required''\<rparr>)
     else eventDetails now ''cleanup_complete'' ''Task resources were released'' GNil (mapLab (releaseLab now) t1))"

definition cleanupEnd :: "Storage \<Rightarrow> bool \<Rightarrow> gotime \<Rightarrow> goerr list \<Rightarrow> string \<Rightarrow> Server \<Rightarrow> Server" where
  "cleanupEnd cfg ok now errs ident s = Server_save cfg ok ident (updTask ident (cleanupResult now errs) s)"

definition cleanupTaskCheck :: "(string \<Rightarrow> Task option) \<Rightarrow> string \<Rightarrow> Server \<Rightarrow> goerr option" where
  "cleanupTaskCheck stored ident s =
    (case Server_task stored ident s of
       Inl e \<Rightarrow> Some e
     | Inr t \<Rightarrow> if \<not> Terminal t then Some (Fail ''invalid_state'' ''An ended execution is required'') else None)"

section \<open>Recovery after a restart\<close>

text \<open>The section before the cleanup of one recovered task, and the one after it.\<close>

definition interruptedTask :: "Task \<Rightarrow> Task" where
  "interruptedTask t = (if \<not> Terminal t then t\<lparr>t_State := ''interrupted'', t_Reason := ''controller_restart''\<rparr> else t)"

definition recoverTask :: "Storage \<Rightarrow> bool \<Rightarrow> string \<Rightarrow> Server \<Rightarrow> Server" where
  "recoverTask cfg ok ident s = (Server_save cfg ok ident (updTask ident interruptedTask s))\<lparr>s_active := ident\<rparr>"

definition recoveredTask :: "string \<Rightarrow> string \<Rightarrow> Server \<Rightarrow> Server \<times> string" where
  "recoveredTask ident blocked s =
    (if isReleased ident s then (s\<lparr>s_active := []\<rparr>, blocked)
     else (s, if blocked = [] then ident else blocked))"

definition forget :: "string \<Rightarrow> Server \<Rightarrow> Server" where
  "forget ident s = s\<lparr>s_tasks := filter (\<lambda>t. t_ID t \<noteq> ident) (s_tasks s)\<rparr>"

section \<open>Facts\<close>

lemma updTask_fields [simp]:
  "s_active (updTask i g s) = s_active s" "s_closed (updTask i g s) = s_closed s"
  "s_storageBlocked (updTask i g s) = s_storageBlocked s" "s_nixEvidenceActive (updTask i g s) = s_nixEvidenceActive s"
  by (simp_all add: updTask_def)

lemma Server_save_fields [simp]:
  "s_active (Server_save cfg ok i s) = s_active s"
  "s_storageBlocked (Server_save cfg ok i s) = s_storageBlocked s"
  "s_nixEvidenceActive (Server_save cfg ok i s) = s_nixEvidenceActive s"
  by (simp_all add: Server_save_def Let_def updTask_def)

text \<open>
  What the scheduler looks at of a task, and what a save keeps of every task.
\<close>

datatype tcore = TCore (k_id: string) (k_kind: string) (k_state: string) (k_cleanup: string) (k_started: bool)

definition core :: "Task \<Rightarrow> tcore" where
  "core t = TCore (t_ID t) (t_Kind t) (t_State t) (t_Cleanup t) (t_Started t \<noteq> None)"

definition cores :: "Server \<Rightarrow> tcore list" where
  "cores s = map core (s_tasks s)"

lemma core_sel [simp]:
  "k_id (core t) = t_ID t" "k_kind (core t) = t_Kind t" "k_state (core t) = t_State t"
  "k_cleanup (core t) = t_Cleanup t" "k_started (core t) \<longleftrightarrow> t_Started t \<noteq> None"
  by (simp_all add: core_def)

lemma core_detailExpiry [simp]: "core (detailExpiry cfg t) = core t"
  by (simp add: core_def)

lemma core_mapLab [simp]: "core (mapLab f t) = core t"
  by (simp add: core_def)

lemma core_mapNix [simp]: "core (mapNix f t) = core t"
  by (simp add: core_def)

lemma core_eventDetails [simp]: "core (eventDetails now c m d t) = core t"
  by (simp add: core_def eventDetails_def)

lemma cores_save [simp]: "cores (Server_save cfg ok i s) = cores s"
  by (simp add: cores_def Server_save_def updTask_def Let_def)

lemma cores_active [simp]: "cores (s\<lparr>s_active := a\<rparr>) = cores s"
  by (simp add: cores_def)

lemma updTask_kept [simp]: "s_nixRuntime (updTask i g s) = s_nixRuntime s"
  by (simp add: updTask_def)

lemma Server_save_runtime [simp]: "s_nixRuntime (Server_save cfg ok i s) = s_nixRuntime s"
  by (simp add: Server_save_def Let_def)

text \<open>
  An accepted extension moves the deadline forward, never beyond the maximal total
  duration after the start, and never revives an ended task.
\<close>
lemma extension_within_limit:
  assumes "extendAdmit cfg reason seconds t = Inr until" "extendCommit now reason until u = Inr u'" "t_Started u = t_Started t"
  shows "\<exists>started dl. t_Started u' = Some started \<and> t_Deadline t = Some dl \<and> t_Deadline u' = Some until \<and>
    dl + second \<le> until \<and> until \<le> started + tk_MaxDuration cfg \<and> \<not> Terminal u'"
proof -
  have c: "\<not> Terminal u" "u' = u\<lparr>t_Deadline := Some until, t_Hold := Some \<lparr>ho_Reason = reason, ho_Updated = now, ho_Until = until\<rparr>\<rparr>"
    using assms(2) by (auto simp: extendCommit_def split: if_splits)
  obtain started dl where a: "t_Started t = Some started" "t_Deadline t = Some dl" "1 \<le> seconds" "until = dl + seconds * second"
      "until \<le> started + tk_MaxDuration cfg"
    using assms(1) unfolding extendAdmit_def by (auto simp: Let_def not_less split: if_splits option.splits)
  have "second \<le> seconds * second" using a(3) by (simp add: second_def)
  then show ?thesis using a c assms(3) by (simp add: Terminal_def)
qed

end
