(* ===== verification/NixLifecycle.thy ===== *)
theory NixLifecycle
  imports Server
begin

text \<open>
  The release of a Nix job's resources and the collection of its evidence
  (\<^verbatim>\<open>internal/control/nix_lifecycle.go\<close>).
\<close>

section \<open>Resources\<close>

definition nixLifecycleError :: "gotime \<Rightarrow> string \<Rightarrow> Task \<Rightarrow> NixJobState \<Rightarrow> goerr \<Rightarrow> werror" where
  "nixLifecycleError now stage t j err =
    WError (stage @ ''_blocked'') (''Nix '' @ stage @ '' requires recovery'') ''execution'' ''reconcile''
      ''Resolve the recorded cause, then call nix_job_recover for this scope''
      [(''stage'', GStr stage), (''job_id'', GStr (t_ID t)), (''worker_instance'', GStr (nj_WorkerInstance j)),
       (''session_id'', GStr (nr_SessionID (jobResources j))), (''cause'', GErr (LifecycleCause err)),
       (''required_actor'', GStr ''administrator''), (''observed'', GTime now)]"

text \<open>The worker's decoded report on a job's resources.\<close>

record ResourceReport =
  rr_Execution :: "NixExecution option"
  rr_NeverAccepted :: bool
  rr_Cleanup :: string

definition omittedReport :: goerr where
  "omittedReport = Fail ''worker_protocol_error'' ''Worker omitted the resource release observation''"

definition unconfirmedRelease :: goerr where
  "unconfirmedRelease = Fail ''resource_release_unconfirmed'' ''Executor release observation is incomplete''"

text \<open>The first half of \<^verbatim>\<open>applyNixResources\<close>: the report enters the job.\<close>

definition blockedReport :: "gotime \<Rightarrow> goerr \<Rightarrow> Task \<Rightarrow> NixJobState \<Rightarrow> NixJobState" where
  "blockedReport now err t j =
    (let x = (case nj_NixExecution j of None \<Rightarrow> zeroNixExecution | Some x \<Rightarrow> x);
         j1 = j\<lparr>nj_NixExecution := Some x\<rparr>
     in j\<lparr>nj_NixExecution := Some (x\<lparr>nx_Resources := (nx_Resources x)\<lparr>nr_State := ''blocked'',
            nr_Error := Some (nixLifecycleError now ''resources'' t j1 err)\<rparr>\<rparr>)\<rparr>)"

definition recordReport :: "gotime \<Rightarrow> ResourceReport res \<Rightarrow> Task \<Rightarrow> NixJobState \<Rightarrow> NixJobState \<times> werror option" where
  "recordReport now reply t j =
    (case reply of
       Inl e \<Rightarrow> (blockedReport now e t j, None)
     | Inr v \<Rightarrow>
       (case rr_Execution v of
          None \<Rightarrow> (blockedReport now omittedReport t j, None)
        | Some x \<Rightarrow>
          let x1 = (if NixResources_Released (nx_Resources x) \<and> rr_Cleanup v \<noteq> ''complete''
                    then x\<lparr>nx_Resources := (nx_Resources x)\<lparr>nr_State := ''releasing''\<rparr>\<rparr> else x);
              j1 = j\<lparr>nj_NixExecution := Some x1\<rparr>;
              j2 = (if rr_NeverAccepted v
                    then j1\<lparr>nj_Evidence := (nj_Evidence j1)\<lparr>ne_State := ''complete''\<rparr>, nj_HandoffComplete := True\<rparr> else j1)
          in (j2, nx_Error x)))"

text \<open>The second half: the cleanup state follows from the recorded resources.\<close>

definition settleResources :: "gotime \<Rightarrow> Task \<Rightarrow> NixJobState \<Rightarrow> Task" where
  "settleResources now t j =
    (let r = jobResources j in
     if NixResources_Released r
     then t\<lparr>t_domain := DNix j, t_CleanupErrors := [], t_Cleanup := ''complete''\<rparr>
     else if nr_State r = ''blocked'' then
       (case nr_Error r of
          Some e \<Rightarrow> t\<lparr>t_domain := DNix j, t_CleanupErrors := [e], t_Cleanup := ''required''\<rparr>
        | None \<Rightarrow>
          let e = nixLifecycleError now ''resources'' t j unconfirmedRelease;
              j1 = j\<lparr>nj_NixExecution := map_option (\<lambda>x. x\<lparr>nx_Resources := r\<lparr>nr_Error := Some e\<rparr>\<rparr>) (nj_NixExecution j)\<rparr>
          in t\<lparr>t_domain := DNix j1, t_CleanupErrors := [e], t_Cleanup := ''required''\<rparr>)
     else t\<lparr>t_domain := DNix j, t_CleanupErrors := [], t_Cleanup := ''running''\<rparr>)"

definition applyNixTask :: "gotime \<Rightarrow> ResourceReport res \<Rightarrow> Task \<Rightarrow> Task" where
  "applyNixTask now reply t =
    (case t_domain t of
       DLab _ \<Rightarrow> t
     | DNix j \<Rightarrow>
       let (j1, failure) = recordReport now reply t j;
           t1 = (case failure of None \<Rightarrow> t | Some e \<Rightarrow> t\<lparr>t_Failure := Some e\<rparr>)
       in settleResources now t1 j1)"

definition applyNixResources :: "Storage \<Rightarrow> bool \<Rightarrow> gotime \<Rightarrow> ResourceReport res \<Rightarrow> string \<Rightarrow> Server \<Rightarrow> Server" where
  "applyNixResources cfg ok now reply ident s =
    releaseScheduler ident (Server_save cfg ok ident (updTask ident (applyNixTask now reply) s))"

text \<open>
  \<^verbatim>\<open>releaseNix\<close> up to the call of the worker.  The result tells whether the call
  follows (\<open>True\<close>) or the job was settled without one.
\<close>

definition neverDispatched :: "Task \<Rightarrow> Task" where
  "neverDispatched t = mapNix (\<lambda>j. j\<lparr>nj_NixExecution := Some (zeroNixExecution\<lparr>
       nx_Resources := nixResourcesIn ''unallocated'', nx_Evidence := nixEvidenceIn ''complete''\<rparr>),
       nj_Evidence := nixEvidenceIn ''complete''\<rparr>) (t\<lparr>t_Cleanup := ''complete''\<rparr>)"

definition endedAt :: "gotime \<Rightarrow> Task \<Rightarrow> Task" where
  "endedAt now t = t\<lparr>t_Ended := (case t_Ended t of None \<Rightarrow> Some now | Some x \<Rightarrow> Some x)\<rparr>"

definition releaseNixBegin :: "Storage \<Rightarrow> bool \<Rightarrow> gotime \<Rightarrow> string \<Rightarrow> Server \<Rightarrow> Server \<times> bool" where
  "releaseNixBegin cfg ok now ident s =
    (case findTask ident s of
       None \<Rightarrow> (s, False)
     | Some t \<Rightarrow>
       let s1 = updTask ident (endedAt now) s in
       if t_Cleanup t = ''complete'' then (s1, False)
       else (case t_domain t of
          DLab _ \<Rightarrow> (s1, False)
        | DNix j \<Rightarrow>
          if \<not> nj_Dispatched j
          then (releaseScheduler ident (Server_save cfg ok ident (updTask ident neverDispatched s1)), False)
          else (Server_save cfg ok ident (updTask ident (\<lambda>t. t\<lparr>t_Cleanup := ''running''\<rparr>) s1), True)))"

section \<open>Evidence\<close>

text \<open>
  The body of \<^verbatim>\<open>nixLifecycleLocked\<close> for one job: which background calls it starts
  (a status observation, a collection) and the new state.
\<close>

definition setRuntime :: "string \<Rightarrow> NixRuntime \<Rightarrow> Server \<Rightarrow> Server" where
  "setRuntime ident r s = s\<lparr>s_nixRuntime := (s_nixRuntime s)(ident := r)\<rparr>"

definition startObservation :: "gotime \<Rightarrow> Task \<Rightarrow> Server \<Rightarrow> Server \<times> string list" where
  "startObservation now t s =
    (let r = s_nixRuntime s (t_ID t) in
     if t_Cleanup t \<noteq> ''complete'' \<and> \<not> nixObserving r \<and> \<not> now < nixNextObservation r
     then (setRuntime (t_ID t) (r\<lparr>nixObserving := True, nixNextObservation := now + second\<rparr>) s, [''status''])
     else (s, []))"

definition startCollection :: "Storage \<Rightarrow> bool \<Rightarrow> gotime \<Rightarrow> Task \<Rightarrow> Server \<Rightarrow> Server \<times> string list" where
  "startCollection cfg ok now t s =
    (case t_domain t of
       DLab _ \<Rightarrow> (s, [])
     | DNix j \<Rightarrow>
       let r = s_nixRuntime s (t_ID t); e = nj_Evidence j in
       if t_Cleanup t = ''complete'' \<and> \<not> nj_Dispatched j
       then (Server_save cfg ok (t_ID t)
               (updTask (t_ID t) (mapNix (\<lambda>j. j\<lparr>nj_Evidence := (nj_Evidence j)\<lparr>ne_State := ''complete''\<rparr>\<rparr>)) s), [])
       else if t_Cleanup t \<noteq> ''complete'' \<or> nixCollecting r \<or> s_nixEvidenceActive s \<ge> 2 \<or> ne_State e = ''blocked'' \<or>
               (case ne_NextAttempt e of None \<Rightarrow> False | Some n \<Rightarrow> now < n)
       then (s, [])
       else
         let s1 = (setRuntime (t_ID t) (r\<lparr>nixCollecting := True\<rparr>) s)\<lparr>s_nixEvidenceActive := s_nixEvidenceActive s + 1\<rparr>
         in (Server_save cfg ok (t_ID t) (updTask (t_ID t) (mapNix (\<lambda>j. j\<lparr>nj_Evidence :=
               \<lparr>ne_State = ''collecting'', ne_Attempts = ne_Attempts (nj_Evidence j) + 1, ne_Updated = Some now,
                ne_NextAttempt = None, ne_Error = None\<rparr>\<rparr>)) s1), [''evidence'']))"

definition nixLifecycleTask :: "Storage \<Rightarrow> bool \<Rightarrow> gotime \<Rightarrow> Task \<Rightarrow> Server \<Rightarrow> Server \<times> string list" where
  "nixLifecycleTask cfg ok now t s =
    (if t_Kind t \<noteq> ''nixos'' \<or> \<not> Terminal t \<or> settled t then (s, [])
     else let (s1, a) = startObservation now t s; (s2, b) = startCollection cfg ok now t s1 in (s2, a @ b))"

text \<open>The loop over the jobs; each job is read from the list as it was at its turn.\<close>

fun nixLifecycleLoop :: "Storage \<Rightarrow> bool \<Rightarrow> gotime \<Rightarrow> Task list \<Rightarrow> Server \<Rightarrow> Server \<times> (string \<times> string) list" where
  "nixLifecycleLoop cfg ok now [] s = (s, [])"
| "nixLifecycleLoop cfg ok now (t # ts) s =
    (let (s1, a) = nixLifecycleTask cfg ok now t s;
         (s2, b) = nixLifecycleLoop cfg ok now ts s1
     in (s2, map (Pair (t_ID t)) a @ b))"

definition nixLifecycleLocked :: "Storage \<Rightarrow> bool \<Rightarrow> gotime \<Rightarrow> Server \<Rightarrow> Server \<times> (string \<times> string) list" where
  "nixLifecycleLocked cfg ok now s =
    (if s_closed s then (s, []) else nixLifecycleLoop cfg ok now (s_tasks s) s)"

text \<open>The end of a collection: \<open>err\<close> is its outcome, \<open>stopped\<close> whether the service stops.\<close>

definition collected :: "gotime \<Rightarrow> goerr option \<Rightarrow> bool \<Rightarrow> Task \<Rightarrow> NixJobState \<Rightarrow> NixJobState" where
  "collected now err stopped t j =
    (let e = (nj_Evidence j)\<lparr>ne_Updated := Some now\<rparr> in
     j\<lparr>nj_Evidence :=
       (case err of
          None \<Rightarrow> e\<lparr>ne_State := ''complete'', ne_Error := None, ne_NextAttempt := None\<rparr>
        | Some x \<Rightarrow>
          let e1 = e\<lparr>ne_State := ''blocked'', ne_Error := Some (nixLifecycleError now ''evidence'' t j x)\<rparr> in
          if stopped then e1\<lparr>ne_State := ''pending'', ne_Attempts := ne_Attempts e1 - 1\<rparr>
          else if TransientEvidence x \<and> ne_Attempts e1 < 3
          then e1\<lparr>ne_State := ''pending'',
                 ne_NextAttempt := Some (now + (if ne_Attempts e1 = 2 then 5 * second else second))\<rparr>
          else e1)\<rparr>)"

definition collectNixEvidence :: "Storage \<Rightarrow> bool \<Rightarrow> gotime \<Rightarrow> goerr option \<Rightarrow> bool \<Rightarrow> string \<Rightarrow> Server \<Rightarrow> Server" where
  "collectNixEvidence cfg ok now err stopped ident s =
    (let s1 = (setRuntime ident ((s_nixRuntime s ident)\<lparr>nixCollecting := False\<rparr>) s)
                \<lparr>s_nixEvidenceActive := s_nixEvidenceActive s - 1\<rparr>
     in Server_save cfg ok ident (updTask ident (\<lambda>t. case t_domain t of
          DLab _ \<Rightarrow> t | DNix j \<Rightarrow> t\<lparr>t_domain := DNix (collected now err stopped t j)\<rparr>) s1))"

text \<open>
  \<^verbatim>\<open>recoverNix\<close> for the scope \<^verbatim>\<open>evidence\<close> with the worker's answer \<open>retryErr\<close>, and the
  guard of the recovery of either scope.
\<close>

definition recoverCheck :: "string \<Rightarrow> Task res \<Rightarrow> goerr option" where
  "recoverCheck scope task =
    (case task of
       Inl e \<Rightarrow> Some e
     | Inr t \<Rightarrow>
       if t_Kind t \<noteq> ''nixos'' \<or> \<not> Terminal t then Some (Fail ''invalid_state'' ''Recovery requires an ended Nix job'')
       else if scope = ''evidence'' then
         (if t_Cleanup t \<noteq> ''complete''
          then Some (Fail ''invalid_state'' ''Resource release must be confirmed before evidence recovery'') else None)
       else if scope = ''resources'' then None
       else Some (Fail ''invalid_argument'' ''Recovery scope must be resources or evidence''))"

definition recoverEvidence :: "goerr option \<Rightarrow> NixJobState \<Rightarrow> NixJobState res" where
  "recoverEvidence retryErr j =
    (if ne_State (nj_Evidence j) = ''blocked''
     then (case retryErr of Some e \<Rightarrow> Inl e | None \<Rightarrow> Inr (j\<lparr>nj_Evidence := nixEvidenceIn ''pending''\<rparr>))
     else Inr j)"

text \<open>The part of \<^verbatim>\<open>New\<close> that treats a loaded job whose last attempt was cut off.\<close>

definition loadedNix :: "gotime \<Rightarrow> Task \<Rightarrow> Task" where
  "loadedNix now t =
    (case t_domain t of
       DLab _ \<Rightarrow> t
     | DNix j \<Rightarrow>
       if t_Kind t = ''nixos'' \<and> oneOf (ne_State (nj_Evidence j)) [''collecting'', ''transferring''] \<and> ne_Attempts (nj_Evidence j) \<ge> 3
       then t\<lparr>t_domain := DNix (j\<lparr>nj_Evidence := (nj_Evidence j)\<lparr>ne_State := ''blocked'',
              ne_Error := Some (nixLifecycleError now ''evidence'' t j
                (Fail ''controller_restarted'' ''Final evidence attempt was interrupted''))\<rparr>\<rparr>)\<rparr>
       else t)"

section \<open>Release is confirmed by the worker\<close>

definition confirmsRelease :: "ResourceReport res \<Rightarrow> bool" where
  "confirmsRelease reply \<longleftrightarrow> (case reply of
     Inl _ \<Rightarrow> False
   | Inr v \<Rightarrow> (case rr_Execution v of None \<Rightarrow> False
       | Some x \<Rightarrow> NixResources_Released (nx_Resources x) \<and> rr_Cleanup v = ''complete''))"

lemma jobResources_blocked: "nr_State (jobResources (blockedReport now e t j)) = ''blocked''"
  by (simp add: blockedReport_def jobResources_def Let_def)

lemma recordReport_released:
  "NixResources_Released (jobResources (fst (recordReport now reply t j))) \<longleftrightarrow> confirmsRelease reply"
proof (cases reply)
  case (Inl e)
  then show ?thesis
    using jobResources_blocked by (simp add: recordReport_def confirmsRelease_def NixResources_Released_def)
next
  case (Inr v)
  show ?thesis
  proof (cases "rr_Execution v")
    case None
    then show ?thesis using Inr jobResources_blocked
      by (simp add: recordReport_def confirmsRelease_def NixResources_Released_def)
  next
    case (Some x)
    then show ?thesis using Inr
      by (simp add: recordReport_def confirmsRelease_def jobResources_def Let_def NixResources_Released_def)
  qed
qed

lemma settle_complete: "t_Cleanup (settleResources now t j) = ''complete'' \<longleftrightarrow> NixResources_Released (jobResources j)"
  by (simp add: settleResources_def Let_def split: option.splits)

lemma applyNix_nix: "t_domain t = DNix j \<Longrightarrow> applyNixTask now reply t =
   settleResources now (case snd (recordReport now reply t j) of None \<Rightarrow> t | Some e \<Rightarrow> t\<lparr>t_Failure := Some e\<rparr>)
     (fst (recordReport now reply t j))"
  by (simp add: applyNixTask_def split_beta)

text \<open>
  The resources of a dispatched Nix job count as released after a report exactly when
  the worker itself reported the execution as released and its cleanup as complete:
  an error, an omitted observation, a client exit or a half-finished release never
  frees the job's slot.
\<close>
lemma release_needs_confirmation:
  assumes "t_domain t = DNix j"
  shows "t_Cleanup (applyNixTask now reply t) = ''complete'' \<longleftrightarrow> confirmsRelease reply"
  by (simp add: applyNix_nix[OF assms] settle_complete recordReport_released)


section \<open>Evidence collection\<close>

definition attemptsOK :: "bool \<Rightarrow> NixEvidence \<Rightarrow> bool" where
  "attemptsOK collecting e \<longleftrightarrow> 0 \<le> ne_Attempts e \<and> ne_Attempts e \<le> 3 \<and>
     (collecting \<longrightarrow> 1 \<le> ne_Attempts e \<and> ne_State e \<noteq> ''blocked'') \<and>
     (\<not> collecting \<and> ne_State e \<noteq> ''blocked'' \<and> ne_State e \<noteq> ''complete'' \<longrightarrow> ne_Attempts e \<le> 2)"

definition jobOK :: "(string \<Rightarrow> NixRuntime) \<Rightarrow> Task \<Rightarrow> bool" where
  "jobOK rt t \<longleftrightarrow> (case t_domain t of DLab _ \<Rightarrow> True | DNix j \<Rightarrow>
     attemptsOK (nixCollecting (rt (t_ID t))) (nj_Evidence j) \<and> (nixCollecting (rt (t_ID t)) \<longrightarrow> nj_Dispatched j))"

definition collecting :: "Server \<Rightarrow> string set" where
  "collecting s = {i. nixCollecting (s_nixRuntime s i)}"

definition evidenceInv :: "Server \<Rightarrow> bool" where
  "evidenceInv s \<longleftrightarrow> distinct (map t_ID (s_tasks s)) \<and> finite (collecting s) \<and>
     s_nixEvidenceActive s = int (card (collecting s)) \<and> s_nixEvidenceActive s \<le> 2 \<and>
     (\<forall>t\<in>set (s_tasks s). kindOK t \<and> jobOK (s_nixRuntime s) t)"

inductive evidenceTrans :: "Server \<Rightarrow> Server \<Rightarrow> bool" where
  tick: "evidenceTrans s (fst (nixLifecycleLocked cfg ok now s))"
| ended: "nixCollecting (s_nixRuntime s i) \<Longrightarrow> evidenceTrans s (collectNixEvidence cfg ok now err stopped i s)"
| observed: "evidenceTrans s (setRuntime i ((s_nixRuntime s i)\<lparr>nixObserving := False\<rparr>)
     (applyNixResources cfg ok now reply i s))"
| released: "evidenceTrans s (applyNixResources cfg ok now reply i s)"
| release: "evidenceTrans s (fst (releaseNixBegin cfg ok now i s))"
| recovered: "findTask i s = Some t \<Longrightarrow> t_domain t = DNix j \<Longrightarrow>
     recoverCheck ''evidence'' (Inr t) = None \<Longrightarrow> recoverEvidence err j = Inr j' \<Longrightarrow>
     evidenceTrans s (Server_save cfg ok i (updTask i (\<lambda>t. t\<lparr>t_domain := DNix j'\<rparr>) s))"

lemma ball_set_map: "(\<forall>x\<in>set (map h xs). P x) \<longleftrightarrow> (\<forall>x\<in>set xs. P (h x))"
  by simp

lemma save_tasks:
  "s_tasks (Server_save cfg ok i s) = map (\<lambda>t. if t_ID t = i then
     (if s_closed s \<or> \<not> ok then detailExpiry cfg t else mapLab pruneLab (detailExpiry cfg t)) else t) (s_tasks s)"
  by (simp add: Server_save_def updTask_def Let_def)

lemma jobOK_save: "jobOK rt (detailExpiry cfg t) = jobOK rt t" "jobOK rt (mapLab f t) = jobOK rt t"
  by (simp_all add: jobOK_def mapLab_def split: executionDomain.splits)

lemma evidenceInv_save [simp]: "evidenceInv (Server_save cfg ok i s) = evidenceInv s"
proof -
  have ids: "map t_ID (s_tasks (Server_save cfg ok i s)) = map t_ID (s_tasks s)" by (simp add: save_tasks)
  have all: "(\<forall>t\<in>set (s_tasks (Server_save cfg ok i s)). kindOK t \<and> jobOK rt t) \<longleftrightarrow> (\<forall>t\<in>set (s_tasks s). kindOK t \<and> jobOK rt t)" for rt
    unfolding save_tasks ball_set_map by (intro ball_cong refl) (simp add: jobOK_save)
  show ?thesis unfolding evidenceInv_def ids all by (simp add: collecting_def)
qed

lemma evidenceInv_upd:
  assumes "evidenceInv s" "\<And>t. t \<in> set (s_tasks s) \<Longrightarrow> t_ID t = i \<Longrightarrow> kindOK t \<Longrightarrow> jobOK (s_nixRuntime s) t \<Longrightarrow>
     t_ID (g t) = t_ID t \<and> kindOK (g t) \<and> jobOK (s_nixRuntime s) (g t)"
  shows "evidenceInv (updTask i g s)"
proof -
  have t: "s_tasks (updTask i g s) = map (\<lambda>t. if t_ID t = i then g t else t) (s_tasks s)"
    by (simp add: updTask_def)
  have ok: "\<forall>t\<in>set (s_tasks s). kindOK t \<and> jobOK (s_nixRuntime s) t" using assms(1) by (simp add: evidenceInv_def)
  have ids: "map t_ID (s_tasks (updTask i g s)) = map t_ID (s_tasks s)"
    unfolding t map_map using assms(2) ok by (intro map_cong) auto
  have all: "\<forall>t\<in>set (s_tasks (updTask i g s)). kindOK t \<and> jobOK (s_nixRuntime s) t"
    unfolding t ball_set_map using assms(2) ok by auto
  show ?thesis using assms(1) all unfolding evidenceInv_def ids by (simp add: collecting_def)
qed

lemma releaseScheduler_fields [simp]:
  "s_tasks (releaseScheduler i s) = s_tasks s" "s_nixRuntime (releaseScheduler i s) = s_nixRuntime s"
  "s_nixEvidenceActive (releaseScheduler i s) = s_nixEvidenceActive s" "s_closed (releaseScheduler i s) = s_closed s"
  by (simp_all add: releaseScheduler_def)

lemma evidenceInv_release [simp]: "evidenceInv (releaseScheduler i s) = evidenceInv s"
  by (simp add: evidenceInv_def collecting_def)

lemma applyNix_kept: "t_ID (applyNixTask now reply t) = t_ID t" "kindOK (applyNixTask now reply t) = kindOK t"
  by (auto simp: applyNixTask_def settleResources_def Let_def split_beta kindOK_def split: executionDomain.splits option.splits)

lemma applyNix_evidence:
  assumes "t_domain t = DNix j"
  obtains j' where "t_domain (applyNixTask now reply t) = DNix j'" "ne_Attempts (nj_Evidence j') = ne_Attempts (nj_Evidence j)"
    "nj_Dispatched j' = nj_Dispatched j"
    "ne_State (nj_Evidence j') = ne_State (nj_Evidence j) \<or> ne_State (nj_Evidence j') = ''complete''"
proof -
  define j1 where "j1 = fst (recordReport now reply t j)"
  have e: "ne_Attempts (nj_Evidence j1) = ne_Attempts (nj_Evidence j)" "nj_Dispatched j1 = nj_Dispatched j"
    "ne_State (nj_Evidence j1) = ne_State (nj_Evidence j) \<or> ne_State (nj_Evidence j1) = ''complete''"
    by (auto simp: j1_def recordReport_def blockedReport_def Let_def split: sum.splits option.splits)
  have "\<exists>x. t_domain (settleResources now u j1) = DNix (j1\<lparr>nj_NixExecution := x\<rparr>)" for u
  proof -
    have "\<exists>x. j1 = j1\<lparr>nj_NixExecution := x\<rparr>" by (rule exI[of _ "nj_NixExecution j1"]) simp
    then show ?thesis by (auto simp: settleResources_def Let_def split: option.splits)
  qed
  then obtain x where "t_domain (applyNixTask now reply t) = DNix (j1\<lparr>nj_NixExecution := x\<rparr>)"
    unfolding applyNix_nix[OF assms] j1_def by blast
  then show thesis using e by (intro that[of "j1\<lparr>nj_NixExecution := x\<rparr>"]) auto
qed

lemma applyNix_jobOK: "jobOK rt t \<Longrightarrow> jobOK rt (applyNixTask now reply t)"
proof (cases "t_domain t")
  case (DLab l)
  then show "jobOK rt t \<Longrightarrow> ?thesis" by (simp add: applyNixTask_def)
next
  case (DNix j)
  obtain j' where j': "t_domain (applyNixTask now reply t) = DNix j'"
      "ne_Attempts (nj_Evidence j') = ne_Attempts (nj_Evidence j)" "nj_Dispatched j' = nj_Dispatched j"
      "ne_State (nj_Evidence j') = ne_State (nj_Evidence j) \<or> ne_State (nj_Evidence j') = ''complete''"
    using DNix by (rule applyNix_evidence)
  then show "jobOK rt t \<Longrightarrow> ?thesis" by (auto simp: jobOK_def DNix applyNix_kept attemptsOK_def)
qed

lemma evidenceInv_apply: "evidenceInv s \<Longrightarrow> evidenceInv (applyNixResources cfg ok now reply i s)"
  unfolding applyNixResources_def evidenceInv_release evidenceInv_save
  by (rule evidenceInv_upd) (auto simp: applyNix_kept applyNix_jobOK)

lemma evidenceInv_observing:
  "evidenceInv s \<Longrightarrow> nixCollecting r = nixCollecting (s_nixRuntime s i) \<Longrightarrow> evidenceInv (setRuntime i r s)"
proof -
  assume inv: "evidenceInv s" and r: "nixCollecting r = nixCollecting (s_nixRuntime s i)"
  have c: "nixCollecting (((s_nixRuntime s)(i := r)) x) = nixCollecting (s_nixRuntime s x)" for x using r by simp
  have j: "jobOK ((s_nixRuntime s)(i := r)) t = jobOK (s_nixRuntime s) t" for t
    unfolding jobOK_def c by simp
  show ?thesis using inv unfolding evidenceInv_def by (simp add: setRuntime_def collecting_def c j del: fun_upd_apply)
qed

lemma mapNix_jobOK:
  "jobOK rt t \<Longrightarrow> (\<And>j. t_domain t = DNix j \<Longrightarrow> attemptsOK (nixCollecting (rt (t_ID t))) (nj_Evidence j) \<Longrightarrow>
     attemptsOK (nixCollecting (rt (t_ID t))) (nj_Evidence (f j)) \<and> nj_Dispatched (f j) = nj_Dispatched j) \<Longrightarrow> jobOK rt (mapNix f t)"
  by (auto simp: jobOK_def mapNix_def split: executionDomain.splits)

lemma collecting_insert:
  "nixCollecting r \<Longrightarrow> collecting (setRuntime i r s) = insert i (collecting s)"
  "\<not> nixCollecting r \<Longrightarrow> collecting (setRuntime i r s) = collecting s - {i}"
  by (auto simp: collecting_def setRuntime_def)

text \<open>
  Changing one job together with its runtime flag and the count of active collections.
\<close>

lemma evidenceInv_flag:
  assumes "evidenceInv s"
    and "\<And>t. t \<in> set (s_tasks s) \<Longrightarrow> t_ID t = i \<Longrightarrow> kindOK t \<Longrightarrow> jobOK (s_nixRuntime s) t \<Longrightarrow>
       t_ID (g t) = i \<and> kindOK (g t) \<and> jobOK ((s_nixRuntime s)(i := r)) (g t)"
    and "n = int (card (collecting (setRuntime i r s)))" "n \<le> 2"
  shows "evidenceInv (updTask i g ((setRuntime i r s)\<lparr>s_nixEvidenceActive := n\<rparr>))"
proof -
  let ?s = "updTask i g ((setRuntime i r s)\<lparr>s_nixEvidenceActive := n\<rparr>)"
  have t: "s_tasks ?s = map (\<lambda>t. if t_ID t = i then g t else t) (s_tasks s)"
    by (simp add: updTask_def setRuntime_def)
  have ok: "\<forall>t\<in>set (s_tasks s). kindOK t \<and> jobOK (s_nixRuntime s) t" using assms(1) by (simp add: evidenceInv_def)
  have ids: "map t_ID (s_tasks ?s) = map t_ID (s_tasks s)"
    unfolding t map_map using assms(2) ok by (intro map_cong) auto
  have other: "t_ID x \<noteq> i \<Longrightarrow> jobOK ((s_nixRuntime s)(i := r)) x = jobOK (s_nixRuntime s) x" for x
    by (simp add: jobOK_def split: executionDomain.splits)
  have all: "\<forall>t\<in>set (s_tasks ?s). kindOK t \<and> jobOK ((s_nixRuntime s)(i := r)) t"
    unfolding t ball_set_map using assms(2) ok other by auto
  have c: "collecting ?s = collecting (setRuntime i r s)" by (simp add: collecting_def)
  have fin: "finite (collecting (setRuntime i r s))"
    using assms(1) collecting_insert by (cases "nixCollecting r") (auto simp: evidenceInv_def)
  have rt: "s_nixRuntime ?s = (s_nixRuntime s)(i := r)" and n: "s_nixEvidenceActive ?s = n"
    by (simp_all add: setRuntime_def)
  have d: "distinct (map t_ID (s_tasks s))" using assms(1) by (simp add: evidenceInv_def)
  show ?thesis unfolding evidenceInv_def ids rt n c using all assms(3,4) fin d by blast
qed

lemma task_by_id: "distinct (map t_ID ts) \<Longrightarrow> t \<in> set ts \<Longrightarrow> u \<in> set ts \<Longrightarrow> t_ID t = t_ID u \<Longrightarrow> t = u"
  by (auto simp: distinct_map inj_on_def)

lemma evidenceInv_collection:
  assumes inv: "evidenceInv s" and t: "t \<in> set (s_tasks s)" and act: "Terminal t" "\<not> settled t" "t_Kind t = ''nixos''"
  shows "evidenceInv (fst (startCollection cfg ok now t s))"
proof (cases "t_domain t")
  case (DLab l)
  then show ?thesis using inv by (simp add: startCollection_def)
next
  case (DNix j)
  let ?i = "t_ID t" and ?e = "nj_Evidence j" and ?r = "s_nixRuntime s (t_ID t)"
  have only: "u = t" if "u \<in> set (s_tasks s)" "t_ID u = ?i" for u
    using inv t that task_by_id unfolding evidenceInv_def by blast
  consider (never) "t_Cleanup t = ''complete''" "\<not> nj_Dispatched j"
    | (skip) "startCollection cfg ok now t s = (s, [])"
    | (go) "t_Cleanup t = ''complete''" "nj_Dispatched j" "\<not> nixCollecting ?r" "s_nixEvidenceActive s < 2"
        "ne_State ?e \<noteq> ''blocked''" "\<not> (case ne_NextAttempt ?e of None \<Rightarrow> False | Some n \<Rightarrow> now < n)"
  proof -
    let ?wait = "t_Cleanup t \<noteq> ''complete'' \<or> nixCollecting ?r \<or> s_nixEvidenceActive s \<ge> 2 \<or> ne_State ?e = ''blocked'' \<or>
               (case ne_NextAttempt ?e of None \<Rightarrow> False | Some n \<Rightarrow> now < n)"
    have "startCollection cfg ok now t s = (s, [])" if "?wait" "\<not> (t_Cleanup t = ''complete'' \<and> \<not> nj_Dispatched j)"
      unfolding startCollection_def DNix executionDomain.case Let_def using that by (simp only: if_True if_False)
    then show thesis using never skip go by (metis linorder_not_less)
  qed
  then show ?thesis
  proof cases
    case never
    then show ?thesis
      by (simp add: startCollection_def DNix Let_def del: mapNix_kind)
         (rule evidenceInv_upd[OF inv], auto intro!: mapNix_jobOK simp: attemptsOK_def)
  next
    case skip
    then show ?thesis using inv by simp
  next
    case go
    have incomplete: "ne_State ?e \<noteq> ''complete''" using act go(1) DNix by (auto simp: settled_def)
    have "attemptsOK False ?e" using inv t DNix go(3) by (auto simp: evidenceInv_def jobOK_def)
    then have a: "0 \<le> ne_Attempts ?e" "ne_Attempts ?e \<le> 2" using go(5) incomplete by (auto simp: attemptsOK_def)
    have fresh: "?i \<notin> collecting s" using go(3) by (simp add: collecting_def)
    have card: "s_nixEvidenceActive s + 1 = int (card (collecting (setRuntime ?i (?r\<lparr>nixCollecting := True\<rparr>) s)))"
      using inv fresh by (simp add: collecting_insert evidenceInv_def)
    let ?g = "mapNix (\<lambda>j. j\<lparr>nj_Evidence := \<lparr>ne_State = ''collecting'', ne_Attempts = ne_Attempts (nj_Evidence j) + 1,
         ne_Updated = Some now, ne_NextAttempt = None, ne_Error = None\<rparr>\<rparr>)"
    have "evidenceInv (updTask ?i ?g ((setRuntime ?i (?r\<lparr>nixCollecting := True\<rparr>) s)\<lparr>s_nixEvidenceActive := s_nixEvidenceActive s + 1\<rparr>))"
    proof (rule evidenceInv_flag[OF inv _ card])
      show "s_nixEvidenceActive s + 1 \<le> 2" using go(4) by simp
      fix u assume u: "u \<in> set (s_tasks s)" "t_ID u = ?i" "kindOK u" "jobOK (s_nixRuntime s) u"
      then have "u = t" using only by blast
      then show "t_ID (?g u) = ?i \<and> kindOK (?g u) \<and> jobOK ((s_nixRuntime s)(?i := ?r\<lparr>nixCollecting := True\<rparr>)) (?g u)"
        using u(3) a go(2) by (simp add: DNix jobOK_def mapNix_def kindOK_def attemptsOK_def)
    qed
    then show ?thesis using go by (simp add: startCollection_def DNix Let_def)
  qed
qed

text \<open>
  A pass over the jobs: every job handled so far changed only its own entry, so the rest of
  the list still is in the state.
\<close>

lemma startObservation_inv:
  "evidenceInv s \<Longrightarrow> evidenceInv (fst (startObservation now t s)) \<and> s_tasks (fst (startObservation now t s)) = s_tasks s"
  using evidenceInv_observing[of s] by (simp add: startObservation_def Let_def) (simp add: setRuntime_def)

lemma startCollection_others:
  "u \<in> set (s_tasks s) \<Longrightarrow> t_ID u \<noteq> t_ID t \<Longrightarrow> u \<in> set (s_tasks (fst (startCollection cfg ok now t s)))"
  by (auto simp: startCollection_def Let_def save_tasks updTask_def setRuntime_def image_iff split: executionDomain.splits)

lemma nixLifecycleTask_inv:
  assumes "evidenceInv s" "t \<in> set (s_tasks s)"
  shows "evidenceInv (fst (nixLifecycleTask cfg ok now t s))"
    and "u \<in> set (s_tasks s) \<Longrightarrow> t_ID u \<noteq> t_ID t \<Longrightarrow> u \<in> set (s_tasks (fst (nixLifecycleTask cfg ok now t s)))"
proof -
  let ?s1 = "fst (startObservation now t s)"
  have o: "evidenceInv ?s1" "s_tasks ?s1 = s_tasks s" using startObservation_inv[OF assms(1)] by auto
  have e: "fst (nixLifecycleTask cfg ok now t s) =
      (if t_Kind t \<noteq> ''nixos'' \<or> \<not> Terminal t \<or> settled t then s else fst (startCollection cfg ok now t ?s1))"
    by (simp add: nixLifecycleTask_def split_beta)
  show "evidenceInv (fst (nixLifecycleTask cfg ok now t s))"
    unfolding e using assms o evidenceInv_collection[of ?s1 t cfg ok now] by auto
  show "u \<in> set (s_tasks s) \<Longrightarrow> t_ID u \<noteq> t_ID t \<Longrightarrow> u \<in> set (s_tasks (fst (nixLifecycleTask cfg ok now t s)))"
    unfolding e using o startCollection_others[of u ?s1 t cfg ok now] by auto
qed

lemma nixLifecycleLoop_inv:
  "evidenceInv s \<Longrightarrow> distinct (map t_ID ts) \<Longrightarrow> set ts \<subseteq> set (s_tasks s) \<Longrightarrow>
     evidenceInv (fst (nixLifecycleLoop cfg ok now ts s))"
proof (induction ts arbitrary: s)
  case (Cons t ts)
  let ?s1 = "fst (nixLifecycleTask cfg ok now t s)"
  have t: "t \<in> set (s_tasks s)" using Cons.prems by simp
  have "evidenceInv ?s1" by (rule nixLifecycleTask_inv(1)[OF Cons.prems(1) t])
  moreover have "set ts \<subseteq> set (s_tasks ?s1)"
  proof
    fix u assume u: "u \<in> set ts"
    then have "t_ID u \<noteq> t_ID t" using Cons.prems(2) by (auto simp: image_iff)
    then show "u \<in> set (s_tasks ?s1)" using nixLifecycleTask_inv(2)[OF Cons.prems(1) t] u Cons.prems(3) by auto
  qed
  ultimately have "evidenceInv (fst (nixLifecycleLoop cfg ok now ts ?s1))"
    using Cons.IH Cons.prems(2) by simp
  then show ?case by (simp add: split_beta)
qed simp

lemma collected_ok: "attemptsOK True (nj_Evidence j) \<Longrightarrow> attemptsOK False (nj_Evidence (collected now err stopped t j))"
  by (auto simp: attemptsOK_def collected_def Let_def split: option.splits)

lemma evidenceInv_ended:
  assumes inv: "evidenceInv s" and c: "nixCollecting (s_nixRuntime s i)"
  shows "evidenceInv (collectNixEvidence cfg ok now err stopped i s)"
proof -
  let ?r = "(s_nixRuntime s i)\<lparr>nixCollecting := False\<rparr>"
  let ?g = "\<lambda>t. case t_domain t of DLab _ \<Rightarrow> t | DNix j \<Rightarrow> t\<lparr>t_domain := DNix (collected now err stopped t j)\<rparr>"
  have "i \<in> collecting s" "finite (collecting s)" using c inv by (auto simp: collecting_def evidenceInv_def)
  then have n: "s_nixEvidenceActive s - 1 = int (card (collecting (setRuntime i ?r s)))"
    using inv by (simp add: collecting_insert evidenceInv_def card_Diff_singleton)
       (metis One_nat_def Suc_leI card_gt_0_iff empty_iff of_nat_1 of_nat_diff)
  have "evidenceInv (updTask i ?g ((setRuntime i ?r s)\<lparr>s_nixEvidenceActive := s_nixEvidenceActive s - 1\<rparr>))"
  proof (rule evidenceInv_flag[OF inv _ n])
    show "s_nixEvidenceActive s - 1 \<le> 2" using inv by (simp add: evidenceInv_def)
    fix u assume u: "u \<in> set (s_tasks s)" "t_ID u = i" "kindOK u" "jobOK (s_nixRuntime s) u"
    then show "t_ID (?g u) = i \<and> kindOK (?g u) \<and> jobOK ((s_nixRuntime s)(i := ?r)) (?g u)"
      using c collected_ok by (cases "t_domain u") (auto simp: jobOK_def kindOK_def)
  qed
  then show ?thesis by (simp add: collectNixEvidence_def Let_def)
qed

lemma neverDispatched_ok:
  "t_ID (neverDispatched t) = t_ID t" "kindOK (neverDispatched t) = kindOK t"
  by (simp_all add: neverDispatched_def kindOK_def split: executionDomain.splits) (simp add: mapNix_def split: executionDomain.splits)

lemma evidenceInv_begin: "evidenceInv s \<Longrightarrow> evidenceInv (fst (releaseNixBegin cfg ok now i s))"
proof (cases "findTask i s")
  case (Some t)
  assume inv: "evidenceInv s"
  have mem: "t \<in> set (s_tasks s)" "t_ID t = i" using Some find_Some_in by (fastforce simp: findTask_def)+
  have only: "u = t" if "u \<in> set (s_tasks s)" "t_ID u = i" for u
    using inv mem that task_by_id[of "s_tasks s" u t] unfolding evidenceInv_def by simp
  let ?s1 = "updTask i (endedAt now) s"
  have k: "t_ID (endedAt now u) = t_ID u" "kindOK (endedAt now u) = kindOK u" "jobOK rt (endedAt now u) = jobOK rt u" for u rt
    by (simp_all add: endedAt_def kindOK_def jobOK_def split: executionDomain.splits)
  have s1: "evidenceInv ?s1" by (rule evidenceInv_upd[OF inv]) (simp add: k)
  have tasks1: "u \<in> set (s_tasks ?s1) \<Longrightarrow> t_ID u = i \<Longrightarrow> u = endedAt now t" for u
    using only by (auto simp: updTask_def k split: if_splits)
  have run: "evidenceInv (updTask i (\<lambda>t. t\<lparr>t_Cleanup := ''running''\<rparr>) ?s1)"
    by (rule evidenceInv_upd[OF s1]) (simp add: kindOK_def jobOK_def split: executionDomain.splits)
  have never: "evidenceInv (updTask i neverDispatched ?s1)" if j: "t_domain t = DNix j" "\<not> nj_Dispatched j" for j
  proof (rule evidenceInv_upd[OF s1])
    fix u assume u: "u \<in> set (s_tasks ?s1)" "t_ID u = i" "kindOK u" "jobOK (s_nixRuntime ?s1) u"
    have "u = endedAt now t" by (rule tasks1[OF u(1,2)])
    then have d: "t_domain u = DNix j" using j by (simp add: endedAt_def)
    then have "\<not> nixCollecting (s_nixRuntime s i)" using u(2,4) j(2) by (simp add: jobOK_def)
    then show "t_ID (neverDispatched u) = t_ID u \<and> kindOK (neverDispatched u) \<and> jobOK (s_nixRuntime ?s1) (neverDispatched u)"
      using u d by (simp add: neverDispatched_ok) (simp add: neverDispatched_def jobOK_def mapNix_def attemptsOK_def nixEvidenceIn_def)
  qed
  show ?thesis
    using s1 run never by (simp add: releaseNixBegin_def Some Let_def split: executionDomain.splits)
qed (simp add: releaseNixBegin_def)

lemma evidenceInv_recovered:
  assumes inv: "evidenceInv s" and t: "findTask i s = Some t" "t_domain t = DNix j"
    and r: "recoverEvidence err j = Inr j'"
  shows "evidenceInv (updTask i (\<lambda>t. t\<lparr>t_domain := DNix j'\<rparr>) s)"
proof (rule evidenceInv_upd[OF inv])
  fix u assume u: "u \<in> set (s_tasks s)" "t_ID u = i" "kindOK u" "jobOK (s_nixRuntime s) u"
  have "t \<in> set (s_tasks s)" "t_ID t = i" using t(1) find_Some_in by (fastforce simp: findTask_def)+
  then have "u = t" using inv u task_by_id[of "s_tasks s" u t] unfolding evidenceInv_def by simp
  then show "t_ID (u\<lparr>t_domain := DNix j'\<rparr>) = t_ID u \<and> kindOK (u\<lparr>t_domain := DNix j'\<rparr>) \<and>
      jobOK (s_nixRuntime s) (u\<lparr>t_domain := DNix j'\<rparr>)"
    using u r t(2) by (auto simp: recoverEvidence_def kindOK_def jobOK_def attemptsOK_def nixEvidenceIn_def
        split: if_splits option.splits)
qed

lemma evidenceInv_trans: "evidenceTrans s s' \<Longrightarrow> evidenceInv s \<Longrightarrow> evidenceInv s'"
proof (induction rule: evidenceTrans.induct)
  case (tick s cfg ok now)
  have "distinct (map t_ID (s_tasks s))" using tick by (simp add: evidenceInv_def)
  then have "evidenceInv (fst (nixLifecycleLoop cfg ok now (s_tasks s) s))"
    using tick by (intro nixLifecycleLoop_inv) auto
  then show ?case using tick by (simp add: nixLifecycleLocked_def)
next
  case (ended s i cfg ok now err stopped)
  then show ?case by (intro evidenceInv_ended)
next
  case (observed s i cfg ok now reply)
  have rt: "s_nixRuntime (applyNixResources cfg ok now reply i s) = s_nixRuntime s"
    by (simp add: applyNixResources_def)
  show ?case using evidenceInv_apply[OF observed] by (intro evidenceInv_observing) (simp_all add: rt)
next
  case (released s cfg ok now reply i)
  then show ?case by (rule evidenceInv_apply)
next
  case (release s cfg ok now i)
  then show ?case by (rule evidenceInv_begin)
next
  case (recovered i s t j err j' cfg ok)
  then show ?case by (simp add: evidenceInv_recovered)
qed

text \<open>A service that just loaded its jobs: no collection runs and the counts are in range.\<close>

definition evidenceStart :: "Server \<Rightarrow> bool" where
  "evidenceStart s \<longleftrightarrow> distinct (map t_ID (s_tasks s)) \<and> s_nixEvidenceActive s = 0 \<and>
     (\<forall>i. \<not> nixCollecting (s_nixRuntime s i)) \<and>
     (\<forall>t\<in>set (s_tasks s). kindOK t \<and> (case t_domain t of DLab _ \<Rightarrow> True | DNix j \<Rightarrow> attemptsOK False (nj_Evidence j)))"

interpretation evidence: invariant_system evidenceStart evidenceTrans evidenceInv
proof unfold_locales
  show "evidenceStart s \<Longrightarrow> evidenceInv s" for s
    by (auto simp: evidenceStart_def evidenceInv_def collecting_def jobOK_def split: executionDomain.splits)
  show "evidenceInv s \<Longrightarrow> evidenceTrans s t \<Longrightarrow> evidenceInv t" for s t using evidenceInv_trans by blast
qed

text \<open>
  Whatever the interleaving of lifecycle ticks, finished collections, worker reports,
  releases and recoveries, at most two evidence collections run at a time, the
  counter equals the number of running ones, and no job makes more than three
  attempts before an explicit recovery.
\<close>
lemma evidence_bounds:
  assumes "reach evidenceStart evidenceTrans s"
  shows "s_nixEvidenceActive s = int (card (collecting s)) \<and> card (collecting s) \<le> 2 \<and>
    (\<forall>t\<in>set (s_tasks s). \<forall>j. t_domain t = DNix j \<longrightarrow> 0 \<le> ne_Attempts (nj_Evidence j) \<and> ne_Attempts (nj_Evidence j) \<le> 3)"
  using evidence.reach_inv[OF assms] by (auto simp: evidenceInv_def jobOK_def attemptsOK_def split: executionDomain.splits)


definition sampleNix :: "string \<Rightarrow> string \<Rightarrow> Task" where
  "sampleNix st cleanup = sampleTask\<lparr>t_Kind := ''nixos'', t_State := st, t_Cleanup := cleanup,
     t_domain := DNix \<lparr>nj_Dispatched = True, nj_Evidence = nixEvidenceIn ''pending'', nj_ManifestDigest = [],
       nj_WorkerInstance = ''w'', nj_CacheID = [], nj_Derivation = [], nj_System = [], nj_NixExecution = None,
       nj_HandoffComplete = False\<rparr>\<rparr>"

definition sampleServer :: "Task list \<Rightarrow> Server" where
  "sampleServer ts = \<lparr>s_nixEvidenceActive = 0, s_nixRuntime = (\<lambda>_. zeroNixRuntime), s_storageBlocked = False,
     s_tasks = ts, s_active = [], s_closed = False\<rparr>"



end
