(* ===== verification/Scheduler.thy ===== *)
theory Scheduler
  imports NixLifecycle
begin

text \<open>
  The interleaving of the controller's goroutines: recovery and the scheduler loop
  (\<^verbatim>\<open>schedule\<close>), one goroutine \<^verbatim>\<open>execute\<close> per admitted task with its deadline watcher
  and observer, the requests that finish, cancel, clean up and delete a task, and the
  background releases.  A step is one critical section of \<^verbatim>\<open>Server\<close>; between two sections
  of a goroutine any other goroutine may run.
\<close>

section \<open>The concurrent system\<close>

text \<open>
  Where an \<^verbatim>\<open>execute\<close> goroutine stands: preparing (with the flag whether its observer has
  returned), waiting for the observer, or cleaning up.
\<close>

datatype epc = EPrepare bool | EObserve | EClean

text \<open>
  The scheduler goroutine first recovers the loaded tasks (those not yet started, the current
  one, the first one that stays blocked) and then serves the queue.
\<close>

datatype sphase = Recovering "string list" "string option" string | Serving

text \<open>
  \<open>y_probing\<close> is the task whose backend the scheduler is asking, \<open>y_cleaning\<close> the labs whose
  release holds the lock \<^verbatim>\<open>Runtime.cleanup\<close>, \<open>y_spawned\<close> the cancelled tasks for which a
  background release was started.
\<close>

record Sys =
  y_srv :: Server
  y_phase :: sphase
  y_probing :: "string option"
  y_exec :: "string \<Rightarrow> epc option"
  y_cleaning :: "string set"
  y_spawned :: "string set"

definition terminalIn :: "Server \<Rightarrow> string \<Rightarrow> bool" where
  "terminalIn s i \<longleftrightarrow> (\<forall>t\<in>set (s_tasks s). t_ID t = i \<longrightarrow> Terminal t)"

definition kindIn :: "string \<Rightarrow> Server \<Rightarrow> string \<Rightarrow> bool" where
  "kindIn k s i \<longleftrightarrow> (case findTask i s of None \<Rightarrow> False | Some t \<Rightarrow> t_Kind t = k)"

text \<open>A random identifier of a new task is nowhere in use.\<close>

definition unreferenced :: "Sys \<Rightarrow> string \<Rightarrow> bool" where
  "unreferenced y i \<longleftrightarrow> i \<noteq> [] \<and> i \<notin> t_ID ` set (s_tasks (y_srv y)) \<and> y_exec y i = None \<and>
     i \<notin> y_cleaning y \<and> i \<notin> y_spawned y \<and> y_probing y \<noteq> Some i \<and> (\<forall>rest b. y_phase y \<noteq> Recovering rest (Some i) b)"

text \<open>
  The callers of \<^verbatim>\<open>cleanup\<close>: the end of \<^verbatim>\<open>execute\<close>, the goroutine a cancellation starts, recovery,
  and the requests \<^verbatim>\<open>lab_cleanup\<close> and \<^verbatim>\<open>Reconcile\<close>, which check for an ended task.
\<close>

definition mayClean :: "Sys \<Rightarrow> string \<Rightarrow> bool" where
  "mayClean y i \<longleftrightarrow> y_exec y i = Some EClean \<or> i \<in> y_spawned y \<or>
     (\<exists>rest b. y_phase y = Recovering rest (Some i) b) \<or>
     cleanupTaskCheck (\<lambda>_. None) i (y_srv y) = None"

definition afterPrepare :: "string \<Rightarrow> goerr option \<Rightarrow> bool \<Rightarrow> epc" where
  "afterPrepare kind err observed =
    (if kind = ''lab'' then (if observed then EClean else EObserve)
     else if err = None then EObserve else EClean)"

definition afterObserve :: "bool \<Rightarrow> epc \<Rightarrow> epc" where
  "afterObserve ended e =
    (if \<not> ended then e else case e of EPrepare _ \<Rightarrow> EPrepare True | _ \<Rightarrow> EClean)"

inductive sysStep :: "Sys \<Rightarrow> Sys \<Rightarrow> bool" where
  submit: "\<lbrakk>unreferenced y (t_ID t); t_State t = ''queued''; t_Cleanup t = ''pending''; t_Started t = None\<rbrakk> \<Longrightarrow>
     sysStep y (y\<lparr>y_srv := (y_srv y)\<lparr>s_tasks := s_tasks (y_srv y) @ [t]\<rparr>\<rparr>)"
| recoverNext: "y_phase y = Recovering (i # rest) None b \<Longrightarrow>
     sysStep y (y\<lparr>y_srv := recoverTask cfg ok i (y_srv y), y_phase := Recovering rest (Some i) b\<rparr>)"
| recovered: "\<lbrakk>y_phase y = Recovering rest (Some i) b; recoveredTask i b (y_srv y) = (s', b')\<rbrakk> \<Longrightarrow>
     sysStep y (y\<lparr>y_srv := s', y_phase := Recovering rest None b'\<rparr>)"
| serve: "y_phase y = Recovering [] None b \<Longrightarrow>
     sysStep y (y\<lparr>y_srv := (y_srv y)\<lparr>s_active := b\<rparr>, y_phase := Serving\<rparr>)"
| pick: "\<lbrakk>y_phase y = Serving; y_probing y = None; schedulePick (y_srv y) = (s', next)\<rbrakk> \<Longrightarrow>
     sysStep y (y\<lparr>y_srv := s', y_probing := next\<rparr>)"
| admit: "\<lbrakk>y_phase y = Serving; y_probing y = Some i; scheduleAdmit cfg ok now reason failed i (y_srv y) = (s', started)\<rbrakk> \<Longrightarrow>
     sysStep y (y\<lparr>y_srv := s', y_probing := None,
       y_exec := (if started then (y_exec y)(i := Some (EPrepare False)) else y_exec y)\<rparr>)"
| dispatch: "\<lbrakk>y_exec y i = Some (EPrepare False); kindIn ''nixos'' (y_srv y) i\<rbrakk> \<Longrightarrow>
     sysStep y (y\<lparr>y_srv := dispatchNix cfg ok i (y_srv y)\<rparr>)"
| expire: "y_exec y i \<noteq> None \<Longrightarrow> sysStep y (y\<lparr>y_srv := expireDeadline cfg ok now i (y_srv y)\<rparr>)"
| prepare: "\<lbrakk>y_exec y i = Some (EPrepare observed); findTask i (y_srv y) = Some t\<rbrakk> \<Longrightarrow>
     sysStep y (y\<lparr>y_srv := prepared cfg ok now err stopped i (y_srv y),
       y_exec := (y_exec y)(i := Some (afterPrepare (t_Kind t) err observed))\<rparr>)"
| observe: "\<lbrakk>y_exec y i = Some e; e = EObserve \<or> e = EPrepare False \<and> kindIn ''lab'' (y_srv y) i;
     observeTurn cfg ok input i (y_srv y) = (s', ended)\<rbrakk> \<Longrightarrow>
     sysStep y (y\<lparr>y_srv := s', y_exec := (y_exec y)(i := Some (afterObserve ended e))\<rparr>)"
| finish: "finishTask cfg ok stored i conclusion sm (y_srv y) = Inr s' \<Longrightarrow> sysStep y (y\<lparr>y_srv := s'\<rparr>)"
| cancel: "cancelTask cfg ok now uploads (\<lambda>_. None) i (y_srv y) = Inr (s', spawn) \<Longrightarrow>
     sysStep y (y\<lparr>y_srv := s', y_spawned := (if spawn then insert i (y_spawned y) else y_spawned y)\<rparr>)"
| cleanBegin: "\<lbrakk>mayClean y i; i \<notin> y_cleaning y; kindIn ''lab'' (y_srv y) i; cleanupBegin cfg ok now i (y_srv y) = (s', True)\<rbrakk> \<Longrightarrow>
     sysStep y (y\<lparr>y_srv := s', y_cleaning := insert i (y_cleaning y)\<rparr>)"
| cleanEnd: "i \<in> y_cleaning y \<Longrightarrow>
     sysStep y (y\<lparr>y_srv := cleanupEnd cfg ok now errs i (y_srv y), y_cleaning := y_cleaning y - {i}\<rparr>)"
| executed: "y_exec y i = Some EClean \<Longrightarrow>
     sysStep y (y\<lparr>y_srv := releaseScheduler i (y_srv y), y_exec := (y_exec y)(i := None)\<rparr>)"
| cleanReply: "terminalIn (y_srv y) i \<Longrightarrow> sysStep y (y\<lparr>y_srv := releaseScheduler i (y_srv y)\<rparr>)"
| nixBegin: "\<lbrakk>mayClean y i; kindIn ''nixos'' (y_srv y) i\<rbrakk> \<Longrightarrow>
     sysStep y (y\<lparr>y_srv := fst (releaseNixBegin cfg ok now i (y_srv y))\<rparr>)"
| nixReport: "\<lbrakk>terminalIn (y_srv y) i; kindIn ''nixos'' (y_srv y) i\<rbrakk> \<Longrightarrow>
     sysStep y (y\<lparr>y_srv := applyNixResources cfg ok now reply i (y_srv y)\<rparr>)"
| forgotten: "\<lbrakk>findTask i (y_srv y) = Some t; settled t\<rbrakk> \<Longrightarrow> sysStep y (y\<lparr>y_srv := forget i (y_srv y)\<rparr>)"
| other: "\<lbrakk>cores s' = cores (y_srv y); s_active s' = s_active (y_srv y)\<rbrakk> \<Longrightarrow> sysStep y (y\<lparr>y_srv := s'\<rparr>)"

text \<open>
  The service just loaded its tasks: every one of them is to be recovered, and no goroutine
  holds one yet.  What was stored of a task satisfies what the service keeps of it while it runs.
\<close>

definition storedTask :: "Task \<Rightarrow> bool" where
  "storedTask t \<longleftrightarrow> t_ID t \<noteq> [] \<and> (t_State t = ''queued'' \<longrightarrow> t_Started t = None) \<and> (t_Cleanup t = ''complete'' \<longrightarrow> Terminal t)"

definition sysStart :: "Sys \<Rightarrow> bool" where
  "sysStart y \<longleftrightarrow> distinct (map t_ID (s_tasks (y_srv y))) \<and> list_all storedTask (s_tasks (y_srv y)) \<and>
     y_phase y = Recovering (map t_ID (s_tasks (y_srv y))) None [] \<and> y_probing y = None \<and>
     y_exec y = (\<lambda>_. None) \<and> y_cleaning y = {} \<and> y_spawned y = {}"

section \<open>The invariant\<close>

definition cTerminal :: "tcore \<Rightarrow> bool" where
  "cTerminal c \<longleftrightarrow> k_state c \<in> {''finished'', ''cancelled'', ''timed_out'', ''failed'', ''interrupted''}"

text \<open>A task that left the queue and has not ended; a lab that may own machines.\<close>

definition executing :: "tcore \<Rightarrow> bool" where
  "executing c \<longleftrightarrow> \<not> cTerminal c \<and> k_state c \<noteq> ''queued''"

definition holding :: "tcore \<Rightarrow> bool" where
  "holding c \<longleftrightarrow> k_kind c = ''lab'' \<and> k_started c \<and> k_cleanup c \<noteq> ''complete''"

definition coresOK :: "tcore list \<Rightarrow> bool" where
  "coresOK cs \<longleftrightarrow> distinct (map k_id cs) \<and>
     (\<forall>c\<in>set cs. k_id c \<noteq> [] \<and> (k_state c = ''queued'' \<longrightarrow> \<not> k_started c) \<and> (k_cleanup c = ''complete'' \<longrightarrow> cTerminal c))"

definition endedIn :: "tcore list \<Rightarrow> string \<Rightarrow> bool" where
  "endedIn cs i \<longleftrightarrow> (\<forall>c\<in>set cs. k_id c = i \<longrightarrow> cTerminal c)"

definition threadsOK :: "tcore list \<Rightarrow> sphase \<Rightarrow> (string \<Rightarrow> epc option) \<Rightarrow> string set \<Rightarrow> bool" where
  "threadsOK cs ph ex sp \<longleftrightarrow>
     (\<forall>i. ex i = Some EClean \<or> ex i = Some (EPrepare True) \<longrightarrow> endedIn cs i) \<and> (\<forall>i\<in>sp. endedIn cs i) \<and>
     (\<forall>rest i b. ph = Recovering rest (Some i) b \<longrightarrow> endedIn cs i)"

definition cleaningOK :: "tcore list \<Rightarrow> string set \<Rightarrow> bool" where
  "cleaningOK cs cl \<longleftrightarrow> (\<forall>c\<in>set cs. k_id c \<in> cl \<longrightarrow> k_kind c = ''lab'' \<and> k_cleanup c = ''running'' \<and> cTerminal c)"

definition slotAt :: "string \<Rightarrow> sphase \<Rightarrow> string option \<Rightarrow> tcore \<Rightarrow> bool" where
  "slotAt act ph pr c \<longleftrightarrow>
    (case ph of
       Recovering rest cur b \<Rightarrow>
         (executing c \<longrightarrow> k_id c \<in> set rest) \<and> (holding c \<longrightarrow> k_id c \<in> set rest \<or> cur = Some (k_id c) \<or> b \<noteq> [])
     | Serving \<Rightarrow>
         (executing c \<longrightarrow> k_id c = act) \<and> (holding c \<longrightarrow> act \<noteq> []) \<and>
         (case pr of None \<Rightarrow> True
          | Some i \<Rightarrow> \<not> executing c \<and> \<not> holding c \<and> (k_id c = i \<and> k_state c = ''queued'' \<longrightarrow> act = i)))"

definition slotOK :: "tcore list \<Rightarrow> string \<Rightarrow> sphase \<Rightarrow> string option \<Rightarrow> bool" where
  "slotOK cs act ph pr \<longleftrightarrow> (ph \<noteq> Serving \<longrightarrow> pr = None) \<and> (\<forall>c\<in>set cs. slotAt act ph pr c)"

definition sysInv :: "Sys \<Rightarrow> bool" where
  "sysInv y \<longleftrightarrow> coresOK (cores (y_srv y)) \<and> threadsOK (cores (y_srv y)) (y_phase y) (y_exec y) (y_spawned y) \<and>
     cleaningOK (cores (y_srv y)) (y_cleaning y) \<and>
     slotOK (cores (y_srv y)) (s_active (y_srv y)) (y_phase y) (y_probing y)"

section \<open>Changes that keep the invariant\<close>

text \<open>
  A change of one task that never revives it: identity, kind and start stay, an ended task
  stays ended, a task neither enters the queue nor starts, and a released lab stays released.
\<close>

definition benign :: "tcore \<Rightarrow> tcore \<Rightarrow> bool" where
  "benign c d \<longleftrightarrow> k_id d = k_id c \<and> k_kind d = k_kind c \<and> k_started d = k_started c \<and>
     (cTerminal c \<longrightarrow> cTerminal d) \<and> (executing d \<longrightarrow> executing c) \<and> (k_state d = ''queued'' \<longrightarrow> k_state c = ''queued'') \<and>
     (k_cleanup d = ''complete'' \<longrightarrow> cTerminal d) \<and> (k_kind c = ''lab'' \<and> k_cleanup c = ''complete'' \<longrightarrow> k_cleanup d = ''complete'')"

lemma cTerminal_core [simp]: "cTerminal (core t) = Terminal t"
  by (auto simp: cTerminal_def Terminal_def)

lemma core_upd [simp]:
  "core (t\<lparr>t_Reason := r\<rparr>) = core t" "core (t\<lparr>t_Failure := f\<rparr>) = core t" "core (t\<lparr>t_Conclusion := c\<rparr>) = core t"
  "core (t\<lparr>t_Summary := u\<rparr>) = core t" "core (t\<lparr>t_Ended := e\<rparr>) = core t" "core (t\<lparr>t_CleanupErrors := ce\<rparr>) = core t"
  "core (t\<lparr>t_Deadline := d\<rparr>) = core t" "core (t\<lparr>t_domain := dm\<rparr>) = core t"
  by (simp_all add: core_def)

lemma cores_upd: "cores (updTask i g s) = map (\<lambda>t. if t_ID t = i then core (g t) else core t) (s_tasks s)"
  by (simp add: cores_def updTask_def)

lemma coresOK_benign: "list_all2 benign cs ds \<Longrightarrow> coresOK cs \<Longrightarrow> coresOK ds"
proof -
  assume b: "list_all2 benign cs ds" and ok: "coresOK cs"
  have ids: "map k_id ds = map k_id cs"
    using b by (induction rule: list_all2_induct) (auto simp: benign_def)
  have "k_id d \<noteq> [] \<and> (k_state d = ''queued'' \<longrightarrow> \<not> k_started d) \<and> (k_cleanup d = ''complete'' \<longrightarrow> cTerminal d)"
    if "d \<in> set ds" for d
  proof -
    obtain c where "c \<in> set cs" "benign c d" using b \<open>d \<in> set ds\<close> by (metis in_set_conv_nth list_all2_conv_all_nth)
    then show ?thesis using ok by (auto simp: benign_def coresOK_def)
  qed
  then show ?thesis using ok ids by (simp add: coresOK_def)
qed

lemma benign_source:
  "list_all2 benign cs ds \<Longrightarrow> d \<in> set ds \<Longrightarrow> \<exists>c\<in>set cs. benign c d"
  by (metis in_set_conv_nth list_all2_conv_all_nth)

lemma endedIn_benign: "list_all2 benign cs ds \<Longrightarrow> endedIn cs i \<Longrightarrow> endedIn ds i"
  unfolding endedIn_def using benign_source benign_def by metis

lemma threadsOK_benign: "list_all2 benign cs ds \<Longrightarrow> threadsOK cs ph ex sp \<Longrightarrow> threadsOK ds ph ex sp"
  using endedIn_benign unfolding threadsOK_def by blast

lemma holding_benign: "benign c d \<Longrightarrow> holding d \<Longrightarrow> holding c"
  by (auto simp: benign_def holding_def)

lemma slotAt_weaken:
  assumes "slotAt act ph pr c" "k_id d = k_id c" "executing d \<Longrightarrow> executing c" "holding d \<Longrightarrow> holding c"
    and "k_state d = ''queued'' \<Longrightarrow> k_state c = ''queued''"
  shows "slotAt act ph pr d"
  using assms unfolding slotAt_def by (cases ph; cases pr) auto

lemma slotAt_benign: "benign c d \<Longrightarrow> slotAt act ph pr c \<Longrightarrow> slotAt act ph pr d"
  using slotAt_weaken[of act ph pr c d] holding_benign[of c d] unfolding benign_def by simp

lemma slotOK_benign: "list_all2 benign cs ds \<Longrightarrow> slotOK cs act ph pr \<Longrightarrow> slotOK ds act ph pr"
  unfolding slotOK_def using slotAt_benign benign_source by metis

lemma benign_refl: "coresOK cs \<Longrightarrow> c \<in> set cs \<Longrightarrow> benign c c"
  by (auto simp: benign_def coresOK_def)

lemma benign_refl_list: "coresOK cs \<Longrightarrow> list_all2 benign cs cs"
  by (simp add: list_all2_same benign_refl)

lemma benign_upd:
  assumes "coresOK (cores s)"
    and "\<And>t. t \<in> set (s_tasks s) \<Longrightarrow> t_ID t = i \<Longrightarrow> (t_Cleanup t = ''complete'' \<longrightarrow> Terminal t) \<Longrightarrow> benign (core t) (core (g t))"
  shows "list_all2 benign (cores s) (cores (updTask i g s))"
proof -
  have "benign (core t) (if t_ID t = i then core (g t) else core t)" if "t \<in> set (s_tasks s)" for t
    using assms that benign_refl[OF assms(1), of "core t"] by (auto simp: cores_def coresOK_def)
  then show ?thesis unfolding cores_upd by (simp add: cores_def list_all2_map1 list_all2_map2 list_all2_same)
qed

text \<open>The cleanup lock: only its holder changes the cleanup state of a lab.\<close>

lemma cleaningOK_upd:
  assumes "cleaningOK (cores s) cl"
    and "i \<in> cl \<Longrightarrow> (\<And>t. t \<in> set (s_tasks s) \<Longrightarrow> t_ID t = i \<Longrightarrow> t_Kind t = ''lab'' \<Longrightarrow> t_Cleanup t = ''running'' \<Longrightarrow> Terminal t \<Longrightarrow>
          t_ID (g t) = i \<and> t_Kind (g t) = ''lab'' \<and> t_Cleanup (g t) = ''running'' \<and> Terminal (g t))"
    and "i \<notin> cl \<Longrightarrow> (\<And>t. t_ID (g t) = t_ID t)"
  shows "cleaningOK (cores (updTask i g s)) cl"
  using assms unfolding cleaningOK_def cores_upd by (fastforce simp: cores_def)

lemma cores_unique:
  assumes "coresOK (cores s)" "findTask i s = Some t"
  shows "u \<in> set (s_tasks s) \<Longrightarrow> t_ID u = i \<Longrightarrow> u = t"
proof -
  assume u: "u \<in> set (s_tasks s)" "t_ID u = i"
  have t: "t \<in> set (s_tasks s)" "t_ID t = i" using assms(2) find_Some_in by (fastforce simp: findTask_def)+
  have "distinct (map t_ID (s_tasks s))" using assms(1) by (simp add: coresOK_def cores_def comp_def)
  then show "u = t" using task_by_id u t by blast
qed

lemma findTask_None: "findTask i s = None \<Longrightarrow> t \<in> set (s_tasks s) \<Longrightarrow> t_ID t \<noteq> i"
  by (auto simp: findTask_def find_None_all)

lemma findTask_Some: "findTask i s = Some t \<Longrightarrow> t \<in> set (s_tasks s) \<and> t_ID t = i"
  using find_Some_in by (fastforce simp: findTask_def)

lemma endedIn_cores: "endedIn (cores s) i \<longleftrightarrow> terminalIn s i"
  by (auto simp: endedIn_def terminalIn_def cores_def)

lemma sysInv_change:
  assumes "sysInv y" "list_all2 benign (cores (y_srv y)) (cores s')" "s_active s' = s_active (y_srv y)"
    and "cleaningOK (cores s') (y_cleaning y)"
  shows "sysInv (y\<lparr>y_srv := s'\<rparr>)"
  using assms(1,3,4) coresOK_benign[OF assms(2)] threadsOK_benign[OF assms(2)] slotOK_benign[OF assms(2)]
  by (simp add: sysInv_def)

section \<open>Every step keeps the invariant\<close>

text \<open>What the sections do to the core of a task.\<close>

lemma to_ended_benign:
  "v \<in> {''finished'', ''cancelled'', ''timed_out'', ''failed'', ''interrupted''} \<Longrightarrow>
     benign (core t) (TCore (t_ID t) (t_Kind t) v (t_Cleanup t) (t_Started t \<noteq> None))"
  by (simp add: benign_def executing_def cTerminal_def) (elim disjE; simp)

lemma to_running_benign:
  "t_State t = ''preparing'' \<Longrightarrow> t_Cleanup t = ''complete'' \<longrightarrow> Terminal t \<Longrightarrow>
     benign (core t) (TCore (t_ID t) (t_Kind t) ''running'' (t_Cleanup t) (t_Started t \<noteq> None))"
  by (simp add: benign_def executing_def cTerminal_def Terminal_def)

lemma benign_core: "t_Cleanup t = ''complete'' \<longrightarrow> Terminal t \<Longrightarrow> benign (core t) (core t)"
  by (simp add: benign_def)

lemma core_prepared:
  "core (preparedTask now err st t) = core t \<or>
   k_state (core t) = ''preparing'' \<and> core (preparedTask now err st t) = TCore (t_ID t) (t_Kind t) ''running'' (t_Cleanup t) (t_Started t \<noteq> None) \<or>
   (\<exists>v. v \<in> {''failed'', ''interrupted''} \<and> \<not> Terminal t \<and> core (preparedTask now err st t) = TCore (t_ID t) (t_Kind t) v (t_Cleanup t) (t_Started t \<noteq> None))"
  by (simp add: preparedTask_def Let_def split: option.splits) (simp add: core_def)

lemma prepared_benign:
  "t_Cleanup t = ''complete'' \<longrightarrow> Terminal t \<Longrightarrow> benign (core t) (core (preparedTask now err st t))"
  using core_prepared[of now err st t] benign_core[of t] to_ended_benign[of _ t] to_running_benign[of t]
  by (elim disjE exE conjE) auto

lemma prepared_ended: "Terminal t \<or> err \<noteq> None \<Longrightarrow> Terminal (preparedTask now err st t)"
  by (auto simp: preparedTask_def Let_def Terminal_def eventDetails_def split: option.splits)

lemma prepared_cleanup: "t_Cleanup (preparedTask now err st t) = t_Cleanup t" "t_Kind (preparedTask now err st t) = t_Kind t" "t_ID (preparedTask now err st t) = t_ID t"
  by (simp_all add: preparedTask_def Let_def eventDetails_def split: option.splits)

lemma observed_core:
  "core (fst (observeTask i t)) = core t \<or>
   (\<exists>v. v \<in> {''failed'', ''interrupted'', ''timed_out'', ''finished''} \<and> \<not> Terminal t \<and>
      core (fst (observeTask i t)) = TCore (t_ID t) (t_Kind t) v (t_Cleanup t) (t_Started t \<noteq> None))"
  by (cases i) (simp_all add: observeTask_def nixObserved_def nixResult_def core_def split: option.splits executionDomain.splits)

lemma observe_benign:
  "t_Cleanup t = ''complete'' \<longrightarrow> Terminal t \<Longrightarrow> benign (core t) (core (fst (observeTask i t)))"
  using observed_core[of i t] benign_core[of t] to_ended_benign[of _ t] by (elim disjE exE conjE) auto

lemma observe_ended: "snd (observeTask i t) \<Longrightarrow> Terminal (fst (observeTask i t))"
  by (cases i) (auto simp: observeTask_def nixResult_def Terminal_def split: if_splits)

lemma observe_kept: "Terminal t \<Longrightarrow> core (fst (observeTask i t)) = core t"
  using observed_core[of i t] by blast

text \<open>A change of one task under its identifier; the holder of the cleanup lock is left alone.\<close>

definition unrevived :: "(Task \<Rightarrow> Task) \<Rightarrow> Task \<Rightarrow> bool" where
  "unrevived g t \<longleftrightarrow> benign (core t) (core (g t)) \<and>
     (t_Kind t = ''lab'' \<and> Terminal t \<and> t_Cleanup t = ''running'' \<longrightarrow> t_Cleanup (g t) = ''running'')"

lemma sysInv_upd:
  assumes inv: "sysInv y"
    and g: "\<And>t. t \<in> set (s_tasks (y_srv y)) \<Longrightarrow> t_ID t = i \<Longrightarrow> (t_Cleanup t = ''complete'' \<longrightarrow> Terminal t) \<Longrightarrow>
       unrevived g t"
    and s': "cores s' = cores (updTask i g (y_srv y))" "s_active s' = s_active (y_srv y)"
  shows "sysInv (y\<lparr>y_srv := s'\<rparr>)"
proof (rule sysInv_change[OF inv _ s'(2)])
  have ok: "coresOK (cores (y_srv y))" and cl: "cleaningOK (cores (y_srv y)) (y_cleaning y)" using inv by (auto simp: sysInv_def)
  show "list_all2 benign (cores (y_srv y)) (cores s')" unfolding s'(1) by (rule benign_upd[OF ok]) (use g in \<open>auto simp: unrevived_def\<close>)
  have "benign (core t) (core (g t)) \<and> (t_Kind t = ''lab'' \<and> Terminal t \<and> t_Cleanup t = ''running'' \<longrightarrow> t_Cleanup (g t) = ''running'')"
    if "t \<in> set (s_tasks (y_srv y))" "t_ID t = i" for t
    using g[OF that] ok that by (auto simp: coresOK_def cores_def unrevived_def)
  then show "cleaningOK (cores s') (y_cleaning y)"
    using cl unfolding s'(1) cleaningOK_def cores_upd by (auto simp: cores_def benign_def)
qed

lemma sysInv_same: "sysInv y \<Longrightarrow> cores s' = cores (y_srv y) \<Longrightarrow> s_active s' = s_active (y_srv y) \<Longrightarrow> sysInv (y\<lparr>y_srv := s'\<rparr>)"
  by (simp add: sysInv_def)

text \<open>The slot passes from a released task to the next task that still has to be released.\<close>

lemma cores_release [simp]: "cores (releaseScheduler i s) = cores s"
  by (simp add: releaseScheduler_def)

lemma serving_release:
  assumes ok: "coresOK (cores s)" and slot: "slotOK (cores s) (s_active s) Serving pr"
  shows "slotOK (cores s) (s_active (releaseScheduler i s)) Serving pr"
proof (cases "s_active s \<noteq> i \<or> \<not> isReleased i s")
  case True
  then show ?thesis using slot by (simp add: releaseScheduler_def)
next
  case False
  let ?P = "\<lambda>x. Terminal x \<and> t_Cleanup x \<noteq> ''complete''"
  have gone: "cTerminal c" if "c \<in> set (cores s)" "k_id c = i" for c
    using that False ok findTask_None cores_unique[OF ok]
    by (fastforce simp: isReleased_def cores_def coresOK_def split: option.splits)
  have idle: "\<not> executing c \<and> \<not> (k_id c = i \<and> k_state c = ''queued'')" if c: "c \<in> set (cores s)" for c
  proof -
    have "executing c \<longrightarrow> k_id c = i" using c False slot by (simp add: slotOK_def slotAt_def)
    then show ?thesis using gone[OF c] by (auto simp: executing_def cTerminal_def)
  qed
  have at: "slotAt (s_active s) Serving pr c" if "c \<in> set (cores s)" for c using slot that by (simp add: slotOK_def)
  show ?thesis
  proof (cases "List.find ?P (s_tasks s)")
    case None
    have "\<not> holding c" if "c \<in> set (cores s)" for c
      using that idle[OF that] ok None by (auto simp: find_None_all holding_def cores_def executing_def coresOK_def)
    moreover have "s_active (releaseScheduler i s) = []" using False None by (simp add: releaseScheduler_def)
    ultimately show ?thesis using idle at False by (auto simp: slotOK_def slotAt_def split: option.splits)
  next
    case (Some x)
    then have "t_ID x \<noteq> []" using find_Some_in[OF Some] ok by (auto simp: coresOK_def cores_def)
    moreover have "s_active (releaseScheduler i s) = t_ID x" using False Some by (simp add: releaseScheduler_def)
    ultimately show ?thesis using idle at False by (auto simp: slotOK_def slotAt_def split: option.splits)
  qed
qed

lemma sysInv_release: "sysInv y \<Longrightarrow> sysInv (y\<lparr>y_srv := releaseScheduler i (y_srv y)\<rparr>)"
proof (cases "y_phase y")
  case (Recovering rest cur b)
  assume "sysInv y"
  then show ?thesis using Recovering by (simp add: sysInv_def slotOK_def slotAt_def)
next
  case Serving
  assume "sysInv y"
  then show ?thesis using Serving serving_release by (simp add: sysInv_def)
qed

lemma inv_parts:
  assumes "sysInv y"
  shows "coresOK (cores (y_srv y))" "threadsOK (cores (y_srv y)) (y_phase y) (y_exec y) (y_spawned y)"
    "cleaningOK (cores (y_srv y)) (y_cleaning y)" "slotOK (cores (y_srv y)) (s_active (y_srv y)) (y_phase y) (y_probing y)"
  using assms by (simp_all add: sysInv_def)

lemma endedIn_phase: "sysInv y \<Longrightarrow> mayClean y i \<Longrightarrow> terminalIn (y_srv y) i"
proof -
  assume inv: "sysInv y" and m: "mayClean y i"
  have "terminalIn (y_srv y) i" if "cleanupTaskCheck (\<lambda>_. None) i (y_srv y) = None"
    using that cores_unique[OF inv_parts(1)[OF inv]]
    by (auto simp: cleanupTaskCheck_def Server_task_def terminalIn_def split: option.splits if_splits)
  then show ?thesis using m inv_parts(2)[OF inv] by (auto simp: mayClean_def threadsOK_def endedIn_cores)
qed

text \<open>Recovery.\<close>

lemma recoverTask_cores: "cores (recoverTask cfg ok i s) =
    cores (updTask i interruptedTask s)"
  by (simp add: recoverTask_def)

lemma inv_recoverNext:
  assumes inv: "sysInv y" and ph: "y_phase y = Recovering (i # rest) None b"
  shows "sysInv (y\<lparr>y_srv := recoverTask cfg ok i (y_srv y), y_phase := Recovering rest (Some i) b\<rparr>)"
proof -
  let ?g = interruptedTask
  let ?s = "recoverTask cfg ok i (y_srv y)"
  note p = inv_parts[OF inv]
  have g: "unrevived ?g t" if "t_Cleanup t = ''complete'' \<longrightarrow> Terminal t" for t
    using benign_core[OF that] to_ended_benign[of "''interrupted''" t] by (simp add: unrevived_def core_def interruptedTask_def)
  have "sysInv (y\<lparr>y_srv := ?s\<lparr>s_active := s_active (y_srv y)\<rparr>\<rparr>)"
    by (rule sysInv_upd[OF inv, of i ?g]) (use g in \<open>auto simp: recoverTask_cores\<close>)
  then have q: "coresOK (cores ?s)" "threadsOK (cores ?s) (y_phase y) (y_exec y) (y_spawned y)" "cleaningOK (cores ?s) (y_cleaning y)"
      "slotOK (cores ?s) (s_active (y_srv y)) (y_phase y) (y_probing y)" by (auto simp: sysInv_def)
  have e: "endedIn (cores ?s) i"
    unfolding recoverTask_cores endedIn_def cores_upd by (auto simp: interruptedTask_def Terminal_def)
  have "slotAt act (Recovering rest (Some i) b) pr c" if "slotAt act' (y_phase y) pr' c" "c \<in> set (cores ?s)" for act act' pr pr' c
    using that e ph by (auto simp: slotAt_def endedIn_def executing_def)
  then show ?thesis using q e ph by (auto simp: sysInv_def slotOK_def threadsOK_def)
qed

lemma inv_recovered:
  assumes inv: "sysInv y" and ph: "y_phase y = Recovering rest (Some i) b" and r: "recoveredTask i b (y_srv y) = (s', b')"
  shows "sysInv (y\<lparr>y_srv := s', y_phase := Recovering rest None b'\<rparr>)"
proof -
  note p = inv_parts[OF inv]
  have c: "cores s' = cores (y_srv y)" using r by (auto simp: recoveredTask_def split: if_splits)
  have "slotAt act (Recovering rest None b') pr c" if s: "slotAt act' (y_phase y) pr' c" and c: "c \<in> set (cores (y_srv y))" for act act' pr pr' c
  proof (cases "isReleased i (y_srv y)")
    case True
    then have "\<not> holding c" if "k_id c = i"
      using that c cores_unique[OF p(1)] findTask_None
      by (fastforce simp: isReleased_def holding_def cores_def split: option.splits)
    then show ?thesis using s r ph True by (auto simp: slotAt_def recoveredTask_def)
  next
    case False
    then have "i \<noteq> []" using p(1) findTask_Some by (fastforce simp: isReleased_def coresOK_def cores_def split: option.splits)
    then show ?thesis using s r ph False by (auto simp: slotAt_def recoveredTask_def split: if_splits)
  qed
  then show ?thesis using p ph c by (auto simp: sysInv_def slotOK_def threadsOK_def)
qed

lemma inv_serve:
  assumes inv: "sysInv y" and ph: "y_phase y = Recovering [] None b"
  shows "sysInv (y\<lparr>y_srv := (y_srv y)\<lparr>s_active := b\<rparr>, y_phase := Serving\<rparr>)"
proof -
  note p = inv_parts[OF inv]
  have "slotAt b Serving None c" if "slotAt act (y_phase y) pr c" for act pr c
    using that ph by (auto simp: slotAt_def)
  then show ?thesis using p ph by (auto simp: sysInv_def slotOK_def threadsOK_def)
qed

text \<open>The queue.\<close>

lemma inv_submit:
  assumes inv: "sysInv y" and t: "unreferenced y (t_ID t)" "t_State t = ''queued''" "t_Cleanup t = ''pending''" "t_Started t = None"
  shows "sysInv (y\<lparr>y_srv := (y_srv y)\<lparr>s_tasks := s_tasks (y_srv y) @ [t]\<rparr>\<rparr>)"
proof -
  note p = inv_parts[OF inv]
  let ?cs = "cores (y_srv y) @ [core t]"
  have c: "cores ((y_srv y)\<lparr>s_tasks := s_tasks (y_srv y) @ [t]\<rparr>) = ?cs" by (simp add: cores_def)
  have new: "t_ID t \<noteq> []" "t_ID t \<notin> k_id ` set (cores (y_srv y))" using t(1) by (auto simp: unreferenced_def cores_def)
  have "\<not> executing (core t)" "\<not> holding (core t)" using t by (auto simp: executing_def holding_def)
  then have "slotAt act ph (y_probing y) (core t)" for act ph
    using t(1) by (auto simp: slotAt_def unreferenced_def split: sphase.splits option.splits)
  then have "slotOK ?cs (s_active (y_srv y)) (y_phase y) (y_probing y)" using p(4) by (auto simp: slotOK_def)
  moreover have "endedIn ?cs j" if "endedIn (cores (y_srv y)) j" "j \<noteq> t_ID t" for j
    using that by (auto simp: endedIn_def)
  then have "threadsOK ?cs (y_phase y) (y_exec y) (y_spawned y)"
    using p(2) t(1) unfolding threadsOK_def unreferenced_def by (metis option.distinct(1))
  moreover have "coresOK ?cs" using p(1) new t by (auto simp: coresOK_def)
  moreover have "cleaningOK ?cs (y_cleaning y)" using p(3) t(1) by (auto simp: cleaningOK_def unreferenced_def)
  ultimately show ?thesis by (simp add: sysInv_def c)
qed

lemma inv_pick:
  assumes inv: "sysInv y" and ph: "y_phase y = Serving" "y_probing y = None" and r: "schedulePick (y_srv y) = (s', next)"
  shows "sysInv (y\<lparr>y_srv := s', y_probing := next\<rparr>)"
proof -
  note p = inv_parts[OF inv]
  have c: "cores s' = cores (y_srv y)" using r by (auto simp: schedulePick_def split: if_splits option.splits)
  have "slotAt (s_active s') Serving next c" if "c \<in> set (cores (y_srv y))" for c
  proof -
    have old: "slotAt (s_active (y_srv y)) Serving None c" using p(4) ph that by (simp add: slotOK_def)
    show ?thesis
    proof (cases "next")
      case None
      then have "s' = y_srv y" using r by (auto simp: schedulePick_def split: if_splits option.splits)
      then show ?thesis using old None by simp
    next
      case (Some i)
      then have "s_active (y_srv y) = []" "s_active s' = i"
        using r by (auto simp: schedulePick_def split: if_splits option.splits)
      moreover have "k_id c \<noteq> []" using p(1) that by (simp add: coresOK_def)
      ultimately show ?thesis using old Some by (auto simp: slotAt_def)
    qed
  qed
  then show ?thesis using p ph c by (simp add: sysInv_def slotOK_def)
qed

text \<open>The admission of the probed task; the other results free the slot.\<close>

lemma slotAt_probe:
  "slotAt act Serving (Some i) c \<Longrightarrow> slotAt act' Serving None c"
  by (simp add: slotAt_def)

lemma inv_free:
  assumes inv: "sysInv y" and ph: "y_phase y = Serving" "y_probing y = Some i"
  shows "sysInv (y\<lparr>y_srv := (y_srv y)\<lparr>s_active := act\<rparr>, y_probing := None\<rparr>)"
  using inv_parts[OF inv] ph slotAt_probe by (auto simp: sysInv_def slotOK_def)

lemma refuse_unrevived:
  assumes "t_Cleanup t = ''complete'' \<longrightarrow> Terminal t"
  shows "unrevived (refusedTask now reason) t"
proof (cases "t_Kind t = ''nixos'' \<and> oneOf reason [''worker_unavailable'', ''nix_disabled''] \<and> t_State t = ''queued''")
  case True
  then have "core (refusedTask now reason t) = TCore (t_ID t) (t_Kind t) ''failed'' ''complete'' (t_Started t \<noteq> None)"
    by (simp add: refusedTask_def core_def del: oneOf.simps)
  then show ?thesis using True by (simp add: unrevived_def benign_def cTerminal_def executing_def)
next
  case False
  then have "core (refusedTask now reason t) = core t" "t_Cleanup (refusedTask now reason t) = t_Cleanup t"
    by (auto simp: refusedTask_def Let_def simp del: oneOf.simps)
  then show ?thesis using benign_core[OF assms] by (simp add: unrevived_def)
qed


lemma inv_admit:
  assumes inv: "sysInv y" and ph: "y_phase y = Serving" "y_probing y = Some i"
    and r: "scheduleAdmit cfg ok now reason failed i (y_srv y) = (s', started)"
  shows "sysInv (y\<lparr>y_srv := s', y_probing := None,
       y_exec := (if started then (y_exec y)(i := Some (EPrepare False)) else y_exec y)\<rparr>)"
proof -
  note p = inv_parts[OF inv]
  consider (refuse) "failed \<or> reason \<noteq> []" | (gone) "\<not> (failed \<or> reason \<noteq> [])" "\<And>t. findTask i (y_srv y) = Some t \<Longrightarrow> t_State t \<noteq> ''queued''"
    | (start) t where "\<not> (failed \<or> reason \<noteq> [])" "findTask i (y_srv y) = Some t" "t_State t = ''queued''" by blast
  then show ?thesis
  proof cases
    case refuse
    let ?s = "Server_save cfg ok i (updTask i (refusedTask now reason) (y_srv y))"
    have "sysInv (y\<lparr>y_srv := ?s\<rparr>)"
      by (rule sysInv_upd[OF inv, of i "refusedTask now reason"]) (simp_all add: refuse_unrevived)
    from inv_free[OF this, of i "[]"] show ?thesis using refuse ph r by (auto simp: scheduleAdmit_def)
  next
    case gone
    then have "s' = (y_srv y)\<lparr>s_active := []\<rparr>" "\<not> started" using r by (auto simp: scheduleAdmit_def split: option.splits if_splits)
    then show ?thesis using inv_free[OF inv ph, of "[]"] by simp
  next
    case start
    have only: "\<And>u. u \<in> set (s_tasks (y_srv y)) \<Longrightarrow> t_ID u = i \<Longrightarrow> u = t" using cores_unique[OF p(1) start(2)] .
    have t: "t \<in> set (s_tasks (y_srv y))" "t_ID t = i" using findTask_Some[OF start(2)] by auto
    have act: "s_active (y_srv y) = i" using p(4) ph t start(3) by (auto simp: slotOK_def slotAt_def cores_def)
    have s': "cores s' = map (\<lambda>t. if t_ID t = i then core (admittedTask now t) else core t) (s_tasks (y_srv y))"
      "s_active s' = i" "started" using r start act by (auto simp: scheduleAdmit_def cores_upd)
    have adm: "core (admittedTask now t) = TCore i (t_Kind t) ''preparing'' (t_Cleanup t) True" using t by (simp add: admittedTask_def core_def)
    have nc: "t_Cleanup t \<noteq> ''complete''" "\<not> Terminal t" using p(1) t start(3) by (auto simp: coresOK_def cores_def Terminal_def)
    have mem: "c = TCore i (t_Kind t) ''preparing'' (t_Cleanup t) True \<or> (c \<in> set (cores (y_srv y)) \<and> k_id c \<noteq> i)"
      if "c \<in> set (cores s')" for c
      using that only adm unfolding s'(1) by (auto simp: cores_def split: if_splits)
    have ids: "map k_id (cores s') = map k_id (cores (y_srv y))" unfolding s'(1) by (simp add: cores_def admittedTask_def)
    have ne: "i \<noteq> []" using p(1) t by (auto simp: coresOK_def cores_def)
    have "k_id c \<noteq> [] \<and> (k_state c = ''queued'' \<longrightarrow> \<not> k_started c) \<and> (k_cleanup c = ''complete'' \<longrightarrow> cTerminal c)"
      if "c \<in> set (cores s')" for c
      using mem[OF that] ne nc p(1) by (elim disjE) (simp_all add: coresOK_def)
    then have "coresOK (cores s')" using p(1) by (simp add: coresOK_def ids)
    moreover have "threadsOK (cores s') (y_phase y) ((y_exec y)(i := Some (EPrepare False))) (y_spawned y)"
    proof -
      have "endedIn (cores s') j" if "endedIn (cores (y_srv y)) j" for j
      proof (cases "j = i")
        case True
        then show ?thesis using that t nc by (auto simp: endedIn_def cores_def)
      next
        case False
        then show ?thesis using that mem unfolding endedIn_def by (metis tcore.sel(1))
      qed
      then show ?thesis using p(2) ph by (auto simp: threadsOK_def)
    qed
    moreover have "cleaningOK (cores s') (y_cleaning y)"
      unfolding cleaningOK_def
    proof (intro ballI impI)
      fix c assume c: "c \<in> set (cores s')" "k_id c \<in> y_cleaning y"
      have "i \<notin> y_cleaning y" using p(3) t nc by (auto simp: cleaningOK_def cores_def)
      then show "k_kind c = ''lab'' \<and> k_cleanup c = ''running'' \<and> cTerminal c"
        using mem[OF c(1)] c(2) p(3) by (elim disjE) (simp_all add: cleaningOK_def)
    qed
    moreover have "slotAt i Serving None c" if "c \<in> set (cores s')" for c
      using mem[OF that] p(4) ph ne by (elim disjE) (simp_all add: slotOK_def slotAt_def)
    then have "slotOK (cores s') i Serving None" by (simp add: slotOK_def)
    ultimately show ?thesis using s' ph by (simp add: sysInv_def)
  qed
qed

text \<open>The sections of an execution and the requests.\<close>

lemma inv_exec:
  assumes "sysInv y" "\<And>j. ex j = Some EClean \<or> ex j = Some (EPrepare True) \<Longrightarrow>
      y_exec y j = ex j \<or> terminalIn (y_srv y) j"
  shows "sysInv (y\<lparr>y_exec := ex\<rparr>)"
  using assms unfolding sysInv_def threadsOK_def endedIn_cores by (simp; metis)

lemma terminalIn_upd: "terminalIn (updTask i g s) i \<longleftrightarrow> (\<forall>t\<in>set (s_tasks s). t_ID t = i \<longrightarrow> t_ID (g t) = i \<longrightarrow> Terminal (g t))"
  by (auto simp: terminalIn_def updTask_def)

lemma terminalIn_cores: "cores s = cores s' \<Longrightarrow> terminalIn s i = terminalIn s' i"
  by (metis endedIn_cores)

lemma terminalIn_save [simp]: "terminalIn (Server_save cfg ok j s) i = terminalIn s i"
  by (rule terminalIn_cores) simp

lemma inv_prepare:
  assumes inv: "sysInv y" and e: "y_exec y i = Some (EPrepare observed)" "findTask i (y_srv y) = Some t"
  shows "sysInv (y\<lparr>y_srv := prepared cfg ok now err stopped i (y_srv y),
       y_exec := (y_exec y)(i := Some (afterPrepare (t_Kind t) err observed))\<rparr>)"
proof -
  let ?g = "preparedTask now err stopped" and ?s = "prepared cfg ok now err stopped i (y_srv y)"
  have u: "unrevived ?g t" if "t_Cleanup t = ''complete'' \<longrightarrow> Terminal t" for t
    using prepared_benign[OF that] by (simp add: unrevived_def prepared_cleanup)
  have y1: "sysInv (y\<lparr>y_srv := ?s\<rparr>)"
    by (rule sysInv_upd[OF inv, of i ?g]) (simp_all add: u prepared_def)
  have "terminalIn ?s i" if "afterPrepare (t_Kind t) err observed = EClean"
  proof -
    have "terminalIn (y_srv y) i" if "observed"
      using inv_parts(2)[OF inv] e(1) that by (auto simp: threadsOK_def endedIn_cores)
    then have "Terminal t \<or> err \<noteq> None" if "t \<in> set (s_tasks (y_srv y))" "t_ID t = i" for t
      using that \<open>afterPrepare _ _ _ = EClean\<close> by (auto simp: afterPrepare_def terminalIn_def split: if_splits)
    then show ?thesis by (simp add: prepared_def terminalIn_upd prepared_ended)
  qed
  then have "sysInv ((y\<lparr>y_srv := ?s\<rparr>)\<lparr>y_exec := (y_exec y)(i := Some (afterPrepare (t_Kind t) err observed))\<rparr>)"
    by (intro inv_exec[OF y1]) (auto simp: afterPrepare_def split: if_splits)
  then show ?thesis by simp
qed

lemma inv_observe:
  assumes inv: "sysInv y" and e: "y_exec y i = Some e" "e = EObserve \<or> e = EPrepare False"
    and r: "observeTurn cfg ok input i (y_srv y) = (s', ended)"
  shows "sysInv (y\<lparr>y_srv := s', y_exec := (y_exec y)(i := Some (afterObserve ended e))\<rparr>)"
proof -
  let ?g = "\<lambda>t. fst (observeTask input t)"
  have u: "unrevived ?g t" if "t_Cleanup t = ''complete'' \<longrightarrow> Terminal t" for t
    using observe_benign[OF that] observe_kept[of t input] by (auto simp: unrevived_def) (metis core_sel(4))
  have y1: "sysInv (y\<lparr>y_srv := s'\<rparr>) \<and> (ended \<longrightarrow> terminalIn s' i)"
  proof (cases "findTask i (y_srv y)")
    case None
    then show ?thesis using r inv findTask_None by (auto simp: observeTurn_def terminalIn_def)
  next
    case (Some t)
    note only = cores_unique[OF inv_parts(1)[OF inv] Some]
    show ?thesis
    proof (cases "?g t = t")
      case True
      then have "s' = y_srv y" "ended = snd (observeTask input t)" using r Some by (auto simp: observeTurn_def)
      moreover have "terminalIn (y_srv y) i" if "snd (observeTask input t)"
        using observe_ended[OF that] True only by (auto simp: terminalIn_def)
      ultimately show ?thesis using inv by simp
    next
      case False
      then have s': "s' = Server_save cfg ok i (updTask i ?g (y_srv y))" "ended = snd (observeTask input t)"
        using r Some by (auto simp: observeTurn_def)
      have "sysInv (y\<lparr>y_srv := s'\<rparr>)" by (rule sysInv_upd[OF inv, of i ?g]) (simp_all add: u s')
      moreover have "terminalIn s' i" if "ended"
        using that only observe_ended[of input t] s' by (auto simp: terminalIn_upd)
      ultimately show ?thesis by simp
    qed
  qed
  then have "sysInv ((y\<lparr>y_srv := s'\<rparr>)\<lparr>y_exec := (y_exec y)(i := Some (afterObserve ended e))\<rparr>)"
    using e(2) by (intro inv_exec) (auto simp: afterObserve_def split: if_splits)
  then show ?thesis by simp
qed

lemma terminal_unrevived:
  assumes "\<And>t. core (g t) = TCore (t_ID t) (t_Kind t) v (t_Cleanup t) (t_Started t \<noteq> None)"
    and "v \<in> {''finished'', ''cancelled'', ''timed_out'', ''failed'', ''interrupted''}"
  shows "unrevived g t"
  using to_ended_benign[OF assms(2), of t] assms(1)[of t] unfolding unrevived_def by (simp, metis core_sel(4) tcore.sel(4))

lemma inv_expire: "sysInv y \<Longrightarrow> sysInv (y\<lparr>y_srv := expireDeadline cfg ok now i (y_srv y)\<rparr>)"
proof (cases "case findTask i (y_srv y) of None \<Rightarrow> False | Some t \<Rightarrow> expired now t")
  case True
  assume inv: "sysInv y"
  show ?thesis
    by (rule sysInv_upd[OF inv, of i "\<lambda>t. t\<lparr>t_State := ''timed_out''\<rparr>"])
       (use True in \<open>simp_all add: expireDeadline_def terminal_unrevived[where v="''timed_out''"] core_def\<close>)
qed (simp add: expireDeadline_def)

lemma inv_finish:
  assumes inv: "sysInv y" and r: "finishTask cfg ok stored i conclusion sm (y_srv y) = Inr s'"
  shows "sysInv (y\<lparr>y_srv := s'\<rparr>)"
proof -
  let ?g = "\<lambda>t. t\<lparr>t_State := ''finished'', t_Conclusion := conclusion, t_Summary := sm\<rparr>"
  have s': "s' = Server_save cfg ok i (updTask i ?g (y_srv y))"
    using r by (auto simp: finishTask_def split: if_splits sum.splits)
  show ?thesis unfolding s'
    by (rule sysInv_upd[OF inv, of i ?g]) (simp_all add: terminal_unrevived[where v="''finished''"] core_def)
qed

lemma cancelled_unrevived: "\<not> Terminal t \<Longrightarrow> unrevived (cancelledTask now uploads) t \<and> Terminal (cancelledTask now uploads t)"
  by (simp add: unrevived_def benign_def cancelledTask_def Let_def Terminal_def executing_def cTerminal_def)

lemma inv_cancel:
  assumes inv: "sysInv y" and r: "cancelTask cfg ok now uploads (\<lambda>_. None) i (y_srv y) = Inr (s', spawn)"
  shows "sysInv (y\<lparr>y_srv := s', y_spawned := (if spawn then insert i (y_spawned y) else y_spawned y)\<rparr>)"
proof -
  obtain t where t: "findTask i (y_srv y) = Some t"
    using r by (auto simp: cancelTask_def Server_task_def split: option.splits)
  note only = cores_unique[OF inv_parts(1)[OF inv] t]
  show ?thesis
  proof (cases "Terminal t")
    case True
    then show ?thesis using r t inv by (auto simp: cancelTask_def Server_task_def sysInv_def)
  next
    case False
    then have s': "s' = Server_save cfg ok i (updTask i (cancelledTask now uploads) (y_srv y))"
      using r t by (auto simp: cancelTask_def Server_task_def)
    have u: "unrevived (cancelledTask now uploads) u \<and> Terminal (cancelledTask now uploads u)"
      if "u \<in> set (s_tasks (y_srv y))" "t_ID u = i" for u
      using only[OF that] cancelled_unrevived[OF False] by simp
    have y1: "sysInv (y\<lparr>y_srv := s'\<rparr>)" by (rule sysInv_upd[OF inv, of i "cancelledTask now uploads"]) (use u s' in auto)
    have "terminalIn s' i" using u by (simp add: s' terminalIn_upd)
    then show ?thesis using y1 by (simp add: sysInv_def threadsOK_def endedIn_cores)
  qed
qed

text \<open>The release of a lab.\<close>

lemma inv_cleaning:
  assumes "sysInv y" "cleaningOK (cores (y_srv y)) cl"
  shows "sysInv (y\<lparr>y_cleaning := cl\<rparr>)"
  using assms by (simp add: sysInv_def)

lemma core_cleaning: "core (cleaningTask now t) = TCore (t_ID t) (t_Kind t) (t_State t) ''running'' (t_Started t \<noteq> None)"
  by (simp add: core_def cleaningTask_def)

lemma inv_cleanBegin:
  assumes inv: "sysInv y" and m: "mayClean y i" "kindIn ''lab'' (y_srv y) i"
    and r: "cleanupBegin cfg ok now i (y_srv y) = (s', True)"
  shows "sysInv (y\<lparr>y_srv := s', y_cleaning := insert i (y_cleaning y)\<rparr>)"
proof -
  obtain t where t: "findTask i (y_srv y) = Some t" "t_Cleanup t \<noteq> ''complete''" "t_Kind t = ''lab''"
      "s' = Server_save cfg ok i (updTask i (cleaningTask now) (y_srv y))"
    using r m(2) by (auto simp: cleanupBegin_def kindIn_def split: option.splits if_splits)
  note only = cores_unique[OF inv_parts(1)[OF inv] t(1)]
  have over: "Terminal t" using endedIn_phase[OF inv m(1)] findTask_Some[OF t(1)] by (auto simp: terminalIn_def)
  have u: "unrevived (cleaningTask now) u" if "u \<in> set (s_tasks (y_srv y))" "t_ID u = i" for u
    using only[OF that] t over unfolding unrevived_def core_cleaning
    by (simp add: benign_def executing_def cTerminal_def Terminal_def) (simp add: cleaningTask_def)
  have y1: "sysInv (y\<lparr>y_srv := s'\<rparr>)" by (rule sysInv_upd[OF inv, of i "cleaningTask now"]) (use u t in auto)
  have "cleaningOK (cores s') (insert i (y_cleaning y))"
    unfolding cleaningOK_def
  proof (intro ballI impI)
    fix c assume c: "c \<in> set (cores s')" "k_id c \<in> insert i (y_cleaning y)"
    show "k_kind c = ''lab'' \<and> k_cleanup c = ''running'' \<and> cTerminal c"
    proof (cases "k_id c = i")
      case True
      then obtain u where "u \<in> set (s_tasks (y_srv y))" "t_ID u = i" "c = core (cleaningTask now u)"
        using c(1) unfolding t(4) by (auto simp: cores_upd core_cleaning split: if_splits)
      then show ?thesis using only t(3) over by (simp add: core_cleaning cTerminal_def Terminal_def)
    next
      case False
      then show ?thesis using c inv_parts(3)[OF y1] by (simp add: cleaningOK_def)
    qed
  qed
  from inv_cleaning[OF y1, of "insert i (y_cleaning y)"] this show ?thesis by simp
qed

lemma core_released: "core (cleanupResult now errs t) =
    TCore (t_ID t) (t_Kind t) (t_State t) (if errs = [] then ''complete'' else ''required'') (t_Started t \<noteq> None)"
  by (simp add: cleanupResult_def Let_def) (simp add: core_def)

lemma inv_cleanEnd:
  assumes inv: "sysInv y" and i: "i \<in> y_cleaning y"
  shows "sysInv (y\<lparr>y_srv := cleanupEnd cfg ok now errs i (y_srv y), y_cleaning := y_cleaning y - {i}\<rparr>)"
proof -
  note p = inv_parts[OF inv]
  let ?s = "updTask i (cleanupResult now errs) (y_srv y)"
  have y0: "sysInv (y\<lparr>y_cleaning := y_cleaning y - {i}\<rparr>)"
    by (rule inv_cleaning[OF inv]) (use p(3) in \<open>auto simp: cleaningOK_def\<close>)
  have t: "t_Cleanup t = ''running'' \<and> Terminal t" if "t \<in> set (s_tasks (y_srv y))" "t_ID t = i" for t
    using p(3) i that by (auto simp: cleaningOK_def cores_def)
  have b: "list_all2 benign (cores (y_srv y)) (cores ?s)"
  proof (rule benign_upd[OF p(1)])
    fix u assume "u \<in> set (s_tasks (y_srv y))" "t_ID u = i"
    from t[OF this] show "benign (core u) (core (cleanupResult now errs u))"
      unfolding core_released by (simp add: benign_def executing_def cTerminal_def Terminal_def)
  qed
  have "cleaningOK (cores ?s) (y_cleaning y - {i})"
    using p(3) unfolding cleaningOK_def cores_upd by (auto simp: cores_def core_released)
  with sysInv_change[OF y0, of "cleanupEnd cfg ok now errs i (y_srv y)"] b show ?thesis by (simp add: cleanupEnd_def sysInv_def)
qed

text \<open>The release of a Nix job.\<close>

lemma unrevived_nix:
  assumes "t_Kind t = ''nixos''" "Terminal t" "k_id (core (g t)) = t_ID t" "k_kind (core (g t)) = t_Kind t"
    "k_state (core (g t)) = t_State t" "k_started (core (g t)) = (t_Started t \<noteq> None)"
  shows "unrevived g t"
  using assms by (auto simp: unrevived_def benign_def executing_def cTerminal_def Terminal_def)

lemma applyNix_core:
  "t_ID (applyNixTask now reply t) = t_ID t" "t_Kind (applyNixTask now reply t) = t_Kind t"
  "t_State (applyNixTask now reply t) = t_State t" "t_Started (applyNixTask now reply t) = t_Started t"
  by (simp_all add: applyNixTask_def settleResources_def Let_def split_beta split: executionDomain.splits option.splits)

lemma kindIn_only:
  assumes inv: "sysInv y" and k: "kindIn k (y_srv y) i" and t: "t \<in> set (s_tasks (y_srv y))" "t_ID t = i"
  shows "t_Kind t = k"
  using k cores_unique[OF inv_parts(1)[OF inv]] t by (auto simp: kindIn_def split: option.splits)

lemma inv_nixReport:
  assumes inv: "sysInv y" and k: "terminalIn (y_srv y) i" "kindIn ''nixos'' (y_srv y) i"
  shows "sysInv (y\<lparr>y_srv := applyNixResources cfg ok now reply i (y_srv y)\<rparr>)"
proof -
  let ?s = "Server_save cfg ok i (updTask i (applyNixTask now reply) (y_srv y))"
  have "unrevived (applyNixTask now reply) t" if "t \<in> set (s_tasks (y_srv y))" "t_ID t = i" for t
    by (rule unrevived_nix) (use kindIn_only[OF inv k(2) that] k(1) that in \<open>simp_all add: applyNix_core terminalIn_def\<close>)
  then have "sysInv (y\<lparr>y_srv := ?s\<rparr>)" by (intro sysInv_upd[OF inv, of i "applyNixTask now reply"]) auto
  from sysInv_release[OF this, of i] show ?thesis by (simp add: applyNixResources_def)
qed

lemma endedAt_core [simp]: "core (endedAt now t) = core t"
  by (simp add: endedAt_def)

lemma cores_endedAt [simp]: "cores (updTask i (endedAt now) s) = cores s"
  unfolding cores_upd by (simp add: cores_def)

lemma endedAt_id [simp]: "t_ID (endedAt now t) = t_ID t"
  by (simp add: endedAt_def)

lemma inv_nixBegin:
  assumes inv: "sysInv y" and k: "mayClean y i" "kindIn ''nixos'' (y_srv y) i"
  shows "sysInv (y\<lparr>y_srv := fst (releaseNixBegin cfg ok now i (y_srv y))\<rparr>)"
proof -
  let ?s1 = "updTask i (endedAt now) (y_srv y)"
  have y1: "sysInv (y\<lparr>y_srv := ?s1\<rparr>)" using sysInv_same[OF inv] by simp
  have m: "core t \<in> core ` set (s_tasks (y_srv y))" if "t \<in> set (s_tasks ?s1)" for t
    using that cores_endedAt[of i now "y_srv y"] unfolding cores_def by (metis image_eqI list.set_map)
  have t: "t_Kind t = ''nixos'' \<and> Terminal t" if "t \<in> set (s_tasks ?s1)" "t_ID t = i" for t
  proof -
    obtain u where u: "u \<in> set (s_tasks (y_srv y))" "core t = core u" using m \<open>t \<in> set (s_tasks ?s1)\<close> by blast
    then have "t_ID u = i" using \<open>t_ID t = i\<close> by (metis core_sel(1))
    then have "Terminal u" "t_Kind u = ''nixos''"
      using u(1) endedIn_phase[OF inv k(1)] kindIn_only[OF inv k(2)] by (auto simp: terminalIn_def)
    then show ?thesis using u(2) by (metis cTerminal_core core_sel(2))
  qed
  have never: "sysInv (y\<lparr>y_srv := releaseScheduler i (Server_save cfg ok i (updTask i neverDispatched ?s1))\<rparr>)"
  proof -
    have "unrevived neverDispatched t" if "t \<in> set (s_tasks ?s1)" "t_ID t = i" for t
      by (rule unrevived_nix) (use t[OF that] in \<open>simp_all add: neverDispatched_def\<close>)
    then have "sysInv (y\<lparr>y_srv := Server_save cfg ok i (updTask i neverDispatched ?s1)\<rparr>)"
      using sysInv_upd[OF y1, of i neverDispatched] by simp
    from sysInv_release[OF this, of i] show ?thesis by simp
  qed
  have run: "sysInv (y\<lparr>y_srv := Server_save cfg ok i (updTask i (\<lambda>t. t\<lparr>t_Cleanup := ''running''\<rparr>) ?s1)\<rparr>)"
  proof -
    have "unrevived (\<lambda>t. t\<lparr>t_Cleanup := ''running''\<rparr>) t" if "t \<in> set (s_tasks ?s1)" "t_ID t = i" for t
      by (rule unrevived_nix) (use t[OF that] in simp_all)
    then show ?thesis using sysInv_upd[OF y1, of i "\<lambda>t. t\<lparr>t_Cleanup := ''running''\<rparr>"] by simp
  qed
  have y0: "sysInv (y\<lparr>y_srv := y_srv y\<rparr>)" using inv by (simp add: sysInv_def)
  show ?thesis
    using never run y1 y0 by (simp add: releaseNixBegin_def Let_def split: option.splits executionDomain.splits)
qed

text \<open>A settled task leaves the list.\<close>

lemma inv_forget: "sysInv y \<Longrightarrow> sysInv (y\<lparr>y_srv := forget i (y_srv y)\<rparr>)"
proof -
  assume inv: "sysInv y"
  note p = inv_parts[OF inv]
  have c: "cores (forget i (y_srv y)) = filter (\<lambda>c. k_id c \<noteq> i) (cores (y_srv y))"
    by (simp add: cores_def forget_def filter_map comp_def)
  have a: "s_active (forget i (y_srv y)) = s_active (y_srv y)" by (simp add: forget_def)
  have "coresOK (cores (forget i (y_srv y)))" unfolding c using p(1) by (auto simp: coresOK_def distinct_map_filter)
  moreover have "threadsOK (cores (forget i (y_srv y))) (y_phase y) (y_exec y) (y_spawned y)"
    unfolding c using p(2) by (auto simp: threadsOK_def endedIn_def)
  moreover have "cleaningOK (cores (forget i (y_srv y))) (y_cleaning y)" unfolding c using p(3) by (auto simp: cleaningOK_def)
  moreover have "slotOK (cores (forget i (y_srv y))) (s_active (y_srv y)) (y_phase y) (y_probing y)"
    unfolding c using p(4) by (auto simp: slotOK_def)
  ultimately show ?thesis by (simp add: sysInv_def a)
qed

text \<open>All steps.\<close>

lemma inv_executed: "sysInv y \<Longrightarrow> sysInv (y\<lparr>y_srv := releaseScheduler i (y_srv y), y_exec := (y_exec y)(i := None)\<rparr>)"
proof -
  assume "sysInv y"
  then have "sysInv ((y\<lparr>y_srv := releaseScheduler i (y_srv y)\<rparr>)\<lparr>y_exec := (y_exec y)(i := None)\<rparr>)"
    by (intro inv_exec sysInv_release) (auto split: if_splits)
  then show ?thesis by simp
qed

lemma cores_dispatch: "cores (dispatchNix cfg ok i s) = cores s" "s_active (dispatchNix cfg ok i s) = s_active s"
  by (simp_all add: dispatchNix_def cores_upd) (simp add: cores_def)

lemmas step_invs = inv_submit inv_recoverNext inv_recovered inv_serve inv_pick inv_admit inv_expire inv_prepare
  inv_finish inv_cancel inv_cleanBegin inv_cleanEnd inv_executed sysInv_release inv_nixBegin inv_nixReport inv_forget sysInv_same

lemma sysInv_step: "sysStep y y' \<Longrightarrow> sysInv y \<Longrightarrow> sysInv y'"
proof (induction rule: sysStep.induct)
  case (observe y i e cfg ok input s' ended)
  then show ?case by (intro inv_observe) auto
next
  case (dispatch y i cfg ok)
  then show ?case by (intro sysInv_same) (simp_all add: cores_dispatch)
qed (rule step_invs; assumption)+

lemma sysInv_start: "sysStart y \<Longrightarrow> sysInv y"
  by (auto simp: sysStart_def sysInv_def coresOK_def threadsOK_def cleaningOK_def slotOK_def slotAt_def cores_def comp_def
      list_all_iff storedTask_def)

interpretation sys: invariant_system sysStart sysStep sysInv
  by unfold_locales (auto intro: sysInv_start sysInv_step)

section \<open>Properties\<close>

lemma serving_slot:
  assumes "reach sysStart sysStep y" "y_phase y = Serving" "t \<in> set (s_tasks (y_srv y))"
  shows "slotAt (s_active (y_srv y)) Serving (y_probing y) (core t)" "t_ID t \<noteq> []"
  using sys.reach_inv[OF assms(1)] assms(2,3) by (auto simp: sysInv_def slotOK_def coresOK_def cores_def)

text \<open>
  C2. Mutual exclusion: after recovery, in every state the goroutines can reach, at most one task
  is being prepared or run, and it owns the scheduler's slot.
\<close>
theorem one_execution:
  assumes "reach sysStart sysStep y" "y_phase y = Serving"
    and "t \<in> set (s_tasks (y_srv y))" "\<not> Terminal t" "t_State t \<noteq> ''queued''"
    and "u \<in> set (s_tasks (y_srv y))" "\<not> Terminal u" "t_State u \<noteq> ''queued''"
  shows "t = u \<and> t_ID t = s_active (y_srv y)"
proof -
  have id: "t_ID v = s_active (y_srv y)" if "v \<in> set (s_tasks (y_srv y))" "\<not> Terminal v" "t_State v \<noteq> ''queued''" for v
    using serving_slot[OF assms(1,2) that(1)] that by (simp add: slotAt_def executing_def)
  have "distinct (map t_ID (s_tasks (y_srv y)))"
    using sys.reach_inv[OF assms(1)] by (simp add: sysInv_def coresOK_def cores_def comp_def)
  then show ?thesis using id[OF assms(3-5)] id[OF assms(6-8)] assms(3,6) task_by_id by metis
qed

text \<open>
  The slot outlives the execution: while a started lab is not completely released (its
  release is pending, running or blocked by an error), no queued task is picked.
\<close>
lemma slot_until_release:
  assumes "reach sysStart sysStep y" "y_phase y = Serving"
    and "t \<in> set (s_tasks (y_srv y))" "t_Kind t = ''lab''" "t_Started t \<noteq> None" "t_Cleanup t \<noteq> ''complete''"
  shows "schedulePick (y_srv y) = (y_srv y, None)"
  using serving_slot[OF assms(1-3)] assms(4-6) by (simp add: slotAt_def holding_def schedulePick_def)

text \<open>
  C6. Admission: when the reply of the backend starts a task, every other task is queued or ended and
  every lab that was started before is completely released, whatever requests ran since the task was picked.
\<close>
theorem admission_exclusive:
  assumes "reach sysStart sysStep y" "y_phase y = Serving" "y_probing y = Some i"
    and "scheduleAdmit cfg ok now reason failed i (y_srv y) = (s', True)"
    and "t \<in> set (s_tasks (y_srv y))"
  shows "(Terminal t \<or> t_State t = ''queued'') \<and> (t_Kind t = ''lab'' \<and> t_Started t \<noteq> None \<longrightarrow> t_Cleanup t = ''complete'')"
  using serving_slot[OF assms(1,2,5)] assms(3) by (auto simp: slotAt_def executing_def holding_def)

text \<open>
  The queue is served in order: a picked task is the first queued one, and it is picked only into a free slot.
\<close>
lemma queue_order:
  assumes "schedulePick s = (s', Some i)"
  shows "s_active s = [] \<and> s_active s' = i \<and>
    (\<exists>before t after. s_tasks s = before @ t # after \<and> t_ID t = i \<and> t_State t = ''queued'' \<and>
       (\<forall>u\<in>set before. t_State u \<noteq> ''queued''))"
  using assms by (auto simp: schedulePick_def find_Some_split split: if_splits option.splits)

section \<open>An occupied slot that nothing releases\<close>

definition demoTask :: "string \<Rightarrow> Task" where
  "demoTask i = sampleTask\<lparr>t_ID := i, t_State := ''queued'', t_Started := None, t_Deadline := None\<rparr>"

definition demoCfg :: Storage where "demoCfg = cf_Storage Defaults"

definition demoSubmit :: "string \<Rightarrow> Server \<Rightarrow> Server" where
  "demoSubmit i s = s\<lparr>s_tasks := s_tasks s @ [demoTask i]\<rparr>"

definition demoCancel :: "string \<Rightarrow> Server \<Rightarrow> Server \<times> bool" where
  "demoCancel i s = projr (cancelTask demoCfg True 6 True (\<lambda>_. None) i s)"

text \<open>
  A is admitted; B is submitted and cancelled while an upload for it is running; A fails and is
  released, which hands the slot to B; the background release of B ends; C is submitted.
\<close>

definition demo3 :: Server where
  "demo3 = fst (scheduleAdmit demoCfg True 5 [] False ''A'' (fst (schedulePick (demoSubmit ''A'' (sampleServer [])))))"

definition demo6 :: Server where
  "demo6 = prepared demoCfg True 7 (Some EDeadlineExceeded) False ''A'' (fst (demoCancel ''B'' (demoSubmit ''B'' demo3)))"

definition demo9 :: Server where
  "demo9 = releaseScheduler ''A'' (cleanupEnd demoCfg True 10 [] ''A'' (fst (cleanupBegin demoCfg True 9 ''A''
     (fst (observeTurn demoCfg True (Ticked 8) ''A'' demo6)))))"

definition demo12 :: Server where
  "demo12 = demoSubmit ''C'' (cleanupEnd demoCfg True 12 [] ''B'' (fst (cleanupBegin demoCfg True 11 ''B'' demo9)))"

definition demoSys :: "Server \<Rightarrow> epc option \<Rightarrow> string set \<Rightarrow> string set \<Rightarrow> Sys" where
  "demoSys s e cl sp = \<lparr>y_srv = s, y_phase = Serving, y_probing = None, y_exec = (\<lambda>_. None)(''A'' := e), y_cleaning = cl, y_spawned = sp\<rparr>"

lemma reach_submit:
  assumes "reach sysStart sysStep (demoSys s e cl sp)" "unreferenced (demoSys s e cl sp) i"
  shows "reach sysStart sysStep (demoSys (demoSubmit i s) e cl sp)"
  using reach_trans[OF assms(1) sysStep.submit[of _ "demoTask i"]] assms(2)
  by (simp add: demoSys_def demoSubmit_def demoTask_def sampleTask_def)

lemma reach_admit:
  assumes r: "reach sysStart sysStep (demoSys s None cl sp)" and p: "schedulePick s = (s1, Some ''A'')"
    and a: "scheduleAdmit cfg ok now reason failed ''A'' s1 = (s2, True)"
  shows "reach sysStart sysStep (demoSys s2 (Some (EPrepare False)) cl sp)"
proof -
  let ?y1 = "(demoSys s1 None cl sp)\<lparr>y_probing := Some ''A''\<rparr>"
  have "sysStep (demoSys s None cl sp) ?y1"
    using sysStep.pick[of "demoSys s None cl sp" s1 "Some ''A''"] p by (simp add: demoSys_def)
  moreover have "sysStep ?y1 (demoSys s2 (Some (EPrepare False)) cl sp)"
    using sysStep.admit[of ?y1 "''A''" cfg ok now reason failed s2 True] a by (simp add: demoSys_def)
  ultimately show ?thesis using r reach_trans by metis
qed

lemma reach_cancel:
  assumes "reach sysStart sysStep (demoSys s e cl sp)" "cancelTask cfg ok now uploads (\<lambda>_. None) i s = Inr (s', True)"
  shows "reach sysStart sysStep (demoSys s' e cl (insert i sp))"
  using reach_trans[OF assms(1)] sysStep.cancel[of cfg ok now uploads i "demoSys s e cl sp" s' True] assms(2)
  by (simp add: demoSys_def)

lemma reach_prepare:
  assumes "reach sysStart sysStep (demoSys s (Some (EPrepare False)) cl sp)" "kindIn ''lab'' s ''A''"
  shows "reach sysStart sysStep (demoSys (prepared cfg ok now err stopped ''A'' s) (Some EObserve) cl sp)"
proof -
  obtain t where t: "findTask ''A'' s = Some t" "t_Kind t = ''lab''" using assms(2) by (auto simp: kindIn_def split: option.splits)
  have "sysStep (demoSys s (Some (EPrepare False)) cl sp) (demoSys (prepared cfg ok now err stopped ''A'' s) (Some EObserve) cl sp)"
    using sysStep.prepare[where y = "demoSys s (Some (EPrepare False)) cl sp" and i = "''A''" and observed = False and t = t
      and cfg = cfg and ok = ok and now = now and err = err and stopped = stopped] t
    by (simp add: demoSys_def afterPrepare_def)
  with assms(1) show ?thesis by (rule reach_trans)
qed

lemma reach_observe:
  assumes "reach sysStart sysStep (demoSys s (Some EObserve) cl sp)" "observeTurn cfg ok input ''A'' s = (s', True)"
  shows "reach sysStart sysStep (demoSys s' (Some EClean) cl sp)"
  using reach_trans[OF assms(1)] sysStep.observe[of "demoSys s (Some EObserve) cl sp" "''A''" EObserve cfg ok input s' True] assms(2)
  by (simp add: demoSys_def afterObserve_def)

lemma reach_clean:
  assumes r: "reach sysStart sysStep (demoSys s e {} sp)" and m: "e = Some EClean \<and> i = ''A'' \<or> i \<in> sp"
    and l: "kindIn ''lab'' s i" and b: "cleanupBegin cfg ok now i s = (s', True)"
  shows "reach sysStart sysStep (demoSys (cleanupEnd cfg ok now' errs i s') e {} sp)"
proof -
  have "sysStep (demoSys s e {} sp) (demoSys s' e {i} sp)"
    using sysStep.cleanBegin[of "demoSys s e {} sp" i cfg ok now s'] m l b by (auto simp: demoSys_def mayClean_def)
  moreover have "sysStep (demoSys s' e {i} sp) (demoSys (cleanupEnd cfg ok now' errs i s') e {} sp)"
    using sysStep.cleanEnd[of i "demoSys s' e {i} sp" cfg ok now' errs] by (simp add: demoSys_def)
  ultimately show ?thesis using r reach_trans by metis
qed

lemma reach_executed:
  assumes "reach sysStart sysStep (demoSys s (Some EClean) cl sp)"
  shows "reach sysStart sysStep (demoSys (releaseScheduler ''A'' s) None cl sp)"
  using reach_trans[OF assms] sysStep.executed[of "demoSys s (Some EClean) cl sp" "''A''"] by (simp add: demoSys_def)

lemma reach_serving: "reach sysStart sysStep (demoSys (sampleServer []) None {} {})"
proof -
  let ?y0 = "(demoSys (sampleServer []) None {} {})\<lparr>y_phase := Recovering [] None []\<rparr>"
  have "reach sysStart sysStep ?y0"
    by (rule reach_start) (simp add: sysStart_def demoSys_def sampleServer_def)
  moreover have "sysStep ?y0 (demoSys (sampleServer []) None {} {})"
    using sysStep.serve[of ?y0 "[]"] by (simp add: demoSys_def sampleServer_def)
  ultimately show ?thesis by (rule reach_trans)
qed

lemma demo_admitted: "reach sysStart sysStep (demoSys demo3 (Some (EPrepare False)) {} {})"
proof (rule reach_admit[of "demoSubmit ''A'' (sampleServer [])" _ _ "fst (schedulePick (demoSubmit ''A'' (sampleServer [])))"])
  show "reach sysStart sysStep (demoSys (demoSubmit ''A'' (sampleServer [])) None {} {})"
    by (rule reach_submit[OF reach_serving]) (simp add: unreferenced_def demoSys_def sampleServer_def)
  show "schedulePick (demoSubmit ''A'' (sampleServer [])) = (fst (schedulePick (demoSubmit ''A'' (sampleServer []))), Some ''A'')"
    by (rule prod_eqI, simp) code_simp
  show "scheduleAdmit demoCfg True 5 [] False ''A'' (fst (schedulePick (demoSubmit ''A'' (sampleServer [])))) = (demo3, True)"
    by (rule prod_eqI, simp add: demo3_def) code_simp
qed

lemma demo_cancelled: "reach sysStart sysStep (demoSys demo6 (Some EObserve) {} {''B''})"
proof -
  have ids: "t_ID ` set (s_tasks demo3) = {''A''}" by code_simp
  have r: "reach sysStart sysStep (demoSys (demoSubmit ''B'' demo3) (Some (EPrepare False)) {} {})"
    by (rule reach_submit[OF demo_admitted]) (simp add: unreferenced_def demoSys_def ids)
  have "(case cancelTask demoCfg True 6 True (\<lambda>_. None) ''B'' (demoSubmit ''B'' demo3) of Inr (_, b) \<Rightarrow> b | _ \<Rightarrow> False)" by code_simp
  then have "cancelTask demoCfg True 6 True (\<lambda>_. None) ''B'' (demoSubmit ''B'' demo3) = Inr (fst (demoCancel ''B'' (demoSubmit ''B'' demo3)), True)"
    unfolding demoCancel_def by (auto split: sum.splits)
  from reach_cancel[OF r this]
  have "reach sysStart sysStep (demoSys (fst (demoCancel ''B'' (demoSubmit ''B'' demo3))) (Some (EPrepare False)) {} {''B''})" .
  then show ?thesis unfolding demo6_def by (rule reach_prepare) code_simp
qed

lemma demo_handed: "reach sysStart sysStep (demoSys demo9 None {} {''B''})"
proof -
  let ?s = "fst (observeTurn demoCfg True (Ticked 8) ''A'' demo6)"
  have "observeTurn demoCfg True (Ticked 8) ''A'' demo6 = (?s, True)" by (rule prod_eqI, simp) code_simp
  from reach_observe[OF demo_cancelled this] have r: "reach sysStart sysStep (demoSys ?s (Some EClean) {} {''B''})" .
  have b: "cleanupBegin demoCfg True 9 ''A'' ?s = (fst (cleanupBegin demoCfg True 9 ''A'' ?s), True)"
    by (rule prod_eqI, simp) code_simp
  have k: "kindIn ''lab'' ?s ''A''" by code_simp
  show ?thesis unfolding demo9_def by (rule reach_executed, rule reach_clean[OF r _ k b]) simp
qed

lemma demo_released: "reach sysStart sysStep (demoSys demo12 None {} {''B''})"
proof -
  have b: "cleanupBegin demoCfg True 11 ''B'' demo9 = (fst (cleanupBegin demoCfg True 11 ''B'' demo9), True)"
    by (rule prod_eqI, simp) code_simp
  have k: "kindIn ''lab'' demo9 ''B''" by code_simp
  let ?s = "cleanupEnd demoCfg True 12 [] ''B'' (fst (cleanupBegin demoCfg True 11 ''B'' demo9))"
  have ids: "''C'' \<notin> t_ID ` set (s_tasks ?s)" by code_simp
  have "reach sysStart sysStep (demoSys ?s None {} {''B''})" by (rule reach_clean[OF demo_handed _ k b]) simp
  then show ?thesis unfolding demo12_def
    by (rule reach_submit) (use ids in \<open>simp add: unreferenced_def demoSys_def\<close>)
qed

text \<open>
  C30. A run of the service that leaves the queue stuck: every goroutine has ended, the slot is
  owned by a cancelled task that is completely released, and the queued task is not picked.  Only a
  request that names the cancelled task (\<^verbatim>\<open>lab_cleanup\<close>, \<^verbatim>\<open>Reconcile\<close>) frees the slot: the
  cleanup a cancellation starts in the background does not call \<^verbatim>\<open>releaseScheduler\<close>.
\<close>
theorem cancelled_upload_wedges_queue:
  "\<exists>y. reach sysStart sysStep y \<and> y_phase y = Serving \<and> y_exec y = (\<lambda>_. None) \<and> y_cleaning y = {} \<and> y_probing y = None \<and>
     \<not> s_closed (y_srv y) \<and> \<not> s_storageBlocked (y_srv y) \<and>
     (\<exists>t\<in>set (s_tasks (y_srv y)). t_State t = ''queued'') \<and>
     (\<exists>t\<in>set (s_tasks (y_srv y)). t_ID t = s_active (y_srv y) \<and> t_State t = ''cancelled'' \<and> t_Cleanup t = ''complete'') \<and>
     schedulePick (y_srv y) = (y_srv y, None)"
proof (intro exI conjI)
  show "reach sysStart sysStep (demoSys demo12 None {} {''B''})" by (rule demo_released)
  have a: "s_active demo12 = ''B''" by code_simp
  then show "schedulePick (y_srv (demoSys demo12 None {} {''B''})) = (y_srv (demoSys demo12 None {} {''B''}), None)"
    by (simp add: demoSys_def schedulePick_def)
  have "list_ex (\<lambda>t. t_State t = ''queued'') (s_tasks demo12)" by code_simp
  then show "\<exists>t\<in>set (s_tasks (y_srv (demoSys demo12 None {} {''B''}))). t_State t = ''queued''"
    by (simp add: demoSys_def list_ex_iff)
  have "list_ex (\<lambda>t. t_ID t = s_active demo12 \<and> t_State t = ''cancelled'' \<and> t_Cleanup t = ''complete'') (s_tasks demo12)" by code_simp
  then show "\<exists>t\<in>set (s_tasks (y_srv (demoSys demo12 None {} {''B''}))). t_ID t = s_active (y_srv (demoSys demo12 None {} {''B''})) \<and>
      t_State t = ''cancelled'' \<and> t_Cleanup t = ''complete''"
    by (simp add: demoSys_def list_ex_iff)
  have c: "\<not> s_closed demo12" "\<not> s_storageBlocked demo12" by code_simp+
  then show "\<not> s_closed (y_srv (demoSys demo12 None {} {''B''}))" "\<not> s_storageBlocked (y_srv (demoSys demo12 None {} {''B''}))"
    by (simp_all add: demoSys_def)
qed (simp_all add: demoSys_def)


section \<open>Witnesses\<close>

definition demoA :: Task where
  "demoA = admittedTask 5 (demoTask ''A'')"

lemma demoA_in: "demoA \<in> set (s_tasks demo3)"
  by (simp add: demo3_def scheduleAdmit_def schedulePick_def demoSubmit_def sampleServer_def findTask_def demoTask_def
      sampleTask_def Server_save_def updTask_def demoA_def admittedTask_def detailExpiry_def mapLab_def pruneLab_def)

theorem one_execution_witness: "t_ID demoA = s_active demo3"
proof -
  have "\<not> Terminal demoA" "t_State demoA \<noteq> ''queued''" by code_simp+
  then show ?thesis
    using one_execution[OF demo_admitted _ _ _ _ _ _, of demoA demoA] demoA_in by (simp add: demoSys_def)
qed

lemma demo_probing:
  "reach sysStart sysStep ((demoSys (fst (schedulePick (demoSubmit ''A'' (sampleServer [])))) None {} {})\<lparr>y_probing := Some ''A''\<rparr>)"
proof -
  let ?s = "demoSubmit ''A'' (sampleServer [])"
  have r: "reach sysStart sysStep (demoSys ?s None {} {})"
    by (rule reach_submit[OF reach_serving]) (simp add: unreferenced_def demoSys_def sampleServer_def)
  have "schedulePick ?s = (fst (schedulePick ?s), Some ''A'')" by (rule prod_eqI, simp) code_simp
  then show ?thesis
    using reach_trans[OF r] sysStep.pick[of "demoSys ?s None {} {}" "fst (schedulePick ?s)" "Some ''A''"] by (simp add: demoSys_def)
qed

theorem admission_exclusive_witness:
  "Terminal (hd (s_tasks (fst (schedulePick (demoSubmit ''A'' (sampleServer [])))))) \<or>
   t_State (hd (s_tasks (fst (schedulePick (demoSubmit ''A'' (sampleServer [])))))) = ''queued''"
proof -
  let ?s = "fst (schedulePick (demoSubmit ''A'' (sampleServer [])))"
  have a: "scheduleAdmit demoCfg True 5 [] False ''A'' ?s = (demo3, True)" by (rule prod_eqI, simp add: demo3_def) code_simp
  have "s_tasks ?s \<noteq> []" by (simp add: schedulePick_def demoSubmit_def sampleServer_def split: option.splits)
  then show ?thesis
    using admission_exclusive[OF demo_probing, of "''A''" demoCfg True 5 "[]" False demo3 "hd (s_tasks ?s)"] a by (simp add: demoSys_def)
qed

end
