(* ===== verification/Lab.thy ===== *)
theory Lab
  imports Netpolicy Server
begin

text \<open>
  The construction of executions (\<^verbatim>\<open>duration\<close>, \<^verbatim>\<open>newTask\<close>, \<^verbatim>\<open>buildLab\<close> of
  \<^verbatim>\<open>internal/control/operations.go\<close>), the router policy of a lab (\<^verbatim>\<open>taskPolicy\<close> of
  \<^verbatim>\<open>vbox.go\<close>) and the admission of an operation on a node (\<^verbatim>\<open>nodeAccess\<close>).

  The random identifiers \<^verbatim>\<open>wire.ID\<close> draws are a stream \<open>draw\<close> with a position.  The two search
  loops of \<^verbatim>\<open>buildLab\<close> (for a free address, for a fresh hardware address) need not end, so they
  are partial functions: \<open>None\<close> means that the loop runs forever.
\<close>

section \<open>Definitions\<close>

definition duration_of :: "Tasks \<Rightarrow> int \<Rightarrow> int res" where
  "duration_of cfg v0 =
    (let v = (if v0 = 0 then Duration_Seconds (tk_DefaultTimeout cfg) else v0) in
     if v < 1 \<or> v > Duration_Seconds (tk_MaxDuration cfg)
     then Inl (Fail ''limit_exceeded'' ''Task duration exceeds configured bounds'')
     else Inr v)"

definition emptyLab :: LabState where
  "emptyLab = \<lparr>lb_Nodes = [], lb_Router = None, lb_RouterPassword = [], lb_RouterISO = [], lb_RouterBootID = [],
     lb_NetworkUpdated = zeroTime, lb_NetworkLeaseExpires = zeroTime, lb_NetworkPolicyHash = [], lb_NetworkObservation = None,
     lb_GUI = None, lb_LAN = [], lb_DHCP = False, lb_DNS = [], lb_Internet = False, lb_Network = [],
     lb_Commands = [], lb_Endpoints = [], lb_Captures = []\<rparr>"

definition emptyNixJob :: NixJobState where
  "emptyNixJob = \<lparr>nj_Dispatched = False, nj_Evidence = nixEvidenceIn ''pending'', nj_ManifestDigest = [], nj_WorkerInstance = [],
     nj_CacheID = [], nj_Derivation = [], nj_System = [], nj_NixExecution = None, nj_HandoffComplete = False\<rparr>"

definition newTask :: "string \<Rightarrow> gotime \<Rightarrow> string \<Rightarrow> int \<Rightarrow> Task" where
  "newTask ident now kind seconds =
    \<lparr>t_DetailExpires = None, t_ResourceCounts = [], t_Version = \<lparr>vs_Revision = 0, vs_StateDigest = []\<rparr>,
     t_ID = ident, t_Kind = kind, t_State = ''queued'', t_Created = now, t_Started = None, t_Deadline = None,
     t_Ended = None, t_TimeoutSeconds = seconds, t_Conclusion = [], t_Summary = [], t_Reason = [], t_Cleanup = ''pending'',
     t_CleanupErrors = [], t_Failure = None, t_Purged = False, t_Hold = None,
     t_domain = (if kind = ''lab'' then DLab emptyLab else DNix emptyNixJob),
     t_Artifacts = [], t_pendingEvents = []\<rparr>"

text \<open>The check for duplicate explicit addresses; the result is the set of them.\<close>

fun explicitAddresses :: "string list \<Rightarrow> NodeRequest list \<Rightarrow> string list option" where
  "explicitAddresses used [] = Some used"
| "explicitAddresses used (n # ns) =
    (if rq_IPv4 n \<noteq> []
     then if rq_IPv4 n \<in> set used then None else explicitAddresses (rq_IPv4 n # used) ns
     else explicitAddresses used ns)"

text \<open>The loop \<^verbatim>\<open>for used[next.String()]\<close>.\<close>

partial_function (option) allocate :: "string list \<Rightarrow> addr option \<Rightarrow> addr option option" where
  "allocate used next = (if optString next \<in> set used then allocate used (optNext next) else Some next)"

definition macOf :: "string \<Rightarrow> string" where
  "macOf x = ''08:00:27:'' @ take 2 x @ '':'' @ take 2 (drop 2 x) @ '':'' @ take 2 (drop 4 x)"

text \<open>The loop \<^verbatim>\<open>for macs[mac]\<close>, from the draw at position \<open>k\<close>; the result is the position of the accepted draw.\<close>

partial_function (option) freshMAC :: "(nat \<Rightarrow> string) \<Rightarrow> string list \<Rightarrow> nat \<Rightarrow> nat option" where
  "freshMAC draw macs k = (if macOf (draw k) \<in> set macs then freshMAC draw macs (Suc k) else Some k)"

text \<open>The defaults and the policy checks of one requested node.\<close>

definition nodeDefaults :: "Template \<Rightarrow> NodeRequest \<Rightarrow> NodeRequest" where
  "nodeDefaults tp v = v\<lparr>rq_CPUs := (if rq_CPUs v = 0 then tp_CPUs tp else rq_CPUs v),
     rq_MemoryMiB := (if rq_MemoryMiB v = 0 then tp_MemoryMiB tp else rq_MemoryMiB v)\<rparr>"

definition nodeCheck :: "Template \<Rightarrow> NodeRequest \<Rightarrow> goerr option" where
  "nodeCheck tp v =
    (if rq_CPUs v < 1 \<or> rq_CPUs v > tp_MaxCPUs tp \<or> rq_MemoryMiB v < 128 \<or> rq_MemoryMiB v > tp_MaxMemoryMiB tp \<or>
        \<not> Media_Allows (tp_Media tp) (rq_Media v)
     then Some (Fail ''policy_denied'' ''Node exceeds template resource or media policy'')
     else if m_Camera (rq_Media v)
     then (if map_of (tp_Cameras tp) (rq_Camera v) = None
           then Some (Fail ''policy_denied'' ''An allowed camera alias is required'') else None)
     else if rq_Camera v \<noteq> []
     then Some (Fail ''invalid_argument'' ''Camera alias requires media.camera'')
     else None)"

definition pendingNode :: "string \<Rightarrow> NodeRequest \<Rightarrow> string \<Rightarrow> string \<Rightarrow> gotime \<Rightarrow> bool \<Rightarrow> Node" where
  "pendingNode ident v uuid mac created link =
    \<lparr>n_ID = ident, n_Request = v, n_UUID = uuid, n_MAC = mac, n_State = ''pending'', n_Intent = False, n_Cleaned = False,
     n_Link = link, n_AutoResize = False, n_LastInput = zeroTime, n_Guest = [],
     n_Health = \<lparr>h_VirtualBox = zeroObservation, h_GuestControl = zeroObservation, h_Commands = zeroObservation\<rparr>,
     n_Polling = zeroSchedule, n_GuestSessions = None, n_Identity = None,
     n_Preparation = \<lparr>pr_Stage = ''pending'', pr_Started = None, pr_StageStarted = None, pr_Deadline = None,
       pr_Updated = created, pr_Error = None\<rparr>,
     n_Expected = None, n_CleanupSteps = []\<rparr>"

text \<open>
  The address of a node: an explicit one is kept, otherwise the search continues at \<open>next\<close>.  The
  result is the address with the new set and position.
\<close>

definition assignAddress :: "string list \<Rightarrow> addr option \<Rightarrow> string \<Rightarrow> (string \<times> string list \<times> addr option) option" where
  "assignAddress used next ip =
    (if ip \<noteq> [] then Some (ip, used, next)
     else (case allocate used next of
        None \<Rightarrow> None
      | Some a \<Rightarrow> Some (optString a, optString a # used, optNext a)))"

text \<open>The loop over the requested nodes; the second result is the position in the stream of draws.\<close>

fun buildNodes :: "(string \<times> Template) list \<Rightarrow> (nat \<Rightarrow> string) \<Rightarrow> gotime \<Rightarrow> nat \<Rightarrow> string list \<Rightarrow> addr option \<Rightarrow> string list \<Rightarrow>
    NodeRequest list \<Rightarrow> (Node list \<times> nat) res option" where
  "buildNodes templates draw created k used next macs [] = Some (Inr ([], k))"
| "buildNodes templates draw created k used next macs (v0 # vs) =
    (case map_of templates (rq_Template v0) of
       None \<Rightarrow> Some (Inl (Fail ''invalid_argument'' ''Unknown template''))
     | Some tp \<Rightarrow>
       let v = nodeDefaults tp v0 in
       (case nodeCheck tp v of
          Some e \<Rightarrow> Some (Inl e)
        | None \<Rightarrow>
          (case assignAddress used next (rq_IPv4 v) of
             None \<Rightarrow> None
           | Some (ip, used', next') \<Rightarrow>
             (case freshMAC draw macs k of
                None \<Rightarrow> None
              | Some m \<Rightarrow>
                let mac = macOf (draw m);
                    n = pendingNode (draw (Suc m)) (v\<lparr>rq_IPv4 := ip\<rparr>) (UUID_of (draw (m + 2))) mac created True
                in (case buildNodes templates draw created (m + 3) used' next' (mac # macs) vs of
                      None \<Rightarrow> None
                    | Some (Inl e) \<Rightarrow> Some (Inl e)
                    | Some (Inr (ns, k')) \<Rightarrow> Some (Inr (n # ns, k')))))))"

definition nodeLease :: "Node \<Rightarrow> Lease" where
  "nodeLease n = \<lparr>l_Name = rq_Name (n_Request n), l_MAC = n_MAC n, l_IPv4 = rq_IPv4 (n_Request n)\<rparr>"

text \<open>
  \<^verbatim>\<open>netip.ParsePrefix\<close> also accepts IPv6 prefixes (\<open>v6\<close>); \<^verbatim>\<open>Policy.Validate\<close> refuses them at the end, after
  the checks of the nodes, whose outcome does not depend on the addresses.
\<close>

definition parseLAN :: "(string \<Rightarrow> bool) \<Rightarrow> string \<Rightarrow> (prefix4 option) option" where
  "parseLAN v6 s = (case ParsePrefix4 s of Some p \<Rightarrow> Some (Some p) | None \<Rightarrow> if v6 s then Some None else None)"

definition routerRequest :: NodeRequest where
  "routerRequest = \<lparr>rq_Name = ''router'', rq_Template = [], rq_IPv4 = [], rq_CPUs = 1, rq_MemoryMiB = 256, rq_GUI = False,
     rq_Media = \<lparr>m_Camera = False, m_AudioInput = False, m_AudioOutput = False, m_Accelerate3D = False\<rparr>, rq_Camera = []\<rparr>"

text \<open>The lab before its nodes are built: addresses, switches, the password of the router.\<close>

definition labFrame :: "VirtualBox \<Rightarrow> LabRequest \<Rightarrow> string \<Rightarrow> string \<Rightarrow> LabState" where
  "labFrame vb a lan password = emptyLab\<lparr>lb_LAN := lan, lb_DHCP := (case lr_DHCP a of None \<Rightarrow> True | Some b \<Rightarrow> b),
     lb_DNS := (case lr_DNS a of None \<Rightarrow> nw_DNS (vb_Network vb) | Some d \<Rightarrow> d), lb_RouterISO := vb_RouterISO vb,
     lb_Internet := (case lr_Internet a of None \<Rightarrow> True | Some b \<Rightarrow> b), lb_Network := ''pending'', lb_RouterPassword := password\<rparr>"

definition requestPolicy :: "VirtualBox \<Rightarrow> LabState \<Rightarrow> Node list \<Rightarrow> Policy" where
  "requestPolicy vb l nodes = \<lparr>p_LAN = lb_LAN l, p_WAN = nw_WAN (vb_Network vb), p_DHCP = lb_DHCP l, p_Internet = lb_Internet l,
     p_DNS = lb_DNS l, p_Protected = [], p_LeaseSeconds = nw_LeaseSeconds (vb_Network vb),
     p_Nodes = map nodeLease nodes, p_Entries = []\<rparr>"

definition finishLab :: "(nat \<Rightarrow> string) \<Rightarrow> string \<Rightarrow> gotime \<Rightarrow> int \<Rightarrow> VirtualBox \<Rightarrow> bool \<Rightarrow> LabState \<Rightarrow> Node list \<Rightarrow> nat \<Rightarrow> Task res" where
  "finishLab draw ident created seconds vb isV6 l nodes k =
    (if isV6 then Inl badPolicy
     else (case Policy_Validate (requestPolicy vb l nodes) of
        Some e \<Rightarrow> Inl e
      | None \<Rightarrow> Inr ((newTask ident created ''lab'' seconds)\<lparr>t_domain := DLab (l\<lparr>lb_Nodes := nodes,
            lb_Router := Some (pendingNode (draw k) routerRequest (UUID_of (draw (Suc k))) (macOf ident) created False)\<rparr>)\<rparr>)))"

definition lanText :: "Config \<Rightarrow> LabRequest \<Rightarrow> string" where
  "lanText cfg a = (if lr_LAN a = [] then nw_LAN (vb_Network (cf_VirtualBox cfg)) else lr_LAN a)"

definition firstAddress :: "prefix4 option \<Rightarrow> addr option" where
  "firstAddress lan = (case lan of None \<Rightarrow> Some 0 | Some p \<Rightarrow> optNext (optNext (Some (px_addr p))))"

definition buildLab :: "(string \<Rightarrow> bool) \<Rightarrow> (nat \<Rightarrow> string) \<Rightarrow> Config \<Rightarrow> string \<Rightarrow> gotime \<Rightarrow> LabRequest \<Rightarrow> Task res option" where
  "buildLab v6 draw cfg ident created a =
    (case duration_of (cf_Tasks cfg) (lr_TimeoutSeconds a) of
       Inl e \<Rightarrow> Some (Inl e)
     | Inr seconds \<Rightarrow>
       (case lr_Nodes a of
          None \<Rightarrow> Some (Inl (Fail ''invalid_argument'' ''nodes must be an array of 0..64 test nodes''))
        | Some reqs \<Rightarrow>
          if length reqs > 64 then Some (Inl (Fail ''invalid_argument'' ''nodes must be an array of 0..64 test nodes''))
          else if vb_RouterISO (cf_VirtualBox cfg) = [] then Some (Inl (Fail ''router_unavailable'' ''Configure router.iso before creating a lab''))
          else
            (case parseLAN v6 (lanText cfg a) of
               None \<Rightarrow> Some (Inl (Fail ''invalid_argument'' ''Invalid LAN''))
             | Some lan \<Rightarrow>
               let l = labFrame (cf_VirtualBox cfg) a (lanText cfg a) (draw 1 @ draw 2) in
               (case explicitAddresses [] reqs of
                  None \<Rightarrow> Some (Inl (Fail ''invalid_argument'' ''Duplicate IPv4''))
                | Some used \<Rightarrow>
                  (case buildNodes (vb_Templates (cf_VirtualBox cfg)) draw created 3 used
                          (firstAddress lan) [macOf ident] reqs of
                     None \<Rightarrow> None
                   | Some (Inl e) \<Rightarrow> Some (Inl e)
                   | Some (Inr (nodes, k)) \<Rightarrow>
                       Some (finishLab draw ident created seconds (cf_VirtualBox cfg) (lan = None) l nodes k))))))"

text \<open>
  \<^verbatim>\<open>taskPolicy\<close>: the policy of a lab's router with its open endpoints.  The code takes the address of
  an endpoint's node without a check; a node that is not in the lab, a crash there, has no address here.
\<close>

definition endpointEntry :: "Task \<Rightarrow> Endpoint \<Rightarrow> Entry" where
  "endpointEntry t e = \<lparr>e_Protocol = en_Protocol e, e_Port = en_RouterPort e,
     e_IPv4 = (case Task_Node t (en_NodeID e) of Inr n \<Rightarrow> rq_IPv4 (n_Request n) | Inl _ \<Rightarrow> []), e_GuestPort = en_GuestPort e\<rparr>"

definition taskPolicy :: "Task \<Rightarrow> LabState \<Rightarrow> string \<Rightarrow> int \<Rightarrow> string list \<Rightarrow> Policy" where
  "taskPolicy t l wan seconds protected = \<lparr>p_LAN = lb_LAN l, p_WAN = wan, p_DHCP = lb_DHCP l, p_Internet = lb_Internet l,
     p_DNS = lb_DNS l, p_Protected = protected, p_LeaseSeconds = seconds, p_Nodes = map nodeLease (lb_Nodes l),
     p_Entries = map (endpointEntry t) (filter (\<lambda>e. en_State e \<noteq> ''closed'') (lb_Endpoints l))\<rparr>"

definition guestPath :: "string \<Rightarrow> bool" where
  "guestPath p \<longleftrightarrow> length p > 0 \<and> ValidText p 32768 \<and>
     (hd p = CHR ''/'' \<or> length p > 2 \<and> p ! 1 = CHR '':'' \<and> (p ! 2 = CHR 0x5C \<or> p ! 2 = CHR ''/''))"

definition nodeAccess :: "(string \<Rightarrow> Task option) \<Rightarrow> string \<Rightarrow> string \<Rightarrow> string \<Rightarrow> Server \<Rightarrow> (Task \<times> Node) res" where
  "nodeAccess stored taskID nodeID action s =
    (case Server_task stored taskID s of
       Inl e \<Rightarrow> Inl e
     | Inr t \<Rightarrow>
       (case Task_Node t nodeID of
          Inl e \<Rightarrow> Inl e
        | Inr n \<Rightarrow>
          if t_Kind t \<noteq> ''lab'' \<or> \<not> n_Intent n \<or> n_Cleaned n \<or> t_Cleanup t = ''running''
          then Inl (Fail ''invalid_state'' ''Node resource is not available for this operation'')
          else if Terminal t \<and> \<not> oneOf action [''node_exec'', ''screenshot'', ''diagnostics'', ''vm_info'']
          then Inl (Fail ''invalid_state'' ''Task execution has ended'')
          else if prefix ''command_'' action \<and> action \<noteq> ''command_cancel'' \<and> \<not> cap_commands (capabilities n)
          then Inl (Fail ''guest_not_ready'' ''Guest command capability is unavailable; inspect node_get or lab_diagnose'')
          else Inr (t, n)))"

section \<open>The search for a free address\<close>

lemma allocate_step: "optString next \<in> set used \<Longrightarrow> allocate used next = allocate used (optNext next)"
  and allocate_stop: "optString next \<notin> set used \<Longrightarrow> allocate used next = Some next"
  by (simp_all add: allocate.simps)

lemma allocate_fresh: "allocate used nx = Some r \<Longrightarrow> optString r \<notin> set used"
  by (erule allocate.raw_induct[where P = "\<lambda>used nx r. optString r \<notin> set used", rotated]) (auto split: if_splits)

text \<open>On the invalid address the loop makes no progress.\<close>

lemma allocate_stuck: "''invalid IP'' \<in> set used \<Longrightarrow> allocate used None = None"
proof -
  have "nx = None \<longrightarrow> ''invalid IP'' \<notin> set used" if "allocate used nx = Some r" for nx r
    using that
    by (rule allocate.raw_induct[where P = "\<lambda>used nx r. nx = None \<longrightarrow> ''invalid IP'' \<notin> set used", rotated])
       (auto simp: optNext_def optString_def split: if_splits)
  then show "''invalid IP'' \<in> set used \<Longrightarrow> ?thesis" by (metis not_None_eq)
qed

lemma Addr_String_inj: "Addr_String a = Addr_String b \<longleftrightarrow> a = b"
  by (metis ParseAddr4_String option.inject)

lemma unat_add_nat: "unat (a :: addr) + n < 2 ^ 32 \<Longrightarrow> unat (a + of_nat n) = unat a + n"
  by (simp add: unat_word_ariths unat_of_nat take_bit_eq_mod)

lemma Addr_Next_add: "unat a + Suc n < 2 ^ 32 \<Longrightarrow> Addr_Next (a + of_nat n) = Some (a + of_nat (Suc n))"
proof -
  assume "unat a + Suc n < 2 ^ 32"
  then have "unat (a + of_nat n) < 2 ^ 32 - 1" using unat_add_nat[of a n] by simp
  moreover have "unat (- 1 :: addr) = 2 ^ 32 - 1" by (simp add: unsigned_minus_1_eq_mask mask_eq_exp_minus_1)
  ultimately have "a + of_nat n \<noteq> - 1" by (metis less_irrefl)
  then show ?thesis by (simp add: Addr_Next_def algebra_simps)
qed

lemma allocate_from:
  assumes "unat a + n < 2 ^ 32" "\<forall>i<n. Addr_String (a + of_nat i) \<in> set used" "Addr_String (a + of_nat n) \<notin> set used"
  shows "allocate used (Some a) = Some (Some (a + of_nat n))"
proof -
  have "allocate used (Some a) = allocate used (Some (a + of_nat i))" if "i \<le> n" for i
    using that
  proof (induction i)
    case (Suc i)
    have "allocate used (Some (a + of_nat i)) = allocate used (optNext (Some (a + of_nat i)))"
      by (rule allocate_step) (use Suc assms(2) in \<open>simp add: optString_def\<close>)
    also have "optNext (Some (a + of_nat i)) = Some (a + of_nat (Suc i))"
      using Addr_Next_add[of a i] Suc.prems assms(1) by (simp add: optNext_def)
    finally show ?case using Suc by simp
  qed simp
  then have "allocate used (Some a) = allocate used (Some (a + of_nat n))" by simp
  then show ?thesis using allocate_stop[of "Some (a + of_nat n)" used] assms(3) by (simp add: optString_def)
qed

text \<open>The search ends within as many steps as addresses are taken, at the lowest free address.\<close>

lemma allocate_returns:
  assumes "unat a + length used < 2 ^ 32"
  shows "\<exists>n\<le>length used. allocate used (Some a) = Some (Some (a + of_nat n)) \<and> Addr_String (a + of_nat n) \<notin> set used"
proof -
  have "\<exists>n\<le>length used. Addr_String (a + of_nat n) \<notin> set used"
  proof (rule ccontr)
    assume "\<not> ?thesis"
    then have sub: "(\<lambda>n. Addr_String (a + of_nat n)) ` {..length used} \<subseteq> set used" by auto
    have "inj_on (\<lambda>n. Addr_String (a + of_nat n)) {..length used}"
    proof (rule inj_onI)
      fix i j assume ij: "i \<in> {..length used}" "j \<in> {..length used}" "Addr_String (a + of_nat i) = Addr_String (a + of_nat j)"
      then have "unat (a + of_nat i) = unat (a + of_nat j)" by (simp only: Addr_String_inj)
      then show "i = j" using ij assms by (simp add: unat_add_nat)
    qed
    then have "card {..length used} \<le> card (set used)" using sub by (metis List.finite_set card_image card_mono)
    then show False using card_length[of used] by simp
  qed
  then obtain m where m: "m \<le> length used" "Addr_String (a + of_nat m) \<notin> set used" by blast
  let ?P = "\<lambda>n. Addr_String (a + of_nat n) \<notin> set used"
  define n where "n = (LEAST n. ?P n)"
  have "?P n" "n \<le> m" "\<forall>i<n. \<not> ?P i"
    unfolding n_def using LeastI[of ?P, OF m(2)] Least_le[of ?P, OF m(2)] not_less_Least[of _ ?P] by auto
  then show ?thesis using allocate_from[of a n used] assms m(1) by (intro exI[of _ n]) auto
qed

section \<open>The search for a fresh hardware address\<close>

lemma freshMAC_fresh: "freshMAC draw macs k = Some m \<Longrightarrow> macOf (draw m) \<notin> set macs \<and> k \<le> m"
  by (erule freshMAC.raw_induct[where P = "\<lambda>draw macs k m. macOf (draw m) \<notin> set macs \<and> k \<le> m", rotated])
     (force split: if_splits)

lemma freshMAC_returns: "macOf (draw m) \<notin> set macs \<Longrightarrow> k \<le> m \<Longrightarrow> \<exists>j. freshMAC draw macs k = Some j"
proof (induction "m - k" arbitrary: k)
  case 0
  then show ?case by (simp add: freshMAC.simps)
next
  case (Suc d)
  have "\<exists>j. freshMAC draw macs (Suc k) = Some j" using Suc.hyps(2) Suc.prems by (intro Suc.hyps(1)) auto
  then show ?case by (subst freshMAC.simps) auto
qed

section \<open>The nodes of a lab\<close>

definition nodeOK :: "(string \<times> Template) list \<Rightarrow> NodeRequest \<Rightarrow> Node \<Rightarrow> bool" where
  "nodeOK templates v n \<longleftrightarrow>
    (\<exists>tp. map_of templates (rq_Template v) = Some tp \<and>
       rq_Name (n_Request n) = rq_Name v \<and> rq_Template (n_Request n) = rq_Template v \<and>
       (rq_IPv4 v \<noteq> [] \<longrightarrow> rq_IPv4 (n_Request n) = rq_IPv4 v) \<and>
       (rq_CPUs v \<noteq> 0 \<longrightarrow> rq_CPUs (n_Request n) = rq_CPUs v) \<and>
       1 \<le> rq_CPUs (n_Request n) \<and> rq_CPUs (n_Request n) \<le> tp_MaxCPUs tp \<and>
       128 \<le> rq_MemoryMiB (n_Request n) \<and> rq_MemoryMiB (n_Request n) \<le> tp_MaxMemoryMiB tp \<and>
       rq_Media (n_Request n) = rq_Media v \<and> Media_Allows (tp_Media tp) (rq_Media v) \<and>
       (if m_Camera (rq_Media v) then rq_Camera v \<in> fst ` set (tp_Cameras tp) else rq_Camera v = []))"

lemma nodeDefaults_kept [simp]:
  "rq_Name (nodeDefaults tp v) = rq_Name v" "rq_Template (nodeDefaults tp v) = rq_Template v" "rq_IPv4 (nodeDefaults tp v) = rq_IPv4 v"
  "rq_Media (nodeDefaults tp v) = rq_Media v" "rq_Camera (nodeDefaults tp v) = rq_Camera v"
  "rq_CPUs v \<noteq> 0 \<Longrightarrow> rq_CPUs (nodeDefaults tp v) = rq_CPUs v"
  by (simp_all add: nodeDefaults_def)

lemma pendingNode_sel [simp]:
  "n_ID (pendingNode i v u m c b) = i" "n_Request (pendingNode i v u m c b) = v" "n_MAC (pendingNode i v u m c b) = m"
  "n_Intent (pendingNode i v u m c b) = False" "n_State (pendingNode i v u m c b) = ''pending''"
  by (simp_all add: pendingNode_def)

text \<open>One turn of the loop.\<close>

lemma buildNodes_Cons:
  assumes "buildNodes templates draw created k used nx macs (v # vs) = Some (Inr (ns, k'))"
  obtains tp ip used' nx' m ms where
    "map_of templates (rq_Template v) = Some tp" "nodeCheck tp (nodeDefaults tp v) = None"
    "assignAddress used nx (rq_IPv4 v) = Some (ip, used', nx')" "freshMAC draw macs k = Some m"
    "buildNodes templates draw created (m + 3) used' nx' (macOf (draw m) # macs) vs = Some (Inr (ms, k'))"
    "ns = pendingNode (draw (Suc m)) ((nodeDefaults tp v)\<lparr>rq_IPv4 := ip\<rparr>) (UUID_of (draw (m + 2))) (macOf (draw m)) created True # ms"
  using assms by (auto simp: Let_def split: option.splits sum.splits prod.splits)

lemma buildNodes_MACs:
  "buildNodes templates draw created k used nx macs vs = Some (Inr (ns, k')) \<Longrightarrow>
     distinct (map n_MAC ns) \<and> set (map n_MAC ns) \<inter> set macs = {}"
proof (induction vs arbitrary: k used nx macs ns)
  case (Cons v vs)
  from Cons.prems obtain tp ip used' nx' m ms where
    b: "freshMAC draw macs k = Some m"
      "buildNodes templates draw created (m + 3) used' nx' (macOf (draw m) # macs) vs = Some (Inr (ms, k'))"
      "ns = pendingNode (draw (Suc m)) ((nodeDefaults tp v)\<lparr>rq_IPv4 := ip\<rparr>) (UUID_of (draw (m + 2))) (macOf (draw m)) created True # ms"
    by (rule buildNodes_Cons)
  show ?case using Cons.IH[OF b(2)] b(3) freshMAC_fresh[OF b(1)] by auto
qed simp

lemma nodeCheck_OK:
  assumes "map_of templates (rq_Template v) = Some tp" "nodeCheck tp (nodeDefaults tp v) = None"
    and "assignAddress used nx (rq_IPv4 v) = Some (ip, used', nx')"
  shows "nodeOK templates v (pendingNode i ((nodeDefaults tp v)\<lparr>rq_IPv4 := ip\<rparr>) u mac created True)"
proof -
  have ip: "rq_IPv4 v \<noteq> [] \<longrightarrow> ip = rq_IPv4 v" using assms(3) by (auto simp: assignAddress_def split: if_splits)
  have c: "if m_Camera (rq_Media v) then rq_Camera v \<in> fst ` set (tp_Cameras tp) else rq_Camera v = []"
    using assms(2) by (simp add: nodeCheck_def map_of_eq_None_iff split: if_splits)
  show ?thesis unfolding nodeOK_def
    by (rule exI[of _ tp]) (use assms(1,2) ip c in \<open>simp add: nodeCheck_def split: if_splits\<close>)
qed

lemma buildNodes_OK:
  "buildNodes templates draw created k used nx macs vs = Some (Inr (ns, k')) \<Longrightarrow> list_all2 (nodeOK templates) vs ns"
proof (induction vs arbitrary: k used nx macs ns)
  case (Cons v vs)
  from Cons.prems show ?case
  proof (rule buildNodes_Cons)
    fix tp ip used' nx' m ms
    assume b: "map_of templates (rq_Template v) = Some tp" "nodeCheck tp (nodeDefaults tp v) = None"
      "assignAddress used nx (rq_IPv4 v) = Some (ip, used', nx')"
      and r: "buildNodes templates draw created (m + 3) used' nx' (macOf (draw m) # macs) vs = Some (Inr (ms, k'))"
      and ns: "ns = pendingNode (draw (Suc m)) ((nodeDefaults tp v)\<lparr>rq_IPv4 := ip\<rparr>) (UUID_of (draw (m + 2))) (macOf (draw m)) created True # ms"
    show ?thesis unfolding ns using nodeCheck_OK[OF b] Cons.IH[OF r] by simp
  qed
qed simp

lemma buildNodes_intent:
  "buildNodes templates draw created k used nx macs vs = Some (Inr (ns, k')) \<Longrightarrow> list_all (\<lambda>n. \<not> n_Intent n) ns"
proof (induction vs arbitrary: k used nx macs ns)
  case (Cons v vs)
  from Cons.prems show ?case by (rule buildNodes_Cons) (use Cons.IH in auto)
qed simp

text \<open>
  The loops end.  The addresses that may be tried are bounded by the number of nodes; the draws
  have to leave the hardware addresses in use at some point.
\<close>

definition drawsVary :: "(nat \<Rightarrow> string) \<Rightarrow> bool" where
  "drawsVary draw \<longleftrightarrow> (\<forall>macs k. length macs \<le> 65 \<longrightarrow> (\<exists>m\<ge>k. macOf (draw m) \<notin> set macs))"

lemma assignAddress_returns:
  assumes "unat a + length used < 2 ^ 32 - 1"
  shows "\<exists>ip used' b. assignAddress used (Some a) req = Some (ip, used', Some b) \<and> length used' \<le> Suc (length used) \<and>
    unat b \<le> unat a + length used + 1"
proof (cases "req = []")
  case True
  obtain n where n: "n \<le> length used" "allocate used (Some a) = Some (Some (a + of_nat n))"
    using allocate_returns[of a used] assms by auto
  have "optNext (Some (a + of_nat n)) = Some (a + of_nat (Suc n))"
    using Addr_Next_add[of a n] n(1) assms by (simp add: optNext_def)
  moreover have "unat (a + of_nat (Suc n)) = unat a + Suc n" using unat_add_nat[of a "Suc n"] n(1) assms by simp
  ultimately show ?thesis using True n by (simp add: assignAddress_def)
qed (simp add: assignAddress_def)

lemma buildNodes_returns:
  assumes "drawsVary draw"
  shows "unat a + length vs * (length used + length vs + 1) < 2 ^ 32 - 1 \<Longrightarrow> length macs + length vs \<le> 65 \<Longrightarrow>
    \<exists>r. buildNodes templates draw created k used (Some a) macs vs = Some r"
proof (induction vs arbitrary: k used a macs)
  case (Cons v vs)
  let ?U = "length used" and ?L = "length vs"
  have bound: "unat a + (?U + 1) + ?L * (?U + ?L + 2) < 2 ^ 32 - 1" using Cons.prems(1) by (simp add: algebra_simps)
  then have "unat a + ?U < 2 ^ 32 - 1" by simp
  then obtain ip used' b where asg: "assignAddress used (Some a) (rq_IPv4 v) = Some (ip, used', Some b)"
      "length used' \<le> Suc ?U" "unat b \<le> unat a + ?U + 1" using assignAddress_returns by blast
  have "length macs \<le> 65" using Cons.prems(2) by simp
  then obtain m' where "k \<le> m'" "macOf (draw m') \<notin> set macs" using assms unfolding drawsVary_def by blast
  then obtain m where m: "freshMAC draw macs k = Some m" using freshMAC_returns by blast
  have "?L * (length used' + ?L + 1) \<le> ?L * (?U + ?L + 2)" using asg(2) by (intro mult_le_mono2) simp
  then have "unat b + ?L * (length used' + ?L + 1) < 2 ^ 32 - 1" using asg(3) bound by linarith
  then obtain r where "buildNodes templates draw created (m + 3) used' (Some b) (macOf (draw m) # macs) vs = Some r"
    using Cons.IH Cons.prems(2) by (metis add_Suc_right add_Suc_shift length_Cons)
  then show ?case using asg m by (simp add: Let_def split: option.splits sum.splits prod.splits)
qed simp

lemma explicitAddresses_length: "explicitAddresses used ns = Some used' \<Longrightarrow> length used' \<le> length used + length ns"
  by (induction ns arbitrary: used) (fastforce split: if_splits)+

section \<open>Properties\<close>

lemma buildLab_Inr:
  assumes "buildLab v6 draw cfg ident created a = Some (Inr t)"
  obtains seconds reqs lan l used nodes k where
    "duration_of (cf_Tasks cfg) (lr_TimeoutSeconds a) = Inr seconds" "lr_Nodes a = Some reqs" "length reqs \<le> 64"
    "l = labFrame (cf_VirtualBox cfg) a (lanText cfg a) (draw 1 @ draw 2)"
    "buildNodes (vb_Templates (cf_VirtualBox cfg)) draw created 3 used
       (firstAddress lan) [macOf ident] reqs = Some (Inr (nodes, k))"
    "finishLab draw ident created seconds (cf_VirtualBox cfg) (lan = None) l nodes k = Inr t"
  using assms unfolding buildLab_def Let_def
  by (simp add: not_less split: sum.splits option.splits if_splits prod.splits)

lemma buildLab_None:
  assumes "buildLab v6 draw cfg ident created a = None"
  obtains reqs lan used where
    "lr_Nodes a = Some reqs" "length reqs \<le> 64" "parseLAN v6 (lanText cfg a) = Some lan" "explicitAddresses [] reqs = Some used"
    "buildNodes (vb_Templates (cf_VirtualBox cfg)) draw created 3 used (firstAddress lan) [macOf ident] reqs = None"
  using assms unfolding buildLab_def Let_def
  by (simp add: not_less split: sum.splits option.splits if_splits prod.splits)

text \<open>
  C19. A lab that \<^verbatim>\<open>buildLab\<close> accepts is well formed: it is queued and unstarted with a duration within
  the configured bounds; the router policy derived from the stored lab is one \<^verbatim>\<open>Policy.Validate\<close> accepts (so
  its addresses are sound); every node has the requested name, the requested address if there was one,
  and resources within its template; the hardware addresses are distinct, also from the router's.
\<close>
theorem built_lab_well_formed:
  assumes "buildLab v6 draw cfg ident created a = Some (Inr t)"
  shows "\<exists>l reqs router. t_domain t = DLab l \<and> lr_Nodes a = Some reqs \<and> lb_Router l = Some router \<and>
    t_ID t = ident \<and> t_Kind t = ''lab'' \<and> t_State t = ''queued'' \<and> t_Cleanup t = ''pending'' \<and> t_Started t = None \<and>
    1 \<le> t_TimeoutSeconds t \<and> t_TimeoutSeconds t \<le> Duration_Seconds (tk_MaxDuration (cf_Tasks cfg)) \<and>
    Policy_Validate (taskPolicy t l (nw_WAN (vb_Network (cf_VirtualBox cfg))) (nw_LeaseSeconds (vb_Network (cf_VirtualBox cfg))) []) = None \<and>
    list_all2 (nodeOK (vb_Templates (cf_VirtualBox cfg))) reqs (lb_Nodes l) \<and>
    distinct (n_MAC router # map n_MAC (lb_Nodes l)) \<and> list_all (\<lambda>n. \<not> n_Intent n) (lb_Nodes l)"
proof -
  from assms obtain seconds reqs lan l used nodes k where
    b: "duration_of (cf_Tasks cfg) (lr_TimeoutSeconds a) = Inr seconds" "lr_Nodes a = Some reqs"
      "l = labFrame (cf_VirtualBox cfg) a (lanText cfg a) (draw 1 @ draw 2)"
    and n: "buildNodes (vb_Templates (cf_VirtualBox cfg)) draw created 3 used
       (firstAddress lan) [macOf ident] reqs = Some (Inr (nodes, k))"
    and f: "finishLab draw ident created seconds (cf_VirtualBox cfg) (lan = None) l nodes k = Inr t"
    by (rule buildLab_Inr)
  let ?r = "pendingNode (draw k) routerRequest (UUID_of (draw (Suc k))) (macOf ident) created False"
  have t: "t = (newTask ident created ''lab'' seconds)\<lparr>t_domain := DLab (l\<lparr>lb_Nodes := nodes, lb_Router := Some ?r\<rparr>)\<rparr>"
    and v: "Policy_Validate (requestPolicy (cf_VirtualBox cfg) l nodes) = None"
    using f by (auto simp: finishLab_def split: if_splits option.splits)
  have e: "lb_Endpoints l = []" by (simp add: b(3) labFrame_def emptyLab_def)
  have "taskPolicy t (l\<lparr>lb_Nodes := nodes, lb_Router := Some ?r\<rparr>) (nw_WAN (vb_Network (cf_VirtualBox cfg)))
      (nw_LeaseSeconds (vb_Network (cf_VirtualBox cfg))) [] = requestPolicy (cf_VirtualBox cfg) l nodes"
    by (simp add: taskPolicy_def requestPolicy_def e)
  moreover have "1 \<le> seconds" "seconds \<le> Duration_Seconds (tk_MaxDuration (cf_Tasks cfg))"
    using b(1) by (auto simp: duration_of_def Let_def split: if_splits)
  moreover have "list_all (\<lambda>n. \<not> n_Intent n) nodes" using buildNodes_intent[OF n] .
  ultimately show ?thesis using b(2) v buildNodes_OK[OF n] buildNodes_MACs[OF n]
    by (intro exI[of _ "l\<lparr>lb_Nodes := nodes, lb_Router := Some ?r\<rparr>"] exI[of _ reqs] exI[of _ ?r]) (simp add: t newTask_def)
qed



definition sampleTemplate :: Template where
  "sampleTemplate = \<lparr>tp_Kind = ''linux'', tp_VM = ''vm'', tp_Snapshot = ''s'', tp_Username = ''u'', tp_Password = ''p'', tp_Domain = [],
     tp_Supervisor = ''/s'', tp_WorkDir = ''/w'', tp_StartupEnv = [], tp_InputInterval = None, tp_CPUs = 2, tp_MemoryMiB = 2048,
     tp_MaxCPUs = 4, tp_MaxMemoryMiB = 4096,
     tp_Media = \<lparr>m_Camera = False, m_AudioInput = False, m_AudioOutput = False, m_Accelerate3D = False\<rparr>, tp_Cameras = []\<rparr>"

definition sampleConfig :: Config where
  "sampleConfig = Defaults\<lparr>cf_VirtualBox := defaultVirtualBox\<lparr>vb_RouterISO := ''/r.iso'', vb_Templates := [(''t'', sampleTemplate)]\<rparr>\<rparr>"

definition sampleRequest :: "string \<Rightarrow> NodeRequest" where
  "sampleRequest name = \<lparr>rq_Name = name, rq_Template = ''t'', rq_IPv4 = [], rq_CPUs = 0, rq_MemoryMiB = 0, rq_GUI = False,
     rq_Media = \<lparr>m_Camera = False, m_AudioInput = False, m_AudioOutput = False, m_Accelerate3D = False\<rparr>, rq_Camera = []\<rparr>"

definition sampleLab :: "string \<Rightarrow> NodeRequest list \<Rightarrow> LabRequest" where
  "sampleLab lan nodes = \<lparr>lr_UploadIDs = [], lr_RequestID = [], lr_Nodes = Some nodes, lr_LAN = lan, lr_DHCP = None, lr_DNS = None,
     lr_Internet = None, lr_TimeoutSeconds = 0\<rparr>"

text \<open>
  C32. On the LAN \<^verbatim>\<open>255.255.255.254/31\<close>, which is parsed before it is validated, two nodes without an
  address send \<^verbatim>\<open>buildLab\<close> into an endless loop while it holds the controller's mutex: the first
  takes the text of the invalid address, which is its own successor.
\<close>
theorem buildLab_diverges:
  "buildLab v6 draw sampleConfig ident created (sampleLab ''255.255.255.254/31'' [sampleRequest ''a'', sampleRequest ''b'']) = None"
proof -
  let ?a = "sampleLab ''255.255.255.254/31'' [sampleRequest ''a'', sampleRequest ''b'']"
  have lan: "parseLAN v6 (lanText sampleConfig ?a) = Some (Some \<lparr>px_addr = 0xFFFFFFFE, px_bits = 31\<rparr>)"
    by (simp add: lanText_def sampleLab_def parseLAN_def parse_simps)
  have first: "firstAddress (Some \<lparr>px_addr = 0xFFFFFFFE, px_bits = 31\<rparr>) = None"
    by (simp add: firstAddress_def optNext_def Addr_Next_def)
  have a1: "assignAddress [] None [] = Some (''invalid IP'', [''invalid IP''], None)"
    by (simp add: assignAddress_def allocate_stop optString_def optNext_def)
  have a2: "assignAddress [''invalid IP''] None [] = None" by (simp add: assignAddress_def allocate_stuck)
  have req: "map_of (vb_Templates (cf_VirtualBox sampleConfig)) (rq_Template (sampleRequest n)) = Some sampleTemplate"
     "nodeCheck sampleTemplate (nodeDefaults sampleTemplate (sampleRequest n)) = None" "rq_IPv4 (sampleRequest n) = []" for n
    by (simp_all add: sampleConfig_def sampleRequest_def nodeCheck_def nodeDefaults_def sampleTemplate_def Media_Allows_def)
  have "buildNodes (vb_Templates (cf_VirtualBox sampleConfig)) draw created k [''invalid IP''] None macs [sampleRequest ''b''] = None" for k macs
    by (simp add: req a2)
  then have nodes: "buildNodes (vb_Templates (cf_VirtualBox sampleConfig)) draw created 3 [] None [macOf ident] [sampleRequest ''a'', sampleRequest ''b''] = None"
    by (subst buildNodes.simps) (simp add: req a1 Let_def split: option.splits)
  have "duration_of (cf_Tasks sampleConfig) (lr_TimeoutSeconds ?a) \<noteq> Inl e" for e
    by (simp add: duration_of_def sampleConfig_def Defaults_def sampleLab_def Duration_Seconds_def time_defs)
  then obtain seconds where "duration_of (cf_Tasks sampleConfig) (lr_TimeoutSeconds ?a) = Inr seconds" by (metis sum.exhaust)
  moreover have "lr_Nodes ?a = Some [sampleRequest ''a'', sampleRequest ''b'']" by (simp add: sampleLab_def)
  moreover have "vb_RouterISO (cf_VirtualBox sampleConfig) \<noteq> []" by (simp add: sampleConfig_def)
  ultimately show ?thesis unfolding buildLab_def by (simp add: lan first nodes req(3) del: buildNodes.simps)
qed

section \<open>Witnesses\<close>

definition sampleDraw :: "nat \<Rightarrow> string" where
  "sampleDraw n = replicate 6 (char_of (n mod 128))"

lemma macOf_replicate: "macOf (replicate 6 c) = ''08:00:27:'' @ [c, c, CHR '':'', c, c, CHR '':'', c, c]"
  by (simp add: macOf_def numeral_eq_Suc)

lemma macOf_sampleDraw: "i < 128 \<Longrightarrow> j < 128 \<Longrightarrow> macOf (sampleDraw i) = macOf (sampleDraw j) \<Longrightarrow> i = j"
proof -
  assume ij: "i < 128" "j < 128" and "macOf (sampleDraw i) = macOf (sampleDraw j)"
  then have "char_of (i mod 128) = (char_of (j mod 128) :: char)" unfolding sampleDraw_def macOf_replicate by blast
  then have "(of_char (char_of (i mod 128) :: char) :: nat) = of_char (char_of (j mod 128) :: char)" by (rule arg_cong)
  then show "i = j" using ij unfolding of_char_of by simp
qed

lemma sampleDraw_varies: "drawsVary sampleDraw"
  unfolding drawsVary_def
proof (intro allI impI, rule ccontr)
  fix macs :: "string list" and k :: nat
  assume l: "length macs \<le> 65" and n: "\<not> (\<exists>m\<ge>k. macOf (sampleDraw m) \<notin> set macs)"
  let ?f = "\<lambda>i. macOf (sampleDraw i)"
  have p: "?f (128 * k + i) = ?f i" for i by (simp add: sampleDraw_def)
  have "?f i \<in> set macs" if "i < 128" for i using n p[of i] by (metis le_add1 mult_le_cancel2 mult_1 one_le_numeral order_trans)
  then have "?f ` {..<128} \<subseteq> set macs" by auto
  moreover have "inj_on ?f {..<128}" by (rule inj_onI) (auto intro: macOf_sampleDraw)
  ultimately have "card {..<128::nat} \<le> card (set macs)" by (metis List.finite_set card_image card_mono)
  then show False using l card_length[of macs] by simp
qed


definition sampleAddressed :: NodeRequest where
  "sampleAddressed = (sampleRequest ''a'')\<lparr>rq_IPv4 := ''10.1.0.2''\<rparr>"

abbreviation sampleBuild :: "Task res option" where
  "sampleBuild \<equiv> buildLab (\<lambda>_. False) (\<lambda>_. ''0a0b0c'') sampleConfig ''000000'' 5 (sampleLab ''10.1.0.0/24'' [sampleAddressed])"

lemma sampleBuild_accepts: "\<exists>t. sampleBuild = Some (Inr t)"
proof -
  let ?a = "sampleLab ''10.1.0.0/24'' [sampleAddressed]" and ?d = "\<lambda>_::nat. ''0a0b0c''"
  let ?n = "pendingNode ''0a0b0c'' ((nodeDefaults sampleTemplate sampleAddressed)\<lparr>rq_IPv4 := ''10.1.0.2''\<rparr>) (UUID_of ''0a0b0c'') (macOf ''0a0b0c'') 5 True"
  have lan: "parseLAN (\<lambda>_. False) (lanText sampleConfig ?a) = Some (Some \<lparr>px_addr = 0x0A010000, px_bits = 24\<rparr>)"
    by (simp add: lanText_def sampleLab_def parseLAN_def parse_simps)
  have req: "map_of (vb_Templates (cf_VirtualBox sampleConfig)) (rq_Template sampleAddressed) = Some sampleTemplate"
     "nodeCheck sampleTemplate (nodeDefaults sampleTemplate sampleAddressed) = None" "rq_IPv4 sampleAddressed = ''10.1.0.2''"
    by (simp_all add: sampleConfig_def sampleAddressed_def sampleRequest_def nodeCheck_def nodeDefaults_def sampleTemplate_def Media_Allows_def)
  have m: "freshMAC ?d [macOf ''000000''] 3 = Some 3" by (simp add: freshMAC.simps macOf_def)
  have nodes: "buildNodes (vb_Templates (cf_VirtualBox sampleConfig)) ?d 5 3 [''10.1.0.2''] nx [macOf ''000000''] [sampleAddressed] = Some (Inr ([?n], 6))" for nx
    by (simp add: req m assignAddress_def)
  have dns: "Public 0x09090909" unfolding Public_iff by simp
  have val: "Policy_Validate (requestPolicy (cf_VirtualBox sampleConfig) (labFrame (cf_VirtualBox sampleConfig) ?a (lanText sampleConfig ?a) (?d 1 @ ?d 2)) [?n]) = None"
    by (simp add: requestPolicy_def labFrame_def lanText_def sampleLab_def sampleConfig_def defaultVirtualBox_def nodeLease_def sampleAddressed_def
      sampleRequest_def macOf_def sample_eval dns)
  have dur: "duration_of (cf_Tasks sampleConfig) (lr_TimeoutSeconds ?a) \<noteq> Inl e" for e
    by (simp add: duration_of_def sampleConfig_def Defaults_def sampleLab_def Duration_Seconds_def time_defs)
  then obtain seconds where "duration_of (cf_Tasks sampleConfig) (lr_TimeoutSeconds ?a) = Inr seconds" by (metis sum.exhaust)
  moreover have "lr_Nodes ?a = Some [sampleAddressed]" by (simp add: sampleLab_def)
  moreover have "vb_RouterISO (cf_VirtualBox sampleConfig) \<noteq> []" by (simp add: sampleConfig_def)
  ultimately show ?thesis unfolding buildLab_def by (simp add: lan nodes req(3) finishLab_def val[simplified] del: buildNodes.simps)
qed

theorem built_lab_well_formed_witness:
  "\<exists>t l. sampleBuild = Some (Inr t) \<and> t_domain t = DLab l \<and> length (lb_Nodes l) = 1"
proof -
  obtain t where t: "sampleBuild = Some (Inr t)" using sampleBuild_accepts by blast
  from built_lab_well_formed[OF t] t show ?thesis by (auto simp: sampleLab_def dest: list_all2_lengthD)
qed

end
