(* ===== verification/Dispatch.thy ===== *)
theory Dispatch
  imports Server
begin

text \<open>
  Idempotent requests (\<^verbatim>\<open>accept\<close>, \<^verbatim>\<open>requestOperation\<close> and \<^verbatim>\<open>dispatchOperation\<close> of \<^verbatim>\<open>api.go\<close>, \<^verbatim>\<open>dispatch.go\<close>, the
  operation records of \<^verbatim>\<open>repository.go\<close> and \<^verbatim>\<open>revision.go\<close>, the loading of pending operations in \<^verbatim>\<open>New\<close>): a mutating
  request is stored with its identifier before it runs, and a restart continues only requests that
  were not dispatched before.
\<close>

section \<open>Operations and their rows\<close>

record BodyRef =
  br_File :: string
  br_Size :: int
  br_SHA256 :: string

definition noBody :: BodyRef where "noBody = \<lparr>br_File = [], br_Size = 0, br_SHA256 = []\<rparr>"

record Operation =
  op_IntentStage :: string
  op_Intent :: BodyRef
  op_Payload :: BodyRef
  op_TargetID :: string
  op_Version :: VersionState
  op_Ended :: "gotime option"
  op_WorkerInstance :: string
  op_ID :: string
  op_RequestID :: string
  op_Tool :: string
  op_Hash :: string
  op_State :: string
  op_Created :: gotime
  op_TaskID :: string
  op_Result :: gval
  op_Error :: "werror option"

text \<open>The hash of a record's condition (\<^verbatim>\<open>sha256\<close> over its JSON form) is the parameter \<open>digest\<close>.\<close>

definition advance :: "string \<Rightarrow> VersionState \<Rightarrow> VersionState" where
  "advance digest v =
    (if vs_StateDigest v \<noteq> digest then v\<lparr>vs_Revision := vs_Revision v + 1, vs_StateDigest := digest\<rparr> else v)"

definition Operation_PrepareSave :: "(string \<times> werror option \<Rightarrow> string) \<Rightarrow> gotime \<Rightarrow> Operation \<Rightarrow> Operation" where
  "Operation_PrepareSave hash now o0 =
    (let o1 = (if op_State o0 = ''uncertain'' then o0\<lparr>op_IntentStage := ''unknown''\<rparr> else o0);
         o2 = (if op_State o1 \<noteq> ''pending'' \<and> op_Ended o1 = None then o1\<lparr>op_Ended := Some now\<rparr> else o1)
     in o2\<lparr>op_Version := advance (hash (op_State o2, op_Error o2)) (op_Version o2)\<rparr>)"

text \<open>
  A row of the table \<^verbatim>\<open>operations\<close>.  \<^verbatim>\<open>request_id\<close> is a unique column of its own, which an update of the row
  leaves alone.
\<close>

record OpRow =
  row_RequestID :: string
  row_Op :: Operation

definition rowFor :: "string \<Rightarrow> OpRow list \<Rightarrow> OpRow option" where
  "rowFor ident db = List.find (\<lambda>r. op_ID (row_Op r) = ident) db"

definition Operation_store :: "Operation \<Rightarrow> OpRow list \<Rightarrow> OpRow list option" where
  "Operation_store o0 db =
    (if rowFor (op_ID o0) db \<noteq> None
     then Some (map (\<lambda>r. if op_ID (row_Op r) = op_ID o0 then r\<lparr>row_Op := o0\<rparr> else r) db)
     else if list_ex (\<lambda>r. row_RequestID r = op_RequestID o0) db then None
     else Some (db @ [\<lparr>row_RequestID = op_RequestID o0, row_Op = o0\<rparr>]))"

text \<open>
  The outcome of a transaction: it commits; it fails without effect; it commits but an error is reported.
\<close>

datatype txOutcome = Committed | Failed goerr | Lost goerr

text \<open>\<^verbatim>\<open>repository.Save\<close> of one operation: the new table and the error.\<close>

definition saveOperation :: "txOutcome \<Rightarrow> Operation \<Rightarrow> OpRow list \<Rightarrow> OpRow list \<times> goerr option" where
  "saveOperation out o0 db =
    (case Operation_store o0 db of
       None \<Rightarrow> (db, Some (EText ''UNIQUE constraint failed: operations.request_id''))
     | Some db' \<Rightarrow> (case out of Committed \<Rightarrow> (db', None) | Failed e \<Rightarrow> (db, Some e) | Lost e \<Rightarrow> (db', Some e)))"

section \<open>The controller's part\<close>

text \<open>
  \<open>ds_requests\<close> are the operations in the map \<^verbatim>\<open>s.requests\<close>, \<open>ds_pending\<close> the operations to resume.
\<close>

record DState =
  ds_db :: "OpRow list"
  ds_requests :: "Operation list"
  ds_pending :: "string list"
  ds_closed :: bool

definition requestOperation :: "bool \<Rightarrow> string \<Rightarrow> DState \<Rightarrow> Operation option" where
  "requestOperation readable request s =
    (case List.find (\<lambda>o0. op_RequestID o0 = request) (ds_requests s) of
       Some o0 \<Rightarrow> Some o0
     | None \<Rightarrow> if \<not> readable then None
               else map_option row_Op (List.find (\<lambda>r. row_RequestID r = request) (ds_db s)))"

definition updRequest :: "string \<Rightarrow> (Operation \<Rightarrow> Operation) \<Rightarrow> DState \<Rightarrow> DState" where
  "updRequest ident f s = s\<lparr>ds_requests := map (\<lambda>o0. if op_ID o0 = ident then f o0 else o0) (ds_requests s)\<rparr>"

definition requestChar :: "char \<Rightarrow> bool" where
  "requestChar c \<longleftrightarrow> lowerAlpha c \<or> c \<in> set ''ABCDEFGHIJKLMNOPQRSTUVWXYZ'' \<or> decimalDigit c"

definition requestPattern :: "string \<Rightarrow> bool" where
  "requestPattern r \<longleftrightarrow> (case r of [] \<Rightarrow> False | c # cs \<Rightarrow> requestChar c \<and> length cs \<le> 127 \<and>
     list_all (\<lambda>x. requestChar x \<or> x \<in> {CHR ''_'', CHR ''.'', CHR '':'', CHR ''-''}) cs)"

text \<open>
  What a request brings to the critical section: its name, identifier and hash; the drawn identifier and
  the time; whether the lookup in the database succeeds; the reply of the worker probe (for \<^verbatim>\<open>nix_job_create\<close>); the
  first error of resolving, admitting and building, the target of the operation, the identifier of
  the execution it creates, if any; the stored bodies; the outcome of the transaction.
\<close>

record AcceptInput =
  ai_Name :: string
  ai_Request :: string
  ai_Hash :: string
  ai_ID :: string
  ai_Now :: gotime
  ai_Readable :: bool
  ai_Reason :: string
  ai_ProbeFailed :: bool
  ai_Prepared :: "goerr option"
  ai_TaskID :: string
  ai_TargetID :: string
  ai_Execution :: bool
  ai_Intent :: BodyRef
  ai_Payload :: BodyRef
  ai_WorkerInstance :: string
  ai_Tx :: txOutcome

definition conflictError :: goerr where
  "conflictError = Fail ''request_conflict'' ''request_id was already used with different parameters''"

definition stoppingError :: goerr where
  "stoppingError = Fail ''unavailable'' ''Service is stopping''"

definition replay :: "AcceptInput \<Rightarrow> Operation \<Rightarrow> Operation res" where
  "replay a o0 = (if op_Hash o0 \<noteq> ai_Hash a then Inl conflictError else Inr o0)"

text \<open>The new operation, as \<^verbatim>\<open>Admit\<close> stores it.\<close>

definition newOperation :: "AcceptInput \<Rightarrow> Operation" where
  "newOperation a =
    \<lparr>op_IntentStage = (if ai_Execution a then ''confirmed'' else ''prepared''),
     op_Intent = (if ai_Execution a then noBody else ai_Intent a), op_Payload = ai_Payload a, op_TargetID = ai_TargetID a,
     op_Version = \<lparr>vs_Revision = 0, vs_StateDigest = []\<rparr>, op_Ended = None, op_WorkerInstance = ai_WorkerInstance a,
     op_ID = ai_ID a, op_RequestID = ai_Request a, op_Tool = ai_Name a, op_Hash = ai_Hash a,
     op_State = (if ai_Execution a then ''succeeded'' else ''pending''), op_Created = ai_Now a, op_TaskID = ai_TaskID a,
     op_Result = (if ai_Execution a then GMap [(''id'', GStr (ai_TaskID a))] else GNil), op_Error = None\<rparr>"

text \<open>The end of \<^verbatim>\<open>accept\<close>: the transaction, and the goroutine that is started (the third result).\<close>

definition admitOperation ::
  "(string \<times> werror option \<Rightarrow> string) \<Rightarrow> AcceptInput \<Rightarrow> DState \<Rightarrow> Operation res \<times> DState \<times> bool" where
  "admitOperation hash a s =
    (let o0 = Operation_PrepareSave hash (ai_Now a) (newOperation a);
         (db, err) = saveOperation (ai_Tx a) o0 (ds_db s)
     in (case err of
           Some e \<Rightarrow> (Inl e, s\<lparr>ds_db := db\<rparr>, False)
         | None \<Rightarrow> if ai_Execution a then (Inr o0, s\<lparr>ds_db := db\<rparr>, False)
                   else (Inr o0, s\<lparr>ds_db := db, ds_requests := ds_requests s @ [o0]\<rparr>, True)))"

definition workerMissing :: "AcceptInput \<Rightarrow> bool" where
  "workerMissing a \<longleftrightarrow> ai_Reason a = ''nix_disabled'' \<or> ai_Reason a = ''worker_unavailable'' \<or> (ai_ProbeFailed a \<and> ai_Reason a = [])"

text \<open>
  The section of \<^verbatim>\<open>accept\<close> that decides.  For \<^verbatim>\<open>nix_job_create\<close> it is the one after the probe, which
  repeats the lookup; the section before the probe changes nothing.
\<close>

definition acceptOperation ::
  "(string \<times> werror option \<Rightarrow> string) \<Rightarrow> AcceptInput \<Rightarrow> DState \<Rightarrow> Operation res \<times> DState \<times> bool" where
  "acceptOperation hash a s =
    (if \<not> requestPattern (ai_Request a)
     then (Inl (Fail ''invalid_argument'' ''request_id must contain 1..128 identifier characters''), s, False)
     else if ai_Name a \<noteq> ''nix_job_create'' \<and> ds_closed s then (Inl stoppingError, s, False)
     else (case requestOperation (ai_Readable a) (ai_Request a) s of
        Some o0 \<Rightarrow> (replay a o0, s, False)
      | None \<Rightarrow>
        if ai_Name a = ''nix_job_create'' \<and> workerMissing a
        then (Inl (Fail ''worker_unavailable'' ''Start the configured Nix worker and retry this request''), s, False)
        else if ds_closed s then (Inl stoppingError, s, False)
        else (case ai_Prepared a of
           Some e \<Rightarrow> (Inl e, s, False)
         | None \<Rightarrow> admitOperation hash a s)))"

section \<open>The goroutine of an operation\<close>

text \<open>The first section: the stage is stored before anything runs.  The result tells whether it runs.\<close>

definition dispatchBegin ::
  "(string \<times> werror option \<Rightarrow> string) \<Rightarrow> gotime \<Rightarrow> txOutcome \<Rightarrow> Operation \<Rightarrow> DState \<Rightarrow> Operation \<times> DState \<times> bool" where
  "dispatchBegin hash now out o0 s =
    (let o1 = Operation_PrepareSave hash now (o0\<lparr>op_IntentStage := ''dispatched''\<rparr>);
         (db, err) = saveOperation out o1 (ds_db s)
     in (o1, updRequest (op_ID o0) (\<lambda>_. o1) (s\<lparr>ds_db := db\<rparr>), err = None))"

text \<open>
  The second section: the outcome \<open>err\<close> of \<^verbatim>\<open>mutate\<close> (or of the failed save) with its compact result; \<open>unsure\<close>
  tells whether \<^verbatim>\<open>node_exec\<close> reported an uncertain state.
\<close>

definition uncertainCode :: "string \<Rightarrow> werror \<Rightarrow> bool" where
  "uncertainCode name e \<longleftrightarrow> oneOf name [''node_input'', ''node_control'', ''command_start'', ''command_cancel''] \<and>
     oneOf (Code e) [''backend_error'', ''backend_timeout'', ''backend_cancelled'']"

definition finalOperation :: "gval \<Rightarrow> goerr option \<Rightarrow> bool \<Rightarrow> Operation \<Rightarrow> Operation" where
  "finalOperation result err unsure o0 =
    (let o1 = o0\<lparr>op_State := ''succeeded'', op_IntentStage := ''confirmed'', op_Intent := noBody, op_Payload := noBody, op_Result := result\<rparr>
     in (case err of
           None \<Rightarrow> if op_Tool o1 = ''node_exec'' \<and> unsure then o1\<lparr>op_State := ''uncertain''\<rparr> else o1
         | Some e \<Rightarrow> o1\<lparr>op_State := (if uncertainCode (op_Tool o1) (Safe e) then ''uncertain'' else ''failed''), op_Error := Some (Safe e)\<rparr>))"

definition dispatchEnd ::
  "(string \<times> werror option \<Rightarrow> string) \<Rightarrow> gotime \<Rightarrow> txOutcome \<Rightarrow> gval \<Rightarrow> goerr option \<Rightarrow> bool \<Rightarrow> Operation \<Rightarrow> DState \<Rightarrow> DState" where
  "dispatchEnd hash now out result err unsure o0 s =
    (let o1 = Operation_PrepareSave hash now (finalOperation result err unsure o0);
         (db, e) = saveOperation out o1 (ds_db s)
     in s\<lparr>ds_db := db, ds_requests := filter (\<lambda>x. op_RequestID x \<noteq> op_RequestID o1) (ds_requests s), ds_closed := ds_closed s \<or> e \<noteq> None\<rparr>)"

section \<open>Restart\<close>

text \<open>
  \<^verbatim>\<open>New\<close> reads the operations in state pending.  A prepared one is resumed; any other one may have run and
  becomes uncertain.
\<close>

definition interruptedOperation :: "Operation \<Rightarrow> Operation" where
  "interruptedOperation o0 = o0\<lparr>op_State := ''uncertain'',
     op_Error := Some (simpleError ''interrupted'' ''Service stopped before confirming this operation'')\<rparr>"

definition loadOperation :: "(string \<times> werror option \<Rightarrow> string) \<Rightarrow> gotime \<Rightarrow> Operation \<Rightarrow> DState \<Rightarrow> DState" where
  "loadOperation hash now o0 s =
    (if op_IntentStage o0 = ''prepared''
     then s\<lparr>ds_requests := ds_requests s @ [o0], ds_pending := ds_pending s @ [op_ID o0]\<rparr>
     else let o1 = Operation_PrepareSave hash now (interruptedOperation o0) in
          s\<lparr>ds_requests := ds_requests s @ [o1], ds_db := fst (saveOperation Committed o1 (ds_db s))\<rparr>)"

definition restartOperations :: "(string \<times> werror option \<Rightarrow> string) \<Rightarrow> gotime \<Rightarrow> OpRow list \<Rightarrow> DState" where
  "restartOperations hash now db =
    fold (loadOperation hash now) (filter (\<lambda>o0. op_State o0 = ''pending'') (map row_Op db))
      \<lparr>ds_db = db, ds_requests = [], ds_pending = [], ds_closed = False\<rparr>"

text \<open>
  One turn of \<^verbatim>\<open>resumeDispatches\<close>; \<open>usable\<close> tells whether the stored arguments could be decoded and resolved.  The
  result tells whether a goroutine starts.
\<close>

definition unavailableOperation :: "Operation \<Rightarrow> Operation" where
  "unavailableOperation o0 = o0\<lparr>op_State := ''failed'', op_IntentStage := ''confirmed'', op_Intent := noBody, op_Payload := noBody,
     op_Error := Some (Safe (Fail ''target_unavailable'' ''Prepared operation target is unavailable after recovery''))\<rparr>"

definition resumeDispatch ::
  "(string \<times> werror option \<Rightarrow> string) \<Rightarrow> gotime \<Rightarrow> txOutcome \<Rightarrow> bool \<Rightarrow> Operation \<Rightarrow> DState \<Rightarrow> DState \<times> bool" where
  "resumeDispatch hash now out usable o0 s =
    (if usable then (s, True)
     else let o1 = Operation_PrepareSave hash now (unavailableOperation o0);
              (db, e) = saveOperation out o1 (ds_db s)
          in (updRequest (op_ID o0) (\<lambda>_. o1) (s\<lparr>ds_db := db, ds_closed := ds_closed s \<or> e \<noteq> None\<rparr>), False))"

text \<open>Retention drops rows that are not pending.\<close>

definition expireOperations :: "(Operation \<Rightarrow> bool) \<Rightarrow> DState \<Rightarrow> DState" where
  "expireOperations old s = s\<lparr>ds_db := filter (\<lambda>r. op_State (row_Op r) = ''pending'' \<or> \<not> old (row_Op r)) (ds_db s)\<rparr>"

section \<open>The concurrent system\<close>

text \<open>
  The goroutine of an operation is about to store the dispatch, about to run it, or about to store the
  result.  \<open>x_ran\<close> counts how often \<^verbatim>\<open>mutate\<close> was entered for an operation.
\<close>

datatype tpc = TStart | TRun | TEnd

record DSys =
  x_st :: DState
  x_thr :: "string \<Rightarrow> (tpc \<times> Operation) option"
  x_ran :: "string \<Rightarrow> nat"

definition rowIDs :: "OpRow list \<Rightarrow> string list" where
  "rowIDs db = map (\<lambda>r. op_ID (row_Op r)) db"

definition freshOperation :: "DSys \<Rightarrow> string \<Rightarrow> bool" where
  "freshOperation x i \<longleftrightarrow> i \<notin> set (rowIDs (ds_db (x_st x))) \<and> i \<notin> op_ID ` set (ds_requests (x_st x)) \<and>
     x_thr x i = None \<and> x_ran x i = 0 \<and> i \<notin> set (ds_pending (x_st x))"

inductive dispatchStep :: "(string \<times> werror option \<Rightarrow> string) \<Rightarrow> DSys \<Rightarrow> DSys \<Rightarrow> bool" for hash where
  accept: "\<lbrakk>freshOperation x (ai_ID a); acceptOperation hash a (x_st x) = (r, s', spawn)\<rbrakk> \<Longrightarrow>
     dispatchStep hash x (x\<lparr>x_st := s', x_thr := (if spawn
       then (x_thr x)(ai_ID a := Some (TStart, Operation_PrepareSave hash (ai_Now a) (newOperation a))) else x_thr x)\<rparr>)"
| begin_run: "\<lbrakk>x_thr x i = Some (TStart, o0); dispatchBegin hash now out o0 (x_st x) = (o1, s', run)\<rbrakk> \<Longrightarrow>
     dispatchStep hash x (x\<lparr>x_st := s', x_thr := (x_thr x)(i := Some (if run then TRun else TEnd, o1))\<rparr>)"
| mutate: "x_thr x i = Some (TRun, o0) \<Longrightarrow>
     dispatchStep hash x (x\<lparr>x_ran := (x_ran x)(i := Suc (x_ran x i)), x_thr := (x_thr x)(i := Some (TEnd, o0))\<rparr>)"
| finish: "x_thr x i = Some (TEnd, o0) \<Longrightarrow>
     dispatchStep hash x (x\<lparr>x_st := dispatchEnd hash now out result err unsure o0 (x_st x), x_thr := (x_thr x)(i := None)\<rparr>)"
| restart: "dispatchStep hash x (x\<lparr>x_st := restartOperations hash now (ds_db (x_st x)), x_thr := (\<lambda>_. None)\<rparr>)"
| resume: "\<lbrakk>ds_pending (x_st x) = i # rest; List.find (\<lambda>o0. op_ID o0 = i) (ds_requests (x_st x)) = Some o0;
     resumeDispatch hash now out usable o0 (x_st x) = (s', spawn)\<rbrakk> \<Longrightarrow>
     dispatchStep hash x (x\<lparr>x_st := s'\<lparr>ds_pending := rest\<rparr>, x_thr := (if spawn then (x_thr x)(i := Some (TStart, o0)) else x_thr x)\<rparr>)"
| expire: "dispatchStep hash x (x\<lparr>x_st := expireOperations old (x_st x)\<rparr>)"

definition dispatchStart :: "DSys \<Rightarrow> bool" where
  "dispatchStart x \<longleftrightarrow> x = \<lparr>x_st = \<lparr>ds_db = [], ds_requests = [], ds_pending = [], ds_closed = False\<rparr>, x_thr = (\<lambda>_. None), x_ran = (\<lambda>_. 0)\<rparr>"

section \<open>The invariant\<close>

definition notPrepared :: "OpRow list \<Rightarrow> string \<Rightarrow> bool" where
  "notPrepared db i \<longleftrightarrow> (\<forall>r\<in>set db. op_ID (row_Op r) = i \<longrightarrow> op_IntentStage (row_Op r) \<noteq> ''prepared'')"

definition tableOK :: "OpRow list \<Rightarrow> bool" where
  "tableOK db \<longleftrightarrow> distinct (rowIDs db) \<and> distinct (map row_RequestID db)"

definition runOK :: "OpRow list \<Rightarrow> string set \<Rightarrow> (tpc \<times> Operation) option \<Rightarrow> nat \<Rightarrow> string \<Rightarrow> bool" where
  "runOK db pending th n i \<longleftrightarrow>
    (case th of
       None \<Rightarrow> n \<le> 1 \<and> (n = 1 \<longrightarrow> notPrepared db i \<and> i \<notin> pending)
     | Some (pc, o0) \<Rightarrow> op_ID o0 = i \<and> i \<notin> pending \<and>
        (case pc of TStart \<Rightarrow> n = 0 | TRun \<Rightarrow> n = 0 \<and> notPrepared db i | TEnd \<Rightarrow> n \<le> 1 \<and> (n = 1 \<longrightarrow> notPrepared db i)))"

definition dispatchInv :: "DSys \<Rightarrow> bool" where
  "dispatchInv x \<longleftrightarrow> tableOK (ds_db (x_st x)) \<and> distinct (ds_pending (x_st x)) \<and>
     (\<forall>i. runOK (ds_db (x_st x)) (set (ds_pending (x_st x))) (x_thr x i) (x_ran x i) i)"

lemma PrepareSave_kept [simp]:
  "op_ID (Operation_PrepareSave hash now o0) = op_ID o0" "op_RequestID (Operation_PrepareSave hash now o0) = op_RequestID o0"
  "op_State (Operation_PrepareSave hash now o0) = op_State o0" "op_Hash (Operation_PrepareSave hash now o0) = op_Hash o0"
  by (simp_all add: Operation_PrepareSave_def Let_def)

lemma PrepareSave_stage: "op_IntentStage o0 \<noteq> ''prepared'' \<Longrightarrow> op_IntentStage (Operation_PrepareSave hash now o0) \<noteq> ''prepared''"
  by (simp add: Operation_PrepareSave_def Let_def)

text \<open>A write of an operation whose stage is not prepared.\<close>

lemma store_rows:
  assumes "Operation_store o0 db = Some db'"
  shows "r \<in> set db' \<Longrightarrow> row_Op r = o0 \<or> r \<in> set db \<and> op_ID (row_Op r) \<noteq> op_ID o0"
  using assms by (auto simp: Operation_store_def rowFor_def find_None_all split: if_splits)

lemma store_table:
  assumes "Operation_store o0 db = Some db'" "tableOK db"
  shows "tableOK db'"
proof (cases "rowFor (op_ID o0) db = None")
  case True
  then show ?thesis using assms
    by (auto simp: Operation_store_def rowFor_def tableOK_def rowIDs_def find_None_all list_ex_iff split: if_splits) (metis+)
next
  case False
  then have "db' = map (\<lambda>r. if op_ID (row_Op r) = op_ID o0 then r\<lparr>row_Op := o0\<rparr> else r) db"
    using assms by (simp add: Operation_store_def)
  then have "rowIDs db' = rowIDs db" "map row_RequestID db' = map row_RequestID db" by (simp_all add: rowIDs_def)
  then show ?thesis using assms(2) by (simp add: tableOK_def)
qed

lemma save_table: "tableOK db \<Longrightarrow> saveOperation out o0 db = (db', e) \<Longrightarrow> tableOK db'"
  using store_table by (auto simp: saveOperation_def split: option.splits txOutcome.splits)

lemma save_notPrepared:
  assumes "saveOperation out o0 db = (db', e)" "op_IntentStage o0 \<noteq> ''prepared''" "notPrepared db i"
  shows "notPrepared db' i"
  using assms store_rows unfolding notPrepared_def saveOperation_def
  by (fastforce split: option.splits txOutcome.splits)

lemma save_written:
  assumes "saveOperation out o0 db = (db', None)" "op_IntentStage o0 \<noteq> ''prepared''"
  shows "notPrepared db' (op_ID o0)"
  using assms store_rows unfolding notPrepared_def saveOperation_def
  by (fastforce split: option.splits txOutcome.splits)

lemma save_other:
  assumes "saveOperation out o0 db = (db', e)" "notPrepared db i" "i \<noteq> op_ID o0"
  shows "notPrepared db' i"
  using assms store_rows unfolding notPrepared_def saveOperation_def
  by (fastforce split: option.splits txOutcome.splits)

lemma runOK_mono: "(notPrepared db i \<Longrightarrow> notPrepared db' i) \<Longrightarrow> (i \<in> pend' \<Longrightarrow> i \<in> pend) \<Longrightarrow> runOK db pend th n i \<Longrightarrow> runOK db' pend' th n i"
  by (auto simp: runOK_def split: option.splits prod.splits tpc.splits)

text \<open>The restart: only rows of prepared operations are resumed, and no row becomes prepared.\<close>

lemma loadOperation_facts:
  assumes "tableOK (ds_db s)" "op_ID o0 \<in> set (rowIDs (ds_db s))"
  shows "tableOK (ds_db (loadOperation hash now o0 s))" "rowIDs (ds_db (loadOperation hash now o0 s)) = rowIDs (ds_db s)"
    "notPrepared (ds_db s) i \<Longrightarrow> notPrepared (ds_db (loadOperation hash now o0 s)) i"
    "ds_pending (loadOperation hash now o0 s) = ds_pending s @ (if op_IntentStage o0 = ''prepared'' then [op_ID o0] else [])"
proof -
  let ?o = "Operation_PrepareSave hash now (interruptedOperation o0)"
  obtain db e where sv: "saveOperation Committed ?o (ds_db s) = (db, e)" by fastforce
  have st: "op_IntentStage ?o \<noteq> ''prepared''" by (simp add: Operation_PrepareSave_def interruptedOperation_def Let_def)
  have "rowFor (op_ID o0) (ds_db s) \<noteq> None" using assms(2) by (auto simp: rowFor_def rowIDs_def find_None_all)
  then have "rowIDs db = rowIDs (ds_db s)"
    using sv by (auto simp: saveOperation_def Operation_store_def rowIDs_def interruptedOperation_def)
  then show "tableOK (ds_db (loadOperation hash now o0 s))" "rowIDs (ds_db (loadOperation hash now o0 s)) = rowIDs (ds_db s)"
    "notPrepared (ds_db s) i \<Longrightarrow> notPrepared (ds_db (loadOperation hash now o0 s)) i"
    using assms(1) save_table[OF _ sv] save_notPrepared[OF sv st] sv by (simp_all add: loadOperation_def Let_def)
qed (simp add: loadOperation_def Let_def)

lemma fold_loadOperation:
  assumes "tableOK (ds_db s)" "op_ID ` set os \<subseteq> set (rowIDs (ds_db s))"
  shows "tableOK (ds_db (fold (loadOperation hash now) os s)) \<and>
    (\<forall>i. notPrepared (ds_db s) i \<longrightarrow> notPrepared (ds_db (fold (loadOperation hash now) os s)) i) \<and>
    ds_pending (fold (loadOperation hash now) os s) = ds_pending s @ map op_ID (filter (\<lambda>o0. op_IntentStage o0 = ''prepared'') os)"
  using assms
proof (induction os arbitrary: s)
  case (Cons o0 os)
  note f = loadOperation_facts[where s = s and ?o0.0 = o0 and hash = hash and now = now]
  have "tableOK (ds_db (loadOperation hash now o0 s))" "op_ID ` set os \<subseteq> set (rowIDs (ds_db (loadOperation hash now o0 s)))"
    using f(1,2) Cons.prems by auto
  from Cons.IH[OF this] show ?case using f(3,4) Cons.prems by auto
qed simp

lemma inv_restart:
  assumes "dispatchInv x"
  shows "dispatchInv (x\<lparr>x_st := restartOperations hash now (ds_db (x_st x)), x_thr := (\<lambda>_. None)\<rparr>)"
proof -
  let ?db = "ds_db (x_st x)"
  let ?os = "filter (\<lambda>o0. op_State o0 = ''pending'') (map row_Op ?db)"
  let ?init = "\<lparr>ds_db = ?db, ds_requests = [], ds_pending = [], ds_closed = False\<rparr>"
  let ?s = "restartOperations hash now ?db"
  have t: "tableOK ?db" and r: "\<And>i. runOK ?db (set (ds_pending (x_st x))) (x_thr x i) (x_ran x i) i"
    using assms by (auto simp: dispatchInv_def)
  have f: "tableOK (ds_db ?s)" "\<And>i. notPrepared ?db i \<Longrightarrow> notPrepared (ds_db ?s) i"
     "ds_pending ?s = map op_ID (filter (\<lambda>o0. op_IntentStage o0 = ''prepared'') ?os)"
    using fold_loadOperation[where s = ?init and os = ?os and hash = hash and now = now] t
    unfolding restartOperations_def by (auto simp: rowIDs_def)
  have "distinct (map op_ID (map row_Op ?db))" using t by (simp add: tableOK_def rowIDs_def comp_def)
  then have d: "distinct (ds_pending ?s)" unfolding f(3) by (intro distinct_map_filter)
  have "runOK (ds_db ?s) (set (ds_pending ?s)) None (x_ran x i) i" for i
  proof -
    have n: "x_ran x i \<le> 1" "x_ran x i = 1 \<Longrightarrow> notPrepared ?db i"
      using r[of i] by (auto simp: runOK_def split: option.splits prod.splits tpc.splits)
    have "i \<notin> set (ds_pending ?s)" if "notPrepared ?db i" using that by (auto simp: f(3) notPrepared_def)
    then show ?thesis using n f(2) by (simp add: runOK_def)
  qed
  then show ?thesis using f(1) d by (simp add: dispatchInv_def)
qed

lemma inv_accept:
  assumes inv: "dispatchInv x" and fresh: "freshOperation x (ai_ID a)"
    and r: "acceptOperation hash a (x_st x) = (r, s', spawn)"
  shows "dispatchInv (x\<lparr>x_st := s', x_thr := (if spawn
       then (x_thr x)(ai_ID a := Some (TStart, Operation_PrepareSave hash (ai_Now a) (newOperation a))) else x_thr x)\<rparr>)"
proof -
  let ?o = "Operation_PrepareSave hash (ai_Now a) (newOperation a)"
  have id: "op_ID ?o = ai_ID a" by (simp add: newOperation_def)
  consider (same) "s' = x_st x" "\<not> spawn" | (admit) "admitOperation hash a (x_st x) = (r, s', spawn)"
    using r by (auto simp: acceptOperation_def split: if_splits option.splits)
  then show ?thesis
  proof cases
    case same
    then show ?thesis using inv by (simp add: dispatchInv_def)
  next
    case admit
    obtain db e where sv: "saveOperation (ai_Tx a) ?o (ds_db (x_st x)) = (db, e)" by fastforce
    have s': "ds_db s' = db" "ds_pending s' = ds_pending (x_st x)"
      using admit sv by (auto simp: admitOperation_def Let_def split: option.splits if_splits)
    have t: "tableOK db" using inv save_table[OF _ sv] by (simp add: dispatchInv_def)
    have old: "runOK (ds_db (x_st x)) (set (ds_pending (x_st x))) (x_thr x i) (x_ran x i) i" for i
      using inv by (simp add: dispatchInv_def)
    have "runOK db (set (ds_pending (x_st x))) (x_thr x i) (x_ran x i) i" if "i \<noteq> ai_ID a" for i
      using runOK_mono[OF _ _ old] save_other[OF sv] that id by metis
    moreover have "runOK db (set (ds_pending (x_st x))) None 0 (ai_ID a)" "runOK db (set (ds_pending (x_st x))) (Some (TStart, ?o)) 0 (ai_ID a)"
      using fresh id by (auto simp: runOK_def freshOperation_def)
    ultimately have "runOK db (set (ds_pending (x_st x)))
        ((if spawn then (x_thr x)(ai_ID a := Some (TStart, ?o)) else x_thr x) i) (x_ran x i) i" for i
      using fresh by (cases "i = ai_ID a") (auto simp: freshOperation_def)
    then show ?thesis using inv t s' by (simp add: dispatchInv_def)
  qed
qed

lemma inv_write:
  assumes inv: "dispatchInv x" and sv: "saveOperation out o1 (ds_db (x_st x)) = (db, e)" and o1: "op_IntentStage o1 \<noteq> ''prepared''"
    and s': "ds_db s' = db" "distinct (ds_pending s')" "set (ds_pending s') \<subseteq> set (ds_pending (x_st x))"
    and th: "\<And>j. j \<noteq> i \<Longrightarrow> thr j = x_thr x j" and i: "runOK db (set (ds_pending s')) (thr i) (x_ran x i) i"
  shows "dispatchInv (x\<lparr>x_st := s', x_thr := thr\<rparr>)"
proof -
  have "runOK db (set (ds_pending s')) (thr j) (x_ran x j) j" for j
  proof (cases "j = i")
    case False
    have "runOK (ds_db (x_st x)) (set (ds_pending (x_st x))) (x_thr x j) (x_ran x j) j" using inv by (simp add: dispatchInv_def)
    then have "runOK db (set (ds_pending s')) (x_thr x j) (x_ran x j) j"
      using s'(3) save_notPrepared[OF sv o1] by (rule_tac runOK_mono) auto
    then show ?thesis using th[OF False] by simp
  qed (use i in simp)
  then show ?thesis using inv save_table[OF _ sv] s' by (simp add: dispatchInv_def)
qed

lemma finalOperation_stage: "op_IntentStage (Operation_PrepareSave hash now (finalOperation result err unsure o0)) \<noteq> ''prepared''"
  by (rule PrepareSave_stage) (auto simp: finalOperation_def Let_def split: option.splits)

lemma finalOperation_ID: "op_ID (finalOperation result err unsure o0) = op_ID o0"
  by (auto simp: finalOperation_def Let_def split: option.splits)

lemma dispatchInv_run: "dispatchInv x \<Longrightarrow> runOK (ds_db (x_st x)) (set (ds_pending (x_st x))) (x_thr x i) (x_ran x i) i"
  by (simp add: dispatchInv_def)

lemma inv_step: "dispatchStep hash x x' \<Longrightarrow> dispatchInv x \<Longrightarrow> dispatchInv x'"
proof (induction rule: dispatchStep.induct)
  case (accept x a r s' spawn)
  then show ?case by (intro inv_accept)
next
  case (begin_run x i o0 now out o1 s' run)
  obtain db e where sv: "saveOperation out o1 (ds_db (x_st x)) = (db, e)" by fastforce
  have o1: "o1 = Operation_PrepareSave hash now (o0\<lparr>op_IntentStage := ''dispatched''\<rparr>)"
    and s': "ds_db s' = db" "ds_pending s' = ds_pending (x_st x)" "run \<longleftrightarrow> e = None"
    using begin_run(2) sv by (auto simp: dispatchBegin_def Let_def updRequest_def split: prod.splits)
  have st: "op_IntentStage o1 \<noteq> ''prepared''" unfolding o1 by (rule PrepareSave_stage) simp
  have r: "op_ID o0 = i" "x_ran x i = 0" "i \<notin> set (ds_pending (x_st x))"
    using dispatchInv_run[OF begin_run(3), of i] begin_run(1) by (auto simp: runOK_def)
  then have "op_ID o1 = i" by (simp add: o1)
  then have "runOK db (set (ds_pending s')) (Some (if run then TRun else TEnd, o1)) (x_ran x i) i"
    using r s'(2,3) save_written[OF _ st] sv by (auto simp: runOK_def)
  then show ?case
    by (intro inv_write[OF begin_run(3) sv st s'(1), where i = i]) (use begin_run(3) s'(2) in \<open>auto simp: dispatchInv_def\<close>)
next
  case (mutate x i o0)
  have r: "x_ran x i = 0" "notPrepared (ds_db (x_st x)) i" "op_ID o0 = i" "i \<notin> set (ds_pending (x_st x))"
    using dispatchInv_run[OF mutate(2), of i] mutate(1) by (auto simp: runOK_def)
  then show ?case using mutate(2) by (simp add: dispatchInv_def) (simp add: runOK_def)
next
  case (finish x i o0 now out result err unsure)
  let ?o = "Operation_PrepareSave hash now (finalOperation result err unsure o0)"
  obtain db e where sv: "saveOperation out ?o (ds_db (x_st x)) = (db, e)" by fastforce
  have r: "op_ID o0 = i" "x_ran x i \<le> 1" "x_ran x i = 1 \<Longrightarrow> notPrepared (ds_db (x_st x)) i" "i \<notin> set (ds_pending (x_st x))"
    using dispatchInv_run[OF finish(2), of i] finish(1) by (auto simp: runOK_def)
  then have "runOK db (set (ds_pending (x_st x))) None (x_ran x i) i"
    using save_notPrepared[OF sv finalOperation_stage] by (simp add: runOK_def)
  then show ?case
    by (intro inv_write[OF finish(2) sv finalOperation_stage, where i = i])
       (use finish(2) sv in \<open>auto simp: dispatchInv_def dispatchEnd_def Let_def\<close>)
next
  case (restart x now)
  then show ?case by (rule inv_restart)
next
  case (resume x i rest o0 now out usable s' spawn)
  have id: "op_ID o0 = i" using find_Some_in[OF resume(2)] by simp
  have pend: "distinct rest" "i \<notin> set rest" using resume(1,4) by (auto simp: dispatchInv_def)
  have r: "x_thr x i = None" "x_ran x i = 0"
    using dispatchInv_run[OF resume(4), of i] resume(1)
    by (auto simp: runOK_def split: option.splits prod.splits)
  show ?case
  proof (cases usable)
    case True
    then have s': "s' = x_st x" "spawn" using resume(3) by (auto simp: resumeDispatch_def)
    have "runOK (ds_db (x_st x)) (set rest) (((x_thr x)(i := Some (TStart, o0))) j) (x_ran x j) j" for j
    proof (cases "j = i")
      case True
      then show ?thesis using r id pend by (simp add: runOK_def)
    next
      case False
      then show ?thesis using runOK_mono[OF _ _ dispatchInv_run[OF resume(4), of j]] resume(1) by simp
    qed
    then show ?thesis using s' resume(4) pend by (simp add: dispatchInv_def)
  next
    case False
    let ?o = "Operation_PrepareSave hash now (unavailableOperation o0)"
    obtain db e where sv: "saveOperation out ?o (ds_db (x_st x)) = (db, e)" by fastforce
    have st: "op_IntentStage ?o \<noteq> ''prepared''" by (rule PrepareSave_stage) (simp add: unavailableOperation_def)
    have s': "ds_db s' = db" "\<not> spawn" using resume(3) False sv by (auto simp: resumeDispatch_def Let_def updRequest_def)
    have "runOK db (set rest) None (x_ran x i) i" using r by (simp add: runOK_def)
    then show ?thesis
      using inv_write[OF resume(4) sv st, where s' = "s'\<lparr>ds_pending := rest\<rparr>" and i = i and thr = "x_thr x"] s' pend r resume(1) by auto
  qed
next
  case (expire x old)
  let ?db = "filter (\<lambda>r. op_State (row_Op r) = ''pending'' \<or> \<not> old (row_Op r)) (ds_db (x_st x))"
  have t: "tableOK ?db" using expire by (simp add: dispatchInv_def tableOK_def rowIDs_def distinct_map_filter)
  have "runOK ?db (set (ds_pending (x_st x))) (x_thr x i) (x_ran x i) i" for i
    by (rule runOK_mono[OF _ _ dispatchInv_run[OF expire]]) (auto simp: notPrepared_def)
  then show ?case using expire t by (simp add: dispatchInv_def expireOperations_def)
qed

lemma inv_start: "dispatchStart x \<Longrightarrow> dispatchInv x"
  by (simp add: dispatchStart_def dispatchInv_def tableOK_def rowIDs_def runOK_def)

interpretation dispatch: invariant_system dispatchStart "dispatchStep hash" dispatchInv for hash
  by unfold_locales (auto intro: inv_start inv_step)

section \<open>Properties\<close>

text \<open>
  C18. At most once: whatever the interleaving of requests, goroutines, failed or ambiguous transactions,
  crashes, restarts and retention, the effect of an accepted operation is started at most once.
\<close>
theorem operation_runs_at_most_once:
  assumes "reach dispatchStart (dispatchStep hash) x"
  shows "x_ran x i \<le> 1"
proof -
  have "runOK (ds_db (x_st x)) (set (ds_pending (x_st x))) (x_thr x i) (x_ran x i) i"
    using dispatchInv_run dispatch.reach_inv[OF assms] .
  then show ?thesis by (auto simp: runOK_def split: option.splits prod.splits tpc.splits)
qed

text \<open>
  One record per request identifier: in every reachable state no two stored operations have the same identifier or
  the same request identifier.
\<close>
lemma request_identifies_operation:
  assumes "reach dispatchStart (dispatchStep hash) x" "r \<in> set (ds_db (x_st x))" "q \<in> set (ds_db (x_st x))"
    and "row_RequestID r = row_RequestID q \<or> op_ID (row_Op r) = op_ID (row_Op q)"
  shows "r = q"
proof -
  have "inj_on row_RequestID (set (ds_db (x_st x)))" "inj_on (\<lambda>r. op_ID (row_Op r)) (set (ds_db (x_st x)))"
    using dispatch.reach_inv[OF assms(1)] by (auto simp: dispatchInv_def tableOK_def rowIDs_def distinct_map)
  then show ?thesis using assms(2-4) by (auto dest: inj_onD)
qed

text \<open>
  A repeated request has no effect: while the operation of a request identifier is known, a request
  with that identifier starts nothing and changes nothing; it returns the recorded operation if its
  parameters hash to the recorded hash and is refused otherwise.
\<close>
lemma repeated_request:
  assumes "requestOperation (ai_Readable a) (ai_Request a) s = Some o0" "requestPattern (ai_Request a)" "\<not> ds_closed s"
  shows "acceptOperation hash a s = (if op_Hash o0 = ai_Hash a then Inr o0 else Inl conflictError, s, False)"
  using assms by (simp add: acceptOperation_def replay_def)

section \<open>Witnesses\<close>

definition sampleAccept :: AcceptInput where
  "sampleAccept = \<lparr>ai_Name = ''node_input'', ai_Request = ''r1'', ai_Hash = ''h'', ai_ID = ''o1'', ai_Now = 5, ai_Readable = True,
     ai_Reason = [], ai_ProbeFailed = False, ai_Prepared = None, ai_TaskID = ''t'', ai_TargetID = ''n'', ai_Execution = False,
     ai_Intent = noBody, ai_Payload = noBody, ai_WorkerInstance = [], ai_Tx = Committed\<rparr>"

definition sampleDigest :: "string \<times> werror option \<Rightarrow> string" where
  "sampleDigest = fst"

definition sampleOp :: Operation where
  "sampleOp = Operation_PrepareSave sampleDigest 5 (newOperation sampleAccept)"

definition sampleAccepted :: DSys where
  "sampleAccepted = \<lparr>x_st = \<lparr>ds_db = [\<lparr>row_RequestID = ''r1'', row_Op = sampleOp\<rparr>], ds_requests = [sampleOp], ds_pending = [], ds_closed = False\<rparr>,
     x_thr = (\<lambda>_. None)(''o1'' := Some (TStart, sampleOp)), x_ran = (\<lambda>_. 0)\<rparr>"

lemma sampleOp_sel [simp]: "op_ID sampleOp = ''o1''" "op_RequestID sampleOp = ''r1''" "op_Hash sampleOp = ''h''"
  by (simp_all add: sampleOp_def newOperation_def sampleAccept_def)

lemma sample_accepted: "reach dispatchStart (dispatchStep sampleDigest) sampleAccepted"
proof -
  let ?x = "\<lparr>x_st = \<lparr>ds_db = [], ds_requests = [], ds_pending = [], ds_closed = False\<rparr>, x_thr = (\<lambda>_. None), x_ran = (\<lambda>_. 0)\<rparr> :: DSys"
  have p: "requestPattern (ai_Request sampleAccept)"
    by (simp add: sampleAccept_def requestPattern_def requestChar_def lowerAlpha_def decimalDigit_def)
  have "admitOperation sampleDigest sampleAccept (x_st ?x) = (Inr sampleOp, x_st sampleAccepted, True)"
    by (simp add: admitOperation_def saveOperation_def Operation_store_def rowFor_def sampleAccepted_def Let_def)
       (simp add: sampleAccept_def sampleOp_def newOperation_def)
  then have a: "acceptOperation sampleDigest sampleAccept (x_st ?x) = (Inr sampleOp, x_st sampleAccepted, True)"
    using p by (simp add: acceptOperation_def requestOperation_def) (simp add: sampleAccept_def)
  have "dispatchStep sampleDigest ?x sampleAccepted"
    using dispatchStep.accept[of ?x sampleAccept, OF _ a]
    by (simp add: freshOperation_def rowIDs_def sampleAccepted_def sampleOp_def sampleAccept_def)
  moreover have "reach dispatchStart (dispatchStep sampleDigest) ?x" by (rule reach_start) (simp add: dispatchStart_def)
  ultimately show ?thesis by (rule reach_trans[rotated])
qed

lemma sample_ran: "\<exists>x. reach dispatchStart (dispatchStep sampleDigest) x \<and> x_ran x ''o1'' = 1"
proof -
  obtain o1 s' run where b: "dispatchBegin sampleDigest 6 Committed sampleOp (x_st sampleAccepted) = (o1, s', run)"
    by (metis prod_cases3)
  then have run: run
    by (auto simp: dispatchBegin_def Let_def saveOperation_def Operation_store_def rowFor_def sampleAccepted_def)
  have t: "x_thr sampleAccepted ''o1'' = Some (TStart, sampleOp)" by (simp add: sampleAccepted_def)
  let ?x1 = "sampleAccepted\<lparr>x_st := s', x_thr := (x_thr sampleAccepted)(''o1'' := Some (TRun, o1))\<rparr>"
  have "dispatchStep sampleDigest sampleAccepted ?x1" using dispatchStep.begin_run[OF t b] run by simp
  then have r1: "reach dispatchStart (dispatchStep sampleDigest) ?x1" using sample_accepted reach_trans by metis
  let ?x2 = "?x1\<lparr>x_ran := (x_ran ?x1)(''o1'' := Suc (x_ran ?x1 ''o1'')), x_thr := (x_thr ?x1)(''o1'' := Some (TEnd, o1))\<rparr>"
  have "dispatchStep sampleDigest ?x1 ?x2" by (rule dispatchStep.mutate) simp
  with r1 have "reach dispatchStart (dispatchStep sampleDigest) ?x2" by (rule reach_trans)
  moreover have "x_ran ?x2 ''o1'' = 1" by (simp add: sampleAccepted_def)
  ultimately show ?thesis by blast
qed

theorem operation_runs_at_most_once_witness:
  "\<exists>x. reach dispatchStart (dispatchStep sampleDigest) x \<and> x_ran x ''o1'' = 1 \<and> x_ran x ''o1'' \<le> 1"
  using sample_ran operation_runs_at_most_once by blast

end
