(* ===== verification/Capability.thy ===== *)
theory Capability
  imports Wire Ipv4
begin

text \<open>
  The signed transfer capabilities of \<^verbatim>\<open>internal/control/transfers.go\<close>: the unpadded URL alphabet of
  \<^verbatim>\<open>base64.RawURLEncoding\<close>, the token \<^verbatim>\<open>Server.capability\<close> issues and \<^verbatim>\<open>Server.decodeCap\<close> checks, and the
  path the handler \<^verbatim>\<open>Server.Files\<close> takes apart.

  The keyed digest (\<open>mac\<close>, HMAC-SHA256 under the service secret) and the JSON encoding of the claim
  (\<open>enc\<close> and \<open>dec\<close>, \<^verbatim>\<open>wire.JSON\<close> and \<^verbatim>\<open>wire.Decode\<close>) are parameters.
\<close>

section \<open>Unpadded URL base64\<close>

definition alphabet64 :: string where
  "alphabet64 = ''ABCDEFGHIJKLMNOPQRSTUVWXYZabcdefghijklmnopqrstuvwxyz0123456789-_''"

definition symbol64 :: "nat \<Rightarrow> char" where
  "symbol64 n = alphabet64 ! n"

fun sextets :: "nat list \<Rightarrow> nat list" where
  "sextets [] = []"
| "sextets [a] = [a div 4, a mod 4 * 16]"
| "sextets [a, b] = [a div 4, a mod 4 * 16 + b div 16, b mod 16 * 4]"
| "sextets (a # b # c # r) = [a div 4, a mod 4 * 16 + b div 16, b mod 16 * 4 + c div 64, c mod 64] @ sextets r"

definition EncodeToString :: "string \<Rightarrow> string" where
  "EncodeToString s = map symbol64 (sextets (map of_char s))"

text \<open>
  The decoder skips carriage returns and newlines, refuses every other foreign byte and a last group of one
  symbol, and (not being the strict variant) ignores the unused low bits of the last symbol.
\<close>

fun position :: "char \<Rightarrow> string \<Rightarrow> nat option" where
  "position c [] = None"
| "position c (x # xs) = (if x = c then Some 0 else map_option Suc (position c xs))"

fun symbols :: "string \<Rightarrow> nat list option" where
  "symbols [] = Some []"
| "symbols (c # cs) =
    (if c = CHR 0x0A \<or> c = CHR 0x0D then symbols cs
     else (case position c alphabet64 of None \<Rightarrow> None | Some n \<Rightarrow> map_option ((#) n) (symbols cs)))"

fun bytes64 :: "nat list \<Rightarrow> nat list option" where
  "bytes64 [] = Some []"
| "bytes64 [_] = None"
| "bytes64 [a, b] = Some [a * 4 + b div 16]"
| "bytes64 [a, b, c] = Some [a * 4 + b div 16, b mod 16 * 16 + c div 4]"
| "bytes64 (a # b # c # d # r) =
    map_option (\<lambda>bs. [a * 4 + b div 16, b mod 16 * 16 + c div 4, c mod 4 * 64 + d] @ bs) (bytes64 r)"

definition DecodeString :: "string \<Rightarrow> string option" where
  "DecodeString s = map_option (map char_of) (Option.bind (symbols s) bytes64)"

section \<open>Capabilities\<close>

record capability =
  ca_Kind :: string
  ca_ID :: string
  ca_Right :: string
  ca_Expires :: int

definition corrupt64 :: goerr where
  "corrupt64 = EText ''illegal base64 data''"

text \<open>The token part of \<^verbatim>\<open>Server.capability\<close>: the text that follows \<^verbatim>\<open>PublicURL\<close> and \<^verbatim>\<open>/files/\<close>.\<close>

definition capabilityToken :: "(string \<Rightarrow> string) \<Rightarrow> (capability \<Rightarrow> string) \<Rightarrow> capability \<Rightarrow> string" where
  "capabilityToken mac enc c = (let data = EncodeToString (enc c) in data @ ''.'' @ EncodeToString (mac data))"

text \<open>\<^verbatim>\<open>Server.capURL\<close>: a claim that ends one hour from now, in whole seconds.\<close>

definition unixSeconds :: "gotime \<Rightarrow> int" where
  "unixSeconds t = (t - 62135596800 * second) div second"

definition capURL :: "(string \<Rightarrow> string) \<Rightarrow> (capability \<Rightarrow> string) \<Rightarrow> gotime \<Rightarrow> string \<Rightarrow> string \<Rightarrow> string \<Rightarrow> string \<times> gotime" where
  "capURL mac enc now kind ident right =
    (let expires = now + hour in
     (capabilityToken mac enc \<lparr>ca_Kind = kind, ca_ID = ident, ca_Right = right, ca_Expires = unixSeconds expires\<rparr>, expires))"

definition decodeCap :: "(string \<Rightarrow> string) \<Rightarrow> (string \<Rightarrow> capability res) \<Rightarrow> int \<Rightarrow> string \<Rightarrow> capability res" where
  "decodeCap mac dec now token =
    (case splitOn CHR ''.'' token of
       [data, sig] \<Rightarrow>
         if length token > 2048 then Inl (Fail ''unauthorized'' ''Invalid capability'')
         else (case DecodeString sig of
           None \<Rightarrow> Inl corrupt64
         | Some digest \<Rightarrow>
             if digest \<noteq> mac data then Inl (Fail ''unauthorized'' ''Invalid capability'')
             else (case DecodeString data of
               None \<Rightarrow> Inl corrupt64
             | Some b \<Rightarrow> (case dec b of
                 Inl e \<Rightarrow> Inl e
               | Inr c \<Rightarrow> if ca_Expires c \<le> now then Inl (Fail ''expired'' ''Transfer capability expired'') else Inr c)))
     | _ \<Rightarrow> Inl (Fail ''unauthorized'' ''Invalid capability''))"

text \<open>
  The head of \<^verbatim>\<open>Server.Files\<close>: the request path less \<^verbatim>\<open>/files/\<close>, cut at its first slash into the token
  and the object's name (empty when there is none).
\<close>

definition filesTarget :: "string \<Rightarrow> string \<times> string" where
  "filesTarget p =
    (let q = (if take 7 p = ''/files/'' then drop 7 p else p) in
     (takeWhile (\<lambda>c. c \<noteq> CHR ''/'') q, drop 1 (dropWhile (\<lambda>c. c \<noteq> CHR ''/'') q)))"

section \<open>The encoding\<close>

lemma alphabet64_length [simp]: "length alphabet64 = 64"
  by (simp add: alphabet64_def)

lemma alphabet64_distinct: "distinct alphabet64"
  by (simp add: alphabet64_def)

lemma symbol64_in: "n < 64 \<Longrightarrow> symbol64 n \<in> set alphabet64"
  by (simp add: symbol64_def)

lemma position_nth: "distinct xs \<Longrightarrow> n < length xs \<Longrightarrow> position (xs ! n) xs = Some n"
proof (induction xs arbitrary: n)
  case (Cons x xs)
  then show ?case by (cases n) (auto simp: nth_mem)
qed simp

lemma alphabet64_safe: "c \<in> set alphabet64 \<Longrightarrow> c \<notin> {CHR 0x0A, CHR 0x0D, CHR ''.'', CHR ''/''}"
  by (auto simp: alphabet64_def)

lemma symbols_map: "\<forall>n\<in>set ns. n < 64 \<Longrightarrow> symbols (map symbol64 ns) = Some ns"
proof (induction ns)
  case (Cons n ns)
  have "position (symbol64 n) alphabet64 = Some n" using Cons.prems by (simp add: symbol64_def position_nth alphabet64_distinct)
  moreover have "symbol64 n \<notin> {CHR 0x0A, CHR 0x0D}" using alphabet64_safe[OF symbol64_in[of n]] Cons.prems by simp
  ultimately show ?case using Cons by simp
qed simp

lemma sextets_bound: "\<forall>b\<in>set bs. b < 256 \<Longrightarrow> n \<in> set (sextets bs) \<Longrightarrow> n < 64"
  by (induction bs rule: sextets.induct) auto

lemma bytes64_sextets: "\<forall>b\<in>set bs. b < 256 \<Longrightarrow> bytes64 (sextets bs) = Some bs"
  by (induction bs rule: sextets.induct) auto

lemma of_char_bound: "b \<in> set (map of_char s) \<Longrightarrow> b < (256 :: nat)"
  by auto

lemma decode_encode: "DecodeString (EncodeToString s) = Some s"
proof -
  have b: "\<forall>x\<in>set (map of_char s). x < (256 :: nat)" using of_char_bound by blast
  then have "symbols (EncodeToString s) = Some (sextets (map of_char s))"
    unfolding EncodeToString_def by (intro symbols_map ballI) (rule sextets_bound)
  then show ?thesis by (simp add: DecodeString_def bytes64_sextets[OF b] comp_def)
qed

lemma encode_alphabet: "set (EncodeToString s) \<subseteq> set alphabet64"
proof -
  have "\<forall>x\<in>set (map of_char s). x < (256 :: nat)" using of_char_bound by blast
  then have "n < 64" if "n \<in> set (sextets (map of_char s))" for n using sextets_bound that by blast
  then show ?thesis using symbol64_in by (auto simp: EncodeToString_def)
qed

lemma encode_safe: "CHR ''.'' \<notin> set (EncodeToString s)" "CHR ''/'' \<notin> set (EncodeToString s)"
  using encode_alphabet[of s] alphabet64_safe by blast+

lemma token_split:
  "splitOn CHR ''.'' (capabilityToken mac enc c) = [EncodeToString (enc c), EncodeToString (mac (EncodeToString (enc c)))]"
  by (simp add: capabilityToken_def Let_def splitOn_sep splitOn_absent encode_safe)

lemma filesTarget_url:
  assumes "CHR ''/'' \<notin> set token"
  shows "filesTarget (''/files/'' @ token @ ''/'' @ name) = (token, name)"
proof -
  have "\<forall>c\<in>set token. c \<noteq> CHR ''/''" using assms by auto
  then show ?thesis by (simp add: filesTarget_def Let_def takeWhile_append2 dropWhile_append2)
qed

section \<open>Properties\<close>

text \<open>
  C24. Capabilities round-trip: the path of an issued capability, with any object name behind it, is taken apart
  into exactly that token and name, and the token decodes to the very claim it was issued for as long as the
  claim has not expired; from its last second on it is refused as expired.
\<close>
theorem capability_roundtrip:
  assumes "dec (enc c) = Inr c" "length (capabilityToken mac enc c) \<le> 2048"
  shows "filesTarget (''/files/'' @ capabilityToken mac enc c @ ''/'' @ name) = (capabilityToken mac enc c, name) \<and>
    decodeCap mac dec now (capabilityToken mac enc c) =
      (if now < ca_Expires c then Inr c else Inl (Fail ''expired'' ''Transfer capability expired''))"
proof
  have "CHR ''/'' \<notin> set (capabilityToken mac enc c)" by (simp add: capabilityToken_def Let_def encode_safe)
  then show "filesTarget (''/files/'' @ capabilityToken mac enc c @ ''/'' @ name) = (capabilityToken mac enc c, name)"
    by (rule filesTarget_url)
  show "decodeCap mac dec now (capabilityToken mac enc c) =
      (if now < ca_Expires c then Inr c else Inl (Fail ''expired'' ''Transfer capability expired''))"
    using assms by (simp add: decodeCap_def token_split decode_encode)
qed

text \<open>
  No claim without its signature: whatever text is presented, an accepted claim is unexpired and is carried by
  some encoded data whose keyed digest the text contains.  So if only data that the service signed has a known
  digest, only issued claims are accepted: two accepted texts with the same data part carry the same claim.
\<close>
lemma accepted_capability_signed:
  assumes "decodeCap mac dec now token = Inr c"
  shows "\<exists>data sig b. token = data @ ''.'' @ sig \<and> CHR ''.'' \<notin> set data \<and> DecodeString sig = Some (mac data) \<and>
    DecodeString data = Some b \<and> dec b = Inr c \<and> now < ca_Expires c \<and> length token \<le> 2048"
proof -
  obtain data sig where s: "splitOn CHR ''.'' token = [data, sig]"
    using assms by (auto simp: decodeCap_def split: list.splits)
  have t: "token = data @ ''.'' @ sig" using splitOn_join[of "CHR ''.''" token] s by simp
  have "CHR ''.'' \<notin> set data" using splitOn_parts[of data "CHR ''.''" token] s by simp
  with t s assms show ?thesis
    by (auto simp: decodeCap_def not_less split: if_splits option.splits sum.splits)
qed

section \<open>Witnesses\<close>

definition sampleClaim :: capability where
  "sampleClaim = \<lparr>ca_Kind = ''transfer'', ca_ID = ''t1'', ca_Right = ''write'', ca_Expires = 100\<rparr>"

definition sampleEnc :: "capability \<Rightarrow> string" where
  "sampleEnc c = ca_Kind c @ ca_ID c"

definition sampleDec :: "string \<Rightarrow> capability res" where
  "sampleDec s = (if s = ''transfert1'' then Inr sampleClaim else Inl corrupt64)"

lemma sampleClaim_token: "capabilityToken rev sampleEnc sampleClaim = ''dHJhbnNmZXJ0MQ.UU0wSlhabU5uYmhKSGQ''"
  by code_simp

theorem capability_roundtrip_witness:
  "decodeCap rev sampleDec 99 ''dHJhbnNmZXJ0MQ.UU0wSlhabU5uYmhKSGQ'' = Inr sampleClaim"
  using capability_roundtrip[of sampleDec sampleEnc sampleClaim rev "''blob''" 99]
  unfolding sampleClaim_token by (simp add: sampleDec_def sampleEnc_def sampleClaim_def)

end
