(* ===== verification/Narinfo.thy ===== *)
theory Narinfo
  imports Wire Config Safefs
begin

text \<open>
  The names and the metadata of a Nix binary cache, from \<^verbatim>\<open>internal/control/transfers.go\<close>: the object names
  an upload may declare (\<^verbatim>\<open>objectName\<close> and its regular expressions), the parser \<^verbatim>\<open>parseNarInfo\<close> of the
  narinfo files, and \<^verbatim>\<open>nixHash\<close>, the base-32 spelling of a SHA-256 sum.
\<close>

unbundle bit_operations_syntax

section \<open>Object names\<close>

definition nixAlphabet :: string where
  "nixAlphabet = ''0123456789abcdfghijklmnpqrsvwxyz''"

definition alnum :: "char \<Rightarrow> bool" where
  "alnum c \<longleftrightarrow> c \<in> set ''ABCDEFGHIJKLMNOPQRSTUVWXYZabcdefghijklmnopqrstuvwxyz0123456789''"

definition HasSuffix :: "string \<Rightarrow> string \<Rightarrow> bool" where
  "HasSuffix s suf \<longleftrightarrow> length suf \<le> length s \<and> drop (length s - length suf) s = suf"

definition TrimSuffix :: "string \<Rightarrow> string \<Rightarrow> string" where
  "TrimSuffix s suf = (if HasSuffix s suf then take (length s - length suf) s else s)"

definition HasPrefix :: "string \<Rightarrow> string \<Rightarrow> bool" where
  "HasPrefix s pre \<longleftrightarrow> take (length pre) s = pre"

definition cacheKey :: "string \<Rightarrow> bool" where
  "cacheKey s \<longleftrightarrow> length s = 40 \<and> list_all (\<lambda>c. c \<in> set nixAlphabet) (take 32 s) \<and> drop 32 s = ''.narinfo''"

definition narStem :: "string \<Rightarrow> bool" where
  "narStem s \<longleftrightarrow> (case s of [] \<Rightarrow> False
     | c # cs \<Rightarrow> alnum c \<and> length cs \<le> 190 \<and> list_all (\<lambda>x. alnum x \<or> x \<in> set ''._-'') cs)"

definition narKey :: "string \<Rightarrow> bool" where
  "narKey s \<longleftrightarrow> HasPrefix s ''nar/'' \<and>
     list_ex (\<lambda>e. HasSuffix (drop 4 s) e \<and> narStem (TrimSuffix (drop 4 s) e)) [''.nar'', ''.nar.xz'', ''.nar.bz2'', ''.nar.zst'']"

definition narHash :: "string \<Rightarrow> bool" where
  "narHash s \<longleftrightarrow> HasPrefix s ''sha256:'' \<and>
     (sha256Pattern (drop 7 s) \<or>
      length (drop 7 s) = 52 \<and> list_all (\<lambda>c. c \<in> set ''01'') (take 1 (drop 7 s)) \<and>
      list_all (\<lambda>c. c \<in> set nixAlphabet) (drop 8 s))"

definition objectName :: "string \<Rightarrow> string \<Rightarrow> bool" where
  "objectName kind name \<longleftrightarrow>
     kind = ''file'' \<and> name = ''blob'' \<or>
     kind = ''cache'' \<and> (name = ''nix-cache-info'' \<or> cacheKey name \<or> narKey name)"

section \<open>Base-32 sums\<close>

definition hexVal :: "char \<Rightarrow> nat option" where
  "hexVal c =
    (let n = (of_char c :: nat) in
     if 48 \<le> n \<and> n \<le> 57 then Some (n - 48)
     else if 97 \<le> n \<and> n \<le> 102 then Some (n - 87)
     else if 65 \<le> n \<and> n \<le> 70 then Some (n - 55) else None)"

text \<open>\<^verbatim>\<open>hex.DecodeString\<close> with its error dropped: the bytes before the first bad pair.\<close>

fun hexBytes :: "string \<Rightarrow> nat list" where
  "hexBytes (c # d # r) = (case (hexVal c, hexVal d) of (Some x, Some y) \<Rightarrow> (16 * x + y) # hexBytes r | _ \<Rightarrow> [])"
| "hexBytes _ = []"

definition nixDigit :: "nat list \<Rightarrow> nat \<Rightarrow> nat" where
  "nixDigit b n =
    (let bit = n * 5; i = bit div 8; shift = bit mod 8;
         v = drop_bit shift (b ! i);
         w = (if i + 1 < length b then v OR push_bit (8 - shift) (b ! (i + 1)) else v)
     in w AND 31)"

text \<open>The loop counts \<^verbatim>\<open>n\<close> down to zero; with no bytes its start value is \<^verbatim>\<open>(-1)/5 = 0\<close> and \<^verbatim>\<open>b[0]\<close> panics, written \<^verbatim>\<open>None\<close>.\<close>

definition nixHash :: "string \<Rightarrow> string option" where
  "nixHash hexHash =
    (let b = hexBytes hexHash in
     if b = [] then None
     else Some (map (\<lambda>n. nixAlphabet ! nixDigit b n) (rev [0..<(length b * 8 - 1) div 5 + 1])))"

section \<open>Parsing narinfo files\<close>

record narInfo =
  ni_Store :: string
  ni_URL :: string
  ni_Hash :: string
  ni_Size :: int
  ni_References :: "string list"

text \<open>
  \<^verbatim>\<open>bufio.Scanner\<close> over lines: the text between newlines, each less one trailing carriage return, and no empty
  line at the end.  (Its limit of 65,536 bytes can only stop a text that is one line, which is refused anyway.)
\<close>

definition dropCR :: "string \<Rightarrow> string" where
  "dropCR s = (if s \<noteq> [] \<and> last s = CHR 0x0D then butlast s else s)"

definition scanLines :: "string \<Rightarrow> string list" where
  "scanLines data =
    (let ls = splitOn CHR 0x0A data in map dropCR (if last ls = [] then butlast ls else ls))"

fun cutColon :: "string \<Rightarrow> (string \<times> string) option" where
  "cutColon [] = None"
| "cutColon (c # cs) =
    (if c = CHR '':'' \<and> take 1 cs = '' '' then Some ([], drop 1 cs)
     else map_option (apfst ((#) c)) (cutColon cs))"

definition narFields :: "string list" where
  "narFields = [''StorePath'', ''URL'', ''Compression'', ''FileHash'', ''FileSize'', ''NarHash'', ''NarSize'',
     ''References'', ''Deriver'', ''Sig'', ''CA'', ''System'']"

fun scanFields :: "string list \<Rightarrow> (string \<times> string) list \<Rightarrow> (string \<times> string) list option" where
  "scanFields [] fs = Some fs"
| "scanFields (line # rest) fs =
    (case cutColon line of
       None \<Rightarrow> None
     | Some (k, v) \<Rightarrow>
         if CHR 0x0D \<in> set v \<or> CHR 0x00 \<in> set v \<or> \<not> oneOf k narFields then None
         else if map_of fs k \<noteq> None \<and> k \<noteq> ''Sig'' then None
         else scanFields rest ((k, v) # fs))"

definition fieldOf :: "(string \<times> string) list \<Rightarrow> string \<Rightarrow> string" where
  "fieldOf fs k = (case map_of fs k of None \<Rightarrow> [] | Some v \<Rightarrow> v)"

text \<open>\<^verbatim>\<open>strconv.ParseInt(s, 10, 64)\<close>: an optional sign, digits, and a value within 64 bits.\<close>

definition ParseInt :: "string \<Rightarrow> int option" where
  "ParseInt s =
    (let neg = (take 1 s = ''-''); ds = (if take 1 s = ''-'' \<or> take 1 s = ''+'' then drop 1 s else s) in
     if ds = [] then None
     else (case readDigits 0 ds of
       None \<Rightarrow> None
     | Some n \<Rightarrow> if neg then (if int n \<le> 2 ^ 63 then Some (- int n) else None)
                else if int n < 2 ^ 63 then Some (int n) else None))"

text \<open>\<^verbatim>\<open>strings.Fields\<close>: the number of bytes of the white-space character at the head of the text, and the words.\<close>

definition spaceWidth :: "string \<Rightarrow> nat" where
  "spaceWidth s = (if s = [] then 0 else if blankText (take 1 s) then 1 else if length s \<ge> 2 \<and> blankText (take 2 s) then 2
     else if length s \<ge> 3 \<and> blankText (take 3 s) then 3 else 0)"

function wordsFrom :: "string \<Rightarrow> string \<Rightarrow> string list" where
  "wordsFrom [] acc = (if acc = [] then [] else [rev acc])"
| "wordsFrom (c # cs) acc =
    (let w = spaceWidth (c # cs) in
     if w = 0 then wordsFrom cs (c # acc)
     else (if acc = [] then [] else [rev acc]) @ wordsFrom (drop (w - 1) cs) [])"
  by pat_completeness auto
termination
  by (relation "measure (length \<circ> fst)") auto

definition Fields :: "string \<Rightarrow> string list" where
  "Fields s = wordsFrom s []"

text \<open>\<^verbatim>\<open>path.Base\<close>.\<close>

definition pathBase :: "string \<Rightarrow> string" where
  "pathBase p =
    (if p = [] then ''.''
     else let q = rev (dropWhile (\<lambda>c. c = CHR ''/'') (rev p)) in
       if q = [] then ''/'' else last (splitOn CHR ''/'' q))"

definition beforeDash :: "string \<Rightarrow> string" where
  "beforeDash s = takeWhile (\<lambda>c. c \<noteq> CHR ''-'') s"

definition badNarinfo :: goerr where
  "badNarinfo = Fail ''invalid_cache'' ''Malformed or unsafe narinfo''"

definition parseNarInfo :: "string \<Rightarrow> string \<Rightarrow> narInfo res" where
  "parseNarInfo name data =
    (if \<not> cacheKey name \<or> length data > 65536 then Inl badNarinfo
     else case scanFields (scanLines data) [] of
       None \<Rightarrow> Inl badNarinfo
     | Some fs \<Rightarrow>
        let f = fieldOf fs; store = f ''StorePath''; url = f ''URL''; hash = f ''FileHash''; refs = Fields (f ''References''); d = f ''Deriver'' in
        (case ParseInt (f ''FileSize'') of
           None \<Rightarrow> Inl badNarinfo
         | Some n \<Rightarrow>
            if n < 1 \<or> \<not> StorePattern store \<or> \<not> HasPrefix (pathBase store) (TrimSuffix name ''.narinfo'' @ ''-'') \<or> \<not> narKey url \<or>
               \<not> oneOf (f ''Compression'') [''none'', ''xz'', ''bzip2'', ''zstd''] \<or> \<not> narHash (f ''NarHash'') \<or> \<not> narHash hash
            then Inl badNarinfo
            else if (case ParseInt (f ''NarSize'') of None \<Rightarrow> True | Some m \<Rightarrow> m < 1) then Inl badNarinfo
            else if list_ex (\<lambda>r. \<not> StorePattern (''/nix/store/'' @ r)) refs then Inl badNarinfo
            else if d \<noteq> [] \<and> d \<noteq> ''unknown-deriver'' \<and> (\<not> StorePattern (''/nix/store/'' @ d) \<or> \<not> HasSuffix d ''.drv'') then Inl badNarinfo
            else Inr \<lparr>ni_Store = store, ni_URL = url, ni_Hash = hash, ni_Size = n,
                      ni_References = map (\<lambda>r. beforeDash r @ ''.narinfo'') refs\<rparr>))"

section \<open>The base-32 digits\<close>

text \<open>The number the bytes spell, least significant byte first: the reference for the shifts of \<^verbatim>\<open>nixHash\<close>.\<close>

definition littleEndian :: "nat list \<Rightarrow> nat" where
  "littleEndian b = horner_sum id 256 b"

lemma byte_bit: "x < 256 \<Longrightarrow> bit (x :: nat) k \<Longrightarrow> k < 8"
proof -
  assume "x < 256" "bit x k"
  then have "take_bit 8 x = x" by (simp add: take_bit_nat_eq_self)
  then show "k < 8" using \<open>bit x k\<close> by (metis bit_take_bit_iff)
qed

lemma bit_byte_step: "x < 256 \<Longrightarrow> bit (x + 256 * n :: nat) k \<longleftrightarrow> (if k < 8 then bit x k else bit n (k - 8))"
proof -
  assume x: "x < 256"
  have p: "256 * n = push_bit 8 n" by (simp add: push_bit_eq_mult)
  have "x + push_bit 8 n = x OR push_bit 8 n"
    by (intro disjunctive_add) (auto simp: bit_push_bit_iff dest: byte_bit[OF x])
  then show ?thesis using byte_bit[OF x] unfolding p by (auto simp: bit_or_iff bit_push_bit_iff)
qed

lemma bit_littleEndian:
  "\<forall>x\<in>set b. x < 256 \<Longrightarrow> bit (littleEndian b) k \<longleftrightarrow> k div 8 < length b \<and> bit (b ! (k div 8)) (k mod 8)"
proof (induction b arbitrary: k)
  case Nil
  then show ?case by (simp add: littleEndian_def)
next
  case (Cons x b)
  have "bit (littleEndian (x # b)) k \<longleftrightarrow> (if k < 8 then bit x k else bit (littleEndian b) (k - 8))"
    using Cons.prems bit_byte_step[of x "littleEndian b" k] by (simp add: littleEndian_def)
  moreover have "k div 8 = Suc ((k - 8) div 8)" "k mod 8 = (k - 8) mod 8" if "\<not> k < 8"
    using that by (simp_all add: le_div_geq le_mod_geq not_less)
  ultimately show ?case using Cons by (cases "k < 8") auto
qed

lemma nixDigit_spec:
  assumes "\<forall>x\<in>set b. x < 256" "n * 5 < length b * 8"
  shows "nixDigit b n = littleEndian b div 32 ^ n mod 32"
proof (rule bit_eqI)
  fix k
  define i sh where "i = n * 5 div 8" and "sh = n * 5 mod 8"
  have i: "n * 5 = 8 * i + sh" "sh < 8" "i < length b" using assms(2) by (auto simp: i_def sh_def)
  have m: "(31 :: nat) = mask 5" by (simp add: mask_eq_exp_minus_1)
  have p: "(32 :: nat) ^ n = 2 ^ (n * 5)" by (simp add: power_mult power_mult[symmetric] mult.commute[of n] del: power_mult) (simp add: power_mult)
  have r: "bit (littleEndian b div 32 ^ n mod 32) k \<longleftrightarrow> k < 5 \<and> bit (littleEndian b) (n * 5 + k)"
    unfolding p by (simp add: flip: drop_bit_eq_div take_bit_eq_mod[of 5, simplified]) (auto simp: bit_take_bit_iff bit_drop_bit_eq)
  have lo: "(8 * i + sh + k) div 8 = i \<and> (8 * i + sh + k) mod 8 = sh + k" if "sh + k < 8"
    using that by (simp add: add.assoc)
  have hi: "(8 * i + sh + k) div 8 = Suc i \<and> (8 * i + sh + k) mod 8 = sh + k - 8" if "\<not> sh + k < 8" "k < 5"
  proof -
    have "8 * i + sh + k = 8 * Suc i + (sh + k - 8)" "sh + k - 8 < 8" using that i(2) by auto
    then show ?thesis by (metis add_cancel_right_right div_less div_mult_self4 mod_less mod_mult_self4 zero_neq_numeral)
  qed
  have bi: "\<not> bit (b ! i) j" if "8 \<le> j" for j using byte_bit assms(1) i(3) that by (meson not_less nth_mem)
  have l: "nixDigit b n = (if i + 1 < length b then drop_bit sh (b ! i) OR push_bit (8 - sh) (b ! (i + 1)) else drop_bit sh (b ! i)) AND 31"
    by (simp add: nixDigit_def Let_def i_def sh_def)
  show "bit (nixDigit b n) k \<longleftrightarrow> bit (littleEndian b div 32 ^ n mod 32) k"
    unfolding l r m i(1) bit_littleEndian[OF assms(1)]
    using lo hi bi i by (cases "sh + k < 8") (auto simp: bit_and_iff bit_or_iff bit_drop_bit_eq bit_push_bit_iff bit_mask_iff add.commute[of k sh])
qed

lemma hexVal_lower: "hexLower c \<Longrightarrow> \<exists>x. hexVal c = Some x \<and> x < 16"
  by (auto simp: hexLower_def hexVal_def)

lemma hexVal_inj:
  assumes "hexLower c" "hexLower d" "hexVal c = hexVal d"
  shows "c = d"
proof -
  have "list_all (\<lambda>c. list_all (\<lambda>d. hexVal c = hexVal d \<longrightarrow> c = d) ''abcdef0123456789'') ''abcdef0123456789''" by code_simp
  then show ?thesis using assms by (simp only: list_all_iff hexLower_def)
qed

lemma digit_step:
  assumes "(x :: nat) + m * a = y + m * b" "x < m" "y < m"
  shows "x = y \<and> a = b"
proof
  show "x = y" using arg_cong[OF assms(1), of "\<lambda>z. z mod m"] assms(2,3) by simp
  then show "a = b" using assms by simp
qed

lemma hexBytes_lower:
  assumes "list_all hexLower s" "length s = 2 * n"
  shows "length (hexBytes s) = n \<and> (\<forall>x\<in>set (hexBytes s). x < 256)"
  using assms
proof (induction s arbitrary: n rule: hexBytes.induct)
  case (1 c d r)
  obtain x y where xy: "hexVal c = Some x" "x < 16" "hexVal d = Some y" "y < 16" using hexVal_lower[of c] hexVal_lower[of d] 1(2) by auto
  obtain m where "n = Suc m" using 1(3) by (cases n) auto
  moreover have "length (hexBytes r) = m \<and> (\<forall>x\<in>set (hexBytes r). x < 256)" if "n = Suc m" for m
    using 1(2,3) xy that by (intro 1(1)) auto
  ultimately show ?case using xy by auto
qed auto

lemma hexBytes_inj:
  assumes "list_all hexLower s" "list_all hexLower t" "length s = 2 * n" "length t = 2 * n" "hexBytes s = hexBytes t"
  shows "s = t"
  using assms
proof (induction s arbitrary: t n rule: hexBytes.induct)
  case (1 c d r)
  then obtain c' d' r' where t: "t = c' # d' # r'" by (cases t; cases "tl t") auto
  obtain x y where xy: "hexVal c = Some x" "x < 16" "hexVal d = Some y" "y < 16" using hexVal_lower[of c] hexVal_lower[of d] 1(2) by auto
  obtain u v where uv: "hexVal c' = Some u" "u < 16" "hexVal d' = Some v" "v < 16" using hexVal_lower[of c'] hexVal_lower[of d'] 1(3) t by auto
  have r: "16 * x + y = 16 * u + v" "hexBytes r = hexBytes r'" using 1(6) xy uv t by auto
  then have "x = u" "y = v" "hexBytes r = hexBytes r'" using digit_step[of y 16 x v u] xy(4) uv(4) by (auto simp: ac_simps)
  moreover have "r = r'" using 1(2-5) t xy calculation(3) by (intro 1(1)[of _ _ x y r' "n - 1"]) auto
  ultimately show ?case using hexVal_inj 1(2,3) xy uv t by auto
qed auto

lemma littleEndian_bound: "\<forall>x\<in>set b. x < 256 \<Longrightarrow> littleEndian b < 256 ^ length b"
proof (induction b)
  case (Cons x b)
  then have "littleEndian b + 1 \<le> 256 ^ length b" by simp
  then have "256 * (littleEndian b + 1) \<le> 256 * 256 ^ length b" by (rule mult_le_mono2)
  then show ?case using Cons.prems by (simp add: littleEndian_def)
qed (simp add: littleEndian_def)

lemma littleEndian_inj:
  assumes "\<forall>x\<in>set b. x < 256" "\<forall>x\<in>set c. x < 256" "length b = length c" "littleEndian b = littleEndian c"
  shows "b = c"
  using assms(3,1,2,4)
proof (induction b c rule: list_induct2)
  case (Cons x b y c)
  have "x + 256 * littleEndian b = y + 256 * littleEndian c" using Cons.prems by (simp add: littleEndian_def)
  moreover have "x < 256" using Cons.prems by simp
  moreover have "y < 256" using Cons.prems by simp
  ultimately have "x = y \<and> littleEndian b = littleEndian c" by (rule digit_step)
  then show ?case using Cons by simp
qed simp

text \<open>A number below \<open>32 ^ m\<close> is determined by its \<open>m\<close> base-32 digits.\<close>

lemma digits32_inj:
  "(x :: nat) < 32 ^ m \<Longrightarrow> y < 32 ^ m \<Longrightarrow> (\<And>n. n < m \<Longrightarrow> x div 32 ^ n mod 32 = y div 32 ^ n mod 32) \<Longrightarrow> x = y"
proof (induction m arbitrary: x y)
  case (Suc m)
  have d: "z div 32 < 32 ^ m" if "z < 32 ^ Suc m" for z :: nat using that by (simp add: less_mult_imp_div_less mult.commute)
  have "x div 32 div 32 ^ n mod 32 = y div 32 div 32 ^ n mod 32" if "n < m" for n
    using Suc.prems(3)[of "Suc n"] that by (simp add: div_mult2_eq)
  then have "x div 32 = y div 32" using Suc.IH[OF d d] Suc.prems by blast
  moreover have "x mod 32 = y mod 32" using Suc.prems(3)[of 0] by simp
  ultimately show ?case by (metis div_mult_mod_eq)
qed simp

lemma nixAlphabet_inj: "x < 32 \<Longrightarrow> y < 32 \<Longrightarrow> nixAlphabet ! x = nixAlphabet ! y \<Longrightarrow> x = y"
proof -
  have "distinct nixAlphabet" "length nixAlphabet = 32" by (simp_all add: nixAlphabet_def)
  then show "x < 32 \<Longrightarrow> y < 32 \<Longrightarrow> nixAlphabet ! x = nixAlphabet ! y \<Longrightarrow> x = y" by (simp add: nth_eq_iff_index_eq)
qed

lemma sha256_bytes:
  assumes "sha256Pattern h"
  shows "length (hexBytes h) = 32" "\<forall>x\<in>set (hexBytes h). x < 256"
  using hexBytes_lower[of h 32] assms by (simp_all add: sha256Pattern_def)

lemma nixHash_digits:
  assumes "sha256Pattern h"
  shows "nixHash h = Some (map (\<lambda>n. nixAlphabet ! (littleEndian (hexBytes h) div 32 ^ n mod 32)) (rev [0..<52]))"
proof -
  note b = sha256_bytes[OF assms]
  have "hexBytes h \<noteq> []" using b(1) by auto
  then have "nixHash h = Some (map (\<lambda>n. nixAlphabet ! nixDigit (hexBytes h) n) (rev [0..<52]))" by (simp add: nixHash_def b(1))
  also have "\<dots> = Some (map (\<lambda>n. nixAlphabet ! (littleEndian (hexBytes h) div 32 ^ n mod 32)) (rev [0..<52]))"
    using nixDigit_spec[OF b(2)] b(1) by (simp cong: map_cong)
  finally show ?thesis .
qed

section \<open>Names stay inside the upload\<close>

lemma HasSuffix_iff: "HasSuffix s e \<longleftrightarrow> (\<exists>p. s = p @ e)"
  by (auto simp: HasSuffix_def) (metis append_take_drop_id)

lemma TrimSuffix_append [simp]: "TrimSuffix (p @ e) e = p"
  by (auto simp: TrimSuffix_def HasSuffix_iff)

lemma HasPrefix_iff: "HasPrefix s e \<longleftrightarrow> (\<exists>p. s = e @ p)"
  by (auto simp: HasPrefix_def) (metis append_take_drop_id)

definition nameChar :: "char \<Rightarrow> bool" where
  "nameChar c \<longleftrightarrow> alnum c \<or> c \<in> set ''._-''"

lemma nameChar_safe: "nameChar c \<Longrightarrow> c \<noteq> CHR ''/'' \<and> c \<noteq> CHR 0x5C \<and> c \<noteq> CHR 0x00"
  by (auto simp: nameChar_def alnum_def)

lemma plain_component: "e \<noteq> [] \<Longrightarrow> list_all nameChar e \<Longrightarrow> hd e \<noteq> CHR ''.'' \<Longrightarrow> plainElem e"
  using nameChar_safe by (cases e) (auto simp: plainElem_def list_all_iff)

lemma nixAlphabet_name: "c \<in> set nixAlphabet \<Longrightarrow> nameChar c \<and> c \<noteq> CHR ''.'' \<and> c \<noteq> CHR ''-''"
  by (auto simp: nixAlphabet_def nameChar_def alnum_def)

lemma cacheKey_name:
  assumes "cacheKey s"
  shows "s \<noteq> []" "list_all nameChar s" "hd s \<noteq> CHR ''.''"
proof -
  have s: "s = take 32 s @ ''.narinfo''" "length (take 32 s) = 32" "\<forall>c\<in>set (take 32 s). c \<in> set nixAlphabet"
    using assms append_take_drop_id[of 32 s] by (simp_all add: cacheKey_def list_all_iff)
  define p where "p = take 32 s"
  note s = s[folded p_def]
  have "list_all nameChar p" using s(3) nixAlphabet_name by (auto simp: list_all_iff)
  moreover have "list_all nameChar ''.narinfo''" by code_simp
  moreover note s(1)
  ultimately show "s \<noteq> []" "list_all nameChar s" by (metis list_all_append append_is_Nil_conv list.distinct(1))+
  have "hd p \<in> set p" "p \<noteq> []" using s(2) by (auto intro!: hd_in_set)
  then show "hd s \<noteq> CHR ''.''" using s(3) nixAlphabet_name by (subst s(1)) auto
qed

lemma narKey_parts:
  assumes "narKey s"
  obtains e where "s = ''nar/'' @ e" "e \<noteq> []" "list_all nameChar e" "hd e \<noteq> CHR ''.''"
proof -
  obtain x stem where e: "drop 4 s = stem @ x" "x \<in> {''.nar'', ''.nar.xz'', ''.nar.bz2'', ''.nar.zst''}" "narStem stem"
    using assms by (auto simp: narKey_def HasSuffix_iff)
  have s: "s = ''nar/'' @ drop 4 s" using assms by (auto simp: narKey_def HasPrefix_iff)
  obtain c cs where c: "stem = c # cs" "alnum c" "list_all nameChar cs" using e(3)
    by (auto simp: narStem_def nameChar_def list_all_iff split: list.splits)
  have "list_all nameChar x" using e(2) by (auto simp: nameChar_def alnum_def)
  then have "list_all nameChar (drop 4 s)" "hd (drop 4 s) \<noteq> CHR ''.''" "drop 4 s \<noteq> []"
    using c by (auto simp: e(1) nameChar_def alnum_def)
  with that s show ?thesis by blast
qed

lemma Name_join:
  assumes "es \<noteq> []" "\<forall>e\<in>set es. plainElem e \<and> CHR 0x5C \<notin> set e \<and> CHR 0x00 \<notin> set e"
  shows "Name (joinWith ''/'' es) = None"
proof -
  have "splitOn CHR ''/'' (joinWith ''/'' es) = es" using assms by (intro join_splitOn) (auto simp: plainElem_def)
  moreover have "c \<notin> set (joinWith ''/'' es)" if "c \<in> {CHR 0x5C, CHR 0x00}" for c
    using assms(2) that by (induction "''/''" es rule: joinWith.induct) auto
  ultimately show ?thesis using assms by (auto simp: Name_None_iff)
qed

lemma hexLower_name: "hexLower c \<Longrightarrow> nameChar c \<and> c \<noteq> CHR ''.''"
  by (auto simp: hexLower_def nameChar_def alnum_def)

lemma objectName_elems:
  assumes "objectName kind name"
  obtains es where "es \<noteq> []" "name = joinWith ''/'' es"
    "\<forall>e\<in>set es. e \<noteq> [] \<and> list_all nameChar e \<and> hd e \<noteq> CHR ''.''"
proof -
  have nar: "''nar/'' @ e = joinWith ''/'' [''nar'', e]" for e by simp
  have n: "list_all nameChar ''nar'' \<and> hd ''nar'' \<noteq> CHR ''.''" "list_all nameChar ''blob'' \<and> hd ''blob'' \<noteq> CHR ''.''"
    "list_all nameChar ''nix-cache-info'' \<and> hd ''nix-cache-info'' \<noteq> CHR ''.''"
    by (auto simp: nameChar_def alnum_def)
  consider "name \<in> {''blob'', ''nix-cache-info''}" | "cacheKey name" | "narKey name" using assms by (auto simp: objectName_def)
  then show ?thesis
  proof cases
    case 1
    with n show ?thesis by (intro that[of "[name]"]) auto
  next
    case 2
    then show ?thesis by (intro that[of "[name]"]) (auto simp: cacheKey_name)
  next
    case 3
    then obtain e where "name = ''nar/'' @ e" "e \<noteq> []" "list_all nameChar e" "hd e \<noteq> CHR ''.''" by (rule narKey_parts)
    then show ?thesis using n by (intro that[of "[''nar'', e]"]) auto
  qed
qed

lemma scanFields_known: "scanFields ls fs = Some gs \<Longrightarrow> list_all (\<lambda>(k, v). oneOf k narFields) fs \<Longrightarrow> list_all (\<lambda>(k, v). oneOf k narFields) gs"
  by (induction ls fs rule: scanFields.induct) (auto split: option.splits if_splits)

lemma store_reference:
  assumes "StorePattern (''/nix/store/'' @ r)"
  shows "cacheKey (beforeDash r @ ''.narinfo'')"
proof -
  have r: "length (take 32 r) = 32" "\<forall>c\<in>set (take 32 r). c \<in> set nixAlphabet" "take 1 (drop 32 r) = ''-''"
    using assms by (simp_all add: StorePattern_def nixAlphabet_def list_all_iff)
  then obtain q where "drop 32 r = CHR ''-'' # q" by (cases "drop 32 r") simp_all
  then have q: "r = take 32 r @ CHR ''-'' # q" using append_take_drop_id[of 32 r] by simp
  have "\<forall>c\<in>set (take 32 r). c \<noteq> CHR ''-''" using r(2) nixAlphabet_name by blast
  then have "beforeDash r = take 32 r" unfolding beforeDash_def by (subst q) (simp add: takeWhile_append2)
  then show ?thesis using r(1,2) by (simp add: cacheKey_def list_all_iff)
qed

lemma parseNarInfo_InrD:
  assumes "parseNarInfo name data = Inr n"
  shows "cacheKey name" "length data \<le> 65536" "narKey (ni_URL n)" "1 \<le> ni_Size n" "narHash (ni_Hash n)" "StorePattern (ni_Store n)"
    "HasPrefix (pathBase (ni_Store n)) (TrimSuffix name ''.narinfo'' @ ''-'')"
    "\<exists>refs. ni_References n = map (\<lambda>r. beforeDash r @ ''.narinfo'') refs \<and> (\<forall>r\<in>set refs. StorePattern (''/nix/store/'' @ r))"
  using assms unfolding parseNarInfo_def Let_def
  by (auto simp: list_ex_iff not_less split: if_splits option.splits)

section \<open>Properties\<close>

text \<open>
  C22. The optimised base-32 loop of \<^verbatim>\<open>nixHash\<close> spells the number whose little-endian bytes are the SHA-256 sum: its
  52 characters are that number's base-32 digits, most significant first.  Different sums are spelled
  differently, so a narinfo's base-32 checksum identifies one published object, and the spelling is one that
  \<^verbatim>\<open>narHash\<close> admits.
\<close>
theorem nixHash_faithful:
  assumes "sha256Pattern h" "sha256Pattern h'"
  shows "nixHash h = Some (map (\<lambda>n. nixAlphabet ! (littleEndian (hexBytes h) div 32 ^ n mod 32)) (rev [0..<52])) \<and>
    narHash (''sha256:'' @ the (nixHash h)) \<and> (nixHash h = nixHash h' \<longleftrightarrow> h = h')"
proof (intro conjI)
  note b = sha256_bytes[OF assms(1)] and b' = sha256_bytes[OF assms(2)]
  have lt: "littleEndian (hexBytes h) < 2 ^ 256" "littleEndian (hexBytes h') < 2 ^ 256"
    using littleEndian_bound[OF b(2)] littleEndian_bound[OF b'(2)] by (simp_all add: b(1) b'(1))
  have "(2 :: nat) ^ 256 \<le> 32 ^ 52" by simp
  then have lt': "littleEndian (hexBytes h) < 32 ^ 52" "littleEndian (hexBytes h') < 32 ^ 52" using lt by (meson less_le_trans)+
  show d: "nixHash h = Some (map (\<lambda>n. nixAlphabet ! (littleEndian (hexBytes h) div 32 ^ n mod 32)) (rev [0..<52]))"
    by (rule nixHash_digits[OF assms(1)])
  have top: "littleEndian (hexBytes h) div 32 ^ 51 < 2" using lt(1) by (simp add: less_mult_imp_div_less)
  have first: "rev [0..<52] = (51 :: nat) # rev [0..<51]" by (simp add: upt_rec[of 51 52] upt_Suc_append[of 0 51, simplified])
  have "list_all (\<lambda>c. c \<in> set ''01'') [nixAlphabet ! (littleEndian (hexBytes h) div 32 ^ 51 mod 32)]"
    using top by (auto simp: nixAlphabet_def less_2_cases_iff)
  moreover have "list_all (\<lambda>c. c \<in> set nixAlphabet) (map (\<lambda>n. nixAlphabet ! (x div 32 ^ n mod 32)) ns)" for x :: nat and ns
  proof -
    have "length nixAlphabet = 32" by (simp add: nixAlphabet_def)
    then show ?thesis by (simp add: list_all_iff)
  qed
  ultimately show "narHash (''sha256:'' @ the (nixHash h))" unfolding d first by (simp add: narHash_def HasPrefix_def)
  show "nixHash h = nixHash h' \<longleftrightarrow> h = h'"
  proof
    assume "nixHash h = nixHash h'"
    then have "map (\<lambda>n. nixAlphabet ! (littleEndian (hexBytes h) div 32 ^ n mod 32)) (rev [0..<52]) =
        map (\<lambda>n. nixAlphabet ! (littleEndian (hexBytes h') div 32 ^ n mod 32)) (rev [0..<52])"
      unfolding nixHash_digits[OF assms(1)] nixHash_digits[OF assms(2)] option.inject .
    then have "nixAlphabet ! (littleEndian (hexBytes h) div 32 ^ n mod 32) = nixAlphabet ! (littleEndian (hexBytes h') div 32 ^ n mod 32)"
      if "n < 52" for n
      using that zero_le[of n] unfolding map_eq_conv set_rev set_upt Ball_def atLeastLessThan_iff by blast
    then have "littleEndian (hexBytes h) div 32 ^ n mod 32 = littleEndian (hexBytes h') div 32 ^ n mod 32" if "n < 52" for n
      using that by (intro nixAlphabet_inj) simp_all
    then have "littleEndian (hexBytes h) = littleEndian (hexBytes h')" using digits32_inj[of "littleEndian (hexBytes h)" 52 "littleEndian (hexBytes h')"] lt' by blast
    then have "hexBytes h = hexBytes h'" using b b' by (intro littleEndian_inj) simp_all
    then show "h = h'" using assms hexBytes_inj[of h h' 32] by (simp add: sha256Pattern_def)
  qed simp
qed

text \<open>
  C23. Uploaded metadata cannot name anything outside its upload: every object name the service admits, and every
  object and reference an accepted narinfo names, is an ordinary relative path below the upload's directory.
\<close>
theorem narinfo_confined:
  assumes "parseNarInfo name data = Inr n" "IDPattern ident" "x \<in> set (name # ni_URL n # ni_References n)"
  shows "objectName ''cache'' x \<and> Name (''transfers/'' @ ident @ ''/'' @ x) = None"
proof
  note p = parseNarInfo_InrD[OF assms(1)]
  obtain refs where r: "ni_References n = map (\<lambda>r. beforeDash r @ ''.narinfo'') refs" "\<forall>r\<in>set refs. StorePattern (''/nix/store/'' @ r)"
    using p(8) by blast
  show o: "objectName ''cache'' x" using assms(3) p(1,3) r store_reference by (auto simp only: objectName_def set_simps set_map)
  then obtain es where es: "es \<noteq> []" "x = joinWith ''/'' es" "\<forall>e\<in>set es. e \<noteq> [] \<and> list_all nameChar e \<and> hd e \<noteq> CHR ''.''"
    by (rule objectName_elems)
  have i: "ident \<noteq> []" "list_all nameChar ident" "hd ident \<noteq> CHR ''.''"
    using assms(2) hexLower_name by (cases ident; auto simp: IDPattern_def list_all_iff)+
  have "list_all nameChar ''transfers'' \<and> hd ''transfers'' \<noteq> CHR ''.''" by (auto simp: nameChar_def alnum_def)
  with i es have n: "\<forall>e\<in>set (''transfers'' # ident # es). e \<noteq> [] \<and> list_all nameChar e \<and> hd e \<noteq> CHR ''.''" by simp
  have "Name (joinWith ''/'' (''transfers'' # ident # es)) = None"
    using n nameChar_safe by (intro Name_join) (auto simp: plain_component list_all_iff)
  moreover have "joinWith ''/'' (''transfers'' # ident # es) = ''transfers/'' @ ident @ ''/'' @ x"
    using es(1,2) by (cases es) auto
  ultimately show "Name (''transfers/'' @ ident @ ''/'' @ x) = None" by simp
qed

section \<open>Witnesses\<close>

definition sampleSum :: string where
  "sampleSum = ''e3b0c44298fc1c149afbf4c8996fb92427ae41e4649b934ca495991b7852b855''"

theorem nixHash_faithful_witness:
  "narHash (''sha256:'' @ the (nixHash sampleSum)) \<and> nixHash sampleSum \<noteq> nixHash (rev sampleSum)"
proof -
  have "sha256Pattern sampleSum" by (simp add: sampleSum_def sha256Pattern_def hexLower_def)
  moreover have "sha256Pattern (rev sampleSum)" by (simp add: sampleSum_def sha256Pattern_def hexLower_def)
  moreover have "sampleSum \<noteq> rev sampleSum" by (simp add: sampleSum_def)
  ultimately show ?thesis using nixHash_faithful[of sampleSum "rev sampleSum"] by blast
qed

definition sampleKey :: string where
  "sampleKey = ''0123456789abcdfghijklmnpqrsvwxyz''"

definition sampleNarinfo :: string where
  "sampleNarinfo = concat (map (\<lambda>l. l @ [CHR 0x0A])
    [''StorePath: /nix/store/'' @ sampleKey @ ''-hello'', ''URL: nar/hello.nar.xz'', ''Compression: xz'',
     ''FileHash: sha256:'' @ sampleSum, ''FileSize: 120'', ''NarHash: sha256:'' @ sampleSum, ''NarSize: 240'',
     ''References: '' @ sampleKey @ ''-hello '' @ rev sampleKey @ ''-libc''])"

definition sampleInfo :: narInfo where
  "sampleInfo = \<lparr>ni_Store = ''/nix/store/'' @ sampleKey @ ''-hello'', ni_URL = ''nar/hello.nar.xz'', ni_Hash = ''sha256:'' @ sampleSum,
     ni_Size = 120, ni_References = [sampleKey @ ''.narinfo'', rev sampleKey @ ''.narinfo'']\<rparr>"

lemma sampleNarinfo_parses: "parseNarInfo (sampleKey @ ''.narinfo'') sampleNarinfo = Inr sampleInfo"
  by (simp add: parseNarInfo_def sampleNarinfo_def sampleInfo_def sampleKey_def sampleSum_def cacheKey_def nixAlphabet_def
      scanLines_def dropCR_def narFields_def fieldOf_def ParseInt_def digitVal_def StorePattern_def HasPrefix_def TrimSuffix_def HasSuffix_def
      pathBase_def narKey_def narStem_def alnum_def narHash_def sha256Pattern_def hexLower_def Fields_def spaceWidth_def beforeDash_def)

theorem narinfo_confined_witness:
  "objectName ''cache'' ''nar/hello.nar.xz'' \<and> Name (''transfers/'' @ replicate 32 CHR ''a'' @ ''/'' @ ''nar/hello.nar.xz'') = None"
proof -
  have "IDPattern (replicate 32 CHR ''a'')" by (simp add: IDPattern_def hexLower_def list_all_iff)
  from narinfo_confined[OF sampleNarinfo_parses this] show ?thesis by (simp add: sampleInfo_def)
qed

end
