(* ===== verification/Uploads.thy ===== *)
theory Uploads
  imports Narinfo Lab "HOL-Library.AList" "HOL-Library.Char_ord" "HOL-Library.List_Lexorder"
begin

text \<open>
  Uploaded inputs: \<^verbatim>\<open>internal/control/transfers.go\<close>, \<^verbatim>\<open>upload_manifest.go\<close> and \<^verbatim>\<open>repository_transfers.go\<close>, with
  the input budget of \<^verbatim>\<open>retention.go\<close>.

  An upload declares its objects in an immutable manifest, reserves their bytes, receives the bodies one by one
  and becomes ready when the last declared object is published.  Each section of a handler under \<^verbatim>\<open>s.mu\<close> is
  one definition; what a handler carries from one section to the next is its \<open>upc\<close>, and the per-upload mutex
  (\<^verbatim>\<open>transferLocks\<close>) means that there is at most one per upload.  The outcome of a transaction, of a system
  call or of the request's context is an argument; a transaction that reports an error has no effect.  The
  revision counters of \<^verbatim>\<open>VersionState\<close> are left out.
\<close>

section \<open>Data\<close>

record TransferObject =
  ob_Size :: int
  ob_SHA256 :: string
  ob_File :: string

record Transfer =
  tr_ManifestDigest :: string
  tr_ReservedBytes :: int
  tr_Derivation :: string
  tr_System :: string
  tr_Updated :: gotime
  tr_ID :: string
  tr_TaskID :: string
  tr_Kind :: string
  tr_State :: string
  tr_Created :: gotime
  tr_Objects :: "(string \<times> TransferObject) list"
  tr_Bytes :: int

record UploadObject =
  uo_Name :: string
  uo_Size :: int
  uo_SHA256 :: string

record UploadManifest =
  um_UploadID :: string
  um_Derivation :: string
  um_System :: string
  um_Objects :: "UploadObject list"

text \<open>A row of the table \<^verbatim>\<open>transfer_objects\<close>; its body is \<^verbatim>\<open>NULL\<close> until the object is published.\<close>

record ObjectRow =
  or_Name :: string
  or_Size :: int
  or_SHA256 :: string
  or_Body :: "TransferObject option"

text \<open>Where the handler that holds an upload's mutex stands.\<close>

datatype upc =
    PManifest UploadManifest string
  | PObject string int string
  | PVerify
  | PReady

text \<open>
  The upload part of the controller: the identifiers drawn so far, the map \<^verbatim>\<open>s.transfers\<close>, the two tables, the
  handlers in progress and \<^verbatim>\<open>s.closed\<close>.
\<close>

record UState =
  us_IDs :: "string list"
  us_mem :: "string \<Rightarrow> Transfer option"
  us_table :: "string \<Rightarrow> Transfer option"
  us_rows :: "string \<Rightarrow> ObjectRow list"
  us_busy :: "string \<Rightarrow> upc option"
  us_closed :: bool

datatype reply = HOk | HErr int goerr

section \<open>Storage\<close>

text \<open>The fields of a transfer that are stored (the others are tagged \<^verbatim>\<open>json:"-"\<close>), and \<^verbatim>\<open>Server.persist\<close>.\<close>

definition header :: "Transfer \<Rightarrow> Transfer" where
  "header t = t\<lparr>tr_Objects := [], tr_Bytes := 0\<rparr>"

definition Transfer_store :: "Transfer \<Rightarrow> UState \<Rightarrow> UState" where
  "Transfer_store t s = s\<lparr>us_table := (us_table s)(tr_ID t \<mapsto> header t)\<rparr>"

definition persistTransfer :: "goerr option \<Rightarrow> Transfer \<Rightarrow> UState \<Rightarrow> UState" where
  "persistTransfer tx t s = (case tx of None \<Rightarrow> Transfer_store t s | Some e \<Rightarrow> s\<lparr>us_closed := True\<rparr>)"

definition setMem :: "Transfer \<Rightarrow> UState \<Rightarrow> UState" where
  "setMem t s = s\<lparr>us_mem := (us_mem s)(tr_ID t \<mapsto> t)\<rparr>"

definition setBusy :: "string \<Rightarrow> upc option \<Rightarrow> UState \<Rightarrow> UState" where
  "setBusy ident pc s = s\<lparr>us_busy := (us_busy s)(ident := pc)\<rparr>"

definition declaredRow :: "UploadObject \<Rightarrow> ObjectRow" where
  "declaredRow u = \<lparr>or_Name = uo_Name u, or_Size = uo_Size u, or_SHA256 = uo_SHA256 u, or_Body = None\<rparr>"

text \<open>\<^verbatim>\<open>DeclareUpload\<close>: the names of one upload are unique in the table.\<close>

fun insertRows :: "UploadObject list \<Rightarrow> ObjectRow list \<Rightarrow> ObjectRow list option" where
  "insertRows [] rows = Some rows"
| "insertRows (u # us) rows =
    (if uo_Name u \<in> set (map or_Name rows) then None else insertRows us (rows @ [declaredRow u]))"

definition DeclareUpload :: "goerr option \<Rightarrow> Transfer \<Rightarrow> UploadObject list \<Rightarrow> UState \<Rightarrow> UState res" where
  "DeclareUpload tx t items s =
    (case insertRows items (us_rows s (tr_ID t)) of
       None \<Rightarrow> Inl (EText ''UNIQUE constraint failed: transfer_objects'')
     | Some rows \<Rightarrow> (case tx of
          Some e \<Rightarrow> Inl e
        | None \<Rightarrow> Inr (Transfer_store t (s\<lparr>us_rows := (us_rows s)(tr_ID t := rows)\<rparr>))))"

definition findRow :: "string \<Rightarrow> ObjectRow list \<Rightarrow> ObjectRow option" where
  "findRow name rows = List.find (\<lambda>r. or_Name r = name) rows"

definition publishRow :: "string \<Rightarrow> TransferObject \<Rightarrow> ObjectRow \<Rightarrow> ObjectRow" where
  "publishRow name b r =
    (if or_Name r = name \<and> or_Body r = None \<and> or_Size r = ob_Size b \<and> or_SHA256 r = ob_SHA256 b
     then r\<lparr>or_Body := Some b\<rparr> else r)"

text \<open>\<^verbatim>\<open>StoreTransferObject\<close>: the update, or the check that the retained body is this one.\<close>

definition StoreTransferObject :: "goerr option \<Rightarrow> string \<Rightarrow> TransferObject \<Rightarrow> ObjectRow list \<Rightarrow> ObjectRow list res" where
  "StoreTransferObject tx name b rows =
    (if list_ex (\<lambda>r. publishRow name b r \<noteq> r) rows
     then (case tx of Some e \<Rightarrow> Inl e | None \<Rightarrow> Inr (map (publishRow name b) rows))
     else (case findRow name rows of
             None \<Rightarrow> Inl (EText ''sql: no rows in result set'')
           | Some r \<Rightarrow> if or_Body r \<noteq> Some b then Inl (Fail ''object_conflict'' ''Upload object does not match its immutable publication'')
                      else (case tx of Some e \<Rightarrow> Inl e | None \<Rightarrow> Inr rows)))"

text \<open>\<^verbatim>\<open>TransferObjects\<close>: the published objects and their bytes.  (Its range checks hold of every row this code wrote.)\<close>

definition publishedObjects :: "ObjectRow list \<Rightarrow> (string \<times> TransferObject) list" where
  "publishedObjects rows = List.map_filter (\<lambda>r. map_option (Pair (or_Name r)) (or_Body r)) rows"

definition publishedBytes :: "ObjectRow list \<Rightarrow> int" where
  "publishedBytes rows = (\<Sum>(n, b)\<leftarrow>publishedObjects rows. ob_Size b)"

definition loadTransfer :: "Transfer \<Rightarrow> ObjectRow list \<Rightarrow> Transfer" where
  "loadTransfer u rows = u\<lparr>tr_Objects := publishedObjects rows, tr_Bytes := publishedBytes rows\<rparr>"

text \<open>\<^verbatim>\<open>Server.transfer\<close>: from memory, else a copy from the store.\<close>

definition Server_transfer :: "UState \<Rightarrow> string \<Rightarrow> Transfer res" where
  "Server_transfer s ident =
    (case us_mem s ident of
       Some t \<Rightarrow> Inr t
     | None \<Rightarrow> (case us_table s ident of
         Some u \<Rightarrow> Inr (loadTransfer u (us_rows s ident))
       | None \<Rightarrow> Inl (Fail ''not_found'' ''Upload not found'')))"

section \<open>Budget\<close>

definition usage :: "Transfer option \<Rightarrow> int" where
  "usage x = (case x of None \<Rightarrow> 0 | Some t \<Rightarrow> if tr_State t \<noteq> ''retained'' then max (tr_Bytes t) (tr_ReservedBytes t) else 0)"

definition inputUsage :: "UState \<Rightarrow> int" where
  "inputUsage s = (\<Sum>i\<leftarrow>us_IDs s. usage (us_mem s i))"

definition uploadAllowed :: "(string \<Rightarrow> Task res) \<Rightarrow> bool \<Rightarrow> Transfer \<Rightarrow> goerr option" where
  "uploadAllowed taskOf stopping t =
    (if stopping then Some (Fail ''unavailable'' ''Service is stopping'')
     else if tr_State t \<noteq> ''open'' then Some (Fail ''immutable'' ''Upload is read-only'')
     else if tr_TaskID t \<noteq> [] then
       (case taskOf (tr_TaskID t) of
          Inl e \<Rightarrow> Some e
        | Inr k \<Rightarrow> if Terminal k \<or> t_Purged k then Some (Fail ''invalid_state'' ''Upload requires a queued, preparing or running task'') else None)
     else None)"

section \<open>Creating and declaring an upload\<close>

definition createTransfer :: "Storage \<Rightarrow> bool \<Rightarrow> goerr option \<Rightarrow> goerr option \<Rightarrow> gotime \<Rightarrow> string \<Rightarrow> string \<Rightarrow> UState \<Rightarrow> goerr option \<times> UState" where
  "createTransfer cfg storageBlocked mkdir tx now kind ident s =
    (if kind \<noteq> ''file'' \<and> kind \<noteq> ''cache'' then (Some (Fail ''invalid_argument'' ''Transfer kind must be file or cache''), s)
     else if storageBlocked then (Some (Fail ''storage_pressure'' ''Evidence storage is unavailable or above budget; existing execution and cleanup remain available''), s)
     else if inputUsage s \<ge> st_InputBytes cfg then (Some (Fail ''quota_exceeded'' ''Input staging budget is full''), s)
     else let t = \<lparr>tr_ManifestDigest = [], tr_ReservedBytes = 0, tr_Derivation = [], tr_System = [], tr_Updated = now, tr_ID = ident,
                   tr_TaskID = [], tr_Kind = kind, tr_State = ''open'', tr_Created = now, tr_Objects = [], tr_Bytes = 0\<rparr> in
       (case mkdir of
          Some e \<Rightarrow> (Some e, s)
        | None \<Rightarrow> (case tx of
            Some e \<Rightarrow> (Some e, s)
          | None \<Rightarrow> (None, setMem t (Transfer_store t (s\<lparr>us_IDs := us_IDs s @ [ident]\<rparr>))))))"

definition invalidManifest :: "string \<Rightarrow> reply" where
  "invalidManifest m = HErr 400 (Fail ''invalid_manifest'' m)"

text \<open>The loop over the sorted objects; \<open>bytes\<close> and \<open>previous\<close> are its variables.\<close>

fun checkObjects :: "int \<Rightarrow> string \<Rightarrow> int \<Rightarrow> string \<Rightarrow> UploadObject list \<Rightarrow> int option" where
  "checkObjects budget kind bytes previous [] = Some bytes"
| "checkObjects budget kind bytes previous (u # us) =
    (if \<not> objectName kind (uo_Name u) \<or> uo_Name u = previous \<or> \<not> sha256Pattern (uo_SHA256 u) \<or> uo_Size u < 0 \<or>
        uo_Size u > budget - bytes
     then None else checkObjects budget kind (bytes + uo_Size u) (uo_Name u) us)"

definition sortedManifest :: "UploadManifest \<Rightarrow> UploadManifest" where
  "sortedManifest m = m\<lparr>um_Objects := sort_key uo_Name (um_Objects m)\<rparr>"

text \<open>The checks of \<^verbatim>\<open>uploadManifest\<close> before it takes the mutex: a refusal, or the sorted manifest and its bytes.\<close>

definition checkManifest :: "Storage \<Rightarrow> string \<Rightarrow> string \<Rightarrow> UploadManifest \<Rightarrow> (reply, UploadManifest \<times> int) sum" where
  "checkManifest cfg ident kind m =
    (let objs = um_Objects m; d = um_Derivation m in
     if um_UploadID m \<noteq> ident \<or> length objs < 1 \<or> length objs > 100000
     then Inl (invalidManifest ''Expected this upload ID and 1..100000 objects'')
     else if kind = ''file'' \<and> (length objs \<noteq> 1 \<or> uo_Name (objs ! 0) \<noteq> ''blob'' \<or> d \<noteq> [] \<or> um_System m \<noteq> [])
     then Inl (invalidManifest ''File input requires one blob object'')
     else if kind = ''cache'' \<and> (\<not> StorePattern d \<or> \<not> HasSuffix d ''.drv'' \<or> \<not> oneOf (um_System m) [''x86_64-linux'', ''aarch64-linux''])
     then Inl (invalidManifest ''Nix input requires its derivation and system'')
     else let sm = sortedManifest m in
       (case checkObjects (st_MaxUploadBytes cfg) kind 0 [] (um_Objects sm) of
          None \<Rightarrow> Inl (invalidManifest ''Invalid object identity, checksum or byte budget'')
        | Some bytes \<Rightarrow>
            if kind = ''cache'' \<and>
               (\<not> list_ex (\<lambda>u. uo_Name u = beforeDash (pathBase d) @ ''.narinfo'') objs \<or> \<not> list_ex (\<lambda>u. uo_Name u = ''nix-cache-info'') objs)
            then Inl (invalidManifest ''Nix manifest must contain its derivation and cache description'')
            else Inr (sm, bytes)))"

text \<open>The first section under the mutex: an equal manifest is confirmed, a new one reserves its bytes.\<close>

definition manifestReserve :: "Storage \<Rightarrow> (UploadManifest \<Rightarrow> string) \<Rightarrow> (string \<Rightarrow> Task res) \<Rightarrow> UploadManifest \<Rightarrow> Transfer \<Rightarrow> UState \<Rightarrow> reply option \<times> UState" where
  "manifestReserve cfg digest taskOf m t s =
    (case checkManifest cfg (tr_ID t) (tr_Kind t) m of
       Inl r \<Rightarrow> (Some r, s)
     | Inr (sm, bytes) \<Rightarrow>
        if tr_ManifestDigest t \<noteq> [] then
          (Some (if tr_ManifestDigest t = digest sm then HOk else HErr 409 (Fail ''manifest_conflict'' ''Upload manifest is immutable'')), s)
        else (case uploadAllowed taskOf (us_closed s) t of
          Some e \<Rightarrow> (Some (HErr 409 e), s)
        | None \<Rightarrow>
            if bytes > st_InputBytes cfg - inputUsage s
            then (Some (HErr 409 (Fail ''quota_exceeded'' ''Input reservation exceeds the staging budget'')), s)
            else (None, setBusy (tr_ID t) (Some (PManifest sm (digest sm))) (setMem (t\<lparr>tr_ReservedBytes := bytes\<rparr>) s))))"

text \<open>The second section: \<open>err\<close> is the outcome of writing the file or of the request's context.\<close>

definition manifestCommit :: "(string \<Rightarrow> Task res) \<Rightarrow> goerr option \<Rightarrow> goerr option \<Rightarrow> gotime \<Rightarrow> UploadManifest \<Rightarrow> string \<Rightarrow> Transfer \<Rightarrow> UState \<Rightarrow> reply \<times> UState" where
  "manifestCommit taskOf err tx now m dg t s =
    (let unreserved = setBusy (tr_ID t) None (setMem (t\<lparr>tr_ReservedBytes := 0\<rparr>) s) in
     case orElse err (uploadAllowed taskOf (us_closed s) t) of
       Some e \<Rightarrow> (HErr 409 e, unreserved)
     | None \<Rightarrow>
        let declared = t\<lparr>tr_ManifestDigest := dg, tr_Derivation := um_Derivation m, tr_System := um_System m, tr_Updated := now\<rparr> in
        (case DeclareUpload tx declared (um_Objects m) s of
           Inl e \<Rightarrow> (HErr 409 e, unreserved)
         | Inr s' \<Rightarrow> (HOk, setBusy (tr_ID t) None (setMem declared s'))))"

section \<open>Receiving objects\<close>

text \<open>
  The head of \<^verbatim>\<open>Files\<close> for a \<^verbatim>\<open>PUT\<close>: the upload exists, the name is one it may have, the capability allows
  writing and the upload is not closed to writers.
\<close>

definition filesPut :: "string \<Rightarrow> string \<Rightarrow> string \<Rightarrow> UState \<Rightarrow> (reply, Transfer) sum" where
  "filesPut right ident name s =
    (case Server_transfer s ident of
       Inl _ \<Rightarrow> Inl (HErr 404 (Fail ''not_found'' ''Object not found''))
     | Inr t \<Rightarrow>
        if name \<noteq> ''manifest'' \<and> \<not> objectName (tr_Kind t) name then Inl (HErr 404 (Fail ''not_found'' ''Object not found''))
        else if right \<noteq> ''write'' \<or> us_closed s \<or> \<not> oneOf (tr_State t) [''open'', ''ready'']
        then Inl (HErr 409 (Fail ''immutable'' ''Upload is read-only''))
        else Inr t)"

text \<open>
  The rest of that section for an object: refused, a repetition of a published object (\<open>True\<close>), or a new body.
\<close>

definition objectBegin :: "(string \<Rightarrow> Task res) \<Rightarrow> string \<Rightarrow> int \<Rightarrow> Transfer \<Rightarrow> UState \<Rightarrow> (reply, bool \<times> int \<times> string) sum" where
  "objectBegin taskOf name contentLength t s =
    (case findRow name (us_rows s (tr_ID t)) of
       None \<Rightarrow> Inl (HErr 409 (Fail ''manifest_required'' ''Object must be declared in the immutable manifest''))
     | Some r \<Rightarrow>
        (case uploadAllowed taskOf (us_closed s) t of
           Some e \<Rightarrow> if tr_State t \<noteq> ''ready'' then Inl (HErr 409 e)
             else if map_of (tr_Objects t) name = None \<and> 0 \<le> contentLength \<and> contentLength \<noteq> or_Size r
             then Inl (HErr 400 (Fail ''size_mismatch'' ''Object length differs from manifest''))
             else Inr (map_of (tr_Objects t) name \<noteq> None, or_Size r, or_SHA256 r)
         | None \<Rightarrow>
             if map_of (tr_Objects t) name = None \<and> 0 \<le> contentLength \<and> contentLength \<noteq> or_Size r
             then Inl (HErr 400 (Fail ''size_mismatch'' ''Object length differs from manifest''))
             else Inr (map_of (tr_Objects t) name \<noteq> None, or_Size r, or_SHA256 r)))"

text \<open>\<^verbatim>\<open>hashFile\<close>: the size and sum of a body no longer than the limit; \<open>err\<close> is a failed read.\<close>

definition hashFile :: "(string \<Rightarrow> string) \<Rightarrow> goerr option \<Rightarrow> string \<Rightarrow> int \<Rightarrow> (int \<times> string) res" where
  "hashFile sha err body limit =
    (case err of
       Some e \<Rightarrow> Inl e
     | None \<Rightarrow> if int (length body) > limit then Inl (Fail ''quota_exceeded'' ''File exceeds limit'')
               else Inr (int (length body), sha body))"

definition sameObject :: "(string \<Rightarrow> string) \<Rightarrow> goerr option \<Rightarrow> string \<Rightarrow> int \<Rightarrow> TransferObject \<Rightarrow> bool" where
  "sameObject sha err body limit previous =
    (case hashFile sha err body limit of Inl _ \<Rightarrow> False | Inr (n, h) \<Rightarrow> n = ob_Size previous \<and> h = ob_SHA256 previous)"

text \<open>Cache metadata is checked before it is stored; at most \<^verbatim>\<open>quota+1\<close> bytes of it are read.\<close>

definition cacheDescription :: string where
  "cacheDescription = ''StoreDir: /nix/store'' @ [CHR 0x0A] @ ''WantMassQuery: 1'' @ [CHR 0x0A] @ ''Priority: 30'' @ [CHR 0x0A]"

definition bodyCheck :: "string \<Rightarrow> string \<Rightarrow> goerr option" where
  "bodyCheck name data =
    (if \<not> (HasSuffix name ''.narinfo'' \<or> name = ''nix-cache-info'') then None
     else if name \<noteq> ''nix-cache-info'' then (case parseNarInfo name data of Inl e \<Rightarrow> Some e | Inr _ \<Rightarrow> None)
     else if data \<noteq> cacheDescription then Some (Fail ''invalid_cache'' ''Cache description is service-owned'')
     else None)"

text \<open>
  Staging the body (\<^verbatim>\<open>safefs.Root.Write\<close> with the declared size as its limit, \<open>werr\<close> being its failure) and
  comparing it with the declaration: a refusal, or the object to publish.
\<close>

definition stageObject :: "(string \<Rightarrow> string) \<Rightarrow> bool \<Rightarrow> goerr option \<Rightarrow> string \<Rightarrow> string \<Rightarrow> int \<Rightarrow> string \<Rightarrow> string \<Rightarrow> (reply, TransferObject) sum" where
  "stageObject sha cancelled werr body name expectedSize expectedHash storageName =
    (case bodyCheck name (take (nat (expectedSize + 1)) body) of
       Some e \<Rightarrow> Inl (HErr 400 e)
     | None \<Rightarrow>
        let data = (if HasSuffix name ''.narinfo'' \<or> name = ''nix-cache-info'' then take (nat (expectedSize + 1)) body else body);
            e = orElse werr (if int (length data) > expectedSize then Some (Fail ''quota_exceeded'' ''File exceeds limit'') else None) in
        (case e of
           Some e \<Rightarrow> Inl (if cancelled then HErr 408 (Fail ''upload_cancelled'' ''Upload ended before publication'') else HErr 413 e)
         | None \<Rightarrow>
            if int (length data) \<noteq> expectedSize \<or> sha data \<noteq> expectedHash
            then Inl (HErr 400 (Fail ''integrity_mismatch'' ''Object size or SHA-256 differs from manifest''))
            else Inr \<lparr>ob_Size = int (length data), ob_SHA256 = sha data, ob_File = storageName\<rparr>))"

text \<open>\<^verbatim>\<open>publishTransferObject\<close>: the index, then the memory, then the stored header.\<close>

definition publishTransferObject :: "goerr option \<Rightarrow> goerr option \<Rightarrow> gotime \<Rightarrow> string \<Rightarrow> TransferObject \<Rightarrow> Transfer \<Rightarrow> UState \<Rightarrow> UState res" where
  "publishTransferObject tx ptx now name b t s =
    (case StoreTransferObject tx name b (us_rows s (tr_ID t)) of
       Inl e \<Rightarrow> Inl e
     | Inr rows \<Rightarrow>
        let t' = t\<lparr>tr_Bytes := tr_Bytes t + ob_Size b, tr_Objects := AList.update name b (tr_Objects t), tr_Updated := now\<rparr> in
        Inr (persistTransfer ptx t' (setMem t' (s\<lparr>us_rows := (us_rows s)(tr_ID t := rows)\<rparr>))))"

definition objectPublish :: "(string \<Rightarrow> Task res) \<Rightarrow> goerr option \<Rightarrow> goerr option \<Rightarrow> goerr option \<Rightarrow> gotime \<Rightarrow> string \<Rightarrow> TransferObject \<Rightarrow> Transfer \<Rightarrow> UState \<Rightarrow> reply option \<times> UState" where
  "objectPublish taskOf ctxErr tx ptx now name b t s =
    (case orElse ctxErr (uploadAllowed taskOf (us_closed s) t) of
       Some e \<Rightarrow> (Some (HErr 409 e), setBusy (tr_ID t) None s)
     | None \<Rightarrow> (case publishTransferObject tx ptx now name b t s of
         Inl e \<Rightarrow> (Some (HErr 409 e), setBusy (tr_ID t) None s)
       | Inr s' \<Rightarrow> (None, setBusy (tr_ID t) (Some PVerify) s')))"

section \<open>Completing an upload\<close>

text \<open>One narinfo against the published objects; \<open>read\<close> gives the contents of a stored file.\<close>

definition invalidCache :: "string \<Rightarrow> goerr" where
  "invalidCache m = Fail ''invalid_cache'' m"

definition verifyNarinfo :: "(string \<Rightarrow> string res) \<Rightarrow> (string \<times> TransferObject) list \<Rightarrow> string \<Rightarrow> TransferObject \<Rightarrow> goerr option" where
  "verifyNarinfo read objs name b =
    (case read (ob_File b) of
       Inl e \<Rightarrow> Some e
     | Inr data \<Rightarrow> (case parseNarInfo name data of
         Inl e \<Rightarrow> Some e
       | Inr info \<Rightarrow> (case map_of objs (ni_URL info) of
           None \<Rightarrow> Some (invalidCache ''NAR object is missing or its size/checksum differs'')
         | Some nar \<Rightarrow>
            if ob_Size nar \<noteq> ni_Size info \<or>
               ni_Hash info \<noteq> ''sha256:'' @ ob_SHA256 nar \<and> Some (ni_Hash info) \<noteq> map_option ((@) ''sha256:'') (nixHash (ob_SHA256 nar))
            then Some (invalidCache ''NAR object is missing or its size/checksum differs'')
            else if list_ex (\<lambda>r. map_of objs r = None) (ni_References info)
            then Some (invalidCache ''Cache does not contain its declared closure'')
            else None)))"

fun firstError :: "goerr option list \<Rightarrow> goerr option" where
  "firstError [] = None"
| "firstError (x # xs) = (case x of Some e \<Rightarrow> Some e | None \<Rightarrow> firstError xs)"

text \<open>
  \<^verbatim>\<open>verifyUpload\<close> up to its last section, over the snapshot: an error, nothing to do yet (\<^verbatim>\<open>nil\<close>), or ready.
  \<open>qerr\<close> is a failure of the counting query.
\<close>

datatype verdict = VError goerr | VPending | VComplete

definition verifyUpload :: "(string \<Rightarrow> string res) \<Rightarrow> goerr option \<Rightarrow> Transfer \<Rightarrow> ObjectRow list \<Rightarrow> verdict" where
  "verifyUpload read qerr t rows =
    (if tr_State t = ''ready'' then VPending
     else if tr_State t \<noteq> ''open'' \<or> tr_ManifestDigest t = []
     then VError (Fail ''conflict'' ''Transfer is unavailable or upload is still in progress'')
     else case qerr of
       Some e \<Rightarrow> VError e
     | None \<Rightarrow>
        if list_ex (\<lambda>r. or_Body r = None) rows then VPending
        else if tr_Kind t = ''file'' then
          (if map_of (tr_Objects t) ''blob'' = None then VError (Fail ''invalid_transfer'' ''Upload has no content'') else VComplete)
        else let infos = filter (\<lambda>(n, b). cacheKey n) (tr_Objects t) in
          (case firstError (map (\<lambda>(n, b). verifyNarinfo read (tr_Objects t) n b) infos) of
             Some e \<Rightarrow> VError e
           | None \<Rightarrow> if infos = [] then VError (invalidCache ''Cache contains no derivations'') else VComplete))"

text \<open>Its last section.\<close>

definition markReady :: "(string \<Rightarrow> Task res) \<Rightarrow> goerr option \<Rightarrow> Transfer \<Rightarrow> UState \<Rightarrow> goerr option \<times> UState" where
  "markReady taskOf tx t s =
    (case orElse (uploadAllowed taskOf (us_closed s) t) tx of
       Some e \<Rightarrow> (Some e, setBusy (tr_ID t) None s)
     | None \<Rightarrow> (None, setBusy (tr_ID t) None (setMem (t\<lparr>tr_State := ''ready''\<rparr>) (Transfer_store (t\<lparr>tr_State := ''ready''\<rparr>) s))))"

section \<open>Binding, settling and removing\<close>

text \<open>
  The uploads a new execution takes over.  A lab names unbound, ready file uploads, each once; a Nix job
  (\<^verbatim>\<open>buildNix\<close>) one unbound, ready cache.
\<close>

fun labBindings :: "UState \<Rightarrow> string \<Rightarrow> string list \<Rightarrow> string list \<Rightarrow> Transfer list res" where
  "labBindings s taskID seen [] = Inr []"
| "labBindings s taskID seen (i # is) =
    (if i \<in> set seen then Inl (Fail ''invalid_argument'' ''Lab upload IDs must be unique'')
     else (case Server_transfer s i of
       Inl e \<Rightarrow> Inl e
     | Inr t \<Rightarrow>
        if tr_Kind t \<noteq> ''file'' \<or> tr_State t \<noteq> ''ready'' \<or> tr_TaskID t \<noteq> []
        then Inl (Fail ''invalid_state'' ''Lab inputs must be ready and unbound file uploads'')
        else (case labBindings s taskID (i # seen) is of
          Inl e \<Rightarrow> Inl e
        | Inr ts \<Rightarrow> Inr (t\<lparr>tr_TaskID := taskID\<rparr> # ts))))"

definition buildNix :: "Tasks \<Rightarrow> UState \<Rightarrow> int \<Rightarrow> string \<Rightarrow> string \<Rightarrow> gotime \<Rightarrow> string \<Rightarrow> (Task \<times> Transfer) res" where
  "buildNix cfg s timeout cacheID taskID created worker =
    (case duration_of cfg timeout of
       Inl e \<Rightarrow> Inl e
     | Inr seconds \<Rightarrow> (case Server_transfer s cacheID of
         Inl _ \<Rightarrow> Inl (Fail ''not_found'' ''Nix input not found'')
       | Inr cache \<Rightarrow>
          if tr_Kind cache \<noteq> ''cache'' then Inl (Fail ''not_found'' ''Nix input not found'')
          else if tr_TaskID cache \<noteq> [] then Inl (Fail ''conflict'' ''Nix input already belongs to a job'')
          else if tr_State cache \<noteq> ''ready'' then Inl (Fail ''input_not_ready'' ''Nix input must be fully uploaded and verified'')
          else Inr ((newTask taskID created ''nixos'' seconds)\<lparr>t_domain := DNix (emptyNixJob\<lparr>nj_WorkerInstance := worker,
                 nj_CacheID := cacheID, nj_Derivation := tr_Derivation cache, nj_System := tr_System cache\<rparr>)\<rparr>,
               cache\<lparr>tr_TaskID := taskID\<rparr>)))"

text \<open>The end of \<^verbatim>\<open>accept\<close>: one transaction stores the bound copies, then they replace the ones in memory.\<close>

definition acceptBindings :: "goerr option \<Rightarrow> Transfer list \<Rightarrow> UState \<Rightarrow> goerr option \<times> UState" where
  "acceptBindings tx ts s =
    (case tx of Some e \<Rightarrow> (Some e, s) | None \<Rightarrow> (None, fold (\<lambda>t s. setMem t (Transfer_store t s)) ts s))"

definition putGuestBind :: "goerr option \<Rightarrow> string \<Rightarrow> goerr option \<Rightarrow> Transfer option \<Rightarrow> UState \<Rightarrow> goerr option \<times> UState" where
  "putGuestBind access taskID tx x s =
    (case x of
       None \<Rightarrow> (Some (Fail ''not_found'' ''Transfer does not belong to task''), s)
     | Some t \<Rightarrow>
        if tr_Kind t \<noteq> ''file'' \<or> tr_TaskID t \<noteq> [] \<and> tr_TaskID t \<noteq> taskID
        then (Some (Fail ''not_found'' ''Transfer does not belong to task''), s)
        else (case access of
          Some e \<Rightarrow> (Some e, s)
        | None \<Rightarrow>
            if tr_State t \<noteq> ''ready'' then (Some (Fail ''input_not_ready'' ''Upload must have its complete verified manifest''), s)
            else if tr_TaskID t = [] then
              (case tx of Some e \<Rightarrow> (Some e, s)
               | None \<Rightarrow> (None, setMem (t\<lparr>tr_TaskID := taskID\<rparr>) (Transfer_store (t\<lparr>tr_TaskID := taskID\<rparr>) s)))
            else (None, s)))"

text \<open>A loop over \<^verbatim>\<open>s.transfers\<close> that changes and persists the transfers a predicate picks.\<close>

fun sweep :: "(Transfer \<Rightarrow> bool) \<Rightarrow> (Transfer \<Rightarrow> Transfer) \<Rightarrow> (string \<Rightarrow> goerr option) \<Rightarrow> string list \<Rightarrow> UState \<Rightarrow> UState" where
  "sweep P f tx [] s = s"
| "sweep P f tx (i # is) s =
    (case us_mem s i of
       None \<Rightarrow> sweep P f tx is s
     | Some t \<Rightarrow> if P t then sweep P f tx is (persistTransfer (tx i) (f t) (setMem (f t) s)) else sweep P f tx is s)"

definition retainTransfers :: "(string \<Rightarrow> goerr option) \<Rightarrow> string \<Rightarrow> UState \<Rightarrow> UState" where
  "retainTransfers tx taskID s =
    sweep (\<lambda>t. tr_TaskID t = taskID \<and> oneOf (tr_State t) [''open'', ''ready'']) (\<lambda>t. t\<lparr>tr_State := ''settling''\<rparr>) tx (us_IDs s) s"

definition completeTransfers :: "(string \<Rightarrow> goerr option) \<Rightarrow> string \<Rightarrow> UState \<Rightarrow> UState" where
  "completeTransfers tx taskID s =
    sweep (\<lambda>t. tr_TaskID t = taskID \<and> tr_State t \<noteq> ''deleting'') (\<lambda>t. t\<lparr>tr_State := ''retained''\<rparr>) tx (us_IDs s) s"

text \<open>
  \<^verbatim>\<open>deleteUpload\<close> and \<^verbatim>\<open>removeTransfer\<close>: mark the upload, then (once no handler is writing) remove its files and
  its rows, which cascade.
\<close>

definition setLoaded :: "Transfer \<Rightarrow> UState \<Rightarrow> UState" where
  "setLoaded t s = (if us_mem s (tr_ID t) = None then s else setMem t s)"

definition deleteBegin :: "goerr option \<Rightarrow> Transfer \<Rightarrow> UState \<Rightarrow> goerr option \<times> UState" where
  "deleteBegin tx t s =
    (if tr_TaskID t \<noteq> [] then (Some (Fail ''protected'' ''Bound input follows its execution lifecycle''), s)
     else (None, persistTransfer tx (t\<lparr>tr_State := ''deleting''\<rparr>) (setLoaded (t\<lparr>tr_State := ''deleting''\<rparr>) s)))"

text \<open>The uploads \<^verbatim>\<open>cleanStorage\<close> expires: unbound, not being written, and idle for the configured time.\<close>

definition uploadIdle :: "Storage \<Rightarrow> gotime \<Rightarrow> UState \<Rightarrow> Transfer \<Rightarrow> bool" where
  "uploadIdle cfg now s t \<longleftrightarrow>
     (let updated = (if tr_Updated t = zeroTime then tr_Created t else tr_Updated t) in
      tr_TaskID t = [] \<and> us_busy s (tr_ID t) = None \<and> updated + st_UploadIdle cfg \<le> now)"

definition removeTransfer :: "goerr option \<Rightarrow> Transfer \<Rightarrow> UState \<Rightarrow> goerr option \<times> UState" where
  "removeTransfer tx t s =
    (if us_busy s (tr_ID t) \<noteq> None then (Some (Fail ''conflict'' ''Upload is still settling''), s)
     else (None, persistTransfer tx (t\<lparr>tr_State := ''deleting''\<rparr>) (setLoaded (t\<lparr>tr_State := ''deleting''\<rparr>) s)))"

definition deleteEnd :: "goerr option \<Rightarrow> goerr option \<Rightarrow> string \<Rightarrow> UState \<Rightarrow> goerr option \<times> UState" where
  "deleteEnd rerr tx ident s =
    (case orElse rerr tx of
       Some e \<Rightarrow> (Some e, s)
     | None \<Rightarrow> (None, s\<lparr>us_mem := (us_mem s)(ident := None), us_table := (us_table s)(ident := None), us_rows := (us_rows s)(ident := [])\<rparr>))"

section \<open>Restarting\<close>

text \<open>
  \<^verbatim>\<open>New\<close> loads the active transfers, finishes deletions, and completes uploads whose last object was
  published; a failure of any step stops the start.
\<close>

definition recovered :: "(string \<Rightarrow> string \<Rightarrow> string res) \<Rightarrow> Transfer \<Rightarrow> ObjectRow list \<Rightarrow> Transfer" where
  "recovered read u rows =
    (let t = loadTransfer u rows in
     if tr_State t = ''open'' \<and> tr_ManifestDigest t \<noteq> [] \<and> verifyUpload (read (tr_ID t)) None t rows = VComplete
     then t\<lparr>tr_State := ''ready''\<rparr> else t)"

definition restartUploads :: "(string \<Rightarrow> string \<Rightarrow> string res) \<Rightarrow> UState \<Rightarrow> UState" where
  "restartUploads read s =
    (let active = (\<lambda>i. case us_table s i of
           None \<Rightarrow> None
         | Some u \<Rightarrow> if oneOf (tr_State u) [''open'', ''ready'', ''settling''] then Some (recovered read u (us_rows s i)) else None);
         gone = (\<lambda>i. case us_table s i of None \<Rightarrow> False | Some u \<Rightarrow> tr_State u = ''deleting'') in
     s\<lparr>us_mem := active,
       us_table := (\<lambda>i. if gone i then None else (case active i of Some t \<Rightarrow> Some (header t) | None \<Rightarrow> us_table s i)),
       us_rows := (\<lambda>i. if gone i then [] else us_rows s i),
       us_busy := (\<lambda>_. None), us_closed := False\<rparr>)"

section \<open>Interleavings\<close>

text \<open>
  Every interleaving of the sections.  A handler's section starts when no other handler holds the upload's
  mutex; a deletion is finished when none does.  Identifiers are drawn fresh.
\<close>

inductive uploadStep :: "Storage \<Rightarrow> (UploadManifest \<Rightarrow> string) \<Rightarrow> (string \<Rightarrow> string) \<Rightarrow> UState \<Rightarrow> UState \<Rightarrow> bool"
  for cfg :: Storage and digest :: "UploadManifest \<Rightarrow> string" and sha :: "string \<Rightarrow> string" where
  step_create: "ident \<notin> set (us_IDs s) \<Longrightarrow>
     uploadStep cfg digest sha s (snd (createTransfer cfg blocked mkdir tx now kind ident s))"
| step_manifest: "us_mem s i = Some t \<Longrightarrow> us_busy s i = None \<Longrightarrow>
     uploadStep cfg digest sha s (snd (manifestReserve cfg digest taskOf m t s))"
| step_declare: "us_mem s i = Some t \<Longrightarrow> us_busy s i = Some (PManifest m dg) \<Longrightarrow>
     uploadStep cfg digest sha s (snd (manifestCommit taskOf err tx now m dg t s))"
| step_object: "us_busy s i = None \<Longrightarrow> name \<noteq> ''manifest'' \<Longrightarrow> filesPut right i name s = Inr t \<Longrightarrow>
     objectBegin taskOf name len t s = Inr (False, n, h) \<Longrightarrow>
     uploadStep cfg digest sha s (setBusy i (Some (PObject name n h)) s)"
| step_repeat: "us_busy s i = None \<Longrightarrow> name \<noteq> ''manifest'' \<Longrightarrow> filesPut right i name s = Inr t \<Longrightarrow>
     objectBegin taskOf name len t s = Inr (True, n, h) \<Longrightarrow> map_of (tr_Objects t) name = Some previous \<Longrightarrow>
     sameObject sha err body n previous \<Longrightarrow> uploadStep cfg digest sha s (setBusy i (Some PVerify) s)"
| step_publish: "us_mem s i = Some t \<Longrightarrow> us_busy s i = Some (PObject name n h) \<Longrightarrow>
     stageObject sha cancelled werr body name n h fname = Inr b \<Longrightarrow>
     uploadStep cfg digest sha s (snd (objectPublish taskOf err tx ptx now name b t s))"
| step_refused: "us_busy s i = Some (PObject name n h) \<Longrightarrow>
     stageObject sha cancelled werr body name n h fname = Inl r \<Longrightarrow>
     uploadStep cfg digest sha s (setBusy i None s)"
| step_verify: "us_mem s i = Some t \<Longrightarrow> us_busy s i = Some PVerify \<Longrightarrow>
     uploadStep cfg digest sha s
       (setBusy i (if verifyUpload read qerr t (us_rows s i) = VComplete then Some PReady else None) s)"
| step_ready: "us_mem s i = Some t \<Longrightarrow> us_busy s i = Some PReady \<Longrightarrow>
     uploadStep cfg digest sha s (snd (markReady taskOf tx t s))"
| step_bind_lab: "labBindings s taskID [] is = Inr ts \<Longrightarrow> taskID \<noteq> [] \<Longrightarrow>
     uploadStep cfg digest sha s (snd (acceptBindings tx ts s))"
| step_bind_nix: "buildNix tasks s timeout i taskID now worker = Inr (k, t) \<Longrightarrow> taskID \<noteq> [] \<Longrightarrow>
     uploadStep cfg digest sha s (snd (acceptBindings tx [t] s))"
| step_bind_guest: "taskID \<noteq> [] \<Longrightarrow> uploadStep cfg digest sha s (snd (putGuestBind access taskID tx (us_mem s i) s))"
| step_settle: "taskID \<noteq> [] \<Longrightarrow> uploadStep cfg digest sha s (retainTransfers txs taskID s)"
| step_retain: "taskID \<noteq> [] \<Longrightarrow> uploadStep cfg digest sha s (completeTransfers txs taskID s)"
| step_delete: "Server_transfer s i = Inr t \<Longrightarrow> uploadStep cfg digest sha s (snd (deleteBegin tx t s))"
| step_remove: "Server_transfer s i = Inr t \<Longrightarrow> uploadIdle cfg now s t \<or> tr_TaskID t \<noteq> [] \<Longrightarrow>
     uploadStep cfg digest sha s (snd (removeTransfer tx t s))"
| step_deleted: "us_busy s i = None \<Longrightarrow> Server_transfer s i = Inr t \<Longrightarrow> tr_State t = ''deleting'' \<Longrightarrow>
     uploadStep cfg digest sha s (snd (deleteEnd rerr tx i s))"
| step_restart: "uploadStep cfg digest sha s (restartUploads read s)"

definition uploadStart :: "UState \<Rightarrow> bool" where
  "uploadStart s \<longleftrightarrow> us_IDs s = [] \<and> us_mem s = (\<lambda>_. None) \<and> us_table s = (\<lambda>_. None) \<and> us_rows s = (\<lambda>_. []) \<and>
     us_busy s = (\<lambda>_. None)"

section \<open>The invariant\<close>

text \<open>What the rows of one upload satisfy.\<close>

definition rowOK :: "ObjectRow \<Rightarrow> bool" where
  "rowOK r \<longleftrightarrow> 0 \<le> or_Size r \<and> (case or_Body r of None \<Rightarrow> True | Some b \<Rightarrow> ob_Size b = or_Size r \<and> ob_SHA256 b = or_SHA256 r)"

definition rowsOK :: "ObjectRow list \<Rightarrow> bool" where
  "rowsOK rows \<longleftrightarrow> list_all rowOK rows \<and> distinct (map or_Name rows)"

definition declaredBytes :: "ObjectRow list \<Rightarrow> int" where
  "declaredBytes rows = (\<Sum>r\<leftarrow>rows. or_Size r)"

definition complete :: "ObjectRow list \<Rightarrow> bool" where
  "complete rows \<longleftrightarrow> list_all (\<lambda>r. or_Body r \<noteq> None) rows"

text \<open>A stored header against the rows: before the manifest there are none; afterwards the reservation is theirs.\<close>

definition headerOK :: "Transfer \<Rightarrow> ObjectRow list \<Rightarrow> bool" where
  "headerOK t rows \<longleftrightarrow>
     tr_State t \<in> {''open'', ''ready'', ''settling'', ''retained'', ''deleting''} \<and>
     (if tr_ManifestDigest t = [] then rows = [] else tr_ReservedBytes t = declaredBytes rows) \<and>
     (tr_State t = ''ready'' \<or> tr_State t = ''settling'' \<or> tr_State t = ''retained'' \<longrightarrow> tr_ManifestDigest t \<noteq> [] \<and> complete rows) \<and>
     (tr_State t = ''open'' \<longrightarrow> tr_TaskID t = []) \<and> (tr_State t = ''settling'' \<or> tr_State t = ''retained'' \<longrightarrow> tr_TaskID t \<noteq> [])"

lemma header_sel [simp]:
  "tr_ManifestDigest (header t) = tr_ManifestDigest t" "tr_ReservedBytes (header t) = tr_ReservedBytes t" "tr_ID (header t) = tr_ID t"
  "tr_TaskID (header t) = tr_TaskID t" "tr_Kind (header t) = tr_Kind t" "tr_State (header t) = tr_State t"
  by (simp_all add: header_def)

lemma headerOK_header [simp]: "headerOK (header t) rows = headerOK t rows"
  by (simp add: headerOK_def)

lemma headerOK_reserve: "tr_ManifestDigest t = [] \<Longrightarrow> headerOK (t\<lparr>tr_ReservedBytes := x\<rparr>) rows = headerOK t rows"
  by (simp add: headerOK_def)

lemma headerOK_objects: "headerOK (t\<lparr>tr_Bytes := a, tr_Objects := b, tr_Updated := c\<rparr>) rows = headerOK t rows"
  by (simp add: headerOK_def)

text \<open>The handler in progress knows what it needs; \<open>pcOK\<close> also says when a reservation is provisional.\<close>

definition pcOK :: "upc option \<Rightarrow> Transfer \<Rightarrow> ObjectRow list \<Rightarrow> bool" where
  "pcOK pc t rows \<longleftrightarrow>
     (case pc of
        None \<Rightarrow> tr_ManifestDigest t = [] \<longrightarrow> tr_ReservedBytes t = 0
      | Some (PManifest m dg) \<Rightarrow> tr_ManifestDigest t = [] \<and> dg \<noteq> [] \<and>
          tr_ReservedBytes t = (\<Sum>u\<leftarrow>um_Objects m. uo_Size u) \<and> list_all (\<lambda>u. 0 \<le> uo_Size u) (um_Objects m)
      | Some (PObject name n h) \<Rightarrow> tr_ManifestDigest t \<noteq> [] \<and>
          (\<exists>r\<in>set rows. or_Name r = name \<and> or_Size r = n \<and> or_SHA256 r = h \<and> or_Body r = None)
      | Some PVerify \<Rightarrow> tr_ManifestDigest t \<noteq> []
      | Some PReady \<Rightarrow> tr_ManifestDigest t \<noteq> [] \<and> complete rows)"

definition memOK :: "upc option \<Rightarrow> Transfer \<Rightarrow> ObjectRow list \<Rightarrow> bool" where
  "memOK pc t rows \<longleftrightarrow> headerOK t rows \<and> pcOK pc t rows \<and>
     map_of (tr_Objects t) = map_of (publishedObjects rows) \<and> tr_Bytes t = publishedBytes rows"

definition released :: "Transfer \<Rightarrow> bool" where
  "released t \<longleftrightarrow> tr_State t = ''retained'' \<or> tr_State t = ''deleting''"

text \<open>A stored header on its own, and the memory with the header it belongs to.\<close>

definition storedOK :: "string \<Rightarrow> Transfer \<Rightarrow> ObjectRow list \<Rightarrow> bool" where
  "storedOK i u rows \<longleftrightarrow> tr_ID u = i \<and> headerOK u rows \<and>
     (tr_ManifestDigest u = [] \<and> tr_State u \<noteq> ''deleting'' \<longrightarrow> tr_ReservedBytes u = 0)"

definition agree :: "bool \<Rightarrow> Transfer \<Rightarrow> Transfer \<Rightarrow> bool" where
  "agree stopped t u \<longleftrightarrow> tr_ID t = tr_ID u \<and> tr_ManifestDigest t = tr_ManifestDigest u \<and>
     (\<not> stopped \<longrightarrow> tr_State t = tr_State u) \<and> (released u \<longrightarrow> released t)"

definition entryOK :: "bool \<Rightarrow> string \<Rightarrow> Transfer option \<Rightarrow> Transfer option \<Rightarrow> ObjectRow list \<Rightarrow> upc option \<Rightarrow> bool" where
  "entryOK stopped i mem stored rows pc \<longleftrightarrow> rowsOK rows \<and>
     (case stored of
        None \<Rightarrow> rows = [] \<and> mem = None \<and> pc = None
      | Some u \<Rightarrow> storedOK i u rows \<and>
          (case mem of None \<Rightarrow> pc = None \<and> released u | Some t \<Rightarrow> agree stopped t u \<and> memOK pc t rows))"

text \<open>What an upload holds of the budget: its declared bytes, until it is retained or deleted.\<close>

definition live :: "Transfer option \<Rightarrow> int" where
  "live x = (case x of None \<Rightarrow> 0 | Some t \<Rightarrow> if released t then 0 else max (tr_Bytes t) (tr_ReservedBytes t))"

definition liveUsage :: "UState \<Rightarrow> int" where
  "liveUsage s = (\<Sum>i\<leftarrow>us_IDs s. live (us_mem s i))"

definition storedUsage :: "Transfer option \<Rightarrow> int" where
  "storedUsage x = (case x of None \<Rightarrow> 0 | Some u \<Rightarrow> if released u then 0 else tr_ReservedBytes u)"

definition entry :: "UState \<Rightarrow> string \<Rightarrow> bool" where
  "entry s i \<longleftrightarrow> entryOK (us_closed s) i (us_mem s i) (us_table s i) (us_rows s i) (us_busy s i)"

definition uploadInv :: "Storage \<Rightarrow> UState \<Rightarrow> bool" where
  "uploadInv cfg s \<longleftrightarrow> distinct (us_IDs s) \<and> (\<forall>i. i \<notin> set (us_IDs s) \<longrightarrow> us_table s i = None) \<and> (\<forall>i. entry s i) \<and>
     liveUsage s \<le> st_InputBytes cfg \<and> (\<Sum>i\<leftarrow>us_IDs s. storedUsage (us_table s i)) \<le> st_InputBytes cfg"

subsection \<open>Rows\<close>

lemma publishedObjects_simps [simp]:
  "publishedObjects [] = []"
  "publishedObjects (r # rows) = (case or_Body r of None \<Rightarrow> publishedObjects rows | Some b \<Rightarrow> (or_Name r, b) # publishedObjects rows)"
  by (auto simp: publishedObjects_def List.map_filter_def split: option.splits)

lemma published_le: "list_all rowOK rows \<Longrightarrow> 0 \<le> publishedBytes rows \<and> publishedBytes rows \<le> declaredBytes rows"
  by (induction rows) (auto simp: publishedBytes_def declaredBytes_def rowOK_def split: option.splits)

lemma published_complete: "list_all rowOK rows \<Longrightarrow> complete rows \<Longrightarrow> publishedBytes rows = declaredBytes rows"
  by (induction rows) (auto simp: publishedBytes_def declaredBytes_def rowOK_def complete_def split: option.splits)

lemma published_names: "fst ` set (publishedObjects rows) \<subseteq> set (map or_Name rows)"
  by (induction rows) (auto split: option.splits)

lemma published_lookup:
  "distinct (map or_Name rows) \<Longrightarrow> r \<in> set rows \<Longrightarrow> map_of (publishedObjects rows) (or_Name r) = or_Body r"
proof (induction rows)
  case (Cons x rows)
  have "map_of (publishedObjects rows) (or_Name x) = None"
    using published_names[of rows] Cons.prems(1) by (auto simp: map_of_eq_None_iff)
  moreover have "or_Name r \<noteq> or_Name x" if "r \<in> set rows" using that Cons.prems(1) by (metis distinct.simps(2) list.simps(9) image_eqI set_map)
  ultimately show ?case using Cons by (auto split: option.splits)
qed simp

lemma published_lookup_None: "n \<notin> set (map or_Name rows) \<Longrightarrow> map_of (publishedObjects rows) n = None"
  using published_names[of rows] by (auto simp: map_of_eq_None_iff)

lemma publishRow_same [simp]: "or_Name (publishRow n b r) = or_Name r" "or_Size (publishRow n b r) = or_Size r"
  "or_SHA256 (publishRow n b r) = or_SHA256 r"
  by (simp_all add: publishRow_def)

lemma publishRow_body: "or_Body r = Some c \<Longrightarrow> publishRow n b r = r"
  by (simp add: publishRow_def)

lemma publish_names [simp]: "map or_Name (map (publishRow n b) rows) = map or_Name rows"
  by simp

lemma publish_declared [simp]: "declaredBytes (map (publishRow n b) rows) = declaredBytes rows"
  by (simp add: declaredBytes_def comp_def)

lemma publish_rowOK: "rowOK r \<Longrightarrow> rowOK (publishRow n b r)"
  by (simp add: rowOK_def publishRow_def)

lemma publish_rowsOK: "rowsOK rows \<Longrightarrow> rowsOK (map (publishRow n b) rows)"
  by (simp add: rowsOK_def list_all_iff publish_rowOK comp_def)

lemma publish_complete: "complete rows \<Longrightarrow> complete (map (publishRow n b) rows)"
  by (auto simp: complete_def list_all_iff publishRow_body)

lemma publish_other: "n \<notin> set (map or_Name rows) \<Longrightarrow> map (publishRow n b) rows = rows"
  by (induction rows) (auto simp: publishRow_def)

lemma publish_bytes:
  assumes "distinct (map or_Name rows)" "r \<in> set rows" "or_Name r = n" "or_Body r = None" "or_Size r = ob_Size b" "or_SHA256 r = ob_SHA256 b"
  shows "publishedBytes (map (publishRow n b) rows) = publishedBytes rows + ob_Size b \<and>
    map_of (publishedObjects (map (publishRow n b) rows)) = (map_of (publishedObjects rows))(n \<mapsto> b)"
  using assms(1,2)
proof (induction rows)
  case (Cons x rows)
  show ?case
  proof (cases "r = x")
    case True
    then have "n \<notin> set (map or_Name rows)" using Cons.prems assms(3) by simp
    then have "map (publishRow n b) rows = rows" by (rule publish_other)
    moreover have "publishRow n b x = x\<lparr>or_Body := Some b\<rparr>" using True assms(3-6) by (simp add: publishRow_def)
    ultimately show ?thesis using True assms(3,4) by (simp add: publishedBytes_def)
  next
    case False
    then have r: "r \<in> set rows" using Cons.prems by simp
    then have x: "or_Name x \<noteq> n" using Cons.prems(1) assms(3) by auto
    then have "publishRow n b x = x" by (simp add: publishRow_def)
    then show ?thesis using Cons.IH r Cons.prems(1) x by (auto simp: publishedBytes_def fun_upd_twist split: option.splits)
  qed
qed simp

subsection \<open>Declaring\<close>

lemma insertRows_spec:
  "insertRows us rows = Some rows' \<Longrightarrow> rows' = rows @ map declaredRow us \<and> (distinct (map or_Name rows) \<longrightarrow> distinct (map or_Name rows'))"
proof (induction us rows rule: insertRows.induct)
  case (2 u us rows)
  then have n: "uo_Name u \<notin> set (map or_Name rows)" "insertRows us (rows @ [declaredRow u]) = Some rows'" by (auto split: if_splits)
  have "or_Name (declaredRow u) = uo_Name u" by (simp add: declaredRow_def)
  then have "distinct (map or_Name (rows @ [declaredRow u]))" if "distinct (map or_Name rows)" using n(1) that by simp
  moreover have "rows' = (rows @ [declaredRow u]) @ map declaredRow us" "distinct (map or_Name (rows @ [declaredRow u])) \<longrightarrow> distinct (map or_Name rows')"
    using 2(1)[OF n] by blast+
  ultimately show ?case unfolding append_assoc append_Cons append_Nil list.map(2) by blast
qed simp

lemma checkObjects_spec:
  "checkObjects budget kind b0 prev us = Some b \<Longrightarrow>
     b = b0 + (\<Sum>u\<leftarrow>us. uo_Size u) \<and> list_all (\<lambda>u. 0 \<le> uo_Size u \<and> sha256Pattern (uo_SHA256 u) \<and> objectName kind (uo_Name u)) us \<and>
     (b0 \<le> budget \<longrightarrow> b \<le> budget)"
  by (induction budget kind b0 prev us rule: checkObjects.induct) (auto split: if_splits)

lemma checkManifest_spec:
  assumes "checkManifest cfg i kind m = Inr (sm, b)"
  shows "b = (\<Sum>u\<leftarrow>um_Objects sm. uo_Size u)" "list_all (\<lambda>u. 0 \<le> uo_Size u) (um_Objects sm)"
proof -
  have "checkObjects (st_MaxUploadBytes cfg) kind 0 [] (um_Objects sm) = Some b"
    using assms by (auto simp: checkManifest_def Let_def split: if_splits option.splits)
  from checkObjects_spec[OF this] show "b = (\<Sum>u\<leftarrow>um_Objects sm. uo_Size u)" "list_all (\<lambda>u. 0 \<le> uo_Size u) (um_Objects sm)"
    by (auto simp: list_all_iff)
qed

lemma declared_rows:
  "publishedObjects (map declaredRow us) = []" "declaredBytes (map declaredRow us) = (\<Sum>u\<leftarrow>us. uo_Size u)"
  "list_all (\<lambda>u. 0 \<le> uo_Size u) us \<Longrightarrow> list_all rowOK (map declaredRow us)"
  by (induction us) (auto simp: declaredRow_def declaredBytes_def rowOK_def)

subsection \<open>Usage of one upload\<close>

lemma sum_list_update:
  fixes f :: "'a \<Rightarrow> int"
  assumes "distinct xs" "i \<in> set xs" "\<And>j. j \<noteq> i \<Longrightarrow> g j = f j"
  shows "(\<Sum>j\<leftarrow>xs. g j) = (\<Sum>j\<leftarrow>xs. f j) - f i + g i"
  using assms(1,2)
proof (induction xs)
  case (Cons x xs)
  show ?case
  proof (cases "x = i")
    case True
    then have "map g xs = map f xs" using Cons.prems(1) assms(3) by (metis distinct.simps(2) map_cong)
    then have "(\<Sum>j\<leftarrow>xs. g j) = (\<Sum>j\<leftarrow>xs. f j)" by (rule arg_cong)
    then show ?thesis using True by simp
  next
    case False
    then show ?thesis using Cons assms(3) by auto
  qed
qed simp

lemma memOK_bytes:
  assumes "rowsOK rows" "memOK pc t rows"
  shows "0 \<le> tr_Bytes t \<and> tr_Bytes t \<le> tr_ReservedBytes t"
proof -
  note p = published_le[of rows]
  show ?thesis
  proof (cases "tr_ManifestDigest t = []")
    case True
    then have "0 \<le> tr_ReservedBytes t" using assms(2)
      by (auto simp: memOK_def pcOK_def list_all_iff split: option.splits upc.splits intro!: sum_list_nonneg)
    then show ?thesis using True assms(2) by (auto simp: memOK_def headerOK_def publishedBytes_def)
  next
    case False
    then show ?thesis using p assms by (auto simp: memOK_def headerOK_def rowsOK_def)
  qed
qed

lemma live_mem: "rowsOK rows \<Longrightarrow> memOK pc t rows \<Longrightarrow> live (Some t) = (if released t then 0 else tr_ReservedBytes t)"
  using memOK_bytes by (auto simp: live_def max_def released_def)

lemma stored_below:
  assumes "entryOK False i mem stored rows pc"
  shows "storedUsage stored \<le> live mem"
proof (cases stored)
  case (Some u)
  show ?thesis
  proof (cases mem)
    case None
    then show ?thesis using assms Some by (simp add: entryOK_def storedUsage_def live_def)
  next
    case (Some t)
    with \<open>stored = Some u\<close> assms have e: "rowsOK rows" "storedOK i u rows" "agree False t u" "memOK pc t rows" by (auto simp: entryOK_def)
    have "tr_ReservedBytes u \<le> tr_ReservedBytes t" if "\<not> released u"
      using that e memOK_bytes[OF e(1,4)] by (auto simp: storedOK_def agree_def memOK_def headerOK_def released_def split: if_splits)
    then show ?thesis using live_mem[OF e(1,4)] e(3) memOK_bytes[OF e(1,4)] \<open>stored = Some u\<close> Some
      by (auto simp: storedUsage_def agree_def released_def)
  qed
qed (use assms in \<open>simp add: entryOK_def storedUsage_def live_def\<close>)

lemma storedUsage_eq:
  "storedOK i u rows \<Longrightarrow> storedUsage (Some u) = (if released u \<or> tr_ManifestDigest u = [] then 0 else declaredBytes rows)"
  by (auto simp: storedUsage_def storedOK_def headerOK_def released_def)

lemma declared_nonneg: "rowsOK rows \<Longrightarrow> 0 \<le> declaredBytes rows"
  using published_le[of rows] by (simp add: rowsOK_def)

lemma entry_stopped: "entryOK x i mem stored rows pc \<Longrightarrow> (x \<longrightarrow> y) \<Longrightarrow> entryOK y i mem stored rows pc"
  by (auto simp: entryOK_def agree_def split: option.splits)

subsection \<open>Steps that touch one upload\<close>

definition localStep :: "string \<Rightarrow> UState \<Rightarrow> UState \<Rightarrow> bool" where
  "localStep i s s' \<longleftrightarrow> us_IDs s' = us_IDs s \<and> (us_closed s \<longrightarrow> us_closed s') \<and>
     (\<forall>j. j \<noteq> i \<longrightarrow> us_mem s' j = us_mem s j \<and> us_table s' j = us_table s j \<and> us_rows s' j = us_rows s j \<and> us_busy s' j = us_busy s j)"

lemmas upd_defs = setMem_def setBusy_def Transfer_store_def persistTransfer_def

lemma uploadInv_ID: "uploadInv cfg s \<Longrightarrow> us_table s i \<noteq> None \<Longrightarrow> i \<in> set (us_IDs s)"
  by (auto simp: uploadInv_def)

lemma stored_sum_below:
  assumes "\<forall>i. entry s i" "\<not> us_closed s"
  shows "(\<Sum>i\<leftarrow>us_IDs s. storedUsage (us_table s i)) \<le> liveUsage s"
proof -
  have "storedUsage (us_table s i) \<le> live (us_mem s i)" for i using assms by (intro stored_below) (auto simp: entry_def)
  then show ?thesis unfolding liveUsage_def by (intro sum_list_mono)
qed

lemma uploadInv_local:
  assumes inv: "uploadInv cfg s" and loc: "localStep i s s'" and i: "us_table s i \<noteq> None" and e: "entry s' i"
    and u: "live (us_mem s' i) \<le> live (us_mem s i) \<or> liveUsage s - live (us_mem s i) + live (us_mem s' i) \<le> st_InputBytes cfg"
    and st: "us_closed s' \<longrightarrow> storedUsage (us_table s' i) \<le> storedUsage (us_table s i)"
  shows "uploadInv cfg s'"
proof -
  have ids: "us_IDs s' = us_IDs s" "distinct (us_IDs s)" "i \<in> set (us_IDs s)"
    using loc inv uploadInv_ID[OF inv i] by (auto simp: localStep_def uploadInv_def)
  have entries: "\<forall>j. entry s' j"
  proof
    fix j
    show "entry s' j"
    proof (cases "j = i")
      case False
      then show ?thesis using inv loc entry_stopped[of "us_closed s" j _ _ _ _ "us_closed s'"] by (auto simp: uploadInv_def entry_def localStep_def)
    qed (use e in simp)
  qed
  have "liveUsage s' = liveUsage s - live (us_mem s i) + live (us_mem s' i)"
    unfolding liveUsage_def ids(1) using loc by (intro sum_list_update ids(2,3)) (simp add: localStep_def)
  then have q: "liveUsage s' \<le> st_InputBytes cfg" using u inv by (auto simp: uploadInv_def)
  have "(\<Sum>j\<leftarrow>us_IDs s'. storedUsage (us_table s' j)) \<le> st_InputBytes cfg"
  proof (cases "us_closed s'")
    case True
    have "(\<Sum>j\<leftarrow>us_IDs s'. storedUsage (us_table s' j)) =
        (\<Sum>j\<leftarrow>us_IDs s. storedUsage (us_table s j)) - storedUsage (us_table s i) + storedUsage (us_table s' i)"
      unfolding ids(1) using loc by (intro sum_list_update ids(2,3)) (simp add: localStep_def)
    then show ?thesis using st True inv by (simp add: uploadInv_def)
  next
    case False
    then show ?thesis using stored_sum_below[OF entries] q by simp
  qed
  then show ?thesis using inv loc entries q ids unfolding uploadInv_def localStep_def by metis
qed

lemma entry_parts:
  assumes "uploadInv cfg s" "us_mem s i = Some t"
  obtains u where "us_table s i = Some u" "rowsOK (us_rows s i)" "storedOK i u (us_rows s i)" "agree (us_closed s) t u"
    "memOK (us_busy s i) t (us_rows s i)" "tr_ID t = i"
proof -
  have "entry s i" using assms(1) by (simp add: uploadInv_def)
  then have "entryOK (us_closed s) i (Some t) (us_table s i) (us_rows s i) (us_busy s i)" using assms(2) by (simp add: entry_def)
  then show ?thesis using that by (auto simp: entryOK_def agree_def storedOK_def split: option.splits)
qed

text \<open>A change of the handler only.\<close>

lemma inv_busy:
  assumes "uploadInv cfg s" "us_mem s i = Some t" "pcOK pc t (us_rows s i)"
  shows "uploadInv cfg (setBusy i pc s)"
proof -
  obtain u where u: "us_table s i = Some u" "rowsOK (us_rows s i)" "storedOK i u (us_rows s i)" "agree (us_closed s) t u"
    "memOK (us_busy s i) t (us_rows s i)" using assms(1,2) by (rule entry_parts)
  show ?thesis
  proof (rule uploadInv_local[OF assms(1), of i])
    show "entry (setBusy i pc s) i" using u assms by (simp add: entry_def entryOK_def setBusy_def memOK_def)
  qed (use u in \<open>simp_all add: setBusy_def localStep_def\<close>)
qed

text \<open>
  A change of the memory that keeps the identity, the manifest, the objects and the reservation and is then
  persisted; with a failed transaction the service stops.
\<close>

lemma inv_persist:
  assumes inv: "uploadInv cfg s" "us_mem s i = Some t"
    and same: "tr_ID t' = i" "tr_ManifestDigest t' = tr_ManifestDigest t" "tr_ReservedBytes t' = tr_ReservedBytes t"
      "tr_Objects t' = tr_Objects t" "tr_Bytes t' = tr_Bytes t"
    and h: "headerOK t' (us_rows s i)" and d: "tr_ManifestDigest t = [] \<longrightarrow> tr_State t' = ''deleting''"
    and rel: "released t \<longrightarrow> released t'"
  shows "uploadInv cfg (persistTransfer tx t' (setMem t' s))"
proof -
  obtain u where u: "us_table s i = Some u" "rowsOK (us_rows s i)" "storedOK i u (us_rows s i)" "agree (us_closed s) t u"
    "memOK (us_busy s i) t (us_rows s i)" "tr_ID t = i" using inv by (rule entry_parts)
  let ?s = "persistTransfer tx t' (setMem t' s)"
  have m: "memOK (us_busy s i) t' (us_rows s i)"
    using u(5) h same unfolding memOK_def pcOK_def by (simp split: option.splits upc.splits)
  have ru: "released u \<longrightarrow> released t'" using u(4) rel by (auto simp: agree_def)
  have so: "storedOK i (header t') (us_rows s i)" using h d same unfolding storedOK_def headerOK_header header_sel by metis
  have "tr_ManifestDigest u = tr_ManifestDigest (header t')" "released (header t') = released t'"
    using u(4) same by (simp_all add: agree_def released_def)
  then have below: "storedUsage (Some (header t')) \<le> storedUsage (Some u)"
    using storedUsage_eq[OF so] storedUsage_eq[OF u(3)] declared_nonneg[OF u(2)] ru by auto
  have e: "entry ?s i"
  proof (cases tx)
    case None
    then show ?thesis using so u m same by (simp add: entry_def entryOK_def upd_defs agree_def released_def)
  next
    case (Some x)
    then show ?thesis using u m same ru by (simp add: entry_def entryOK_def upd_defs agree_def)
  qed
  show ?thesis
  proof (rule uploadInv_local[OF inv(1), of i, OF _ _ e])
    show "localStep i s ?s" using same by (auto simp: localStep_def upd_defs split: option.splits)
    show "us_table s i \<noteq> None" using u by simp
    show "live (us_mem ?s i) \<le> live (us_mem s i) \<or> liveUsage s - live (us_mem s i) + live (us_mem ?s i) \<le> st_InputBytes cfg"
      using live_mem[OF u(2,5)] live_mem[OF u(2) m] memOK_bytes[OF u(2,5)] same inv(2) rel by (auto simp: upd_defs split: option.splits)
    show "us_closed ?s \<longrightarrow> storedUsage (us_table ?s i) \<le> storedUsage (us_table s i)"
      using below u(1) same by (auto simp: upd_defs split: option.splits)
  qed
qed

subsection \<open>The handlers\<close>

lemma inv_create:
  assumes "uploadInv cfg s" "ident \<notin> set (us_IDs s)"
  shows "uploadInv cfg (snd (createTransfer cfg blocked mkdir tx now kind ident s))"
proof -
  define t where "t = \<lparr>tr_ManifestDigest = [], tr_ReservedBytes = 0, tr_Derivation = [], tr_System = [], tr_Updated = now, tr_ID = ident,
    tr_TaskID = [], tr_Kind = kind, tr_State = ''open'', tr_Created = now, tr_Objects = [], tr_Bytes = 0\<rparr>"
  define s' where "s' = setMem t (Transfer_store t (s\<lparr>us_IDs := us_IDs s @ [ident]\<rparr>))"
  have "entry s ident" "us_table s ident = None" using assms by (simp_all add: uploadInv_def)
  then have n: "us_mem s ident = None" "us_rows s ident = []" "us_busy s ident = None" by (auto simp: entry_def entryOK_def)
  have new: "entry s' ident"
    using n by (simp add: entry_def entryOK_def s'_def upd_defs t_def storedOK_def headerOK_def agree_def memOK_def pcOK_def rowsOK_def
        header_def released_def publishedBytes_def)
  have "entry s' j" for j
  proof (cases "j = ident")
    case False
    then have "entry s' j = entry s j" by (simp add: entry_def s'_def upd_defs t_def)
    then show ?thesis using assms(1) by (simp add: uploadInv_def)
  qed (use new in simp)
  moreover have m: "map (\<lambda>i. live (us_mem s' i)) (us_IDs s) = map (\<lambda>i. live (us_mem s i)) (us_IDs s)"
    "map (\<lambda>i. storedUsage (us_table s' i)) (us_IDs s) = map (\<lambda>i. storedUsage (us_table s i)) (us_IDs s)"
    using assms(2) by (auto simp: s'_def upd_defs t_def)
  have ids: "us_IDs s' = us_IDs s @ [ident]" "live (us_mem s' ident) = 0" "storedUsage (us_table s' ident) = 0"
    "\<And>j. j \<noteq> ident \<Longrightarrow> us_table s' j = us_table s j"
    by (simp_all add: s'_def upd_defs t_def live_def storedUsage_def header_def released_def)
  moreover have "liveUsage s' = liveUsage s" unfolding liveUsage_def ids(1) map_append m sum_list_append by (simp add: ids)
  moreover have "(\<Sum>i\<leftarrow>us_IDs s'. storedUsage (us_table s' i)) = (\<Sum>i\<leftarrow>us_IDs s. storedUsage (us_table s i))"
    unfolding ids(1) map_append m sum_list_append by (simp add: ids)
  ultimately have "uploadInv cfg s'" using assms unfolding uploadInv_def by auto
  moreover have "snd (createTransfer cfg blocked mkdir tx now kind ident s) \<in> {s, s'}"
    by (auto simp: createTransfer_def Let_def s'_def t_def split: option.splits)
  ultimately show ?thesis using assms(1) by auto
qed

lemma allowed_open: "uploadAllowed taskOf stopped t = None \<Longrightarrow> \<not> stopped \<and> tr_State t = ''open''"
  by (auto simp: uploadAllowed_def split: if_splits)

lemma live_below:
  assumes "uploadInv cfg s"
  shows "liveUsage s \<le> inputUsage s"
proof -
  have "live (us_mem s i) \<le> usage (us_mem s i)" for i
  proof (cases "us_mem s i")
    case (Some t)
    then obtain u where "rowsOK (us_rows s i)" "memOK (us_busy s i) t (us_rows s i)" using assms by (auto elim: entry_parts)
    then show ?thesis using Some memOK_bytes[of "us_rows s i" _ t] by (fastforce simp: live_def usage_def released_def)
  qed (simp add: live_def usage_def)
  then show ?thesis unfolding inputUsage_def liveUsage_def by (intro sum_list_mono)
qed

lemma inv_manifest:
  assumes dg: "\<And>m. digest m \<noteq> []" and inv: "uploadInv cfg s" "us_mem s i = Some t" "us_busy s i = None"
  shows "uploadInv cfg (snd (manifestReserve cfg digest taskOf m t s))"
proof (cases "manifestReserve cfg digest taskOf m t s")
  case (Pair r s')
  obtain u where u: "us_table s i = Some u" "rowsOK (us_rows s i)" "storedOK i u (us_rows s i)" "agree (us_closed s) t u"
    "memOK (us_busy s i) t (us_rows s i)" "tr_ID t = i" using inv(1,2) by (rule entry_parts)
  show ?thesis
  proof (cases r)
    case (Some x)
    then have "s' = s" using Pair by (auto simp: manifestReserve_def split: sum.splits if_splits option.splits)
    then show ?thesis using Pair inv by simp
  next
    case None
    then obtain sm b where c: "checkManifest cfg (tr_ID t) (tr_Kind t) m = Inr (sm, b)" "tr_ManifestDigest t = []"
        "uploadAllowed taskOf (us_closed s) t = None" "b \<le> st_InputBytes cfg - inputUsage s"
        "s' = setBusy (tr_ID t) (Some (PManifest sm (digest sm))) (setMem (t\<lparr>tr_ReservedBytes := b\<rparr>) s)"
      using Pair by (auto simp: manifestReserve_def not_less split: sum.splits if_splits option.splits)
    note b = checkManifest_spec[OF c(1)] and op = allowed_open[OF c(3)]
    have b0: "0 \<le> b" unfolding b(1) using b(2) by (intro sum_list_nonneg) (auto simp: list_all_iff)
    have r: "tr_ReservedBytes t = 0" "us_rows s i = []" "tr_Bytes t = 0"
      using u(5) c(2) inv(3) by (auto simp: memOK_def pcOK_def headerOK_def publishedBytes_def)
    have m: "memOK (Some (PManifest sm (digest sm))) (t\<lparr>tr_ReservedBytes := b\<rparr>) (us_rows s i)"
      using u(5) c(2) dg b by (simp add: memOK_def pcOK_def headerOK_reserve)
    show ?thesis unfolding Pair snd_conv
    proof (rule uploadInv_local[OF inv(1), of i])
      show "entry s' i" using u m by (simp add: entry_def entryOK_def c(5) upd_defs agree_def released_def)
      show "live (us_mem s' i) \<le> live (us_mem s i) \<or> liveUsage s - live (us_mem s i) + live (us_mem s' i) \<le> st_InputBytes cfg"
        using c(4) r op b0 inv(2) u(6) live_below[OF inv(1)] by (simp add: c(5) upd_defs live_def released_def)
    qed (use u in \<open>simp_all add: c(5) upd_defs localStep_def\<close>)
  qed
qed

text \<open>Giving a provisional reservation back.\<close>

lemma inv_unreserve:
  assumes "uploadInv cfg s" "us_mem s i = Some t" "us_busy s i = Some (PManifest m dg)"
  shows "uploadInv cfg (setBusy (tr_ID t) None (setMem (t\<lparr>tr_ReservedBytes := 0\<rparr>) s))"
proof -
  obtain u where u: "us_table s i = Some u" "rowsOK (us_rows s i)" "storedOK i u (us_rows s i)" "agree (us_closed s) t u"
    "memOK (us_busy s i) t (us_rows s i)" "tr_ID t = i" using assms(1,2) by (rule entry_parts)
  have d: "tr_ManifestDigest t = []" using u(5) assms(3) by (simp add: memOK_def pcOK_def)
  have m: "memOK None (t\<lparr>tr_ReservedBytes := 0\<rparr>) (us_rows s i)" using u(5) d by (simp add: memOK_def pcOK_def headerOK_reserve)
  show ?thesis
  proof (rule uploadInv_local[OF assms(1), of i])
    show "entry (setBusy (tr_ID t) None (setMem (t\<lparr>tr_ReservedBytes := 0\<rparr>) s)) i"
      using u m by (simp add: entry_def entryOK_def upd_defs agree_def released_def)
  qed (use u memOK_bytes[OF u(2,5)] assms(2) in \<open>auto simp: upd_defs localStep_def live_def released_def\<close>)
qed

lemma inv_declare:
  assumes inv: "uploadInv cfg s" "us_mem s i = Some t" "us_busy s i = Some (PManifest m dg)"
  shows "uploadInv cfg (snd (manifestCommit taskOf err tx now m dg t s))"
proof -
  obtain u where u: "us_table s i = Some u" "rowsOK (us_rows s i)" "storedOK i u (us_rows s i)" "agree (us_closed s) t u"
    "memOK (us_busy s i) t (us_rows s i)" "tr_ID t = i" using inv(1,2) by (rule entry_parts)
  define d where "d = t\<lparr>tr_ManifestDigest := dg, tr_Derivation := um_Derivation m, tr_System := um_System m, tr_Updated := now\<rparr>"
  define s' where "s' = setBusy i None (setMem d (Transfer_store d (s\<lparr>us_rows := (us_rows s)(i := map declaredRow (um_Objects m))\<rparr>)))"
  have r0: "us_rows s i = []" using u(5) inv(3) by (auto simp: memOK_def pcOK_def headerOK_def)
  consider "snd (manifestCommit taskOf err tx now m dg t s) = setBusy (tr_ID t) None (setMem (t\<lparr>tr_ReservedBytes := 0\<rparr>) s)"
    | "uploadAllowed taskOf (us_closed s) t = None" "distinct (map or_Name (map declaredRow (um_Objects m)))"
      "snd (manifestCommit taskOf err tx now m dg t s) = s'"
  proof (cases "uploadAllowed taskOf (us_closed s) t = None \<and> err = None \<and> tx = None \<and> insertRows (um_Objects m) [] \<noteq> None")
    case True
    then obtain rows where rows: "insertRows (um_Objects m) [] = Some rows" by blast
    have "rows = map declaredRow (um_Objects m)" "distinct (map or_Name (map declaredRow (um_Objects m)))"
      using insertRows_spec[OF rows] unfolding append_Nil list.map(1) by (metis distinct.simps(1))+
    then show ?thesis using True rows r0 u(6) that(2) by (simp add: manifestCommit_def orElse_def DeclareUpload_def s'_def d_def Let_def)
  next
    case False
    then show ?thesis using r0 u(6) that(1)
      by (auto simp: manifestCommit_def orElse_def DeclareUpload_def Let_def split: option.splits)
  qed
  then show ?thesis
  proof cases
    case 1
    then show ?thesis using inv_unreserve[OF inv] by simp
  next
    case 2
    have p: "dg \<noteq> []" "tr_ReservedBytes t = (\<Sum>u\<leftarrow>um_Objects m. uo_Size u)" "list_all (\<lambda>u. 0 \<le> uo_Size u) (um_Objects m)"
      "tr_ManifestDigest t = []" "map_of (tr_Objects t) = Map.empty" "tr_Bytes t = 0"
      using u(5) inv(3) r0 by (auto simp: memOK_def pcOK_def publishedBytes_def)
    note op = allowed_open[OF 2(1)]
    have t: "tr_TaskID t = []" using u(5) op by (simp add: memOK_def headerOK_def)
    have h: "headerOK d (map declaredRow (um_Objects m))"
      using p op t by (simp add: headerOK_def d_def declared_rows(2))
    have "entry s' i"
      using u(6) p op t h 2(2) declared_rows[of "um_Objects m"]
      by (simp add: entry_def entryOK_def s'_def upd_defs d_def storedOK_def agree_def memOK_def pcOK_def rowsOK_def publishedBytes_def released_def)
    moreover have "live (us_mem s' i) = live (us_mem s i)" using u(6) inv(2) by (simp add: s'_def upd_defs d_def live_def released_def)
    ultimately have "uploadInv cfg s'"
      using inv u op by (intro uploadInv_local[OF inv(1), of i]) (simp_all add: localStep_def s'_def upd_defs d_def)
    then show ?thesis using 2(3) by simp
  qed
qed

text \<open>An upload that only the store holds is settled, so no handler writes to it.\<close>

lemma loaded_released:
  assumes "uploadInv cfg s" "Server_transfer s i = Inr t"
  shows "us_mem s i = Some t \<or> us_mem s i = None \<and> (\<exists>u. us_table s i = Some u \<and> t = loadTransfer u (us_rows s i) \<and> released u)"
proof -
  have "entry s i" using assms(1) by (simp add: uploadInv_def)
  then show ?thesis using assms(2) by (auto simp: Server_transfer_def entry_def entryOK_def split: option.splits)
qed

lemma filesPut_mem:
  assumes "uploadInv cfg s" "filesPut right i name s = Inr t"
  shows "us_mem s i = Some t"
proof -
  have "Server_transfer s i = Inr t" "oneOf (tr_State t) [''open'', ''ready'']"
    using assms(2) by (auto simp: filesPut_def split: sum.splits if_splits)
  then show ?thesis using loaded_released[OF assms(1)] by (fastforce simp: loadTransfer_def released_def oneOf_iff)
qed

lemma objectBegin_row:
  assumes "objectBegin taskOf name len t s = Inr (x, n, h)"
  shows "\<exists>r\<in>set (us_rows s (tr_ID t)). or_Name r = name \<and> or_Size r = n \<and> or_SHA256 r = h" "x \<longleftrightarrow> map_of (tr_Objects t) name \<noteq> None"
proof -
  obtain r where r: "findRow name (us_rows s (tr_ID t)) = Some r" "n = or_Size r" "h = or_SHA256 r" "x \<longleftrightarrow> map_of (tr_Objects t) name \<noteq> None"
    using assms by (auto simp: objectBegin_def split: option.splits if_splits)
  then show "\<exists>r\<in>set (us_rows s (tr_ID t)). or_Name r = name \<and> or_Size r = n \<and> or_SHA256 r = h" "x \<longleftrightarrow> map_of (tr_Objects t) name \<noteq> None"
    by (auto simp: findRow_def dest!: find_Some_in)
qed

lemma rows_declared: "memOK pc t rows \<Longrightarrow> r \<in> set rows \<Longrightarrow> tr_ManifestDigest t \<noteq> []"
  by (auto simp: memOK_def headerOK_def)

lemma inv_object:
  assumes "uploadInv cfg s" "filesPut right i name s = Inr t" "objectBegin taskOf name len t s = Inr (False, n, h)"
  shows "uploadInv cfg (setBusy i (Some (PObject name n h)) s)"
proof -
  note m = filesPut_mem[OF assms(1,2)]
  obtain u where u: "rowsOK (us_rows s i)" "memOK (us_busy s i) t (us_rows s i)" "tr_ID t = i" using assms(1) m by (rule entry_parts)
  obtain r where r: "r \<in> set (us_rows s i)" "or_Name r = name" "or_Size r = n" "or_SHA256 r = h" "map_of (tr_Objects t) name = None"
    using objectBegin_row[OF assms(3)] u(3) by auto
  then have "or_Body r = None" using published_lookup[of "us_rows s i" r] u(1,2) by (simp add: rowsOK_def memOK_def)
  then have "pcOK (Some (PObject name n h)) t (us_rows s i)" using r rows_declared[OF u(2) r(1)] by (auto simp: pcOK_def)
  then show ?thesis by (rule inv_busy[OF assms(1) m])
qed

lemma inv_repeat:
  assumes "uploadInv cfg s" "filesPut right i name s = Inr t" "objectBegin taskOf name len t s = Inr (True, n, h)"
  shows "uploadInv cfg (setBusy i (Some PVerify) s)"
proof -
  note m = filesPut_mem[OF assms(1,2)]
  obtain u where u: "rowsOK (us_rows s i)" "memOK (us_busy s i) t (us_rows s i)" "tr_ID t = i" using assms(1) m by (rule entry_parts)
  obtain r where "r \<in> set (us_rows s i)" using objectBegin_row[OF assms(3)] u(3) by auto
  then show ?thesis using inv_busy[OF assms(1) m] rows_declared[OF u(2)] by (auto simp: pcOK_def)
qed

lemma stageObject_spec:
  "stageObject sha cancelled werr body name n h fname = Inr b \<Longrightarrow> ob_Size b = n \<and> ob_SHA256 b = h"
  by (auto simp: stageObject_def Let_def split: option.splits if_splits)

lemma headerOK_publish:
  "headerOK t rows \<Longrightarrow> headerOK t (map (publishRow n b) rows)"
  using publish_complete[of rows n b] by (auto simp: headerOK_def split: if_splits)

lemma inv_idle: "uploadInv cfg s \<Longrightarrow> us_mem s i = Some t \<Longrightarrow> tr_ManifestDigest t \<noteq> [] \<Longrightarrow> uploadInv cfg (setBusy i None s)"
  by (rule inv_busy, assumption+) (simp add: pcOK_def)

lemma inv_publish:
  assumes inv: "uploadInv cfg s" "us_mem s i = Some t" "us_busy s i = Some (PObject name n h)" and b: "ob_Size b = n" "ob_SHA256 b = h"
  shows "uploadInv cfg (snd (objectPublish taskOf err tx ptx now name b t s))"
proof -
  obtain u where u: "us_table s i = Some u" "rowsOK (us_rows s i)" "storedOK i u (us_rows s i)" "agree (us_closed s) t u"
    "memOK (us_busy s i) t (us_rows s i)" "tr_ID t = i" using inv(1,2) by (rule entry_parts)
  have d: "tr_ManifestDigest t \<noteq> []" using u(5) inv(3) by (simp add: memOK_def pcOK_def)
  obtain r where r: "r \<in> set (us_rows s i)" "or_Name r = name" "or_Size r = n" "or_SHA256 r = h" "or_Body r = None"
    using u(5) inv(3) by (auto simp: memOK_def pcOK_def)
  define rows where "rows = map (publishRow name b) (us_rows s i)"
  define t' where "t' = t\<lparr>tr_Bytes := tr_Bytes t + ob_Size b, tr_Objects := AList.update name b (tr_Objects t), tr_Updated := now\<rparr>"
  define s' where "s' = setBusy i (Some PVerify) (persistTransfer ptx t' (setMem t' (s\<lparr>us_rows := (us_rows s)(i := rows)\<rparr>)))"
  have "publishRow name b r \<noteq> r" using r b by (simp add: publishRow_def) (metis ObjectRow.select_convs(4) ObjectRow.surjective ObjectRow.update_convs(4) option.distinct(1))
  then have st: "StoreTransferObject None name b (us_rows s i) = Inr rows" using r(1) by (auto simp: StoreTransferObject_def rows_def list_ex_iff)
  have cases: "snd (objectPublish taskOf err tx ptx now name b t s) = setBusy i None s \<or>
      uploadAllowed taskOf (us_closed s) t = None \<and> snd (objectPublish taskOf err tx ptx now name b t s) = s'"
  proof (cases "err = None \<and> uploadAllowed taskOf (us_closed s) t = None \<and> tx = None")
    case True
    then show ?thesis using st u(6) by (simp add: objectPublish_def orElse_def publishTransferObject_def s'_def t'_def Let_def)
  next
    case False
    have "StoreTransferObject (Some e) name b (us_rows s i) = Inl e" for e
      using r(1) \<open>publishRow name b r \<noteq> r\<close> by (auto simp: StoreTransferObject_def list_ex_iff)
    with False show ?thesis using u(6)
      by (cases err; cases "uploadAllowed taskOf (us_closed s) t"; cases tx) (simp_all add: objectPublish_def orElse_def publishTransferObject_def)
  qed
  have "uploadInv cfg s'" if al: "uploadAllowed taskOf (us_closed s) t = None"
  proof -
    note op = allowed_open[OF al]
    have rp: "rowsOK rows" unfolding rows_def by (rule publish_rowsOK[OF u(2)])
    have pb: "publishedBytes rows = publishedBytes (us_rows s i) + ob_Size b" "map_of (publishedObjects rows) = (map_of (publishedObjects (us_rows s i)))(name \<mapsto> b)"
      using publish_bytes[of "us_rows s i" r name b] r b u(2) by (simp_all add: rows_def rowsOK_def)
    have h: "headerOK t' rows" using u(5) headerOK_publish[of t "us_rows s i" name b] by (simp add: rows_def t'_def memOK_def headerOK_objects)
    have hu: "storedOK i u rows" using u(3) headerOK_publish[of u "us_rows s i" name b] by (simp add: rows_def storedOK_def)
    have m: "memOK (Some PVerify) t' rows" using u(5) h pb d by (simp add: memOK_def pcOK_def t'_def update_conv')
    have su: "tr_State u = tr_State t" "tr_ManifestDigest u = tr_ManifestDigest t" "tr_ID u = i" using u(3,4) op by (auto simp: agree_def storedOK_def)
    have x: "tr_ID t' = i" "tr_ManifestDigest t' = tr_ManifestDigest t" "tr_State t' = tr_State t" "tr_ReservedBytes t' = tr_ReservedBytes t" "tr_TaskID t' = tr_TaskID t"
      using u(6) by (simp_all add: t'_def)
    have so: "storedOK i (header t') rows" using h x d by (simp add: storedOK_def)
    have e: "entry s' i"
    proof (cases ptx)
      case None
      then show ?thesis using rp so m x by (simp add: entry_def entryOK_def s'_def upd_defs agree_def released_def)
    next
      case (Some e)
      then show ?thesis using rp hu m x u(1) su op by (simp add: entry_def entryOK_def s'_def upd_defs agree_def released_def)
    qed
    have us: "live (us_mem s' i) = live (us_mem s i)"
      using live_mem[OF rp m] live_mem[OF u(2,5)] inv(2) x by (simp add: s'_def upd_defs released_def split: option.splits)
    show ?thesis
    proof (rule uploadInv_local[OF inv(1), of i, OF _ _ e])
      show "localStep i s s'" using x by (auto simp: localStep_def s'_def upd_defs split: option.splits)
      show "us_closed s' \<longrightarrow> storedUsage (us_table s' i) \<le> storedUsage (us_table s i)"
        using u(1) op x by (auto simp: s'_def upd_defs split: option.splits)
    qed (use u us in simp_all)
  qed
  then show ?thesis using cases inv_idle[OF inv(1,2) d] by auto
qed

lemma inv_refused:
  assumes "uploadInv cfg s" "us_busy s i = Some (PObject name n h)"
  shows "uploadInv cfg (setBusy i None s)"
proof -
  have "entry s i" using assms(1) by (simp add: uploadInv_def)
  then obtain t where t: "us_mem s i = Some t" "memOK (us_busy s i) t (us_rows s i)"
    using assms(2) by (auto simp: entry_def entryOK_def split: option.splits)
  then show ?thesis using inv_idle[OF assms(1) t(1)] assms(2) by (simp add: memOK_def pcOK_def)
qed

lemma verify_complete: "verifyUpload read qerr t rows = VComplete \<Longrightarrow> complete rows \<and> tr_State t = ''open''"
  by (auto simp: verifyUpload_def complete_def list_ex_iff list_all_iff split: if_splits option.splits)

lemma inv_verify:
  assumes "uploadInv cfg s" "us_mem s i = Some t" "us_busy s i = Some PVerify"
  shows "uploadInv cfg (setBusy i (if verifyUpload read qerr t (us_rows s i) = VComplete then Some PReady else None) s)"
proof -
  obtain u where u: "memOK (us_busy s i) t (us_rows s i)" using assms(1,2) by (rule entry_parts)
  then have "tr_ManifestDigest t \<noteq> []" using assms(3) by (simp add: memOK_def pcOK_def)
  then show ?thesis using verify_complete[of read qerr t "us_rows s i"] by (intro inv_busy[OF assms(1,2)]) (auto simp: pcOK_def)
qed

lemma store_memory: "setMem t (Transfer_store t s) = persistTransfer None t (setMem t s)"
  by (simp add: upd_defs)

text \<open>A new state of an upload whose manifest is declared.\<close>

lemma inv_state:
  assumes inv: "uploadInv cfg s" "us_mem s i = Some t"
    and h: "headerOK (t\<lparr>tr_State := st, tr_TaskID := k\<rparr>) (us_rows s i)"
    and d: "tr_ManifestDigest t = [] \<longrightarrow> st = ''deleting''"
    and r: "released t \<longrightarrow> st = ''retained'' \<or> st = ''deleting''"
  shows "uploadInv cfg (persistTransfer tx (t\<lparr>tr_State := st, tr_TaskID := k\<rparr>) (setMem (t\<lparr>tr_State := st, tr_TaskID := k\<rparr>) s))"
proof -
  obtain u where u: "rowsOK (us_rows s i)" "memOK (us_busy s i) t (us_rows s i)" "tr_ID t = i" using inv by (rule entry_parts)
  then show ?thesis using u h d r by (intro inv_persist[OF inv]) (auto simp: released_def)
qed

lemma inv_ready:
  assumes inv: "uploadInv cfg s" "us_mem s i = Some t" "us_busy s i = Some PReady"
  shows "uploadInv cfg (snd (markReady taskOf tx t s))"
proof -
  obtain u where u: "rowsOK (us_rows s i)" "memOK (us_busy s i) t (us_rows s i)" "tr_ID t = i" using inv(1,2) by (rule entry_parts)
  have d: "tr_ManifestDigest t \<noteq> []" "complete (us_rows s i)" "headerOK t (us_rows s i)" using u(2) inv(3) by (simp_all add: memOK_def pcOK_def)
  let ?t = "t\<lparr>tr_State := ''ready'', tr_TaskID := tr_TaskID t\<rparr>"
  have c: "snd (markReady taskOf tx t s) = setBusy i None s \<or>
      uploadAllowed taskOf (us_closed s) t = None \<and> snd (markReady taskOf tx t s) = setBusy i None (persistTransfer None ?t (setMem ?t s))"
    using u(3) by (auto simp: markReady_def orElse_def store_memory split: option.splits)
  have "uploadInv cfg (setBusy i None (persistTransfer None ?t (setMem ?t s)))" if "uploadAllowed taskOf (us_closed s) t = None"
  proof -
    have "headerOK ?t (us_rows s i)" using d allowed_open[OF that] by (simp add: headerOK_def)
    then have "uploadInv cfg (persistTransfer None ?t (setMem ?t s))"
      using d allowed_open[OF that] by (intro inv_state[OF inv(1,2)]) (auto simp: released_def)
    then show ?thesis using d u(3) by (intro inv_idle[of _ _ _ ?t]) (simp_all add: upd_defs)
  qed
  then show ?thesis using c inv_idle[OF inv(1,2) d(1)] by auto
qed

subsection \<open>Binding and settling\<close>

lemma inv_bind:
  assumes "uploadInv cfg s" "us_mem s i = Some t" "tr_State t = ''ready''"
  shows "uploadInv cfg (setMem (t\<lparr>tr_TaskID := k\<rparr>) (Transfer_store (t\<lparr>tr_TaskID := k\<rparr>) s))"
proof -
  obtain u where u: "memOK (us_busy s i) t (us_rows s i)" using assms(1,2) by (rule entry_parts)
  have t: "t\<lparr>tr_TaskID := k\<rparr> = t\<lparr>tr_State := ''ready'', tr_TaskID := k\<rparr>" using assms(3) by simp
  have "headerOK (t\<lparr>tr_State := ''ready'', tr_TaskID := k\<rparr>) (us_rows s i)" "tr_ManifestDigest t \<noteq> []"
    using u assms(3) by (simp_all add: memOK_def headerOK_def)
  then show ?thesis unfolding store_memory t using assms by (intro inv_state) (auto simp: released_def)
qed

lemma labBindings_spec:
  "labBindings s k seen is = Inr ts \<Longrightarrow>
     distinct is \<and> set is \<inter> set seen = {} \<and>
     list_all2 (\<lambda>i t. \<exists>t0. Server_transfer s i = Inr t0 \<and> tr_State t0 = ''ready'' \<and> t = t0\<lparr>tr_TaskID := k\<rparr>) is ts"
proof (induction s k seen "is" arbitrary: ts rule: labBindings.induct)
  case (2 s k seen i "is")
  then obtain t rest where t: "i \<notin> set seen" "Server_transfer s i = Inr t" "tr_State t = ''ready''" "labBindings s k (i # seen) is = Inr rest"
      "ts = t\<lparr>tr_TaskID := k\<rparr> # rest"
    by (auto split: if_splits sum.splits)
  then have "tr_Kind t = ''file'' \<and> tr_TaskID t = []" using 2(2) by (auto split: if_splits)
  with t show ?case using 2(1)[OF t(1,2) _ t(4)] by auto
qed simp

lemma ready_mem:
  assumes "uploadInv cfg s" "Server_transfer s i = Inr t" "tr_State t = ''ready''"
  shows "us_mem s i = Some t" "tr_ID t = i"
proof -
  show m: "us_mem s i = Some t" using loaded_released[OF assms(1,2)] assms(3) by (auto simp: loadTransfer_def released_def)
  show "tr_ID t = i" using assms(1) m by (rule entry_parts)
qed

lemma inv_bindings:
  assumes "uploadInv cfg s" "distinct is"
    "list_all2 (\<lambda>i t. \<exists>t0. us_mem s i = Some t0 \<and> tr_State t0 = ''ready'' \<and> t = t0\<lparr>tr_TaskID := k\<rparr>) is ts"
  shows "uploadInv cfg (fold (\<lambda>t s. setMem t (Transfer_store t s)) ts s)"
  using assms
proof (induction ts arbitrary: s "is")
  case (Cons t ts)
  obtain i rest t0 where i: "is = i # rest" "us_mem s i = Some t0" "tr_State t0 = ''ready''" "t = t0\<lparr>tr_TaskID := k\<rparr>"
    using Cons.prems(3) by (auto simp: list_all2_Cons2)
  let ?s = "setMem t (Transfer_store t s)"
  have "tr_ID t0 = i" using Cons.prems(1) i(2) by (rule entry_parts)
  then have same: "us_mem ?s j = us_mem s j" if "j \<in> set rest" for j using that i(1,4) Cons.prems(2) by (auto simp: upd_defs)
  have "list_all2 (\<lambda>i t. \<exists>t0. us_mem s i = Some t0 \<and> tr_State t0 = ''ready'' \<and> t = t0\<lparr>tr_TaskID := k\<rparr>) rest ts"
    using Cons.prems(3) i(1) by simp
  then have "list_all2 (\<lambda>i t. \<exists>t0. us_mem ?s i = Some t0 \<and> tr_State t0 = ''ready'' \<and> t = t0\<lparr>tr_TaskID := k\<rparr>) rest ts"
    by (rule list.rel_mono_strong) (simp only: same)
  moreover have "uploadInv cfg ?s" unfolding i(4) by (rule inv_bind[OF Cons.prems(1) i(2,3)])
  ultimately show ?case using Cons.IH[of ?s rest] Cons.prems(2) i(1) by simp
qed simp

lemma inv_bind_lab:
  assumes "uploadInv cfg s" "labBindings s k [] is = Inr ts"
  shows "uploadInv cfg (snd (acceptBindings tx ts s))"
proof -
  note l = labBindings_spec[OF assms(2)]
  have "list_all2 (\<lambda>i t. \<exists>t0. us_mem s i = Some t0 \<and> tr_State t0 = ''ready'' \<and> t = t0\<lparr>tr_TaskID := k\<rparr>) is ts"
    using l ready_mem[OF assms(1)] by (auto elim!: list_all2_mono)
  then show ?thesis using inv_bindings[OF assms(1)] l assms(1) by (auto simp: acceptBindings_def split: option.splits)
qed

lemma inv_bind_nix:
  assumes "uploadInv cfg s" "buildNix tasks s timeout i k now worker = Inr (x, t)"
  shows "uploadInv cfg (snd (acceptBindings tx [t] s))"
proof -
  obtain c where c: "Server_transfer s i = Inr c" "tr_State c = ''ready''" "t = c\<lparr>tr_TaskID := k\<rparr>"
    using assms(2) by (auto simp: buildNix_def split: sum.splits if_splits)
  then show ?thesis using inv_bind[OF assms(1) ready_mem(1)[OF assms(1) c(1,2)] c(2)] assms(1)
    by (auto simp: acceptBindings_def split: option.splits)
qed

lemma inv_bind_guest:
  assumes "uploadInv cfg s"
  shows "uploadInv cfg (snd (putGuestBind access k tx (us_mem s i) s))"
  using assms inv_bind[OF assms, of i] by (auto simp: putGuestBind_def split: option.splits)

text \<open>The loops over all uploads: one step at a time.\<close>

lemma inv_sweep:
  assumes step: "\<And>s i t. uploadInv cfg s \<Longrightarrow> us_mem s i = Some t \<Longrightarrow> P t \<Longrightarrow> uploadInv cfg (persistTransfer (tx i) (f t) (setMem (f t) s))"
  shows "uploadInv cfg s \<Longrightarrow> uploadInv cfg (sweep P f tx is s)"
proof (induction "is" arbitrary: s)
  case (Cons i "is")
  show ?case
  proof (cases "us_mem s i")
    case (Some t)
    then show ?thesis using Cons step[OF Cons.prems Some] by (cases "P t") simp_all
  qed (use Cons in simp)
qed simp

lemma inv_settle: "uploadInv cfg s \<Longrightarrow> k \<noteq> [] \<Longrightarrow> uploadInv cfg (retainTransfers txs k s)"
  unfolding retainTransfers_def
proof (rule inv_sweep)
  fix s i t
  assume k: "k \<noteq> []" and inv: "uploadInv cfg s" "us_mem s i = Some t" and p: "tr_TaskID t = k \<and> oneOf (tr_State t) [''open'', ''ready'']"
  obtain u where u: "memOK (us_busy s i) t (us_rows s i)" using inv by (rule entry_parts)
  then have r: "tr_State t = ''ready''" using p k by (auto simp: memOK_def headerOK_def oneOf_iff)
  have "t\<lparr>tr_State := ''settling''\<rparr> = t\<lparr>tr_State := ''settling'', tr_TaskID := tr_TaskID t\<rparr>" by simp
  moreover have "headerOK (t\<lparr>tr_State := ''settling'', tr_TaskID := tr_TaskID t\<rparr>) (us_rows s i)" "tr_ManifestDigest t \<noteq> []"
    using u r p k by (simp_all add: memOK_def headerOK_def)
  ultimately show "uploadInv cfg (persistTransfer (txs i) (t\<lparr>tr_State := ''settling''\<rparr>) (setMem (t\<lparr>tr_State := ''settling''\<rparr>) s))"
    using inv_state[OF inv, where st = "''settling''" and k = "tr_TaskID t" and tx = "txs i"] r by (simp add: released_def)
qed

lemma inv_retain: "uploadInv cfg s \<Longrightarrow> k \<noteq> [] \<Longrightarrow> uploadInv cfg (completeTransfers txs k s)"
  unfolding completeTransfers_def
proof (rule inv_sweep)
  fix s i t
  assume k: "k \<noteq> []" and inv: "uploadInv cfg s" "us_mem s i = Some t" and p: "tr_TaskID t = k \<and> tr_State t \<noteq> ''deleting''"
  obtain u where u: "memOK (us_busy s i) t (us_rows s i)" using inv by (rule entry_parts)
  then have r: "tr_State t \<in> {''ready'', ''settling'', ''retained''}" using p k by (auto simp: memOK_def headerOK_def)
  have "t\<lparr>tr_State := ''retained''\<rparr> = t\<lparr>tr_State := ''retained'', tr_TaskID := tr_TaskID t\<rparr>" by simp
  moreover have "headerOK (t\<lparr>tr_State := ''retained'', tr_TaskID := tr_TaskID t\<rparr>) (us_rows s i)" "tr_ManifestDigest t \<noteq> []"
    using u r p k by (auto simp: memOK_def headerOK_def)
  ultimately show "uploadInv cfg (persistTransfer (txs i) (t\<lparr>tr_State := ''retained''\<rparr>) (setMem (t\<lparr>tr_State := ''retained''\<rparr>) s))"
    using inv_state[OF inv, where st = "''retained''" and k = "tr_TaskID t" and tx = "txs i"] r by simp
qed

subsection \<open>Deleting and restarting\<close>

lemma headerOK_deleting: "headerOK t rows \<Longrightarrow> headerOK (t\<lparr>tr_State := ''deleting'', tr_TaskID := tr_TaskID t\<rparr>) rows"
  by (simp add: headerOK_def)

lemma inv_deleting:
  assumes inv: "uploadInv cfg s" "Server_transfer s i = Inr t"
  shows "uploadInv cfg (persistTransfer tx (t\<lparr>tr_State := ''deleting''\<rparr>) (setLoaded (t\<lparr>tr_State := ''deleting''\<rparr>) s))"
proof (cases "us_mem s i")
  case (Some t0)
  then have m: "us_mem s i = Some t" using inv(2) by (simp add: Server_transfer_def)
  obtain u where u: "memOK (us_busy s i) t (us_rows s i)" "tr_ID t = i" using inv(1) m by (rule entry_parts)
  have "uploadInv cfg (persistTransfer tx (t\<lparr>tr_State := ''deleting'', tr_TaskID := tr_TaskID t\<rparr>) (setMem (t\<lparr>tr_State := ''deleting'', tr_TaskID := tr_TaskID t\<rparr>) s))"
    using u headerOK_deleting by (intro inv_state[OF inv(1) m]) (simp_all add: memOK_def)
  then show ?thesis using m u(2) by (simp add: setLoaded_def)
next
  case None
  then obtain u where u: "us_table s i = Some u" "t = loadTransfer u (us_rows s i)" "released u"
    using loaded_released[OF inv] by auto
  have e: "rowsOK (us_rows s i)" "storedOK i u (us_rows s i)" "us_busy s i = None"
    using inv(1) u(1) None by (auto simp: uploadInv_def entry_def entryOK_def dest!: spec[of _ i])
  define t' where "t' = t\<lparr>tr_State := ''deleting''\<rparr>"
  have x: "tr_ID t' = i" "tr_State t' = ''deleting''" "headerOK t' (us_rows s i)" "setLoaded t' s = s"
    using e(2) headerOK_deleting[of u "us_rows s i"] None by (simp_all add: t'_def u(2) loadTransfer_def storedOK_def headerOK_def setLoaded_def)
  have "uploadInv cfg (persistTransfer tx t' s)"
  proof (rule uploadInv_local[OF inv(1), of i])
    show "entry (persistTransfer tx t' s) i"
      using e None x u by (simp add: entry_def entryOK_def upd_defs storedOK_def released_def split: option.splits)
    show "us_closed (persistTransfer tx t' s) \<longrightarrow> storedUsage (us_table (persistTransfer tx t' s) i) \<le> storedUsage (us_table s i)"
      using x u by (auto simp: upd_defs storedUsage_def released_def split: option.splits)
  qed (use x u None in \<open>auto simp: upd_defs localStep_def split: option.splits\<close>)
  then show ?thesis using x(4) by (simp add: t'_def)
qed

lemma inv_deleted:
  assumes inv: "uploadInv cfg s" "Server_transfer s i = Inr t" "us_busy s i = None"
  shows "uploadInv cfg (snd (deleteEnd rerr tx i s))"
proof (cases "orElse rerr tx")
  case None
  have en: "entry s i" using inv(1) by (simp add: uploadInv_def)
  have tab: "us_table s i \<noteq> None" using en inv(2) by (auto simp: Server_transfer_def entry_def entryOK_def split: option.splits)
  then obtain u where u: "us_table s i = Some u" "rowsOK (us_rows s i)" "storedOK i u (us_rows s i)" using en by (auto simp: entry_def entryOK_def)
  have l: "0 \<le> live (us_mem s i)"
    using en u by (auto simp: entry_def entryOK_def live_def split: option.splits dest!: memOK_bytes)
  have "0 \<le> storedUsage (us_table s i)" using u storedUsage_eq declared_nonneg by simp
  with l have "uploadInv cfg (s\<lparr>us_mem := (us_mem s)(i := None), us_table := (us_table s)(i := None), us_rows := (us_rows s)(i := [])\<rparr>)"
    using inv tab by (intro uploadInv_local[OF inv(1), of i]) (simp_all add: localStep_def entry_def entryOK_def rowsOK_def live_def storedUsage_def)
  then show ?thesis unfolding deleteEnd_def None by simp
qed (use inv in \<open>simp add: deleteEnd_def\<close>)

lemma recovered_stored:
  "header (recovered read u rows) = (if tr_State u = ''open'' \<and> tr_ManifestDigest u \<noteq> [] \<and>
      verifyUpload (read (tr_ID u)) None (loadTransfer u rows) rows = VComplete then header u\<lparr>tr_State := ''ready''\<rparr> else header u)"
  by (simp add: recovered_def loadTransfer_def header_def Let_def)

lemma inv_restart_one:
  assumes "entryOK stopped i mem stored rows pc" "stored = Some u" "oneOf (tr_State u) [''open'', ''ready'', ''settling'']"
  shows "entryOK False i (Some (recovered read u rows)) (Some (header (recovered read u rows))) rows None \<and>
    live (Some (recovered read u rows)) = storedUsage stored \<and> storedUsage (Some (header (recovered read u rows))) = storedUsage stored"
proof -
  define t where "t = recovered read u rows"
  have e: "rowsOK rows" "storedOK i u rows" using assms(1,2) by (auto simp: entryOK_def)
  have nr: "\<not> released u" using assms(3) by (auto simp: released_def oneOf_iff)
  have sel: "tr_ID t = tr_ID u" "tr_ManifestDigest t = tr_ManifestDigest u" "tr_ReservedBytes t = tr_ReservedBytes u" "tr_TaskID t = tr_TaskID u"
    "tr_Objects t = publishedObjects rows" "tr_Bytes t = publishedBytes rows"
    by (simp_all add: t_def recovered_def loadTransfer_def Let_def)
  have st: "tr_State t = tr_State u \<or> tr_State t = ''ready'' \<and> tr_State u = ''open'' \<and> tr_ManifestDigest u \<noteq> [] \<and> complete rows"
    using verify_complete[of "read (tr_ID u)" None "loadTransfer u rows" rows] by (auto simp: t_def recovered_def loadTransfer_def Let_def)
  have nt: "\<not> released t" using st nr by (auto simp: released_def)
  have h: "headerOK t rows" using st
  proof
    assume "tr_State t = tr_State u"
    then show ?thesis using e(2) sel by (simp add: storedOK_def headerOK_def)
  qed (use e(2) sel in \<open>simp add: storedOK_def headerOK_def\<close>)
  have z: "tr_ManifestDigest t = [] \<longrightarrow> tr_ReservedBytes t = 0" using e(2) sel assms(3) by (auto simp: storedOK_def oneOf_iff)
  have m: "memOK None t rows" using h z sel by (simp add: memOK_def pcOK_def)
  have so: "storedOK i (header t) rows" using h e(2) sel z by (simp add: storedOK_def)
  have "entryOK False i (Some t) (Some (header t)) rows None" using e(1) so m sel by (simp add: entryOK_def agree_def released_def)
  moreover have "live (Some t) = storedUsage stored" using live_mem[OF e(1) m] nt nr sel assms(2) by (simp add: storedUsage_def)
  moreover have "storedUsage (Some (header t)) = storedUsage stored" using nt nr sel assms(2) by (simp add: storedUsage_def released_def)
  ultimately show ?thesis by (simp add: t_def)
qed

lemma inv_restart_uploads:
  assumes "uploadInv cfg s"
  shows "uploadInv cfg (restartUploads read s)"
proof -
  define s' where "s' = restartUploads read s"
  have ids: "us_IDs s' = us_IDs s" by (simp add: s'_def restartUploads_def Let_def)
  have each: "entry s' i \<and> live (us_mem s' i) \<le> storedUsage (us_table s i) \<and> storedUsage (us_table s' i) \<le> storedUsage (us_table s i)" for i
  proof -
    have en: "entryOK (us_closed s) i (us_mem s i) (us_table s i) (us_rows s i) (us_busy s i)" using assms by (simp add: uploadInv_def entry_def)
    show ?thesis
    proof (cases "us_table s i")
      case None
      then show ?thesis using en by (simp add: entry_def entryOK_def rowsOK_def s'_def restartUploads_def Let_def live_def storedUsage_def)
    next
      case (Some u)
      have so: "rowsOK (us_rows s i)" "storedOK i u (us_rows s i)" using en Some by (auto simp: entryOK_def)
      consider "oneOf (tr_State u) [''open'', ''ready'', ''settling'']" | "tr_State u = ''deleting''" | "tr_State u = ''retained''"
        using so(2) by (auto simp: storedOK_def headerOK_def)
      then show ?thesis
      proof cases
        case 1
        then have "tr_State u \<noteq> ''deleting''" by auto
        then have "us_mem s' i = Some (recovered read u (us_rows s i))" "us_table s' i = Some (header (recovered read u (us_rows s i)))"
          "us_rows s' i = us_rows s i" "us_busy s' i = None" "us_closed s' = False"
          using 1 Some by (auto simp: s'_def restartUploads_def Let_def oneOf_iff)
        then show ?thesis using inv_restart_one[OF en Some 1, of read] by (simp add: entry_def)
      next
        case 2
        then show ?thesis using Some by (simp add: entry_def entryOK_def rowsOK_def s'_def restartUploads_def Let_def live_def storedUsage_def released_def)
      next
        case 3
        then show ?thesis using Some so by (simp add: entry_def entryOK_def s'_def restartUploads_def Let_def live_def storedUsage_def released_def)
      qed
    qed
  qed
  have "liveUsage s' \<le> (\<Sum>i\<leftarrow>us_IDs s. storedUsage (us_table s i))"
    "(\<Sum>i\<leftarrow>us_IDs s'. storedUsage (us_table s' i)) \<le> (\<Sum>i\<leftarrow>us_IDs s. storedUsage (us_table s i))"
    unfolding liveUsage_def ids using each by (auto intro!: sum_list_mono)
  moreover have "us_table s i = None \<Longrightarrow> us_table s' i = None" for i by (simp add: s'_def restartUploads_def Let_def)
  ultimately have "uploadInv cfg s'" using assms each unfolding uploadInv_def ids by auto
  then show ?thesis by (simp add: s'_def)
qed

lemma inv_uploadStep:
  assumes "\<And>m. digest m \<noteq> []" "uploadInv cfg s" "uploadStep cfg digest sha s s'"
  shows "uploadInv cfg s'"
  using assms(3,2)
proof (cases rule: uploadStep.cases)
  case (step_publish i t name n h cancelled werr body fname b taskOf err tx ptx now)
  then show ?thesis using inv_publish[OF assms(2)] stageObject_spec by metis
next
  case (step_verify i t read qerr)
  then show ?thesis using inv_verify[OF assms(2)] by simp
qed (auto simp: deleteBegin_def removeTransfer_def
    intro: inv_create inv_manifest[OF assms(1)] inv_declare inv_object inv_repeat inv_refused inv_verify inv_ready inv_bind_lab inv_bind_nix inv_bind_guest
      inv_settle inv_retain inv_deleting inv_deleted inv_restart_uploads)

lemma upload_system:
  assumes "\<And>m. digest m \<noteq> []" "0 \<le> st_InputBytes cfg"
  shows "invariant_system uploadStart (uploadStep cfg digest sha) (uploadInv cfg)"
proof
  fix s assume "uploadStart s"
  then show "uploadInv cfg s" using assms(2)
    by (simp add: uploadStart_def uploadInv_def entry_def entryOK_def rowsOK_def liveUsage_def)
qed (rule inv_uploadStep[OF assms(1)])

section \<open>Properties\<close>


text \<open>
  C21. The staging budget holds: under every interleaving of handlers, failures and restarts, the bytes reserved by
  uploads that are neither retained nor being deleted never exceed the configured input budget, and an upload
  never holds more published bytes than it reserved.
\<close>
theorem input_budget:
  assumes "\<And>m. digest m \<noteq> []" "0 \<le> st_InputBytes cfg" "reach uploadStart (uploadStep cfg digest sha) s"
  shows "liveUsage s \<le> st_InputBytes cfg \<and> (us_mem s i = Some t \<longrightarrow> 0 \<le> tr_Bytes t \<and> tr_Bytes t \<le> tr_ReservedBytes t)"
proof -
  have inv: "uploadInv cfg s" by (rule invariant_system.reach_inv[OF upload_system[OF assms(1,2)] assms(3)])
  then have "0 \<le> tr_Bytes t \<and> tr_Bytes t \<le> tr_ReservedBytes t" if m: "us_mem s i = Some t"
  proof -
    obtain u where "rowsOK (us_rows s i)" "memOK (us_busy s i) t (us_rows s i)" using inv m by (rule entry_parts)
    then show ?thesis by (rule memOK_bytes)
  qed
  then show ?thesis using inv by (simp add: uploadInv_def)
qed

lemma insertRows_keeps: "insertRows us rows = Some rows' \<Longrightarrow> set rows \<subseteq> set rows'"
  using insertRows_spec by fastforce

lemma sweep_rows [simp]: "us_rows (sweep P f tx is s) = us_rows s"
  by (induction P f tx "is" s rule: sweep.induct) (auto simp: upd_defs split: option.splits)

lemma bindings_rows [simp]: "us_rows (fold (\<lambda>t s. setMem t (Transfer_store t s)) ts s) = us_rows s"
  by (induction ts arbitrary: s) (simp_all add: upd_defs)

lemma upd_rows [simp]: "us_rows (setMem t s) = us_rows s" "us_rows (setBusy i pc s) = us_rows s" "us_rows (Transfer_store t s) = us_rows s"
  "us_rows (persistTransfer tx t s) = us_rows s" "us_rows (setLoaded t s) = us_rows s"
  by (simp_all add: upd_defs setLoaded_def split: option.splits)

lemma published_row_kept:
  assumes "StoreTransferObject tx name b rows = Inr rows'" "r \<in> set rows" "or_Body r = Some c"
  shows "r \<in> set rows'"
proof -
  have "rows' = rows \<or> rows' = map (publishRow name b) rows"
    using assms(1) by (auto simp: StoreTransferObject_def split: if_splits option.splits)
  then show ?thesis using assms(2) publishRow_body[OF assms(3), of name b] by (metis image_eqI set_map)
qed

text \<open>
  Publication is final: no section of any handler changes or withdraws a published object of an upload, other
  than by removing the whole upload.
\<close>
lemma published_immutable:
  assumes "uploadStep cfg digest sha s s'" "r \<in> set (us_rows s j)" "or_Body r = Some b"
  shows "r \<in> set (us_rows s' j) \<or> us_rows s' j = [] \<and> us_mem s' j = None \<and> us_table s' j = None"
  using assms(1)
proof cases
  case (step_declare i t m dg taskOf err tx now)
  then show ?thesis using assms(2)
    by (auto simp: manifestCommit_def DeclareUpload_def Let_def split: option.splits sum.splits dest!: insertRows_keeps)
next
  case (step_publish i t name n h cancelled werr body fname b' taskOf err tx ptx now)
  then show ?thesis using assms(2) published_row_kept[OF _ _ assms(3)]
    by (auto simp: objectPublish_def publishTransferObject_def Let_def split: option.splits sum.splits)
next
  case (step_restart read)
  then show ?thesis using assms(2) by (auto simp: restartUploads_def Let_def oneOf_iff split: option.splits)
next
  case (step_deleted i t rerr tx)
  then show ?thesis using assms(2) by (auto simp: deleteEnd_def split: option.splits)
next
  case (step_create ident blocked mkdir tx now kind)
  then show ?thesis using assms(2) by (auto simp: createTransfer_def Let_def split: option.splits)
next
  case (step_manifest i t taskOf m)
  then show ?thesis using assms(2) by (auto simp: manifestReserve_def split: option.splits sum.splits)
qed (use assms(2) in \<open>auto simp: markReady_def acceptBindings_def putGuestBind_def retainTransfers_def completeTransfers_def
    deleteBegin_def removeTransfer_def split: option.splits\<close>)

section \<open>Witnesses\<close>

text \<open>
  A budget of ten bytes.  One upload fills it, becomes ready, is bound and retained; a second one takes the
  budget over; then the first is removed.
\<close>

definition sampleStorage :: Storage where
  "sampleStorage = (cf_Storage Defaults)\<lparr>st_InputBytes := 10, st_MaxUploadBytes := 10\<rparr>"

definition sampleHex :: string where
  "sampleHex = replicate 64 CHR ''a''"

definition sampleUpload :: "string \<Rightarrow> string \<Rightarrow> string \<Rightarrow> string \<Rightarrow> Transfer" where
  "sampleUpload ident dg st k = \<lparr>tr_ManifestDigest = dg, tr_ReservedBytes = 10, tr_Derivation = [], tr_System = [], tr_Updated = 1,
     tr_ID = ident, tr_TaskID = k, tr_Kind = ''file'', tr_State = st, tr_Created = 1, tr_Objects = [], tr_Bytes = 0\<rparr>"

definition sampleBlob :: TransferObject where
  "sampleBlob = \<lparr>ob_Size = 10, ob_SHA256 = sampleHex, ob_File = ''.object-x''\<rparr>"

definition sampleRow :: "TransferObject option \<Rightarrow> ObjectRow" where
  "sampleRow b = \<lparr>or_Name = ''blob'', or_Size = 10, or_SHA256 = sampleHex, or_Body = b\<rparr>"

definition sampleManifest :: "string \<Rightarrow> UploadManifest" where
  "sampleManifest ident = \<lparr>um_UploadID = ident, um_Derivation = [], um_System = [],
     um_Objects = [\<lparr>uo_Name = ''blob'', uo_Size = 10, uo_SHA256 = sampleHex\<rparr>]\<rparr>"

definition filled :: "Transfer \<Rightarrow> Transfer" where
  "filled t = t\<lparr>tr_Objects := [(''blob'', sampleBlob)], tr_Bytes := 10\<rparr>"

definition sampleUState :: "string list \<Rightarrow> (string \<Rightarrow> Transfer option) \<Rightarrow> (string \<Rightarrow> Transfer option) \<Rightarrow> (string \<Rightarrow> ObjectRow list) \<Rightarrow> (string \<Rightarrow> upc option) \<Rightarrow> UState" where
  "sampleUState ids mem tab rows busy = \<lparr>us_IDs = ids, us_mem = mem, us_table = tab, us_rows = rows, us_busy = busy, us_closed = False\<rparr>"

lemmas sample_defs = sampleUState_def sampleUpload_def sampleBlob_def sampleRow_def sampleManifest_def filled_def upd_defs header_def

abbreviation sampleUStep :: "UState \<Rightarrow> UState \<Rightarrow> bool" where
  "sampleUStep \<equiv> uploadStep sampleStorage (\<lambda>_. ''d'') (\<lambda>_. sampleHex)"

lemma sampleHex_ok: "sha256Pattern sampleHex"
  by (simp add: sampleHex_def sha256Pattern_def hexLower_def list_all_iff)

lemma sampleManifest_ok: "checkManifest sampleStorage i ''file'' (sampleManifest i) = Inr (sampleManifest i, 10)"
  using sampleHex_ok by (simp add: checkManifest_def Let_def sampleManifest_def sortedManifest_def sampleStorage_def objectName_def)

text \<open>Creating, declaring and filling an upload, from any state with room for it.\<close>

lemma sample_create:
  assumes "i \<notin> set ids" "(\<Sum>j\<leftarrow>ids. usage (mem j)) < 10"
  shows "sampleUStep (sampleUState ids mem tab rows busy)
    (sampleUState (ids @ [i]) (mem(i \<mapsto> (sampleUpload i [] ''open'' [])\<lparr>tr_ReservedBytes := 0\<rparr>))
       (tab(i \<mapsto> (sampleUpload i [] ''open'' [])\<lparr>tr_ReservedBytes := 0\<rparr>)) rows busy)"
  using step_create[of i "sampleUState ids mem tab rows busy" sampleStorage "\<lambda>_. ''d''" "\<lambda>_. sampleHex" False None None 1 "''file''"] assms
  by (simp add: createTransfer_def Let_def inputUsage_def sampleStorage_def sample_defs)

lemma sample_reserve:
  assumes "(\<Sum>j\<leftarrow>ids. usage (mem j)) = 0" "mem i = Some ((sampleUpload i [] ''open'' [])\<lparr>tr_ReservedBytes := 0\<rparr>)" "busy i = None"
  shows "sampleUStep (sampleUState ids mem tab rows busy)
    (sampleUState ids (mem(i \<mapsto> sampleUpload i [] ''open'' [])) tab rows (busy(i \<mapsto> PManifest (sampleManifest i) ''d'')))"
proof -
  let ?t = "(sampleUpload i [] ''open'' [])\<lparr>tr_ReservedBytes := 0\<rparr>"
  have "manifestReserve sampleStorage (\<lambda>_. ''d'') (\<lambda>_. Inl EUnexpectedEOF) (sampleManifest i) ?t (sampleUState ids mem tab rows busy) =
      (None, sampleUState ids (mem(i \<mapsto> sampleUpload i [] ''open'' [])) tab rows (busy(i \<mapsto> PManifest (sampleManifest i) ''d'')))"
    using assms(1) sampleManifest_ok[of i]
    by (simp add: manifestReserve_def uploadAllowed_def inputUsage_def sampleUState_def sampleUpload_def upd_defs sampleStorage_def)
  then show ?thesis
    using step_manifest[of "sampleUState ids mem tab rows busy" i ?t sampleStorage "\<lambda>_. ''d''" "\<lambda>_. sampleHex" "\<lambda>_. Inl EUnexpectedEOF" "sampleManifest i"] assms(2,3)
    by (simp add: sampleUState_def)
qed

lemma sample_declare:
  assumes "mem i = Some (sampleUpload i [] ''open'' [])" "busy i = Some (PManifest (sampleManifest i) ''d'')" "rows i = []"
  shows "sampleUStep (sampleUState ids mem tab rows busy)
    (sampleUState ids (mem(i \<mapsto> sampleUpload i ''d'' ''open'' [])) (tab(i \<mapsto> sampleUpload i ''d'' ''open'' []))
       (rows(i := [sampleRow None])) (busy(i := None)))"
  using step_declare[of "sampleUState ids mem tab rows busy" i "sampleUpload i [] ''open'' []" "sampleManifest i" "''d''" sampleStorage "\<lambda>_. ''d''" "\<lambda>_. sampleHex" "\<lambda>_. Inl EUnexpectedEOF" None None 1] assms
  by (simp add: manifestCommit_def Let_def orElse_def uploadAllowed_def DeclareUpload_def declaredRow_def sample_defs)

lemma sample_begin:
  assumes "mem i = Some (sampleUpload i ''d'' ''open'' [])" "busy i = None" "rows i = [sampleRow None]"
  shows "sampleUStep (sampleUState ids mem tab rows busy)
    (sampleUState ids mem tab rows (busy(i \<mapsto> PObject ''blob'' 10 sampleHex)))"
  using step_object[of "sampleUState ids mem tab rows busy" i "''blob''" "''write''" "sampleUpload i ''d'' ''open'' []" "\<lambda>_. Inl EUnexpectedEOF" 10 10 sampleHex
      sampleStorage "\<lambda>_. ''d''" "\<lambda>_. sampleHex"] assms
  by (simp add: filesPut_def Server_transfer_def objectName_def objectBegin_def findRow_def uploadAllowed_def sample_defs)

lemma sample_publish:
  assumes "mem i = Some (sampleUpload i ''d'' ''open'' [])" "busy i = Some (PObject ''blob'' 10 sampleHex)" "rows i = [sampleRow None]"
  shows "sampleUStep (sampleUState ids mem tab rows busy)
    (sampleUState ids (mem(i \<mapsto> filled (sampleUpload i ''d'' ''open'' []))) (tab(i \<mapsto> sampleUpload i ''d'' ''open'' []))
       (rows(i := [sampleRow (Some sampleBlob)])) (busy(i \<mapsto> PVerify)))"
proof -
  have "stageObject (\<lambda>_. sampleHex) False None ''0123456789'' ''blob'' 10 sampleHex ''.object-x'' = Inr sampleBlob"
    by (simp add: stageObject_def bodyCheck_def HasSuffix_def orElse_def sampleBlob_def)
  then show ?thesis
    using step_publish[of "sampleUState ids mem tab rows busy" i "sampleUpload i ''d'' ''open'' []" "''blob''" 10 sampleHex "\<lambda>_. sampleHex" False None "''0123456789''" "''.object-x''" sampleBlob sampleStorage
        "\<lambda>_. ''d''" "\<lambda>_. Inl EUnexpectedEOF" None None None 1] assms
    by (simp add: objectPublish_def publishTransferObject_def StoreTransferObject_def publishRow_def orElse_def uploadAllowed_def sample_defs)
qed

lemma sample_verify:
  assumes "mem i = Some (filled (sampleUpload i ''d'' ''open'' []))" "busy i = Some PVerify" "rows i = [sampleRow (Some sampleBlob)]"
  shows "sampleUStep (sampleUState ids mem tab rows busy) (sampleUState ids mem tab rows (busy(i \<mapsto> PReady)))"
  using step_verify[of "sampleUState ids mem tab rows busy" i "filled (sampleUpload i ''d'' ''open'' [])" sampleStorage "\<lambda>_. ''d''" "\<lambda>_. sampleHex" "\<lambda>_. Inl EUnexpectedEOF" None] assms
  by (simp add: verifyUpload_def sample_defs)

lemma sample_ready:
  assumes "mem i = Some (filled (sampleUpload i ''d'' ''open'' []))" "busy i = Some PReady"
  shows "sampleUStep (sampleUState ids mem tab rows busy)
    (sampleUState ids (mem(i \<mapsto> filled (sampleUpload i ''d'' ''ready'' []))) (tab(i \<mapsto> sampleUpload i ''d'' ''ready'' [])) rows (busy(i := None)))"
  using step_ready[of "sampleUState ids mem tab rows busy" i "filled (sampleUpload i ''d'' ''open'' [])" sampleStorage "\<lambda>_. ''d''" "\<lambda>_. sampleHex" "\<lambda>_. Inl EUnexpectedEOF" None] assms
  by (simp add: markReady_def orElse_def uploadAllowed_def sample_defs)

definition onlyU :: "'a \<Rightarrow> 'a \<Rightarrow> string \<Rightarrow> 'a" where
  "onlyU d x i = (if i = ''u'' then x else d)"

definition sampleIn :: "string \<Rightarrow> string \<Rightarrow> UState" where
  "sampleIn st k = sampleUState [''u''] (onlyU None (Some (filled (sampleUpload ''u'' ''d'' st k))))
     (onlyU None (Some (sampleUpload ''u'' ''d'' st k))) (onlyU [] [sampleRow (Some sampleBlob)]) (\<lambda>_. None)"

abbreviation sampleReach :: "UState \<Rightarrow> bool" where
  "sampleReach \<equiv> reach uploadStart sampleUStep"

lemma onlyU_upd: "(\<lambda>_. d)(''u'' := x) = onlyU d x" "(onlyU d x)(''u'' := y) = onlyU d y" "onlyU d d = (\<lambda>_. d)"
  by (auto simp: onlyU_def)

lemma onlyU_at [simp]: "onlyU d x ''u'' = x" "i \<noteq> ''u'' \<Longrightarrow> onlyU d x i = d"
  by (simp_all add: onlyU_def)

definition sampleU :: "Transfer \<Rightarrow> Transfer \<Rightarrow> ObjectRow list \<Rightarrow> upc option \<Rightarrow> UState" where
  "sampleU t u rows pc = sampleUState [''u''] (onlyU None (Some t)) (onlyU None (Some u)) (onlyU [] rows) (onlyU None pc)"

lemma sampleReady_reached: "sampleReach (sampleIn ''ready'' [])"
proof -
  let ?n = "(sampleUpload ''u'' [] ''open'' [])\<lparr>tr_ReservedBytes := 0\<rparr>" and ?m = "PManifest (sampleManifest ''u'') ''d''"
  let ?o = "sampleUpload ''u'' ''d'' ''open'' []" and ?b = "PObject ''blob'' 10 sampleHex" and ?r = "[sampleRow (Some sampleBlob)]"
  have "sampleReach (sampleUState [] (\<lambda>_. None) (\<lambda>_. None) (\<lambda>_. []) (\<lambda>_. None))"
    by (rule reach_start) (simp add: uploadStart_def sampleUState_def)
  then have "sampleReach (sampleU ?n ?n [] None)"
    by (rule reach_trans) (use sample_create[of "''u''" "[]" "\<lambda>_. None" "\<lambda>_. None" "\<lambda>_. []" "\<lambda>_. None"] in \<open>simp add: onlyU_upd sampleU_def\<close>)
  then have "sampleReach (sampleU (sampleUpload ''u'' [] ''open'' []) ?n [] (Some ?m))"
    by (rule reach_trans) (use sample_reserve[of "onlyU None (Some ?n)" "[''u'']" "''u''" "onlyU None None"] in \<open>simp add: onlyU_upd sampleU_def usage_def sampleUpload_def\<close>)
  then have "sampleReach (sampleU ?o ?o [sampleRow None] None)"
    by (rule reach_trans) (use sample_declare[of "onlyU None (Some (sampleUpload ''u'' [] ''open'' []))" "''u''" "onlyU None (Some ?m)" "onlyU [] []" "[''u'']" "onlyU None (Some ?n)"] in \<open>simp add: onlyU_upd sampleU_def\<close>)
  then have "sampleReach (sampleU ?o ?o [sampleRow None] (Some ?b))"
    by (rule reach_trans) (use sample_begin[of "onlyU None (Some ?o)" "''u''" "onlyU None None" "onlyU [] [sampleRow None]"] in \<open>simp add: onlyU_upd sampleU_def\<close>)
  then have "sampleReach (sampleU (filled ?o) ?o ?r (Some PVerify))"
    by (rule reach_trans) (use sample_publish[of "onlyU None (Some ?o)" "''u''" "onlyU None (Some ?b)" "onlyU [] [sampleRow None]" "[''u'']" "onlyU None (Some ?o)"] in \<open>simp add: onlyU_upd sampleU_def\<close>)
  then have "sampleReach (sampleU (filled ?o) ?o ?r (Some PReady))"
    by (rule reach_trans) (use sample_verify[of "onlyU None (Some (filled ?o))" "''u''" "onlyU None (Some PVerify)" "onlyU [] ?r"] in \<open>simp add: onlyU_upd sampleU_def\<close>)
  then show ?thesis
    by (rule reach_trans) (use sample_ready[of "onlyU None (Some (filled ?o))" "''u''" "onlyU None (Some PReady)" "[''u'']" "onlyU None (Some ?o)" "onlyU [] ?r"] in \<open>simp add: onlyU_upd sampleU_def sampleIn_def\<close>)
qed

lemma sampleRetained_reached: "sampleReach (sampleIn ''retained'' ''k'')"
proof -
  have "snd (putGuestBind None ''k'' None (us_mem (sampleIn ''ready'' []) ''u'') (sampleIn ''ready'' [])) = sampleIn ''ready'' ''k''"
    by (simp add: putGuestBind_def sampleIn_def sample_defs onlyU_upd)
  then have "sampleUStep (sampleIn ''ready'' []) (sampleIn ''ready'' ''k'')"
    using step_bind_guest[of "''k''" sampleStorage "\<lambda>_. ''d''" "\<lambda>_. sampleHex" "sampleIn ''ready'' []" None None "''u''"] by simp
  with sampleReady_reached have r: "sampleReach (sampleIn ''ready'' ''k'')" by (rule reach_trans)
  have "completeTransfers (\<lambda>_. None) ''k'' (sampleIn ''ready'' ''k'') = sampleIn ''retained'' ''k''"
    by (simp add: completeTransfers_def sampleIn_def sample_defs onlyU_upd)
  then have "sampleUStep (sampleIn ''ready'' ''k'') (sampleIn ''retained'' ''k'')"
    using step_retain[of "''k''" sampleStorage "\<lambda>_. ''d''" "\<lambda>_. sampleHex" "sampleIn ''ready'' ''k''" "\<lambda>_. None"] by simp
  with r show ?thesis by (rule reach_trans)
qed

definition sampleTwo :: "string \<Rightarrow> UState" where
  "sampleTwo st = sampleUState [''u'', ''v''] ((onlyU None (Some (filled (sampleUpload ''u'' ''d'' st ''k''))))(''v'' \<mapsto> sampleUpload ''v'' ''d'' ''open'' []))
     ((onlyU None (Some (sampleUpload ''u'' ''d'' st ''k'')))(''v'' \<mapsto> sampleUpload ''v'' ''d'' ''open'' []))
     ((onlyU [] [sampleRow (Some sampleBlob)])(''v'' := [sampleRow None])) (\<lambda>_. None)"

lemma sampleTwo_reached: "sampleReach (sampleTwo ''deleting'')"
proof -
  let ?u = "filled (sampleUpload ''u'' ''d'' ''retained'' ''k'')" and ?h = "sampleUpload ''u'' ''d'' ''retained'' ''k''"
  let ?n = "(sampleUpload ''v'' [] ''open'' [])\<lparr>tr_ReservedBytes := 0\<rparr>" and ?m = "PManifest (sampleManifest ''v'') ''d''"
  let ?mem = "\<lambda>t. (onlyU None (Some ?u))(''v'' \<mapsto> t)" and ?tab = "\<lambda>t. (onlyU None (Some ?h))(''v'' \<mapsto> t)" and ?r = "onlyU [] [sampleRow (Some sampleBlob)]"
  have z: "usage (Some ?u) = 0" by (simp add: usage_def filled_def sampleUpload_def)
  have "sampleReach (sampleUState [''u''] (onlyU None (Some ?u)) (onlyU None (Some ?h)) ?r (\<lambda>_. None))"
    using sampleRetained_reached by (simp add: sampleIn_def)
  then have "sampleReach (sampleUState [''u'', ''v''] (?mem ?n) (?tab ?n) ?r (\<lambda>_. None))"
    by (rule reach_trans) (use sample_create[of "''v''" "[''u'']" "onlyU None (Some ?u)" "onlyU None (Some ?h)" ?r "\<lambda>_. None"] z in simp)
  then have "sampleReach (sampleUState [''u'', ''v''] (?mem (sampleUpload ''v'' [] ''open'' [])) (?tab ?n) ?r ((\<lambda>_. None)(''v'' \<mapsto> ?m)))"
    by (rule reach_trans) (use sample_reserve[of "?mem ?n" "[''u'', ''v'']" "''v''" "\<lambda>_. None"] z in \<open>simp add: usage_def sampleUpload_def\<close>)
  then have "sampleReach (sampleTwo ''retained'')"
    by (rule reach_trans) (use sample_declare[of "?mem (sampleUpload ''v'' [] ''open'' [])" "''v''" "(\<lambda>_. None)(''v'' \<mapsto> ?m)" ?r "[''u'', ''v'']" "?tab ?n"]
      in \<open>simp add: sampleTwo_def\<close>)
  note r = this
  have "Server_transfer (sampleTwo ''retained'') ''u'' = Inr ?u" by (simp add: Server_transfer_def sampleTwo_def sampleUState_def)
  moreover have "snd (removeTransfer None ?u (sampleTwo ''retained'')) = sampleTwo ''deleting''"
    by (simp add: removeTransfer_def setLoaded_def sampleTwo_def sample_defs onlyU_def fun_eq_iff)
  moreover have "tr_TaskID ?u \<noteq> []" by (simp add: filled_def sampleUpload_def)
  ultimately have "sampleUStep (sampleTwo ''retained'') (sampleTwo ''deleting'')"
    using step_remove[of "sampleTwo ''retained''" "''u''" ?u sampleStorage 0 "\<lambda>_. ''d''" "\<lambda>_. sampleHex" None] by simp
  with r show ?thesis by (rule reach_trans)
qed


theorem input_budget_witness: "liveUsage (sampleTwo ''deleting'') \<le> 10"
  using input_budget[OF _ _ sampleTwo_reached] by (simp add: sampleStorage_def)

text \<open>
  C33. Removing a retained upload charges it to the budget again: \<^verbatim>\<open>inputUsage\<close> leaves out retained uploads only, and
  \<^verbatim>\<open>removeTransfer\<close> moves a retained one to \<^verbatim>\<open>deleting\<close> before its files are gone.  There is a reachable state in
  which the usage is twice the budget although the live uploads fit it exactly, and every new upload is refused.
\<close>
theorem removal_charges_budget_again:
  "\<exists>cfg digest sha s. reach uploadStart (uploadStep cfg digest sha) s \<and> liveUsage s = st_InputBytes cfg \<and>
     inputUsage s = 2 * st_InputBytes cfg"
proof -
  have "liveUsage (sampleTwo ''deleting'') = 10" "inputUsage (sampleTwo ''deleting'') = 20" "st_InputBytes sampleStorage = 10"
    by (simp_all add: liveUsage_def inputUsage_def live_def usage_def released_def sampleTwo_def sampleUState_def filled_def sampleUpload_def sampleStorage_def)
  then show ?thesis using sampleTwo_reached by (intro exI[of _ sampleStorage]) auto
qed

end
