(* ===== verification/Guest.thy ===== *)
theory Guest
  imports CommandIO
begin

text \<open>
  The command supervisor inside a guest, \<^verbatim>\<open>internal/guest\<close>: the bounded output writer, the stdin feeder and
  its packet queue, the automaton of \<^verbatim>\<open>supervise\<close> that runs one command and publishes its status, the record
  that replaces a lost supervisor, and \<^verbatim>\<open>Read\<close>, which the controller polls.

  A status is published by an atomic rename, so the status file is the last record whose write succeeded; the
  outcomes of system calls, the clock and the process are inputs.
\<close>

section \<open>Bounded output\<close>

text \<open>
  \<open>lw_hashed\<close> are the bytes given to the running hash.  The outcome of writing the file: all of it, or an
  error after some bytes.
\<close>

record limitWriter =
  lw_file :: string
  lw_n :: int
  lw_truncated :: bool
  lw_hashed :: string

definition emptyWriter :: limitWriter where
  "emptyWriter = \<lparr>lw_file = [], lw_n = 0, lw_truncated = False, lw_hashed = []\<rparr>"

definition limitWriter_Write :: "(nat \<times> goerr) option \<Rightarrow> string \<Rightarrow> limitWriter \<Rightarrow> nat \<times> goerr option \<times> limitWriter" where
  "limitWriter_Write outcome b w =
    (let remaining = max 0 (CommandOutputLimit - lw_n w);
         w1 = (if int (length b) > remaining then w\<lparr>lw_truncated := True\<rparr> else w) in
     if remaining > 0 then
       let part = take (nat (min (int (length b)) remaining)) b;
           written = (case outcome of None \<Rightarrow> length part | Some (k, _) \<Rightarrow> min k (length part));
           w2 = w1\<lparr>lw_file := lw_file w1 @ take written part, lw_n := lw_n w1 + int written, lw_hashed := lw_hashed w1 @ take written b\<rparr>
       in (case outcome of None \<Rightarrow> (length b, None, w2) | Some (_, e) \<Rightarrow> (written, Some e, w2))
     else (length b, None, w1))"

text \<open>
  One copying goroutine of \<^verbatim>\<open>drainStreams\<close>: \<^verbatim>\<open>io.Copy\<close> gives each piece read from the pipe to the writer and stops
  at the first error; \<open>readErr\<close> is an error of the pipe itself.
\<close>

fun copyStream :: "((nat \<times> goerr) option \<times> string) list \<Rightarrow> goerr option \<Rightarrow> limitWriter \<Rightarrow> goerr option \<times> limitWriter" where
  "copyStream [] readErr w = (readErr, w)"
| "copyStream ((outcome, b) # ps) readErr w =
    (case limitWriter_Write outcome b w of
       (_, Some e, w') \<Rightarrow> (Some e, w')
     | (_, None, w') \<Rightarrow> copyStream ps readErr w')"

section \<open>Standard input\<close>

record Input =
  in_Sequence :: int
  in_Data :: string
  in_EOF :: bool

text \<open>The progress of the feeder: the next sequence number, the bytes so far, what the process was given.\<close>

record FeedState =
  fd_next :: int
  fd_bytes :: int
  fd_stdin :: string
  fd_closed :: bool

definition feedStart :: FeedState where
  "feedStart = \<lparr>fd_next = 0, fd_bytes = 0, fd_stdin = [], fd_closed = False\<rparr>"

text \<open>
  One tick: what reading the packet of each number gives (\<open>None\<close>: there is no such file yet), and whether the
  write to the pipe fails after some bytes (\<open>ft_cancelled\<close>: the context ended meanwhile).
\<close>

record feedTick_io =
  ft_packet :: "int \<Rightarrow> Input res option"
  ft_write :: "(nat \<times> goerr) option"
  ft_cancelled :: bool

datatype feedResult = FContinue FeedState | FDone "goerr option" FeedState

definition feedTick :: "feedTick_io \<Rightarrow> FeedState \<Rightarrow> feedResult" where
  "feedTick io s =
    (case ft_packet io (fd_next s) of
       None \<Rightarrow> FContinue s
     | Some (Inl e) \<Rightarrow> FDone (Some e) s
     | Some (Inr p) \<Rightarrow>
        if in_Sequence p \<noteq> fd_next s then FDone (Some (Fail ''input_order'' ''Guest input sequence does not match its queue'')) s
        else let s1 = s\<lparr>fd_bytes := fd_bytes s + int (length (in_Data p))\<rparr> in
        if fd_next s \<ge> InputPacketCount \<or> length (in_Data p) > InputPacketLimit \<or> fd_bytes s1 > CommandInputLimit
        then FDone (Some (Fail ''input_limit'' ''Guest stdin exceeded its packet or byte budget'')) s1
        else (case ft_write io of
          Some (k, e) \<Rightarrow> FDone (if ft_cancelled io then None else Some e) (s1\<lparr>fd_stdin := fd_stdin s1 @ take k (in_Data p)\<rparr>)
        | None \<Rightarrow>
           let s2 = s1\<lparr>fd_stdin := fd_stdin s1 @ in_Data p, fd_next := fd_next s1 + 1, fd_closed := in_EOF p\<rparr> in
           if in_EOF p then FDone None s2 else FContinue s2))"

text \<open>\<^verbatim>\<open>feedInput\<close> over a sequence of ticks; the list ends when the context does.\<close>

fun feedInput :: "feedTick_io list \<Rightarrow> FeedState \<Rightarrow> goerr option \<times> FeedState" where
  "feedInput [] s = (None, s)"
| "feedInput (io # ios) s = (case feedTick io s of FContinue s' \<Rightarrow> feedInput ios s' | FDone e s' \<Rightarrow> (e, s'))"

text \<open>
  The packet queue of one command: the published packets and the status.  \<^verbatim>\<open>Input\<close> first looks at them and
  later links its finished packet, which fails if the number is taken meanwhile.
\<close>

record GuestDir =
  gd_packets :: "int \<Rightarrow> Input option"
  gd_status :: "CommandStatus option"

definition inputConflict :: goerr where
  "inputConflict = Fail ''input_conflict'' ''Sequence already has different content''"

text \<open>The checks of \<^verbatim>\<open>Input\<close>: its answer, or \<open>None\<close> to go on and publish.\<close>

definition inputCheck :: "string \<Rightarrow> Input \<Rightarrow> GuestDir \<Rightarrow> goerr option option" where
  "inputCheck ident p d =
    (if \<not> IDPattern ident then Some (Some (Fail ''invalid_argument'' ''Invalid command ID''))
     else if in_Sequence p < 0 \<or> in_Sequence p \<ge> InputPacketCount \<or> length (in_Data p) > InputPacketLimit
     then Some (Some (Fail ''invalid_argument'' ''Invalid input''))
     else (case gd_packets d (in_Sequence p) of
       Some old \<Rightarrow> Some (if old \<noteq> p then Some inputConflict else None)
     | None \<Rightarrow> (case gd_status d of
         None \<Rightarrow> Some (Some notExist)
       | Some st \<Rightarrow> if st_State st \<noteq> ''running'' \<and> st_State st \<noteq> ''starting''
                   then Some (Some (Fail ''invalid_state'' ''Command is not running'')) else None)))"

definition inputLink :: "goerr option \<Rightarrow> Input \<Rightarrow> GuestDir \<Rightarrow> goerr option \<times> GuestDir" where
  "inputLink werr p d =
    (case werr of
       Some e \<Rightarrow> (Some e, d)
     | None \<Rightarrow> (case gd_packets d (in_Sequence p) of
         Some old \<Rightarrow> (if old \<noteq> p then Some inputConflict else None, d)
       | None \<Rightarrow> (None, d\<lparr>gd_packets := (gd_packets d)(in_Sequence p \<mapsto> p)\<rparr>)))"

section \<open>Supervision\<close>

definition phaseFailure :: "string \<Rightarrow> goerr option \<Rightarrow> werror option" where
  "phaseFailure stage err =
    (case err of
       None \<Rightarrow> None
     | Some e \<Rightarrow> Some (WError ''supervision_failed'' ''Command supervision could not confirm a phase'' [] [] []
         [(''stage'', GStr stage), (''cause'', GErr (Safe e))]))"

text \<open>\<^verbatim>\<open>errors.Join\<close> of two.\<close>

definition joinErr :: "goerr option \<Rightarrow> goerr option \<Rightarrow> goerr option" where
  "joinErr a b = (case (a, b) of (None, _) \<Rightarrow> b | (_, None) \<Rightarrow> a | (Some x, Some y) \<Rightarrow> Some (EJoin x y))"

record processExit =
  px_code :: "int option"
  px_signal :: string
  px_core :: bool

definition confirmed :: "processExit \<Rightarrow> bool" where
  "confirmed e \<longleftrightarrow> px_code e \<noteq> None \<or> px_signal e \<noteq> []"

text \<open>The result of \<^verbatim>\<open>child.Wait\<close> carries an exit and an error.\<close>

type_synonym exitResult = "processExit \<times> goerr option"

text \<open>How the launch of the process ends.\<close>

datatype launchResult = LChild | LNoChild | LError goerr | LExpired goerr

text \<open>What the waiting loop selects, in order.\<close>

datatype waitEvent =
    WExit exitResult
  | WContext bool
  | WInput "goerr option"
  | WUpdate nat bool
  | WTick bool

record supervise_io =
  su_clock :: "nat \<Rightarrow> nat \<Rightarrow> gotime"
  su_persist :: "nat \<Rightarrow> goerr option"
  su_identity :: "ProcessIdentity res"
  su_parent :: "gotime option"
  su_entered :: gotime
  su_environment :: "CommandExecution res"
  su_files :: "goerr option"
  su_launch :: launchResult
  su_events :: "waitEvent list"
  su_kill :: "goerr option"
  su_lateExit :: "exitResult option"
  su_drain :: "goerr option"
  su_inputSettled :: bool
  su_sync :: "goerr option"
  su_progress :: "nat \<times> bool"
  su_stdout :: limitWriter
  su_stderr :: limitWriter

text \<open>
  The supervisor's variables: the status in memory, the records it has published and the number of writes so
  far.  \<open>persist\<close> stamps the status and tries to publish it; \<open>su_clock io k j\<close> is the \<open>j\<close>-th clock reading before
  the \<open>k\<close>-th write.
\<close>

record Sup =
  sp_status :: CommandStatus
  sp_log :: "CommandStatus list"
  sp_k :: nat

definition stamp :: "gotime \<Rightarrow> CommandStatus \<Rightarrow> CommandStatus" where
  "stamp now st = st\<lparr>st_Updated := Some now\<rparr>"

definition persist :: "supervise_io \<Rightarrow> Sup \<Rightarrow> goerr option \<times> Sup" where
  "persist io s =
    (let st = stamp (su_clock io (sp_k s) 2) (sp_status s);
         err = su_persist io (sp_k s) in
     (err, s\<lparr>sp_status := st, sp_k := Suc (sp_k s), sp_log := (if err = None then sp_log s @ [st] else sp_log s)\<rparr>))"

definition updStatus :: "(CommandStatus \<Rightarrow> CommandStatus) \<Rightarrow> Sup \<Rightarrow> Sup" where
  "updStatus f s = s\<lparr>sp_status := f (sp_status s)\<rparr>"

definition openOutputState :: CommandOutput where
  "openOutputState = \<lparr>co_State = ''open'', co_StdoutBytes = 0, co_StderrBytes = 0, co_StdoutSHA256 = [], co_StderrSHA256 = [],
     co_StdoutTruncated = False, co_StderrTruncated = False, co_Error = None\<rparr>"

definition zeroStatus :: CommandStatus where
  "zeroStatus = \<lparr>st_State = [], st_ExitCode = None, st_ExitSignal = [], st_CoreDumped = False, st_WrittenInput = 0, st_InputClosed = False,
     st_Error = [], st_Stage = [], st_Final = False, st_Started = None, st_Deadline = None, st_Updated = None, st_Finished = None,
     st_Supervisor = None, st_Termination = None, st_Output = None, st_Execution = None\<rparr>"

text \<open>The deadline of the context: the parent's, or the timeout of the command when that is earlier.\<close>

definition ctxDeadline :: "gotime option \<Rightarrow> gotime \<Rightarrow> CommandSpec \<Rightarrow> gotime option" where
  "ctxDeadline parent now spec =
    (if cs_TimeoutSeconds spec > 0
     then (let d = now + cs_TimeoutSeconds spec * second in
           case parent of None \<Rightarrow> Some d | Some p \<Rightarrow> Some (min p d))
     else parent)"

definition startingStatus :: "supervise_io \<Rightarrow> CommandSpec \<Rightarrow> CommandStatus" where
  "startingStatus io spec = zeroStatus\<lparr>st_State := ''starting'', st_Stage := ''starting'', st_Output := Some openOutputState,
     st_Supervisor := (case su_identity io of Inr i \<Rightarrow> Some i | Inl _ \<Rightarrow> None), st_Deadline := ctxDeadline (su_parent io) (su_entered io) spec\<rparr>"

definition newTermination :: "string \<Rightarrow> gotime \<Rightarrow> string \<Rightarrow> Termination" where
  "newTermination reason now source = \<lparr>tm_Reason = reason, tm_Requested = now, tm_ProcessExited = False, tm_RequestDelivered = None,
     tm_GroupStopped = False, tm_Source = source, tm_Error = None\<rparr>"

text \<open>\<^verbatim>\<open>failStart\<close>: the command never ran, or (when the start was interrupted) that is not known.\<close>

definition failedStart :: "gotime \<Rightarrow> gotime \<Rightarrow> goerr \<Rightarrow> CommandStatus \<Rightarrow> CommandStatus" where
  "failedStart requested now err st =
    (let unsure = isCanceled err \<or> isDeadlineExceeded err in
     st\<lparr>st_State := (if unsure then ''uncertain'' else ''failed''), st_Stage := ''finished'', st_Final := True,
        st_Error := (if unsure then ''Process startup could not be confirmed'' else ''Could not start supervised process''),
        st_Output := map_option (\<lambda>x. x\<lparr>co_State := ''incomplete''\<rparr>) (st_Output st),
        st_Termination := Some ((newTermination ''start_failed'' requested ''guest_supervisor'')\<lparr>tm_Error := phaseFailure ''start'' (Some err)\<rparr>),
        st_Finished := Some now\<rparr>)"

definition failStart :: "supervise_io \<Rightarrow> goerr \<Rightarrow> Sup \<Rightarrow> goerr option \<times> Sup" where
  "failStart io err s =
    (case persist io (updStatus (failedStart (su_clock io (sp_k s) 0) (su_clock io (sp_k s) 1) err) s) of (perr, s') \<Rightarrow> (joinErr (Some err) perr, s'))"

definition runningStatus :: "gotime \<Rightarrow> CommandStatus \<Rightarrow> CommandStatus" where
  "runningStatus now st = st\<lparr>st_Started := Some now, st_State := ''running'', st_Stage := ''running''\<rparr>"

definition readProgress :: "nat \<times> bool \<Rightarrow> CommandStatus \<Rightarrow> CommandStatus" where
  "readProgress pr st = st\<lparr>st_WrittenInput := int (fst pr), st_InputClosed := snd pr\<rparr>"

text \<open>
  How the waiting loop ends: the reason, a failure of the supervision itself, the exit if it was seen, and
  whether the feeder has ended.
\<close>

record waited =
  wt_reason :: string
  wt_failure :: "goerr option"
  wt_result :: "exitResult option"
  wt_inputFinished :: bool

definition waitedFor :: "string \<Rightarrow> goerr option \<Rightarrow> exitResult option \<Rightarrow> bool \<Rightarrow> waited" where
  "waitedFor reason failure result fin = \<lparr>wt_reason = reason, wt_failure = failure, wt_result = result, wt_inputFinished = fin\<rparr>"

fun waitLoop :: "supervise_io \<Rightarrow> waitEvent list \<Rightarrow> bool \<Rightarrow> Sup \<Rightarrow> (waited \<times> Sup) option" where
  "waitLoop io [] fin s = None"
| "waitLoop io (e # es) fin s =
    (case e of
       WExit r \<Rightarrow> Some (waitedFor ''exited'' None (Some r) fin, s)
     | WContext expired \<Rightarrow> Some (waitedFor (if expired then ''timeout'' else ''supervisor_cancelled'') None None fin, s)
     | WInput (Some err) \<Rightarrow> Some (waitedFor ''input_failed'' (Some err) None True, s)
     | WInput None \<Rightarrow> waitLoop io es True s
     | WUpdate nxt shut \<Rightarrow>
        (case persist io (updStatus (readProgress (nxt, shut)) s) of
           (Some err, s') \<Rightarrow> Some (waitedFor ''status_write_failed'' (Some err) None fin, s')
         | (None, s') \<Rightarrow> waitLoop io es fin s')
     | WTick cancel \<Rightarrow> if cancel then Some (waitedFor ''cancelled'' None None fin, s) else waitLoop io es fin s)"

definition stoppingStatus :: "gotime \<Rightarrow> string \<Rightarrow> CommandStatus \<Rightarrow> CommandStatus" where
  "stoppingStatus now reason st = st\<lparr>st_Stage := ''stopping'', st_Termination := Some (newTermination reason now ''guest_supervisor'')\<rparr>"

definition updTermination :: "(Termination \<Rightarrow> Termination) \<Rightarrow> CommandStatus \<Rightarrow> CommandStatus" where
  "updTermination f st = st\<lparr>st_Termination := map_option f (st_Termination st)\<rparr>"

text \<open>\<^verbatim>\<open>known.Details["request_delivered"].(bool)\<close> of the first classified error in \<^verbatim>\<open>killErr\<close>.\<close>

definition requestDelivered :: "goerr \<Rightarrow> bool option" where
  "requestDelivered err =
    (case asWire err of
       None \<Rightarrow> None
     | Some known \<Rightarrow> (case map_of (Details known) ''request_delivered'' of Some (GBool b) \<Rightarrow> Some b | _ \<Rightarrow> None))"

definition killedStatus :: "supervise_io \<Rightarrow> CommandStatus \<Rightarrow> CommandStatus" where
  "killedStatus io = updTermination (\<lambda>t.
     t\<lparr>tm_GroupStopped := (su_kill io = None),
       tm_RequestDelivered := (if su_kill io = None then Some True else Option.bind (su_kill io) requestDelivered),
       tm_Error := (if su_kill io = None then tm_Error t else phaseFailure ''terminate'' (su_kill io))\<rparr>)"

definition exitStatus :: "exitResult option \<Rightarrow> CommandStatus \<Rightarrow> CommandStatus" where
  "exitStatus result st =
    (case result of
       Some (e, err) \<Rightarrow>
         if confirmed e
         then updTermination (\<lambda>t. t\<lparr>tm_ProcessExited := True\<rparr>) (st\<lparr>st_ExitCode := px_code e, st_ExitSignal := px_signal e, st_CoreDumped := px_core e\<rparr>)
         else updTermination (\<lambda>t. if tm_Error t = None then t\<lparr>tm_Error := phaseFailure ''wait'' err\<rparr> else t) st
     | None \<Rightarrow> updTermination (\<lambda>t. if tm_Error t = None then t\<lparr>tm_Error := phaseFailure ''wait'' (Some EDeadlineExceeded)\<rparr> else t) st)"

definition drainError :: "supervise_io \<Rightarrow> bool \<Rightarrow> goerr option" where
  "drainError io inputFinished =
    joinErr (joinErr (su_drain io)
      (if \<not> inputFinished \<and> \<not> su_inputSettled io then Some (Fail ''input_unsettled'' ''Guest input reader did not settle'') else None)) (su_sync io)"

definition drainedOutput :: "(string \<Rightarrow> string) \<Rightarrow> supervise_io \<Rightarrow> goerr option \<Rightarrow> CommandOutput" where
  "drainedOutput sha io err =
    (let o1 = \<lparr>co_State = ''complete'', co_StdoutBytes = lw_n (su_stdout io), co_StderrBytes = lw_n (su_stderr io),
        co_StdoutSHA256 = [], co_StderrSHA256 = [], co_StdoutTruncated = lw_truncated (su_stdout io),
        co_StderrTruncated = lw_truncated (su_stderr io), co_Error = None\<rparr> in
     if err \<noteq> None then o1\<lparr>co_State := ''incomplete'', co_Error := phaseFailure ''drain'' err\<rparr>
     else o1\<lparr>co_StdoutSHA256 := sha (lw_hashed (su_stdout io)), co_StderrSHA256 := sha (lw_hashed (su_stderr io))\<rparr>)"

text \<open>The last record.\<close>

definition outcomeState :: "string \<Rightarrow> CommandStatus \<Rightarrow> CommandStatus" where
  "outcomeState reason st =
    (if (case st_Termination st of None \<Rightarrow> True | Some t \<Rightarrow> \<not> tm_ProcessExited t \<or> \<not> tm_GroupStopped t)
     then st\<lparr>st_State := ''uncertain'', st_Error := ''Process termination could not be fully confirmed''\<rparr>
     else if reason = ''timeout'' then st\<lparr>st_State := ''timed_out''\<rparr>
     else if reason = ''cancelled'' \<or> reason = ''supervisor_cancelled'' then st\<lparr>st_State := ''cancelled''\<rparr>
     else if reason = ''input_failed'' \<or> reason = ''status_write_failed''
     then st\<lparr>st_State := ''failed'', st_Error := ''Command supervision failed''\<rparr>
     else st\<lparr>st_State := ''exited''\<rparr>)"

definition finishedStatus :: "(string \<Rightarrow> string) \<Rightarrow> supervise_io \<Rightarrow> gotime \<Rightarrow> waited \<Rightarrow> goerr option \<Rightarrow> CommandStatus \<Rightarrow> CommandStatus" where
  "finishedStatus sha io now w derr st =
    (let st1 = outcomeState (wt_reason w) ((readProgress (su_progress io) st)\<lparr>st_Output := Some (drainedOutput sha io derr)\<rparr>);
         st2 = updTermination (\<lambda>t. if wt_failure w \<noteq> None \<and> tm_Error t = None
                                 then t\<lparr>tm_Error := phaseFailure (wt_reason w) (wt_failure w)\<rparr> else t) st1
     in st2\<lparr>st_Final := True, st_Stage := ''finished'', st_Finished := Some now\<rparr>)"

text \<open>From the end of the waiting loop to the end of \<^verbatim>\<open>supervise\<close>.\<close>

definition settle :: "(string \<Rightarrow> string) \<Rightarrow> supervise_io \<Rightarrow> waited \<Rightarrow> Sup \<Rightarrow> goerr option \<times> Sup" where
  "settle sha io w s =
    (let s1 = snd (persist io (updStatus (stoppingStatus (su_clock io (sp_k s) 0) (wt_reason w)) s));
         result = (case wt_result w of Some r \<Rightarrow> Some r | None \<Rightarrow> su_lateExit io);
         s2 = snd (persist io (updStatus (\<lambda>st. (exitStatus result (killedStatus io st))\<lparr>st_Stage := ''draining''\<rparr>) s1));
         derr = drainError io (wt_inputFinished w) in
     (case persist io (updStatus (finishedStatus sha io (su_clock io (sp_k s2) 0) w derr) s2) of
        (perr, s3) \<Rightarrow> (joinErr (joinErr (joinErr (wt_failure w) (su_kill io)) derr) perr, s3)))"

text \<open>
  \<^verbatim>\<open>supervise\<close>: \<open>request\<close> is the decoded request; \<open>None\<close> while the loop still waits.  \<open>superviseDir\<close> is the
  part after the command's directory was created, \<open>started\<close> from the output files on and \<open>launched\<close> once there is a process.
\<close>

definition launched :: "(string \<Rightarrow> string) \<Rightarrow> supervise_io \<Rightarrow> Sup \<Rightarrow> (goerr option \<times> Sup) option" where
  "launched sha io s =
    (case persist io (updStatus (runningStatus (su_clock io (sp_k s) 0)) s) of
       (Some e, s2) \<Rightarrow> Some (settle sha io (waitedFor ''status_write_failed'' (Some e) None False) s2)
     | (None, s2) \<Rightarrow> map_option (\<lambda>(w, s3). settle sha io w s3) (waitLoop io (su_events io) False s2))"

definition started :: "(string \<Rightarrow> string) \<Rightarrow> supervise_io \<Rightarrow> Sup \<Rightarrow> (goerr option \<times> Sup) option" where
  "started sha io s =
    (case su_files io of
       Some e \<Rightarrow> Some (failStart io e s)
     | None \<Rightarrow> (case su_launch io of
         LError e \<Rightarrow> Some (failStart io e s)
       | LExpired e \<Rightarrow> Some (failStart io e s)
       | LNoChild \<Rightarrow> Some (failStart io (Fail ''backend_protocol_error'' ''Process adapter returned no child'') s)
       | LChild \<Rightarrow> launched sha io s))"

definition superviseDir :: "(string \<Rightarrow> string) \<Rightarrow> supervise_io \<Rightarrow> CommandSpec \<Rightarrow> (goerr option \<times> Sup) option" where
  "superviseDir sha io spec =
    (case persist io \<lparr>sp_status = startingStatus io spec, sp_log = [], sp_k = 0\<rparr> of
       (Some e, s) \<Rightarrow> Some (Some e, s)
     | (None, s) \<Rightarrow>
        (case su_identity io of
           Inl e \<Rightarrow> Some (failStart io e s)
         | Inr _ \<Rightarrow> (case su_environment io of
             Inl e \<Rightarrow> Some (failStart io e s)
           | Inr env \<Rightarrow> (case persist io (updStatus (\<lambda>st. st\<lparr>st_Execution := Some env\<rparr>) s) of
               (Some e, s') \<Rightarrow> Some (Some e, s')
             | (None, s') \<Rightarrow> started sha io s'))))"

definition supervise :: "(string \<Rightarrow> string) \<Rightarrow> supervise_io \<Rightarrow> CommandSpec res \<Rightarrow> goerr option \<Rightarrow> (goerr option \<times> Sup) option" where
  "supervise sha io request mkdir =
    (let nothing = \<lparr>sp_status = zeroStatus, sp_log = [], sp_k = 0\<rparr> in
     case request of
       Inl e \<Rightarrow> Some (Some e, nothing)
     | Inr spec \<Rightarrow> (case CommandSpec_Validate spec of
         Some e \<Rightarrow> Some (Some e, nothing)
       | None \<Rightarrow> (case mkdir of Some e \<Rightarrow> Some (Some e, nothing) | None \<Rightarrow> superviseDir sha io spec)))"

section \<open>A lost supervisor\<close>

definition incompleteOutput :: CommandOutput where
  "incompleteOutput = openOutputState\<lparr>co_State := ''incomplete''\<rparr>"

definition lostSupervisor :: "gotime \<Rightarrow> goerr option \<Rightarrow> CommandStatus \<Rightarrow> CommandStatus" where
  "lostSupervisor now cause st =
    (let t1 = (case st_Termination st of Some t \<Rightarrow> t | None \<Rightarrow> newTermination ''supervisor_lost'' now ''supervisor_exit'');
         c = (case cause of Some e \<Rightarrow> e
              | None \<Rightarrow> Fail ''missing_terminal_status'' ''Supervisor did not publish a final execution record'');
         t2 = (if tm_Error t1 = None then t1\<lparr>tm_Error := phaseFailure ''supervisor_exit'' (Some c)\<rparr> else t1);
         out = (case st_Output st of
             None \<Rightarrow> incompleteOutput
           | Some x \<Rightarrow> if co_State x = ''open'' then x\<lparr>co_State := ''incomplete''\<rparr> else x) in
     st\<lparr>st_State := ''uncertain'', st_Stage := ''finished'', st_Final := True, st_Updated := Some now, st_Finished := Some now,
        st_Error := ''Supervisor ended without a final execution record'', st_Termination := Some t2, st_Output := Some out\<rparr>)"

text \<open>
  The status file of a command as a reader finds it: absent, unreadable, or a record.  \<^verbatim>\<open>Reconcile\<close> writes by
  rename, so a failed write leaves the record there was.
\<close>

datatype statusFile = SAbsent | SBroken goerr | SRecord CommandStatus

definition Reconcile :: "string \<Rightarrow> gotime \<Rightarrow> goerr option \<Rightarrow> goerr option \<Rightarrow> goerr option \<Rightarrow> statusFile \<Rightarrow> goerr option \<times> statusFile" where
  "Reconcile ident now cause mkdir werr sf =
    (if \<not> IDPattern ident then (Some (Fail ''invalid_argument'' ''Invalid command ID''), sf)
     else (case sf of
       SBroken e \<Rightarrow> (Some e, sf)
     | SAbsent \<Rightarrow> (case mkdir of
         Some e \<Rightarrow> (Some e, sf)
       | None \<Rightarrow> (case werr of Some e \<Rightarrow> (Some e, sf) | None \<Rightarrow> (None, SRecord (lostSupervisor now cause zeroStatus))))
     | SRecord st \<Rightarrow>
        if st_Final st then (None, sf)
        else (case werr of Some e \<Rightarrow> (Some e, sf) | None \<Rightarrow> (None, SRecord (lostSupervisor now cause st)))))"

text \<open>A submission refused before a supervisor was started; \<open>initErrs\<close> are the errors of creating the two empty files.\<close>

definition rejectedStatus :: "(string \<Rightarrow> string) \<Rightarrow> gotime \<Rightarrow> string \<Rightarrow> goerr \<Rightarrow> goerr option list \<Rightarrow> CommandStatus" where
  "rejectedStatus sha now context cause initErrs =
    (let ctx = (if context = [] then ''service'' else context);
         h = sha [];
         clean = openOutputState\<lparr>co_State := ''complete'', co_StdoutSHA256 := h, co_StderrSHA256 := h\<rparr>;
         out = fold (\<lambda>e x. if e \<noteq> None then x\<lparr>co_State := ''incomplete'', co_Error := phaseFailure ''output_init'' e\<rparr> else x) initErrs clean in
     zeroStatus\<lparr>st_State := ''failed'', st_Stage := ''finished'', st_Final := True, st_Updated := Some now, st_Finished := Some now,
       st_Error := ''Command submission was rejected before supervisor start'',
       st_Execution := Some \<lparr>ce_Context = ctx, ce_Identity = [], ce_Cwd = [], ce_Inherited = [], ce_EnvironmentKeys = []\<rparr>,
       st_Termination := Some ((newTermination ''start_failed'' now ''guest_command_service'')\<lparr>tm_Error := Some (Safe cause)\<rparr>),
       st_Output := Some out\<rparr>)"

definition rejectSubmission ::
  "(string \<Rightarrow> string) \<Rightarrow> gotime \<Rightarrow> string \<Rightarrow> string \<Rightarrow> goerr \<Rightarrow> goerr option \<Rightarrow> goerr option list \<Rightarrow> goerr option \<Rightarrow> statusFile \<Rightarrow>
     goerr option \<times> statusFile" where
  "rejectSubmission sha now ident context cause mkdir initErrs werr sf =
    (if \<not> IDPattern ident then (Some (Fail ''invalid_argument'' ''Invalid command ID''), sf)
     else (case mkdir of
       Some e \<Rightarrow> (Some e, sf)
     | None \<Rightarrow> (case werr of Some e \<Rightarrow> (Some e, sf) | None \<Rightarrow> (None, SRecord (rejectedStatus sha now context cause initErrs)))))"

section \<open>What a reader sees\<close>

text \<open>
  \<^verbatim>\<open>readStream\<close> on the output file as it is (a running command only appends to it); the calls that may fail are
  \<^verbatim>\<open>Lstat\<close>, \<^verbatim>\<open>Open\<close> with the \<^verbatim>\<open>Stat\<close> of the open file, and \<^verbatim>\<open>ReadAt\<close>.
\<close>

record readStream_io =
  rs_lstat :: "goerr option"
  rs_open :: "goerr option"
  rs_read :: "goerr option"

definition pendingChunk :: "int \<Rightarrow> StreamChunk" where
  "pendingChunk offset = \<lparr>ch_State = ''pending'', ch_Offset = offset, ch_Next = offset, ch_Size = 0, ch_Data = [], ch_SHA256 = [], ch_Error = None\<rparr>"

definition badChunk :: "goerr \<Rightarrow> StreamChunk \<Rightarrow> StreamChunk" where
  "badChunk err c = c\<lparr>ch_State := ''unavailable'', ch_Error := Some (Safe err)\<rparr>"

definition readStream :: "(string \<Rightarrow> string) \<Rightarrow> (string \<Rightarrow> string) \<Rightarrow> readStream_io \<Rightarrow> fsnode option \<Rightarrow> int \<Rightarrow> int \<Rightarrow> StreamChunk" where
  "readStream sha enc io node offset limit =
    (let c = pendingChunk offset in
     case rs_lstat io of
       Some e \<Rightarrow> badChunk e c
     | None \<Rightarrow>
       (case node of
          None \<Rightarrow> if offset > 0 then badChunk (Fail ''output_reset'' ''Previously observed output disappeared'') c else c
        | Some (FFile content) \<Rightarrow>
           (case rs_open io of
              Some e \<Rightarrow> badChunk e c
            | None \<Rightarrow>
              let c1 = c\<lparr>ch_Size := int (length content)\<rparr> in
              if offset > ch_Size c1 then badChunk (Fail ''output_reset'' ''Command output shrank below its confirmed offset'') c1
              else (case rs_read io of
                 Some e \<Rightarrow> badChunk e c1
               | None \<Rightarrow>
                 let data = take (nat (min limit (ch_Size c1 - offset))) (drop (nat offset) content) in
                 c1\<lparr>ch_State := ''available'', ch_Next := offset + int (length data), ch_Data := enc data, ch_SHA256 := sha data\<rparr>))
        | Some _ \<Rightarrow> badChunk (Fail ''invalid_path'' ''Command output is not an ordinary file'') c))"

definition missingOutput :: "CommandStatus \<Rightarrow> StreamChunk \<Rightarrow> StreamChunk" where
  "missingOutput st c =
    (if st_Final st \<and> ch_State c = ''pending''
     then c\<lparr>ch_State := ''unavailable'', ch_Error := Some (simpleError ''output_missing'' ''Final command output file is missing'')\<rparr>
     else c)"

text \<open>What looking up the recorded process gives.\<close>

datatype lookupResult = LookAbsent | LookFailed goerr | LookFound ProcessIdentity bool

definition supervisorGone :: "ProcessIdentity \<Rightarrow> lookupResult \<Rightarrow> bool" where
  "supervisorGone p l =
    (case l of LookAbsent \<Rightarrow> True | LookFailed _ \<Rightarrow> False | LookFound current alive \<Rightarrow> \<not> alive \<or> pi_Start current \<noteq> pi_Start p)"

text \<open>
  \<^verbatim>\<open>Read\<close>.  \<open>sf\<close> is the status file at the first read and \<open>sf1\<close> when \<^verbatim>\<open>Reconcile\<close> reads it, which may be later than
  the supervisor's last write; the second result is the file afterwards.
\<close>

record read_io =
  re_checked :: gotime
  re_lookup :: lookupResult
  re_now :: gotime
  re_mkdir :: "goerr option"
  re_write :: "goerr option"
  re_reread :: "goerr option"
  re_lost :: gotime
  re_stdout :: readStream_io
  re_stderr :: readStream_io

definition emptySnapshot :: "gotime \<Rightarrow> string \<Rightarrow> int \<Rightarrow> int \<Rightarrow> CommandSnapshot" where
  "emptySnapshot now ident outOff errOff = \<lparr>sn_Protocol = CommandProtocol, sn_CommandID = ident, sn_Checked = now, sn_Pending = False,
     sn_Status = None, sn_Stdout = pendingChunk outOff, sn_Stderr = pendingChunk errOff, sn_Error = None\<rparr>"

definition lostCause :: goerr where
  "lostCause = Fail ''supervisor_lost'' ''The recorded supervisor process no longer exists''"

text \<open>The record to show: the status, an error of the observation, and the file.\<close>

definition observedStatus :: "read_io \<Rightarrow> string \<Rightarrow> CommandStatus \<Rightarrow> statusFile \<Rightarrow> (CommandStatus \<times> werror option) res \<times> statusFile" where
  "observedStatus io ident status sf1 =
    (case (st_Final status, st_Supervisor status) of
       (False, Some p) \<Rightarrow>
         if supervisorGone p (re_lookup io) then
           (case Reconcile ident (re_now io) (Some lostCause) (re_mkdir io) (re_write io) sf1 of
              (Some e, sf2) \<Rightarrow> (Inr (lostSupervisor (re_lost io) (Some lostCause) status, phaseFailure ''terminal_write'' (Some e)), sf2)
            | (None, sf2) \<Rightarrow>
               (case (re_reread io, sf2) of
                  (None, SRecord st) \<Rightarrow> (Inr (st, None), sf2)
                | (Some e, _) \<Rightarrow> (Inl e, sf2)
                | (None, SBroken e) \<Rightarrow> (Inl e, sf2)
                | (None, SAbsent) \<Rightarrow> (Inl notExist, sf2)))
         else (Inr (status, case re_lookup io of LookFailed e \<Rightarrow> phaseFailure ''supervisor_identity'' (Some e) | _ \<Rightarrow> None), sf1)
     | _ \<Rightarrow> (Inr (status, None), sf1))"

definition Read ::
  "(string \<Rightarrow> string) \<Rightarrow> (string \<Rightarrow> string) \<Rightarrow> read_io \<Rightarrow> string \<Rightarrow> int \<Rightarrow> int \<Rightarrow> int \<Rightarrow> statusFile \<Rightarrow> statusFile \<Rightarrow> fsnode option \<Rightarrow> fsnode option \<Rightarrow>
     CommandSnapshot res \<times> statusFile" where
  "Read sha enc io ident outOff errOff limit sf sf1 out errout =
    (let v = emptySnapshot (re_checked io) ident outOff errOff in
     if \<not> IDPattern ident \<or> outOff < 0 \<or> errOff < 0 \<or> limit < 1 \<or> limit > CommandReadLimit
     then (Inl (Fail ''invalid_argument'' ''Invalid command read ID, byte offset or limit''), sf1)
     else (case sf of
        SAbsent \<Rightarrow> (Inr (v\<lparr>sn_Pending := True\<rparr>), sf1)
      | SBroken e \<Rightarrow> (Inl e, sf1)
      | SRecord status \<Rightarrow>
         (case observedStatus io ident status sf1 of
            (Inl e, sf2) \<Rightarrow> (Inl e, sf2)
          | (Inr (st, verr), sf2) \<Rightarrow>
             (Inr (v\<lparr>sn_Status := Some st, sn_Error := verr,
                sn_Stdout := missingOutput st (readStream sha enc (re_stdout io) out outOff limit),
                sn_Stderr := missingOutput st (readStream sha enc (re_stderr io) errout errOff limit)\<rparr>), sf2))))"

end
