(* ===== verification/Supervisor.thy ===== *)
theory Supervisor
  imports Guest
begin

text \<open>
  What the guest's supervisor promises: the output files hold a bounded prefix of what the process wrote, stdin is
  fed in order, and the published records are live until one last record that claims only what was observed.
\<close>

section \<open>Lemmas on the output\<close>

definition writerInv :: "string \<Rightarrow> limitWriter \<Rightarrow> bool" where
  "writerInv given w \<longleftrightarrow> lw_file w = take (nat CommandOutputLimit) given \<and> lw_n w = int (length (lw_file w)) \<and>
     lw_hashed w = lw_file w \<and> (lw_truncated w \<longleftrightarrow> int (length given) > CommandOutputLimit)"

lemma CommandOutputLimit_pos: "0 < CommandOutputLimit"
  by (simp add: CommandOutputLimit_def)

lemma writerInv_empty: "writerInv [] emptyWriter"
  by (simp add: writerInv_def emptyWriter_def CommandOutputLimit_def)

lemma writerInv_Write:
  assumes "writerInv given w" "limitWriter_Write outcome b w = (k, None, w')"
  shows "writerInv (given @ b) w'"
proof -
  define L where "L = nat CommandOutputLimit"
  have L: "CommandOutputLimit = int L" using CommandOutputLimit_pos by (simp add: L_def)
  show ?thesis
    using assms
    by (auto simp: writerInv_def limitWriter_Write_def L Let_def min_def max_def nat_diff_distrib' split: option.splits if_splits)
qed

lemma copyStream_inv:
  "writerInv given w \<Longrightarrow> copyStream ps readErr w = (None, w') \<Longrightarrow> writerInv (given @ concat (map snd ps)) w'"
proof (induction ps arbitrary: given w)
  case (Cons p ps)
  obtain outcome b where p: "p = (outcome, b)" by (cases p)
  obtain k w1 where w1: "limitWriter_Write outcome b w = (k, None, w1)" "copyStream ps readErr w1 = (None, w')"
    using Cons.prems(2) p by (auto split: prod.splits option.splits)
  from Cons.IH[OF writerInv_Write[OF Cons.prems(1) w1(1)] w1(2)] show ?case by (simp add: p)
qed simp

lemmas copyStream_exact = copyStream_inv[OF writerInv_empty, simplified]

lemma writer_prefix:
  assumes "lw_n w = int (length (lw_file w))" "lw_hashed w = lw_file w" "lw_n w \<le> CommandOutputLimit"
    and "limitWriter_Write outcome b w = (k, err, w')"
  shows "lw_n w' = int (length (lw_file w')) \<and> lw_hashed w' = lw_file w' \<and> lw_n w' \<le> CommandOutputLimit \<and> prefix (lw_file w) (lw_file w')"
  using assms by (auto simp: limitWriter_Write_def Let_def split: if_splits option.splits)

section \<open>Lemmas on the supervision\<close>

text \<open>The records published before the last one: the command is not finished and nothing is claimed of its end.\<close>

definition liveRecord :: "ProcessIdentity option \<Rightarrow> CommandStatus \<Rightarrow> bool" where
  "liveRecord who st \<longleftrightarrow> \<not> st_Final st \<and> (st_State st = ''starting'' \<or> st_State st = ''running'') \<and> st_WrittenInput st \<ge> 0 \<and>
     st_Supervisor st = who \<and> st_Error st = [] \<and> st_Output st = Some openOutputState"

definition liveSup :: "ProcessIdentity option \<Rightarrow> Sup \<Rightarrow> bool" where
  "liveSup who s \<longleftrightarrow> liveRecord who (sp_status s) \<and> list_all (liveRecord who) (sp_log s)"

lemma liveRecord_stamp [simp]: "liveRecord who (stamp now st) = liveRecord who st"
  by (simp add: liveRecord_def stamp_def)

lemma liveSup_persist: "liveSup who s \<Longrightarrow> persist io s = (err, s') \<Longrightarrow> liveSup who s'"
  by (auto simp: persist_def Let_def liveSup_def)

lemma liveSup_upd: "liveSup who s \<Longrightarrow> liveRecord who (f (sp_status s)) \<Longrightarrow> liveSup who (updStatus f s)"
  by (simp add: liveSup_def updStatus_def)

lemma progress_live: "liveSup who s \<Longrightarrow> liveSup who (updStatus (readProgress p) s)"
  by (simp add: updStatus_def liveSup_def liveRecord_def readProgress_def)

lemma liveSup_waitLoop:
  "liveSup who s \<Longrightarrow> waitLoop io es fin s = Some (w, s') \<Longrightarrow> liveSup who s'"
proof (induction io es fin s rule: waitLoop.induct)
  case (2 io e es fin s)
  show ?case
  proof (cases e)
    case (WUpdate k b)
    from liveSup_persist[OF progress_live[OF 2(4)], of io] show ?thesis
      using 2 WUpdate by (auto split: prod.splits option.splits)
  qed (use 2 in \<open>auto split: if_splits option.splits\<close>)
qed simp

lemma waitLoop_result:
  "waitLoop io es fin s = Some (w, s') \<Longrightarrow> wt_result w = Some r \<Longrightarrow> WExit r \<in> set es"
  by (induction io es fin s rule: waitLoop.induct)
     (auto simp: waitedFor_def split: waitEvent.splits option.splits if_splits prod.splits)

lemma persist_log: "persist io s = (err, s') \<Longrightarrow>
  sp_log s' = (if err = None then sp_log s @ [stamp (su_clock io (sp_k s) 2) (sp_status s)] else sp_log s) \<and>
  sp_status s' = stamp (su_clock io (sp_k s) 2) (sp_status s)"
  by (auto simp: persist_def Let_def)

text \<open>What the last record may claim.\<close>

definition truthful :: "(string \<Rightarrow> string) \<Rightarrow> supervise_io \<Rightarrow> CommandStatus \<Rightarrow> bool" where
  "truthful sha io st \<longleftrightarrow>
     (oneOf (st_State st) [''exited'', ''timed_out'', ''cancelled''] \<longrightarrow>
        su_kill io = None \<and>
        (\<exists>e err. confirmed e \<and> (WExit (e, err) \<in> set (su_events io) \<or> su_lateExit io = Some (e, err)) \<and>
           st_ExitCode st = px_code e \<and> st_ExitSignal st = px_signal e \<and> st_CoreDumped st = px_core e)) \<and>
     (\<forall>out. st_Output st = Some out \<longrightarrow> co_State out = ''complete'' \<longrightarrow>
        su_drain io = None \<and> su_sync io = None \<and>
        co_StdoutBytes out = lw_n (su_stdout io) \<and> co_StdoutSHA256 out = sha (lw_hashed (su_stdout io)) \<and>
        co_StdoutTruncated out = lw_truncated (su_stdout io) \<and>
        co_StderrBytes out = lw_n (su_stderr io) \<and> co_StderrSHA256 out = sha (lw_hashed (su_stderr io)) \<and>
        co_StderrTruncated out = lw_truncated (su_stderr io))"

definition finalRecord :: "ProcessIdentity option \<Rightarrow> CommandStatus \<Rightarrow> bool" where
  "finalRecord who st \<longleftrightarrow> st_Final st \<and> oneOf (st_State st) [''exited'', ''cancelled'', ''timed_out'', ''uncertain'', ''failed''] \<and>
     st_WrittenInput st \<ge> 0 \<and> st_Supervisor st = who"

lemma stamp_kept [simp]:
  "st_Termination (stamp now st) = st_Termination st" "st_ExitCode (stamp now st) = st_ExitCode st"
  "st_ExitSignal (stamp now st) = st_ExitSignal st" "st_CoreDumped (stamp now st) = st_CoreDumped st"
  by (simp_all add: stamp_def)

lemma finalRecord_stamp [simp]: "finalRecord who (stamp now st) = finalRecord who st"
  by (simp add: finalRecord_def stamp_def)

lemma truthful_stamp [simp]: "truthful sha io (stamp now st) = truthful sha io st"
  by (simp add: truthful_def stamp_def)

lemma joinErr_None [simp]: "joinErr a b = None \<longleftrightarrow> a = None \<and> b = None"
  by (auto simp: joinErr_def split: option.splits)

lemma failedStart_final:
  assumes "liveRecord who st"
  shows "finalRecord who (failedStart req now err st) \<and> truthful sha io (failedStart req now err st)"
  using assms by (simp add: failedStart_def finalRecord_def liveRecord_def truthful_def Let_def openOutputState_def)

text \<open>From here on a run has a published log of live records, possibly with one final record at its end.\<close>

definition goodLog :: "(string \<Rightarrow> string) \<Rightarrow> supervise_io \<Rightarrow> CommandStatus list \<Rightarrow> bool" where
  "goodLog sha io recs \<longleftrightarrow>
     (\<exists>who. list_all (liveRecord who) recs \<or>
       (recs \<noteq> [] \<and> list_all (liveRecord who) (butlast recs) \<and> finalRecord who (last recs) \<and> truthful sha io (last recs)))"

lemma goodLog_live: "liveSup who s \<Longrightarrow> goodLog sha io (sp_log s)"
  by (auto simp: goodLog_def liveSup_def)

lemma goodLog_final:
  assumes "list_all (liveRecord who) (sp_log s)" "finalRecord who (sp_status s)" "truthful sha io (sp_status s)"
    and "persist io s = (err, s')"
  shows "goodLog sha io (sp_log s')"
  using assms persist_log[OF assms(4)] by (auto simp: goodLog_def)

lemma failStart_goodLog:
  assumes "liveSup who s" "failStart io e s = (err, s')"
  shows "goodLog sha io (sp_log s')"
proof -
  let ?f = "failedStart (su_clock io (sp_k s) 0) (su_clock io (sp_k s) 1) e"
  obtain perr where p: "persist io (updStatus ?f s) = (perr, s')"
    using assms(2) by (auto simp: failStart_def split: prod.splits)
  have "finalRecord who (?f (sp_status s))" "truthful sha io (?f (sp_status s))"
    using failedStart_final[of who "sp_status s"] assms(1) by (auto simp: liveSup_def)
  then show ?thesis
    using goodLog_final[OF _ _ _ p, of who] assms(1) by (simp add: updStatus_def liveSup_def)
qed

text \<open>The end of a run, record by record.\<close>

lemma stopping_live: "liveRecord who st \<Longrightarrow> liveRecord who (stoppingStatus now reason st)"
  by (simp add: liveRecord_def stoppingStatus_def)

lemma updTermination_kept [simp]:
  "st_Final (updTermination f st) = st_Final st" "st_State (updTermination f st) = st_State st"
  "st_WrittenInput (updTermination f st) = st_WrittenInput st" "st_Supervisor (updTermination f st) = st_Supervisor st"
  "st_Error (updTermination f st) = st_Error st" "st_ExitCode (updTermination f st) = st_ExitCode st"
  "st_ExitSignal (updTermination f st) = st_ExitSignal st" "st_CoreDumped (updTermination f st) = st_CoreDumped st"
  "st_Output (updTermination f st) = st_Output st" "st_Termination (updTermination f st) = map_option f (st_Termination st)"
  by (simp_all add: updTermination_def)

lemma liveRecord_updTermination [simp]: "liveRecord who (updTermination f st) = liveRecord who st"
  by (simp add: liveRecord_def)

lemma exit_live: "liveRecord who st \<Longrightarrow> liveRecord who (exitStatus result st)"
  by (auto simp: exitStatus_def liveRecord_def split: option.splits)

definition draining :: "supervise_io \<Rightarrow> exitResult option \<Rightarrow> CommandStatus \<Rightarrow> CommandStatus" where
  "draining io result st = (exitStatus result (killedStatus io st))\<lparr>st_Stage := ''draining''\<rparr>"

lemma draining_live: "liveRecord who st \<Longrightarrow> liveRecord who (draining io result st)"
  using exit_live[of who "killedStatus io st" result] by (simp add: draining_def liveRecord_def killedStatus_def)

lemma draining_confirmed:
  assumes "st_Termination st = Some t" "\<not> tm_ProcessExited t" "\<not> tm_GroupStopped t"
  shows "\<exists>t'. st_Termination (draining io result st) = Some t' \<and>
     (tm_GroupStopped t' \<longleftrightarrow> su_kill io = None) \<and>
     (tm_ProcessExited t' \<longrightarrow> (\<exists>e err. result = Some (e, err) \<and> confirmed e \<and>
        st_ExitCode (draining io result st) = px_code e \<and> st_ExitSignal (draining io result st) = px_signal e \<and>
        st_CoreDumped (draining io result st) = px_core e))"
  using assms by (auto simp: draining_def exitStatus_def killedStatus_def split: option.splits)

lemma drainedOutput_complete:
  "co_State (drainedOutput sha io derr) = ''complete'' \<longleftrightarrow> derr = None"
  by (auto simp: drainedOutput_def Let_def)

lemma outcomeState_kept [simp]:
  "st_WrittenInput (outcomeState r st) = st_WrittenInput st" "st_Supervisor (outcomeState r st) = st_Supervisor st"
  "st_Output (outcomeState r st) = st_Output st" "st_ExitCode (outcomeState r st) = st_ExitCode st"
  "st_ExitSignal (outcomeState r st) = st_ExitSignal st" "st_CoreDumped (outcomeState r st) = st_CoreDumped st"
  by (simp_all add: outcomeState_def)

lemma outcomeState_cases: "oneOf (st_State (outcomeState r st)) [''exited'', ''cancelled'', ''timed_out'', ''uncertain'', ''failed'']"
  by (simp add: outcomeState_def)

lemma outcomeState_confirmed:
  "oneOf (st_State (outcomeState r st)) [''exited'', ''timed_out'', ''cancelled''] \<Longrightarrow>
     \<exists>t. st_Termination st = Some t \<and> tm_ProcessExited t \<and> tm_GroupStopped t"
  by (cases "st_Termination st") (auto simp: outcomeState_def split: if_splits)

lemma readProgress_kept [simp]:
  "st_Supervisor (readProgress p st) = st_Supervisor st" "st_Termination (readProgress p st) = st_Termination st"
  "st_ExitCode (readProgress p st) = st_ExitCode st" "st_ExitSignal (readProgress p st) = st_ExitSignal st"
  "st_CoreDumped (readProgress p st) = st_CoreDumped st" "st_WrittenInput (readProgress p st) = int (fst p)"
  by (simp_all add: readProgress_def)

lemma finished_final:
  "liveRecord who st \<Longrightarrow> finalRecord who (finishedStatus sha io now w derr st)"
  using outcomeState_cases[of "wt_reason w" "(readProgress (su_progress io) st)\<lparr>st_Output := Some (drainedOutput sha io derr)\<rparr>"]
  by (simp del: oneOf.simps add: finishedStatus_def Let_def finalRecord_def liveRecord_def)

lemma finished_truthful:
  assumes "st_Termination st = Some t" "tm_GroupStopped t \<longleftrightarrow> su_kill io = None"
    and "tm_ProcessExited t \<longrightarrow> (\<exists>e err. result = Some (e, err) \<and> confirmed e \<and>
        st_ExitCode st = px_code e \<and> st_ExitSignal st = px_signal e \<and> st_CoreDumped st = px_core e)"
    and "\<And>r. result = Some r \<Longrightarrow> WExit r \<in> set (su_events io) \<or> su_lateExit io = Some r"
    and "derr = drainError io fin"
  shows "truthful sha io (finishedStatus sha io now w derr st)"
proof -
  let ?out = "(readProgress (su_progress io) st)\<lparr>st_Output := Some (drainedOutput sha io derr)\<rparr>"
  have ended: "oneOf (st_State (outcomeState (wt_reason w) ?out)) [''exited'', ''timed_out'', ''cancelled''] \<Longrightarrow>
      su_kill io = None \<and> (\<exists>e err. confirmed e \<and> (WExit (e, err) \<in> set (su_events io) \<or> su_lateExit io = Some (e, err)) \<and>
        st_ExitCode st = px_code e \<and> st_ExitSignal st = px_signal e \<and> st_CoreDumped st = px_core e)"
    using outcomeState_confirmed[of "wt_reason w" ?out] assms(1-4) by fastforce
  have outputs: "co_State (drainedOutput sha io derr) = ''complete'' \<Longrightarrow> su_drain io = None \<and> su_sync io = None \<and> derr = None"
    using assms(5) by (auto simp: drainedOutput_complete drainError_def split: if_splits)
  let ?fin = "finishedStatus sha io now w derr st"
  have kept: "st_State ?fin = st_State (outcomeState (wt_reason w) ?out)" "st_Output ?fin = Some (drainedOutput sha io derr)"
    "st_ExitCode ?fin = st_ExitCode st" "st_ExitSignal ?fin = st_ExitSignal st" "st_CoreDumped ?fin = st_CoreDumped st"
    by (simp_all add: finishedStatus_def Let_def)
  have "\<forall>out. st_Output ?fin = Some out \<longrightarrow> co_State out = ''complete'' \<longrightarrow>
        su_drain io = None \<and> su_sync io = None \<and>
        co_StdoutBytes out = lw_n (su_stdout io) \<and> co_StdoutSHA256 out = sha (lw_hashed (su_stdout io)) \<and>
        co_StdoutTruncated out = lw_truncated (su_stdout io) \<and>
        co_StderrBytes out = lw_n (su_stderr io) \<and> co_StderrSHA256 out = sha (lw_hashed (su_stderr io)) \<and>
        co_StderrTruncated out = lw_truncated (su_stderr io)"
  proof (intro allI impI)
    fix out assume "st_Output ?fin = Some out" and c: "co_State out = ''complete''"
    then have out: "out = drainedOutput sha io derr" by (simp only: kept option.inject)
    with c outputs have "derr = None" "su_drain io = None" "su_sync io = None" by simp_all
    then show "su_drain io = None \<and> su_sync io = None \<and>
        co_StdoutBytes out = lw_n (su_stdout io) \<and> co_StdoutSHA256 out = sha (lw_hashed (su_stdout io)) \<and>
        co_StdoutTruncated out = lw_truncated (su_stdout io) \<and>
        co_StderrBytes out = lw_n (su_stderr io) \<and> co_StderrSHA256 out = sha (lw_hashed (su_stderr io)) \<and>
        co_StderrTruncated out = lw_truncated (su_stderr io)"
      unfolding out by (simp add: drainedOutput_def Let_def)
  qed
  with ended show ?thesis unfolding truthful_def kept by blast
qed

lemma settle_goodLog:
  assumes live: "liveSup who s" and exits: "\<And>r. wt_result w = Some r \<Longrightarrow> WExit r \<in> set (su_events io)"
    and run: "settle sha io w s = (err, s')"
  shows "goodLog sha io (sp_log s')"
proof -
  let ?result = "case wt_result w of Some r \<Rightarrow> Some r | None \<Rightarrow> su_lateExit io"
  let ?stop = "stoppingStatus (su_clock io (sp_k s) 0) (wt_reason w)"
  obtain e1 s1 where s1: "persist io (updStatus ?stop s) = (e1, s1)" by fastforce
  obtain e2 s2 where s2: "persist io (updStatus (draining io ?result) s1) = (e2, s2)" by fastforce
  let ?fin = "finishedStatus sha io (su_clock io (sp_k s2) 0) w (drainError io (wt_inputFinished w))"
  obtain e3 where s3: "persist io (updStatus ?fin s2) = (e3, s')"
    using run s1 s2 by (auto simp: settle_def Let_def draining_def[abs_def] split: prod.splits)
  have l1: "liveSup who s1"
    using liveSup_persist[OF liveSup_upd s1] live stopping_live by (auto simp: liveSup_def)
  have l2: "liveSup who s2"
    using liveSup_persist[OF liveSup_upd s2] l1 draining_live by (auto simp: liveSup_def)
  have t1: "\<exists>t. st_Termination (sp_status s1) = Some t \<and> \<not> tm_ProcessExited t \<and> \<not> tm_GroupStopped t"
    using persist_log[OF s1] by (simp add: updStatus_def stamp_def stoppingStatus_def newTermination_def)
  have d: "sp_status s2 = stamp (su_clock io (sp_k s1) 2) (draining io ?result (sp_status s1))"
    using persist_log[OF s2] by (simp add: updStatus_def)
  obtain t0 where t0: "st_Termination (sp_status s1) = Some t0" "\<not> tm_ProcessExited t0" "\<not> tm_GroupStopped t0" using t1 by blast
  obtain t where t: "st_Termination (draining io ?result (sp_status s1)) = Some t" "tm_GroupStopped t \<longleftrightarrow> su_kill io = None"
    "tm_ProcessExited t \<longrightarrow> (\<exists>e err. ?result = Some (e, err) \<and> confirmed e \<and> st_ExitCode (draining io ?result (sp_status s1)) = px_code e \<and>
       st_ExitSignal (draining io ?result (sp_status s1)) = px_signal e \<and> st_CoreDumped (draining io ?result (sp_status s1)) = px_core e)"
    using draining_confirmed[OF t0, of io ?result] by (elim exE conjE) (rule that)
  have src: "\<And>r. ?result = Some r \<Longrightarrow> WExit r \<in> set (su_events io) \<or> su_lateExit io = Some r"
    using exits by (cases "wt_result w") simp_all
  have "finalRecord who (?fin (sp_status s2))" using finished_final l2 by (simp add: liveSup_def)
  moreover have "truthful sha io (?fin (sp_status s2))"
  proof (rule finished_truthful[OF _ t(2) _ src])
    show "st_Termination (sp_status s2) = Some t" unfolding d stamp_kept by (rule t(1))
    show "tm_ProcessExited t \<longrightarrow> (\<exists>e err. ?result = Some (e, err) \<and> confirmed e \<and> st_ExitCode (sp_status s2) = px_code e \<and>
       st_ExitSignal (sp_status s2) = px_signal e \<and> st_CoreDumped (sp_status s2) = px_core e)" unfolding d stamp_kept by (rule t(3))
  qed (assumption | rule refl)+
  ultimately show ?thesis
    using goodLog_final[OF _ _ _ s3, of who] l2 by (simp add: updStatus_def liveSup_def)
qed

lemma starting_live:
  "liveSup (case su_identity io of Inr i \<Rightarrow> Some i | Inl _ \<Rightarrow> None) \<lparr>sp_status = startingStatus io spec, sp_log = [], sp_k = 0\<rparr>"
  by (simp add: liveSup_def liveRecord_def startingStatus_def zeroStatus_def)

lemma execution_live: "liveSup who s \<Longrightarrow> liveSup who (updStatus (\<lambda>st. st\<lparr>st_Execution := Some env\<rparr>) s)"
  by (simp add: liveSup_def updStatus_def liveRecord_def)

lemma running_live: "liveSup who s \<Longrightarrow> liveSup who (updStatus (runningStatus now) s)"
  by (simp add: liveSup_def updStatus_def liveRecord_def runningStatus_def)

lemma launched_goodLog:
  assumes "liveSup who s" "launched sha io s = Some (err, s')"
  shows "goodLog sha io (sp_log s')"
proof -
  obtain e2 s2 where s2: "persist io (updStatus (runningStatus (su_clock io (sp_k s) 0)) s) = (e2, s2)" by fastforce
  have l2: "liveSup who s2" by (rule liveSup_persist[OF running_live[OF assms(1)] s2])
  show ?thesis
  proof (cases e2)
    case (Some e)
    then have "settle sha io (waitedFor ''status_write_failed'' (Some e) None False) s2 = (err, s')"
      using assms(2) s2 by (simp add: launched_def)
    from settle_goodLog[OF l2 _ this] show ?thesis by (simp add: waitedFor_def)
  next
    case None
    then obtain w s3 where w: "waitLoop io (su_events io) False s2 = Some (w, s3)" "settle sha io w s3 = (err, s')"
      using assms(2) s2 by (auto simp: launched_def)
    show ?thesis by (rule settle_goodLog[OF liveSup_waitLoop[OF l2 w(1)] waitLoop_result[OF w(1)] w(2)])
  qed
qed

lemma superviseDir_goodLog:
  assumes "superviseDir sha io spec = Some (err, s')"
  shows "goodLog sha io (sp_log s')"
proof -
  let ?who = "case su_identity io of Inr i \<Rightarrow> Some i | Inl _ \<Rightarrow> None"
  let ?s0 = "\<lparr>sp_status = startingStatus io spec, sp_log = [], sp_k = 0\<rparr>"
  obtain e1 s1 where s1: "persist io ?s0 = (e1, s1)" by fastforce
  have l1: "liveSup ?who s1" by (rule liveSup_persist[OF starting_live s1])
  note f1 = failStart_goodLog[OF l1]
  show ?thesis
  proof (cases e1)
    case (Some e) then show ?thesis using assms s1 goodLog_live[OF l1] by (simp add: superviseDir_def)
  next
    case None
    show ?thesis
    proof (cases "su_identity io")
      case (Inl e) then show ?thesis using assms s1 None f1 by (simp add: superviseDir_def)
    next
      case (Inr i)
      show ?thesis
      proof (cases "su_environment io")
        case (Inl e) then show ?thesis using assms s1 None Inr f1 by (simp add: superviseDir_def)
      next
        case env: (Inr env)
        obtain e2 s2 where s2: "persist io (updStatus (\<lambda>st. st\<lparr>st_Execution := Some env\<rparr>) s1) = (e2, s2)" by fastforce
        have l2: "liveSup ?who s2" by (rule liveSup_persist[OF execution_live[OF l1] s2])
        have run: "(case e2 of Some e \<Rightarrow> Some (Some e, s2) | None \<Rightarrow> started sha io s2) = Some (err, s')"
          using assms s1 None Inr env s2 by (simp add: superviseDir_def split: option.splits)
        show ?thesis
        proof (cases e2)
          case (Some e) then show ?thesis using run goodLog_live[OF l2] by simp
        next
          case None
          then have "started sha io s2 = Some (err, s')" using run by simp
          then show ?thesis
            using failStart_goodLog[OF l2] launched_goodLog[OF l2]
            by (auto simp: started_def split: option.splits launchResult.splits)
        qed
      qed
    qed
  qed
qed

section \<open>Lemmas on standard input\<close>

text \<open>The bytes of the first \<open>m\<close> packets of a queue.\<close>

definition packetData :: "(int \<Rightarrow> Input option) \<Rightarrow> nat \<Rightarrow> string" where
  "packetData d k = (case d (int k) of Some p \<Rightarrow> in_Data p | None \<Rightarrow> [])"

definition delivered :: "(int \<Rightarrow> Input option) \<Rightarrow> nat \<Rightarrow> string" where
  "delivered d m = concat (map (packetData d) [0..<m])"

lemma delivered_Suc [simp]: "delivered d (Suc m) = delivered d m @ packetData d m"
  by (simp add: delivered_def)

lemma delivered_0 [simp]: "delivered d 0 = []"
  by (simp add: delivered_def)

definition honestTick :: "(int \<Rightarrow> Input option) \<Rightarrow> feedTick_io \<Rightarrow> bool" where
  "honestTick d io \<longleftrightarrow> (\<forall>k p. ft_packet io k = Some (Inr p) \<longrightarrow> d k = Some p)"

definition feeding :: "(int \<Rightarrow> Input option) \<Rightarrow> nat \<Rightarrow> FeedState \<Rightarrow> bool" where
  "feeding d m s \<longleftrightarrow> fd_next s = int m \<and> (\<forall>k<m. d (int k) \<noteq> None) \<and> fd_stdin s = delivered d m \<and>
     fd_bytes s = int (length (delivered d m)) \<and> int m \<le> InputPacketCount \<and> fd_bytes s \<le> CommandInputLimit"

definition fed :: "(int \<Rightarrow> Input option) \<Rightarrow> nat \<Rightarrow> FeedState \<Rightarrow> bool" where
  "fed d m s \<longleftrightarrow> fd_next s = int m \<and> (\<forall>k<m. d (int k) \<noteq> None) \<and> prefix (delivered d m) (fd_stdin s) \<and>
     prefix (fd_stdin s) (delivered d (Suc m)) \<and> int m \<le> InputPacketCount \<and> int (length (fd_stdin s)) \<le> CommandInputLimit \<and>
     (fd_closed s \<longrightarrow> fd_stdin s = delivered d m)"

lemma feeding_fed: "feeding d m s \<Longrightarrow> fed d m s"
  by (auto simp: feeding_def fed_def)

lemma feedTick_continue:
  assumes "feeding d m s" "honestTick d io" "feedTick io s = FContinue s'" "\<not> fd_closed s"
  shows "(feeding d m s' \<or> feeding d (Suc m) s') \<and> \<not> fd_closed s'"
  using assms
  by (auto simp: feedTick_def feeding_def honestTick_def packetData_def Let_def less_Suc_eq InputPacketCount_def
           split: option.splits sum.splits if_splits)

lemma feedTick_done:
  assumes "feeding d m s" "honestTick d io" "feedTick io s = FDone e s'" "\<not> fd_closed s"
  shows "(fed d m s' \<or> fed d (Suc m) s') \<and> (e = None \<longrightarrow> fd_closed s' \<or> ft_cancelled io)"
proof -
  have m: "fd_next s = int m" "\<forall>k<m. d (int k) \<noteq> None" "fd_stdin s = delivered d m" "fd_bytes s = int (length (delivered d m))"
    "int m \<le> InputPacketCount" "fd_bytes s \<le> CommandInputLimit" using assms(1) by (auto simp: feeding_def)
  show ?thesis
  proof (cases "ft_packet io (int m)")
    case None then show ?thesis using assms(3) m(1) by (simp add: feedTick_def)
  next
    case (Some r)
    show ?thesis
    proof (cases r)
      case (Inl x)
      then show ?thesis using assms(1,3) m(1) Some feeding_fed[OF assms(1)] by (auto simp: feedTick_def)
    next
      case (Inr p)
      have d: "d (int m) = Some p" using assms(2) Some Inr by (simp add: honestTick_def)
      have pm: "packetData d m = in_Data p" by (simp add: packetData_def d)
      show ?thesis
        using assms(3,4) m Some Inr d pm prefix_order.refl
        by (auto simp: feedTick_def fed_def Let_def less_Suc_eq take_is_prefix split: option.splits if_splits
            intro: order_trans[OF add_left_mono[of "int (length (take _ _))"]])
    qed
  qed
qed

lemma feedInput_fed:
  "feeding d m s \<Longrightarrow> \<not> fd_closed s \<Longrightarrow> list_all (honestTick d) ios \<Longrightarrow> feedInput ios s = (err, s') \<Longrightarrow> \<exists>m'. fed d m' s'"
proof (induction ios arbitrary: s m)
  case Nil then show ?case using feeding_fed by auto
next
  case (Cons io ios)
  show ?case
  proof (cases "feedTick io s")
    case (FContinue s1)
    from feedTick_continue[OF Cons.prems(1) _ this] Cons.prems Cons.IH show ?thesis by (auto simp: FContinue)
  next
    case (FDone e s1)
    from feedTick_done[OF Cons.prems(1) _ this] Cons.prems show ?thesis by (auto simp: FDone)
  qed
qed

lemma feedStart_feeding: "feeding d 0 feedStart" "\<not> fd_closed feedStart"
  by (simp_all add: feeding_def feedStart_def InputPacketCount_def CommandInputLimit_def)

text \<open>
  Standard input reaches the process in order: whatever the ticks find, as long as a packet found is the one the
  queue holds under its number, the bytes given to the process are those of the packets 0, 1, 2, ... without a gap or a
  repetition, at most the next packet is partly written, the byte and packet limits hold, and once the input is closed
  every packet up to the last is there entirely.
\<close>
lemma stdin_in_order:
  assumes "list_all (honestTick d) ios" "feedInput ios feedStart = (err, s)"
  shows "\<exists>m. fd_next s = int m \<and> (\<forall>k<m. d (int k) \<noteq> None) \<and> prefix (delivered d m) (fd_stdin s) \<and>
     prefix (fd_stdin s) (delivered d (Suc m)) \<and> int m \<le> InputPacketCount \<and> int (length (fd_stdin s)) \<le> CommandInputLimit \<and>
     (fd_closed s \<longrightarrow> fd_stdin s = delivered d m)"
  using feedInput_fed[OF feedStart_feeding assms] by (simp add: fed_def)

definition samplePacket :: "int \<Rightarrow> Input option" where
  "samplePacket k = (if k = 0 then Some \<lparr>in_Sequence = 0, in_Data = ''ab'', in_EOF = False\<rparr>
     else if k = 1 then Some \<lparr>in_Sequence = 1, in_Data = ''c'', in_EOF = True\<rparr> else None)"

definition sampleTick :: feedTick_io where
  "sampleTick = \<lparr>ft_packet = (\<lambda>k. map_option Inr (samplePacket k)), ft_write = None, ft_cancelled = False\<rparr>"

section \<open>What the records claim\<close>

lemma supervise_goodLog:
  assumes "supervise sha io request mkdir = Some (err, s)"
  shows "goodLog sha io (sp_log s)"
proof -
  have nil: "goodLog sha io []" by (simp add: goodLog_def)
  show ?thesis
    using assms nil superviseDir_goodLog[of sha io]
    by (auto simp: supervise_def Let_def split: sum.splits option.splits)
qed

lemma goodLog_member:
  assumes "goodLog sha io recs" "st \<in> set recs"
  shows "(\<exists>who. liveRecord who st) \<or> (st = last recs \<and> (\<exists>who. finalRecord who st) \<and> truthful sha io st)"
proof -
  from assms(1) consider (live) who where "list_all (liveRecord who) recs"
    | (final) who where "recs \<noteq> []" "list_all (liveRecord who) (butlast recs)" "finalRecord who (last recs)" "truthful sha io (last recs)"
    by (auto simp: goodLog_def)
  then show ?thesis
  proof cases
    case live then show ?thesis using assms(2) by (auto simp: list_all_iff)
  next
    case final
    have "st \<in> set (butlast recs) \<or> st = last recs" using assms(2) append_butlast_last_id[OF final(1)] rotate1.simps(2) set_append
      by (metis Un_iff empty_iff list.set(1) set_ConsD)
    then show ?thesis using final by (auto simp: list_all_iff)
  qed
qed

text \<open>
  C5. A record that says how a command ended is true: any record of a run that names the state exited, timed_out or
  cancelled is the final one, the process group was confirmed stopped, and the process was seen to exit with just the
  code, signal and core flag the record carries.
\<close>
theorem ended_record_truthful:
  assumes "supervise sha io request mkdir = Some (err, s)" "st \<in> set (sp_log s)"
    and "oneOf (st_State st) [''exited'', ''timed_out'', ''cancelled'']"
  shows "st_Final st \<and> st = last (sp_log s) \<and> su_kill io = None \<and>
    (\<exists>e werr. confirmed e \<and> (WExit (e, werr) \<in> set (su_events io) \<or> su_lateExit io = Some (e, werr)) \<and>
       st_ExitCode st = px_code e \<and> st_ExitSignal st = px_signal e \<and> st_CoreDumped st = px_core e)"
proof -
  have "\<not> liveRecord who st" for who using assms(3) by (auto simp: liveRecord_def)
  with goodLog_member[OF supervise_goodLog[OF assms(1)] assms(2)]
  obtain who where f: "st = last (sp_log s)" "finalRecord who st" "truthful sha io st" by blast
  have t: "su_kill io = None \<and> (\<exists>e werr. confirmed e \<and> (WExit (e, werr) \<in> set (su_events io) \<or> su_lateExit io = Some (e, werr)) \<and>
       st_ExitCode st = px_code e \<and> st_ExitSignal st = px_signal e \<and> st_CoreDumped st = px_core e)"
    using f(3) assms(3) unfolding truthful_def by blast
  have "st_Final st" using f(2) by (simp only: finalRecord_def)
  then show ?thesis using f(1) t by blast
qed

lemma record_describes_output:
  assumes run: "supervise sha io request mkdir = Some (err, s)" "st \<in> set (sp_log s)"
    and out: "st_Output st = Some out" "co_State out = ''complete''"
    and copies: "copyStream outs outErr emptyWriter = (e1, su_stdout io)" "copyStream errs errErr emptyWriter = (e2, su_stderr io)"
    and drained: "su_drain io = None \<Longrightarrow> e1 = None \<and> e2 = None"
  shows "writerInv (concat (map snd outs)) (su_stdout io) \<and> writerInv (concat (map snd errs)) (su_stderr io) \<and>
     co_StdoutBytes out = lw_n (su_stdout io) \<and> co_StdoutSHA256 out = sha (lw_hashed (su_stdout io)) \<and>
     co_StdoutTruncated out = lw_truncated (su_stdout io) \<and> co_StderrBytes out = lw_n (su_stderr io) \<and>
     co_StderrSHA256 out = sha (lw_hashed (su_stderr io)) \<and> co_StderrTruncated out = lw_truncated (su_stderr io)"
proof -
  have "\<not> liveRecord who st" for who using out by (auto simp: liveRecord_def openOutputState_def)
  with goodLog_member[OF supervise_goodLog[OF run(1)] run(2)] have t: "truthful sha io st" by blast
  then have "su_drain io = None" using out unfolding truthful_def by blast
  then have "writerInv (concat (map snd outs)) (su_stdout io)" "writerInv (concat (map snd errs)) (su_stderr io)"
    using drained copies copyStream_exact by simp_all
  then show ?thesis using t out unfolding truthful_def by blast
qed

text \<open>
  When a record calls the output complete, its sizes, truncation flags and digests are those of the first 64 MiB of
  what the process wrote to each stream.
\<close>
lemma complete_record_describes_output:
  assumes "supervise sha io request mkdir = Some (err, s)" "st \<in> set (sp_log s)"
    and "st_Output st = Some out" "co_State out = ''complete''"
    and "copyStream outs outErr emptyWriter = (e1, su_stdout io)" "copyStream errs errErr emptyWriter = (e2, su_stderr io)"
    and "su_drain io = None \<Longrightarrow> e1 = None \<and> e2 = None"
  shows "let o1 = concat (map snd outs); o2 = concat (map snd errs); lim = nat CommandOutputLimit in
     co_StdoutBytes out = int (min (length o1) lim) \<and> co_StdoutSHA256 out = sha (take lim o1) \<and> co_StdoutTruncated out = (length o1 > lim) \<and>
     co_StderrBytes out = int (min (length o2) lim) \<and> co_StderrSHA256 out = sha (take lim o2) \<and> co_StderrTruncated out = (length o2 > lim)"
proof -
  have "lim < int n \<longleftrightarrow> nat lim < n" if "0 \<le> lim" for lim n using that by auto
  then show ?thesis
    using record_describes_output[OF assms] CommandOutputLimit_pos by (simp add: Let_def writerInv_def min.commute)
qed

section \<open>What the controller accepts\<close>

text \<open>
  The contents of the status file over time: the published records and, when the supervisor is gone before its last
  record, the replacement written by \<^verbatim>\<open>Reconcile\<close>.
\<close>

definition statusHistory :: "CommandStatus list \<Rightarrow> (gotime \<times> goerr option) option \<Rightarrow> CommandStatus list" where
  "statusHistory recs lost =
    (case lost of
       Some (now, cause) \<Rightarrow> if recs \<noteq> [] \<and> \<not> st_Final (last recs) then recs @ [lostSupervisor now cause (last recs)] else recs
     | None \<Rightarrow> recs)"

definition acceptable :: "ProcessIdentity option \<Rightarrow> CommandStatus \<Rightarrow> bool" where
  "acceptable who st \<longleftrightarrow> st_WrittenInput st \<ge> 0 \<and> st_Supervisor st = who \<and>
     (if st_Final st then oneOf (st_State st) [''exited'', ''cancelled'', ''timed_out'', ''uncertain'', ''failed'']
      else st_State st = ''starting'' \<or> st_State st = ''running'')"

definition finalLast :: "ProcessIdentity option \<Rightarrow> CommandStatus list \<Rightarrow> bool" where
  "finalLast who recs \<longleftrightarrow> list_all (acceptable who) recs \<and> list_all (\<lambda>st. \<not> st_Final st) (butlast recs)"

lemma live_acceptable: "liveRecord who st \<Longrightarrow> acceptable who st \<and> \<not> st_Final st"
  by (simp add: liveRecord_def acceptable_def)

lemma final_acceptable: "finalRecord who st \<Longrightarrow> acceptable who st"
  by (simp del: oneOf.simps add: finalRecord_def acceptable_def)

lemma lost_acceptable: "acceptable who st \<Longrightarrow> acceptable who (lostSupervisor now cause st) \<and> st_Final (lostSupervisor now cause st)"
  by (simp add: acceptable_def lostSupervisor_def Let_def)

lemma list_all_last: "recs \<noteq> [] \<Longrightarrow> list_all P recs \<longleftrightarrow> list_all P (butlast recs) \<and> P (last recs)"
  by (induction recs rule: rev_induct) auto

lemma goodLog_finalLast:
  assumes "goodLog sha io recs"
  obtains who where "finalLast who recs"
proof -
  from assms consider (live) who where "list_all (liveRecord who) recs"
    | (final) who where "recs \<noteq> []" "list_all (liveRecord who) (butlast recs)" "finalRecord who (last recs)"
    by (auto simp: goodLog_def)
  then have "\<exists>who. finalLast who recs"
  proof cases
    case live then show ?thesis using live_acceptable by (auto simp: finalLast_def list_all_iff dest: in_set_butlastD)
  next
    case final
    then have "finalLast who recs"
      using live_acceptable final_acceptable list_all_last[OF final(1), of "acceptable who"] by (auto simp: finalLast_def list_all_iff)
    then show ?thesis by blast
  qed
  then show ?thesis using that by blast
qed

lemma finalLast_history:
  assumes "finalLast who recs"
  shows "finalLast who (statusHistory recs lost)"
proof (cases "\<exists>now cause. lost = Some (now, cause) \<and> recs \<noteq> [] \<and> \<not> st_Final (last recs)")
  case True
  then obtain now cause where l: "lost = Some (now, cause)" "recs \<noteq> []" "\<not> st_Final (last recs)" by blast
  have "list_all (\<lambda>st. \<not> st_Final st) recs" "acceptable who (last recs)"
    using assms l list_all_last[OF l(2)] by (auto simp: finalLast_def)
  then show ?thesis using assms l lost_acceptable by (simp add: statusHistory_def finalLast_def)
next
  case False
  then have "statusHistory recs lost = recs" by (auto simp: statusHistory_def split: option.splits)
  then show ?thesis using assms by simp
qed

lemma finalLast_later:
  assumes "finalLast who recs" "i \<le> j" "j < length recs" "st_Final (recs ! i)"
  shows "i = j"
proof (rule ccontr)
  assume "i \<noteq> j"
  then have "i < length (butlast recs)" using assms(2,3) by simp
  then have "\<not> st_Final (butlast recs ! i)" using assms(1) by (simp add: finalLast_def list_all_length)
  with \<open>i < length (butlast recs)\<close> assms(4) show False by (simp add: nth_butlast)
qed

lemma acceptable_valid:
  assumes "acceptable who st" "sn_Protocol v = CommandProtocol" "sn_CommandID v = ident" "sn_Checked v \<noteq> zeroTime"
    "\<not> sn_Pending v" "sn_Status v = Some st"
  shows "validateSnapshot ident v = None"
proof -
  have "(st_Final st \<and> (st_State st = ''exited'' \<or> st_State st = ''cancelled'' \<or> st_State st = ''timed_out'' \<or> st_State st = ''uncertain'' \<or>
      st_State st = ''failed'')) \<or> (\<not> st_Final st \<and> (st_State st = ''starting'' \<or> st_State st = ''running''))" "st_WrittenInput st \<ge> 0"
    using assms(1) by (auto simp: acceptable_def split: if_splits)
  then show ?thesis using assms(2-6) by (elim disjE conjE) (simp_all add: validateSnapshot_def)
qed


text \<open>
  C35. A loss that cannot be recorded is not stable: when the supervisor is gone and the replacement record cannot be
  written, each read makes up its own final record, and the controller refuses the second one as a change of the first.
\<close>
theorem unrecorded_loss_refused:
  assumes "IDPattern ident" "st_Supervisor st = Some p" "\<not> st_Final st" "st_WrittenInput st \<ge> 0"
    and "supervisorGone p (re_lookup io1)" "supervisorGone p (re_lookup io2)" "re_write io1 = Some w1" "re_write io2 = Some w2"
    and "re_lost io1 \<noteq> re_lost io2" "re_checked io2 \<noteq> zeroTime"
    and "0 \<le> off1" "0 \<le> off2" "0 \<le> off3" "0 \<le> off4" "1 \<le> limit" "limit \<le> CommandReadLimit"
  shows "\<exists>v1 v2 first. Read sha enc io1 ident off1 off2 limit (SRecord st) (SRecord st) out errout = (Inr v1, SRecord st) \<and>
    sn_Status v1 = Some first \<and> st_Final first \<and>
    Read sha enc io2 ident off3 off4 limit (SRecord st) (SRecord st) out errout = (Inr v2, SRecord st) \<and>
    replyError ident first (Inr v2) = Inl (Fail ''command_status_changed'' ''Guest changed a previously observed final execution record'')"
proof -
  have obs: "observedStatus io ident st (SRecord st) =
      (Inr (lostSupervisor (re_lost io) (Some lostCause) st, phaseFailure ''terminal_write'' (Some w)), SRecord st)"
    if "supervisorGone p (re_lookup io)" "re_write io = Some w" for io w
    using that assms(1-3) by (simp add: observedStatus_def Reconcile_def)
  let ?l = "\<lambda>io. lostSupervisor (re_lost io) (Some lostCause) st"
  have ne: "?l io2 \<noteq> ?l io1"
  proof
    assume "?l io2 = ?l io1"
    then have "st_Updated (?l io2) = st_Updated (?l io1)" by simp
    then show False using assms(9) by (simp add: lostSupervisor_def Let_def)
  qed
  have fin: "st_Final (?l io)" "st_State (?l io) = ''uncertain''" "st_WrittenInput (?l io) = st_WrittenInput st" for io
    by (simp_all add: lostSupervisor_def Let_def)
  have valid: "validateSnapshot ident v = None"
    if "sn_Protocol v = CommandProtocol" "sn_CommandID v = ident" "sn_Checked v = re_checked io2" "\<not> sn_Pending v" "sn_Status v = Some (?l io2)" for v
    using that fin[of io2] assms(4,10) by (simp add: validateSnapshot_def)
  show ?thesis
    using assms(1,11-16) obs[OF assms(5,7)] obs[OF assms(6,8)] ne fin(1)
    by (simp add: Read_def Let_def replyError_def valid emptySnapshot_def)
qed

section \<open>A run\<close>

definition sampleSpec :: CommandSpec where
  "sampleSpec = \<lparr>cs_ID = replicate 32 CHR ''a'', cs_Argv = [''true''], cs_Context = [], cs_Cwd = [], cs_Env = [], cs_TimeoutSeconds = 60\<rparr>"

definition sampleProcess :: ProcessIdentity where "sampleProcess = \<lparr>pi_PID = 7, pi_Start = ''100''\<rparr>"

definition sampleWriter :: "string \<Rightarrow> limitWriter" where
  "sampleWriter out = snd (copyStream [(None, out)] None emptyWriter)"

definition sampleRun :: supervise_io where
  "sampleRun = \<lparr>su_clock = (\<lambda>k j. 1000 + int (10 * k + j)), su_persist = (\<lambda>_. None), su_identity = Inr sampleProcess,
     su_parent = None, su_entered = 1000,
     su_environment = Inr \<lparr>ce_Context = ''service'', ce_Identity = ''root'', ce_Cwd = ''/root'', ce_Inherited = [], ce_EnvironmentKeys = []\<rparr>,
     su_files = None, su_launch = LChild, su_events = [WTick False, WExit (\<lparr>px_code = Some 0, px_signal = [], px_core = False\<rparr>, None)],
     su_kill = None, su_lateExit = None, su_drain = None, su_inputSettled = True, su_sync = None, su_progress = (0, False),
     su_stdout = sampleWriter ''ok'', su_stderr = sampleWriter []\<rparr>"

lemma sampleSpec_valid: "CommandSpec_Validate sampleSpec = None"
  by (simp add: CommandSpec_Validate_def sampleSpec_def IDPattern_def hexLower_def ValidText_def list_all_iff)

lemma sample_ends:
  obtains e s where "supervise id sampleRun (Inr sampleSpec) None = Some (e, s)" "length (sp_log s) = 6"
    "st_State (last (sp_log s)) = ''exited''" "st_Output (last (sp_log s)) = Some (drainedOutput id sampleRun None)"
  by (simp add: supervise_def sampleSpec_valid superviseDir_def started_def launched_def settle_def persist_def updStatus_def sampleRun_def
      startingStatus_def zeroStatus_def stamp_def runningStatus_def waitedFor_def stoppingStatus_def newTermination_def killedStatus_def
      exitStatus_def updTermination_def confirmed_def drainError_def joinErr_def finishedStatus_def outcomeState_def readProgress_def Let_def)

lemma last_member: "length xs = Suc n \<Longrightarrow> last xs \<in> set xs"
  by (cases xs) auto

theorem ended_record_truthful_witness:
  "\<exists>e s st. supervise id sampleRun (Inr sampleSpec) None = Some (e, s) \<and> st \<in> set (sp_log s) \<and> st_Final st \<and> st_State st = ''exited'' \<and>
     st_ExitCode st = Some 0"
proof -
  obtain e s where run: "supervise id sampleRun (Inr sampleSpec) None = Some (e, s)" "length (sp_log s) = 6"
    "st_State (last (sp_log s)) = ''exited''" by (rule sample_ends)
  have m: "last (sp_log s) \<in> set (sp_log s)" using run(2) last_member[of _ 5] by simp
  have "st_Final (last (sp_log s)) \<and> st_ExitCode (last (sp_log s)) = Some 0"
    using ended_record_truthful[OF run(1) m] run(3) by (auto simp: sampleRun_def)
  then show ?thesis using run m by blast
qed

lemma sample_copies:
  "copyStream [(None, ''ok'')] None emptyWriter = (None, su_stdout sampleRun)" "copyStream [(None, [])] None emptyWriter = (None, su_stderr sampleRun)"
  by (simp_all add: sampleRun_def sampleWriter_def limitWriter_Write_def emptyWriter_def CommandOutputLimit_def Let_def)

definition sampleSnapshot :: "CommandStatus \<Rightarrow> CommandSnapshot" where
  "sampleSnapshot st = (emptySnapshot 5000 (cs_ID sampleSpec) 0 0)\<lparr>sn_Status := Some st\<rparr>"


definition sampleRead :: "gotime \<Rightarrow> read_io" where
  "sampleRead now = \<lparr>re_checked = now, re_lookup = LookAbsent, re_now = now, re_mkdir = None,
     re_write = Some (EErrno 28 ''no space left on device''), re_reread = None, re_lost = now,
     re_stdout = \<lparr>rs_lstat = None, rs_open = None, rs_read = None\<rparr>, re_stderr = \<lparr>rs_lstat = None, rs_open = None, rs_read = None\<rparr>\<rparr>"

theorem unrecorded_loss_refused_witness:
  "\<exists>v1 v2 first st. Read id id (sampleRead 100) (cs_ID sampleSpec) 0 0 1000 (SRecord st) (SRecord st) None None = (Inr v1, SRecord st) \<and>
    sn_Status v1 = Some first \<and> st_Final first \<and>
    Read id id (sampleRead 200) (cs_ID sampleSpec) 0 0 1000 (SRecord st) (SRecord st) None None = (Inr v2, SRecord st) \<and>
    replyError (cs_ID sampleSpec) first (Inr v2) = Inl (Fail ''command_status_changed'' ''Guest changed a previously observed final execution record'')"
proof -
  let ?st = "zeroStatus\<lparr>st_State := ''running'', st_Supervisor := Some sampleProcess\<rparr>"
  have "IDPattern (cs_ID sampleSpec)" by (simp add: sampleSpec_def IDPattern_def hexLower_def list_all_iff)
  from unrecorded_loss_refused[OF this, of ?st sampleProcess "sampleRead 100" "sampleRead 200" "EErrno 28 ''no space left on device''"
      "EErrno 28 ''no space left on device''" 0 0 0 0 1000 id id None None]
  show ?thesis by (auto simp: zeroStatus_def sampleRead_def supervisorGone_def zeroTime_def CommandReadLimit_def)
qed

end
