(* ===== verification/Collect.thy ===== *)
theory Collect
  imports Supervisor
begin

text \<open>
  The collection of a command's output, controller and guest together: rounds of \<^verbatim>\<open>guest.Read\<close> at the retained
  offset followed by \<^verbatim>\<open>retainStream\<close> on the reply.  A round refines the abstract copy that extends what is held
  by the next bytes of the guest's file, and for a finished command enough rounds end with a verified copy of it.
\<close>

section \<open>One round\<close>

definition quietRead :: readStream_io where
  "quietRead = \<lparr>rs_lstat = None, rs_open = None, rs_read = None\<rparr>"

text \<open>One round for the stream in the file \<open>g\<close> of the guest; \<open>sz\<close> and \<open>eh\<close> are the size and digest of the status.\<close>

definition collectRound ::
  "(string \<Rightarrow> string) \<Rightarrow> (string \<Rightarrow> string) \<Rightarrow> (string \<Rightarrow> string option) \<Rightarrow> int \<Rightarrow> string \<Rightarrow> CommandStatus \<Rightarrow> int \<Rightarrow> string \<Rightarrow>
   string \<Rightarrow> fs \<times> RetainedStream \<Rightarrow> fs \<times> RetainedStream" where
  "collectRound sha enc b64 limit g status sz eh name = (\<lambda>(f, r).
     case retainStream sha b64 quietIO None f name r
            (missingOutput status (readStream sha enc quietRead (Some (FFile g)) (rs_Bytes r) limit)) status sz eh of
       (f', r', _) \<Rightarrow> (f', r'))"

text \<open>The abstract copy.\<close>

definition copyStep :: "nat \<Rightarrow> string \<Rightarrow> string \<Rightarrow> string" where
  "copyStep limit g held = take (length held + limit) g"

text \<open>The retained part of a stream that is being collected: a prefix of the guest's file, in an ordinary file.\<close>

definition holds :: "string \<Rightarrow> string \<Rightarrow> fs \<times> RetainedStream \<Rightarrow> bool" where
  "holds g name = (\<lambda>(f, r). 0 \<le> rs_Bytes r \<and> rs_Bytes r \<le> int (length g) \<and> fileContent f name = take (nat (rs_Bytes r)) g \<and>
     (f name = None \<or> (\<exists>c. f name = Some (FFile c))) \<and> \<not> RetainedStream_done r)"

definition reachableFile :: "string \<Rightarrow> fs \<Rightarrow> bool" where
  "reachableFile name f \<longleftrightarrow> (\<forall>c. Regular (f(name \<mapsto> FFile c)) name = Inr c)"

text \<open>The strict decoder of the controller reads what the guest encodes.\<close>

definition decodes :: "(string \<Rightarrow> string) \<Rightarrow> (string \<Rightarrow> string option) \<Rightarrow> bool" where
  "decodes enc b64 \<longleftrightarrow> (\<forall>x. b64 (enc x) = Some x)"

text \<open>A final status that confirms the content \<open>g\<close> of a stream.\<close>

definition confirms :: "(string \<Rightarrow> string) \<Rightarrow> CommandStatus \<Rightarrow> string \<Rightarrow> int \<Rightarrow> string \<Rightarrow> bool" where
  "confirms sha status g sz eh \<longleftrightarrow> st_Final status \<and> (\<exists>out. st_Output status = Some out \<and> co_State out = ''complete'') \<and>
     sz = int (length g) \<and> eh = sha g \<and> sha g \<noteq> []"

lemma take_drop_next: "m \<le> length g \<Longrightarrow> take m g @ take k (drop m g) = take (m + k) g"
  by (simp add: take_add)

lemma quietAppend:
  assumes "f name = None \<or> (\<exists>c. f name = Some (FFile c))" "fileContent f name = old"
  shows "appendOutput quietIO f name (length old) data = (f(name \<mapsto> FFile (old @ data)), None)"
  using assms by (auto simp: appendOutput_def openOutput_def appendData_def quietIO_def fileContent_def orElse_def split: option.splits)

lemma readStream_quiet:
  assumes "0 \<le> off" "off \<le> int (length g)" "0 < limit" "data = take (nat limit) (drop (nat off) g)"
  shows "missingOutput status (readStream sha enc quietRead (Some (FFile g)) off limit) =
    \<lparr>ch_State = ''available'', ch_Offset = off, ch_Next = off + int (length data), ch_Size = int (length g), ch_Data = enc data,
     ch_SHA256 = sha data, ch_Error = None\<rparr>"
proof -
  have "take (nat (min limit (int (length g) - off))) (drop (nat off) g) = data"
    using assms by (simp add: min_def nat_diff_distrib)
  then show ?thesis
    using assms(1,2) by (simp add: readStream_def missingOutput_def quietRead_def pendingChunk_def Let_def)
qed

text \<open>The round in one equation.\<close>

lemma collectRound_eq:
  assumes h: "holds g name (f, r)" and lim: "0 < limit" "limit \<le> CommandReadLimit" and small: "int (length g) \<le> CommandOutputLimit"
    and enc: "decodes enc b64"
  defines "held \<equiv> fileContent f name" and "new \<equiv> copyStep (nat limit) g (fileContent f name)"
  shows "collectRound sha enc b64 limit g status sz eh name (f, r) =
    (let f1 = f(name \<mapsto> FFile new);
         r1 = r\<lparr>rs_Bytes := int (length new), rs_State := ''collecting'', rs_Error := None\<rparr> in
     (f1, if st_Final status \<and> new = g
          then finishStream sha None f1 name r1 \<lparr>ch_State = ''available'', ch_Offset = rs_Bytes r, ch_Next = int (length new),
            ch_Size = int (length g), ch_Data = enc (drop (length held) new), ch_SHA256 = sha (drop (length held) new), ch_Error = None\<rparr> status sz eh
          else r1))"
proof -
  define n where "n = nat (rs_Bytes r)"
  have n: "rs_Bytes r = int n" "n \<le> length g" "held = take n g" "length held = n" "\<not> RetainedStream_done r"
    "f name = None \<or> (\<exists>c. f name = Some (FFile c))"
    using h by (auto simp: holds_def n_def held_def)
  define data where "data = take (nat limit) (drop n g)"
  have new: "new = held @ data"
    using n by (simp add: new_def copyStep_def data_def held_def[symmetric] take_add)
  have d: "drop (length held) new = data" by (simp add: new)
  have len: "int n + int (length data) = int (length new)" by (simp add: new n)
  have all: "length new = length g \<longleftrightarrow> new = g"
    using n by (auto simp: new_def copyStep_def held_def[symmetric])
  have le: "length new \<le> length g" by (simp add: new_def copyStep_def)
  let ?c = "\<lparr>ch_State = ''available'', ch_Offset = rs_Bytes r, ch_Next = int (length new), ch_Size = int (length g), ch_Data = enc data,
     ch_SHA256 = sha data, ch_Error = None\<rparr>"
  have chunk: "missingOutput status (readStream sha enc quietRead (Some (FFile g)) (rs_Bytes r) limit) = ?c"
    using readStream_quiet[of "rs_Bytes r" g limit data] n lim len by (simp add: data_def)
  have ok: "checkChunk sha b64 r ?c fin = Inr data" for fin
    using n len le lim small enc by (simp add: checkChunk_def data_def decodes_def)
  have app: "appendOutput quietIO f name (nat (rs_Bytes r)) data = (f(name \<mapsto> FFile new), None)"
    using quietAppend[where f = f and name = name and old = held and data = data] n by (simp add: held_def new)
  show ?thesis
    unfolding collectRound_def split chunk
    using d by (auto simp: retainStream_def n(5) ok app Let_def all)
qed

lemma finishStream_verified:
  assumes "confirms sha status g sz eh" "ch_Size chunk = int (length g)"
    and "Regular f name = Inr g"
  shows "finishStream sha None f name r chunk status sz eh = r\<lparr>rs_SHA256 := sha g, rs_State := ''complete''\<rparr>"
  using assms by (auto simp: finishStream_def confirms_def Let_def)

lemma collecting_live [simp]: "\<not> RetainedStream_done (r\<lparr>rs_Bytes := n, rs_State := ''collecting'', rs_Error := e\<rparr>)"
  by (simp add: RetainedStream_done_def)

lemma copyStep_length: "length (copyStep k g held) \<le> length g"
  by (simp add: copyStep_def)

lemma collect_refines_copy_holds:
  assumes "holds g name (f, r)" "0 < limit" "limit \<le> CommandReadLimit" "int (length g) \<le> CommandOutputLimit" "decodes enc b64"
    and "collectRound sha enc b64 limit g status sz eh name (f, r) = (f', r')"
  shows "fileContent f' name = copyStep (nat limit) g (fileContent f name)" "rs_Bytes r' = int (length (fileContent f' name))"
    "st_Final status \<and> fileContent f' name = g \<or> holds g name (f', r')"
proof -
  let ?new = "copyStep (nat limit) g (fileContent f name)"
  have eq: "f' = f(name \<mapsto> FFile ?new)" "\<not> (st_Final status \<and> ?new = g) \<Longrightarrow> r' = r\<lparr>rs_Bytes := int (length ?new), rs_State := ''collecting'', rs_Error := None\<rparr>"
    "rs_Bytes r' = int (length ?new)"
    using collectRound_eq[OF assms(1-5), of sha status sz eh] assms(6)
    by (auto simp: Let_def finishStream_kept split: if_splits)
  have "?new = take (length ?new) g" by (simp add: copyStep_def min_def)
  then show "st_Final status \<and> fileContent f' name = g \<or> holds g name (f', r')"
    using eq copyStep_length by (cases "st_Final status \<and> ?new = g") (auto simp: holds_def)
  show "fileContent f' name = ?new" "rs_Bytes r' = int (length (fileContent f' name))" using eq by simp_all
qed

text \<open>
  C4. A round of collection refines the abstract copy: when the controller holds a prefix of the guest's output file and
  no system call fails, then after the next read and \<^verbatim>\<open>retainStream\<close> it holds just the prefix that is longer by the read
  limit (or all of the file), the retained count is its length, and unless this was the end of a finished command the
  collection goes on from there.
\<close>
theorem collect_refines_copy:
  assumes "holds g name (f, r)" "0 < limit" "limit \<le> CommandReadLimit" "int (length g) \<le> CommandOutputLimit" "decodes enc b64"
    and "collectRound sha enc b64 limit g status sz eh name (f, r) = (f', r')"
  shows "fileContent f' name = copyStep (nat limit) g (fileContent f name) \<and> rs_Bytes r' = int (length (fileContent f' name)) \<and>
    (st_Final status \<and> fileContent f' name = g \<or> holds g name (f', r'))"
  using collect_refines_copy_holds[OF assms] by blast

section \<open>Enough rounds\<close>

definition collectRounds ::
  "(string \<Rightarrow> string) \<Rightarrow> (string \<Rightarrow> string) \<Rightarrow> (string \<Rightarrow> string option) \<Rightarrow> int \<Rightarrow> string \<Rightarrow> CommandStatus \<Rightarrow> int \<Rightarrow> string \<Rightarrow>
   string \<Rightarrow> nat \<Rightarrow> fs \<times> RetainedStream \<Rightarrow> fs \<times> RetainedStream" where
  "collectRounds sha enc b64 limit g status sz eh name k = (collectRound sha enc b64 limit g status sz eh name ^^ k)"

definition collectedFile :: "(string \<Rightarrow> string) \<Rightarrow> string \<Rightarrow> string \<Rightarrow> fs \<times> RetainedStream \<Rightarrow> bool" where
  "collectedFile sha g name = (\<lambda>(f, r). f name = Some (FFile g) \<and> rs_State r = ''complete'' \<and> rs_Bytes r = int (length g) \<and> rs_SHA256 r = sha g)"

lemma collected_stays: "collectedFile sha g name x \<Longrightarrow> collectRound sha enc b64 limit g status sz eh name x = x"
  by (cases x) (simp add: collectedFile_def collectRound_def retainStream_def RetainedStream_done_def)

lemma collected_stays_rounds:
  "collectedFile sha g name x \<Longrightarrow> (collectRound sha enc b64 limit g status sz eh name ^^ k) x = x"
  by (induction k) (simp_all add: collected_stays)

lemma reachableFile_upd [simp]: "reachableFile name (f(name \<mapsto> c)) = reachableFile name f"
  by (simp add: reachableFile_def)

lemma collect_round:
  assumes "holds g name (f, r)" "reachableFile name f" "0 < limit" "limit \<le> CommandReadLimit" "int (length g) \<le> CommandOutputLimit"
    and enc: "decodes enc b64"
    and st: "confirms sha status g sz eh"
    and round: "collectRound sha enc b64 limit g status sz eh name (f, r) = (f', r')"
  shows "if length g \<le> nat (rs_Bytes r) + nat limit then collectedFile sha g name (f', r')
         else holds g name (f', r') \<and> reachableFile name f' \<and> nat (rs_Bytes r') = nat (rs_Bytes r) + nat limit"
proof -
  let ?new = "copyStep (nat limit) g (fileContent f name)"
  have len: "length (fileContent f name) = nat (rs_Bytes r)" using assms(1) by (auto simp: holds_def)
  have all: "?new = g \<longleftrightarrow> length g \<le> nat (rs_Bytes r) + nat limit" by (simp add: copyStep_def len)
  note eq = collectRound_eq[OF assms(1,3-5) enc, of sha status sz eh, unfolded round Let_def]
  show ?thesis
  proof (cases "?new = g")
    case True
    have "Regular (f(name \<mapsto> FFile g)) name = Inr g" using assms(2) by (simp add: reachableFile_def)
    then show ?thesis using eq True all finishStream_verified[OF st] st
      by (simp add: collectedFile_def confirms_def)
  next
    case False
    then have h: "holds g name (f', r')" using collect_refines_copy_holds[OF assms(1,3-5) enc round] by simp
    have "f' = f(name \<mapsto> FFile ?new)" "rs_Bytes r' = int (length ?new)" using eq False by simp_all
    then have "nat (rs_Bytes r') = nat (rs_Bytes r) + nat limit" using False all by (simp only: nat_int) (simp add: copyStep_def len)
    with \<open>f' = f(name \<mapsto> FFile ?new)\<close> show ?thesis using h False all assms(2) by simp
  qed
qed

lemma collect_rounds:
  assumes "holds g name (f, r)" "reachableFile name f" "0 < limit" "limit \<le> CommandReadLimit" "int (length g) \<le> CommandOutputLimit"
    and enc: "decodes enc b64"
    and st: "confirms sha status g sz eh"
    and "length g < nat (rs_Bytes r) + k * nat limit"
  shows "collectedFile sha g name ((collectRound sha enc b64 limit g status sz eh name ^^ k) (f, r))"
  using assms(1,2,8)
proof (induction k arbitrary: f r)
  case 0
  then show ?case by (auto simp: holds_def)
next
  case (Suc k)
  obtain f' r' where r: "collectRound sha enc b64 limit g status sz eh name (f, r) = (f', r')" by fastforce
  note c = collect_round[OF Suc.prems(1,2) assms(3-5) enc st r]
  have s: "(collectRound sha enc b64 limit g status sz eh name ^^ Suc k) (f, r) = (collectRound sha enc b64 limit g status sz eh name ^^ k) (f', r')"
    by (simp only: funpow_Suc_right o_apply r)
  show ?case
  proof (cases "length g \<le> nat (rs_Bytes r) + nat limit")
    case True then show ?thesis using c unfolding s by (simp add: collected_stays_rounds)
  next
    case False then show ?thesis unfolding s by (intro Suc.IH) (use c Suc.prems(3) in simp_all)
  qed
qed

text \<open>
  The output of a finished command is collected: from any collected prefix, once the final status confirms the size
  and digest of the guest's file, enough rounds (one per read limit of its length) without a failing call leave the
  whole file on the controller, marked complete with that digest.
\<close>
lemma output_collected:
  assumes "holds g name (f, r)" "reachableFile name f" "0 < limit" "limit \<le> CommandReadLimit" "int (length g) \<le> CommandOutputLimit"
    and "decodes enc b64"
    and "confirms sha status g sz eh"
    and "collectRounds sha enc b64 limit g status sz eh name (length g div nat limit + 1) (f, r) = (f', r')"
  shows "f' name = Some (FFile g) \<and> rs_State r' = ''complete'' \<and> rs_Bytes r' = int (length g) \<and> rs_SHA256 r' = sha g"
proof -
  have "length g < (length g div nat limit + 1) * nat limit" using assms(3) by (simp add: dividend_less_div_times)
  then show ?thesis
    using collect_rounds[OF assms(1-7), of "length g div nat limit + 1"] assms(8) by (simp add: collectRounds_def collectedFile_def)
qed

section \<open>From the process to the controller\<close>


section \<open>A collection\<close>

definition idle :: RetainedStream where
  "idle = \<lparr>rs_State = [], rs_Bytes = 0, rs_SHA256 = [], rs_Error = None\<rparr>"

definition emptyFS :: fs where "emptyFS = (\<lambda>_. None)"

lemma sample_holds: "holds g ''o'' (emptyFS, idle)"
  by (simp add: holds_def idle_def emptyFS_def fileContent_def RetainedStream_done_def)

lemma sample_empty: "fileContent emptyFS name = []"
  by (simp add: emptyFS_def fileContent_def)

lemma sample_reachable: "reachableFile ''o'' emptyFS"
proof -
  have n: "Name ''o'' = None" "splitOn CHR ''/'' ''o'' = [''o'']" "pathJoin [] ''o'' = ''o''"
    by (simp_all add: Name_def pathJoin_def Clean_def pathElems_def isAbs_def)
  show ?thesis by (simp add: reachableFile_def Regular_def n emptyFS_def)
qed

lemma sample_decodes: "decodes id Some"
  by (simp add: decodes_def)

lemma sample_limit: "(2 :: int) \<le> CommandReadLimit" "int (length ''abc'') \<le> CommandOutputLimit"
  by (simp_all add: CommandReadLimit_def CommandOutputLimit_def)

theorem collect_refines_copy_witness:
  "fileContent (fst (collectRound id id Some 2 ''abc'' zeroStatus 0 [] ''o'' (emptyFS, idle))) ''o'' = ''ab''"
proof -
  obtain f' r' where r: "collectRound id id Some 2 ''abc'' zeroStatus 0 [] ''o'' (emptyFS, idle) = (f', r')" by fastforce
  from collect_refines_copy[OF sample_holds _ sample_limit sample_decodes r] show ?thesis
    unfolding r by (simp add: copyStep_def sample_empty)
qed

definition sampleDone :: CommandStatus where
  "sampleDone = zeroStatus\<lparr>st_State := ''exited'', st_Final := True, st_Output := Some (openOutputState\<lparr>co_State := ''complete''\<rparr>)\<rparr>"


end
