(* ===== verification/NixExecutor.thy ===== *)
theory NixExecutor
  imports Model
begin

text \<open>
  The privileged executor of Nix sessions, \<^verbatim>\<open>internal/nixexecutor/executor_linux.go\<close>: a session owns a control group
  of the kernel in which the daemons of one job run, its receipt is a row of the executor's store, and the receipt says
  \<open>released\<close> only when no process of the group is left.

  Every section under \<^verbatim>\<open>e.mu\<close> is one function; clock readings of a section are one value, and the outcomes of system
  calls and of the store are arguments.  A failed write leaves the store as it was.
\<close>

section \<open>Data\<close>

record ExecRequest =
  xq_WorkerInstance :: string
  xq_TaskID :: string
  xq_SessionID :: string
  xq_Deadline :: "gotime option"
  xq_Reason :: string

record ExecSession =
  xs_DaemonError :: "werror option"
  xs_ID :: string
  xs_ExecutorInstance :: string
  xs_WorkerInstance :: string
  xs_TaskID :: string
  xs_Store :: string
  xs_BootID :: string
  xs_Invocation :: string
  xs_Group :: string
  xs_GroupInode :: nat
  xs_Created :: gotime
  xs_Deadline :: gotime
  xs_Stopping :: "gotime option"
  xs_Resources :: NixResources

text \<open>\<open>rt_group\<close> is the inode of the opened control group, \<open>rt_children\<close> the number of started daemons not yet waited for.\<close>

record runtimeSession =
  rt_killAttempted :: bool
  rt_session :: ExecSession
  rt_group :: "nat option"
  rt_listener :: bool
  rt_children :: nat
  rt_monitoring :: bool

record ExecConfig =
  xc_StopGrace :: duration
  xc_ReleaseTimeout :: duration
  xc_SocketDir :: string

record Executor =
  ex_cfg :: ExecConfig
  ex_instance :: string
  ex_db :: "ExecSession list"
  ex_groups :: string
  ex_boot :: string
  ex_invocation :: string
  ex_sessions :: "(string \<times> runtimeSession) list"
  ex_closing :: bool

definition sessionReleased :: "ExecSession \<Rightarrow> bool" where
  "sessionReleased s = NixResources_Released (xs_Resources s)"

definition updResources :: "(NixResources \<Rightarrow> NixResources) \<Rightarrow> ExecSession \<Rightarrow> ExecSession" where
  "updResources f s = s\<lparr>xs_Resources := f (xs_Resources s)\<rparr>"

definition newRuntime :: "ExecSession \<Rightarrow> runtimeSession" where
  "newRuntime s = \<lparr>rt_killAttempted = False, rt_session = s, rt_group = None, rt_listener = False, rt_children = 0, rt_monitoring = False\<rparr>"

section \<open>The store\<close>

text \<open>\<^verbatim>\<open>INSERT ... ON CONFLICT(id) DO UPDATE\<close> into a table with \<^verbatim>\<open>UNIQUE(worker_instance,task_id)\<close>.\<close>

definition samePair :: "ExecSession \<Rightarrow> ExecSession \<Rightarrow> bool" where
  "samePair a b \<longleftrightarrow> xs_WorkerInstance a = xs_WorkerInstance b \<and> xs_TaskID a = xs_TaskID b"

definition hasRow :: "string \<Rightarrow> ExecSession list \<Rightarrow> bool" where
  "hasRow ident rows = list_ex (\<lambda>r. xs_ID r = ident) rows"

definition saveSession :: "goerr option \<Rightarrow> ExecSession \<Rightarrow> ExecSession list \<Rightarrow> goerr option \<times> ExecSession list" where
  "saveSession err s rows =
    (case err of
       Some e \<Rightarrow> (Some e, rows)
     | None \<Rightarrow>
        if hasRow (xs_ID s) rows then (None, map (\<lambda>r. if xs_ID r = xs_ID s then s else r) rows)
        else if list_ex (samePair s) rows then (Some (EText ''UNIQUE constraint failed''), rows)
        else (None, rows @ [s]))"

section \<open>Stopping and releasing\<close>

definition releaseAttempt :: "gotime \<Rightarrow> duration \<Rightarrow> runtimeSession \<Rightarrow> runtimeSession" where
  "releaseAttempt now budget r = r\<lparr>rt_session := updResources (\<lambda>x. x\<lparr>nr_State := ''releasing'', nr_Error := None,
     nr_Attempts := nr_Attempts x + 1, nr_ReleaseStarted := Some now, nr_ReleaseDeadline := Some (now + budget)\<rparr>) (rt_session r)\<rparr>"

definition blocked :: "gotime \<Rightarrow> string \<Rightarrow> string \<Rightarrow> ExecSession \<Rightarrow> ExecSession" where
  "blocked now code message s = updResources (\<lambda>x. x\<lparr>nr_State := ''blocked'', nr_Observed := Some now,
     nr_Error := Some (WError code message [] ''reconcile''
       ''Inspect the executor session and recover the existing job after resolving its resource error''
       [(''stage'', GStr ''resources''), (''session_id'', GStr (xs_ID s)), (''required_actor'', GStr ''administrator'')])\<rparr>) s"

definition block :: "goerr option \<Rightarrow> gotime \<Rightarrow> string \<Rightarrow> string \<Rightarrow> runtimeSession \<times> ExecSession list \<Rightarrow> runtimeSession \<times> ExecSession list" where
  "block err now code message = (\<lambda>(r, rows).
     let s = blocked now code message (rt_session r) in (r\<lparr>rt_session := s\<rparr>, snd (saveSession err s rows)))"

definition releasedSession :: "gotime \<Rightarrow> string \<Rightarrow> ExecSession \<Rightarrow> ExecSession" where
  "releasedSession now confirmation s =
    (let s1 = (if xs_Stopping s = None then updResources (\<lambda>x. x\<lparr>nr_Reason := ''executor_restarted''\<rparr>) (s\<lparr>xs_Stopping := Some now\<rparr>) else s) in
     updResources (\<lambda>x. x\<lparr>nr_State := ''released'', nr_Confirmation := confirmation, nr_Observed := Some now, nr_Error := None\<rparr>) s1)"

text \<open>The errors of the two writes a section may make.\<close>

record save_io =
  sv_first :: "goerr option"
  sv_block :: "goerr option"

definition released :: "save_io \<Rightarrow> gotime \<Rightarrow> string \<Rightarrow> runtimeSession \<times> ExecSession list \<Rightarrow> goerr option \<times> runtimeSession \<times> ExecSession list" where
  "released io now confirmation = (\<lambda>(r, rows).
     let s = releasedSession now confirmation (rt_session r) in
     (case saveSession (sv_first io) s rows of
        (Some e, rows1) \<Rightarrow> (Some e, block (sv_block io) now ''executor_persistence'' ''Resource release could not be persisted'' (r, rows1))
      | (None, rows1) \<Rightarrow> (None, r\<lparr>rt_session := s\<rparr>, rows1)))"

definition stoppedSession :: "gotime \<Rightarrow> string \<Rightarrow> ExecSession \<Rightarrow> ExecSession" where
  "stoppedSession now reason s =
    (let s1 = (if xs_Stopping s = None then updResources (\<lambda>x. x\<lparr>nr_Reason := reason\<rparr>) (s\<lparr>xs_Stopping := Some now\<rparr>) else s) in
     updResources (\<lambda>x. x\<lparr>nr_State := ''releasing'', nr_Error := None\<rparr>) s1)"

definition stopLocked ::
  "save_io \<Rightarrow> ExecConfig \<Rightarrow> gotime \<Rightarrow> string \<Rightarrow> runtimeSession \<times> ExecSession list \<Rightarrow> goerr option \<times> runtimeSession \<times> ExecSession list" where
  "stopLocked io cfg now reason = (\<lambda>(r, rows).
     if sessionReleased (rt_session r) then (None, r, rows)
     else if rt_monitoring r then
       if reason = ''recovery'' \<and> nr_State (xs_Resources (rt_session r)) = ''blocked''
       then (let r1 = (releaseAttempt now (xc_ReleaseTimeout cfg) r)\<lparr>rt_killAttempted := False\<rparr>;
                 (err, rows1) = saveSession (sv_first io) (rt_session r1) rows in (err, r1, rows1))
       else (None, r, rows)
     else
       let r1 = r\<lparr>rt_session := stoppedSession now reason (rt_session r), rt_listener := False\<rparr>;
           r2 = (if nr_ReleaseDeadline (xs_Resources (rt_session r1)) = None then releaseAttempt now (xc_ReleaseTimeout cfg) r1 else r1);
           (err, rows1) = saveSession (sv_first io) (rt_session r2) rows in
       if rt_group r2 \<noteq> None then (err, r2\<lparr>rt_monitoring := True\<rparr>, rows1)
       else (err, block (sv_block io) now ''executor_identity'' ''Session group could not be opened; inspect the host before recovery'' (r2, rows1)))"

text \<open>\<^verbatim>\<open>group.populated\<close> on what reading \<^verbatim>\<open>cgroup.events\<close> gives.\<close>

fun splitLines :: "string \<Rightarrow> string list" where
  "splitLines [] = [[]]"
| "splitLines (c # s) = (if c = CHR 0x0A then [] # splitLines s else (case splitLines s of l # ls \<Rightarrow> (c # l) # ls | [] \<Rightarrow> [[c]]))"

fun populatedLine :: "string list \<Rightarrow> bool res" where
  "populatedLine [] = Inl (EText ''cgroup.events has no populated observation'')"
| "populatedLine (l # ls) = (if l = ''populated 0'' then Inr False else if l = ''populated 1'' then Inr True else populatedLine ls)"

definition populated :: "string res \<Rightarrow> bool res" where
  "populated events = (case events of Inl e \<Rightarrow> Inl e | Inr content \<Rightarrow> populatedLine (splitLines content))"

text \<open>
  One pass of \<^verbatim>\<open>observeRelease\<close>: what reading \<^verbatim>\<open>cgroup.events\<close> and writing \<^verbatim>\<open>cgroup.kill\<close> give.  The second result says
  that the session was released and the observer has ended.
\<close>

record observe_io =
  ob_events :: "string res"
  ob_kill :: "goerr option"
  ob_save :: save_io
  ob_blockSave :: "goerr option"
  ob_text :: "goerr \<Rightarrow> string"

definition ob_live :: "observe_io \<Rightarrow> bool res" where
  "ob_live io = populated (ob_events io)"

definition overdue :: "ExecConfig \<Rightarrow> gotime \<Rightarrow> observe_io \<Rightarrow> gotime \<Rightarrow> gotime \<Rightarrow> goerr option \<Rightarrow> runtimeSession \<times> ExecSession list \<Rightarrow>
    runtimeSession \<times> ExecSession list" where
  "overdue cfg now io stopping deadline err0 = (\<lambda>(r, rows).
     let kills = (\<not> rt_killAttempted r \<and> now - stopping \<ge> xc_StopGrace cfg);
         err = (if kills then ob_kill io else err0);
         r1 = (if kills then r\<lparr>rt_killAttempted := True\<rparr> else r) in
     if nr_State (xs_Resources (rt_session r1)) \<noteq> ''blocked'' \<and> (err \<noteq> None \<or> \<not> now < deadline)
     then block (ob_blockSave io) now ''resource_release_unconfirmed''
            (case err of Some x \<Rightarrow> ''Executor could not terminate or observe the session cgroup: '' @ ob_text io x
             | None \<Rightarrow> ''Session processes have not exited within the release budget'') (r1, rows)
     else (r1, rows))"

definition observeRelease ::
  "ExecConfig \<Rightarrow> gotime \<Rightarrow> observe_io \<Rightarrow> runtimeSession \<times> ExecSession list \<Rightarrow> ((runtimeSession \<times> ExecSession list) \<times> bool) option" where
  "observeRelease cfg now io = (\<lambda>(r, rows).
     case (xs_Stopping (rt_session r), nr_ReleaseDeadline (xs_Resources (rt_session r))) of
       (Some stopping, Some deadline) \<Rightarrow>
         (case ob_live io of
            Inr False \<Rightarrow>
              (case released (ob_save io) now ''sealed_cgroup_empty'' (r, rows) of
                 (None, r1, rows1) \<Rightarrow> Some ((r1\<lparr>rt_group := None, rt_monitoring := False\<rparr>, rows1), True)
               | (Some e, r1, rows1) \<Rightarrow> Some (overdue cfg now io stopping deadline (Some e) (r1, rows1), False))
          | Inr True \<Rightarrow> Some (overdue cfg now io stopping deadline None (r, rows), False)
          | Inl e \<Rightarrow> Some (overdue cfg now io stopping deadline (Some e) (r, rows), False))
     | _ \<Rightarrow> None)"

section \<open>Sessions in memory\<close>

definition getSession :: "string \<Rightarrow> Executor \<Rightarrow> runtimeSession option" where
  "getSession ident e = map_of (ex_sessions e) ident"

text \<open>Assignment to a key of \<^verbatim>\<open>e.sessions\<close>.\<close>

definition putSession :: "string \<Rightarrow> runtimeSession \<Rightarrow> Executor \<Rightarrow> Executor" where
  "putSession ident r e = e\<lparr>ex_sessions :=
     (if getSession ident e = None then ex_sessions e @ [(ident, r)]
      else map (\<lambda>(k, v). if k = ident then (k, r) else (k, v)) (ex_sessions e))\<rparr>"

text \<open>A section on one session: its runtime state and the store are replaced.\<close>

definition putBoth :: "string \<Rightarrow> runtimeSession \<times> ExecSession list \<Rightarrow> Executor \<Rightarrow> Executor" where
  "putBoth ident = (\<lambda>(r, rows) e. (putSession ident r e)\<lparr>ex_db := rows\<rparr>)"

definition stopSession :: "save_io \<Rightarrow> gotime \<Rightarrow> string \<Rightarrow> string \<Rightarrow> Executor \<Rightarrow> goerr option \<times> Executor" where
  "stopSession io now reason ident e =
    (case getSession ident e of
       None \<Rightarrow> (None, e)
     | Some r \<Rightarrow> (case stopLocked io (ex_cfg e) now reason (r, ex_db e) of (err, r', rows) \<Rightarrow> (err, putBoth ident (r', rows) e)))"

section \<open>Calls of the worker\<close>

definition errNoRows :: goerr where "errNoRows = EText ''sql: no rows in result set''"

definition ownershipMismatch :: goerr where "ownershipMismatch = Fail ''ownership_mismatch'' ''Session identity differs''"

text \<open>
  \<^verbatim>\<open>lookup\<close>: the key of the session the request names; a session found in the store is entered into the memory.
  \<open>dbErr\<close> is a failure of the query.
\<close>

definition lookupSession :: "goerr option \<Rightarrow> ExecRequest \<Rightarrow> Executor \<Rightarrow> string res \<times> Executor" where
  "lookupSession dbErr a e =
    (case (if xq_SessionID a \<noteq> [] then getSession (xq_SessionID a) e else None) of
       Some r \<Rightarrow>
         if xs_WorkerInstance (rt_session r) \<noteq> xq_WorkerInstance a \<or> xs_TaskID (rt_session r) \<noteq> xq_TaskID a
         then (Inl (Fail ''ownership_mismatch'' ''Session belongs to a different worker job''), e)
         else (Inr (xq_SessionID a), e)
     | None \<Rightarrow>
       (case dbErr of
          Some x \<Rightarrow> (Inl x, e)
        | None \<Rightarrow>
          (case List.find (\<lambda>s. xs_WorkerInstance s = xq_WorkerInstance a \<and> xs_TaskID s = xq_TaskID a) (ex_db e) of
             None \<Rightarrow> (Inl errNoRows, e)
           | Some s \<Rightarrow>
              if xq_SessionID a \<noteq> [] \<and> xq_SessionID a \<noteq> xs_ID s then (Inl ownershipMismatch, e)
              else if getSession (xs_ID s) e \<noteq> None then (Inr (xs_ID s), e)
              else (Inr (xs_ID s), putSession (xs_ID s) (newRuntime s) e))))"

text \<open>The receipt that seals a job which was never admitted.\<close>

definition sealedSession :: "gotime \<Rightarrow> string \<Rightarrow> ExecRequest \<Rightarrow> Executor \<Rightarrow> ExecSession" where
  "sealedSession now ident a e = \<lparr>xs_DaemonError = None, xs_ID = ident, xs_ExecutorInstance = ex_instance e, xs_WorkerInstance = xq_WorkerInstance a,
     xs_TaskID = xq_TaskID a, xs_Store = [], xs_BootID = ex_boot e, xs_Invocation = ex_invocation e, xs_Group = [], xs_GroupInode = 0,
     xs_Created = now, xs_Deadline = now, xs_Stopping = Some now,
     xs_Resources = (nixResourcesIn ''released'')\<lparr>nr_Confirmation := ''never_admitted'', nr_Reason := xq_Reason a, nr_Observed := Some now,
       nr_SessionID := ident, nr_ExecutorInstance := ex_instance e\<rparr>\<rparr>"

definition groupPath :: "string \<Rightarrow> string \<Rightarrow> string" where
  "groupPath groups ident = groups @ ''/job-'' @ ident"

definition openedSession :: "gotime \<Rightarrow> string \<Rightarrow> gotime \<Rightarrow> ExecRequest \<Rightarrow> Executor \<Rightarrow> ExecSession" where
  "openedSession now ident deadline a e = \<lparr>xs_DaemonError = None, xs_ID = ident, xs_ExecutorInstance = ex_instance e,
     xs_WorkerInstance = xq_WorkerInstance a, xs_TaskID = xq_TaskID a, xs_Store = ''unix://'' @ xc_SocketDir (ex_cfg e) @ ''/'' @ ident @ ''.sock'',
     xs_BootID = ex_boot e, xs_Invocation = ex_invocation e, xs_Group = groupPath (ex_groups e) ident, xs_GroupInode = 0,
     xs_Created = now, xs_Deadline = deadline, xs_Stopping = None,
     xs_Resources = (nixResourcesIn ''owned'')\<lparr>nr_SessionID := ident, nr_ExecutorInstance := ex_instance e, nr_Observed := Some now\<rparr>\<rparr>"

text \<open>
  The outcomes of the steps of \<^verbatim>\<open>create\<close>: the first write, making the group, opening it (its inode), the second
  write, the listener, and giving its socket to the worker.
\<close>

record create_io =
  cr_save1 :: "goerr option"
  cr_mkdir :: "goerr option"
  cr_open :: "nat res"
  cr_save2 :: "goerr option"
  cr_listen :: "goerr option"
  cr_socket :: "goerr option"
  cr_fail :: save_io

definition isNotExist :: "goerr \<Rightarrow> bool" where
  "isNotExist err \<longleftrightarrow> (case asErrno err of Some (n, _) \<Rightarrow> n = 2 | None \<Rightarrow> False)"

definition setupError :: "string \<Rightarrow> goerr \<Rightarrow> goerr" where
  "setupError ident err = EWire (WError ''executor_setup'' (''Could not prepare the task'' @ [CHR 0x27] @ ''s delegated Nix session'') [] [] []
     [(''session_id'', GStr ident), (''required_actor'', GStr ''administrator''), (''stage'', GStr ''session_setup''), (''cause'', GErr (Safe err))])"

text \<open>From the first error of the setup on.\<close>

definition setupFailed :: "create_io \<Rightarrow> gotime \<Rightarrow> string \<Rightarrow> goerr \<Rightarrow> Executor \<Rightarrow> ExecSession res \<times> Executor" where
  "setupFailed io now ident err e =
    (Inl (setupError ident err),
     (case getSession ident e of
        None \<Rightarrow> e
      | Some r \<Rightarrow>
         if rt_group r = None \<and> isNotExist err
         then (case released (cr_fail io) now ''session_not_started'' (r, ex_db e) of (_, r', rows) \<Rightarrow> putBoth ident (r', rows) e)
         else snd (stopSession (cr_fail io) now ''session_setup_failed'' ident e)))"

definition setupSession :: "create_io \<Rightarrow> gotime \<Rightarrow> string \<Rightarrow> Executor \<Rightarrow> ExecSession res \<times> Executor" where
  "setupSession io now ident e =
    (case (cr_mkdir io, getSession ident e) of
       (Some err, _) \<Rightarrow> setupFailed io now ident err e
     | (None, None) \<Rightarrow> (Inl errNoRows, e)
     | (None, Some r) \<Rightarrow>
        (case cr_open io of
           Inl err \<Rightarrow> setupFailed io now ident err e
         | Inr inode \<Rightarrow>
            let s = (rt_session r)\<lparr>xs_GroupInode := inode\<rparr>;
                r1 = r\<lparr>rt_group := Some inode, rt_session := s\<rparr> in
            (case saveSession (cr_save2 io) s (ex_db e) of
               (Some err, rows) \<Rightarrow> setupFailed io now ident err (putBoth ident (r1, rows) e)
             | (None, rows) \<Rightarrow>
                (case (cr_listen io, cr_socket io) of
                   (Some err, _) \<Rightarrow> setupFailed io now ident err (putBoth ident (r1, rows) e)
                 | (None, Some err) \<Rightarrow> setupFailed io now ident err (putBoth ident (r1\<lparr>rt_listener := True\<rparr>, rows) e)
                 | (None, None) \<Rightarrow> (Inr s, putBoth ident (r1\<lparr>rt_listener := True\<rparr>, rows) e)))))"

definition createSession :: "create_io \<Rightarrow> gotime \<Rightarrow> string \<Rightarrow> ExecRequest \<Rightarrow> Executor \<Rightarrow> ExecSession res \<times> Executor" where
  "createSession io now ident a e =
    (if ex_closing e then (Inl (Fail ''executor_stopping'' ''Executor is closing its sessions''), e)
     else (case xq_Deadline a of
        None \<Rightarrow> (Inl (Fail ''invalid_argument'' ''Session deadline must be within 24 hours''), e)
      | Some deadline \<Rightarrow>
         if \<not> now < deadline \<or> now + 24 * hour < deadline
         then (Inl (Fail ''invalid_argument'' ''Session deadline must be within 24 hours''), e)
         else if list_ex (\<lambda>(k, r). \<not> sessionReleased (rt_session r)) (ex_sessions e)
         then (Inl (Fail ''resource_busy'' ''Executor is still responsible for an existing session''), e)
         else
           let s = openedSession now ident deadline a e in
           (case saveSession (cr_save1 io) s (ex_db e) of
              (Some err, _) \<Rightarrow> (Inl err, e)
            | (None, rows) \<Rightarrow> setupSession io now ident (putBoth ident (newRuntime s, rows) e))))"

definition sealJob :: "goerr option \<Rightarrow> gotime \<Rightarrow> string \<Rightarrow> ExecRequest \<Rightarrow> Executor \<Rightarrow> ExecSession res \<times> Executor" where
  "sealJob err now ident a e =
    (let s = sealedSession now ident a e in
     case saveSession err s (ex_db e) of
       (Some x, _) \<Rightarrow> (Inl x, e)
     | (None, rows) \<Rightarrow> (Inr s, putBoth ident (newRuntime s, rows) e))"

definition extendSession :: "save_io \<Rightarrow> goerr option \<Rightarrow> gotime \<Rightarrow> string \<Rightarrow> ExecRequest \<Rightarrow> Executor \<Rightarrow> ExecSession res \<times> Executor" where
  "extendSession sio err now ident a e =
    (case getSession ident e of
       None \<Rightarrow> (Inl errNoRows, e)
     | Some r0 \<Rightarrow>
        let e1 = (if now < xs_Deadline (rt_session r0) then e else snd (stopSession sio now ''deadline'' ident e)) in
        (case getSession ident e1 of
           None \<Rightarrow> (Inl errNoRows, e1)
         | Some r \<Rightarrow>
            let s = rt_session r; refuse = (Inl (Fail ''invalid_state'' ''Only an owned session can be extended within its lifetime''), e1) in
            (case xq_Deadline a of
               None \<Rightarrow> refuse
             | Some d \<Rightarrow>
                if xs_Stopping s \<noteq> None \<or> nr_State (xs_Resources s) \<noteq> ''owned'' \<or> d < xs_Deadline s \<or> xs_Created s + 24 * hour < d then refuse
                else let s1 = s\<lparr>xs_Deadline := d\<rparr> in
                (case saveSession err s1 (ex_db e1) of
                   (Some x, _) \<Rightarrow> (Inl x, e1)
                 | (None, rows) \<Rightarrow> (Inr s1, putBoth ident (r\<lparr>rt_session := s1\<rparr>, rows) e1)))))"

definition stopReasons :: "string list" where
  "stopReasons = [''completed'', ''cancelled'', ''deadline'', ''worker_stopped'', ''worker_restarted'', ''recovery'', ''failed'']"

definition currentSession :: "string \<Rightarrow> Executor \<Rightarrow> ExecSession res" where
  "currentSession ident e = (case getSession ident e of None \<Rightarrow> Inl errNoRows | Some r \<Rightarrow> Inr (rt_session r))"

text \<open>\<^verbatim>\<open>Call\<close> without \<^verbatim>\<open>describe\<close>; \<open>ident\<close> is the identifier \<^verbatim>\<open>wire.ID()\<close> draws.\<close>

record call_io =
  cl_lookup :: "goerr option"
  cl_seal :: "goerr option"
  cl_create :: create_io
  cl_stop :: save_io
  cl_extend :: "goerr option"

definition knownCall :: "call_io \<Rightarrow> gotime \<Rightarrow> string \<Rightarrow> ExecRequest \<Rightarrow> string \<Rightarrow> Executor \<Rightarrow> ExecSession res \<times> Executor" where
  "knownCall io now method a ident e =
    (if method = ''create'' \<or> method = ''status'' then (currentSession ident e, e)
     else if method = ''stop'' then
       if \<not> oneOf (xq_Reason a) stopReasons then (Inl (Fail ''invalid_argument'' ''A session stop reason is required''), e)
       else (case stopSession (cl_stop io) now (xq_Reason a) ident e of
          (Some x, e1) \<Rightarrow> (Inl x, e1)
        | (None, e1) \<Rightarrow> (currentSession ident e1, e1))
     else if method = ''extend'' then extendSession (cl_stop io) (cl_extend io) now ident a e
     else (Inl (Fail ''invalid_argument'' ''Unknown executor operation''), e))"

definition executorCall :: "call_io \<Rightarrow> gotime \<Rightarrow> string \<Rightarrow> string \<Rightarrow> ExecRequest \<Rightarrow> Executor \<Rightarrow> ExecSession res \<times> Executor" where
  "executorCall io now ident method a e =
    (if \<not> IDPattern (xq_WorkerInstance a) \<or> \<not> IDPattern (xq_TaskID a) \<or> xq_SessionID a \<noteq> [] \<and> \<not> IDPattern (xq_SessionID a)
     then (Inl (Fail ''invalid_argument'' ''Worker, task and session identities are required''), e)
     else (case lookupSession (cl_lookup io) a e of
        (Inr k, e1) \<Rightarrow> knownCall io now method a k e1
      | (Inl err, e1) \<Rightarrow>
         if err \<noteq> errNoRows then (Inl err, e1)
         else if method = ''stop'' then sealJob (cl_seal io) now ident a e1
         else if method = ''create'' then createSession (cl_create io) now ident a e1
         else (Inl (Fail ''session_not_found'' ''Executor has no session for this worker job''), e1)))"

text \<open>\<^verbatim>\<open>describe\<close>, without the identity of the build; and the handler of the executor's socket.\<close>

record ExecDescription =
  xd_InstanceID :: string
  xd_Ready :: bool
  xd_Active :: "ExecSession list"
  xd_StopGrace :: int
  xd_ReleaseTimeout :: int

definition describeExecutor :: "Executor \<Rightarrow> ExecDescription" where
  "describeExecutor e = \<lparr>xd_InstanceID = ex_instance e, xd_Ready = (\<not> ex_closing e),
     xd_Active = map (\<lambda>(k, r). rt_session r) (filter (\<lambda>(k, r). \<not> sessionReleased (rt_session r)) (ex_sessions e)),
     xd_StopGrace = Duration_Seconds (xc_StopGrace (ex_cfg e)), xd_ReleaseTimeout = Duration_Seconds (xc_ReleaseTimeout (ex_cfg e))\<rparr>"

datatype ExecReply = RDescription ExecDescription | RSession ExecSession | RError werror | RNothing

definition executorServe :: "call_io \<Rightarrow> gotime \<Rightarrow> string \<Rightarrow> string \<times> ExecRequest \<Rightarrow> Executor \<Rightarrow> int \<times> ExecReply \<times> Executor" where
  "executorServe io now ident = (\<lambda>(method, a) e.
     if method = ''describe'' then (200, RDescription (describeExecutor e), e)
     else (case executorCall io now ident method a e of
        (Inl err, e1) \<Rightarrow> (400, RError (Safe err), e1)
      | (Inr s, e1) \<Rightarrow> (200, RSession s, e1)))"

definition executorHandler ::
  "int \<Rightarrow> call_io \<Rightarrow> gotime \<Rightarrow> string \<Rightarrow> int \<Rightarrow> string \<Rightarrow> string \<Rightarrow> (string \<times> ExecRequest) res \<Rightarrow> Executor \<Rightarrow> int \<times> ExecReply \<times> Executor" where
  "executorHandler workerUID io now ident uid httpMethod path decoded e =
    (if uid \<noteq> workerUID \<and> uid \<noteq> 0 then (403, RNothing, e)
     else if httpMethod \<noteq> ''POST'' \<or> path \<noteq> ''/call'' then (404, RNothing, e)
     else (case decoded of
        Inl err \<Rightarrow> (400, RError (Safe err), e)
      | Inr q \<Rightarrow> executorServe io now ident q e))"

text \<open>The client's view of a reply: a transport or read failure, or an error without a body, confirms nothing.\<close>

definition executorUnavailable :: "string \<Rightarrow> goerr" where
  "executorUnavailable method = EWire (WError ''executor_unavailable'' ''Executor response was not confirmed'' [] ''reconcile''
     ''Inspect or restart just nix-executor, then recover the existing job''
     [(''stage'', GStr ''executor_control''), (''method'', GStr method), (''required_actor'', GStr ''administrator'')])"

definition clientCall :: "string \<Rightarrow> (int \<times> 'b) option \<Rightarrow> ('b \<Rightarrow> werror option) \<Rightarrow> ('b \<Rightarrow> 'a res) \<Rightarrow> 'a res" where
  "clientCall method received errorBody decode =
    (case received of
       None \<Rightarrow> Inl (executorUnavailable method)
     | Some (status, body) \<Rightarrow>
        if status \<noteq> 200 then (case errorBody body of None \<Rightarrow> Inl (executorUnavailable method) | Some err \<Rightarrow> Inl (EWire err))
        else decode body)"

section \<open>Daemons, deadlines, recovery\<close>

definition daemonError :: "string \<Rightarrow> string \<Rightarrow> (string \<times> gval) list \<Rightarrow> werror" where
  "daemonError code message details = WError code message [] [] [] ((''stage'', GStr ''daemon'') # details)"

text \<open>A connection of the worker's user: refused, or a daemon is started (\<open>err\<close>: or fails to start).\<close>

definition admits :: "runtimeSession \<Rightarrow> Executor \<Rightarrow> bool" where
  "admits r e \<longleftrightarrow> \<not> ex_closing e \<and> xs_Stopping (rt_session r) = None \<and> nr_State (xs_Resources (rt_session r)) = ''owned''"

definition failDaemon :: "save_io \<Rightarrow> gotime \<Rightarrow> werror \<Rightarrow> string \<Rightarrow> string \<Rightarrow> Executor \<Rightarrow> Executor" where
  "failDaemon io now derr reason ident e =
    (case getSession ident e of
       None \<Rightarrow> e
     | Some r \<Rightarrow> snd (stopSession io now reason ident (putSession ident (r\<lparr>rt_session := (rt_session r)\<lparr>xs_DaemonError := Some derr\<rparr>\<rparr>) e)))"

definition acceptDaemon :: "save_io \<Rightarrow> gotime \<Rightarrow> goerr option \<Rightarrow> string \<Rightarrow> Executor \<Rightarrow> Executor" where
  "acceptDaemon io now err ident e =
    (case getSession ident e of
       None \<Rightarrow> e
     | Some r \<Rightarrow>
        if \<not> admits r e then e
        else (case err of
           None \<Rightarrow> putSession ident (r\<lparr>rt_children := rt_children r + 1\<rparr>) e
         | Some x \<Rightarrow> failDaemon io now (daemonError ''nix_daemon_start'' ''Task Nix daemon could not start inside its cgroup'' [(''cause'', GErr (Safe x))])
                      ''daemon_start_failed'' ident e))"

definition daemonExit :: "save_io \<Rightarrow> gotime \<Rightarrow> (int \<times> string) option \<Rightarrow> string \<Rightarrow> Executor \<Rightarrow> Executor" where
  "daemonExit io now waitErr ident e =
    (case getSession ident e of
       None \<Rightarrow> e
     | Some r \<Rightarrow>
        let e1 = putSession ident (r\<lparr>rt_children := rt_children r - 1\<rparr>) e in
        (case waitErr of
           Some (code, logged) \<Rightarrow>
             if xs_Stopping (rt_session r) = None
             then failDaemon io now (daemonError ''nix_daemon_exit'' ''Task Nix daemon exited unexpectedly'' [(''exit_code'', GInt code), (''stderr'', GStr logged)])
                    ''daemon_exit'' ident e1
             else e1
         | None \<Rightarrow> e1))"

definition observeSession :: "observe_io \<Rightarrow> gotime \<Rightarrow> string \<Rightarrow> Executor \<Rightarrow> Executor option" where
  "observeSession io now ident e =
    (case getSession ident e of
       None \<Rightarrow> Some e
     | Some r \<Rightarrow> map_option (\<lambda>(x, _). putBoth ident x e) (observeRelease (ex_cfg e) now io (r, ex_db e)))"

text \<open>The tick of \<^verbatim>\<open>deadlines\<close>: sessions past their deadline are stopped; once a minute receipts are dropped.\<close>

definition stopExpired :: "(string \<Rightarrow> save_io) \<Rightarrow> gotime \<Rightarrow> Executor \<Rightarrow> Executor" where
  "stopExpired io now e = fold (\<lambda>ident e1.
     (case getSession ident e1 of
        None \<Rightarrow> e1
      | Some r \<Rightarrow>
         if xs_Stopping (rt_session r) = None \<and> \<not> now < xs_Deadline (rt_session r) \<and> \<not> sessionReleased (rt_session r)
         then snd (stopSession (io ident) now ''deadline'' ident e1) else e1)) (map fst (ex_sessions e)) e"

text \<open>
  The statement of the retention: \<open>fmt\<close> formats an instant as \<^verbatim>\<open>time.RFC3339Nano\<close>, and the texts are compared by their
  bytes as the database does; a receipt without an observation is never selected.
\<close>

fun textLess :: "string \<Rightarrow> string \<Rightarrow> bool" where
  "textLess _ [] = False"
| "textLess [] (_ # _) = True"
| "textLess (a # s) (b # u) = (if a = b then textLess s u else (of_char a :: nat) < of_char b)"

fun dropFirst :: "nat \<Rightarrow> ('a \<Rightarrow> bool) \<Rightarrow> 'a list \<Rightarrow> 'a list" where
  "dropFirst n P [] = []"
| "dropFirst n P (x # xs) = (if 0 < n \<and> P x then dropFirst (n - 1) P xs else x # dropFirst n P xs)"

definition expiredReceipt :: "(gotime \<Rightarrow> string) \<Rightarrow> gotime \<Rightarrow> ExecSession \<Rightarrow> bool" where
  "expiredReceipt fmt now s \<longleftrightarrow> nr_State (xs_Resources s) = ''released'' \<and>
     (case nr_Observed (xs_Resources s) of Some t \<Rightarrow> textLess (fmt t) (fmt (now - 30 * 24 * hour)) | None \<Rightarrow> False)"

definition dropReceipts :: "(gotime \<Rightarrow> string) \<Rightarrow> goerr option \<Rightarrow> gotime \<Rightarrow> ExecSession list \<Rightarrow> ExecSession list" where
  "dropReceipts fmt err now rows = (if err \<noteq> None then rows else dropFirst 128 (expiredReceipt fmt now) rows)"

definition retention :: "(gotime \<Rightarrow> string) \<Rightarrow> goerr option \<Rightarrow> gotime \<Rightarrow> Executor \<Rightarrow> Executor" where
  "retention fmt err now e = e\<lparr>ex_sessions := filter (\<lambda>(k, r). \<not> (sessionReleased (rt_session r) \<and> \<not> rt_monitoring r)) (ex_sessions e),
     ex_db := dropReceipts fmt err now (ex_db e)\<rparr>"

definition deadlines :: "(string \<Rightarrow> save_io) \<Rightarrow> (gotime \<Rightarrow> string) \<Rightarrow> goerr option \<Rightarrow> bool \<Rightarrow> gotime \<Rightarrow> Executor \<Rightarrow> Executor" where
  "deadlines io fmt err minutePassed now e =
    (let e1 = stopExpired io now e in if minutePassed then retention fmt err now e1 else e1)"

text \<open>The condition on which the loop of \<^verbatim>\<open>Shutdown\<close> goes on waiting.\<close>

definition shutdownPending :: "Executor \<Rightarrow> bool" where
  "shutdownPending e = list_ex (\<lambda>(k, r). \<not> sessionReleased (rt_session r)) (ex_sessions e)"

definition shutdown :: "(string \<Rightarrow> save_io) \<Rightarrow> gotime \<Rightarrow> Executor \<Rightarrow> Executor" where
  "shutdown io now e = fold (\<lambda>ident e1. snd (stopSession (io ident) now ''executor_shutdown'' ident e1))
     (map fst (ex_sessions e)) (e\<lparr>ex_closing := True\<rparr>)"

text \<open>Recovery of one stored session; \<open>opened\<close> is the outcome of opening its group.\<close>

definition recoverSession :: "save_io \<Rightarrow> gotime \<Rightarrow> nat res \<Rightarrow> ExecSession \<Rightarrow> Executor \<Rightarrow> goerr option \<times> Executor" where
  "recoverSession io now opened s e =
    (let r = newRuntime s; e0 = putSession (xs_ID s) r e;
         blocking = (\<lambda>code message. (None, putBoth (xs_ID s) (block (sv_block io) now code message (r, ex_db e)) e0));
         releasing = (\<lambda>confirmation. case released io now confirmation (r, ex_db e) of (err, x) \<Rightarrow> (err, putBoth (xs_ID s) x e0)) in
     if xs_ExecutorInstance s \<noteq> ex_instance e \<or> xs_Group s \<noteq> groupPath (ex_groups e) (xs_ID s)
     then blocking ''executor_identity'' (''Stored session does not match this executor'' @ [CHR 0x27] @ ''s resource boundary'')
     else if xs_BootID s \<noteq> ex_boot e then releasing ''host_restarted''
     else (case opened of
        Inl err \<Rightarrow>
          if isNotExist err \<and> xs_Invocation s \<noteq> ex_invocation e then releasing ''previous_invocation_cgroup_removed''
          else blocking ''executor_identity'' ''Session cgroup identity cannot be confirmed''
      | Inr inode \<Rightarrow>
          if xs_GroupInode s = 0 \<or> inode \<noteq> xs_GroupInode s
          then blocking ''executor_identity'' ''Session cgroup identity cannot be confirmed''
          else stopSession io now ''executor_restarted'' (xs_ID s) (putSession (xs_ID s) (r\<lparr>rt_group := Some inode\<rparr>) e)))"

fun recoverAll :: "(string \<Rightarrow> save_io) \<Rightarrow> gotime \<Rightarrow> (string \<Rightarrow> nat res) \<Rightarrow> ExecSession list \<Rightarrow> Executor \<Rightarrow> goerr option \<times> Executor" where
  "recoverAll io now opened [] e = (None, e)"
| "recoverAll io now opened (s # ss) e =
    (case recoverSession (io (xs_ID s)) now (opened (xs_Group s)) s e of
       (Some err, e1) \<Rightarrow> (Some err, e1)
     | (None, e1) \<Rightarrow> recoverAll io now opened ss e1)"

definition recoverExecutor :: "(string \<Rightarrow> save_io) \<Rightarrow> gotime \<Rightarrow> (string \<Rightarrow> nat res) \<Rightarrow> Executor \<Rightarrow> goerr option \<times> Executor" where
  "recoverExecutor io now opened e = recoverAll io now opened (filter (\<lambda>s. nr_State (xs_Resources s) \<noteq> ''released'') (ex_db e)) e"

section \<open>The executor and the kernel\<close>

text \<open>
  The control groups of the kernel: for each directory its inode and the number of processes in it and below.
  Processes fork and exit on their own, and only an empty group can be removed.
\<close>

type_synonym kernel = "string \<Rightarrow> (nat \<times> nat) option"

record ExSys =
  x_up :: bool
  x_ex :: Executor
  x_kernel :: kernel

text \<open>What opening a group and reading its events can give in a state of the kernel.\<close>

definition honestOpen :: "kernel \<Rightarrow> string \<Rightarrow> nat res \<Rightarrow> bool" where
  "honestOpen ker path result =
    (case result of
       Inr inode \<Rightarrow> (case ker path of Some (i, _) \<Rightarrow> i = inode | None \<Rightarrow> False)
     | Inl err \<Rightarrow> isNotExist err \<longrightarrow> ker path = None)"

definition honestLive :: "kernel \<Rightarrow> runtimeSession \<Rightarrow> bool res \<Rightarrow> bool" where
  "honestLive ker r result =
    (case result of
       Inl _ \<Rightarrow> True
     | Inr live \<Rightarrow> (case ker (xs_Group (rt_session r)) of Some (i, n) \<Rightarrow> rt_group r = Some i \<and> live = (n > 0) | None \<Rightarrow> False))"

text \<open>What the steps of \<^verbatim>\<open>create\<close> leave in the kernel.\<close>

definition kernelAfterCreate :: "create_io \<Rightarrow> string \<Rightarrow> kernel \<Rightarrow> kernel" where
  "kernelAfterCreate io path ker =
    (if cr_mkdir io = None then (case cr_open io of Inr inode \<Rightarrow> ker(path \<mapsto> (inode, 0)) | Inl err \<Rightarrow> if isNotExist err then ker else ker(path \<mapsto> (0, 0))) else ker)"

definition creates :: "string \<Rightarrow> ExecRequest \<Rightarrow> call_io \<Rightarrow> string \<Rightarrow> gotime \<Rightarrow> Executor \<Rightarrow> bool" where
  "creates method a io ident now e \<longleftrightarrow> method = ''create'' \<and> \<not> hasRow ident (ex_db e) \<and> hasRow ident (ex_db (snd (executorCall io now ident method a e)))"

text \<open>One step of the kernel, of the machine, or of the executor on its own.\<close>

inductive exOwn :: "ExSys \<Rightarrow> ExSys \<Rightarrow> bool" where
  fork: "x_kernel x p = Some (i, Suc n) \<Longrightarrow> exOwn x (x\<lparr>x_kernel := (x_kernel x)(p \<mapsto> (i, Suc (Suc n)))\<rparr>)"
| exits: "x_kernel x p = Some (i, Suc n) \<Longrightarrow> exOwn x (x\<lparr>x_kernel := (x_kernel x)(p \<mapsto> (i, n))\<rparr>)"
| rmdir: "x_kernel x p = Some (i, 0) \<Longrightarrow> exOwn x (x\<lparr>x_kernel := (x_kernel x)(p := None)\<rparr>)"
| crash: "exOwn x (x\<lparr>x_up := False\<rparr>)"
| reboot: "exOwn x (x\<lparr>x_up := False, x_ex := (x_ex x)\<lparr>ex_boot := boot\<rparr>, x_kernel := (\<lambda>_. None)\<rparr>)"
| start: "\<lbrakk>\<not> x_up x; \<And>p. honestOpen (x_kernel x) p (opened p);
    recoverExecutor io now opened ((x_ex x)\<lparr>ex_invocation := invocation, ex_groups := groups, ex_cfg := cfg, ex_sessions := [], ex_closing := False\<rparr>) = (err, e)\<rbrakk> \<Longrightarrow>
    exOwn x (x\<lparr>x_up := (err = None), x_ex := e\<rparr>)"
| refuse: "\<lbrakk>x_up x; getSession ident (x_ex x) = Some r; rt_listener r; \<not> admits r (x_ex x)\<rbrakk> \<Longrightarrow>
    exOwn x (x\<lparr>x_ex := acceptDaemon io now err ident (x_ex x)\<rparr>)"
| daemonFails: "\<lbrakk>x_up x; getSession ident (x_ex x) = Some r; rt_listener r; err \<noteq> None\<rbrakk> \<Longrightarrow>
    exOwn x (x\<lparr>x_ex := acceptDaemon io now err ident (x_ex x)\<rparr>)"
| daemonStarts: "\<lbrakk>x_up x; getSession ident (x_ex x) = Some r; rt_listener r; admits r (x_ex x);
    x_kernel x (xs_Group (rt_session r)) = Some (i, n); rt_group r = Some i\<rbrakk> \<Longrightarrow>
    exOwn x (x\<lparr>x_ex := acceptDaemon io now None ident (x_ex x), x_kernel := (x_kernel x)(xs_Group (rt_session r) \<mapsto> (i, Suc n))\<rparr>)"
| daemonEnds: "\<lbrakk>x_up x; getSession ident (x_ex x) = Some r; 0 < rt_children r\<rbrakk> \<Longrightarrow>
    exOwn x (x\<lparr>x_ex := daemonExit io now waitErr ident (x_ex x)\<rparr>)"
| observe: "\<lbrakk>x_up x; getSession ident (x_ex x) = Some r; rt_monitoring r; honestLive (x_kernel x) r (ob_live io);
    observeSession io now ident (x_ex x) = Some e\<rbrakk> \<Longrightarrow> exOwn x (x\<lparr>x_ex := e\<rparr>)"
| tick: "x_up x \<Longrightarrow> exOwn x (x\<lparr>x_ex := deadlines ios fmt err minutePassed now (x_ex x)\<rparr>)"
| shut: "x_up x \<Longrightarrow> exOwn x (x\<lparr>x_ex := shutdown ios now (x_ex x)\<rparr>)"

text \<open>A call with its reply.  The identifier drawn is new, and so is the control group named after it.\<close>

inductive exCall :: "ExSys \<Rightarrow> string \<Rightarrow> ExecRequest \<Rightarrow> ExecSession res \<Rightarrow> ExSys \<Rightarrow> bool" where
  exCallI: "\<lbrakk>x_up x; IDPattern ident; \<not> hasRow ident (ex_db (x_ex x)); getSession ident (x_ex x) = None;
    cr_mkdir (cl_create io) = None \<longrightarrow> x_kernel x (groupPath (ex_groups (x_ex x)) ident) = None;
    executorCall io now ident verb a (x_ex x) = (reply, e)\<rbrakk> \<Longrightarrow>
    exCall x verb a reply (x\<lparr>x_ex := e, x_kernel := (if creates verb a io ident now (x_ex x)
      then kernelAfterCreate (cl_create io) (groupPath (ex_groups (x_ex x)) ident) (x_kernel x) else x_kernel x)\<rparr>)"

inductive exStep :: "ExSys \<Rightarrow> ExSys \<Rightarrow> bool" where
  own: "exOwn x y \<Longrightarrow> exStep x y"
| call: "exCall x verb a reply y \<Longrightarrow> exStep x y"

definition exStart :: "ExSys \<Rightarrow> bool" where
  "exStart x \<longleftrightarrow> \<not> x_up x \<and> ex_db (x_ex x) = [] \<and> x_kernel x = (\<lambda>_. None)"

end
