(* ===== verification/Worker.thy ===== *)
theory Worker
  imports NixExecutor Narinfo
begin

text \<open>
  The unprivileged worker that runs one Nix job at a time, \<^verbatim>\<open>internal/worker\<close>: its jobs and their store
  (\<^verbatim>\<open>repository.go\<close>), admission, the phases of \<^verbatim>\<open>run\<close>, the client processes, the release of resources
  (\<^verbatim>\<open>lifecycle.go\<close>), evidence (\<^verbatim>\<open>evidence.go\<close>), handoff and retention (\<^verbatim>\<open>handoff.go\<close>, \<^verbatim>\<open>maintenance.go\<close>).

  Every section under \<^verbatim>\<open>w.mu\<close> is one function of the job and the worker; outcomes of system calls, of the store and of
  the executor are arguments.  A job always has an execution record (it is created with one), so \<^verbatim>\<open>Execution\<close> is no option.
\<close>

section \<open>Data\<close>

record WRequest =
  wr_UploadID :: string
  wr_InstanceID :: string
  wr_ManifestDigest :: string
  wr_Cursor :: int
  wr_TaskID :: string
  wr_Derivation :: string
  wr_System :: string
  wr_Cache :: string
  wr_TimeoutSeconds :: int
  wr_Offset :: int
  wr_Deadline :: "gotime option"

record WFile =
  wf_SHA256 :: string
  wf_ID :: string
  wf_Name :: string
  wf_Root :: string
  wf_Relative :: string
  wf_Size :: int

record WSession =
  ws_ClientBoot :: string
  ws_ReleaseStarted :: "gotime option"
  ws_StopReason :: string
  ws_Intent :: bool
  ws_ExecutorInstance :: string
  ws_Executor :: "ExecSession option"
  ws_Launching :: bool
  ws_Client :: "ProcessIdentity option"

record WJob =
  wj_recoverResources :: bool
  wj_observing :: bool
  wj_collecting :: bool
  wj_Session :: WSession
  wj_indexedFiles :: nat
  wj_CopiesReleased :: bool
  wj_HandoffComplete :: bool
  wj_ManifestDigest :: string
  wj_Request :: WRequest
  wj_State :: string
  wj_Cleanup :: string
  wj_Outputs :: "(string \<times> string) list"
  wj_Files :: "WFile list"
  wj_HandoffFinished :: "gotime option"
  wj_Execution :: NixExecution
  wj_Started :: gotime
  wj_Deadline :: gotime

text \<open>
  The worker with its tables: \<open>wk_rows\<close> holds \<^verbatim>\<open>worker_jobs\<close>, \<open>wk_files\<close> holds \<^verbatim>\<open>worker_files\<close> with their sequence
  numbers, \<open>wk_cancel\<close> the tasks with a cancel function and \<open>wk_cancelled\<close> those whose context is cancelled.
\<close>

record Worker =
  wk_closing :: bool
  wk_lastRetention :: gotime
  wk_instance :: string
  wk_rows :: "WJob list"
  wk_files :: "(nat \<times> string \<times> WFile) list"
  wk_jobs :: "(string \<times> WJob) list"
  wk_cancel :: "string list"
  wk_cancelled :: "string list"
  wk_streams :: "string list"
  wk_active :: string

definition zeroSession :: WSession where
  "zeroSession = \<lparr>ws_ClientBoot = [], ws_ReleaseStarted = None, ws_StopReason = [], ws_Intent = False, ws_ExecutorInstance = [],
     ws_Executor = None, ws_Launching = False, ws_Client = None\<rparr>"

definition jobID :: "WJob \<Rightarrow> string" where
  "jobID j = wr_TaskID (wj_Request j)"

definition onSession :: "(WSession \<Rightarrow> WSession) \<Rightarrow> WJob \<Rightarrow> WJob" where
  "onSession f j = j\<lparr>wj_Session := f (wj_Session j)\<rparr>"

definition onExecution :: "(NixExecution \<Rightarrow> NixExecution) \<Rightarrow> WJob \<Rightarrow> WJob" where
  "onExecution f j = j\<lparr>wj_Execution := f (wj_Execution j)\<rparr>"

definition onResources :: "(NixResources \<Rightarrow> NixResources) \<Rightarrow> WJob \<Rightarrow> WJob" where
  "onResources f = onExecution (\<lambda>x. x\<lparr>nx_Resources := f (nx_Resources x)\<rparr>)"

definition onEvidence :: "(NixEvidence \<Rightarrow> NixEvidence) \<Rightarrow> WJob \<Rightarrow> WJob" where
  "onEvidence f = onExecution (\<lambda>x. x\<lparr>nx_Evidence := f (nx_Evidence x)\<rparr>)"

definition resourcesOf :: "WJob \<Rightarrow> NixResources" where
  "resourcesOf j = nx_Resources (wj_Execution j)"

definition evidenceOf :: "WJob \<Rightarrow> NixEvidence" where
  "evidenceOf j = nx_Evidence (wj_Execution j)"

section \<open>The store\<close>

text \<open>The columns of a job: the runtime flags, the files and the capability of the cache are not stored.\<close>

definition rowOf :: "WJob \<Rightarrow> WJob" where
  "rowOf j = j\<lparr>wj_recoverResources := False, wj_observing := False, wj_collecting := False, wj_indexedFiles := 0, wj_Files := [],
     wj_Request := (wj_Request j)\<lparr>wr_Cache := []\<rparr>\<rparr>"

definition nextSequence :: "(nat \<times> string \<times> WFile) list \<Rightarrow> nat" where
  "nextSequence files = Suc (foldr (\<lambda>(n, _) m. max n m) files 0)"

definition insertFile :: "string \<Rightarrow> WFile \<Rightarrow> (nat \<times> string \<times> WFile) list \<Rightarrow> (nat \<times> string \<times> WFile) list" where
  "insertFile task f files = (if list_ex (\<lambda>(_, _, g). wf_ID g = wf_ID f) files then files else files @ [(nextSequence files, task, f)])"

definition findRow :: "string \<Rightarrow> Worker \<Rightarrow> WJob option" where
  "findRow task w = List.find (\<lambda>r. jobID r = task) (wk_rows w)"

text \<open>\<^verbatim>\<open>ON CONFLICT(id) DO UPDATE\<close>, which leaves the column \<^verbatim>\<open>started\<close>.\<close>

definition upsertRow :: "WJob \<Rightarrow> WJob list \<Rightarrow> WJob list" where
  "upsertRow row rows = (if list_ex (\<lambda>r. jobID r = jobID row) rows
     then map (\<lambda>r. if jobID r = jobID row then row\<lparr>wj_Started := wj_Started r\<rparr> else r) rows else rows @ [row])"

definition saveJob :: "goerr option \<Rightarrow> WJob \<times> Worker \<Rightarrow> goerr option \<times> WJob \<times> Worker" where
  "saveJob err = (\<lambda>(j, w). case err of
       Some e \<Rightarrow> (Some e, j, w)
     | None \<Rightarrow> (None, j\<lparr>wj_indexedFiles := length (wj_Files j)\<rparr>,
         w\<lparr>wk_rows := upsertRow (rowOf j) (wk_rows w),
           wk_files := fold (insertFile (jobID j)) (drop (min (wj_indexedFiles j) (length (wj_Files j))) (wj_Files j)) (wk_files w)\<rparr>))"

definition storedFiles :: "string \<Rightarrow> Worker \<Rightarrow> WFile list" where
  "storedFiles task w = map (\<lambda>(_, _, f). f) (filter (\<lambda>(_, t, _). t = task) (wk_files w))"

definition loadedJob :: "Worker \<Rightarrow> WJob \<Rightarrow> WJob" where
  "loadedJob w r = (let files = (if wj_CopiesReleased r then [] else storedFiles (jobID r) w) in
     r\<lparr>wj_Files := files, wj_indexedFiles := length files\<rparr>)"

definition loadJob :: "goerr option \<Rightarrow> string \<Rightarrow> Worker \<Rightarrow> WJob res" where
  "loadJob err task w = (case err of Some e \<Rightarrow> Inl e | None \<Rightarrow>
     (case findRow task w of None \<Rightarrow> Inl errNoRows | Some r \<Rightarrow> Inr (loadedJob w r)))"

definition isActiveRow :: "WJob \<Rightarrow> bool" where
  "isActiveRow r \<longleftrightarrow> wj_Cleanup r \<noteq> ''complete'' \<or> \<not> wj_CopiesReleased r"

definition activeJobs :: "goerr option \<Rightarrow> Worker \<Rightarrow> WJob list res" where
  "activeJobs err w = (case err of Some e \<Rightarrow> Inl e | None \<Rightarrow> Inr (map (loadedJob w) (filter isActiveRow (wk_rows w))))"

text \<open>A page of the file table.\<close>

record FilePage =
  fp_items :: "WFile list"
  fp_next_cursor :: int
  fp_eof :: bool

definition filePage :: "string \<Rightarrow> int \<Rightarrow> Worker \<Rightarrow> FilePage" where
  "filePage task after w =
    (let rows = filter (\<lambda>(n, t, _). t = task \<and> int n > after) (wk_files w); page = take 100 rows in
     \<lparr>fp_items = map (\<lambda>(_, _, f). f) page, fp_next_cursor = (if page = [] then after else int (fst (last page))), fp_eof = (length rows \<le> 100)\<rparr>)"

section \<open>Jobs in memory\<close>

definition getJob :: "string \<Rightarrow> Worker \<Rightarrow> WJob option" where
  "getJob task w = map_of (wk_jobs w) task"

definition enterJob :: "string \<Rightarrow> WJob \<Rightarrow> Worker \<Rightarrow> Worker" where
  "enterJob task j w = w\<lparr>wk_jobs := (if getJob task w = None then wk_jobs w @ [(task, j)]
     else map (\<lambda>(k, v). if k = task then (k, j) else (k, v)) (wk_jobs w))\<rparr>"

text \<open>Changes through a pointer to a job show in the memory as long as the job is there.\<close>

definition putJob :: "WJob \<times> Worker \<Rightarrow> Worker" where
  "putJob = (\<lambda>(j, w). if getJob (jobID j) w = None then w else enterJob (jobID j) j w)"

definition cancelContext :: "string \<Rightarrow> Worker \<Rightarrow> Worker" where
  "cancelContext task w = (if task \<in> set (wk_cancel w) \<and> task \<notin> set (wk_cancelled w) then w\<lparr>wk_cancelled := task # wk_cancelled w\<rparr> else w)"

definition jobLifecycleError :: "gotime \<Rightarrow> string \<Rightarrow> goerr \<Rightarrow> WJob \<Rightarrow> werror" where
  "jobLifecycleError now stage err j = WError (stage @ ''_blocked'') (''Nix '' @ stage @ '' requires recovery'') ''execution'' ''reconcile''
     ''Inspect the recorded cause and recover this job after resolving it''
     [(''stage'', GStr stage), (''task_id'', GStr (jobID j)), (''session_id'', GStr (nr_SessionID (resourcesOf j))), (''cause'', GErr (LifecycleCause err)),
      (''required_actor'', GStr ''administrator''), (''observed'', GTime now)]"

section \<open>Evidence\<close>

text \<open>
  The first section of \<^verbatim>\<open>collectLocked\<close>; the second result says that the goroutine was started.
\<close>

definition collectLocked :: "goerr option \<Rightarrow> gotime \<Rightarrow> WJob \<times> Worker \<Rightarrow> (WJob \<times> Worker) \<times> bool" where
  "collectLocked err now = (\<lambda>(j, w).
     let e = evidenceOf j in
     if wk_closing w \<or> wj_collecting j \<or> wj_Cleanup j \<noteq> ''complete'' \<or> ne_State e \<noteq> ''pending'' \<or>
        (case ne_NextAttempt e of Some t \<Rightarrow> now < t | None \<Rightarrow> False) then ((j, w), False)
     else if wj_ManifestDigest j \<noteq> [] then
       (snd (saveJob err (onEvidence (\<lambda>x. x\<lparr>ne_State := ''transferring'', ne_Error := None\<rparr>) j, w)), False)
     else
       let j1 = onEvidence (\<lambda>x. x\<lparr>ne_State := ''collecting'', ne_Attempts := ne_Attempts x + 1, ne_Error := None, ne_Updated := Some now,
                  ne_NextAttempt := None\<rparr>) (j\<lparr>wj_collecting := True\<rparr>) in
       (case saveJob err (j1, w) of
          (None, j2, w2) \<Rightarrow> ((j2, w2), True)
        | (Some x, j2, w2) \<Rightarrow> ((onEvidence (\<lambda>v. v\<lparr>ne_State := ''blocked'', ne_Error := Some (jobLifecycleError now ''evidence'' x j2)\<rparr>)
             (j2\<lparr>wj_collecting := False\<rparr>), w2), False)))"

record collect_io =
  co_index :: "WFile list res"
  co_save :: "goerr option"
  co_again :: "goerr option"

text \<open>
  The last section of the goroutine, after the log was synced and the outputs were indexed; \<open>digest\<close> is
  \<^verbatim>\<open>wire.ManifestDigest\<close>.
\<close>

definition collectEnd :: "(WFile list \<Rightarrow> string) \<Rightarrow> collect_io \<Rightarrow> gotime \<Rightarrow> WJob \<times> Worker \<Rightarrow> WJob \<times> Worker" where
  "collectEnd digest io now = (\<lambda>(j, w).
     let j1 = onEvidence (\<lambda>x. x\<lparr>ne_Updated := Some now\<rparr>) (j\<lparr>wj_collecting := False\<rparr>);
         (err, j2, w2) = (case co_index io of
            Inl e \<Rightarrow> (Some e, j1, w)
          | Inr files \<Rightarrow> saveJob (co_save io) (onEvidence (\<lambda>x. x\<lparr>ne_State := ''transferring''\<rparr>) (j1\<lparr>wj_Files := files, wj_ManifestDigest := digest files\<rparr>), w)) in
     case err of
       None \<Rightarrow> (j2, w2)
     | Some e \<Rightarrow>
        let j3 = onEvidence (\<lambda>x. x\<lparr>ne_State := ''blocked'', ne_Error := Some (jobLifecycleError now ''evidence'' e j2)\<rparr>) j2;
            j4 = (if TransientEvidence e \<and> ne_Attempts (evidenceOf j3) < 3
                  then onEvidence (\<lambda>x. x\<lparr>ne_State := ''pending'', ne_NextAttempt := Some (now + (if ne_Attempts x = 2 then 5 * second else second))\<rparr>) j3
                  else j3) in
        snd (saveJob (co_again io) (j4, w2)))"

section \<open>Client processes\<close>

text \<open>
  \<^verbatim>\<open>clientIdentity\<close>: what the boot identifier and \<^verbatim>\<open>/proc/PID/stat\<close> say of a process; \<open>hash\<close> is the hexadecimal
  SHA-256 sum.
\<close>

fun afterLastParen :: "string \<Rightarrow> string option" where
  "afterLastParen [] = None"
| "afterLastParen (c # s) = (case afterLastParen s of Some r \<Rightarrow> Some r
     | None \<Rightarrow> if c = CHR 0x29 \<and> s \<noteq> [] \<and> hd s = CHR 0x20 then Some (tl s) else None)"

definition clientIdentity :: "(string \<Rightarrow> string) \<Rightarrow> string res \<Rightarrow> string res \<Rightarrow> int \<Rightarrow> (ProcessIdentity \<times> bool) res" where
  "clientIdentity hash boot stat pid =
    (case (boot, stat) of
       (Inl e, _) \<Rightarrow> Inl e
     | (Inr _, Inl e) \<Rightarrow> Inl e
     | (Inr b, Inr text) \<Rightarrow>
        (case afterLastParen text of
           None \<Rightarrow> Inl (EText ''process identity is unavailable'')
         | Some rest \<Rightarrow>
            let fields = Fields rest in
            if length fields < 20 then Inl (EText ''process identity is incomplete'')
            else Inr (\<lparr>pi_PID = pid, pi_Start = hash (b @ fields ! 19)\<rparr>, fields ! 0 \<noteq> ''Z'' \<and> fields ! 0 \<noteq> ''X'')))"

text \<open>\<^verbatim>\<open>releaseClient\<close>: the outcome of opening the process, what its identity is, and the outcome of the signal.\<close>

record release_io =
  ri_pidfd :: "goerr option"
  ri_identity :: "(ProcessIdentity \<times> bool) res"
  ri_kill :: "goerr option"

definition isESRCH :: "goerr \<Rightarrow> bool" where
  "isESRCH err \<longleftrightarrow> (case asErrno err of Some (n, _) \<Rightarrow> n = 3 | None \<Rightarrow> False)"

definition releaseClient :: "release_io \<Rightarrow> ProcessIdentity option \<Rightarrow> bool \<times> goerr option" where
  "releaseClient io ident =
    (case ident of
       None \<Rightarrow> (True, None)
     | Some i \<Rightarrow>
        (case ri_pidfd io of
           Some e \<Rightarrow> if isESRCH e then (True, None) else (False, Some e)
         | None \<Rightarrow>
            (case ri_identity io of
               Inl e \<Rightarrow> if isNotExist e then (True, None) else (False, Some e)
             | Inr (current, alive) \<Rightarrow> if current \<noteq> i \<or> \<not> alive then (True, None) else (False, ri_kill io))))"

text \<open>
  The section of \<^verbatim>\<open>runClient\<close> that starts the process.  A result \<open>Inl\<close> is the error with which it returns at once; otherwise
  an error so far, and the process when there is one.
\<close>

record launch_io =
  la_boot :: "string res"
  la_save1 :: "goerr option"
  la_start :: "ProcessIdentity res"
  la_inspect :: "ProcessIdentity res"
  la_save2 :: "goerr option"

definition firstErr :: "goerr option \<Rightarrow> goerr option \<Rightarrow> goerr option" where
  "firstErr a b = (if a = None then b else a)"

definition launchClient :: "launch_io \<Rightarrow> WJob \<times> Worker \<Rightarrow> (goerr + goerr option \<times> ProcessIdentity option) \<times> WJob \<times> Worker" where
  "launchClient io = (\<lambda>(j, w).
     case la_boot io of
       Inl e \<Rightarrow> (Inl e, j, w)
     | Inr boot \<Rightarrow>
        (case saveJob (la_save1 io) (onSession (\<lambda>s. s\<lparr>ws_ClientBoot := boot, ws_Launching := True\<rparr>) j, w) of
           (Some e, j1, w1) \<Rightarrow> (Inl e, onSession (\<lambda>s. s\<lparr>ws_Launching := False\<rparr>) j1, w1)
         | (None, j1, w1) \<Rightarrow>
            (case la_start io of
               Inl e \<Rightarrow> (case saveJob (la_save2 io) (onSession (\<lambda>s. s\<lparr>ws_Launching := False\<rparr>) j1, w1) of (_, x) \<Rightarrow> (Inr (Some e, None), x))
             | Inr process \<Rightarrow>
                (case la_inspect io of
                   Inl e \<Rightarrow> (case saveJob (la_save2 io) (j1, w1) of (_, x) \<Rightarrow> (Inr (Some e, Some process), x))
                 | Inr ident \<Rightarrow>
                    (case saveJob (la_save2 io) (onSession (\<lambda>s. s\<lparr>ws_Client := Some ident, ws_Launching := False\<rparr>) j1, w1) of
                       (err, x) \<Rightarrow> (Inr (err, Some process), x))))))"

text \<open>The section after the wait.\<close>

definition reapedClient :: "goerr option \<Rightarrow> goerr option \<Rightarrow> WJob \<times> Worker \<Rightarrow> goerr option \<times> WJob \<times> Worker" where
  "reapedClient err saveErr = (\<lambda>(j, w).
     case saveJob saveErr (onSession (\<lambda>s. s\<lparr>ws_Client := None, ws_Launching := False\<rparr>) j, w) of (saved, x) \<Rightarrow> (firstErr err saved, x))"

text \<open>What a wait status says, \<^verbatim>\<open>processResult\<close>.\<close>

datatype waitStatus = WExited int | WSignaled int string bool | WOther

definition processResult :: "string \<Rightarrow> waitStatus option \<Rightarrow> NixProcessResult" where
  "processResult stage status =
    (let v = \<lparr>np_Stage = stage, np_Source = ''unconfirmed'', np_Exited = False, np_ExitCode = None, np_ExitSignal = [], np_CoreDumped = False\<rparr> in
     case status of
       None \<Rightarrow> v
     | Some (WExited n) \<Rightarrow> v\<lparr>np_Source := ''nix_client_wait'', np_Exited := True, np_ExitCode := Some n\<rparr>
     | Some (WSignaled n name core) \<Rightarrow> v\<lparr>np_Source := ''nix_client_wait'', np_Exited := True,
         np_ExitSignal := (if name = [] then ''SIG'' @ showInt n else name), np_CoreDumped := core\<rparr>
     | Some WOther \<Rightarrow> v\<lparr>np_Source := ''nix_client_wait''\<rparr>)"

definition recordProcess :: "NixProcessResult \<Rightarrow> WJob \<Rightarrow> WJob" where
  "recordProcess v = onExecution (\<lambda>x. x\<lparr>nx_Process := Some v\<rparr>)"

section \<open>Admission and stages of a run\<close>

definition sessionRequest :: "string \<Rightarrow> WJob \<Rightarrow> Worker \<Rightarrow> ExecRequest" where
  "sessionRequest reason j w = \<lparr>xq_WorkerInstance = wk_instance w, xq_TaskID = jobID j,
     xq_SessionID = (case ws_Executor (wj_Session j) of Some s \<Rightarrow> xs_ID s | None \<Rightarrow> []), xq_Deadline = None, xq_Reason = reason\<rparr>"

text \<open>
  \<^verbatim>\<open>admit\<close>: the section before the call to the executor (a description of the executor, with whether its version agrees),
  and the section after it.
\<close>

definition admitBegin :: "(ExecDescription \<times> bool) res \<Rightarrow> goerr option \<Rightarrow> WJob \<times> Worker \<Rightarrow> ExecRequest res \<times> WJob \<times> Worker" where
  "admitBegin described err = (\<lambda>(j, w).
     case described of
       Inl e \<Rightarrow> (Inl e, j, w)
     | Inr (d, sameVersion) \<Rightarrow>
        if \<not> xd_Ready d \<or> \<not> sameVersion then (Inl (Fail ''executor_unavailable'' ''Executor is not ready or uses a different protocol''), j, w)
        else if jobID j \<in> set (wk_cancelled w) then (Inl ECanceled, j, w)
        else
          let j1 = onResources (\<lambda>x. x\<lparr>nr_State := ''owned''\<rparr>) (onSession (\<lambda>s. s\<lparr>ws_Intent := True, ws_ExecutorInstance := xd_InstanceID d\<rparr>) j);
              a = (sessionRequest [] j1 w)\<lparr>xq_Deadline := Some (wj_Deadline j1)\<rparr> in
          (case saveJob err (j1, w) of
             (Some e, x) \<Rightarrow> (Inl e, x)
           | (None, x) \<Rightarrow> (Inr a, x)))"

definition admitEnd :: "ExecSession \<Rightarrow> goerr option \<Rightarrow> WJob \<times> Worker \<Rightarrow> goerr option \<times> WJob \<times> Worker" where
  "admitEnd session err = (\<lambda>(j, w).
     if xs_ExecutorInstance session \<noteq> ws_ExecutorInstance (wj_Session j)
     then (Some (Fail ''executor_identity'' ''Executor storage changed during session admission''), j, w)
     else
       (case saveJob err (onResources (\<lambda>_. xs_Resources session) (onSession (\<lambda>s. s\<lparr>ws_Executor := Some session\<rparr>) j), w) of
          (Some e, x) \<Rightarrow> (Some e, x)
        | (None, x) \<Rightarrow> (if nr_State (xs_Resources session) \<noteq> ''owned'' then Some (Fail ''invalid_state'' ''Session admission was closed'') else None, x)))"

definition enterStage :: "string \<Rightarrow> goerr option \<Rightarrow> WJob \<times> Worker \<Rightarrow> goerr option \<times> WJob \<times> Worker" where
  "enterStage stage err = (\<lambda>(j, w).
     let j1 = onExecution (\<lambda>x. x\<lparr>nx_Stage := stage, nx_Process := None\<rparr>) j;
         j2 = (if stage = ''validate'' then (onExecution (\<lambda>x. x\<lparr>nx_Imported := True\<rparr>) j1)\<lparr>wj_Request := (wj_Request j1)\<lparr>wr_Cache := []\<rparr>\<rparr> else j1) in
     saveJob err (j2, w))"

definition enterBuild :: "goerr option \<Rightarrow> WJob \<times> Worker \<Rightarrow> goerr option \<times> WJob \<times> Worker" where
  "enterBuild err = (\<lambda>(j, w). saveJob err (onExecution (\<lambda>x. x\<lparr>nx_Stage := ''build'', nx_Process := None\<rparr>) (j\<lparr>wj_State := ''building''\<rparr>), w))"

text \<open>The outputs of the build: every path has to be a store path.\<close>

definition buildOutputs :: "(string \<times> string) list list \<Rightarrow> goerr option \<times> (string \<times> string) list" where
  "buildOutputs results =
    (if list_all (list_all (\<lambda>(_, p). StorePattern p)) results then None else Some (EText ''invalid output root''),
     concat (map (\<lambda>(i, outs). map (\<lambda>(name, p). (showNat i @ ''-'' @ name, p)) (takeWhile (\<lambda>(_, p). StorePattern p) outs)) (enumerate 0 results)))"

definition setOutputs :: "(string \<times> string) list \<Rightarrow> WJob \<Rightarrow> WJob" where
  "setOutputs outs j = j\<lparr>wj_Outputs := outs, wj_Files := []\<rparr>"

section \<open>Observation of resources\<close>

text \<open>\<^verbatim>\<open>observeLocked\<close>; the second result says that the goroutine was started.\<close>

definition observeLocked :: "WJob \<Rightarrow> Worker \<Rightarrow> WJob \<times> bool" where
  "observeLocked j w = (if wk_closing w \<or> wj_observing j \<or> wj_Cleanup j = ''complete'' then (j, False) else (j\<lparr>wj_observing := True\<rparr>, True))"

definition completeJob :: "goerr option \<Rightarrow> gotime \<Rightarrow> goerr option \<Rightarrow> bool \<Rightarrow> WJob \<times> Worker \<Rightarrow> (WJob \<times> Worker) \<times> bool" where
  "completeJob saveErr now err interrupted = (\<lambda>(j, w).
     let j1 = onExecution (\<lambda>x. x\<lparr>nx_Finished := Some now, nx_Error := (case err of Some e \<Rightarrow> Some (Safe e) | None \<Rightarrow> nx_Error x)\<rparr>)
                (j\<lparr>wj_State := (if interrupted then ''interrupted'' else if err \<noteq> None then ''failed'' else ''succeeded''), wj_Cleanup := ''pending''\<rparr>);
         w1 = (cancelContext (jobID j) w)\<lparr>wk_cancel := removeAll (jobID j) (wk_cancel w)\<rparr> in
     case saveJob saveErr (j1, w1) of
       (saved, j2, w2) \<Rightarrow>
         let j3 = (if saved = None then j2
                   else (onExecution (\<lambda>x. x\<lparr>nx_PersistenceError := Some (Safe (Fail ''terminal_write'' ''Nix execution result could not be persisted''))\<rparr>) j2)
                          \<lparr>wj_Cleanup := ''required''\<rparr>);
             (j4, started) = observeLocked j3 w2 in
         ((j4, w2), started))"

text \<open>What \<^verbatim>\<open>reconcileResources\<close> takes from the job before it calls the executor.\<close>

record Recon =
  rc_finished :: bool
  rc_request :: ExecRequest
  rc_intent :: bool
  rc_expected :: string
  rc_client :: "ProcessIdentity option"
  rc_launching :: bool
  rc_clientBoot :: string
  rc_releaseDeadline :: gotime

definition reconcileReason :: "WJob \<Rightarrow> string" where
  "reconcileReason j =
    (if wj_recoverResources j then ''recovery''
     else if ws_StopReason (wj_Session j) \<noteq> [] then ws_StopReason (wj_Session j)
     else if wj_State j = ''interrupted'' then ''worker_restarted''
     else if wj_State j \<noteq> ''succeeded'' then ''failed'' else ''completed'')"

definition reconcileBegin :: "gotime \<Rightarrow> WJob \<times> Worker \<Rightarrow> Recon option \<times> WJob" where
  "reconcileBegin now = (\<lambda>(j, w).
     let finished = (nx_Finished (wj_Execution j) \<noteq> None) in
     if \<not> finished \<and> ws_StopReason (wj_Session j) = [] then (None, j)
     else
       let start = (case ws_ReleaseStarted (wj_Session j) of Some t \<Rightarrow> t | None \<Rightarrow> now);
           j1 = onSession (\<lambda>s. s\<lparr>ws_ReleaseStarted := Some start\<rparr>) j in
       (Some \<lparr>rc_finished = finished, rc_request = sessionRequest (reconcileReason j1) j1 w, rc_intent = ws_Intent (wj_Session j1),
          rc_expected = ws_ExecutorInstance (wj_Session j1), rc_client = ws_Client (wj_Session j1), rc_launching = ws_Launching (wj_Session j1),
          rc_clientBoot = ws_ClientBoot (wj_Session j1), rc_releaseDeadline = start + 5 * minute\<rparr>,
        j1\<lparr>wj_recoverResources := False\<rparr>))"

text \<open>The launch that another boot of the machine has ended, and the reply of the executor.\<close>

definition stillLaunching :: "string option \<Rightarrow> Recon \<Rightarrow> bool" where
  "stillLaunching boot q = (rc_launching q \<and> \<not> (rc_clientBoot q \<noteq> [] \<and> (case boot of Some b \<Rightarrow> b \<noteq> rc_clientBoot q | None \<Rightarrow> False)))"

record Stopped =
  sp_resources :: NixResources
  sp_daemon :: "werror option"
  sp_err :: "goerr option"

definition neverAdmitted :: Stopped where
  "neverAdmitted = \<lparr>sp_resources = (nixResourcesIn ''unallocated'')\<lparr>nr_Confirmation := ''never_admitted''\<rparr>, sp_daemon = None, sp_err = None\<rparr>"

definition stopReply :: "ExecSession res \<Rightarrow> Recon \<Rightarrow> Stopped" where
  "stopReply reply q =
    (if \<not> rc_intent q then neverAdmitted
     else (case reply of
        Inl e \<Rightarrow> \<lparr>sp_resources = nixResourcesIn [], sp_daemon = None, sp_err = Some e\<rparr>
      | Inr s \<Rightarrow> \<lparr>sp_resources = xs_Resources s, sp_daemon = xs_DaemonError s,
           sp_err = (if xs_ExecutorInstance s \<noteq> rc_expected q
             then Some (Fail ''executor_identity'' ''Executor storage identity differs from the admitted session'') else None)\<rparr>))"

text \<open>Whether the client is gone, with the error of finding out.\<close>

definition clientGone :: "release_io \<Rightarrow> bool \<Rightarrow> Stopped \<Rightarrow> Recon \<Rightarrow> bool \<times> goerr option" where
  "clientGone io launching s q =
    (if rc_finished q \<and> \<not> launching then (if sp_err s = None then releaseClient io (rc_client q) else (True, sp_err s)) else (False, sp_err s))"

definition setDetail :: "string \<Rightarrow> gval \<Rightarrow> werror \<Rightarrow> werror" where
  "setDetail k v e = WError (Code e) (Message e) (Category e) (Retry e) (NextAction e) (filter (\<lambda>(k', _). k' \<noteq> k) (Details e) @ [(k, v)])"

definition blockResources :: "gotime \<Rightarrow> goerr \<Rightarrow> WJob \<Rightarrow> WJob" where
  "blockResources now err j = (let j1 = onResources (\<lambda>x. x\<lparr>nr_State := ''blocked''\<rparr>) j in
     onResources (\<lambda>x. x\<lparr>nr_Error := Some (jobLifecycleError now ''resources'' err j1)\<rparr>) j1)"

definition reportResources :: "gotime \<Rightarrow> Stopped \<Rightarrow> bool \<Rightarrow> bool \<times> goerr option \<Rightarrow> Recon \<Rightarrow> WJob \<Rightarrow> WJob" where
  "reportResources now s launching = (\<lambda>(gone, err) q j.
     let j1 = (if err \<noteq> None then j
               else onExecution (\<lambda>x. x\<lparr>nx_Resources := sp_resources s, nx_Error := (case (sp_daemon s, nx_Error x) of
                      (Some d, Some e) \<Rightarrow> Some (setDetail ''executor'' (GErr d) e) | _ \<Rightarrow> nx_Error x)\<rparr>) j);
         deadline = (case nr_ReleaseDeadline (sp_resources s) of Some t \<Rightarrow> t | None \<Rightarrow> rc_releaseDeadline q) in
     if err \<noteq> None \<or> launching \<and> rc_finished q
     then blockResources now (case err of Some e \<Rightarrow> e | None \<Rightarrow> Fail ''client_identity'' ''Worker stopped before persisting the Nix client identity'') j1
     else if \<not> gone then
       let j2 = onResources (\<lambda>x. x\<lparr>nr_State := ''releasing'', nr_Confirmation := []\<rparr>) j1 in
       if now < deadline then j2
       else blockResources now (Fail ''termination_unconfirmed'' ''Nix client exit was not confirmed within the release budget'') j2
     else j1)"

definition reconcileEnd :: "goerr option \<Rightarrow> goerr option \<Rightarrow> gotime \<Rightarrow> Stopped \<Rightarrow> bool \<Rightarrow> bool \<times> goerr option \<Rightarrow> Recon \<Rightarrow> WJob \<times> Worker \<Rightarrow> (WJob \<times> Worker) \<times> bool" where
  "reconcileEnd saveErr collectErr now s launching gone q = (\<lambda>(j, w).
     let j1 = reportResources now s launching gone q j;
         blocked = (nr_State (resourcesOf j1) = ''blocked'');
         complete = (NixResources_Released (resourcesOf j1) \<and> fst gone);
         j2 = (if complete then onSession (\<lambda>x. x\<lparr>ws_Client := None, ws_Launching := False\<rparr>) (j1\<lparr>wj_Cleanup := ''complete''\<rparr>)
               else j1\<lparr>wj_Cleanup := (if blocked then ''required'' else ''pending'')\<rparr>) in
     case saveJob saveErr (j2, w) of
       (Some e, j3, w3) \<Rightarrow> ((blockResources now e (j3\<lparr>wj_Cleanup := ''required''\<rparr>), w3), False)
     | (None, j3, w3) \<Rightarrow>
        if complete then collectLocked collectErr now (j3, if wk_active w3 = jobID j3 then w3\<lparr>wk_active := []\<rparr> else w3)
        else ((j3, w3), False))"

section \<open>Handoff and retention\<close>

text \<open>\<open>digest\<close> is \<^verbatim>\<open>wire.ManifestDigest\<close> of the files, which depends on their identifiers, sizes and sums only.\<close>

definition handoffBegin :: "(WFile list \<Rightarrow> string) \<Rightarrow> goerr option \<Rightarrow> string \<Rightarrow> WJob \<times> Worker \<Rightarrow> goerr option \<times> WJob \<times> Worker" where
  "handoffBegin digest err sent = (\<lambda>(j, w).
     if jobID j \<in> set (wk_streams w) then (Some (Fail ''resource_busy'' ''Evidence transfer is still active''), j, w)
     else if wj_Cleanup j \<noteq> ''complete'' then (Some (Fail ''cleanup_required'' ''Resources must be released before evidence handoff''), j, w)
     else if ne_State (evidenceOf j) \<noteq> ''transferring'' \<and> ne_State (evidenceOf j) \<noteq> ''complete''
     then (Some (Fail ''invalid_state'' ''Evidence manifest is not ready for acknowledgement''), j, w)
     else if wj_HandoffComplete j then
       if wj_ManifestDigest j \<noteq> sent then (Some (Fail ''request_conflict'' ''Handoff manifest changed''), j, w) else (None, j, w)
     else if digest (wj_Files j) \<noteq> sent then (Some (Fail ''evidence_integrity'' ''Handoff digest differs from retained evidence''), j, w)
     else (case saveJob err (j\<lparr>wj_HandoffComplete := True, wj_ManifestDigest := sent\<rparr>, w) of
        (Some e, j1, w1) \<Rightarrow> (Some e, j1\<lparr>wj_HandoffComplete := False\<rparr>, w1)
      | (None, x) \<Rightarrow> (None, x)))"

record handoff_io =
  ho_remove :: "goerr option"
  ho_delete :: "goerr option"
  ho_save :: "goerr option"

definition handoffEnd :: "handoff_io \<Rightarrow> gotime \<Rightarrow> WJob \<times> Worker \<Rightarrow> goerr option \<times> WJob \<times> Worker" where
  "handoffEnd io now = (\<lambda>(j, w).
     case (ho_remove io, ho_delete io) of
       (Some e, _) \<Rightarrow> (Some e, j, w)
     | (None, Some e) \<Rightarrow> (Some e, j, w)
     | (None, None) \<Rightarrow>
        let w1 = w\<lparr>wk_files := filter (\<lambda>(_, t, _). t \<noteq> jobID j) (wk_files w)\<rparr>;
            j1 = onEvidence (\<lambda>x. x\<lparr>ne_State := ''complete'', ne_Error := None\<rparr>)
                   (j\<lparr>wj_Files := [], wj_Outputs := [], wj_CopiesReleased := True,
                     wj_HandoffFinished := (case wj_HandoffFinished j of Some t \<Rightarrow> Some t | None \<Rightarrow> Some now)\<rparr>) in
        saveJob (ho_save io) (j1, w1))"

text \<open>
  Retention: rows whose handoff ended 30 days ago go, 128 at a time; the jobs in memory whose copies are released go; then
  directories without a row are removed (\<open>sweepErr\<close>).
\<close>

definition expiredRow :: "(gotime \<Rightarrow> string) \<Rightarrow> gotime \<Rightarrow> WJob \<Rightarrow> bool" where
  "expiredRow fmt now r \<longleftrightarrow> wj_Cleanup r = ''complete'' \<and> wj_HandoffComplete r \<and> wj_CopiesReleased r \<and>
     (case wj_HandoffFinished r of Some t \<Rightarrow> textLess (fmt t) (fmt (now - 30 * 24 * hour)) | None \<Rightarrow> False)"

definition expireCompleted :: "(gotime \<Rightarrow> string) \<Rightarrow> goerr option \<Rightarrow> goerr option \<Rightarrow> gotime \<Rightarrow> Worker \<Rightarrow> Worker" where
  "expireCompleted fmt deleteErr sweepErr now w =
    (if now - wk_lastRetention w < minute \<or> deleteErr \<noteq> None then w
     else
       let w1 = w\<lparr>wk_rows := dropFirst 128 (expiredRow fmt now) (wk_rows w), wk_jobs := filter (\<lambda>(k, j). \<not> wj_CopiesReleased j) (wk_jobs w)\<rparr> in
       if sweepErr \<noteq> None then w1 else w1\<lparr>wk_lastRetention := now\<rparr>)"

text \<open>Directories that \<^verbatim>\<open>sweepUnreferenced\<close> removes: named like a task, an hour old, without a row.\<close>

definition sweepable :: "gotime \<Rightarrow> Worker \<Rightarrow> string \<times> bool \<times> gotime \<Rightarrow> bool" where
  "sweepable now w = (\<lambda>(name, isDir, modTime). isDir \<and> IDPattern name \<and> \<not> now - modTime < hour \<and> findRow name w = None)"

section \<open>Calls of the controller\<close>

record WView =
  wv_state :: string
  wv_cleanup :: string
  wv_artifact_count :: nat
  wv_handoff_complete :: bool
  wv_execution :: NixExecution

definition public :: "WJob \<Rightarrow> WView" where
  "public j = \<lparr>wv_state = wj_State j, wv_cleanup = wj_Cleanup j, wv_artifact_count = length (wj_Files j), wv_handoff_complete = wj_HandoffComplete j,
     wv_execution = wj_Execution j\<rparr>"

text \<open>The parameters a method admits.\<close>

definition zeroRequest :: WRequest where
  "zeroRequest = \<lparr>wr_UploadID = [], wr_InstanceID = [], wr_ManifestDigest = [], wr_Cursor = 0, wr_TaskID = [], wr_Derivation = [], wr_System = [],
     wr_Cache = [], wr_TimeoutSeconds = 0, wr_Offset = 0, wr_Deadline = None\<rparr>"

definition allowedRequest :: "string \<Rightarrow> WRequest \<Rightarrow> WRequest option" where
  "allowedRequest verb a =
    (let base = zeroRequest\<lparr>wr_TaskID := wr_TaskID a, wr_InstanceID := wr_InstanceID a\<rparr> in
     if verb = ''describe'' then Some zeroRequest
     else if verb = ''start'' then Some (base\<lparr>wr_UploadID := wr_UploadID a, wr_Derivation := wr_Derivation a, wr_System := wr_System a,
       wr_Cache := wr_Cache a, wr_TimeoutSeconds := wr_TimeoutSeconds a\<rparr>)
     else if verb = ''extend'' then Some (base\<lparr>wr_Deadline := wr_Deadline a\<rparr>)
     else if verb = ''log'' then Some (base\<lparr>wr_Offset := wr_Offset a\<rparr>)
     else if verb = ''handoff'' then Some (base\<lparr>wr_ManifestDigest := wr_ManifestDigest a\<rparr>)
     else if verb = ''files'' then Some (base\<lparr>wr_Cursor := wr_Cursor a\<rparr>)
     else if oneOf verb [''status'', ''resources'', ''resources_retry'', ''evidence'', ''evidence_retry'', ''cancel''] then Some base
     else None)"

text \<open>What \<^verbatim>\<open>url.Parse\<close> finds in the cache path of a request.\<close>

record urlParts =
  ul_Scheme :: string
  ul_Host :: string
  ul_Path :: string
  ul_RawQuery :: string
  ul_Fragment :: string

fun hasDotDot :: "string \<Rightarrow> bool" where
  "hasDotDot (a # b # s) = (a = CHR 0x2E \<and> b = CHR 0x2E \<or> hasDotDot (b # s))"
| "hasDotDot _ = False"

definition cachePath :: "urlParts res \<Rightarrow> bool" where
  "cachePath u = (case u of Inl _ \<Rightarrow> False | Inr p \<Rightarrow> ul_Scheme p = [] \<and> ul_Host p = [] \<and> HasPrefix (ul_Path p) ''/files/'' \<and> \<not> hasDotDot (ul_Path p) \<and>
     count_list (ul_Path p) (CHR 0x2F) = 2 \<and> ul_RawQuery p = [] \<and> ul_Fragment p = [])"

definition hostSystem :: "string \<Rightarrow> string" where
  "hostSystem arch = (if arch = ''amd64'' then ''x86_64-linux'' else if arch = ''arm64'' then ''aarch64-linux'' else arch @ ''-linux'')"

definition newJob :: "gotime \<Rightarrow> WRequest \<Rightarrow> WJob" where
  "newJob now a = \<lparr>wj_recoverResources = False, wj_observing = False, wj_collecting = False, wj_Session = zeroSession, wj_indexedFiles = 0,
     wj_CopiesReleased = False, wj_HandoffComplete = False, wj_ManifestDigest = [], wj_Request = a, wj_State = ''importing'', wj_Cleanup = ''pending'',
     wj_Outputs = [], wj_Files = [], wj_HandoffFinished = None,
     wj_Execution = zeroNixExecution\<lparr>nx_Stage := ''session'', nx_Resources := nixResourcesIn ''unallocated'', nx_Evidence := nixEvidenceIn ''pending''\<rparr>,
     wj_Started = now, wj_Deadline = now + wr_TimeoutSeconds a * second\<rparr>"

record start_io =
  si_load :: "goerr option"
  si_url :: "urlParts res"
  si_mkdir :: "goerr option"
  si_save :: "goerr option"

text \<open>\<^verbatim>\<open>start\<close>; the last result says that the run was started.\<close>

definition callStart :: "string \<Rightarrow> start_io \<Rightarrow> gotime \<Rightarrow> WRequest \<Rightarrow> Worker \<Rightarrow> WView res \<times> Worker \<times> bool" where
  "callStart arch io now a w0 =
    (let task = wr_TaskID a;
         w = (if getJob task w0 \<noteq> None then w0 else (case loadJob (si_load io) task w0 of Inr old \<Rightarrow> enterJob task old w0 | Inl _ \<Rightarrow> w0)) in
     case getJob task w of
       Some old \<Rightarrow>
         if (wj_Request old)\<lparr>wr_Cache := []\<rparr> \<noteq> a\<lparr>wr_Cache := []\<rparr> then (Inl (Fail ''request_conflict'' ''Worker task parameters differ''), w, False)
         else (Inr (public old), w, False)
     | None \<Rightarrow>
         if wk_closing w \<or> wk_active w \<noteq> [] then (Inl (Fail ''resource_busy'' ''Worker requires cleanup or is executing''), w, False)
         else if \<not> IDPattern (wr_UploadID a) \<or> wr_System a \<noteq> hostSystem arch \<or> \<not> StorePattern (wr_Derivation a) \<or> \<not> HasSuffix (wr_Derivation a) ''.drv'' \<or>
           wr_TimeoutSeconds a < 1 \<or> wr_TimeoutSeconds a > 86400 then (Inl (Fail ''invalid_argument'' ''Invalid Nix request''), w, False)
         else if \<not> cachePath (si_url io) then (Inl (Fail ''invalid_argument'' ''Expected controller-issued cache path''), w, False)
         else (case si_mkdir io of
            Some e \<Rightarrow> (Inl e, w, False)
          | None \<Rightarrow>
             (case saveJob (si_save io) (newJob now a, w) of
                (Some e, _, _) \<Rightarrow> (Inl e, w, False)
              | (None, j, w1) \<Rightarrow> (Inr (public j), (enterJob task j w1)\<lparr>wk_active := task, wk_cancel := task # removeAll task (wk_cancel w1),
                  wk_cancelled := removeAll task (wk_cancelled w1)\<rparr>, True))))"

definition lookupJob :: "goerr option \<Rightarrow> string \<Rightarrow> Worker \<Rightarrow> WJob option \<times> Worker" where
  "lookupJob err task w =
    (case getJob task w of
       Some j \<Rightarrow> (Some j, w)
     | None \<Rightarrow> (case loadJob err task w of
          Inl _ \<Rightarrow> (None, w)
        | Inr j \<Rightarrow> (Some j, if wj_CopiesReleased j then w else enterJob task j w)))"

text \<open>The tombstone of a task that was never accepted.\<close>

definition tombstone :: "gotime \<Rightarrow> WRequest \<Rightarrow> WJob" where
  "tombstone now a = (newJob now a)\<lparr>wj_State := ''interrupted'', wj_Cleanup := ''complete'', wj_Deadline := now, wj_HandoffComplete := True,
     wj_CopiesReleased := True, wj_HandoffFinished := Some now,
     wj_Execution := zeroNixExecution\<lparr>nx_Finished := Some now, nx_Resources := nixResourcesIn ''unallocated'', nx_Evidence := nixEvidenceIn ''complete''\<rparr>\<rparr>"

definition sealTask :: "goerr option \<Rightarrow> gotime \<Rightarrow> WRequest \<Rightarrow> Worker \<Rightarrow> WView res \<times> Worker" where
  "sealTask err now a w = (case saveJob err (tombstone now a, w) of
       (Some e, _, _) \<Rightarrow> (Inl e, w)
     | (None, j, w1) \<Rightarrow> (Inr (public j), enterJob (wr_TaskID a) j w1))"

definition callResources :: "bool \<Rightarrow> WJob \<times> Worker \<Rightarrow> (WJob \<times> Worker) \<times> bool" where
  "callResources retry = (\<lambda>(j, w).
     let j1 = (if retry \<and> wj_Cleanup j \<noteq> ''complete''
               then (onResources (\<lambda>x. x\<lparr>nr_State := ''releasing'', nr_Error := None\<rparr>) j)\<lparr>wj_recoverResources := True, wj_Cleanup := ''pending''\<rparr> else j);
         j2 = (if nx_Finished (wj_Execution j1) = None then onSession (\<lambda>s. s\<lparr>ws_StopReason := ''cancelled''\<rparr>) j1 else j1);
         w1 = cancelContext (jobID j) w;
         (j3, started) = observeLocked j2 w1 in
     ((j3, w1), started))"

definition callEvidence :: "bool \<Rightarrow> goerr option \<Rightarrow> goerr option \<Rightarrow> gotime \<Rightarrow> WJob \<times> Worker \<Rightarrow> (WView res \<times> WJob \<times> Worker) \<times> bool" where
  "callEvidence retry collectErr saveErr now = (\<lambda>(j, w).
     let j1 = (if retry \<and> ne_State (evidenceOf j) = ''blocked''
               then onEvidence (\<lambda>x. x\<lparr>ne_State := ''pending'', ne_Error := None, ne_Attempts := 0\<rparr>) j else j);
         (jw, started) = collectLocked collectErr now (j1, w) in
     case saveJob saveErr jw of
       (None, x) \<Rightarrow> ((Inr (public (fst jw)), x), started)
     | (Some e, x) \<Rightarrow> ((Inl e, x), started))"

definition extendCheck :: "WRequest \<Rightarrow> WJob \<Rightarrow> Worker \<Rightarrow> ExecRequest res" where
  "extendCheck a j w =
    (case wr_Deadline a of
       None \<Rightarrow> Inl (Fail ''invalid_state'' ''Worker deadline cannot be extended'')
     | Some d \<Rightarrow>
        if wj_State j \<noteq> ''importing'' \<and> wj_State j \<noteq> ''building'' \<or> d < wj_Deadline j \<or> wj_Started j + 24 * hour < d
        then Inl (Fail ''invalid_state'' ''Worker deadline cannot be extended'')
        else if ws_Executor (wj_Session j) = None then Inl (Fail ''invalid_state'' ''Session admission is still in progress'')
        else Inr ((sessionRequest [] j w)\<lparr>xq_Deadline := Some d\<rparr>))"

definition extendEnd :: "goerr option \<Rightarrow> gotime \<Rightarrow> ExecSession res \<Rightarrow> WJob \<times> Worker \<Rightarrow> WView res \<times> WJob \<times> Worker" where
  "extendEnd err d reply = (\<lambda>(j, w). case reply of
       Inl e \<Rightarrow> (Inl e, j, w)
     | Inr s \<Rightarrow>
        if nx_Finished (wj_Execution j) \<noteq> None then (Inr (public j), j, w)
        else let j1 = (onSession (\<lambda>x. x\<lparr>ws_Executor := Some s\<rparr>) j)\<lparr>wj_Deadline := d\<rparr> in
          (case saveJob err (j1, w) of (None, x) \<Rightarrow> (Inr (public j1), x) | (Some e, x) \<Rightarrow> (Inl e, x)))"

text \<open>\<^verbatim>\<open>readFile\<close>: what opening gives (\<open>None\<close>: the file does not exist), and a slice of it.\<close>

definition readFile :: "(string \<Rightarrow> string) \<Rightarrow> int \<Rightarrow> string option res \<Rightarrow> (string \<times> int \<times> bool) res" where
  "readFile b64 offset opened =
    (if offset < 0 then Inl (Fail ''invalid_argument'' ''Invalid offset'')
     else (case opened of
        Inl e \<Rightarrow> Inl e
      | Inr None \<Rightarrow> Inr ([], offset, True)
      | Inr (Some content) \<Rightarrow>
         let chunk = take 65536 (drop (nat offset) content) in
         Inr (b64 chunk, offset + int (length chunk), length chunk < 65536)))"

section \<open>Start, maintenance and end of the process\<close>

definition restartJob :: "gotime \<Rightarrow> WJob \<Rightarrow> WJob" where
  "restartJob now j =
    (let j1 = (if wj_State j = ''building'' \<or> wj_State j = ''importing''
               then onExecution (\<lambda>x. x\<lparr>nx_Finished := Some now,
                      nx_Error := Some (Safe (Fail ''worker_restarted'' ''Worker restarted before the execution result was durable''))\<rparr>) (j\<lparr>wj_State := ''interrupted''\<rparr>)
               else j);
         j2 = (if NixResources_Released (resourcesOf j1) then j1 else j1\<lparr>wj_Cleanup := ''pending''\<rparr>) in
     if ne_State (evidenceOf j2) = ''collecting''
     then if ne_Attempts (evidenceOf j2) \<ge> 3
       then onEvidence (\<lambda>x. x\<lparr>ne_State := ''blocked'',
              ne_Error := Some (jobLifecycleError now ''evidence'' (Fail ''worker_restarted'' ''Final evidence attempt was interrupted'') j2)\<rparr>) j2
       else onEvidence (\<lambda>x. x\<lparr>ne_State := ''pending''\<rparr>) j2
     else j2)"

fun restartJobs :: "(string \<Rightarrow> goerr option) \<Rightarrow> gotime \<Rightarrow> WJob list \<Rightarrow> Worker \<Rightarrow> goerr option \<times> Worker" where
  "restartJobs errs now [] w = (None, w)"
| "restartJobs errs now (j # js) w =
    (let j1 = restartJob now j; w1 = (if NixResources_Released (resourcesOf j1) then w else w\<lparr>wk_active := jobID j1\<rparr>) in
     case saveJob (errs (jobID j1)) (j1, enterJob (jobID j1) j1 w1) of
       (Some e, _, w2) \<Rightarrow> (Some e, w2)
     | (None, j2, w2) \<Rightarrow> restartJobs errs now js (enterJob (jobID j1) j2 w2))"

text \<open>\<^verbatim>\<open>newWorker\<close> on the tables the previous process left.\<close>

definition freshWorker :: "Worker \<Rightarrow> Worker" where
  "freshWorker w = w\<lparr>wk_closing := False, wk_lastRetention := zeroTime, wk_jobs := [], wk_cancel := [], wk_cancelled := [], wk_streams := [], wk_active := []\<rparr>"

definition newWorker :: "goerr option \<Rightarrow> (string \<Rightarrow> goerr option) \<Rightarrow> gotime \<Rightarrow> Worker \<Rightarrow> goerr option \<times> Worker" where
  "newWorker loadErr errs now w =
    (case activeJobs loadErr (freshWorker w) of
       Inl e \<Rightarrow> (Some e, freshWorker w)
     | Inr jobs \<Rightarrow> restartJobs errs now jobs (freshWorker w))"

datatype spawn = SReconcile string | SCollect string

definition maintainJob :: "(string \<Rightarrow> goerr option) \<Rightarrow> gotime \<Rightarrow> string \<Rightarrow> Worker \<times> spawn list \<Rightarrow> Worker \<times> spawn list" where
  "maintainJob errs now task = (\<lambda>(w, ss).
     case getJob task w of
       None \<Rightarrow> (w, ss)
     | Some j \<Rightarrow>
        if wj_Cleanup j \<noteq> ''complete''
        then (case observeLocked j w of (j1, started) \<Rightarrow> (putJob (j1, w), if started then ss @ [SReconcile task] else ss))
        else (case collectLocked (errs task) now (j, w) of (x, started) \<Rightarrow> (putJob x, if started then ss @ [SCollect task] else ss)))"

definition maintainTick :: "(string \<Rightarrow> goerr option) \<Rightarrow> (gotime \<Rightarrow> string) \<Rightarrow> goerr option \<Rightarrow> goerr option \<Rightarrow> gotime \<Rightarrow> Worker \<Rightarrow> Worker \<times> spawn list" where
  "maintainTick errs fmt deleteErr sweepErr now w =
    (case fold (maintainJob errs now) (map fst (wk_jobs w)) (w, []) of (w1, ss) \<Rightarrow> (expireCompleted fmt deleteErr sweepErr now w1, ss))"

definition closeWorker :: "Worker \<Rightarrow> Worker \<times> ExecRequest list" where
  "closeWorker w =
    (w\<lparr>wk_closing := True, wk_cancelled := wk_cancel w @ wk_cancelled w\<rparr>,
     map (\<lambda>(k, j). sessionRequest ''worker_stopped'' j w) (filter (\<lambda>(k, j). ws_Intent (wj_Session j) \<and> wj_Cleanup j \<noteq> ''complete'') (wk_jobs w)))"

text \<open>The watch of a run's deadline.\<close>

definition watchDeadline :: "gotime \<Rightarrow> WJob \<times> Worker \<Rightarrow> (WJob \<times> Worker) \<times> bool" where
  "watchDeadline now = (\<lambda>(j, w).
     if now < wj_Deadline j then ((j, w), False)
     else (case observeLocked (onSession (\<lambda>s. s\<lparr>ws_StopReason := ''deadline''\<rparr>) j) w of (j1, started) \<Rightarrow> ((j1, cancelContext (jobID j) w), started)))"

section \<open>The run of a job\<close>

text \<open>
  Where \<^verbatim>\<open>run\<close> stands between two sections.  \<open>PWait\<close> waits for the process, \<open>PResult\<close> has the error of \<^verbatim>\<open>runClient\<close>.
\<close>

datatype rpc =
  PLog | PAdmit | PCreate ExecRequest | PAdmitted ExecSession | PStage string | PBuild | PClient string
| PWait string "goerr option" "ProcessIdentity option" | PResult string "goerr option"
| POutputs "goerr option" bool "(string \<times> string) list" | PComplete "goerr option" bool

record run_io =
  rn_err :: "goerr option"
  rn_described :: "(ExecDescription \<times> bool) res"
  rn_process :: NixProcessResult
  rn_outputs :: "(string \<times> string) list"
  rn_interrupted :: bool

text \<open>Where the run goes when a client of a stage has ended.\<close>

definition afterClient :: "string \<Rightarrow> goerr option \<Rightarrow> run_io \<Rightarrow> rpc" where
  "afterClient stage err io =
    (let e = firstErr err (rn_err io) in
     if stage = ''build'' then POutputs e (rn_interrupted io) (if err = None then rn_outputs io else [])
     else if e \<noteq> None then PComplete e False
     else if stage = ''session'' then PStage ''import''
     else if stage = ''import'' then PStage ''validate''
     else PBuild)"

text \<open>
  The sections of a run other than the call to the executor, the start of a process and the wait for it; \<open>None\<close> ends the run.
\<close>

definition onError :: "goerr option \<Rightarrow> rpc \<Rightarrow> rpc" where
  "onError err pc = (if err \<noteq> None then PComplete err False else pc)"

definition runSection :: "run_io \<Rightarrow> gotime \<Rightarrow> rpc \<Rightarrow> WJob \<times> Worker \<Rightarrow> (rpc option \<times> bool) \<times> WJob \<times> Worker" where
  "runSection io now pc jw =
    (case pc of
       PLog \<Rightarrow> ((Some (onError (rn_err io) PAdmit), False), jw)
     | PAdmit \<Rightarrow> (case admitBegin (rn_described io) (rn_err io) jw of
          (Inl e, x) \<Rightarrow> ((Some (PComplete (Some e) False), False), x)
        | (Inr a, x) \<Rightarrow> ((Some (PCreate a), False), x))
     | PAdmitted s \<Rightarrow> (case admitEnd s (rn_err io) jw of (err, x) \<Rightarrow> ((Some (onError err (PClient ''session'')), False), x))
     | PStage stage \<Rightarrow> (case enterStage stage (rn_err io) jw of (err, x) \<Rightarrow> ((Some (onError err (PClient stage)), False), x))
     | PBuild \<Rightarrow> (case enterBuild (rn_err io) jw of (err, x) \<Rightarrow> ((Some (onError err (PClient ''build'')), False), x))
     | PResult stage err \<Rightarrow> ((Some (afterClient stage err io), False), recordProcess (rn_process io) (fst jw), snd jw)
     | POutputs err interrupted outs \<Rightarrow> ((Some (PComplete err interrupted), False), setOutputs outs (fst jw), snd jw)
     | PComplete err interrupted \<Rightarrow> (case completeJob (rn_err io) now err interrupted jw of (x, started) \<Rightarrow> ((None, started), x))
     | _ \<Rightarrow> ((Some pc, False), jw))"

section \<open>The worker, its goroutines, the client processes and the executor\<close>

datatype wthread =
  TRun string rpc
| TReconcile string
| TStop string Recon
| TClient string Recon Stopped bool
| TReport string Recon Stopped bool "bool \<times> goerr option"
| TObserved string
| TCollect string
| THandoff string "WJob option"
| TExtend string gotime ExecRequest
| TExtended string gotime "ExecSession res"
| TClosing ExecRequest

text \<open>
  \<open>wx_live\<close> are the living client processes with the job they were started for, \<open>wx_exec\<close> is the state of the executor.
\<close>

record 'e WSys =
  wx_up :: bool
  wx_w :: Worker
  wx_threads :: "wthread list"
  wx_live :: "(string \<times> ProcessIdentity) list"
  wx_boot :: string
  wx_exec :: 'e

definition spawned :: "spawn list \<Rightarrow> wthread list" where
  "spawned = map (\<lambda>s. case s of SReconcile t \<Rightarrow> TReconcile t | SCollect t \<Rightarrow> TCollect t)"

definition reconcileThread :: "string \<Rightarrow> bool \<Rightarrow> wthread list" where
  "reconcileThread t started = (if started then [TReconcile t] else [])"

definition collectThread :: "string \<Rightarrow> bool \<Rightarrow> wthread list" where
  "collectThread t started = (if started then [TCollect t] else [])"

definition replaceThread :: "wthread \<Rightarrow> wthread list \<Rightarrow> 'e WSys \<Rightarrow> 'e WSys" where
  "replaceThread t ts x = x\<lparr>wx_threads := remove1 t (wx_threads x) @ ts\<rparr>"

text \<open>What looking for a living client can give.\<close>

definition honestRelease :: "(string \<times> ProcessIdentity) list \<Rightarrow> string \<Rightarrow> ProcessIdentity option \<Rightarrow> release_io \<Rightarrow> bool" where
  "honestRelease live task client io \<longleftrightarrow>
    (case client of
       None \<Rightarrow> True
     | Some i \<Rightarrow> (task, i) \<in> set live \<longrightarrow>
         (case ri_pidfd io of
            Some e \<Rightarrow> \<not> isESRCH e
          | None \<Rightarrow> (case ri_identity io of Inl e \<Rightarrow> \<not> isNotExist e | Inr v \<Rightarrow> v = (i, True))))"

text \<open>A call of the executor: its answer may be lost, and the call may not have reached the executor.\<close>

definition called :: "('e \<Rightarrow> string \<Rightarrow> ExecRequest \<Rightarrow> ExecSession res \<Rightarrow> 'e \<Rightarrow> bool) \<Rightarrow> 'e \<Rightarrow> string \<Rightarrow> ExecRequest \<Rightarrow> ExecSession res \<Rightarrow> 'e \<Rightarrow> bool" where
  "called ecall e verb a reply e' \<longleftrightarrow> ecall e verb a reply e' \<or> (\<exists>err. reply = Inl err \<and> (e' = e \<or> (\<exists>r. ecall e verb a r e')))"

text \<open>A section on the job of a goroutine.\<close>

definition withJob :: "string \<Rightarrow> (WJob \<times> Worker \<Rightarrow> 'a \<times> WJob \<times> Worker) \<Rightarrow> Worker \<Rightarrow> ('a \<times> Worker) option" where
  "withJob task f w = (case getJob task w of None \<Rightarrow> None | Some j \<Rightarrow> (case f (j, w) of (a, x) \<Rightarrow> Some (a, putJob x)))"

text \<open>The task a goroutine works for; the calls of \<^verbatim>\<open>Close\<close> work for none.\<close>

fun threadTask :: "wthread \<Rightarrow> string option" where
  "threadTask (TRun t _) = Some t"
| "threadTask (TReconcile t) = Some t"
| "threadTask (TStop t _) = Some t"
| "threadTask (TClient t _ _ _) = Some t"
| "threadTask (TReport t _ _ _ _) = Some t"
| "threadTask (TObserved t) = Some t"
| "threadTask (TCollect t) = Some t"
| "threadTask (THandoff t _) = Some t"
| "threadTask (TExtend t _ _) = Some t"
| "threadTask (TExtended t _ _) = Some t"
| "threadTask (TClosing _) = None"

fun sectional :: "rpc \<Rightarrow> bool" where
  "sectional (PCreate _) = False"
| "sectional (PClient _) = False"
| "sectional (PWait _ _ _) = False"
| "sectional _ = True"

definition runThread :: "string \<Rightarrow> rpc option \<Rightarrow> wthread list" where
  "runThread t pc = (case pc of Some p \<Rightarrow> [TRun t p] | None \<Rightarrow> [])"

definition launched :: "string \<Rightarrow> (goerr + goerr option \<times> ProcessIdentity option) \<Rightarrow> (string \<times> ProcessIdentity) list \<Rightarrow> (string \<times> ProcessIdentity) list" where
  "launched t r live = (case r of Inr (_, Some i) \<Rightarrow> (t, i) # live | _ \<Rightarrow> live)"

definition afterLaunch :: "string \<Rightarrow> (goerr + goerr option \<times> ProcessIdentity option) \<Rightarrow> rpc" where
  "afterLaunch stage r = (case r of Inl e \<Rightarrow> PResult stage (Some e) | Inr (err, p) \<Rightarrow> PWait stage err p)"

definition afterCreate :: "ExecSession res \<Rightarrow> rpc" where
  "afterCreate reply = (case reply of Inl e \<Rightarrow> PComplete (Some e) False | Inr s \<Rightarrow> PAdmitted s)"

definition afterReconcile :: "string \<Rightarrow> Recon option \<Rightarrow> wthread" where
  "afterReconcile t q = (case q of None \<Rightarrow> TObserved t | Some q \<Rightarrow> TStop t q)"

text \<open>
  One step: a section of a goroutine or of a call, a move of a client process, of the machine or of the executor.  \<open>estep\<close> are
  the executor's own steps and \<open>ecall\<close> its answers; \<open>digest\<close> is the digest of a manifest and \<open>arch\<close> the machine.  A task is not
  started while a goroutine of an earlier job with its identifier is still at work.
\<close>

inductive wkStep :: "('e \<Rightarrow> 'e \<Rightarrow> bool) \<Rightarrow> ('e \<Rightarrow> string \<Rightarrow> ExecRequest \<Rightarrow> ExecSession res \<Rightarrow> 'e \<Rightarrow> bool) \<Rightarrow> (WFile list \<Rightarrow> string) \<Rightarrow> string \<Rightarrow>
    'e WSys \<Rightarrow> 'e WSys \<Rightarrow> bool"
  for estep ecall digest arch where
  executor: "estep (wx_exec x) e \<Longrightarrow> wkStep estep ecall digest arch x (x\<lparr>wx_exec := e\<rparr>)"
| clientExits: "wkStep estep ecall digest arch x (x\<lparr>wx_live := removeAll p (wx_live x)\<rparr>)"
| crash: "wkStep estep ecall digest arch x (x\<lparr>wx_up := False, wx_threads := []\<rparr>)"
| reboot: "wkStep estep ecall digest arch x (x\<lparr>wx_up := False, wx_threads := [], wx_live := [], wx_boot := boot\<rparr>)"
| restart: "\<lbrakk>\<not> wx_up x; newWorker loadErr errs now (wx_w x) = (err, w)\<rbrakk> \<Longrightarrow>
    wkStep estep ecall digest arch x (x\<lparr>wx_up := (err = None), wx_w := w, wx_threads := []\<rparr>)"
| start: "\<lbrakk>wx_up x; IDPattern (wr_TaskID a); callStart arch io now a (wx_w x) = (reply, w, started);
    started \<longrightarrow> (\<forall>th\<in>set (wx_threads x). threadTask th \<noteq> Some (wr_TaskID a))\<rbrakk> \<Longrightarrow>
    wkStep estep ecall digest arch x (x\<lparr>wx_w := w, wx_threads := wx_threads x @ (if started then [TRun (wr_TaskID a) PLog] else [])\<rparr>)"
| sealed: "\<lbrakk>wx_up x; IDPattern (wr_TaskID a); lookupJob loadErr (wr_TaskID a) (wx_w x) = (None, w0); sealTask err now a w0 = (reply, w)\<rbrakk> \<Longrightarrow>
    wkStep estep ecall digest arch x (x\<lparr>wx_w := w\<rparr>)"
| query: "\<lbrakk>wx_up x; lookupJob loadErr t (wx_w x) = (found, w)\<rbrakk> \<Longrightarrow> wkStep estep ecall digest arch x (x\<lparr>wx_w := w\<rparr>)"
| resources: "\<lbrakk>wx_up x; lookupJob loadErr t (wx_w x) = (Some j, w0); callResources retry (j, w0) = (jw, started)\<rbrakk> \<Longrightarrow>
    wkStep estep ecall digest arch x (x\<lparr>wx_w := putJob jw, wx_threads := wx_threads x @ reconcileThread t started\<rparr>)"
| evidence: "\<lbrakk>wx_up x; lookupJob loadErr t (wx_w x) = (Some j, w0); callEvidence retry collectErr saveErr now (j, w0) = ((reply, jw), started)\<rbrakk> \<Longrightarrow>
    wkStep estep ecall digest arch x (x\<lparr>wx_w := putJob jw, wx_threads := wx_threads x @ collectThread t started\<rparr>)"
| extend: "\<lbrakk>wx_up x; lookupJob loadErr t (wx_w x) = (Some j, w0); extendCheck a j w0 = Inr q; wr_Deadline a = Some d\<rbrakk> \<Longrightarrow>
    wkStep estep ecall digest arch x (x\<lparr>wx_w := w0, wx_threads := wx_threads x @ [TExtend t d q]\<rparr>)"
| extendCalled: "\<lbrakk>wx_up x; TExtend t d q \<in> set (wx_threads x); called ecall (wx_exec x) ''extend'' q reply e\<rbrakk> \<Longrightarrow>
    wkStep estep ecall digest arch x ((replaceThread (TExtend t d q) [TExtended t d reply] x)\<lparr>wx_exec := e\<rparr>)"
| extended: "\<lbrakk>wx_up x; TExtended t d reply \<in> set (wx_threads x); withJob t (extendEnd err d reply) (wx_w x) = Some (answer, w)\<rbrakk> \<Longrightarrow>
    wkStep estep ecall digest arch x ((replaceThread (TExtended t d reply) [] x)\<lparr>wx_w := w\<rparr>)"
| handoff: "\<lbrakk>wx_up x; lookupJob loadErr t (wx_w x) = (Some j, w0); handoffBegin digest err sent (j, w0) = (failed, jw)\<rbrakk> \<Longrightarrow>
    wkStep estep ecall digest arch x (x\<lparr>wx_w := putJob jw, wx_threads := wx_threads x @
      (if failed = None then [THandoff t (if getJob t w0 = None then Some (fst jw) else None)] else [])\<rparr>)"
| handedOff: "\<lbrakk>wx_up x; THandoff t None \<in> set (wx_threads x); withJob t (handoffEnd io now) (wx_w x) = Some (failed, w)\<rbrakk> \<Longrightarrow>
    wkStep estep ecall digest arch x ((replaceThread (THandoff t None) [] x)\<lparr>wx_w := w\<rparr>)"
| handedOffDetached: "\<lbrakk>wx_up x; THandoff t (Some j) \<in> set (wx_threads x); handoffEnd io now (j, wx_w x) = (failed, j', w)\<rbrakk> \<Longrightarrow>
    wkStep estep ecall digest arch x ((replaceThread (THandoff t (Some j)) [] x)\<lparr>wx_w := w\<rparr>)"
| run: "\<lbrakk>wx_up x; TRun t pc \<in> set (wx_threads x); sectional pc; withJob t (runSection io now pc) (wx_w x) = Some ((pc', started), w)\<rbrakk> \<Longrightarrow>
    wkStep estep ecall digest arch x ((replaceThread (TRun t pc) (runThread t pc' @ reconcileThread t started) x)\<lparr>wx_w := w\<rparr>)"
| create: "\<lbrakk>wx_up x; TRun t (PCreate a) \<in> set (wx_threads x); called ecall (wx_exec x) ''create'' a reply e\<rbrakk> \<Longrightarrow>
    wkStep estep ecall digest arch x ((replaceThread (TRun t (PCreate a)) [TRun t (afterCreate reply)] x)\<lparr>wx_exec := e\<rparr>)"
| launch: "\<lbrakk>wx_up x; TRun t (PClient stage) \<in> set (wx_threads x); \<And>b. la_boot io = Inr b \<Longrightarrow> b = wx_boot x;
    \<And>i k. la_start io = Inr i \<Longrightarrow> la_inspect io = Inr k \<Longrightarrow> k = i; withJob t (launchClient io) (wx_w x) = Some (r, w)\<rbrakk> \<Longrightarrow>
    wkStep estep ecall digest arch x ((replaceThread (TRun t (PClient stage)) [TRun t (afterLaunch stage r)] x)\<lparr>wx_w := w, wx_live := launched t r (wx_live x)\<rparr>)"
| reap: "\<lbrakk>wx_up x; TRun t (PWait stage err p) \<in> set (wx_threads x); \<And>i. p = Some i \<Longrightarrow> (t, i) \<notin> set (wx_live x); p = None \<Longrightarrow> waitErr = None;
    withJob t (reapedClient (firstErr err waitErr) saveErr) (wx_w x) = Some (e, w)\<rbrakk> \<Longrightarrow>
    wkStep estep ecall digest arch x ((replaceThread (TRun t (PWait stage err p)) [TRun t (PResult stage e)] x)\<lparr>wx_w := w\<rparr>)"
| watch: "\<lbrakk>wx_up x; TRun t pc \<in> set (wx_threads x); t \<notin> set (wk_cancelled (wx_w x));
    withJob t (\<lambda>jw. case watchDeadline now jw of (x, started) \<Rightarrow> (started, x)) (wx_w x) = Some (started, w)\<rbrakk> \<Longrightarrow>
    wkStep estep ecall digest arch x (x\<lparr>wx_w := w, wx_threads := wx_threads x @ reconcileThread t started\<rparr>)"
| reconcile: "\<lbrakk>wx_up x; TReconcile t \<in> set (wx_threads x);
    withJob t (\<lambda>(j, w). case reconcileBegin now (j, w) of (q, j1) \<Rightarrow> (q, j1, w)) (wx_w x) = Some (q, w)\<rbrakk> \<Longrightarrow>
    wkStep estep ecall digest arch x ((replaceThread (TReconcile t) [afterReconcile t q] x)\<lparr>wx_w := w\<rparr>)"
| stop: "\<lbrakk>wx_up x; TStop t q \<in> set (wx_threads x); \<And>b. boot = Some b \<Longrightarrow> b = wx_boot x;
    if rc_intent q then called ecall (wx_exec x) ''stop'' (rc_request q) reply e else e = wx_exec x\<rbrakk> \<Longrightarrow>
    wkStep estep ecall digest arch x ((replaceThread (TStop t q) [TClient t q (stopReply reply q) (stillLaunching boot q)] x)\<lparr>wx_exec := e\<rparr>)"
| client: "\<lbrakk>wx_up x; TClient t q s l \<in> set (wx_threads x); honestRelease (wx_live x) t (rc_client q) io\<rbrakk> \<Longrightarrow>
    wkStep estep ecall digest arch x (replaceThread (TClient t q s l) [TReport t q s l (clientGone io l s q)] x)"
| report: "\<lbrakk>wx_up x; TReport t q s l g \<in> set (wx_threads x);
    withJob t (\<lambda>jw. case reconcileEnd saveErr collectErr now s l g q jw of (y, started) \<Rightarrow> (started, y)) (wx_w x) = Some (started, w)\<rbrakk> \<Longrightarrow>
    wkStep estep ecall digest arch x ((replaceThread (TReport t q s l g) (TObserved t # collectThread t started) x)\<lparr>wx_w := w\<rparr>)"
| observed: "\<lbrakk>wx_up x; TObserved t \<in> set (wx_threads x)\<rbrakk> \<Longrightarrow>
    wkStep estep ecall digest arch x ((replaceThread (TObserved t) [] x)\<lparr>wx_w :=
      (case getJob t (wx_w x) of Some j \<Rightarrow> putJob (j\<lparr>wj_observing := False\<rparr>, wx_w x) | None \<Rightarrow> wx_w x)\<rparr>)"
| collected: "\<lbrakk>wx_up x; TCollect t \<in> set (wx_threads x); \<And>obj. THandoff t obj \<notin> set (wx_threads x);
    withJob t (\<lambda>jw. ((), collectEnd digest io now jw)) (wx_w x) = Some (u, w)\<rbrakk> \<Longrightarrow>
    wkStep estep ecall digest arch x ((replaceThread (TCollect t) [] x)\<lparr>wx_w := w\<rparr>)"
| maintain: "\<lbrakk>wx_up x; maintainTick errs fmt deleteErr sweepErr now (wx_w x) = (w, ss)\<rbrakk> \<Longrightarrow>
    wkStep estep ecall digest arch x (x\<lparr>wx_w := w, wx_threads := wx_threads x @ spawned ss\<rparr>)"
| closes: "\<lbrakk>wx_up x; closeWorker (wx_w x) = (w, requests)\<rbrakk> \<Longrightarrow>
    wkStep estep ecall digest arch x (x\<lparr>wx_w := w, wx_threads := wx_threads x @ map TClosing requests\<rparr>)"
| closeStops: "\<lbrakk>wx_up x; TClosing q \<in> set (wx_threads x); called ecall (wx_exec x) ''stop'' q reply e\<rbrakk> \<Longrightarrow>
    wkStep estep ecall digest arch x ((replaceThread (TClosing q) [] x)\<lparr>wx_exec := e\<rparr>)"
| streamOpens: "wx_up x \<Longrightarrow> wkStep estep ecall digest arch x (x\<lparr>wx_w := (wx_w x)\<lparr>wk_streams := t # wk_streams (wx_w x)\<rparr>\<rparr>)"
| streamCloses: "wx_up x \<Longrightarrow> wkStep estep ecall digest arch x (x\<lparr>wx_w := (wx_w x)\<lparr>wk_streams := remove1 t (wk_streams (wx_w x))\<rparr>\<rparr>)"

definition wkStart :: "('e \<Rightarrow> bool) \<Rightarrow> 'e WSys \<Rightarrow> bool" where
  "wkStart estart x \<longleftrightarrow> \<not> wx_up x \<and> wk_rows (wx_w x) = [] \<and> wx_threads x = [] \<and> wx_live x = [] \<and> estart (wx_exec x)"

end
