(* ===== verification/WorkerInv.thy ===== *)
theory WorkerInv
  imports Worker "HOL-Library.Multiset"
begin

text \<open>
  The invariant of the worker: what its rows, its memory and its goroutines say about the client processes that live and the
  sessions the executor holds.  \<open>H\<close> is the set of tasks for which the executor may still hold processes.
\<close>

section \<open>Jobs\<close>

definition completeJ :: "WJob \<Rightarrow> bool" where "completeJ j \<longleftrightarrow> wj_Cleanup j = ''complete''"
definition finishedJ :: "WJob \<Rightarrow> bool" where "finishedJ j \<longleftrightarrow> nx_Finished (wj_Execution j) \<noteq> None"
definition intentJ :: "WJob \<Rightarrow> bool" where "intentJ j \<longleftrightarrow> ws_Intent (wj_Session j)"

text \<open>How the client of a job is known: as a launch of this boot, or by its identity.\<close>

definition clientJ :: "WJob \<Rightarrow> ProcessIdentity option \<times> bool \<times> string" where
  "clientJ j = (ws_Client (wj_Session j), ws_Launching (wj_Session j), ws_ClientBoot (wj_Session j))"

definition knows :: "string \<Rightarrow> ProcessIdentity option \<times> bool \<times> string \<Rightarrow> ProcessIdentity \<Rightarrow> bool" where
  "knows boot c i \<longleftrightarrow> fst c = Some i \<or> fst (snd c) \<and> snd (snd c) = boot"

definition evidenceOK :: "NixEvidence \<Rightarrow> string \<Rightarrow> bool" where
  "evidenceOK e manifest \<longleftrightarrow> 0 \<le> ne_Attempts e \<and> ne_Attempts e \<le> 3 \<and> (ne_State e = ''pending'' \<and> manifest = [] \<longrightarrow> ne_Attempts e < 3)"

definition jobSane :: "WJob \<Rightarrow> bool" where
  "jobSane j \<longleftrightarrow> (completeJ j \<longrightarrow> NixResources_Released (resourcesOf j) \<and> finishedJ j \<and> fst (clientJ j) = None \<and> \<not> fst (snd (clientJ j))) \<and>
     (finishedJ j \<longleftrightarrow> wj_State j \<noteq> ''importing'' \<and> wj_State j \<noteq> ''building'') \<and>
     (wj_CopiesReleased j \<longrightarrow> wj_HandoffComplete j) \<and> (wj_HandoffComplete j \<longrightarrow> completeJ j) \<and> evidenceOK (evidenceOf j) (wj_ManifestDigest j)"

definition jobOK :: "string \<Rightarrow> (string \<times> ProcessIdentity) list \<Rightarrow> (string \<Rightarrow> bool) \<Rightarrow> WJob \<Rightarrow> bool" where
  "jobOK boot live H j \<longleftrightarrow> jobSane j \<and> (\<forall>i. (jobID j, i) \<in> set live \<longrightarrow> knows boot (clientJ j) i) \<and> (H (jobID j) \<longrightarrow> intentJ j \<and> \<not> completeJ j)"

text \<open>The stored part of a job the invariant speaks of.\<close>

definition coreJ :: "WJob \<Rightarrow> string \<times> WSession \<times> string \<times> NixExecution \<times> string \<times> bool \<times> bool \<times> string" where
  "coreJ j = (jobID j, wj_Session j, wj_Cleanup j, wj_Execution j, wj_State j, wj_HandoffComplete j, wj_CopiesReleased j, wj_ManifestDigest j)"

lemma core_eqD:
  assumes "coreJ a = coreJ b"
  shows "jobID a = jobID b" "completeJ a = completeJ b" "finishedJ a = finishedJ b" "intentJ a = intentJ b" "clientJ a = clientJ b"
    "wj_HandoffComplete a = wj_HandoffComplete b" "wj_CopiesReleased a = wj_CopiesReleased b" "jobSane a = jobSane b"
    "jobOK boot live H a = jobOK boot live H b"
proof -
  have f: "wj_Session a = wj_Session b" "wj_Cleanup a = wj_Cleanup b" "wj_Execution a = wj_Execution b" "wj_State a = wj_State b"
    "wj_ManifestDigest a = wj_ManifestDigest b" "jobID a = jobID b" "wj_HandoffComplete a = wj_HandoffComplete b" "wj_CopiesReleased a = wj_CopiesReleased b"
    using assms by (simp_all add: coreJ_def)
  then show "jobID a = jobID b" "completeJ a = completeJ b" "finishedJ a = finishedJ b" "intentJ a = intentJ b" "clientJ a = clientJ b"
    "wj_HandoffComplete a = wj_HandoffComplete b" "wj_CopiesReleased a = wj_CopiesReleased b"
    by (simp_all add: completeJ_def finishedJ_def intentJ_def clientJ_def)
  show s: "jobSane a = jobSane b" using f by (simp add: jobSane_def completeJ_def finishedJ_def clientJ_def resourcesOf_def evidenceOf_def)
  show "jobOK boot live H a = jobOK boot live H b" using s f by (simp add: jobOK_def completeJ_def intentJ_def clientJ_def)
qed

lemma core_rowOf [simp]: "coreJ (rowOf j) = coreJ j"
  by (simp add: coreJ_def rowOf_def jobID_def)

lemma core_started [simp]: "coreJ (j\<lparr>wj_Started := t\<rparr>) = coreJ j"
  by (simp add: coreJ_def jobID_def)

lemma core_loaded [simp]: "coreJ (loadedJob w r) = coreJ r"
  by (simp add: coreJ_def loadedJob_def Let_def jobID_def)

lemma core_indexed [simp]: "coreJ (j\<lparr>wj_indexedFiles := n\<rparr>) = coreJ j"
  by (simp add: coreJ_def jobID_def)

section \<open>Rows\<close>

text \<open>The table after the row of one task was written.\<close>

definition putRow :: "string \<Rightarrow> WJob \<Rightarrow> WJob list \<Rightarrow> WJob list \<Rightarrow> bool" where
  "putRow t j rows rows' \<longleftrightarrow> (\<forall>r. jobID r \<noteq> t \<longrightarrow> (r \<in> set rows' \<longleftrightarrow> r \<in> set rows)) \<and> (\<forall>r\<in>set rows'. jobID r = t \<longrightarrow> coreJ r = coreJ j) \<and>
     (\<exists>r\<in>set rows'. jobID r = t) \<and> (distinct (map jobID rows) \<longrightarrow> distinct (map jobID rows'))"

lemma putRowD:
  assumes "putRow t j rows rows'"
  shows "jobID r \<noteq> t \<Longrightarrow> r \<in> set rows' \<longleftrightarrow> r \<in> set rows" "r \<in> set rows' \<Longrightarrow> jobID r = t \<Longrightarrow> coreJ r = coreJ j" "\<exists>r\<in>set rows'. jobID r = t"
    "distinct (map jobID rows) \<Longrightarrow> distinct (map jobID rows')"
  using assms unfolding putRow_def by blast+

lemma putRowI:
  assumes "\<And>r. jobID r \<noteq> t \<Longrightarrow> r \<in> set rows' \<longleftrightarrow> r \<in> set rows" "\<And>r. r \<in> set rows' \<Longrightarrow> jobID r = t \<Longrightarrow> coreJ r = coreJ j"
    "\<exists>r\<in>set rows'. jobID r = t" "distinct (map jobID rows) \<Longrightarrow> distinct (map jobID rows')"
  shows "putRow t j rows rows'"
  using assms unfolding putRow_def by blast

lemma jobID_core: "coreJ a = coreJ b \<Longrightarrow> jobID a = jobID b"
  by (rule core_eqD(1))

lemma putRow_upsert:
  assumes "coreJ row = coreJ j"
  shows "putRow (jobID j) j rows (upsertRow row rows)"
proof -
  have id: "jobID row = jobID j" by (rule jobID_core[OF assms])
  show ?thesis
  proof (cases "list_ex (\<lambda>r. jobID r = jobID row) rows")
    case True
    let ?f = "\<lambda>r. if jobID r = jobID row then row\<lparr>wj_Started := wj_Started r\<rparr> else r"
    have up: "upsertRow row rows = map ?f rows" using True by (simp add: upsertRow_def)
    have ids: "jobID (?f r) = jobID r" for r by (simp add: jobID_def)
    have d: "map jobID (map ?f rows) = map jobID rows" using ids by simp
    have other: "(r \<in> set (map ?f rows)) = (r \<in> set rows)" if "jobID r \<noteq> jobID j" for r
    proof
      assume "r \<in> set (map ?f rows)"
      then obtain s where s: "s \<in> set rows" "r = ?f s" by auto
      then have "jobID s \<noteq> jobID row" using that id ids[of s] by auto
      then show "r \<in> set rows" using s by simp
    next
      assume "r \<in> set rows"
      moreover have "?f r = r" using that id by simp
      ultimately show "r \<in> set (map ?f rows)" by force
    qed
    have cr: "coreJ r = coreJ j" if r: "r \<in> set (map ?f rows)" "jobID r = jobID j" for r
    proof -
      obtain s where s: "s \<in> set rows" "r = ?f s" using r(1) by auto
      have "jobID s = jobID row" using r(2) ids[of s] s(2) id by simp
      then show ?thesis using s(2) assms by simp
    qed
    have ex: "\<exists>r\<in>set (map ?f rows). jobID r = jobID j"
    proof -
      obtain s where "s \<in> set rows" "jobID s = jobID row" using True unfolding list_ex_iff by blast
      then show ?thesis using ids[of s] id by (intro bexI[of _ "?f s"]) auto
    qed
    show ?thesis unfolding up by (rule putRowI; (rule other cr ex; assumption | simp only: d))
  next
    case False
    then have "upsertRow row rows = rows @ [row]" by (simp add: upsertRow_def)
    then show ?thesis using False id assms unfolding putRow_def list_ex_iff by auto
  qed
qed

lemma putRow_trans:
  assumes "putRow t a rows rows1" "putRow t b rows1 rows2"
  shows "putRow t b rows rows2"
  using putRowD[OF assms(1)] putRowD[OF assms(2)] unfolding putRow_def by blast

text \<open>What a save makes of job and worker.\<close>

lemma saveJob_cases:
  assumes "saveJob err (j, w) = (e, j', w')"
  obtains (failed) x where "e = Some x" "j' = j" "w' = w"
  | (saved) "e = None" "j' = j\<lparr>wj_indexedFiles := length (wj_Files j)\<rparr>" "putRow (jobID j) j (wk_rows w) (wk_rows w')" "wk_jobs w' = wk_jobs w"
      "wk_instance w' = wk_instance w" "wk_active w' = wk_active w" "wk_closing w' = wk_closing w"
  using assms putRow_upsert[OF core_rowOf] by (cases err) (auto simp: saveJob_def)

section \<open>The state\<close>

definition rowsOK :: "string \<Rightarrow> (string \<times> ProcessIdentity) list \<Rightarrow> (string \<Rightarrow> bool) \<Rightarrow> WJob list \<Rightarrow> bool" where
  "rowsOK boot live H rows \<longleftrightarrow> distinct (map jobID rows) \<and> (\<forall>r\<in>set rows. jobOK boot live H r) \<and>
     (\<forall>t. (\<exists>i. (t, i) \<in> set live) \<or> H t \<longrightarrow> (\<exists>r\<in>set rows. jobID r = t))"

text \<open>A job in memory agrees with its row.\<close>

definition agrees :: "WJob \<Rightarrow> WJob \<Rightarrow> bool" where
  "agrees r j \<longleftrightarrow> jobID r = jobID j \<and> completeJ r = completeJ j \<and> (wj_CopiesReleased r \<longrightarrow> wj_CopiesReleased j) \<and> (wj_HandoffComplete j \<longrightarrow> wj_HandoffComplete r)"

definition memOK :: "string \<Rightarrow> (string \<times> ProcessIdentity) list \<Rightarrow> (string \<Rightarrow> bool) \<Rightarrow> Worker \<Rightarrow> bool" where
  "memOK boot live H w \<longleftrightarrow> distinct (map fst (wk_jobs w)) \<and>
     (\<forall>t j. getJob t w = Some j \<longrightarrow> jobID j = t \<and> jobOK boot live H j \<and> (\<exists>r\<in>set (wk_rows w). agrees r j)) \<and>
     (\<forall>r\<in>set (wk_rows w). \<not> completeJ r \<longrightarrow> getJob (jobID r) w \<noteq> None)"

lemma rowsOKD:
  assumes "rowsOK boot live H rows"
  shows "distinct (map jobID rows)" "r \<in> set rows \<Longrightarrow> jobOK boot live H r" "(t, i) \<in> set live \<Longrightarrow> \<exists>r\<in>set rows. jobID r = t"
    "H t \<Longrightarrow> \<exists>r\<in>set rows. jobID r = t"
  using assms unfolding rowsOK_def by blast+

lemma rowsOKI:
  assumes "distinct (map jobID rows)" "\<And>r. r \<in> set rows \<Longrightarrow> jobOK boot live H r" "\<And>t i. (t, i) \<in> set live \<Longrightarrow> \<exists>r\<in>set rows. jobID r = t"
    "\<And>t. H t \<Longrightarrow> \<exists>r\<in>set rows. jobID r = t"
  shows "rowsOK boot live H rows"
  using assms unfolding rowsOK_def by blast

lemma memOKD:
  assumes "memOK boot live H w"
  shows "distinct (map fst (wk_jobs w))" "getJob t w = Some j \<Longrightarrow> jobID j = t" "getJob t w = Some j \<Longrightarrow> jobOK boot live H j"
    "getJob t w = Some j \<Longrightarrow> \<exists>r\<in>set (wk_rows w). agrees r j" "r \<in> set (wk_rows w) \<Longrightarrow> \<not> completeJ r \<Longrightarrow> getJob (jobID r) w \<noteq> None"
  using assms unfolding memOK_def by blast+

lemma memOKI:
  assumes "distinct (map fst (wk_jobs w))" "\<And>t j. getJob t w = Some j \<Longrightarrow> jobID j = t" "\<And>t j. getJob t w = Some j \<Longrightarrow> jobOK boot live H j"
    "\<And>t j. getJob t w = Some j \<Longrightarrow> \<exists>r\<in>set (wk_rows w). agrees r j" "\<And>r. r \<in> set (wk_rows w) \<Longrightarrow> \<not> completeJ r \<Longrightarrow> getJob (jobID r) w \<noteq> None"
  shows "memOK boot live H w"
  using assms unfolding memOK_def by blast

lemma job_unique: "distinct (map jobID rows) \<Longrightarrow> r \<in> set rows \<Longrightarrow> s \<in> set rows \<Longrightarrow> jobID r = jobID s \<Longrightarrow> r = s"
  by (simp add: distinct_map inj_on_def)

lemma putRow_rowsOK:
  assumes "rowsOK boot live H rows" "putRow t j rows rows'" "jobOK boot live H j"
  shows "rowsOK boot live H rows'"
proof (rule rowsOKI)
  note d = rowsOKD[OF assms(1)] and p = putRowD[OF assms(2)]
  show "distinct (map jobID rows')" by (rule p(4)[OF d(1)])
  show "jobOK boot live H r" if r: "r \<in> set rows'" for r
  proof (cases "jobID r = t")
    case True show ?thesis using core_eqD(9)[OF p(2)[OF r True]] assms(3) by simp
  next
    case False then show ?thesis using p(1)[of r] r d(2) by blast
  qed
  have row: "\<exists>r\<in>set rows'. jobID r = u" if "\<exists>r\<in>set rows. jobID r = u" for u
    using that p(1,3) by (cases "u = t") auto
  show "\<exists>r\<in>set rows'. jobID r = u" if "(u, i) \<in> set live" for u i by (rule row[OF d(3)[OF that]])
  show "\<exists>r\<in>set rows'. jobID r = u" if "H u" for u by (rule row[OF d(4)[OF that]])
qed

section \<open>Goroutines\<close>

text \<open>The observer of a job, up to its last section.\<close>

fun observer :: "wthread \<Rightarrow> string option" where
  "observer (TReconcile t) = Some t"
| "observer (TStop t _) = Some t"
| "observer (TClient t _ _ _) = Some t"
| "observer (TReport t _ _ _ _) = Some t"
| "observer _ = None"

fun observedBy :: "wthread \<Rightarrow> string list" where
  "observedBy (TObserved t) = [t]"
| "observedBy th = (case observer th of Some t \<Rightarrow> [t] | None \<Rightarrow> [])"

fun runs :: "wthread \<Rightarrow> string list" where
  "runs (TRun t _) = [t]"
| "runs _ = []"

fun threadOK :: "string \<Rightarrow> (string \<times> ProcessIdentity) list \<Rightarrow> (string \<Rightarrow> bool) \<Rightarrow> Worker \<Rightarrow> wthread \<Rightarrow> bool" where
  "threadOK boot live H w (TRun t pc) = (t \<noteq> [] \<and> wk_active w = t \<and> (\<exists>j. getJob t w = Some j \<and> \<not> finishedJ j \<and>
     (\<forall>i. (t, i) \<in> set live \<longrightarrow> (\<exists>st err. pc = PWait st err (Some i))) \<and>
     (\<forall>a. pc = PCreate a \<longrightarrow> xq_WorkerInstance a = wk_instance w \<and> xq_TaskID a = t \<and> intentJ j \<and> (\<forall>r\<in>set (wk_rows w). jobID r = t \<longrightarrow> intentJ r))))"
| "threadOK boot live H w (TReconcile t) = (\<exists>j. getJob t w = Some j \<and> wj_observing j \<and> \<not> completeJ j)"
| "threadOK boot live H w (TStop t q) = (\<exists>j. getJob t w = Some j \<and> wj_observing j \<and> \<not> completeJ j \<and>
     xq_WorkerInstance (rc_request q) = wk_instance w \<and> xq_TaskID (rc_request q) = t \<and>
     (rc_finished q \<longrightarrow> finishedJ j \<and> clientJ j = (rc_client q, rc_launching q, rc_clientBoot q) \<and> intentJ j = rc_intent q))"
| "threadOK boot live H w (TClient t q s l) = (\<exists>j. getJob t w = Some j \<and> wj_observing j \<and> \<not> completeJ j \<and>
     (rc_finished q \<longrightarrow> finishedJ j \<and> (\<forall>i. (t, i) \<in> set live \<longrightarrow> l \<or> rc_client q = Some i) \<and>
        (NixResources_Released (sp_resources s) \<and> sp_err s = None \<longrightarrow> \<not> H t)))"
| "threadOK boot live H w (TReport t q s l g) = (\<exists>j. getJob t w = Some j \<and> wj_observing j \<and> \<not> completeJ j \<and>
     (fst g \<and> snd g = None \<longrightarrow> finishedJ j \<and> (\<forall>i. (t, i) \<notin> set live) \<and> (NixResources_Released (sp_resources s) \<longrightarrow> \<not> H t)))"
| "threadOK boot live H w (TObserved t) = (\<forall>j. getJob t w = Some j \<longrightarrow> \<not> completeJ j \<longrightarrow> wj_observing j)"
| "threadOK boot live H w (THandoff t None) = ((\<forall>j. getJob t w = Some j \<longrightarrow> wj_HandoffComplete j) \<and> (\<forall>r\<in>set (wk_rows w). jobID r = t \<longrightarrow> wj_HandoffComplete r))"
| "threadOK boot live H w (THandoff t (Some j)) = (jobID j = t \<and> jobOK boot live H j \<and> wj_CopiesReleased j \<and>
     (\<forall>k. getJob t w = Some k \<longrightarrow> wj_CopiesReleased k) \<and> (\<forall>r\<in>set (wk_rows w). jobID r = t \<longrightarrow> wj_CopiesReleased r))"
| "threadOK boot live H w _ = True"

definition threadsOK :: "string \<Rightarrow> (string \<times> ProcessIdentity) list \<Rightarrow> (string \<Rightarrow> bool) \<Rightarrow> Worker \<Rightarrow> wthread list \<Rightarrow> bool" where
  "threadsOK boot live H w ths \<longleftrightarrow> (\<forall>th\<in>set ths. threadOK boot live H w th) \<and> distinct (concat (map observedBy ths)) \<and> length (concat (map runs ths)) \<le> 1"

definition upOK :: "string \<Rightarrow> (string \<times> ProcessIdentity) list \<Rightarrow> (string \<Rightarrow> bool) \<Rightarrow> Worker \<Rightarrow> wthread list \<Rightarrow> bool" where
  "upOK boot live H w ths \<longleftrightarrow> rowsOK boot live H (wk_rows w) \<and> memOK boot live H w \<and> threadsOK boot live H w ths"

lemma upOKD:
  assumes "upOK boot live H w ths"
  shows "rowsOK boot live H (wk_rows w)" "memOK boot live H w" "threadsOK boot live H w ths" "th \<in> set ths \<Longrightarrow> threadOK boot live H w th"
  using assms unfolding upOK_def threadsOK_def by auto

section \<open>Jobs in memory\<close>

lemma getJob_enter [simp]: "getJob k (enterJob t j w) = (if k = t then Some j else getJob k w)"
proof -
  have "map_of (map (\<lambda>(k, v). if k = t then (k, j) else (k, v)) xs) k = (if k = t then map_option (\<lambda>_. j) (map_of xs t) else map_of xs k)" for xs
    by (induction xs) auto
  then show ?thesis by (auto simp: getJob_def enterJob_def map_add_def split: option.splits)
qed

lemma enterJob_fields [simp]:
  "wk_rows (enterJob t j w) = wk_rows w" "wk_instance (enterJob t j w) = wk_instance w" "wk_active (enterJob t j w) = wk_active w"
  "wk_closing (enterJob t j w) = wk_closing w" "wk_cancelled (enterJob t j w) = wk_cancelled w" "wk_files (enterJob t j w) = wk_files w"
  by (simp_all add: enterJob_def)

lemma putJob_fields [simp]:
  "wk_rows (putJob (j, w)) = wk_rows w" "wk_instance (putJob (j, w)) = wk_instance w" "wk_active (putJob (j, w)) = wk_active w"
  by (simp_all add: putJob_def)

lemma getJob_put: "getJob t w = Some k \<Longrightarrow> jobID j = t \<Longrightarrow> getJob u (putJob (j, w)) = (if u = t then Some j else getJob u w)"
  by (simp add: putJob_def)

lemma enter_distinct: "distinct (map fst (wk_jobs w)) \<Longrightarrow> distinct (map fst (wk_jobs (enterJob t j w)))"
proof -
  assume d: "distinct (map fst (wk_jobs w))"
  have "map fst (map (\<lambda>(k, v). if k = t then (k, j) else (k, v)) xs) = map fst xs" for xs
    by (induction xs) auto
  moreover have "t \<notin> set (map fst (wk_jobs w))" if "getJob t w = None" using that by (auto simp: getJob_def map_of_eq_None_iff)
  ultimately show ?thesis using d by (auto simp: enterJob_def simp del: map_map)
qed

lemma getJob_jobs: "wk_jobs w' = wk_jobs w \<Longrightarrow> getJob t w' = getJob t w"
  by (simp add: getJob_def)

section \<open>A section on one job\<close>

text \<open>
  What a section makes of job and worker: the row of the job is written or not, and the written one is as good as the job.
\<close>

definition secOK :: "string \<Rightarrow> (string \<times> ProcessIdentity) list \<Rightarrow> (string \<Rightarrow> bool) \<Rightarrow> WJob \<times> Worker \<Rightarrow> WJob \<times> Worker \<Rightarrow> bool" where
  "secOK boot live H = (\<lambda>(j, w) (j', w'). jobID j' = jobID j \<and> wk_jobs w' = wk_jobs w \<and> wk_instance w' = wk_instance w \<and>
     jobOK boot live H j' \<and> (completeJ j \<longrightarrow> completeJ j') \<and> (intentJ j \<longrightarrow> intentJ j') \<and> (wj_HandoffComplete j \<longrightarrow> wj_HandoffComplete j') \<and>
     (wj_CopiesReleased j \<longrightarrow> wj_CopiesReleased j') \<and>
     (wk_rows w' = wk_rows w \<and> completeJ j' = completeJ j \<and> wj_HandoffComplete j' = wj_HandoffComplete j \<or>
      (\<exists>r. putRow (jobID j) r (wk_rows w) (wk_rows w') \<and> jobOK boot live H r \<and> jobID r = jobID j \<and> completeJ r = completeJ j' \<and>
         (intentJ j \<longrightarrow> intentJ r) \<and> wj_HandoffComplete r = wj_HandoffComplete j' \<and> (wj_CopiesReleased r \<longrightarrow> wj_CopiesReleased j') \<and> (wj_CopiesReleased j \<longrightarrow> wj_CopiesReleased r))))"

lemma secOK_D:
  assumes "secOK boot live H (j, w) (j', w')"
  shows "jobID j' = jobID j" "wk_jobs w' = wk_jobs w" "wk_instance w' = wk_instance w" "jobOK boot live H j'" "completeJ j \<Longrightarrow> completeJ j'"
    "intentJ j \<Longrightarrow> intentJ j'" "wj_HandoffComplete j \<Longrightarrow> wj_HandoffComplete j'"
    "wj_CopiesReleased j \<Longrightarrow> wj_CopiesReleased j'"
  using assms unfolding secOK_def by auto

lemma secOK_rows:
  assumes sec: "secOK boot live H (j, w) (j', w')" and rows: "rowsOK boot live H (wk_rows w)"
    and r0: "r0 \<in> set (wk_rows w)" "agrees r0 j"
  shows "rowsOK boot live H (wk_rows w')" "\<exists>r\<in>set (wk_rows w'). agrees r j'" "jobID s \<noteq> jobID j \<Longrightarrow> s \<in> set (wk_rows w') \<longleftrightarrow> s \<in> set (wk_rows w)"
    "s \<in> set (wk_rows w') \<Longrightarrow> jobID s = jobID j \<Longrightarrow> completeJ s = completeJ j'"
proof -
  have id: "jobID j' = jobID j" by (rule secOK_D(1)[OF sec])
  consider (same) "wk_rows w' = wk_rows w" "completeJ j' = completeJ j" "wj_HandoffComplete j' = wj_HandoffComplete j"
    | (put) r where "putRow (jobID j) r (wk_rows w) (wk_rows w')" "jobOK boot live H r" "completeJ r = completeJ j'" "wj_CopiesReleased r \<Longrightarrow> wj_CopiesReleased j'"
        "wj_HandoffComplete r = wj_HandoffComplete j'"
    using sec unfolding secOK_def by auto
  note cs = this
  have uniq: "s = r0" if "s \<in> set (wk_rows w)" "jobID s = jobID j" for s
    using job_unique[OF rowsOKD(1)[OF rows] that(1) r0(1)] that(2) r0(2) by (simp add: agrees_def)
  show "rowsOK boot live H (wk_rows w')" using cs by cases (use rows putRow_rowsOK[OF rows] in auto)
  show "jobID s \<noteq> jobID j \<Longrightarrow> s \<in> set (wk_rows w') \<longleftrightarrow> s \<in> set (wk_rows w)" using cs by cases (auto dest: putRowD(1))
  show "\<exists>r\<in>set (wk_rows w'). agrees r j'" using cs
  proof cases
    case same then show ?thesis using r0 id secOK_D(8)[OF sec] by (intro bexI[of _ r0]) (auto simp: agrees_def)
  next
    case (put r)
    obtain s where s: "s \<in> set (wk_rows w')" "jobID s = jobID j" using putRowD(3)[OF put(1)] by blast
    note c = core_eqD[OF putRowD(2)[OF put(1) s]]
    show ?thesis using s put c(2,6,7) id by (intro bexI[of _ s]) (auto simp: agrees_def)
  qed
  show "completeJ s = completeJ j'" if s: "s \<in> set (wk_rows w')" "jobID s = jobID j" using cs
  proof cases
    case same then show ?thesis using uniq[of s] s r0(2) by (simp add: agrees_def)
  next
    case (put r) then show ?thesis using core_eqD(2)[OF putRowD(2)[OF put(1) s]] by simp
  qed
qed

lemma secOK_written:
  assumes sec: "secOK boot live H (j, w) (j', w')" and s: "s \<in> set (wk_rows w')" "jobID s = jobID j"
  shows "s \<in> set (wk_rows w) \<or> (intentJ j \<longrightarrow> intentJ s) \<and> (wj_HandoffComplete j \<longrightarrow> wj_HandoffComplete s) \<and>
    (wj_CopiesReleased j \<longrightarrow> wj_CopiesReleased s)"
proof -
  consider "wk_rows w' = wk_rows w" | r where "putRow (jobID j) r (wk_rows w) (wk_rows w')" "intentJ j \<longrightarrow> intentJ r"
      "wj_HandoffComplete j \<longrightarrow> wj_HandoffComplete r" "wj_CopiesReleased j \<longrightarrow> wj_CopiesReleased r"
    using sec unfolding secOK_def by auto
  then show ?thesis
  proof cases
    case (2 r) then show ?thesis using core_eqD(4,6,7)[OF putRowD(2)[OF 2(1) s]] by simp
  qed (use s in simp)
qed

text \<open>The memory after a section.\<close>

lemma section_memory:
  assumes ok: "rowsOK boot live H (wk_rows w)" "memOK boot live H w" and j: "getJob t w = Some j" and sec: "secOK boot live H (j, w) (j', w')"
  shows "rowsOK boot live H (wk_rows w')" "memOK boot live H (putJob (j', w'))" "getJob u (putJob (j', w')) = (if u = t then Some j' else getJob u w)"
proof -
  note m = memOKD[OF ok(2)] and d = secOK_D[OF sec]
  have t: "jobID j = t" by (rule m(2)[OF j])
  obtain r0 where r0: "r0 \<in> set (wk_rows w)" "agrees r0 j" using m(4)[OF j] by blast
  note rows = secOK_rows[OF sec ok(1) r0]
  show "rowsOK boot live H (wk_rows w')" by (rule rows(1))
  have get: "getJob u (putJob (j', w')) = (if u = t then Some j' else getJob u w)" for u
    using getJob_put[of t w' j j' u] getJob_jobs[OF d(2)] j d(1) t by simp
  then show "getJob u (putJob (j', w')) = (if u = t then Some j' else getJob u w)" .
  show "memOK boot live H (putJob (j', w'))"
  proof (rule memOKI)
    show "distinct (map fst (wk_jobs (putJob (j', w'))))"
      using enter_distinct[of w' "jobID j'" j'] m(1) d(2) by (simp add: putJob_def)
    show "jobID k = u" if "getJob u (putJob (j', w')) = Some k" for u k
      using that m(2)[of u k] t d(1) unfolding get by (simp split: if_splits)
    show "jobOK boot live H k" if "getJob u (putJob (j', w')) = Some k" for u k
      using that m(3)[of u k] d(4) unfolding get by (simp split: if_splits)
    show "\<exists>r\<in>set (wk_rows (putJob (j', w'))). agrees r k" if u: "getJob u (putJob (j', w')) = Some k" for u k
    proof (cases "u = t")
      case True then show ?thesis using rows(2) u unfolding get by simp
    next
      case False
      then have k: "getJob u w = Some k" using u unfolding get by simp
      obtain r where r: "r \<in> set (wk_rows w)" "agrees r k" using m(4)[OF k] by blast
      have "jobID r \<noteq> jobID j" using r(2) m(2)[OF k] False t by (simp add: agrees_def)
      then show ?thesis using rows(3)[of r] r by auto
    qed
    show "getJob (jobID r) (putJob (j', w')) \<noteq> None" if r: "r \<in> set (wk_rows (putJob (j', w')))" "\<not> completeJ r" for r
    proof (cases "jobID r = t")
      case False
      then have "r \<in> set (wk_rows w)" using rows(3)[of r] r(1) t by simp
      then show ?thesis using m(5)[OF _ r(2)] False unfolding get by simp
    qed (simp add: get)
  qed
qed

text \<open>A section keeps the goroutines right, if it takes care of those that work on the same job.\<close>

definition careful :: "wthread list \<Rightarrow> string \<Rightarrow> WJob \<times> Worker \<Rightarrow> WJob \<times> Worker \<Rightarrow> bool" where
  "careful ths t = (\<lambda>(j, w) (j', w').
     (completeJ j' \<longrightarrow> completeJ j \<or> (\<forall>th\<in>set ths. observer th \<noteq> Some t)) \<and>
     (wj_observing j \<longrightarrow> wj_observing j' \<or> (\<forall>th\<in>set ths. t \<notin> set (observedBy th))) \<and>
     (finishedJ j \<longrightarrow> finishedJ j' \<and> (clientJ j' = clientJ j \<and> intentJ j' = intentJ j \<or> (\<forall>th\<in>set ths. observer th \<noteq> Some t))) \<and>
     ((\<exists>th\<in>set ths. t \<in> set (runs th)) \<longrightarrow> \<not> finishedJ j' \<and> wk_active w' = wk_active w) \<and> (wk_active w' = wk_active w \<or> wk_active w = t))"

lemma carefulD:
  assumes "careful ths t (j, w) (j', w')" "th \<in> set ths"
  shows "observer th = Some t \<Longrightarrow> completeJ j' \<Longrightarrow> completeJ j" "t \<in> set (observedBy th) \<Longrightarrow> wj_observing j \<Longrightarrow> wj_observing j'"
    "finishedJ j \<Longrightarrow> finishedJ j'" "observer th = Some t \<Longrightarrow> finishedJ j \<Longrightarrow> clientJ j' = clientJ j \<and> intentJ j' = intentJ j"
    "t \<in> set (runs th) \<Longrightarrow> \<not> finishedJ j' \<and> wk_active w' = wk_active w" "wk_active w' = wk_active w \<or> wk_active w = t"
  using assms unfolding careful_def by auto

lemma section_thread:
  assumes ok: "rowsOK boot live H (wk_rows w)" "memOK boot live H w" and j: "getJob t w = Some j" and sec: "secOK boot live H (j, w) (j', w')"
    and care: "careful ths t (j, w) (j', w')" and th: "th \<in> set ths" "threadOK boot live H w th"
  shows "threadOK boot live H (putJob (j', w')) th"
proof -
  note m = memOKD[OF ok(2)] and d = secOK_D[OF sec] and c = carefulD[OF care th(1)] and get = section_memory(3)[OF ok j sec]
  have t: "jobID j = t" by (rule m(2)[OF j])
  obtain r0 where r0: "r0 \<in> set (wk_rows w)" "agrees r0 j" using m(4)[OF j] by blast
  note rows = secOK_rows[OF sec ok(1) r0] and written = secOK_written[OF sec]
  have rowOther: "s \<in> set (wk_rows w)" if "s \<in> set (wk_rows w')" "jobID s \<noteq> t" for s using rows(3)[of s] that t by simp
  show ?thesis
  proof (cases th)
    case (TRun u pc)
    obtain k where k: "getJob u w = Some k" "\<not> finishedJ k" "u \<noteq> []" "wk_active w = u" "\<And>i. (u, i) \<in> set live \<Longrightarrow> \<exists>st err. pc = PWait st err (Some i)"
      and cr: "\<And>a. pc = PCreate a \<Longrightarrow> xq_WorkerInstance a = wk_instance w \<and> xq_TaskID a = u \<and> intentJ k \<and> (\<forall>r\<in>set (wk_rows w). jobID r = u \<longrightarrow> intentJ r)"
      using th(2) unfolding TRun by auto
    have active: "wk_active w' = u" using c(5,6) k(4) TRun by (cases "u = t") auto
    have rowIntent: "intentJ s" if "pc = PCreate a" "s \<in> set (wk_rows w')" "jobID s = u" for a s
      using cr[OF that(1)] written[OF that(2)] rowOther[OF that(2)] that(2,3) k(1) j t by (cases "u = t") auto
    show ?thesis
    proof (cases "u = t")
      case True
      then have "k = j" using k(1) j by simp
      then show ?thesis unfolding TRun using get True c(5) TRun active k cr d(3,6) rowIntent by auto
    next
      case False then show ?thesis unfolding TRun using get active k cr d(3) rowIntent by auto
    qed
  next
    case (TReconcile u)
    then show ?thesis using th(2) get c(1,2) j by (cases "u = t") auto
  next
    case (TStop u q)
    then show ?thesis using th(2) get c(1-4) j d(3) by (cases "u = t") auto
  next
    case (TClient u q s l)
    then show ?thesis using th(2) get c(1-4) j by (cases "u = t") auto
  next
    case (TReport u q s l g)
    then show ?thesis using th(2) get c(1-4) j by (cases "u = t") auto
  next
    case (TObserved u)
    then show ?thesis using th(2) get c(2) d(5) j by (cases "u = t") auto
  next
    case (THandoff u obj)
    show ?thesis
    proof (cases obj)
      case None
      have h: "\<And>k. getJob u w = Some k \<Longrightarrow> wj_HandoffComplete k" "\<And>r. r \<in> set (wk_rows w) \<Longrightarrow> jobID r = u \<Longrightarrow> wj_HandoffComplete r"
        using th(2) unfolding THandoff None by auto
      have "wj_HandoffComplete s" if "s \<in> set (wk_rows w')" "jobID s = u" for s
        using h written[OF that(1)] rowOther[OF that(1)] that(2) j t by (cases "u = t") auto
      then show ?thesis unfolding THandoff None using get h d(7) j by auto
    next
      case (Some k0)
      have h: "jobID k0 = u" "jobOK boot live H k0" "wj_CopiesReleased k0" "\<And>k. getJob u w = Some k \<Longrightarrow> wj_CopiesReleased k"
        "\<And>r. r \<in> set (wk_rows w) \<Longrightarrow> jobID r = u \<Longrightarrow> wj_CopiesReleased r"
        using th(2) unfolding THandoff Some by auto
      have "wj_CopiesReleased s" if "s \<in> set (wk_rows w')" "jobID s = u" for s
        using h(4,5) written[OF that(1)] rowOther[OF that(1)] that(2) j t by (cases "u = t") auto
      then show ?thesis unfolding THandoff Some using get h d(8) j by auto
    qed
  qed simp_all
qed

lemma wk_section:
  assumes ok: "upOK boot live H w ths" and j: "getJob t w = Some j" and sec: "secOK boot live H (j, w) (j', w')" and care: "careful ths t (j, w) (j', w')"
  shows "upOK boot live H (putJob (j', w')) ths"
proof -
  note o = upOKD[OF ok]
  have "threadOK boot live H (putJob (j', w')) th" if "th \<in> set ths" for th by (rule section_thread[OF o(1,2) j sec care that o(4)[OF that]])
  then show ?thesis using section_memory(1,2)[OF o(1,2) j sec] o(3) by (simp add: upOK_def threadsOK_def)
qed

section \<open>Goroutines that come and go\<close>

lemma in_set_remove1I: "x \<in> set (remove1 y xs) \<Longrightarrow> x \<in> set xs"
  by (meson notin_set_remove1)

lemma concat_remove1:
  assumes "x \<in> set xs"
  shows "mset (concat (map f xs)) = mset (f x) + mset (concat (map f (remove1 x xs)))"
  using assms by (induction xs) auto

lemma distinct_mset_le: "distinct xs \<Longrightarrow> mset xs = mset ys + mset zs \<Longrightarrow> distinct ys \<and> distinct zs \<and> set ys \<inter> set zs = {}"
  by (metis distinct_append mset_append mset_eq_imp_distinct_iff)

lemma inv_replace:
  assumes ok: "upOK boot live H w ths" and th: "th \<in> set ths" and new: "\<And>n. n \<in> set ns \<Longrightarrow> threadOK boot live H w n"
    and obs: "distinct (concat (map observedBy ns))" "set (concat (map observedBy ns)) \<subseteq> set (observedBy th)"
    and run: "length (concat (map runs ns)) \<le> length (runs th)"
  shows "upOK boot live H w (remove1 th ths @ ns)"
proof -
  note o = upOKD[OF ok]
  have t: "distinct (concat (map observedBy ths))" "length (concat (map runs ths)) \<le> 1" using o(3) by (auto simp: threadsOK_def)
  note d = distinct_mset_le[OF t(1) concat_remove1[OF th]]
  have "length (concat (map runs ths)) = length (runs th) + length (concat (map runs (remove1 th ths)))"
    using arg_cong[OF concat_remove1[OF th, of runs], of size] by simp
  then have "length (concat (map runs (remove1 th ths @ ns))) \<le> 1" using t(2) run by simp
  moreover have "distinct (concat (map observedBy (remove1 th ths @ ns)))" using d obs by auto
  moreover have "threadOK boot live H w n" if "n \<in> set (remove1 th ths @ ns)" for n
    using that new o(4) by (auto dest: in_set_remove1I)
  ultimately show ?thesis using o by (simp add: upOK_def threadsOK_def)
qed

lemma inv_add:
  assumes ok: "upOK boot live H w ths" and new: "threadOK boot live H w n"
    and obs: "\<And>t. t \<in> set (observedBy n) \<Longrightarrow> (\<forall>th\<in>set ths. t \<notin> set (observedBy th))" and run: "runs n = [] \<or> (\<forall>th\<in>set ths. runs th = [])"
  shows "upOK boot live H w (ths @ [n])"
proof -
  note o = upOKD[OF ok]
  have "distinct (observedBy n)" by (cases n) auto
  then have "distinct (concat (map observedBy (ths @ [n])))" using o(3) obs by (auto simp: threadsOK_def)
  moreover have "length (concat (map runs (ths @ [n]))) \<le> 1"
  proof (cases "runs n = []")
    case True then show ?thesis using o(3) by (simp add: threadsOK_def)
  next
    case False
    then have "concat (map runs ths) = []" using run by simp
    moreover have "length (runs n) \<le> 1" by (cases n) auto
    moreover have "length (concat (map runs (ths @ [n]))) = length (concat (map runs ths)) + length (runs n)" by simp
    ultimately show ?thesis by (metis add_0 list.size(3))
  qed
  ultimately show ?thesis using o new by (auto simp: upOK_def threadsOK_def)
qed

end
