(* ===== verification/WorkerSecs.thy ===== *)
theory WorkerSecs
  imports WorkerInv
begin

text \<open>Every section of the worker keeps the invariant: sections that change nothing a goroutine relies on are \<open>quiet\<close>.\<close>

section \<open>Observations on changed jobs\<close>

lemma on_simps [simp]:
  "jobID (onSession f j) = jobID j" "jobID (onExecution g j) = jobID j" "jobID (onResources h j) = jobID j" "jobID (onEvidence k j) = jobID j"
  "completeJ (onSession f j) = completeJ j" "completeJ (onExecution g j) = completeJ j" "completeJ (onResources h j) = completeJ j" "completeJ (onEvidence k j) = completeJ j"
  "finishedJ (onSession f j) = finishedJ j" "finishedJ (onResources h j) = finishedJ j" "finishedJ (onEvidence k j) = finishedJ j"
  "clientJ (onExecution g j) = clientJ j" "clientJ (onResources h j) = clientJ j" "clientJ (onEvidence k j) = clientJ j"
  "intentJ (onExecution g j) = intentJ j" "intentJ (onResources h j) = intentJ j" "intentJ (onEvidence k j) = intentJ j"
  "evidenceOf (onSession f j) = evidenceOf j" "evidenceOf (onResources h j) = evidenceOf j" "evidenceOf (onEvidence k j) = k (evidenceOf j)"
  "resourcesOf (onSession f j) = resourcesOf j" "resourcesOf (onResources h j) = h (resourcesOf j)" "resourcesOf (onEvidence k j) = resourcesOf j"
  by (simp_all add: jobID_def completeJ_def finishedJ_def clientJ_def intentJ_def evidenceOf_def resourcesOf_def onSession_def onExecution_def onResources_def onEvidence_def)

lemma on_fields [simp]:
  "wj_State (onSession f j) = wj_State j" "wj_State (onExecution g j) = wj_State j" "wj_State (onResources h j) = wj_State j" "wj_State (onEvidence k j) = wj_State j"
  "wj_observing (onSession f j) = wj_observing j" "wj_observing (onExecution g j) = wj_observing j" "wj_observing (onResources h j) = wj_observing j" "wj_observing (onEvidence k j) = wj_observing j"
  "wj_HandoffComplete (onSession f j) = wj_HandoffComplete j" "wj_HandoffComplete (onExecution g j) = wj_HandoffComplete j"
  "wj_HandoffComplete (onResources h j) = wj_HandoffComplete j" "wj_HandoffComplete (onEvidence k j) = wj_HandoffComplete j"
  "wj_CopiesReleased (onSession f j) = wj_CopiesReleased j" "wj_CopiesReleased (onExecution g j) = wj_CopiesReleased j"
  "wj_CopiesReleased (onResources h j) = wj_CopiesReleased j" "wj_CopiesReleased (onEvidence k j) = wj_CopiesReleased j"
  "wj_ManifestDigest (onSession f j) = wj_ManifestDigest j" "wj_ManifestDigest (onExecution g j) = wj_ManifestDigest j"
  "wj_ManifestDigest (onResources h j) = wj_ManifestDigest j" "wj_ManifestDigest (onEvidence k j) = wj_ManifestDigest j"
  "wj_Session (onSession f j) = f (wj_Session j)" "wj_Session (onExecution g j) = wj_Session j" "wj_Session (onResources h j) = wj_Session j" "wj_Session (onEvidence k j) = wj_Session j"
  "wj_Execution (onSession f j) = wj_Execution j" "wj_Execution (onExecution g j) = g (wj_Execution j)" "wj_Cleanup (onResources h j) = wj_Cleanup j"
  "wj_Cleanup (onSession f j) = wj_Cleanup j" "wj_Cleanup (onExecution g j) = wj_Cleanup j" "wj_Cleanup (onEvidence k j) = wj_Cleanup j"
  by (simp_all add: onSession_def onExecution_def onResources_def onEvidence_def)

lemma upd_simps [simp]:
  "jobID (j\<lparr>wj_ManifestDigest := v0\<rparr>) = jobID j" "completeJ (j\<lparr>wj_ManifestDigest := v0\<rparr>) = completeJ j" "finishedJ (j\<lparr>wj_ManifestDigest := v0\<rparr>) = finishedJ j" "clientJ (j\<lparr>wj_ManifestDigest := v0\<rparr>) = clientJ j" "intentJ (j\<lparr>wj_ManifestDigest := v0\<rparr>) = intentJ j" "evidenceOf (j\<lparr>wj_ManifestDigest := v0\<rparr>) = evidenceOf j" "resourcesOf (j\<lparr>wj_ManifestDigest := v0\<rparr>) = resourcesOf j"
  "jobID (j\<lparr>wj_collecting := v1\<rparr>) = jobID j" "completeJ (j\<lparr>wj_collecting := v1\<rparr>) = completeJ j" "finishedJ (j\<lparr>wj_collecting := v1\<rparr>) = finishedJ j" "clientJ (j\<lparr>wj_collecting := v1\<rparr>) = clientJ j" "intentJ (j\<lparr>wj_collecting := v1\<rparr>) = intentJ j" "evidenceOf (j\<lparr>wj_collecting := v1\<rparr>) = evidenceOf j" "resourcesOf (j\<lparr>wj_collecting := v1\<rparr>) = resourcesOf j"
  "jobID (j\<lparr>wj_observing := v2\<rparr>) = jobID j" "completeJ (j\<lparr>wj_observing := v2\<rparr>) = completeJ j" "finishedJ (j\<lparr>wj_observing := v2\<rparr>) = finishedJ j" "clientJ (j\<lparr>wj_observing := v2\<rparr>) = clientJ j" "intentJ (j\<lparr>wj_observing := v2\<rparr>) = intentJ j" "evidenceOf (j\<lparr>wj_observing := v2\<rparr>) = evidenceOf j" "resourcesOf (j\<lparr>wj_observing := v2\<rparr>) = resourcesOf j"
  "jobID (j\<lparr>wj_recoverResources := v3\<rparr>) = jobID j" "completeJ (j\<lparr>wj_recoverResources := v3\<rparr>) = completeJ j" "finishedJ (j\<lparr>wj_recoverResources := v3\<rparr>) = finishedJ j" "clientJ (j\<lparr>wj_recoverResources := v3\<rparr>) = clientJ j" "intentJ (j\<lparr>wj_recoverResources := v3\<rparr>) = intentJ j" "evidenceOf (j\<lparr>wj_recoverResources := v3\<rparr>) = evidenceOf j" "resourcesOf (j\<lparr>wj_recoverResources := v3\<rparr>) = resourcesOf j"
  "jobID (j\<lparr>wj_Files := v4\<rparr>) = jobID j" "completeJ (j\<lparr>wj_Files := v4\<rparr>) = completeJ j" "finishedJ (j\<lparr>wj_Files := v4\<rparr>) = finishedJ j" "clientJ (j\<lparr>wj_Files := v4\<rparr>) = clientJ j" "intentJ (j\<lparr>wj_Files := v4\<rparr>) = intentJ j" "evidenceOf (j\<lparr>wj_Files := v4\<rparr>) = evidenceOf j" "resourcesOf (j\<lparr>wj_Files := v4\<rparr>) = resourcesOf j"
  "jobID (j\<lparr>wj_Outputs := v5\<rparr>) = jobID j" "completeJ (j\<lparr>wj_Outputs := v5\<rparr>) = completeJ j" "finishedJ (j\<lparr>wj_Outputs := v5\<rparr>) = finishedJ j" "clientJ (j\<lparr>wj_Outputs := v5\<rparr>) = clientJ j" "intentJ (j\<lparr>wj_Outputs := v5\<rparr>) = intentJ j" "evidenceOf (j\<lparr>wj_Outputs := v5\<rparr>) = evidenceOf j" "resourcesOf (j\<lparr>wj_Outputs := v5\<rparr>) = resourcesOf j"
  "jobID (j\<lparr>wj_Deadline := v6\<rparr>) = jobID j" "completeJ (j\<lparr>wj_Deadline := v6\<rparr>) = completeJ j" "finishedJ (j\<lparr>wj_Deadline := v6\<rparr>) = finishedJ j" "clientJ (j\<lparr>wj_Deadline := v6\<rparr>) = clientJ j" "intentJ (j\<lparr>wj_Deadline := v6\<rparr>) = intentJ j" "evidenceOf (j\<lparr>wj_Deadline := v6\<rparr>) = evidenceOf j" "resourcesOf (j\<lparr>wj_Deadline := v6\<rparr>) = resourcesOf j"
  "jobID (j\<lparr>wj_HandoffComplete := v7\<rparr>) = jobID j" "completeJ (j\<lparr>wj_HandoffComplete := v7\<rparr>) = completeJ j" "finishedJ (j\<lparr>wj_HandoffComplete := v7\<rparr>) = finishedJ j" "clientJ (j\<lparr>wj_HandoffComplete := v7\<rparr>) = clientJ j" "intentJ (j\<lparr>wj_HandoffComplete := v7\<rparr>) = intentJ j" "evidenceOf (j\<lparr>wj_HandoffComplete := v7\<rparr>) = evidenceOf j" "resourcesOf (j\<lparr>wj_HandoffComplete := v7\<rparr>) = resourcesOf j"
  "jobID (j\<lparr>wj_CopiesReleased := v8\<rparr>) = jobID j" "completeJ (j\<lparr>wj_CopiesReleased := v8\<rparr>) = completeJ j" "finishedJ (j\<lparr>wj_CopiesReleased := v8\<rparr>) = finishedJ j" "clientJ (j\<lparr>wj_CopiesReleased := v8\<rparr>) = clientJ j" "intentJ (j\<lparr>wj_CopiesReleased := v8\<rparr>) = intentJ j" "evidenceOf (j\<lparr>wj_CopiesReleased := v8\<rparr>) = evidenceOf j" "resourcesOf (j\<lparr>wj_CopiesReleased := v8\<rparr>) = resourcesOf j"
  "jobID (j\<lparr>wj_HandoffFinished := v9\<rparr>) = jobID j" "completeJ (j\<lparr>wj_HandoffFinished := v9\<rparr>) = completeJ j" "finishedJ (j\<lparr>wj_HandoffFinished := v9\<rparr>) = finishedJ j" "clientJ (j\<lparr>wj_HandoffFinished := v9\<rparr>) = clientJ j" "intentJ (j\<lparr>wj_HandoffFinished := v9\<rparr>) = intentJ j" "evidenceOf (j\<lparr>wj_HandoffFinished := v9\<rparr>) = evidenceOf j" "resourcesOf (j\<lparr>wj_HandoffFinished := v9\<rparr>) = resourcesOf j"
  "jobID (j\<lparr>wj_State := v10\<rparr>) = jobID j" "completeJ (j\<lparr>wj_State := v10\<rparr>) = completeJ j" "finishedJ (j\<lparr>wj_State := v10\<rparr>) = finishedJ j" "clientJ (j\<lparr>wj_State := v10\<rparr>) = clientJ j" "intentJ (j\<lparr>wj_State := v10\<rparr>) = intentJ j" "evidenceOf (j\<lparr>wj_State := v10\<rparr>) = evidenceOf j" "resourcesOf (j\<lparr>wj_State := v10\<rparr>) = resourcesOf j"
  "jobID (j\<lparr>wj_Cleanup := v11\<rparr>) = jobID j" "finishedJ (j\<lparr>wj_Cleanup := v11\<rparr>) = finishedJ j" "clientJ (j\<lparr>wj_Cleanup := v11\<rparr>) = clientJ j" "intentJ (j\<lparr>wj_Cleanup := v11\<rparr>) = intentJ j" "evidenceOf (j\<lparr>wj_Cleanup := v11\<rparr>) = evidenceOf j" "resourcesOf (j\<lparr>wj_Cleanup := v11\<rparr>) = resourcesOf j"
  by (simp_all add: jobID_def completeJ_def finishedJ_def clientJ_def intentJ_def evidenceOf_def resourcesOf_def)

lemmas observe_defs = jobID_def completeJ_def finishedJ_def clientJ_def intentJ_def evidenceOf_def resourcesOf_def

section \<open>Quiet sections\<close>

definition calm :: "WJob \<times> Worker \<Rightarrow> WJob \<times> Worker \<Rightarrow> bool" where
  "calm = (\<lambda>(j, w) (j', w'). completeJ j' = completeJ j \<and> (wj_observing j \<longrightarrow> wj_observing j') \<and> finishedJ j' = finishedJ j \<and>
     (finishedJ j \<longrightarrow> clientJ j' = clientJ j \<and> intentJ j' = intentJ j) \<and> wk_active w' = wk_active w)"

definition quiet :: "string \<Rightarrow> (string \<times> ProcessIdentity) list \<Rightarrow> (string \<Rightarrow> bool) \<Rightarrow> WJob \<times> Worker \<Rightarrow> WJob \<times> Worker \<Rightarrow> bool" where
  "quiet boot live H a b \<longleftrightarrow> secOK boot live H a b \<and> calm a b"

lemma secOK_cases:
  assumes "secOK boot live H (j, w) (j', w')"
  obtains (same) "wk_rows w' = wk_rows w" "completeJ j' = completeJ j" "wj_HandoffComplete j' = wj_HandoffComplete j"
  | (put) r where "putRow (jobID j) r (wk_rows w) (wk_rows w')" "jobOK boot live H r" "jobID r = jobID j" "completeJ r = completeJ j'"
      "intentJ j \<Longrightarrow> intentJ r" "wj_HandoffComplete r = wj_HandoffComplete j'" "wj_CopiesReleased r \<Longrightarrow> wj_CopiesReleased j'" "wj_CopiesReleased j \<Longrightarrow> wj_CopiesReleased r"
  using assms unfolding secOK_def split by blast

lemma secOK_same:
  assumes "jobID j' = jobID j" "wk_jobs w' = wk_jobs w" "wk_instance w' = wk_instance w" "jobOK boot live H j'"
    "intentJ j \<Longrightarrow> intentJ j'" "wj_HandoffComplete j' = wj_HandoffComplete j" "wk_rows w' = wk_rows w" "completeJ j' = completeJ j"
    "wj_CopiesReleased j \<Longrightarrow> wj_CopiesReleased j'"
  shows "secOK boot live H (j, w) (j', w')"
  unfolding secOK_def split using assms by blast

lemma secOK_put:
  assumes "jobID j' = jobID j" "wk_jobs w' = wk_jobs w" "wk_instance w' = wk_instance w" "jobOK boot live H j'" "completeJ j \<Longrightarrow> completeJ j'"
    "intentJ j \<Longrightarrow> intentJ j'" "wj_HandoffComplete j \<Longrightarrow> wj_HandoffComplete j'"
    "putRow (jobID j) r (wk_rows w) (wk_rows w')" "jobOK boot live H r" "jobID r = jobID j" "completeJ r = completeJ j'"
    "intentJ j \<Longrightarrow> intentJ r" "wj_HandoffComplete r = wj_HandoffComplete j'" "wj_CopiesReleased r \<Longrightarrow> wj_CopiesReleased j'" "wj_CopiesReleased j \<Longrightarrow> wj_CopiesReleased r"
  shows "secOK boot live H (j, w) (j', w')"
  unfolding secOK_def split using assms by blast

lemma secOK_trans:
  assumes a: "secOK boot live H (j, w) (j1, w1)" and b: "secOK boot live H (j1, w1) (j2, w2)"
  shows "secOK boot live H (j, w) (j2, w2)"
proof -
  note d = secOK_D[OF a] and e = secOK_D[OF b]
  have base: "jobID j2 = jobID j" "wk_jobs w2 = wk_jobs w" "wk_instance w2 = wk_instance w" using d(1,2,3) e(1,2,3) by simp_all
  have mono: "completeJ j \<Longrightarrow> completeJ j2" "intentJ j \<Longrightarrow> intentJ j2" "wj_HandoffComplete j \<Longrightarrow> wj_HandoffComplete j2"
    "wj_CopiesReleased j \<Longrightarrow> wj_CopiesReleased j2" using d(5-8) e(5-8) by blast+
  from b show ?thesis
  proof (cases rule: secOK_cases)
    case same
    from a show ?thesis
    proof (cases rule: secOK_cases)
      case inner: same
      show ?thesis by (rule secOK_same[OF base e(4) mono(2)]) (use inner same mono(4) in simp_all)
    next
      case (put r)
      show ?thesis
        by (rule secOK_put[OF base e(4) mono(1,2,3), where r = r]) (use put same e(8) in simp_all)
    qed
  next
    case (put s)
    have p: "putRow (jobID j) s (wk_rows w) (wk_rows w2)"
      using a
    proof (cases rule: secOK_cases)
      case same then show ?thesis using put(1) d(1) by simp
    next
      case (put r) then show ?thesis using putRow_trans[OF put(1)] \<open>putRow (jobID j1) s (wk_rows w1) (wk_rows w2)\<close> d(1) by simp
    qed
    show ?thesis by (rule secOK_put[OF base e(4) mono(1,2,3) p put(2)]) (use put d in simp_all)
  qed
qed

lemma calm_trans:
  assumes "calm (j, w) (j1, w1)" "calm (j1, w1) (j2, w2)"
  shows "calm (j, w) (j2, w2)"
  using assms unfolding calm_def split by metis

lemma quiet_trans:
  assumes "quiet boot live H (j, w) (j1, w1)" "quiet boot live H (j1, w1) (j2, w2)"
  shows "quiet boot live H (j, w) (j2, w2)"
  using secOK_trans[of boot live H j w j1 w1 j2 w2] calm_trans[of j w j1 w1 j2 w2] assms unfolding quiet_def by blast

lemma quiet_ok: "quiet boot live H (j, w) (j', w') \<Longrightarrow> jobOK boot live H j'"
  using secOK_D(4) unfolding quiet_def by blast

text \<open>The two ingredients: a change of the job, and a save.\<close>

lemma quiet_modify:
  assumes "jobOK boot live H j'" "jobID j' = jobID j" "completeJ j' = completeJ j" "finishedJ j' = finishedJ j"
    "wj_HandoffComplete j' = wj_HandoffComplete j" "wj_CopiesReleased j' = wj_CopiesReleased j" "wj_observing j \<longrightarrow> wj_observing j'"
    "clientJ j' = clientJ j \<or> \<not> finishedJ j" "intentJ j' = intentJ j \<or> \<not> finishedJ j \<and> intentJ j'"
    "wk_jobs w' = wk_jobs w" "wk_rows w' = wk_rows w" "wk_instance w' = wk_instance w" "wk_active w' = wk_active w"
  shows "quiet boot live H (j, w) (j', w')"
  unfolding quiet_def
proof
  show "secOK boot live H (j, w) (j', w')" by (rule secOK_same) (use assms in auto)
  show "calm (j, w) (j', w')" unfolding calm_def split using assms by blast
qed

lemma jobOK_core: "coreJ a = coreJ b \<Longrightarrow> jobOK boot live H a \<Longrightarrow> jobOK boot live H b"
  using core_eqD(9) by blast

lemma quiet_save:
  assumes ok: "jobOK boot live H j" and sv: "saveJob err (j, w) = (e, j', w')"
  shows "quiet boot live H (j, w) (j', w')"
  using sv
proof (cases rule: saveJob_cases)
  case failed then show ?thesis using ok by (auto intro: quiet_modify)
next
  case saved
  have c: "coreJ j' = coreJ j" using saved(2) by simp
  note f = core_eqD[OF c]
  have "jobOK boot live H j'" using jobOK_core[OF c[symmetric] ok] .
  moreover have "wj_observing j' = wj_observing j" using saved(2) by simp
  ultimately show ?thesis
    unfolding quiet_def
    by (intro conjI secOK_put[where r = j]) (use saved f ok in \<open>simp_all add: calm_def\<close>)
qed

lemma quiet_modify_save:
  assumes q: "quiet boot live H (j, w) (j1, w)" and sv: "saveJob err (j1, w) = (e, j', w')"
  shows "quiet boot live H (j, w) (j', w')"
  by (rule quiet_trans[OF q quiet_save[OF quiet_ok[OF q] sv]])

lemma calm_careful:
  assumes ok: "upOK boot live H w ths" and j: "getJob t w = Some j" and c: "calm (j, w) (j', w')"
  shows "careful ths t (j, w) (j', w')"
proof -
  have "\<not> finishedJ j" if th: "th \<in> set ths" "t \<in> set (runs th)" for th
    using upOKD(4)[OF ok th(1)] th(2) j by (cases th) auto
  then show ?thesis using c unfolding careful_def calm_def by auto
qed

lemma inv_quiet:
  assumes ok: "upOK boot live H w ths" and j: "getJob t w = Some j" and q: "quiet boot live H (j, w) (j', w')"
  shows "upOK boot live H (putJob (j', w')) ths"
  using wk_section[OF ok j] calm_careful[OF ok j] q by (simp add: quiet_def)

section \<open>Evidence\<close>

definition endedState :: "string \<Rightarrow> bool" where
  "endedState s \<longleftrightarrow> s \<noteq> ''importing'' \<and> s \<noteq> ''building''"

lemma jobOK_like:
  assumes ok: "jobOK boot live H j" and same: "jobID j' = jobID j" "completeJ j' = completeJ j" "finishedJ j' = finishedJ j"
    "clientJ j' = clientJ j \<or> (\<forall>i. (jobID j, i) \<notin> set live) \<and> \<not> completeJ j"
    "endedState (wj_State j') = endedState (wj_State j)" "wj_CopiesReleased j' = wj_CopiesReleased j" "wj_HandoffComplete j' = wj_HandoffComplete j"
    and new: "intentJ j \<Longrightarrow> intentJ j'" "evidenceOK (evidenceOf j') (wj_ManifestDigest j')" "completeJ j \<Longrightarrow> NixResources_Released (resourcesOf j')"
  shows "jobOK boot live H j'"
proof -
  have "jobSane j'" using ok same new unfolding jobOK_def jobSane_def endedState_def[symmetric] by metis
  moreover have "knows boot (clientJ j') i" if "(jobID j', i) \<in> set live" for i
    using that ok same(1,4) unfolding jobOK_def by metis
  ultimately show ?thesis using ok same(1,2) new(1) unfolding jobOK_def by metis
qed

lemma jobOK_D:
  assumes "jobOK boot live H j"
  shows "evidenceOK (evidenceOf j) (wj_ManifestDigest j)" "completeJ j \<Longrightarrow> NixResources_Released (resourcesOf j)" "completeJ j \<Longrightarrow> finishedJ j"
    "wj_HandoffComplete j \<Longrightarrow> completeJ j" "wj_CopiesReleased j \<Longrightarrow> wj_HandoffComplete j" "completeJ j \<Longrightarrow> fst (clientJ j) = None \<and> \<not> fst (snd (clientJ j))"
    "finishedJ j \<longleftrightarrow> wj_State j \<noteq> ''importing'' \<and> wj_State j \<noteq> ''building''" "(jobID j, i) \<in> set live \<Longrightarrow> knows boot (clientJ j) i"
    "H (jobID j) \<Longrightarrow> intentJ j" "H (jobID j) \<Longrightarrow> \<not> completeJ j"
  using assms unfolding jobOK_def jobSane_def by blast+

text \<open>A quiet change that keeps all but flags, evidence and resources.\<close>

lemma quiet_like:
  assumes ok: "jobOK boot live H j" and same: "jobID j' = jobID j" "completeJ j' = completeJ j" "finishedJ j' = finishedJ j"
    "clientJ j' = clientJ j \<or> (\<forall>i. (jobID j, i) \<notin> set live) \<and> \<not> finishedJ j"
    "endedState (wj_State j') = endedState (wj_State j)" "wj_CopiesReleased j' = wj_CopiesReleased j" "wj_HandoffComplete j' = wj_HandoffComplete j"
    "intentJ j' = intentJ j \<or> \<not> finishedJ j \<and> intentJ j'"
    and new: "evidenceOK (evidenceOf j') (wj_ManifestDigest j')" "completeJ j \<Longrightarrow> NixResources_Released (resourcesOf j')" "wj_observing j \<Longrightarrow> wj_observing j'"
    and w: "wk_jobs w' = wk_jobs w" "wk_rows w' = wk_rows w" "wk_instance w' = wk_instance w" "wk_active w' = wk_active w"
  shows "quiet boot live H (j, w) (j', w')"
proof -
  have "\<not> completeJ j" if "\<not> finishedJ j" using jobOK_D(3)[OF ok] that by blast
  then have "jobOK boot live H j'" by (intro jobOK_like[OF ok]) (use same new in blast)+
  then show ?thesis by (rule quiet_modify) (use same new w in blast)+
qed

lemma collectLocked_quiet:
  assumes ok: "jobOK boot live H j" and eq: "collectLocked err now (j, w) = ((j', w'), started)"
  shows "quiet boot live H (j, w) (j', w')"
proof (cases "wk_closing w \<or> wj_collecting j \<or> wj_Cleanup j \<noteq> ''complete'' \<or> ne_State (evidenceOf j) \<noteq> ''pending'' \<or>
    (case ne_NextAttempt (evidenceOf j) of Some t \<Rightarrow> now < t | None \<Rightarrow> False)")
  case True
  then have "j' = j" "w' = w" using eq by (auto simp: collectLocked_def Let_def)
  then show ?thesis using quiet_like[OF ok] jobOK_D[OF ok] by simp
next
  case False
  note e = jobOK_D(1)[OF ok] and rel = jobOK_D(2)[OF ok]
  show ?thesis
  proof (cases "wj_ManifestDigest j = []")
    case man: False
    let ?j = "onEvidence (\<lambda>x. x\<lparr>ne_State := ''transferring'', ne_Error := None\<rparr>) j"
    obtain x where sv: "saveJob err (?j, w) = (x, j', w')" using eq False man by (auto simp: collectLocked_def Let_def prod_eq_iff)
    show ?thesis by (rule quiet_modify_save[OF quiet_like[OF ok] sv]) (use e rel in \<open>simp_all add: evidenceOK_def\<close>)
  next
    case True
    let ?j = "onEvidence (\<lambda>x. x\<lparr>ne_State := ''collecting'', ne_Attempts := ne_Attempts x + 1, ne_Error := None, ne_Updated := Some now,
                  ne_NextAttempt := None\<rparr>) (j\<lparr>wj_collecting := True\<rparr>)"
    obtain x j2 w2 where sv: "saveJob err (?j, w) = (x, j2, w2)" by (cases "saveJob err (?j, w)")
    have q: "quiet boot live H (j, w) (j2, w2)"
      by (rule quiet_modify_save[OF quiet_like[OF ok] sv]) (use e rel True False in \<open>auto simp: evidenceOK_def\<close>)
    show ?thesis
    proof (cases x)
      case None then show ?thesis using eq False True sv q by (simp add: collectLocked_def Let_def)
    next
      case (Some er)
      note ok2 = quiet_ok[OF q]
      have "quiet boot live H (j2, w2) (j', w')"
        by (rule quiet_like[OF ok2]) (use eq False True sv Some jobOK_D(1,2)[OF ok2] in \<open>auto simp: collectLocked_def Let_def evidenceOK_def\<close>)
      then show ?thesis by (rule quiet_trans[OF q])
    qed
  qed
qed

lemma collectEnd_quiet:
  assumes ok: "jobOK boot live H j" and eq: "collectEnd digest io now (j, w) = (j', w')"
  shows "quiet boot live H (j, w) (j', w')"
proof -
  note e = jobOK_D(1)[OF ok] and rel = jobOK_D(2)[OF ok]
  let ?j1 = "onEvidence (\<lambda>x. x\<lparr>ne_Updated := Some now\<rparr>) (j\<lparr>wj_collecting := False\<rparr>)"
  define s where "s = (case co_index io of
            Inl e \<Rightarrow> (Some e, ?j1, w)
          | Inr files \<Rightarrow> saveJob (co_save io) (onEvidence (\<lambda>x. x\<lparr>ne_State := ''transferring''\<rparr>) (?j1\<lparr>wj_Files := files, wj_ManifestDigest := digest files\<rparr>), w))"
  obtain err j2 w2 where s: "s = (err, j2, w2)" by (cases s)
  have q: "quiet boot live H (j, w) (j2, w2)"
  proof (cases "co_index io")
    case (Inl er)
    then have "j2 = ?j1" "w2 = w" using s by (simp_all add: s_def)
    then show ?thesis by (simp only:) (rule quiet_like[OF ok], use e rel in \<open>simp_all add: evidenceOK_def\<close>)
  next
    case (Inr files)
    then have sv: "saveJob (co_save io) (onEvidence (\<lambda>x. x\<lparr>ne_State := ''transferring''\<rparr>) (?j1\<lparr>wj_Files := files, wj_ManifestDigest := digest files\<rparr>), w) = (err, j2, w2)"
      using s by (simp add: s_def)
    show ?thesis by (rule quiet_modify_save[OF quiet_like[OF ok] sv]) (use e rel in \<open>simp_all add: evidenceOK_def\<close>)
  qed
  note ok2 = quiet_ok[OF q]
  have r: "(j', w') = (case err of None \<Rightarrow> (j2, w2) | Some e \<Rightarrow>
        let j3 = onEvidence (\<lambda>x. x\<lparr>ne_State := ''blocked'', ne_Error := Some (jobLifecycleError now ''evidence'' e j2)\<rparr>) j2;
            j4 = (if TransientEvidence e \<and> ne_Attempts (evidenceOf j3) < 3
                  then onEvidence (\<lambda>x. x\<lparr>ne_State := ''pending'', ne_NextAttempt := Some (now + (if ne_Attempts x = 2 then 5 * second else second))\<rparr>) j3
                  else j3) in
        snd (saveJob (co_again io) (j4, w2)))"
    using eq s unfolding collectEnd_def split Let_def s_def[symmetric] by simp
  show ?thesis
  proof (cases err)
    case None then show ?thesis using r q by simp
  next
    case (Some er)
    define j3 where "j3 = onEvidence (\<lambda>x. x\<lparr>ne_State := ''blocked'', ne_Error := Some (jobLifecycleError now ''evidence'' er j2)\<rparr>) j2"
    define j4 where "j4 = (if TransientEvidence er \<and> ne_Attempts (evidenceOf j3) < 3
                  then onEvidence (\<lambda>x. x\<lparr>ne_State := ''pending'', ne_NextAttempt := Some (now + (if ne_Attempts x = 2 then 5 * second else second))\<rparr>) j3
                  else j3)"
    have "(j', w') = snd (saveJob (co_again io) (j4, w2))"
      using r Some by (simp only: option.case Let_def j3_def j4_def)
    then obtain x where sv: "saveJob (co_again io) (j4, w2) = (x, j', w')" by (metis prod.collapse)
    have "quiet boot live H (j2, w2) (j4, w2)"
      by (rule quiet_like[OF ok2]) (use jobOK_D(1,2)[OF ok2] in \<open>auto simp: j4_def j3_def evidenceOK_def\<close>)
    from quiet_trans[OF q quiet_modify_save[OF this sv]] show ?thesis .
  qed
qed

lemma callEvidence_quiet:
  assumes ok: "jobOK boot live H j" and eq: "callEvidence retry cerr serr now (j, w) = ((res, j', w'), started)"
  shows "quiet boot live H (j, w) (j', w')"
proof -
  define j1 where "j1 = (if retry \<and> ne_State (evidenceOf j) = ''blocked''
               then onEvidence (\<lambda>x. x\<lparr>ne_State := ''pending'', ne_Error := None, ne_Attempts := 0\<rparr>) j else j)"
  obtain j2 w2 st where c: "collectLocked cerr now (j1, w) = ((j2, w2), st)" by (metis prod.exhaust_sel)
  have q1: "quiet boot live H (j, w) (j1, w)"
    by (rule quiet_like[OF ok]) (use jobOK_D(1,2)[OF ok] in \<open>simp_all add: j1_def evidenceOK_def\<close>)
  have q2: "quiet boot live H (j, w) (j2, w2)" by (rule quiet_trans[OF q1 collectLocked_quiet[OF quiet_ok[OF q1] c]])
  obtain x where sv: "saveJob serr (j2, w2) = (x, j', w')"
    using eq c unfolding callEvidence_def split Let_def j1_def[symmetric] by (auto split: option.splits prod.splits)
  show ?thesis by (rule quiet_trans[OF q2 quiet_save[OF quiet_ok[OF q2] sv]])
qed

section \<open>The run of a job\<close>

lemma quiet_refl: "jobOK boot live H j \<Longrightarrow> quiet boot live H (j, w) (j, w)"
  using quiet_like[of boot live H j j w w] jobOK_D by blast

lemma admitBegin_quiet:
  assumes ok: "jobOK boot live H j" "\<not> finishedJ j" and eq: "admitBegin d err (j, w) = (res, j', w')"
  shows "quiet boot live H (j, w) (j', w')"
    and "res = Inr a \<Longrightarrow> xq_WorkerInstance a = wk_instance w \<and> xq_TaskID a = jobID j \<and> intentJ j' \<and> (\<forall>r\<in>set (wk_rows w'). jobID r = jobID j \<longrightarrow> intentJ r)"
proof -
  have nc: "\<not> completeJ j" using jobOK_D(3)[OF ok(1)] ok(2) by blast
  consider (no) x where "res = Inl x" "j' = j" "w' = w"
    | (yes) v sv where "saveJob err (onResources (\<lambda>x. x\<lparr>nr_State := ''owned''\<rparr>) (onSession (\<lambda>s. s\<lparr>ws_Intent := True, ws_ExecutorInstance := v\<rparr>) j), w) = (sv, j', w')"
        "\<And>a. res = Inr a \<Longrightarrow> sv = None \<and> xq_WorkerInstance a = wk_instance w \<and> xq_TaskID a = jobID j"
    using eq by (auto simp: admitBegin_def Let_def sessionRequest_def split: sum.splits prod.splits if_splits option.splits)
  note cs = this
  have q: "quiet boot live H (j, w) (onResources f (onSession (\<lambda>s. s\<lparr>ws_Intent := True, ws_ExecutorInstance := v\<rparr>) j), w)" for f v
    by (rule quiet_like[OF ok(1)]) (use ok(2) nc jobOK_D(1)[OF ok(1)] in \<open>simp_all add: clientJ_def intentJ_def\<close>)
  show "quiet boot live H (j, w) (j', w')" using cs
  proof cases
    case no then show ?thesis using quiet_refl[OF ok(1)] by simp
  next
    case yes show ?thesis by (rule quiet_modify_save[OF q yes(1)])
  qed
  show "xq_WorkerInstance a = wk_instance w \<and> xq_TaskID a = jobID j \<and> intentJ j' \<and> (\<forall>r\<in>set (wk_rows w'). jobID r = jobID j \<longrightarrow> intentJ r)" if r: "res = Inr a"
    using cs
  proof cases
    case no then show ?thesis using r by simp
  next
    case (yes v sv)
    note sv = yes(2)[OF r, THEN conjunct1] and a = yes(2)[OF r, THEN conjunct2]
    let ?j = "onResources (\<lambda>x. x\<lparr>nr_State := ''owned''\<rparr>) (onSession (\<lambda>s. s\<lparr>ws_Intent := True, ws_ExecutorInstance := v\<rparr>) j)"
    have i: "intentJ ?j" by (simp add: intentJ_def)
    from yes(1)[unfolded sv] show ?thesis
    proof (cases rule: saveJob_cases)
      case saved
      have "intentJ s" if "s \<in> set (wk_rows w')" "jobID s = jobID j" for s
        using core_eqD(4)[OF putRowD(2)[OF saved(3) that(1)]] that(2) i by simp
      moreover have "intentJ j'" using saved(2) i by (simp add: intentJ_def)
      ultimately show ?thesis using a by simp
    qed simp
  qed
qed

lemma admitEnd_quiet:
  assumes ok: "jobOK boot live H j" "\<not> finishedJ j" and eq: "admitEnd s err (j, w) = (e, j', w')"
  shows "quiet boot live H (j, w) (j', w')"
proof -
  have nc: "\<not> completeJ j" using jobOK_D(3)[OF ok(1)] ok(2) by blast
  show ?thesis
  proof (cases "xs_ExecutorInstance s \<noteq> ws_ExecutorInstance (wj_Session j)")
    case True then show ?thesis using eq quiet_refl[OF ok(1)] by (simp add: admitEnd_def)
  next
    case False
    let ?j = "onResources (\<lambda>_. xs_Resources s) (onSession (\<lambda>x. x\<lparr>ws_Executor := Some s\<rparr>) j)"
    obtain x where sv: "saveJob err (?j, w) = (x, j', w')" using eq False by (auto simp: admitEnd_def split: option.splits prod.splits)
    show ?thesis
      by (rule quiet_modify_save[OF quiet_like[OF ok(1)] sv]) (use nc jobOK_D(1)[OF ok(1)] in \<open>simp_all add: clientJ_def intentJ_def\<close>)
  qed
qed

lemma enterStage_quiet:
  assumes ok: "jobOK boot live H j" and eq: "enterStage st err (j, w) = (e, j', w')"
  shows "quiet boot live H (j, w) (j', w')"
proof -
  define j2 where "j2 = (let j1 = onExecution (\<lambda>x. x\<lparr>nx_Stage := st, nx_Process := None\<rparr>) j in
     if st = ''validate'' then (onExecution (\<lambda>x. x\<lparr>nx_Imported := True\<rparr>) j1)\<lparr>wj_Request := (wj_Request j1)\<lparr>wr_Cache := []\<rparr>\<rparr> else j1)"
  have sv: "saveJob err (j2, w) = (e, j', w')" using eq by (simp add: enterStage_def Let_def j2_def)
  show ?thesis
    by (rule quiet_modify_save[OF quiet_like[OF ok] sv]) (use jobOK_D(1,2)[OF ok] in \<open>simp_all add: j2_def Let_def observe_defs onExecution_def\<close>)
qed

lemma enterBuild_quiet:
  assumes ok: "jobOK boot live H j" "\<not> finishedJ j" and eq: "enterBuild err (j, w) = (e, j', w')"
  shows "quiet boot live H (j, w) (j', w')"
proof -
  have sv: "saveJob err (onExecution (\<lambda>x. x\<lparr>nx_Stage := ''build'', nx_Process := None\<rparr>) (j\<lparr>wj_State := ''building''\<rparr>), w) = (e, j', w')"
    using eq by (simp add: enterBuild_def)
  show ?thesis
    by (rule quiet_modify_save[OF quiet_like[OF ok(1)] sv])
      (use jobOK_D(1,2,7)[OF ok(1)] ok(2) in \<open>auto simp: observe_defs onExecution_def endedState_def\<close>)
qed

lemma recordProcess_quiet: "jobOK boot live H j \<Longrightarrow> quiet boot live H (j, w) (recordProcess v j, w)"
  by (rule quiet_like) (use jobOK_D in \<open>auto simp: recordProcess_def observe_defs onExecution_def\<close>)

lemma setOutputs_quiet: "jobOK boot live H j \<Longrightarrow> quiet boot live H (j, w) (setOutputs outs j, w)"
  by (rule quiet_like) (use jobOK_D in \<open>auto simp: setOutputs_def\<close>)

lemma extendEnd_quiet:
  assumes ok: "jobOK boot live H j" and eq: "extendEnd err d reply (j, w) = (res, j', w')"
  shows "quiet boot live H (j, w) (j', w')"
proof -
  consider "j' = j" "w' = w" | s x where "saveJob err ((onSession (\<lambda>x. x\<lparr>ws_Executor := Some s\<rparr>) j)\<lparr>wj_Deadline := d\<rparr>, w) = (x, j', w')"
    using eq by (auto simp: extendEnd_def Let_def split: sum.splits if_splits option.splits prod.splits)
  then show ?thesis
  proof cases
    case 1 then show ?thesis using quiet_refl[OF ok] by simp
  next
    case (2 s x)
    show ?thesis by (rule quiet_modify_save[OF quiet_like[OF ok] 2]) (use jobOK_D(1,2)[OF ok] in \<open>simp_all add: clientJ_def intentJ_def\<close>)
  qed
qed

section \<open>Client processes\<close>

text \<open>A change of what is known of the client of an unfinished job without a living client.\<close>

lemma session_quiet:
  assumes ok: "jobOK boot live H j" "\<not> finishedJ j" and none: "\<And>i. (jobID j, i) \<notin> set live" and f: "\<And>s. ws_Intent (f s) = ws_Intent s"
  shows "quiet boot live H (j, w) (onSession f j, w)"
  by (rule quiet_like[OF ok(1)]) (use ok(2) none f jobOK_D(1,2)[OF ok(1)] in \<open>simp_all add: intentJ_def\<close>)

lemma launchClient_quiet:
  assumes ok: "jobOK boot live H j" "\<not> finishedJ j" and none: "\<And>i. (jobID j, i) \<notin> set live" and eq: "launchClient io (j, w) = (r, j', w')"
  shows "quiet boot live H (j, w) (j', w')"
proof -
  have quiet2: "quiet boot live H (j, w) (j2, w2)" if q: "quiet boot live H (j, w) (j1, w1)" and sv: "saveJob e (onSession f j1, w1) = (x, j2, w2)"
    and f: "\<And>s. ws_Intent (f s) = ws_Intent s" for j1 w1 e f x j2 w2
  proof -
    have j1: "jobOK boot live H j1" "\<not> finishedJ j1" "jobID j1 = jobID j" using q ok(2) secOK_D(1,4) unfolding quiet_def calm_def by auto
    have "quiet boot live H (j1, w1) (onSession f j1, w1)" by (rule session_quiet[OF j1(1,2) _ f]) (use none j1(3) in simp)
    from quiet_trans[OF q quiet_modify_save[OF this sv]] show ?thesis .
  qed
  show ?thesis
  proof (cases "la_boot io")
    case (Inl e) then show ?thesis using eq quiet_refl[OF ok(1)] by (simp add: launchClient_def)
  next
    case (Inr b)
    let ?f = "\<lambda>s. s\<lparr>ws_ClientBoot := b, ws_Launching := True\<rparr>"
    obtain e1 j1 w1 where s1: "saveJob (la_save1 io) (onSession ?f j, w) = (e1, j1, w1)" by (cases "saveJob (la_save1 io) (onSession ?f j, w)")
    have q1: "quiet boot live H (j, w) (j1, w1)" by (rule quiet2[OF quiet_refl[OF ok(1)] s1]) simp
    note j1 = quiet_ok[OF q1]
    have id1: "jobID j1 = jobID j" "\<not> finishedJ j1" using q1 ok(2) secOK_D(1) unfolding quiet_def calm_def by auto
    show ?thesis
    proof (cases e1)
      case (Some e)
      have "quiet boot live H (j1, w1) (onSession (\<lambda>s. s\<lparr>ws_Launching := False\<rparr>) j1, w1)" by (rule session_quiet[OF j1 id1(2)]) (use none id1 in simp_all)
      from quiet_trans[OF q1 this] show ?thesis using eq Inr s1 Some by (simp add: launchClient_def)
    next
      case None
      obtain f where "\<exists>x. saveJob (la_save2 io) (onSession f j1, w1) = (x, j', w')" "\<And>s. ws_Intent (f s) = ws_Intent s"
      proof (cases "la_start io")
        case (Inl e)
        show ?thesis by (rule that[of "\<lambda>s. s\<lparr>ws_Launching := False\<rparr>"]) (use eq Inr s1 None Inl in \<open>auto simp: launchClient_def split: prod.splits\<close>)
      next
        case st: (Inr p)
        show ?thesis
        proof (cases "la_inspect io")
          case (Inl e)
          have "onSession (\<lambda>s. s) j1 = j1" by (simp add: onSession_def)
          then show ?thesis using that[of "\<lambda>s. s"] eq Inr s1 None st Inl by (auto simp: launchClient_def split: prod.splits)
        next
          case (Inr i)
          show ?thesis
            by (rule that[of "\<lambda>s. s\<lparr>ws_Client := Some i, ws_Launching := False\<rparr>"])
              (use eq \<open>la_boot io = Inr b\<close> s1 None st Inr in \<open>auto simp: launchClient_def split: prod.splits\<close>)
        qed
      qed
      then show ?thesis using quiet2[OF q1] by blast
    qed
  qed
qed

lemma launchClient_knows:
  assumes eq: "launchClient io (j, w) = (Inr (err, Some p), j', w')" and b: "\<And>b. la_boot io = Inr b \<Longrightarrow> b = boot"
    and k: "\<And>k. la_start io = Inr p \<Longrightarrow> la_inspect io = Inr k \<Longrightarrow> k = p"
  shows "knows boot (clientJ j') p" "s \<in> set (wk_rows w') \<Longrightarrow> jobID s = jobID j \<Longrightarrow> knows boot (clientJ s) p"
proof -
  obtain bt where bt: "la_boot io = Inr bt" using eq by (cases "la_boot io") (auto simp: launchClient_def)
  then have bt': "bt = boot" using b by simp
  let ?j = "onSession (\<lambda>s. s\<lparr>ws_ClientBoot := bt, ws_Launching := True\<rparr>) j"
  obtain e1 j1 w1 where s1: "saveJob (la_save1 io) (?j, w) = (e1, j1, w1)" by (cases "saveJob (la_save1 io) (?j, w)")
  have e1: "e1 = None" using eq bt s1 by (cases e1) (auto simp: launchClient_def)
  have st: "la_start io = Inr p" using eq bt s1 e1 by (auto simp: launchClient_def split: sum.splits prod.splits)
  have c1: "knows boot (clientJ ?j) p" by (simp add: knows_def clientJ_def bt')
  from s1[unfolded e1] have all: "knows boot (clientJ j1) p \<and> jobID j1 = jobID j \<and> (\<forall>s. s \<in> set (wk_rows w1) \<longrightarrow> jobID s = jobID j \<longrightarrow> knows boot (clientJ s) p)"
  proof (cases rule: saveJob_cases)
    case saved
    have "coreJ j1 = coreJ ?j" using saved(2) by simp
    from core_eqD(1,5)[OF this] have "knows boot (clientJ j1) p" "jobID j1 = jobID j" using c1 by simp_all
    moreover have "knows boot (clientJ s) p" if "s \<in> set (wk_rows w1)" "jobID s = jobID j" for s
      using core_eqD(5)[OF putRowD(2)[OF saved(3) that(1)]] that(2) c1 by simp
    ultimately show ?thesis by blast
  qed simp
  then have j1: "knows boot (clientJ j1) p" "jobID j1 = jobID j" and r1: "\<And>s. s \<in> set (wk_rows w1) \<Longrightarrow> jobID s = jobID j \<Longrightarrow> knows boot (clientJ s) p"
    by blast+
  obtain j2 x where s2: "saveJob (la_save2 io) (j2, w1) = (x, j', w')" and j2: "knows boot (clientJ j2) p" "jobID j2 = jobID j"
  proof (cases "la_inspect io")
    case (Inl e) then show ?thesis using that[of j1] eq bt s1 e1 st j1 by (auto simp: launchClient_def split: prod.splits)
  next
    case (Inr i)
    then have "i = p" using k[OF st] by simp
    then show ?thesis
      using that[of "onSession (\<lambda>s. s\<lparr>ws_Client := Some i, ws_Launching := False\<rparr>) j1"] eq bt s1 e1 st j1(2) Inr
      by (auto simp: launchClient_def knows_def clientJ_def split: prod.splits)
  qed
  from s2 show "knows boot (clientJ j') p"
    by (cases rule: saveJob_cases) (use j2 in \<open>auto simp: clientJ_def\<close>)
  from s2 show "knows boot (clientJ s) p" if "s \<in> set (wk_rows w')" "jobID s = jobID j"
  proof (cases rule: saveJob_cases)
    case failed then show ?thesis using r1 that by simp
  next
    case saved then show ?thesis using core_eqD(5)[OF putRowD(2)[OF saved(3) that(1)]] that(2) j2 by simp
  qed
qed

lemma reapedClient_quiet:
  assumes ok: "jobOK boot live H j" "\<not> finishedJ j" and none: "\<And>i. (jobID j, i) \<notin> set live" and eq: "reapedClient err serr (j, w) = (e, j', w')"
  shows "quiet boot live H (j, w) (j', w')"
proof -
  let ?f = "\<lambda>s. s\<lparr>ws_Client := None, ws_Launching := False\<rparr>"
  obtain x where sv: "saveJob serr (onSession ?f j, w) = (x, j', w')" using eq by (auto simp: reapedClient_def split: prod.splits)
  show ?thesis by (rule quiet_modify_save[OF session_quiet[OF ok none] sv]) simp
qed

end
