(* ===== verification/WorkerMoves.thy ===== *)
theory WorkerMoves
  imports WorkerSecs
begin

text \<open>
  The sections of the worker that start or end the observation of a job, end a run, complete a job or hand its evidence off,
  with the goroutines they start.
\<close>

section \<open>Goroutines of one job\<close>

lemma observedBy_observing:
  assumes "threadOK boot live H w th" "t \<in> set (observedBy th)" "getJob t w = Some j" "\<not> completeJ j"
  shows "wj_observing j"
  using assms by (cases th) auto

lemma run_unfinished:
  assumes "threadOK boot live H w th" "t \<in> set (runs th)" "getJob t w = Some j"
  shows "\<not> finishedJ j" "wk_active w = t"
  using assms by (cases th; auto)+

lemma careful_I:
  assumes "completeJ j' \<Longrightarrow> completeJ j \<or> (\<forall>th\<in>set ths. observer th \<noteq> Some t)" "wj_observing j \<Longrightarrow> wj_observing j' \<or> (\<forall>th\<in>set ths. t \<notin> set (observedBy th))"
    "finishedJ j \<Longrightarrow> finishedJ j' \<and> (clientJ j' = clientJ j \<and> intentJ j' = intentJ j \<or> (\<forall>th\<in>set ths. observer th \<noteq> Some t))"
    "\<And>th. th \<in> set ths \<Longrightarrow> t \<in> set (runs th) \<Longrightarrow> \<not> finishedJ j' \<and> wk_active w' = wk_active w" "wk_active w' = wk_active w \<or> wk_active w = t"
  shows "careful ths t (j, w) (j', w')"
  unfolding careful_def split using assms by blast

text \<open>A section that may end with the start of an observation.\<close>

lemma wk_observe:
  assumes ok: "upOK boot live H w ths" and j: "getJob t w = Some j" and sec: "secOK boot live H (j, w) (j1, w1)" and care: "careful ths t (j, w) (j1, w1)"
    and obs: "wj_observing j1 = wj_observing j" "completeJ j1 = completeJ j" and eq: "observeLocked j1 w' = (j2, started)" and w': "w' = w1"
  shows "upOK boot live H (putJob (j2, w1)) (ths @ reconcileThread t started)"
proof (cases started)
  case False
  then have "j2 = j1" using eq by (auto simp: observeLocked_def split: if_splits)
  then show ?thesis using wk_section[OF ok j sec care] False by (simp add: reconcileThread_def)
next
  case True
  then have s: "j2 = j1\<lparr>wj_observing := True\<rparr>" "\<not> wj_observing j1" "\<not> completeJ j1"
    using eq by (auto simp: observeLocked_def completeJ_def split: if_splits)
  note d = secOK_D[OF sec]
  have core: "coreJ j2 = coreJ j1" by (simp add: s(1) coreJ_def jobID_def)
  note c = core_eqD[OF core]
  have sec2: "secOK boot live H (j1, w1) (j2, w1)"
    by (rule secOK_same) (use c d(4) in simp_all)
  have sec': "secOK boot live H (j, w) (j2, w1)" by (rule secOK_trans[OF sec sec2])
  have care': "careful ths t (j, w) (j2, w1)"
    by (rule careful_I) (use carefulD[OF care] c care s in \<open>auto simp: careful_def\<close>)
  note up = wk_section[OF ok j sec' care']
  have get: "getJob t (putJob (j2, w1)) = Some j2" using section_memory(3)[OF upOKD(1,2)[OF ok] j sec'] by simp
  have "t \<notin> set (observedBy th)" if "th \<in> set ths" for th
    using observedBy_observing[OF upOKD(4)[OF ok that] _ j] s obs by auto
  then have "upOK boot live H (putJob (j2, w1)) (ths @ [TReconcile t])"
    by (intro inv_add[OF up]) (use get s c in auto)
  then show ?thesis using True by (simp add: reconcileThread_def)
qed

lemma inv_observe_quiet:
  assumes ok: "upOK boot live H w ths" and j: "getJob t w = Some j" and q: "quiet boot live H (j, w) (j1, w1)"
    and obs: "wj_observing j1 = wj_observing j" and eq: "observeLocked j1 w' = (j2, started)" and w': "w' = w1"
  shows "upOK boot live H (putJob (j2, w1)) (ths @ reconcileThread t started)"
proof (rule wk_observe[OF ok j _ _ obs _ eq w'])
  show "secOK boot live H (j, w) (j1, w1)" "completeJ j1 = completeJ j" using q by (auto simp: quiet_def calm_def)
  show "careful ths t (j, w) (j1, w1)" using calm_careful[OF ok j] q by (simp add: quiet_def)
qed

lemma cancelContext_fields [simp]:
  "wk_jobs (cancelContext t w) = wk_jobs w" "wk_rows (cancelContext t w) = wk_rows w" "wk_instance (cancelContext t w) = wk_instance w"
  "wk_active (cancelContext t w) = wk_active w" "wk_closing (cancelContext t w) = wk_closing w"
  by (simp_all add: cancelContext_def)

lemma observe_closing: "wk_closing w' = wk_closing w \<Longrightarrow> observeLocked j w' = observeLocked j w"
  by (simp add: observeLocked_def)

lemma inv_callResources:
  assumes ok: "upOK boot live H w ths" and j: "getJob t w = Some j" and eq: "callResources retry (j, w) = (jw, started)"
  shows "upOK boot live H (putJob jw) (ths @ reconcileThread t started)"
proof -
  define j1 where "j1 = (if retry \<and> wj_Cleanup j \<noteq> ''complete''
    then (onResources (\<lambda>x. x\<lparr>nr_State := ''releasing'', nr_Error := None\<rparr>) j)\<lparr>wj_recoverResources := True, wj_Cleanup := ''pending''\<rparr> else j)"
  define j2 where "j2 = (if nx_Finished (wj_Execution j1) = None then onSession (\<lambda>s. s\<lparr>ws_StopReason := ''cancelled''\<rparr>) j1 else j1)"
  let ?w = "cancelContext (jobID j) w"
  obtain j3 st where o1: "observeLocked j2 ?w = (j3, st)" by (cases "observeLocked j2 ?w")
  have "callResources retry (j, w) = ((j3, ?w), st)"
    using o1 by (simp only: callResources_def split Let_def j1_def[symmetric] j2_def[symmetric])
  then have o: "observeLocked j2 ?w = (j3, started)" "jw = (j3, ?w)" using eq o1 by simp_all
  have jo: "jobOK boot live H j" by (rule memOKD(3)[OF upOKD(2)[OF ok] j])
  have f: "completeJ j2 = completeJ j" "finishedJ j2 = finishedJ j" "jobID j2 = jobID j" "clientJ j2 = clientJ j" "intentJ j2 = intentJ j"
    "wj_State j2 = wj_State j" "evidenceOf j2 = evidenceOf j" "wj_ManifestDigest j2 = wj_ManifestDigest j" "wj_observing j2 = wj_observing j"
    "wj_HandoffComplete j2 = wj_HandoffComplete j" "wj_CopiesReleased j2 = wj_CopiesReleased j" "completeJ j \<Longrightarrow> resourcesOf j2 = resourcesOf j"
    by (auto simp: j2_def j1_def observe_defs onSession_def onResources_def onExecution_def)
  have q: "quiet boot live H (j, w) (j2, ?w)"
    by (rule quiet_like[OF jo]) (use f jobOK_D(1,2)[OF jo] in simp_all)
  show ?thesis unfolding o(2) by (rule inv_observe_quiet[OF ok j q f(9) o(1) refl])
qed

lemma inv_watch:
  assumes ok: "upOK boot live H w ths" and j: "getJob t w = Some j" and eq: "watchDeadline now (j, w) = (jw, started)"
  shows "upOK boot live H (putJob jw) (ths @ reconcileThread t started)"
proof -
  have jo: "jobOK boot live H j" by (rule memOKD(3)[OF upOKD(2)[OF ok] j])
  show ?thesis
  proof (cases "now < wj_Deadline j")
    case True
    then show ?thesis using eq inv_quiet[OF ok j quiet_refl[OF jo]] by (simp add: watchDeadline_def reconcileThread_def)
  next
    case False
    let ?j = "onSession (\<lambda>s. s\<lparr>ws_StopReason := ''deadline''\<rparr>) j" and ?w = "cancelContext (jobID j) w"
    obtain j1 where o: "observeLocked ?j w = (j1, started)" "jw = (j1, ?w)"
      using eq False by (auto simp: watchDeadline_def split: prod.splits)
    have f: "clientJ ?j = clientJ j" "intentJ ?j = intentJ j" by (auto simp: observe_defs onSession_def)
    have q: "quiet boot live H (j, w) (?j, ?w)"
      by (rule quiet_like[OF jo]) (use f jobOK_D(1,2)[OF jo] in simp_all)
    show ?thesis unfolding o(2)
      by (rule inv_observe_quiet[OF ok j q _ o(1)[unfolded observe_closing[of ?w w, OF cancelContext_fields(5), symmetric]] refl]) simp
  qed
qed

section \<open>The end of a run\<close>

lemma jobOK_I:
  assumes "completeJ j \<Longrightarrow> NixResources_Released (resourcesOf j) \<and> finishedJ j \<and> fst (clientJ j) = None \<and> \<not> fst (snd (clientJ j))"
    "finishedJ j \<longleftrightarrow> wj_State j \<noteq> ''importing'' \<and> wj_State j \<noteq> ''building''" "wj_CopiesReleased j \<Longrightarrow> wj_HandoffComplete j" "wj_HandoffComplete j \<Longrightarrow> completeJ j"
    "evidenceOK (evidenceOf j) (wj_ManifestDigest j)" "\<And>i. (jobID j, i) \<in> set live \<Longrightarrow> knows boot (clientJ j) i" "H (jobID j) \<Longrightarrow> intentJ j \<and> \<not> completeJ j"
  shows "jobOK boot live H j"
  unfolding jobOK_def jobSane_def using assms by blast

lemma inv_complete:
  assumes ok: "upOK boot live H w ths" and j: "getJob t w = Some j" and nf: "\<not> finishedJ j" and nr: "\<And>th. th \<in> set ths \<Longrightarrow> t \<notin> set (runs th)"
    and eq: "completeJob saveErr now err interrupted (j, w) = (jw, started)"
  shows "upOK boot live H (putJob jw) (ths @ reconcileThread t started)"
proof -
  define j1 where "j1 = onExecution (\<lambda>x. x\<lparr>nx_Finished := Some now, nx_Error := (case err of Some e \<Rightarrow> Some (Safe e) | None \<Rightarrow> nx_Error x)\<rparr>)
    (j\<lparr>wj_State := (if interrupted then ''interrupted'' else if err \<noteq> None then ''failed'' else ''succeeded''), wj_Cleanup := ''pending''\<rparr>)"
  define w1 where "w1 = (cancelContext (jobID j) w)\<lparr>wk_cancel := removeAll (jobID j) (wk_cancel w)\<rparr>"
  obtain sv j2 w2 where s: "saveJob saveErr (j1, w1) = (sv, j2, w2)" by (cases "saveJob saveErr (j1, w1)")
  define j3 where "j3 = (if sv = None then j2
    else (onExecution (\<lambda>x. x\<lparr>nx_PersistenceError := Some (Safe (Fail ''terminal_write'' ''Nix execution result could not be persisted''))\<rparr>) j2)\<lparr>wj_Cleanup := ''required''\<rparr>)"
  obtain j4 st where o1: "observeLocked j3 w2 = (j4, st)" by (cases "observeLocked j3 w2")
  have "completeJob saveErr now err interrupted (j, w) = ((j4, w2), st)"
    by (simp only: completeJob_def split Let_def j1_def[symmetric] w1_def[symmetric] s j3_def[symmetric] o1)
  then have o: "observeLocked j3 w2 = (j4, started)" "jw = (j4, w2)" using eq o1 by simp_all
  have jo: "jobOK boot live H j" by (rule memOKD(3)[OF upOKD(2)[OF ok] j])
  note jd = jobOK_D[OF jo]
  have nc: "\<not> completeJ j" using jd(3) nf by blast
  have nh: "\<not> wj_HandoffComplete j" "\<not> wj_CopiesReleased j" using jd(4,5) nc by blast+
  have f: "jobID j1 = jobID j" "\<not> completeJ j1" "finishedJ j1" "clientJ j1 = clientJ j" "intentJ j1 = intentJ j" "evidenceOf j1 = evidenceOf j"
    "wj_ManifestDigest j1 = wj_ManifestDigest j" "wj_observing j1 = wj_observing j" "wj_HandoffComplete j1 = wj_HandoffComplete j"
    "wj_CopiesReleased j1 = wj_CopiesReleased j" "wj_State j1 \<noteq> ''importing''" "wj_State j1 \<noteq> ''building''"
    by (auto simp: j1_def observe_defs onExecution_def)
  have j1: "jobOK boot live H j1" by (rule jobOK_I) (use f nh jd in auto)
  have sec1: "secOK boot live H (j, w) (j1, w1)"
    by (rule secOK_same) (use f nc j1 in \<open>simp_all add: w1_def\<close>)
  have q2: "quiet boot live H (j1, w1) (j2, w2)" by (rule quiet_save[OF j1 s])
  have f2: "jobOK boot live H j2" "completeJ j2 = completeJ j1" "finishedJ j2 = finishedJ j1" "jobID j2 = jobID j1" "wk_active w2 = wk_active w1"
    using q2 quiet_ok[OF q2] secOK_D(1) unfolding quiet_def calm_def by auto
  have ob2: "wj_observing j2 = wj_observing j1" using s by (cases rule: saveJob_cases) auto
  have f3: "jobID j3 = jobID j2" "completeJ j3 = completeJ j2" "finishedJ j3 = finishedJ j2" "clientJ j3 = clientJ j2" "intentJ j3 = intentJ j2" "evidenceOf j3 = evidenceOf j2"
    "wj_ManifestDigest j3 = wj_ManifestDigest j2" "wj_observing j3 = wj_observing j2" "wj_HandoffComplete j3 = wj_HandoffComplete j2"
    "wj_CopiesReleased j3 = wj_CopiesReleased j2" "wj_State j3 = wj_State j2"
    using f(2) f2(2) by (auto simp: j3_def observe_defs onExecution_def)
  have q3: "quiet boot live H (j2, w2) (j3, w2)"
    by (rule quiet_like[OF f2(1)]) (use f3 jobOK_D(1,2)[OF f2(1)] f(2) f2(2) in simp_all)
  have q: "quiet boot live H (j1, w1) (j3, w2)" by (rule quiet_trans[OF q2 q3])
  have sec: "secOK boot live H (j, w) (j3, w2)" using secOK_trans[OF sec1] q by (simp add: quiet_def)
  have care: "careful ths t (j, w) (j3, w2)"
    by (rule careful_I) (use f f2 f3 ob2 nf nr w1_def in simp_all)
  show ?thesis unfolding o(2)
    by (rule wk_observe[OF ok j sec care _ _ o(1) refl]) (use f f2 f3 ob2 nc in simp_all)
qed

section \<open>Reconciliation\<close>

lemma inv_reconcileBegin:
  assumes ok: "upOK boot live H w ths" and j: "getJob t w = Some j" and th: "TReconcile t \<in> set ths" and eq: "reconcileBegin now (j, w) = (q, j1)"
  shows "upOK boot live H (putJob (j1, w)) (remove1 (TReconcile t) ths @ [afterReconcile t q])"
proof -
  note m = memOKD[OF upOKD(2)[OF ok]]
  have jo: "jobOK boot live H j" and id: "jobID j = t" using m(2,3) j by blast+
  have tr: "wj_observing j" "\<not> completeJ j" using upOKD(4)[OF ok th] j by auto
  have f: "jobID j1 = jobID j" "completeJ j1 = completeJ j" "finishedJ j1 = finishedJ j" "clientJ j1 = clientJ j" "intentJ j1 = intentJ j" "evidenceOf j1 = evidenceOf j"
    "wj_ManifestDigest j1 = wj_ManifestDigest j" "wj_observing j1 = wj_observing j" "wj_HandoffComplete j1 = wj_HandoffComplete j"
    "wj_CopiesReleased j1 = wj_CopiesReleased j" "wj_State j1 = wj_State j" "resourcesOf j1 = resourcesOf j"
    using eq by (auto simp: reconcileBegin_def Let_def observe_defs onSession_def split: if_splits)
  have q: "quiet boot live H (j, w) (j1, w)"
    by (rule quiet_like[OF jo]) (use f jobOK_D(1,2)[OF jo] in simp_all)
  note up = inv_quiet[OF ok j q]
  have sec: "secOK boot live H (j, w) (j1, w)" using q by (simp add: quiet_def)
  have get: "getJob t (putJob (j1, w)) = Some j1" using section_memory(3)[OF upOKD(1,2)[OF ok] j sec] by simp
  have new: "threadOK boot live H (putJob (j1, w)) (afterReconcile t q)"
  proof (cases q)
    case None then show ?thesis using get tr f by (simp add: afterReconcile_def)
  next
    case (Some x)
    have x: "rc_finished x = finishedJ j" "xq_WorkerInstance (rc_request x) = wk_instance w" "xq_TaskID (rc_request x) = t"
      "clientJ j1 = (rc_client x, rc_launching x, rc_clientBoot x)" "intentJ j1 = rc_intent x"
      using eq id unfolding Some by (auto simp: reconcileBegin_def Let_def observe_defs onSession_def sessionRequest_def split: if_splits)
    then show ?thesis unfolding Some using get tr f by (simp add: afterReconcile_def)
  qed
  have "observedBy (afterReconcile t q) = [t]" "runs (afterReconcile t q) = []" by (cases q; simp add: afterReconcile_def)+
  then show ?thesis by (intro inv_replace[OF up th]) (use new in auto)
qed

text \<open>Fields of a job after its resources were reported.\<close>

lemma blockResources_fields:
  "jobID (blockResources now e j) = jobID j" "completeJ (blockResources now e j) = completeJ j" "finishedJ (blockResources now e j) = finishedJ j"
  "clientJ (blockResources now e j) = clientJ j" "intentJ (blockResources now e j) = intentJ j" "evidenceOf (blockResources now e j) = evidenceOf j"
  "wj_ManifestDigest (blockResources now e j) = wj_ManifestDigest j" "wj_observing (blockResources now e j) = wj_observing j"
  "wj_HandoffComplete (blockResources now e j) = wj_HandoffComplete j" "wj_CopiesReleased (blockResources now e j) = wj_CopiesReleased j"
  "wj_State (blockResources now e j) = wj_State j" "\<not> NixResources_Released (resourcesOf (blockResources now e j))"
  by (simp_all add: blockResources_def Let_def NixResources_Released_def)

lemma reportResources_fields:
  assumes "j1 = reportResources now s l g q j"
  shows "jobID j1 = jobID j" "completeJ j1 = completeJ j" "finishedJ j1 = finishedJ j" "clientJ j1 = clientJ j" "intentJ j1 = intentJ j" "evidenceOf j1 = evidenceOf j"
    "wj_ManifestDigest j1 = wj_ManifestDigest j" "wj_observing j1 = wj_observing j" "wj_HandoffComplete j1 = wj_HandoffComplete j"
    "wj_CopiesReleased j1 = wj_CopiesReleased j" "wj_State j1 = wj_State j"
    "NixResources_Released (resourcesOf j1) \<Longrightarrow> snd g = None \<and> NixResources_Released (sp_resources s)"
proof -
  define a where "a = (if snd g \<noteq> None then j
    else onExecution (\<lambda>x. x\<lparr>nx_Resources := sp_resources s, nx_Error := (case (sp_daemon s, nx_Error x) of
           (Some d, Some e) \<Rightarrow> Some (setDetail ''executor'' (GErr d) e) | _ \<Rightarrow> nx_Error x)\<rparr>) j)"
  define b where "b = onResources (\<lambda>x. x\<lparr>nr_State := ''releasing'', nr_Confirmation := []\<rparr>) a"
  have fa: "jobID a = jobID j" "completeJ a = completeJ j" "finishedJ a = finishedJ j" "clientJ a = clientJ j" "intentJ a = intentJ j" "evidenceOf a = evidenceOf j"
    "wj_ManifestDigest a = wj_ManifestDigest j" "wj_observing a = wj_observing j" "wj_HandoffComplete a = wj_HandoffComplete j"
    "wj_CopiesReleased a = wj_CopiesReleased j" "wj_State a = wj_State j"
    by (auto simp: a_def observe_defs onExecution_def)
  have ra: "snd g = None \<Longrightarrow> resourcesOf a = sp_resources s" by (simp add: a_def observe_defs onExecution_def)
  obtain gn er where g: "g = (gn, er)" by (cases g)
  define late where "late = (case nr_ReleaseDeadline (sp_resources s) of Some t \<Rightarrow> t | None \<Rightarrow> rc_releaseDeadline q)"
  have "j1 = (if er \<noteq> None \<or> l \<and> rc_finished q
      then blockResources now (case er of Some e \<Rightarrow> e | None \<Rightarrow> Fail ''client_identity'' ''Worker stopped before persisting the Nix client identity'') a
      else if \<not> gn then if now < late then b
        else blockResources now (Fail ''termination_unconfirmed'' ''Nix client exit was not confirmed within the release budget'') b
      else a)"
    unfolding assms reportResources_def g split Let_def late_def b_def a_def g snd_conv by (rule refl)
  then consider (block) e where "j1 = blockResources now e a" | (wait) "j1 = b" | (late) e where "j1 = blockResources now e b" | (gone) "j1 = a" "snd g = None"
    unfolding g by (auto split: if_splits)
  note cs = this
  have rb: "\<not> NixResources_Released (resourcesOf b)" by (simp add: b_def NixResources_Released_def)
  show "jobID j1 = jobID j" "completeJ j1 = completeJ j" "finishedJ j1 = finishedJ j" "clientJ j1 = clientJ j" "intentJ j1 = intentJ j" "evidenceOf j1 = evidenceOf j"
    "wj_ManifestDigest j1 = wj_ManifestDigest j" "wj_observing j1 = wj_observing j" "wj_HandoffComplete j1 = wj_HandoffComplete j"
    "wj_CopiesReleased j1 = wj_CopiesReleased j" "wj_State j1 = wj_State j"
    using cs by (cases; simp add: blockResources_fields fa b_def)+
  show "NixResources_Released (resourcesOf j1) \<Longrightarrow> snd g = None \<and> NixResources_Released (sp_resources s)"
    using cs by cases (use rb ra blockResources_fields(12) in auto)
qed

lemma cleanup_simps:
  "jobID (j\<lparr>wj_Cleanup := c\<rparr>) = jobID j" "completeJ (j\<lparr>wj_Cleanup := c\<rparr>) = (c = ''complete'')" "finishedJ (j\<lparr>wj_Cleanup := c\<rparr>) = finishedJ j"
  "clientJ (j\<lparr>wj_Cleanup := c\<rparr>) = clientJ j" "intentJ (j\<lparr>wj_Cleanup := c\<rparr>) = intentJ j" "evidenceOf (j\<lparr>wj_Cleanup := c\<rparr>) = evidenceOf j"
  "resourcesOf (j\<lparr>wj_Cleanup := c\<rparr>) = resourcesOf j"
  by (simp_all add: observe_defs)

lemma clientJ_onSession: "clientJ (onSession f j) = (ws_Client (f (wj_Session j)), ws_Launching (f (wj_Session j)), ws_ClientBoot (f (wj_Session j)))"
  by (simp add: clientJ_def onSession_def)

lemma intentJ_onSession: "intentJ (onSession f j) = ws_Intent (f (wj_Session j))"
  by (simp add: intentJ_def onSession_def)

text \<open>The section that ends an observation; the observer is no longer among the goroutines.\<close>

lemma reconcileEnd_care:
  assumes ok: "upOK boot live H w ths" and j: "getJob t w = Some j" and nc: "\<not> completeJ j" and none: "\<And>th. th \<in> set ths \<Longrightarrow> observer th \<noteq> Some t"
    and gone: "fst g \<and> snd g = None \<Longrightarrow> finishedJ j \<and> (\<forall>i. (t, i) \<notin> set live) \<and> (NixResources_Released (sp_resources s) \<longrightarrow> \<not> H t)"
    and eq: "reconcileEnd saveErr collectErr now s l g q (j, w) = ((j', w'), started)"
  shows "secOK boot live H (j, w) (j', w') \<and> careful ths t (j, w) (j', w')"
proof -
  have jo: "jobOK boot live H j" and id: "jobID j = t" using memOKD(2,3)[OF upOKD(2)[OF ok]] j by blast+
  note jd = jobOK_D[OF jo]
  have nh: "\<not> wj_HandoffComplete j" "\<not> wj_CopiesReleased j" using jd(4,5) nc by blast+
  define j1 where "j1 = reportResources now s l g q j"
  note f1 = reportResources_fields[OF j1_def]
  define c where "c = (NixResources_Released (resourcesOf j1) \<and> fst g)"
  define j2 where "j2 = (if c then onSession (\<lambda>x. x\<lparr>ws_Client := None, ws_Launching := False\<rparr>) (j1\<lparr>wj_Cleanup := ''complete''\<rparr>)
    else j1\<lparr>wj_Cleanup := (if nr_State (resourcesOf j1) = ''blocked'' then ''required'' else ''pending'')\<rparr>)"
  obtain sv j3 w3 where sv: "saveJob saveErr (j2, w) = (sv, j3, w3)" by (cases "saveJob saveErr (j2, w)")
  define w4 where "w4 = (if wk_active w3 = jobID j3 then w3\<lparr>wk_active := []\<rparr> else w3)"
  have res: "((j', w'), started) = (case sv of
       Some e \<Rightarrow> ((blockResources now e (j3\<lparr>wj_Cleanup := ''required''\<rparr>), w3), False)
     | None \<Rightarrow> if c then collectLocked collectErr now (j3, w4) else ((j3, w3), False))"
    by (simp only: eq[symmetric] reconcileEnd_def split Let_def j1_def[symmetric] c_def[symmetric] j2_def[symmetric] sv w4_def[symmetric] prod.case split: option.splits)
  have f2: "jobID j2 = jobID j" "completeJ j2 = c" "finishedJ j2 = finishedJ j" "intentJ j2 = intentJ j" "evidenceOf j2 = evidenceOf j" "resourcesOf j2 = resourcesOf j1"
    "wj_ManifestDigest j2 = wj_ManifestDigest j" "wj_observing j2 = wj_observing j" "wj_HandoffComplete j2 = wj_HandoffComplete j"
    "wj_CopiesReleased j2 = wj_CopiesReleased j" "wj_State j2 = wj_State j" "\<not> c \<Longrightarrow> clientJ j2 = clientJ j" "c \<Longrightarrow> fst (clientJ j2) = None \<and> \<not> fst (snd (clientJ j2))"
    using f1(5)[unfolded intentJ_def] by (auto simp: j2_def f1 cleanup_simps clientJ_onSession intentJ_onSession intentJ_def)
  have cg: "finishedJ j" "(t, i) \<notin> set live" "\<not> H t" if c for i
    using gone f1(12) that unfolding c_def by blast+
  have j2: "jobOK boot live H j2"
  proof (rule jobOK_I)
    show "NixResources_Released (resourcesOf j2) \<and> finishedJ j2 \<and> fst (clientJ j2) = None \<and> \<not> fst (snd (clientJ j2))" if "completeJ j2"
      using that cg(1) f2 by (simp add: c_def)
    show "knows boot (clientJ j2) i" if "(jobID j2, i) \<in> set live" for i using that f2(1,12) jd(8) cg(2) id by (cases c) auto
    show "intentJ j2 \<and> \<not> completeJ j2" if "H (jobID j2)" using that f2(1,2,4) jd(9) cg(3) id by auto
  qed (use f2 jd(1,7) nh in auto)
  show ?thesis
  proof (cases sv)
    case (Some e)
    then have e: "j3 = j2" "w3 = w" using sv by (auto elim: saveJob_cases)
    have j': "j' = blockResources now e (j2\<lparr>wj_Cleanup := ''required''\<rparr>)" "w' = w" using res Some e by simp_all
    have f3: "jobID j' = jobID j" "\<not> completeJ j'" "finishedJ j' = finishedJ j" "intentJ j' = intentJ j" "evidenceOf j' = evidenceOf j"
      "wj_ManifestDigest j' = wj_ManifestDigest j" "wj_observing j' = wj_observing j" "wj_HandoffComplete j' = wj_HandoffComplete j"
      "wj_CopiesReleased j' = wj_CopiesReleased j" "wj_State j' = wj_State j" "clientJ j' = clientJ j2"
      using f2 by (simp_all add: j' blockResources_fields cleanup_simps)
    have "jobOK boot live H j'"
    proof (rule jobOK_I)
      show "knows boot (clientJ j') i" if "(jobID j', i) \<in> set live" for i using that f3(1,11) f2(1) jobOK_D(8)[OF j2] by simp
    qed (use f3 jd nh in auto)
    then have "secOK boot live H (j, w) (j', w')" by (intro secOK_same) (use f3 nc j'(2) in simp_all)
    moreover have "careful ths t (j, w) (j', w')"
      by (rule careful_I) (use f3 j'(2) none run_unfinished(1)[OF upOKD(4)[OF ok] _ j] in auto)
    ultimately show ?thesis ..
  next
    case None
    with sv have p: "j3 = j2\<lparr>wj_indexedFiles := length (wj_Files j2)\<rparr>" "putRow (jobID j2) j2 (wk_rows w) (wk_rows w3)" "wk_jobs w3 = wk_jobs w"
      "wk_instance w3 = wk_instance w" "wk_active w3 = wk_active w" by (auto elim: saveJob_cases)
    have core: "coreJ j3 = coreJ j2" using p(1) by simp
    note f3 = core_eqD[OF core]
    have j3: "jobOK boot live H j3" using f3(9) j2 by simp
    have o3: "wj_observing j3 = wj_observing j" using p(1) f2(8) by simp
    have sec: "secOK boot live H (j, w) (j3, w5)" if w5: "w5 = w3 \<or> w5 = w4" for w5
    proof -
      have "wk_rows w5 = wk_rows w3" "wk_jobs w5 = wk_jobs w" "wk_instance w5 = wk_instance w" using w5 p(3,4) by (auto simp: w4_def)
      then show ?thesis by (intro secOK_put[where r = j2]) (use f2 f3 p(2) j2 j3 nc nh in auto)
    qed
    show ?thesis
    proof (cases c)
      case False
      then have j': "j' = j3" "w' = w3" using res None by simp_all
      have "careful ths t (j, w) (j3, w3)"
        by (rule careful_I) (use f2 f3 False o3 p(5) run_unfinished(1)[OF upOKD(4)[OF ok] _ j] in auto)
      then show ?thesis using sec j' by simp
    next
      case True
      then have col: "collectLocked collectErr now (j3, w4) = ((j', w'), started)" using res None by simp
      note q = collectLocked_quiet[OF j3 col]
      have s2: "secOK boot live H (j, w) (j', w')" by (rule secOK_trans[OF sec[of w4]]) (use q in \<open>simp_all add: quiet_def\<close>)
      have cm: "completeJ j' = completeJ j3" "wj_observing j3 \<Longrightarrow> wj_observing j'" "finishedJ j' = finishedJ j3" "wk_active w' = wk_active w4"
        using q by (auto simp: quiet_def calm_def)
      have act: "wk_active w4 = wk_active w \<or> wk_active w = t" using p(5) id f3(1) f2(1) by (auto simp: w4_def)
      have "careful ths t (j, w) (j', w')"
        by (rule careful_I) (use cm act o3 none cg(1)[OF True] f2 f3 run_unfinished(1)[OF upOKD(4)[OF ok] _ j] in auto)
      then show ?thesis using s2 by simp
    qed
  qed
qed

lemma observedBy_other:
  assumes "upOK boot live H w ths" "th \<in> set ths" "t \<in> set (observedBy th)" "o' \<in> set (remove1 th ths)"
  shows "t \<notin> set (observedBy o')"
proof -
  have "distinct (concat (map observedBy ths))" using upOKD(3)[OF assms(1)] by (simp add: threadsOK_def)
  from distinct_mset_le[OF this concat_remove1[OF assms(2)]] show ?thesis using assms(3,4) by auto
qed

lemma observer_observedBy: "observer th = Some t \<Longrightarrow> t \<in> set (observedBy th)"
  by (cases th) auto

lemma inv_report:
  assumes ok: "upOK boot live H w ths" and j: "getJob t w = Some j" and th: "TReport t q s l g \<in> set ths"
    and eq: "reconcileEnd saveErr collectErr now s l g q (j, w) = ((j', w'), started)"
  shows "upOK boot live H (putJob (j', w')) (remove1 (TReport t q s l g) ths @ TObserved t # collectThread t started)"
proof -
  let ?th = "TReport t q s l g" and ?ths = "remove1 (TReport t q s l g) ths @ [TObserved t]"
  have r: "wj_observing j" "\<not> completeJ j" "fst g \<and> snd g = None \<Longrightarrow> finishedJ j \<and> (\<forall>i. (t, i) \<notin> set live) \<and> (NixResources_Released (sp_resources s) \<longrightarrow> \<not> H t)"
    using upOKD(4)[OF ok th] j by auto
  have up: "upOK boot live H w ?ths" by (intro inv_replace[OF ok th]) (use j r(1) in auto)
  have none: "observer n \<noteq> Some t" if "n \<in> set ?ths" for n
    using that observedBy_other[OF ok th, of t n] observer_observedBy[of n t] by auto
  have sc: "secOK boot live H (j, w) (j', w')" "careful ?ths t (j, w) (j', w')" using reconcileEnd_care[OF up j r(2) none r(3) eq] by blast+
  have up2: "upOK boot live H (putJob (j', w')) ?ths" by (rule wk_section[OF up j sc])
  have "upOK boot live H (putJob (j', w')) (?ths @ [TCollect t])" by (rule inv_add[OF up2]) simp_all
  then show ?thesis using up2 by (simp add: collectThread_def)
qed

lemma inv_observed:
  assumes ok: "upOK boot live H w ths" and th: "TObserved t \<in> set ths"
  shows "upOK boot live H (case getJob t w of Some j \<Rightarrow> putJob (j\<lparr>wj_observing := False\<rparr>, w) | None \<Rightarrow> w) (remove1 (TObserved t) ths)"
proof -
  have up: "upOK boot live H w (remove1 (TObserved t) ths)" using inv_replace[OF ok th, of "[]"] by simp
  show ?thesis
  proof (cases "getJob t w")
    case None then show ?thesis using up by simp
  next
    case (Some j)
    have jo: "jobOK boot live H j" by (rule memOKD(3)[OF upOKD(2)[OF ok] Some])
    have core: "coreJ (j\<lparr>wj_observing := False\<rparr>) = coreJ j" by (simp add: coreJ_def jobID_def)
    note c = core_eqD[OF core]
    have sec: "secOK boot live H (j, w) (j\<lparr>wj_observing := False\<rparr>, w)" by (rule secOK_same) (use c jo in simp_all)
    have care: "careful (remove1 (TObserved t) ths) t (j, w) (j\<lparr>wj_observing := False\<rparr>, w)"
      by (rule careful_I) (use c observedBy_other[OF ok th, of t] run_unfinished(1)[OF upOKD(4)[OF up] _ Some] in auto)
    show ?thesis using wk_section[OF up Some sec care] Some by simp
  qed
qed

section \<open>Handoff\<close>

lemma evidenceOK_settled: "ne_State e \<noteq> ''pending'' \<Longrightarrow> evidenceOK e m = (0 \<le> ne_Attempts e \<and> ne_Attempts e \<le> 3)"
  by (simp add: evidenceOK_def)

lemma handoffBegin_cases:
  assumes "handoffBegin digest err sent (j, w) = (failed, j', w')"
  obtains (refused) x where "failed = Some x" "j' = j" "w' = w"
  | (again) "failed = None" "j' = j" "w' = w" "wj_HandoffComplete j"
  | (failed) x where "failed = Some x" "w' = w" "j' = j\<lparr>wj_ManifestDigest := sent, wj_HandoffComplete := False\<rparr>" "\<not> wj_HandoffComplete j"
      "ne_State (evidenceOf j) \<noteq> ''pending''" "completeJ j"
  | (saved) "failed = None" "saveJob err (j\<lparr>wj_HandoffComplete := True, wj_ManifestDigest := sent\<rparr>, w) = (None, j', w')"
      "completeJ j" "\<not> wj_HandoffComplete j" "ne_State (evidenceOf j) \<noteq> ''pending''"
proof -
  let ?j = "j\<lparr>wj_HandoffComplete := True, wj_ManifestDigest := sent\<rparr>"
  obtain sv j1 w1 where sv: "saveJob err (?j, w) = (sv, j1, w1)" by (cases "saveJob err (?j, w)")
  consider (no) x where "failed = Some x" "j' = j" "w' = w" | (known) "failed = None" "j' = j" "w' = w" "wj_HandoffComplete j"
    | (attempt) "(case saveJob err (?j, w) of (Some e, j1, w1) \<Rightarrow> (Some e, j1\<lparr>wj_HandoffComplete := False\<rparr>, w1) | (None, x) \<Rightarrow> (None, x)) = (failed, j', w')"
        "completeJ j" "\<not> wj_HandoffComplete j" "ne_State (evidenceOf j) \<noteq> ''pending''"
    using assms by (auto simp: handoffBegin_def completeJ_def simp del: split_paired_Ex split: if_splits)
  then show ?thesis
  proof cases
    case no then show ?thesis by (rule refused)
  next
    case known then show ?thesis by (rule again)
  next
    case attempt
    show ?thesis
    proof (cases sv)
      case None then show ?thesis using attempt sv saved by simp
    next
      case (Some e)
      then have "j1 = ?j" "w1 = w" using sv by (auto elim: saveJob_cases)
      then show ?thesis using attempt sv Some failed[of e] by auto
    qed
  qed
qed

lemma handoffBegin_sec:
  assumes ok: "upOK boot live H w ths" and j: "getJob t w = Some j" and eq: "handoffBegin digest err sent (j, w) = (failed, j', w')"
  shows "upOK boot live H (putJob (j', w')) ths" "failed = None \<Longrightarrow> threadOK boot live H (putJob (j', w')) (THandoff t None)"
proof -
  note m = memOKD[OF upOKD(2)[OF ok]]
  have jo: "jobOK boot live H j" and id: "jobID j = t" using m(2,3) j by blast+
  note jd = jobOK_D[OF jo]
  have step: "upOK boot live H (putJob (k, v)) ths" "getJob t (putJob (k, v)) = Some k" if "secOK boot live H (j, w) (k, v)" "calm (j, w) (k, v)" for k v
    using wk_section[OF ok j that(1) calm_careful[OF ok j that(2)]] section_memory(3)[OF upOKD(1,2)[OF ok] j that(1), of t] by simp_all
  have refl: "secOK boot live H (j, w) (j, w)" "calm (j, w) (j, w)" using quiet_refl[OF jo, of w] by (simp_all add: quiet_def)
  have both: "upOK boot live H (putJob (j', w')) ths \<and> (failed = None \<longrightarrow> threadOK boot live H (putJob (j', w')) (THandoff t None))"
    using eq
  proof (cases rule: handoffBegin_cases)
    case (refused x) then show ?thesis using step(1)[OF refl] by simp
  next
    case again
    have "wj_HandoffComplete r" if r: "r \<in> set (wk_rows w)" "jobID r = t" for r
    proof -
      obtain r0 where r0: "r0 \<in> set (wk_rows w)" "agrees r0 j" using m(4)[OF j] by blast
      then have "r = r0" using job_unique[OF rowsOKD(1)[OF upOKD(1)[OF ok]] r(1) r0(1)] r(2) id by (simp add: agrees_def)
      then show ?thesis using r0(2) again(4) by (simp add: agrees_def)
    qed
    then show ?thesis using step[OF refl] again by simp
  next
    case (failed x)
    have q: "quiet boot live H (j, w) (j', w)"
      by (rule quiet_like[OF jo]) (use failed jd(1,2) in \<open>simp_all add: evidenceOK_def\<close>)
    then show ?thesis using failed step(1) by (simp add: quiet_def)
  next
    case saved
    let ?j = "j\<lparr>wj_HandoffComplete := True, wj_ManifestDigest := sent\<rparr>"
    have sj: "jobOK boot live H ?j"
      by (rule jobOK_I) (use saved jd in \<open>simp_all add: evidenceOK_def\<close>)
    from saved(2) have p: "j' = ?j\<lparr>wj_indexedFiles := length (wj_Files ?j)\<rparr>" "putRow (jobID ?j) ?j (wk_rows w) (wk_rows w')" "wk_jobs w' = wk_jobs w"
      "wk_instance w' = wk_instance w" "wk_active w' = wk_active w" by (auto elim: saveJob_cases)
    have core: "coreJ j' = coreJ ?j" using p(1) by simp
    note c = core_eqD[OF core]
    have f: "completeJ ?j = completeJ j" "finishedJ ?j = finishedJ j" "clientJ ?j = clientJ j" "intentJ ?j = intentJ j" "wj_observing j' = wj_observing j"
      "wj_HandoffComplete ?j" "wj_CopiesReleased ?j = wj_CopiesReleased j" "jobID ?j = jobID j"
      using p(1) by simp_all
    have sec: "secOK boot live H (j, w) (j', w')"
      by (rule secOK_put[where r = ?j]) (use f c p sj in auto)
    have calm: "calm (j, w) (j', w')" using f c p(5) by (simp add: calm_def)
    have "wj_HandoffComplete r" if "r \<in> set (wk_rows w')" "jobID r = t" for r
      using core_eqD(6)[OF putRowD(2)[OF p(2) that(1)]] that(2) id f(6,8) by simp
    then show ?thesis using step[OF sec calm] c(6) f(6) by simp
  qed
  show "upOK boot live H (putJob (j', w')) ths" "failed = None \<Longrightarrow> threadOK boot live H (putJob (j', w')) (THandoff t None)" using both by blast+
qed

text \<open>The job after its copies were removed, and its row.\<close>

lemma handoffEnd_cases:
  assumes "handoffEnd io now (j, w) = (failed, j', w')"
  obtains (refused) "j' = j" "w' = w"
  | (removed) j1 w1 where "saveJob (ho_save io) (j1, w1) = (failed, j', w')" "w1 = w\<lparr>wk_files := filter (\<lambda>(_, t, _). t \<noteq> jobID j) (wk_files w)\<rparr>"
      "j1 = onEvidence (\<lambda>x. x\<lparr>ne_State := ''complete'', ne_Error := None\<rparr>)
         (j\<lparr>wj_Files := [], wj_Outputs := [], wj_CopiesReleased := True,
           wj_HandoffFinished := (case wj_HandoffFinished j of Some t \<Rightarrow> Some t | None \<Rightarrow> Some now)\<rparr>)"
  using assms by (cases "ho_remove io"; cases "ho_delete io") (auto simp: handoffEnd_def Let_def)

lemma released_fields:
  assumes "j1 = onEvidence (\<lambda>x. x\<lparr>ne_State := ''complete'', ne_Error := None\<rparr>)
         (j\<lparr>wj_Files := [], wj_Outputs := [], wj_CopiesReleased := True, wj_HandoffFinished := h\<rparr>)"
    and ok: "jobOK boot live H j" and h: "wj_HandoffComplete j"
  shows "jobID j1 = jobID j" "completeJ j1 = completeJ j" "finishedJ j1 = finishedJ j" "clientJ j1 = clientJ j" "intentJ j1 = intentJ j"
    "wj_observing j1 = wj_observing j" "wj_HandoffComplete j1" "wj_CopiesReleased j1" "jobOK boot live H j1"
proof -
  show f: "jobID j1 = jobID j" "completeJ j1 = completeJ j" "finishedJ j1 = finishedJ j" "clientJ j1 = clientJ j" "intentJ j1 = intentJ j"
    "wj_observing j1 = wj_observing j" "wj_HandoffComplete j1" "wj_CopiesReleased j1"
    using h by (simp_all add: assms(1) observe_defs onEvidence_def onExecution_def)
  have g: "wj_State j1 = wj_State j" "resourcesOf j1 = resourcesOf j" "evidenceOf j1 = (evidenceOf j)\<lparr>ne_State := ''complete'', ne_Error := None\<rparr>"
    by (simp_all add: assms(1) observe_defs onEvidence_def onExecution_def)
  note d = jobOK_D[OF ok]
  show "jobOK boot live H j1"
    by (rule jobOK_I) (use f g d h in \<open>auto simp: evidenceOK_def\<close>)
qed

lemma handoffEnd_calm:
  assumes jo: "jobOK boot live H j" and h: "wj_HandoffComplete j" and eq: "handoffEnd io now (j, w) = (failed, j', w')"
  shows "secOK boot live H (j, w) (j', w')" "calm (j, w) (j', w')"
proof -
  have "secOK boot live H (j, w) (j', w') \<and> calm (j, w) (j', w')"
    using eq
  proof (cases rule: handoffEnd_cases)
    case refused then show ?thesis using quiet_refl[OF jo, of w] by (simp add: quiet_def)
  next
    case (removed j1 w1)
    note f = released_fields[OF removed(3) jo h]
    have s1: "secOK boot live H (j, w) (j1, w1)" by (rule secOK_same) (use f h removed(2) in simp_all)
    have c1: "calm (j, w) (j1, w1)" using f removed(2) by (simp add: calm_def)
    have "quiet boot live H (j1, w1) (j', w')" by (rule quiet_save[OF f(9) removed(1)])
    then show ?thesis using secOK_trans[OF s1] calm_trans[OF c1] by (simp add: quiet_def)
  qed
  then show "secOK boot live H (j, w) (j', w')" "calm (j, w) (j', w')" by blast+
qed

end
