(* ===== verification/ExecInv.thy ===== *)
theory ExecInv
  imports NixExecutor
begin

text \<open>
  The invariant of the executor: at most one session is unreleased, the memory agrees with the store, and processes live
  only in the group of the unreleased session.  Sections on one session are related by \<open>sectionOK\<close>, from which their
  preservation of the invariant follows once and for all.
\<close>

section \<open>Sessions in memory\<close>

lemma map_of_replace:
  "map_of (map (\<lambda>(k, v). if k = i then (k, r) else (k, v)) xs) k = (if k = i then map_option (\<lambda>_. r) (map_of xs i) else map_of xs k)"
  by (induction xs) auto

lemma getSession_put [simp]: "getSession k (putSession i r e) = (if k = i then Some r else getSession k e)"
  by (auto simp: getSession_def putSession_def map_of_replace map_add_def split: option.splits)

lemma putSession_fields [simp]:
  "ex_db (putSession i r e) = ex_db e" "ex_boot (putSession i r e) = ex_boot e" "ex_groups (putSession i r e) = ex_groups e"
  "ex_cfg (putSession i r e) = ex_cfg e" "ex_instance (putSession i r e) = ex_instance e" "ex_closing (putSession i r e) = ex_closing e"
  "ex_invocation (putSession i r e) = ex_invocation e"
  by (simp_all add: putSession_def)

lemma getSession_db [simp]: "getSession k (e\<lparr>ex_db := rows\<rparr>) = getSession k e"
  by (simp add: getSession_def)

lemma putBoth_fields [simp]:
  "ex_db (putBoth i (r, rows) e) = rows" "ex_boot (putBoth i x e) = ex_boot e" "ex_groups (putBoth i x e) = ex_groups e"
  "ex_cfg (putBoth i x e) = ex_cfg e" "ex_closing (putBoth i x e) = ex_closing e"
  "getSession k (putBoth i (r, rows) e) = (if k = i then Some r else getSession k e)"
  by (cases x; simp add: putBoth_def)+

lemma getSession_Some: "distinct (map fst (ex_sessions e)) \<Longrightarrow> getSession k e = Some r \<longleftrightarrow> (k, r) \<in> set (ex_sessions e)"
  by (simp add: getSession_def)

lemma fst_replace: "map fst (map (\<lambda>(k, v). if k = i then (k, r) else (k, v)) xs) = map fst xs"
  by (induction xs) auto

lemma getSession_None: "getSession k e = None \<longleftrightarrow> k \<notin> set (map fst (ex_sessions e))"
  by (auto simp: getSession_def map_of_eq_None_iff)

lemma distinct_put: "distinct (map fst (ex_sessions e)) \<Longrightarrow> distinct (map fst (ex_sessions (putSession i r e)))"
  using getSession_None[of i e] by (auto simp: putSession_def fst_replace simp del: map_map)

section \<open>The invariant\<close>

text \<open>The fields of a session that never change.\<close>

definition fixed :: "ExecSession \<Rightarrow> ExecSession \<Rightarrow> bool" where
  "fixed a b \<longleftrightarrow> xs_ID a = xs_ID b \<and> xs_WorkerInstance a = xs_WorkerInstance b \<and> xs_TaskID a = xs_TaskID b \<and> xs_BootID a = xs_BootID b \<and>
     xs_Group a = xs_Group b \<and> xs_Created a = xs_Created b"

definition sane :: "ExecSession \<Rightarrow> bool" where
  "sane s \<longleftrightarrow> xs_Deadline s \<le> xs_Created s + 24 * hour \<and> nr_State (xs_Resources s) \<noteq> ''unallocated''"

definition owned :: "ExecSession \<Rightarrow> bool" where
  "owned s \<longleftrightarrow> nr_State (xs_Resources s) = ''owned''"

text \<open>An observer runs only on an unreleased session that has all \<^verbatim>\<open>observeRelease\<close> dereferences.\<close>

definition observable :: "runtimeSession \<Rightarrow> bool" where
  "observable r \<longleftrightarrow> (rt_monitoring r \<longrightarrow> \<not> sessionReleased (rt_session r) \<and> xs_Stopping (rt_session r) \<noteq> None \<and>
     nr_ReleaseDeadline (xs_Resources (rt_session r)) \<noteq> None \<and> rt_group r \<noteq> None)"

definition noLive :: "kernel \<Rightarrow> string \<Rightarrow> bool" where
  "noLive ker p \<longleftrightarrow> (\<forall>i n. ker p = Some (i, n) \<longrightarrow> n = 0)"

definition placed :: "ExecSession \<Rightarrow> bool" where
  "placed s \<longleftrightarrow> IDPattern (xs_ID s) \<and> (sessionReleased s \<and> xs_Group s = [] \<or> (\<exists>g. xs_Group s = groupPath g (xs_ID s)))"

definition rowsInv :: "string \<Rightarrow> kernel \<Rightarrow> ExecSession list \<Rightarrow> bool" where
  "rowsInv boot ker rows \<longleftrightarrow> distinct (map xs_ID rows) \<and> (\<forall>s\<in>set rows. placed s \<and> sane s) \<and>
     (\<forall>s\<in>set rows. \<forall>t\<in>set rows. \<not> sessionReleased s \<longrightarrow> \<not> sessionReleased t \<longrightarrow> xs_ID s = xs_ID t) \<and>
     (\<forall>s\<in>set rows. \<forall>t\<in>set rows. samePair s t \<longrightarrow> xs_ID s = xs_ID t) \<and>
     (\<forall>p. \<not> noLive ker p \<longrightarrow> (\<exists>s\<in>set rows. xs_Group s = p \<and> \<not> sessionReleased s \<and> xs_BootID s = boot))"

text \<open>An entry of the memory, and the memory while the sessions in \<open>todo\<close> are still to be recovered.\<close>

definition entryInv :: "string \<Rightarrow> ExecSession list \<Rightarrow> string \<Rightarrow> runtimeSession \<Rightarrow> bool" where
  "entryInv boot rows k r \<longleftrightarrow> xs_ID (rt_session r) = k \<and> sane (rt_session r) \<and> observable r \<and>
     (owned (rt_session r) \<longrightarrow> xs_BootID (rt_session r) = boot) \<and>
     (\<exists>s\<in>set rows. fixed s (rt_session r)) \<and>
     (if sessionReleased (rt_session r) then \<forall>s\<in>set rows. xs_ID s = k \<longrightarrow> sessionReleased s
      else \<exists>s\<in>set rows. fixed s (rt_session r) \<and> \<not> sessionReleased s)"

definition memInv :: "string set \<Rightarrow> Executor \<Rightarrow> bool" where
  "memInv todo e \<longleftrightarrow> distinct (map fst (ex_sessions e)) \<and>
     (\<forall>k r. getSession k e = Some r \<longrightarrow> k \<notin> todo \<and> entryInv (ex_boot e) (ex_db e) k r) \<and>
     (\<forall>s\<in>set (ex_db e). \<not> sessionReleased s \<longrightarrow> xs_ID s \<notin> todo \<longrightarrow> getSession (xs_ID s) e \<noteq> None)"

definition exInv :: "string set \<Rightarrow> kernel \<Rightarrow> Executor \<Rightarrow> bool" where
  "exInv todo ker e \<longleftrightarrow> rowsInv (ex_boot e) ker (ex_db e) \<and> memInv todo e"

section \<open>Sections\<close>

definition rowRel :: "string \<Rightarrow> ExecSession \<Rightarrow> ExecSession \<Rightarrow> bool" where
  "rowRel ident s s' \<longleftrightarrow> (if xs_ID s = ident then fixed s s' \<and> sane s' else s' = s)"

definition sectionOK :: "kernel \<Rightarrow> runtimeSession \<times> ExecSession list \<Rightarrow> runtimeSession \<times> ExecSession list \<Rightarrow> bool" where
  "sectionOK ker = (\<lambda>(r, rows) (r', rows').
     fixed (rt_session r) (rt_session r') \<and> sane (rt_session r') \<and> observable r' \<and> (owned (rt_session r') \<longrightarrow> owned (rt_session r)) \<and>
     list_all2 (rowRel (xs_ID (rt_session r))) rows rows' \<and>
     (if sessionReleased (rt_session r')
      then noLive ker (xs_Group (rt_session r)) \<and> (\<forall>s\<in>set rows'. xs_ID s = xs_ID (rt_session r) \<longrightarrow> sessionReleased s)
      else \<forall>s\<in>set rows'. xs_ID s = xs_ID (rt_session r) \<longrightarrow> \<not> sessionReleased s))"

lemma fixed_refl [simp]: "fixed s s" by (simp add: fixed_def)
lemma fixed_sym: "fixed a b \<Longrightarrow> fixed b a" by (simp add: fixed_def)
lemma fixed_trans: "fixed a b \<Longrightarrow> fixed b c \<Longrightarrow> fixed a c" by (simp add: fixed_def)
lemma fixed_ID: "fixed a b \<Longrightarrow> xs_ID a = xs_ID b" by (simp add: fixed_def)
lemma fixed_pair: "fixed a b \<Longrightarrow> samePair a c = samePair b c" by (simp add: fixed_def samePair_def)

lemma rowRel_ID: "rowRel i s s' \<Longrightarrow> xs_ID s' = xs_ID s"
  by (auto simp: rowRel_def fixed_def split: if_splits)

lemma rowRel_fixed: "rowRel i s s' \<Longrightarrow> fixed s s'"
  by (auto simp: rowRel_def split: if_splits)

lemma rowRel_source:
  assumes "list_all2 (rowRel i) rows rows'" "s' \<in> set rows'"
  obtains s where "s \<in> set rows" "rowRel i s s'"
  using assms by (metis in_set_conv_nth list_all2_conv_all_nth)

lemma rowRel_target:
  assumes "list_all2 (rowRel i) rows rows'" "s \<in> set rows"
  obtains s' where "s' \<in> set rows'" "rowRel i s s'"
  using assms by (metis in_set_conv_nth list_all2_conv_all_nth)

lemma rowRel_IDs: "list_all2 (rowRel i) rows rows' \<Longrightarrow> map xs_ID rows' = map xs_ID rows"
  by (induction rule: list_all2_induct) (auto dest: rowRel_ID)

lemma distinct_row: "distinct (map xs_ID rows) \<Longrightarrow> s \<in> set rows \<Longrightarrow> t \<in> set rows \<Longrightarrow> xs_ID s = xs_ID t \<Longrightarrow> s = t"
  by (simp add: distinct_map inj_on_def)

lemma placed_fixed: "placed s \<Longrightarrow> fixed s s' \<Longrightarrow> \<not> sessionReleased s \<Longrightarrow> placed s'"
  by (auto simp: placed_def fixed_def)

lemma rowsInv_section:
  assumes inv: "rowsInv boot ker rows" and rel: "list_all2 (rowRel k) rows rows'"
    and un: "\<And>s. s \<in> set rows \<Longrightarrow> xs_ID s = k \<Longrightarrow> \<not> sessionReleased s \<and> xs_Group s = p"
    and status: "(\<forall>s\<in>set rows'. xs_ID s = k \<longrightarrow> \<not> sessionReleased s) \<or> noLive ker p \<and> (\<forall>s\<in>set rows'. xs_ID s = k \<longrightarrow> sessionReleased s)"
  shows "rowsInv boot ker rows'"
proof -
  note i = inv[unfolded rowsInv_def]
  have ids: "distinct (map xs_ID rows')" using i rowRel_IDs[OF rel] by simp
  have row: "\<exists>s\<in>set rows. fixed s s' \<and> (xs_ID s' \<noteq> k \<longrightarrow> s' = s) \<and> (\<not> sessionReleased s' \<longrightarrow> \<not> sessionReleased s) \<and> placed s' \<and> sane s'"
    if s': "s' \<in> set rows'" for s'
  proof -
    obtain s where s: "s \<in> set rows" "rowRel k s s'" using rowRel_source[OF rel s'] .
    have "placed s \<and> sane s" using i s(1) by blast
    show ?thesis
    proof (cases "xs_ID s = k")
      case True
      then have "fixed s s'" "sane s'" "\<not> sessionReleased s" using s un by (auto simp: rowRel_def)
      moreover then have "placed s'" "xs_ID s' = k" using placed_fixed \<open>placed s \<and> sane s\<close> True by (auto simp: fixed_def)
      ultimately show ?thesis using s(1) by blast
    next
      case False
      then have "s' = s" using s(2) by (simp add: rowRel_def)
      then show ?thesis using s(1) \<open>placed s \<and> sane s\<close> fixed_refl by blast
    qed
  qed
  have live: "\<exists>s'\<in>set rows'. xs_Group s' = q \<and> \<not> sessionReleased s' \<and> xs_BootID s' = boot" if q: "\<not> noLive ker q" for q
  proof -
    obtain s where s: "s \<in> set rows" "xs_Group s = q" "\<not> sessionReleased s" "xs_BootID s = boot" using i q by blast
    obtain s' where s': "s' \<in> set rows'" "rowRel k s s'" using rowRel_target[OF rel s(1)] .
    have "\<not> sessionReleased s'"
    proof (cases "xs_ID s = k")
      case True
      then have "xs_ID s' = k" "q = p" using rowRel_ID[OF s'(2)] un[OF s(1)] s(2) by auto
      then show ?thesis using status s'(1) q by blast
    next
      case False then show ?thesis using s' s(3) by (simp add: rowRel_def)
    qed
    then show ?thesis using s' s rowRel_fixed[OF s'(2)] by (intro bexI[of _ s']) (auto simp: fixed_def)
  qed
  have one: "xs_ID a = xs_ID b" if m: "a \<in> set rows'" "b \<in> set rows'" "\<not> sessionReleased a" "\<not> sessionReleased b" for a b
  proof -
    obtain a0 b0 where ab: "a0 \<in> set rows" "fixed a0 a" "\<not> sessionReleased a0" "b0 \<in> set rows" "fixed b0 b" "\<not> sessionReleased b0"
      using row[OF m(1)] row[OF m(2)] m(3,4) by blast
    then have "xs_ID a0 = xs_ID b0" using i by blast
    then show ?thesis using fixed_ID[OF ab(2)] fixed_ID[OF ab(5)] by simp
  qed
  have pair: "xs_ID a = xs_ID b" if m: "a \<in> set rows'" "b \<in> set rows'" "samePair a b" for a b
  proof -
    obtain a0 b0 where ab: "a0 \<in> set rows" "fixed a0 a" "b0 \<in> set rows" "fixed b0 b" using row[OF m(1)] row[OF m(2)] by blast
    then have "samePair a0 b0" using m(3) ab by (simp add: fixed_def samePair_def)
    then have "xs_ID a0 = xs_ID b0" using ab i by blast
    then show ?thesis using fixed_ID[OF ab(2)] fixed_ID[OF ab(4)] by simp
  qed
  show ?thesis unfolding rowsInv_def using ids row live one pair by blast
qed

lemma entryInv_other:
  assumes "entryInv boot rows k q" "\<And>s. s \<in> set rows' \<Longrightarrow> xs_ID s = k \<Longrightarrow> s \<in> set rows" "\<And>s. s \<in> set rows \<Longrightarrow> xs_ID s = k \<Longrightarrow> s \<in> set rows'"
  shows "entryInv boot rows' k q"
proof (cases "sessionReleased (rt_session q)")
  case True
  obtain s where s: "s \<in> set rows" "fixed s (rt_session q)" using assms(1) by (auto simp: entryInv_def)
  then have "s \<in> set rows'" using assms(1,3) by (simp add: entryInv_def fixed_def)
  then show ?thesis using True s(2) assms(1,2) by (auto simp: entryInv_def)
next
  case False
  then obtain s where "s \<in> set rows" "fixed s (rt_session q)" "\<not> sessionReleased s" using assms(1) by (auto simp: entryInv_def)
  moreover then have "s \<in> set rows'" using assms(1,3) by (simp add: entryInv_def fixed_def)
  ultimately show ?thesis using assms(1) False by (auto simp: entryInv_def)
qed

lemma exInvD:
  assumes "exInv todo ker e" "getSession k e = Some r"
  shows "k \<notin> todo" "entryInv (ex_boot e) (ex_db e) k r" "xs_ID (rt_session r) = k" "sane (rt_session r)" "observable r"
  using assms unfolding exInv_def memInv_def entryInv_def by auto

lemma exInv_row:
  assumes "exInv todo ker e" "getSession k e = Some r" "\<not> sessionReleased (rt_session r)"
  obtains s where "s \<in> set (ex_db e)" "fixed s (rt_session r)" "\<not> sessionReleased s" "\<And>t. t \<in> set (ex_db e) \<Longrightarrow> xs_ID t = k \<Longrightarrow> t = s"
proof -
  obtain s where s: "s \<in> set (ex_db e)" "fixed s (rt_session r)" "\<not> sessionReleased s"
    using exInvD(2)[OF assms(1,2)] assms(3) by (auto simp: entryInv_def)
  have "xs_ID s = k" using s(2) exInvD(3)[OF assms(1,2)] by (simp add: fixed_def)
  moreover have "distinct (map xs_ID (ex_db e))" using assms(1) by (simp add: exInv_def rowsInv_def)
  ultimately show ?thesis using that[OF s] distinct_row s(1) by metis
qed

lemma exInvI:
  assumes "rowsInv (ex_boot e) ker (ex_db e)" "distinct (map fst (ex_sessions e))"
    and "\<And>k r. getSession k e = Some r \<Longrightarrow> k \<notin> todo \<and> entryInv (ex_boot e) (ex_db e) k r"
    and "\<And>s. s \<in> set (ex_db e) \<Longrightarrow> \<not> sessionReleased s \<Longrightarrow> xs_ID s \<notin> todo \<Longrightarrow> getSession (xs_ID s) e \<noteq> None"
  shows "exInv todo ker e"
  using assms unfolding exInv_def memInv_def by blast

lemma inv_entered:
  assumes inv: "rowsInv (ex_boot e) ker rows'" "memInv todo e"
    and rel: "list_all2 (rowRel k) (ex_db e) rows'"
    and entry: "entryInv (ex_boot e) rows' k r'"
  shows "exInv (todo - {k}) ker (putBoth k (r', rows') e)"
proof -
  have stored: "s \<in> set (ex_db e)" if "s \<in> set rows'" "xs_ID s \<noteq> k" for s
    using rowRel_source[OF rel that(1)] that(2) by (metis rowRel_def rowRel_ID)
  have kept: "s \<in> set rows'" if "s \<in> set (ex_db e)" "xs_ID s \<noteq> k" for s
    using rowRel_target[OF rel that(1)] that(2) by (metis rowRel_def)
  have d: "distinct (map fst (ex_sessions (putBoth k (r', rows') e)))"
    using inv(2) distinct_put[of e k r'] by (simp add: memInv_def putBoth_def)
  have entries: "kk \<notin> todo - {k} \<and> entryInv (ex_boot e) rows' kk q" if q: "getSession kk (putBoth k (r', rows') e) = Some q" for kk q
  proof (cases "kk = k")
    case True then show ?thesis using q entry by simp
  next
    case False
    then have "getSession kk e = Some q" using q by simp
    then have "kk \<notin> todo" "entryInv (ex_boot e) (ex_db e) kk q" using inv(2) by (auto simp: memInv_def)
    moreover have "entryInv (ex_boot e) rows' kk q"
      by (rule entryInv_other[OF \<open>entryInv (ex_boot e) (ex_db e) kk q\<close>]) (use stored kept False in blast)+
    ultimately show ?thesis by blast
  qed
  have present: "getSession (xs_ID s) (putBoth k (r', rows') e) \<noteq> None" if "s \<in> set rows'" "\<not> sessionReleased s" "xs_ID s \<notin> todo - {k}" for s
  proof (cases "xs_ID s = k")
    case False
    then have "s \<in> set (ex_db e)" "xs_ID s \<notin> todo" using stored[OF that(1)] that(3) by auto
    then show ?thesis using inv(2) that(2) False unfolding memInv_def by simp
  qed simp
  show ?thesis
  proof (rule exInvI, goal_cases)
    case 1 then show ?case using inv(1) by simp
  next
    case 2 then show ?case by (rule d)
  next
    case (3 kk q) then show ?case using entries[OF 3] by simp
  next
    case (4 s) then show ?case using present[of s] by simp
  qed
qed

lemma sectionOK_D:
  assumes "sectionOK ker (r, rows) (r', rows')"
  shows "fixed (rt_session r) (rt_session r')" "sane (rt_session r')" "observable r'" "owned (rt_session r') \<Longrightarrow> owned (rt_session r)"
    "list_all2 (rowRel (xs_ID (rt_session r))) rows rows'"
    "sessionReleased (rt_session r') \<Longrightarrow> noLive ker (xs_Group (rt_session r))"
    "sessionReleased (rt_session r') \<Longrightarrow> s \<in> set rows' \<Longrightarrow> xs_ID s = xs_ID (rt_session r) \<Longrightarrow> sessionReleased s"
    "\<not> sessionReleased (rt_session r') \<Longrightarrow> s \<in> set rows' \<Longrightarrow> xs_ID s = xs_ID (rt_session r) \<Longrightarrow> \<not> sessionReleased s"
  using assms by (simp_all add: sectionOK_def split: if_splits)

lemma entryInvI:
  assumes "xs_ID (rt_session r) = k" "sane (rt_session r)" "observable r" "owned (rt_session r) \<Longrightarrow> xs_BootID (rt_session r) = boot"
    and "sessionReleased (rt_session r) \<Longrightarrow> \<exists>s\<in>set rows. fixed s (rt_session r)"
    and "sessionReleased (rt_session r) \<Longrightarrow> \<forall>s\<in>set rows. xs_ID s = k \<longrightarrow> sessionReleased s"
    and "\<not> sessionReleased (rt_session r) \<Longrightarrow> \<exists>s\<in>set rows. fixed s (rt_session r) \<and> \<not> sessionReleased s"
  shows "entryInv boot rows k r"
  using assms by (auto simp: entryInv_def)

lemma section_entry:
  assumes sec: "sectionOK ker (r, rows) (r', rows')" and k: "xs_ID (rt_session r) = k"
    and s0: "s0 \<in> set rows" "fixed s0 (rt_session r)" and boot: "owned (rt_session r') \<Longrightarrow> xs_BootID (rt_session r) = boot"
  shows "entryInv boot rows' k r'"
proof -
  note d = sectionOK_D[OF sec]
  obtain s1 where s1: "s1 \<in> set rows'" "rowRel k s0 s1" using rowRel_target[OF d(5)[unfolded k] s0(1)] .
  have f: "fixed s1 (rt_session r')" by (rule fixed_trans[OF fixed_trans[OF fixed_sym[OF rowRel_fixed[OF s1(2)]] s0(2)] d(1)])
  have ids: "xs_ID (rt_session r') = k" "xs_ID s1 = k" using fixed_ID[OF d(1)] fixed_ID[OF f] k by simp_all
  show ?thesis
  proof (rule entryInvI[OF ids(1) d(2,3)])
    show "xs_BootID (rt_session r') = boot" if "owned (rt_session r')" using boot[OF that] d(1) by (simp add: fixed_def)
    show "\<forall>s\<in>set rows'. xs_ID s = k \<longrightarrow> sessionReleased s" if "sessionReleased (rt_session r')" 
      by (intro ballI impI, erule (1) d(7)[OF that, unfolded k])
    show "\<exists>s\<in>set rows'. fixed s (rt_session r')" using s1(1) f by blast
    show "\<exists>s\<in>set rows'. fixed s (rt_session r') \<and> \<not> sessionReleased s" if "\<not> sessionReleased (rt_session r')"
      using d(8)[OF that s1(1), unfolded k, OF ids(2)] s1(1) f by (intro bexI conjI)
  qed
qed

lemma section_rows:
  assumes inv: "rowsInv boot ker rows" and sec: "sectionOK ker (r, rows) (r', rows')"
    and s0: "s0 \<in> set rows" "fixed s0 (rt_session r)" "\<not> sessionReleased s0"
  shows "rowsInv boot ker rows'"
proof (rule rowsInv_section[OF inv, where k = "xs_ID (rt_session r)" and p = "xs_Group (rt_session r)"])
  show "list_all2 (rowRel (xs_ID (rt_session r))) rows rows'" by (rule sectionOK_D(5)[OF sec])
  show "\<not> sessionReleased s \<and> xs_Group s = xs_Group (rt_session r)" if "s \<in> set rows" "xs_ID s = xs_ID (rt_session r)" for s
  proof -
    have "distinct (map xs_ID rows)" using inv by (simp add: rowsInv_def)
    then have "s = s0" using distinct_row that s0(1) fixed_ID[OF s0(2)] by metis
    then show ?thesis using s0 by (simp add: fixed_def)
  qed
  show "(\<forall>s\<in>set rows'. xs_ID s = xs_ID (rt_session r) \<longrightarrow> \<not> sessionReleased s) \<or>
      noLive ker (xs_Group (rt_session r)) \<and> (\<forall>s\<in>set rows'. xs_ID s = xs_ID (rt_session r) \<longrightarrow> sessionReleased s)"
    using sectionOK_D(6-8)[OF sec] by blast
qed

lemma inv_section:
  assumes inv: "exInv todo ker e" and r: "getSession k e = Some r" "\<not> sessionReleased (rt_session r)"
    and sec: "sectionOK ker (r, ex_db e) (r', rows')"
  shows "exInv todo ker (putBoth k (r', rows') e)"
proof -
  note k = exInvD[OF inv r(1)]
  obtain s0 where s0: "s0 \<in> set (ex_db e)" "fixed s0 (rt_session r)" "\<not> sessionReleased s0" using exInv_row[OF inv r] by blast
  have boot: "xs_BootID (rt_session r) = ex_boot e" if "owned (rt_session r')"
    using k(2) sectionOK_D(4)[OF sec that] unfolding entryInv_def by blast
  have entry: "entryInv (ex_boot e) rows' k r'" by (rule section_entry[OF sec k(3) s0(1,2) boot])
  have inv': "rowsInv (ex_boot e) ker (ex_db e)" "memInv todo e" using inv unfolding exInv_def by auto
  have "exInv (todo - {k}) ker (putBoth k (r', rows') e)"
    by (rule inv_entered[OF section_rows[OF inv'(1) sec s0] inv'(2) _ entry]) (use sectionOK_D(5)[OF sec] k(3) in simp)
  then show ?thesis using k(1) by simp
qed

section \<open>The operations on one session\<close>

text \<open>A session that is not released, with its row.\<close>

definition atWork :: "runtimeSession \<Rightarrow> ExecSession list \<Rightarrow> bool" where
  "atWork r rows \<longleftrightarrow> \<not> sessionReleased (rt_session r) \<and> sane (rt_session r) \<and> hasRow (xs_ID (rt_session r)) rows \<and>
     (\<forall>s\<in>set rows. xs_ID s = xs_ID (rt_session r) \<longrightarrow> fixed s (rt_session r) \<and> \<not> sessionReleased s \<and> sane s)"

lemma atWorkD:
  assumes "atWork r rows"
  shows "\<not> sessionReleased (rt_session r)" "sane (rt_session r)" "hasRow (xs_ID (rt_session r)) rows"
    "s \<in> set rows \<Longrightarrow> xs_ID s = xs_ID (rt_session r) \<Longrightarrow> fixed s (rt_session r)"
    "s \<in> set rows \<Longrightarrow> xs_ID s = xs_ID (rt_session r) \<Longrightarrow> \<not> sessionReleased s"
    "s \<in> set rows \<Longrightarrow> xs_ID s = xs_ID (rt_session r) \<Longrightarrow> sane s"
  using assms unfolding atWork_def by auto

lemma list_all2_refl_pw: "(\<And>x. x \<in> set xs \<Longrightarrow> P x x) \<Longrightarrow> list_all2 P xs xs"
  by (induction xs) auto

lemma rowRel_self: "atWork r rows \<Longrightarrow> list_all2 (rowRel (xs_ID (rt_session r))) rows rows"
  by (rule list_all2_refl_pw) (simp add: rowRel_def atWorkD)

lemma save_update:
  assumes w: "atWork r rows" and s': "fixed (rt_session r) s'" "sane s'" and sv: "saveSession err s' rows = (x, rows')"
  shows "list_all2 (rowRel (xs_ID (rt_session r))) rows rows'"
    and "x = None \<Longrightarrow> t \<in> set rows' \<Longrightarrow> xs_ID t = xs_ID (rt_session r) \<Longrightarrow> t = s'"
    and "x \<noteq> None \<Longrightarrow> rows' = rows"
proof -
  have id: "xs_ID s' = xs_ID (rt_session r)" using fixed_ID[OF s'(1)] by simp
  have rows': "rows' = (if x = None then map (\<lambda>t. if xs_ID t = xs_ID s' then s' else t) rows else rows)"
    using sv atWorkD(3)[OF w] unfolding id[symmetric] by (auto simp: saveSession_def split: option.splits)
  have "rowRel (xs_ID (rt_session r)) t (if xs_ID t = xs_ID s' then s' else t)" if "t \<in> set rows" for t
    using fixed_trans[OF atWorkD(4)[OF w that] s'(1)] s'(2) by (simp add: rowRel_def id)
  then have "list_all2 (rowRel (xs_ID (rt_session r))) rows (map (\<lambda>t. if xs_ID t = xs_ID s' then s' else t) rows)"
    by (simp add: list_all2_map2 list_all2_refl_pw)
  then show "list_all2 (rowRel (xs_ID (rt_session r))) rows rows'" using rows' rowRel_self[OF w] by simp
  show "t = s'" if "x = None" "t \<in> set rows'" "xs_ID t = xs_ID (rt_session r)" using rows' that id by (auto split: if_splits)
  show "rows' = rows" if "x \<noteq> None" using rows' that by simp
qed

text \<open>One write of a session that stays unreleased.\<close>

lemma section_save:
  assumes w: "atWork r rows" and s': "fixed (rt_session r) (rt_session r')" "sane (rt_session r')" "\<not> sessionReleased (rt_session r')"
    and o: "observable r'" "owned (rt_session r') \<Longrightarrow> owned (rt_session r)" and sv: "saveSession err (rt_session r') rows = (x, rows')"
  shows "sectionOK ker (r, rows) (r', rows')"
proof -
  note u = save_update[OF w s'(1,2) sv]
  have "\<not> sessionReleased t" if "t \<in> set rows'" "xs_ID t = xs_ID (rt_session r)" for t
    using u(2)[OF _ that] u(3) that s'(3) atWorkD(5)[OF w] by (cases x) auto
  then show ?thesis using u(1) s' o by (simp add: sectionOK_def)
qed

lemma section_atWork:
  assumes w: "atWork r rows" and sec: "sectionOK ker (r, rows) (r', rows')" and un: "\<not> sessionReleased (rt_session r')"
  shows "atWork r' rows'"
proof -
  note d = sectionOK_D[OF sec]
  have id: "xs_ID (rt_session r') = xs_ID (rt_session r)" using fixed_ID[OF d(1)] by simp
  have "hasRow (xs_ID (rt_session r)) rows'"
    using atWorkD(3)[OF w] rowRel_target[OF d(5)] rowRel_ID unfolding hasRow_def list_ex_iff by metis
  moreover have "fixed t (rt_session r') \<and> \<not> sessionReleased t \<and> sane t" if m: "t \<in> set rows'" "xs_ID t = xs_ID (rt_session r)" for t
  proof -
    obtain s where s: "s \<in> set rows" "rowRel (xs_ID (rt_session r)) s t" using rowRel_source[OF d(5) m(1)] .
    have sid: "xs_ID s = xs_ID (rt_session r)" using rowRel_ID[OF s(2)] m(2) by simp
    have "fixed t (rt_session r')"
      by (rule fixed_trans[OF fixed_trans[OF fixed_sym[OF rowRel_fixed[OF s(2)]] atWorkD(4)[OF w s(1) sid]] d(1)])
    moreover have "sane t" using s(2) sid by (simp add: rowRel_def)
    ultimately show ?thesis using d(8)[OF un m] by blast
  qed
  ultimately show ?thesis unfolding atWork_def id using un d(2) by blast
qed

lemma rowRel_trans:
  assumes "rowRel i a b" "rowRel i b c"
  shows "rowRel i a c"
proof (cases "xs_ID a = i")
  case True
  then have "fixed a b" "xs_ID b = i" using assms(1) by (simp_all add: rowRel_def fixed_def)
  then show ?thesis using True assms(2) fixed_trans[of a b c] by (simp add: rowRel_def)
next
  case False
  then have "b = a" using assms(1) by (simp add: rowRel_def)
  then show ?thesis using assms(2) by simp
qed

lemma sectionOK_I:
  assumes "fixed (rt_session r) (rt_session r')" "sane (rt_session r')" "observable r'" "owned (rt_session r') \<Longrightarrow> owned (rt_session r)"
    "list_all2 (rowRel (xs_ID (rt_session r))) rows rows'"
    "sessionReleased (rt_session r') \<Longrightarrow> noLive ker (xs_Group (rt_session r))"
    "\<And>s. sessionReleased (rt_session r') \<Longrightarrow> s \<in> set rows' \<Longrightarrow> xs_ID s = xs_ID (rt_session r) \<Longrightarrow> sessionReleased s"
    "\<And>s. \<not> sessionReleased (rt_session r') \<Longrightarrow> s \<in> set rows' \<Longrightarrow> xs_ID s = xs_ID (rt_session r) \<Longrightarrow> \<not> sessionReleased s"
  shows "sectionOK ker (r, rows) (r', rows')"
proof (cases "sessionReleased (rt_session r')")
  case True
  then have "noLive ker (xs_Group (rt_session r)) \<and> (\<forall>s\<in>set rows'. xs_ID s = xs_ID (rt_session r) \<longrightarrow> sessionReleased s)"
    using assms(6,7) by blast
  then show ?thesis unfolding sectionOK_def split if_P[OF True] using assms(1-5) by blast
next
  case False
  then have "\<forall>s\<in>set rows'. xs_ID s = xs_ID (rt_session r) \<longrightarrow> \<not> sessionReleased s" using assms(8) by blast
  then show ?thesis unfolding sectionOK_def split if_not_P[OF False] using assms(1-5) by blast
qed

lemma section_trans:
  assumes a: "sectionOK ker (r, rows) (r1, rows1)" and b: "sectionOK ker (r1, rows1) (r2, rows2)"
  shows "sectionOK ker (r, rows) (r2, rows2)"
proof -
  note d = sectionOK_D[OF a] and e = sectionOK_D[OF b]
  have id: "xs_ID (rt_session r1) = xs_ID (rt_session r)" "xs_Group (rt_session r1) = xs_Group (rt_session r)"
    using d(1) by (auto simp: fixed_def)
  have rel: "list_all2 (rowRel (xs_ID (rt_session r))) rows rows2"
    by (rule list_all2_trans[OF rowRel_trans d(5) e(5)[unfolded id]])
  show ?thesis
    by (rule sectionOK_I[OF fixed_trans[OF d(1) e(1)] e(2,3) d(4)[OF e(4)] rel e(6-8)[unfolded id]])
qed

lemma resources_simps [simp]:
  "xs_ID (updResources f s) = xs_ID s" "xs_Stopping (updResources f s) = xs_Stopping s" "fixed s (updResources f t) = fixed s t"
  "xs_Deadline (updResources f s) = xs_Deadline s" "xs_Created (updResources f s) = xs_Created s"
  "xs_Resources (updResources f s) = f (xs_Resources s)" "xs_Group (updResources f s) = xs_Group s"
  by (simp_all add: updResources_def fixed_def)

lemma fixed_stopping [simp]: "fixed s (t\<lparr>xs_Stopping := x\<rparr>) = fixed s t"
  by (simp add: fixed_def)

lemma released_states: "sessionReleased s \<longleftrightarrow> nr_State (xs_Resources s) = ''released'' \<or> nr_State (xs_Resources s) = ''unallocated''"
  by (simp add: sessionReleased_def NixResources_Released_def)

lemma blocked_facts: "fixed s (blocked now c m s)" "sane s \<Longrightarrow> sane (blocked now c m s)" "\<not> sessionReleased (blocked now c m s)" "\<not> owned (blocked now c m s)"
  "xs_Stopping (blocked now c m s) = xs_Stopping s" "nr_ReleaseDeadline (xs_Resources (blocked now c m s)) = nr_ReleaseDeadline (xs_Resources s)"
  by (simp_all add: blocked_def sane_def released_states owned_def)

lemma block_section:
  assumes "atWork r rows" "observable r" "block err now c m (r, rows) = (r', rows')"
  shows "sectionOK ker (r, rows) (r', rows')" "\<not> sessionReleased (rt_session r')" "\<not> owned (rt_session r')" "rt_monitoring r' = rt_monitoring r"
proof -
  obtain x where sv: "saveSession err (blocked now c m (rt_session r)) rows = (x, rows')" and r': "r' = r\<lparr>rt_session := blocked now c m (rt_session r)\<rparr>"
    using assms(3) by (auto simp: block_def Let_def prod_eq_iff)
  have "observable r'" using assms(2) blocked_facts unfolding r' observable_def by simp
  then show "sectionOK ker (r, rows) (r', rows')"
    using section_save[OF assms(1), of r' err x rows'] sv blocked_facts atWorkD(2)[OF assms(1)] unfolding r' by simp
  show "\<not> sessionReleased (rt_session r')" "\<not> owned (rt_session r')" "rt_monitoring r' = rt_monitoring r" by (simp_all add: r' blocked_facts)
qed

lemma section_same:
  assumes w: "atWork r rows" and r': "observable r'" "rt_session r' = rt_session r"
  shows "sectionOK ker (r, rows) (r', rows)"
  by (rule sectionOK_I) (use atWorkD[OF w] r' rowRel_self[OF w] in simp_all)

lemma releasedSession_facts:
  "fixed s (releasedSession now c s)" "sane s \<Longrightarrow> sane (releasedSession now c s)" "sessionReleased (releasedSession now c s)"
  "\<not> owned (releasedSession now c s)"
  by (simp_all add: releasedSession_def Let_def sane_def released_states owned_def)

lemma observable_idle: "\<not> rt_monitoring r \<Longrightarrow> observable r"
  by (simp add: observable_def)

lemma released_section:
  assumes w: "atWork r rows" and o: "observable r" and live: "noLive ker (xs_Group (rt_session r))"
    and rel: "released io now c (r, rows) = (err, r', rows')"
  shows "err = None \<Longrightarrow> sectionOK ker (r, rows) (r'\<lparr>rt_group := g, rt_monitoring := False\<rparr>, rows')"
    and "err = None \<Longrightarrow> rt_monitoring r' = rt_monitoring r \<and> rt_group r' = rt_group r"
    and "err \<noteq> None \<Longrightarrow> sectionOK ker (r, rows) (r', rows') \<and> \<not> sessionReleased (rt_session r') \<and> \<not> owned (rt_session r') \<and>
       rt_monitoring r' = rt_monitoring r"
proof -
  let ?s = "releasedSession now c (rt_session r)"
  obtain x rows1 where sv: "saveSession (sv_first io) ?s rows = (x, rows1)" by fastforce
  note u = save_update[OF w releasedSession_facts(1) releasedSession_facts(2)[OF atWorkD(2)[OF w]] sv]
  show r': "rt_monitoring r' = rt_monitoring r \<and> rt_group r' = rt_group r" if "err = None"
    using rel sv that by (auto simp: released_def Let_def split: option.splits prod.splits)
  show "sectionOK ker (r, rows) (r'\<lparr>rt_group := g, rt_monitoring := False\<rparr>, rows')" if e: "err = None"
  proof -
    have x: "x = None" "rt_session r' = ?s" "rows' = rows1"
      using rel sv e by (auto simp: released_def Let_def split: option.splits prod.splits)
    show ?thesis
    proof (rule sectionOK_I)
      show "sessionReleased t" if "t \<in> set rows'" "xs_ID t = xs_ID (rt_session r)" for t
        using u(2)[OF x(1) that(1)[unfolded x(3)] that(2)] releasedSession_facts(3) by simp
    qed (use u(1) x releasedSession_facts atWorkD(2)[OF w] live observable_idle in simp_all)
  qed
  show "sectionOK ker (r, rows) (r', rows') \<and> \<not> sessionReleased (rt_session r') \<and> \<not> owned (rt_session r') \<and> rt_monitoring r' = rt_monitoring r"
    if e: "err \<noteq> None"
  proof -
    have x: "x \<noteq> None" "block (sv_block io) now ''executor_persistence'' ''Resource release could not be persisted'' (r, rows) = (r', rows')"
      using rel sv e u(3) by (auto simp: released_def Let_def split: option.splits prod.splits)
    show ?thesis using block_section[OF w o x(2)] by blast
  qed
qed

lemma overdue_section:
  assumes w: "atWork r rows" and o: "observable r" and eq: "overdue cfg now io st dl err (r, rows) = (r', rows')"
  shows "sectionOK ker (r, rows) (r', rows')" "\<not> sessionReleased (rt_session r')"
proof -
  obtain b m where r1: "(r', rows') = (r\<lparr>rt_killAttempted := b\<rparr>, rows) \<or>
      block (ob_blockSave io) now ''resource_release_unconfirmed'' m (r\<lparr>rt_killAttempted := b\<rparr>, rows) = (r', rows')"
  proof (cases "\<not> rt_killAttempted r \<and> now - st \<ge> xc_StopGrace cfg")
    case True
    then show ?thesis using eq that[of True] unfolding overdue_def split Let_def by (simp split: if_splits) blast
  next
    case False
    moreover have "r\<lparr>rt_killAttempted := rt_killAttempted r\<rparr> = r" by simp
    ultimately show ?thesis using eq that[of "rt_killAttempted r"] unfolding overdue_def split Let_def by (simp split: if_splits) blast+
  qed
  let ?r = "r\<lparr>rt_killAttempted := b\<rparr>"
  have o': "observable ?r" using o by (simp add: observable_def)
  have s1: "sectionOK ker (r, rows) (?r, rows)" by (rule section_same[OF w o']) simp
  have w': "atWork ?r rows" using w by (simp add: atWork_def)
  show "sectionOK ker (r, rows) (r', rows')"
    using r1
  proof
    assume "block (ob_blockSave io) now ''resource_release_unconfirmed'' m (?r, rows) = (r', rows')"
    from block_section(1)[OF w' o' this] show ?thesis by (rule section_trans[OF s1])
  qed (use s1 in simp)
  show "\<not> sessionReleased (rt_session r')"
    using r1
  proof
    assume "block (ob_blockSave io) now ''resource_release_unconfirmed'' m (?r, rows) = (r', rows')"
    from block_section(2)[OF w' o' this] show ?thesis .
  qed (use atWorkD(1)[OF w] in simp)
qed

lemma observe_section:
  assumes w: "atWork r rows" and o: "observable r" and live: "ob_live io = Inr False \<Longrightarrow> noLive ker (xs_Group (rt_session r))"
    and eq: "observeRelease cfg now io (r, rows) = Some ((r', rows'), fin)"
  shows "sectionOK ker (r, rows) (r', rows')"
proof -
  obtain st dl where sd: "xs_Stopping (rt_session r) = Some st" "nr_ReleaseDeadline (xs_Resources (rt_session r)) = Some dl"
    using eq by (auto simp: observeRelease_def split: option.splits)
  consider (rel) "ob_live io = Inr False" | (over) err where "overdue cfg now io st dl err (r, rows) = (r', rows')"
    using eq sd by (auto simp: observeRelease_def split: sum.splits bool.splits)
  then show ?thesis
  proof cases
    case over
    show ?thesis by (rule overdue_section(1)[OF w o over])
  next
    case rel
    obtain err r1 rows1 where r1: "released (ob_save io) now ''sealed_cgroup_empty'' (r, rows) = (err, r1, rows1)"
      by (cases "released (ob_save io) now ''sealed_cgroup_empty'' (r, rows)")
    note rs = released_section[OF w o live[OF rel] r1]
    show ?thesis
    proof (cases err)
      case None
      then have "r' = r1\<lparr>rt_group := None, rt_monitoring := False\<rparr>" "rows' = rows1" using eq sd rel r1 by (auto simp: observeRelease_def)
      then show ?thesis using rs(1)[OF None] by simp
    next
      case (Some er)
      then have ov: "overdue cfg now io st dl (Some er) (r1, rows1) = (r', rows')" using eq sd rel r1 by (auto simp: observeRelease_def)
      have s: "sectionOK ker (r, rows) (r1, rows1)" "\<not> sessionReleased (rt_session r1)" using rs(3) Some by auto
      show ?thesis by (rule section_trans[OF s(1) overdue_section(1)[OF section_atWork[OF w s] sectionOK_D(3)[OF s(1)] ov]])
    qed
  qed
qed

end
