(* ===== verification/ExecOps.thy ===== *)
theory ExecOps
  imports ExecInv
begin

text \<open>
  Every operation of the executor keeps the invariant and the receipts: \<open>good\<close> relates the executor before and after.
\<close>

section \<open>Stopping\<close>

lemma stoppedSession_facts:
  "fixed s (stoppedSession now c s)" "sane s \<Longrightarrow> sane (stoppedSession now c s)" "\<not> sessionReleased (stoppedSession now c s)"
  "\<not> owned (stoppedSession now c s)" "xs_Stopping (stoppedSession now c s) \<noteq> None"
  by (simp_all add: stoppedSession_def Let_def sane_def released_states owned_def)

lemma releaseAttempt_facts:
  "fixed s (rt_session (releaseAttempt now b r)) = fixed s (rt_session r)" "sane (rt_session r) \<Longrightarrow> sane (rt_session (releaseAttempt now b r))"
  "\<not> sessionReleased (rt_session (releaseAttempt now b r))" "\<not> owned (rt_session (releaseAttempt now b r))"
  "xs_Stopping (rt_session (releaseAttempt now b r)) = xs_Stopping (rt_session r)" "rt_monitoring (releaseAttempt now b r) = rt_monitoring r"
  "nr_ReleaseDeadline (xs_Resources (rt_session (releaseAttempt now b r))) \<noteq> None" "rt_group (releaseAttempt now b r) = rt_group r"
  by (simp_all add: releaseAttempt_def sane_def released_states owned_def)

text \<open>What a stop makes of a session without an observer, before it is written.\<close>

definition stopping :: "ExecConfig \<Rightarrow> gotime \<Rightarrow> string \<Rightarrow> runtimeSession \<Rightarrow> runtimeSession" where
  "stopping cfg now reason r =
    (let r1 = r\<lparr>rt_session := stoppedSession now reason (rt_session r), rt_listener := False\<rparr> in
     if nr_ReleaseDeadline (xs_Resources (rt_session r1)) = None then releaseAttempt now (xc_ReleaseTimeout cfg) r1 else r1)"

lemma stopping_facts:
  "fixed (rt_session r) (rt_session (stopping cfg now reason r))" "sane (rt_session r) \<Longrightarrow> sane (rt_session (stopping cfg now reason r))"
  "\<not> sessionReleased (rt_session (stopping cfg now reason r))" "\<not> owned (rt_session (stopping cfg now reason r))"
  "xs_Stopping (rt_session (stopping cfg now reason r)) \<noteq> None" "rt_group (stopping cfg now reason r) = rt_group r"
  "nr_ReleaseDeadline (xs_Resources (rt_session (stopping cfg now reason r))) \<noteq> None" "rt_monitoring (stopping cfg now reason r) = rt_monitoring r"
  using releaseAttempt_facts(7) stoppedSession_facts(5)
  by (simp_all add: stopping_def Let_def releaseAttempt_facts(1-6,8) stoppedSession_facts(1-4) del: not_None_eq)

lemma stopLocked_idle:
  assumes "\<not> sessionReleased (rt_session r)" "\<not> rt_monitoring r"
  shows "stopLocked io cfg now reason (r, rows) =
    (let r2 = stopping cfg now reason r; (err, rows1) = saveSession (sv_first io) (rt_session r2) rows in
     if rt_group r \<noteq> None then (err, r2\<lparr>rt_monitoring := True\<rparr>, rows1)
     else (err, block (sv_block io) now ''executor_identity'' ''Session group could not be opened; inspect the host before recovery'' (r2, rows1)))"
  using assms stopping_facts(6)[of cfg now reason r] unfolding stopLocked_def split stopping_def Let_def by simp

lemma stop_section:
  assumes w: "atWork r rows" and o: "observable r" and eq: "stopLocked io cfg now reason (r, rows) = (err, r', rows')"
  shows "sectionOK ker (r, rows) (r', rows')" "\<not> sessionReleased (rt_session r')"
proof -
  have "sectionOK ker (r, rows) (r', rows') \<and> \<not> sessionReleased (rt_session r')"
  proof (cases "rt_monitoring r")
    case True
    let ?r = "(releaseAttempt now (xc_ReleaseTimeout cfg) r)\<lparr>rt_killAttempted := False\<rparr>"
    have "observable ?r" using o by (simp add: observable_def releaseAttempt_facts)
    moreover have "sane (rt_session ?r)" using releaseAttempt_facts(2) atWorkD(2)[OF w] by simp
    ultimately have s: "sectionOK ker (r, rows) (?r, rows1)" if "saveSession (sv_first io) (rt_session ?r) rows = (x, rows1)" for x rows1
      using section_save[OF w _ _ _ _ _ that] releaseAttempt_facts(1,3,4) by simp
    show ?thesis
    proof (cases "reason = ''recovery'' \<and> nr_State (xs_Resources (rt_session r)) = ''blocked''")
      case rec: True
      then have "saveSession (sv_first io) (rt_session ?r) rows = (err, rows')" "r' = ?r"
        using eq True atWorkD(1)[OF w] by (auto simp: stopLocked_def Let_def split: prod.splits)
      then show ?thesis using s releaseAttempt_facts(3) by simp
    next
      case False
      then have "r' = r" "rows' = rows" using eq True atWorkD(1)[OF w] by (auto simp: stopLocked_def Let_def split: prod.splits)
      then show ?thesis using section_same[OF w o] atWorkD(1)[OF w] by simp
    qed
  next
    case False
    let ?r = "stopping cfg now reason r"
    obtain x rows1 where sv: "saveSession (sv_first io) (rt_session ?r) rows = (x, rows1)" by fastforce
    have o1: "observable ?r" using False stopping_facts(8) by (simp add: observable_def)
    have s: "sectionOK ker (r, rows) (r2, rows1)" if "observable r2" "rt_session r2 = rt_session ?r" for r2
      using section_save[OF w _ _ _ that(1)] that(2) stopping_facts(1,3,4) stopping_facts(2)[OF atWorkD(2)[OF w]] sv by simp
    show ?thesis
    proof (cases "rt_group r = None")
      case gone: True
      then have b: "block (sv_block io) now ''executor_identity'' ''Session group could not be opened; inspect the host before recovery'' (?r, rows1) = (r', rows')"
        using eq sv unfolding stopLocked_idle[OF atWorkD(1)[OF w] False] Let_def by simp
      have s1: "sectionOK ker (r, rows) (?r, rows1)" using s[OF o1] by simp
      show ?thesis
        using block_section[OF section_atWork[OF w s1 stopping_facts(3)] o1 b] section_trans[OF s1] by blast
    next
      case opened: False
      then have "r' = ?r\<lparr>rt_monitoring := True\<rparr>" "rows' = rows1"
        using eq sv unfolding stopLocked_idle[OF atWorkD(1)[OF w] False] Let_def by simp_all
      moreover have "observable (?r\<lparr>rt_monitoring := True\<rparr>)" using stopping_facts opened by (simp add: observable_def)
      ultimately show ?thesis using s stopping_facts(3) by simp
    qed
  qed
  then show "sectionOK ker (r, rows) (r', rows')" "\<not> sessionReleased (rt_session r')" by auto
qed

section \<open>Steps that keep the receipts\<close>

definition grown :: "(ExecSession \<Rightarrow> bool) \<Rightarrow> ExecSession list \<Rightarrow> ExecSession list \<Rightarrow> bool" where
  "grown P rows rows' \<longleftrightarrow> (\<forall>s\<in>set rows'. \<not> sessionReleased s \<longrightarrow> P s \<or> (\<exists>t\<in>set rows. \<not> sessionReleased t \<and> samePair t s))"

definition keeps :: "(ExecSession \<Rightarrow> bool) \<Rightarrow> ExecSession list \<Rightarrow> ExecSession list \<Rightarrow> bool" where
  "keeps P rows rows' \<longleftrightarrow> (\<forall>s\<in>set rows. sessionReleased s \<longrightarrow> s \<in> set rows') \<and> grown P rows rows'"

text \<open>Unreleased sessions are those of before, but for new ones in \<open>P\<close>.\<close>

definition goodBut :: "(ExecSession \<Rightarrow> bool) \<Rightarrow> string set \<Rightarrow> kernel \<Rightarrow> Executor \<Rightarrow> Executor \<Rightarrow> bool" where
  "goodBut P todo ker e e' \<longleftrightarrow> exInv todo ker e' \<and> keeps P (ex_db e) (ex_db e')"

abbreviation nothing :: "ExecSession \<Rightarrow> bool" where "nothing \<equiv> (\<lambda>_. False)"

abbreviation good :: "string set \<Rightarrow> kernel \<Rightarrow> Executor \<Rightarrow> Executor \<Rightarrow> bool" where "good \<equiv> goodBut nothing"

lemma samePair_equiv: "samePair s s" "samePair a b \<Longrightarrow> samePair b c \<Longrightarrow> samePair a c"
  by (simp_all add: samePair_def)

lemma grown_refl: "grown P rows rows"
  using samePair_equiv(1) unfolding grown_def by blast

lemma grown_trans: "grown P a b \<Longrightarrow> grown nothing b c \<Longrightarrow> (\<And>s t. P s \<Longrightarrow> samePair s t \<Longrightarrow> P t) \<Longrightarrow> grown P a c"
  using samePair_equiv(2) unfolding grown_def by meson

lemma grown_after: "grown nothing a b \<Longrightarrow> grown P b c \<Longrightarrow> grown P a c"
  using samePair_equiv(2) unfolding grown_def by meson

lemma grown_subset: "(\<And>s. s \<in> set rows' \<Longrightarrow> s \<in> set rows) \<Longrightarrow> grown P rows rows'"
  using samePair_equiv(1) unfolding grown_def by blast

lemma keeps_refl: "keeps P rows rows"
  using grown_refl by (simp add: keeps_def)

lemma good_mono: "goodBut P todo ker e e' \<Longrightarrow> (\<And>s. P s \<Longrightarrow> Q s) \<Longrightarrow> goodBut Q todo ker e e'"
  unfolding goodBut_def keeps_def grown_def by blast

lemma good_refl: "exInv todo ker e \<Longrightarrow> goodBut P todo ker e e"
  by (simp add: goodBut_def keeps_refl)

lemma good_inv: "goodBut P todo ker e e' \<Longrightarrow> exInv todo ker e'"
  by (simp add: goodBut_def)

lemma good_trans: "good t1 ker e1 e2 \<Longrightarrow> goodBut P t2 ker e2 e3 \<Longrightarrow> goodBut P t2 ker e1 e3"
  using grown_after by (auto simp: goodBut_def keeps_def)

lemma good_then: "goodBut P t1 ker e1 e2 \<Longrightarrow> good t2 ker e2 e3 \<Longrightarrow> (\<And>s t. P s \<Longrightarrow> samePair s t \<Longrightarrow> P t) \<Longrightarrow> goodBut P t2 ker e1 e3"
  using grown_trans[of P] by (auto simp: goodBut_def keeps_def)

lemma exInv_atWork:
  assumes inv: "exInv todo ker e" and r: "getSession k e = Some r" "\<not> sessionReleased (rt_session r)"
  shows "atWork r (ex_db e)"
proof -
  obtain s where s: "s \<in> set (ex_db e)" "fixed s (rt_session r)" "\<not> sessionReleased s" "\<And>t. t \<in> set (ex_db e) \<Longrightarrow> xs_ID t = k \<Longrightarrow> t = s"
    using exInv_row[OF inv r] by blast
  have k: "xs_ID (rt_session r) = k" "sane (rt_session r)" using exInvD[OF inv r(1)] by auto
  have "sane s" using inv s(1) by (simp add: exInv_def rowsInv_def)
  moreover have "hasRow k (ex_db e)" using s(1) fixed_ID[OF s(2)] k(1) by (auto simp: hasRow_def list_ex_iff)
  ultimately show ?thesis using s k r(2) unfolding atWork_def by blast
qed

lemma section_keeps:
  assumes w: "atWork r rows" and rel: "list_all2 (rowRel (xs_ID (rt_session r))) rows rows'"
  shows "keeps P rows rows'"
  unfolding keeps_def grown_def
proof (intro conjI ballI impI)
  fix s' assume s': "s' \<in> set rows'" "\<not> sessionReleased s'"
  obtain s where s: "s \<in> set rows" "rowRel (xs_ID (rt_session r)) s s'" using rowRel_source[OF rel s'(1)] .
  have "samePair s s'" using rowRel_fixed[OF s(2)] by (simp add: fixed_def samePair_def)
  moreover have "\<not> sessionReleased s" using s s'(2) atWorkD(5)[OF w s(1)] by (auto simp: rowRel_def split: if_splits)
  ultimately show "P s' \<or> (\<exists>t\<in>set rows. \<not> sessionReleased t \<and> samePair t s')" using s(1) by blast
next
  fix s assume s: "s \<in> set rows" "sessionReleased s"
  obtain s' where s': "s' \<in> set rows'" "rowRel (xs_ID (rt_session r)) s s'" using rowRel_target[OF rel s(1)] .
  have "xs_ID s \<noteq> xs_ID (rt_session r)" using atWorkD(5)[OF w s(1)] s(2) by blast
  then show "s \<in> set rows'" using s' by (simp add: rowRel_def)
qed

lemma good_section:
  assumes inv: "exInv todo ker e" and r: "getSession k e = Some r" "\<not> sessionReleased (rt_session r)"
    and sec: "sectionOK ker (r, ex_db e) (r', rows')"
  shows "good todo ker e (putBoth k (r', rows') e)"
  using inv_section[OF assms] section_keeps[OF exInv_atWork[OF inv r] sectionOK_D(5)[OF sec]] by (simp add: goodBut_def)

text \<open>A change of the memory that concerns neither the receipt nor the observer.\<close>

lemma good_touch:
  assumes inv: "exInv todo ker e" and r: "getSession k e = Some r"
    and r': "fixed (rt_session r) (rt_session r')" "sane (rt_session r')" "observable r'" "owned (rt_session r') \<Longrightarrow> owned (rt_session r)"
      "sessionReleased (rt_session r') = sessionReleased (rt_session r)"
  shows "good todo ker e (putSession k r' e)"
proof -
  note d = exInvD[OF inv r]
  have e: "entryInv (ex_boot e) (ex_db e) k r'"
  proof (rule entryInvI)
    show "xs_ID (rt_session r') = k" using d(3) fixed_ID[OF r'(1)] by simp
    show "xs_BootID (rt_session r') = ex_boot e" if "owned (rt_session r')"
      using d(2) r'(4)[OF that] r'(1) by (simp add: entryInv_def fixed_def)
    show "\<exists>s\<in>set (ex_db e). fixed s (rt_session r')"
      using d(2) fixed_trans[OF _ r'(1)] unfolding entryInv_def by blast
    show "\<forall>s\<in>set (ex_db e). xs_ID s = k \<longrightarrow> sessionReleased s" if "sessionReleased (rt_session r')"
      using d(2) r'(5) that by (simp add: entryInv_def)
    show "\<exists>s\<in>set (ex_db e). fixed s (rt_session r') \<and> \<not> sessionReleased s" if "\<not> sessionReleased (rt_session r')"
      using d(2) r'(5) that fixed_trans[OF _ r'(1)] unfolding entryInv_def by auto
  qed (use r' in simp_all)
  have m: "rowsInv (ex_boot e) ker (ex_db e)" "memInv todo e" using inv by (simp_all add: exInv_def)
  have "exInv todo ker (putSession k r' e)"
  proof (rule exInvI, goal_cases)
    case 1 show ?case using m(1) by simp
  next
    case 2 show ?case using m(2) distinct_put by (simp add: memInv_def)
  next
    case (3 kk q)
    then show ?case using e d(1) m(2) unfolding memInv_def by (cases "kk = k") simp_all
  next
    case (4 s) then show ?case using m(2) unfolding memInv_def by (cases "xs_ID s = k") simp_all
  qed
  then show ?thesis by (simp add: goodBut_def keeps_refl)
qed

lemma good_stop:
  assumes inv: "exInv todo ker e" and st: "stopSession io now reason k e = (err, e')"
  shows "good todo ker e e'"
proof (cases "getSession k e")
  case None then show ?thesis using st good_refl[OF inv] by (simp add: stopSession_def)
next
  case (Some r)
  obtain x r' rows' where eq: "stopLocked io (ex_cfg e) now reason (r, ex_db e) = (x, r', rows')" by (cases "stopLocked io (ex_cfg e) now reason (r, ex_db e)")
  have e': "e' = putBoth k (r', rows') e" using st Some eq by (simp add: stopSession_def)
  show ?thesis
  proof (cases "sessionReleased (rt_session r)")
    case True
    then have "r' = r" "rows' = ex_db e" using eq by (simp_all add: stopLocked_def)
    then have "e' = putSession k r e" using e' by (simp add: putBoth_def putSession_def)
    then show ?thesis using good_touch[OF inv Some] exInvD[OF inv Some] by simp
  next
    case False
    show ?thesis unfolding e' by (rule good_section[OF inv Some False stop_section(1)[OF exInv_atWork[OF inv Some False] exInvD(5)[OF inv Some] eq]])
  qed
qed

section \<open>Daemons, observers, deadlines\<close>

lemma good_failDaemon:
  assumes inv: "exInv todo ker e"
  shows "good todo ker e (failDaemon io now derr reason k e)"
proof (cases "getSession k e")
  case None then show ?thesis using good_refl[OF inv] by (simp add: failDaemon_def)
next
  case (Some r)
  let ?r = "r\<lparr>rt_session := (rt_session r)\<lparr>xs_DaemonError := Some derr\<rparr>\<rparr>"
  have g: "good todo ker e (putSession k ?r e)"
    by (rule good_touch[OF inv Some])
      (use exInvD[OF inv Some] in \<open>simp_all add: fixed_def sane_def observable_def owned_def sessionReleased_def\<close>)
  show ?thesis
    using good_trans[OF g good_stop[OF good_inv[OF g], where io = io and now = now and reason = reason and k = k]] Some
    by (simp add: failDaemon_def prod_eq_iff)
qed

lemma good_children:
  assumes inv: "exInv todo ker e" and r: "getSession k e = Some r"
  shows "good todo ker e (putSession k (r\<lparr>rt_children := n\<rparr>) e)"
  by (rule good_touch[OF inv r]) (use exInvD[OF inv r] in \<open>simp_all add: observable_def\<close>)

lemma good_accept:
  assumes inv: "exInv todo ker e"
  shows "good todo ker e (acceptDaemon io now err k e)"
  using good_refl[OF inv] good_children[OF inv] good_failDaemon[OF inv]
  by (simp add: acceptDaemon_def split: option.splits)

lemma good_exit:
  assumes inv: "exInv todo ker e"
  shows "good todo ker e (daemonExit io now we k e)"
proof (cases "getSession k e")
  case None then show ?thesis using good_refl[OF inv] by (simp add: daemonExit_def)
next
  case (Some r)
  note g = good_children[OF inv Some, of "rt_children r - 1"]
  show ?thesis
    using Some g good_trans[OF g good_failDaemon[OF good_inv[OF g]]]
    by (simp add: daemonExit_def Let_def split: option.splits)
qed

lemma observe_runs: "observable r \<Longrightarrow> rt_monitoring r \<Longrightarrow> observeRelease cfg now io (r, rows) \<noteq> None"
  by (auto simp: observable_def observeRelease_def split: option.splits sum.splits bool.splits prod.splits)

lemma good_observe:
  assumes inv: "exInv todo ker e" and r: "getSession k e = Some r" "rt_monitoring r"
    and live: "honestLive ker r (ob_live io)" and eq: "observeSession io now k e = Some e'"
  shows "good todo ker e e'"
proof -
  obtain r' rows' fin where ob: "observeRelease (ex_cfg e) now io (r, ex_db e) = Some ((r', rows'), fin)" "e' = putBoth k (r', rows') e"
    using eq r(1) by (auto simp: observeSession_def)
  have o: "observable r" by (rule exInvD(5)[OF inv r(1)])
  have un: "\<not> sessionReleased (rt_session r)" using o r(2) by (simp add: observable_def)
  have "noLive ker (xs_Group (rt_session r))" if "ob_live io = Inr False"
    using live that by (auto simp: honestLive_def noLive_def split: option.splits)
  note s = observe_section[OF exInv_atWork[OF inv r(1) un] o this ob(1)]
  show ?thesis unfolding ob(2) by (rule good_section[OF inv r(1) un s])
qed

lemma good_fold:
  assumes inv: "exInv todo ker e" and step: "\<And>x e. exInv todo ker e \<Longrightarrow> good todo ker e (f x e)"
  shows "good todo ker e (fold f xs e)"
  using inv
proof (induction xs arbitrary: e)
  case Nil then show ?case by (simp add: good_refl)
next
  case (Cons x xs)
  note g = step[OF Cons.prems, of x]
  show ?case using good_trans[OF g Cons.IH[OF good_inv[OF g]]] by simp
qed

lemma good_stop_snd: "exInv todo ker e \<Longrightarrow> good todo ker e (snd (stopSession io now reason k e))"
  by (rule good_stop[where err = "fst (stopSession io now reason k e)"]) simp_all

lemma good_stopExpired: "exInv todo ker e \<Longrightarrow> good todo ker e (stopExpired io now e)"
  unfolding stopExpired_def by (rule good_fold) (auto simp: good_refl good_stop_snd split: option.splits)

lemma exInv_closing [simp]: "exInv todo ker (e\<lparr>ex_closing := b\<rparr>) = exInv todo ker e"
  by (simp add: exInv_def memInv_def getSession_def)

lemma good_shutdown:
  assumes "exInv todo ker e"
  shows "good todo ker e (shutdown io now e)"
proof -
  have "good todo ker (e\<lparr>ex_closing := True\<rparr>) (shutdown io now e)"
    unfolding shutdown_def by (rule good_fold) (use assms in \<open>simp_all add: good_stop_snd\<close>)
  then show ?thesis by (simp add: goodBut_def)
qed

section \<open>Retention\<close>

lemma dropFirst_set: "x \<in> set (dropFirst n P xs) \<Longrightarrow> x \<in> set xs"
  by (induction n P xs rule: dropFirst.induct) (auto split: if_splits)

lemma dropFirst_distinct: "distinct (map f xs) \<Longrightarrow> distinct (map f (dropFirst n P xs))"
  by (induction n P xs rule: dropFirst.induct) (auto dest: dropFirst_set)

lemma dropFirst_keeps: "x \<in> set xs \<Longrightarrow> \<not> P x \<Longrightarrow> x \<in> set (dropFirst n P xs)"
  by (induction n P xs rule: dropFirst.induct) auto

lemma dropReceipts_row: "s \<in> set (dropReceipts fmt err now rows) \<Longrightarrow> s \<in> set rows"
  by (auto simp: dropReceipts_def split: if_splits dest: dropFirst_set)

lemma dropReceipts_keeps: "s \<in> set rows \<Longrightarrow> \<not> sessionReleased s \<Longrightarrow> s \<in> set (dropReceipts fmt err now rows)"
  by (auto simp: dropReceipts_def released_states expiredReceipt_def intro: dropFirst_keeps)

lemma rowsInvD:
  assumes "rowsInv boot ker rows"
  shows "distinct (map xs_ID rows)" "s \<in> set rows \<Longrightarrow> placed s" "s \<in> set rows \<Longrightarrow> sane s"
    "s \<in> set rows \<Longrightarrow> t \<in> set rows \<Longrightarrow> \<not> sessionReleased s \<Longrightarrow> \<not> sessionReleased t \<Longrightarrow> xs_ID s = xs_ID t"
    "s \<in> set rows \<Longrightarrow> t \<in> set rows \<Longrightarrow> samePair s t \<Longrightarrow> xs_ID s = xs_ID t"
    "\<not> noLive ker p \<Longrightarrow> \<exists>s\<in>set rows. xs_Group s = p \<and> \<not> sessionReleased s \<and> xs_BootID s = boot"
  using assms unfolding rowsInv_def by blast+

lemma rowsInvI:
  assumes "distinct (map xs_ID rows)" "\<And>s. s \<in> set rows \<Longrightarrow> placed s" "\<And>s. s \<in> set rows \<Longrightarrow> sane s"
    "\<And>s t. s \<in> set rows \<Longrightarrow> t \<in> set rows \<Longrightarrow> \<not> sessionReleased s \<Longrightarrow> \<not> sessionReleased t \<Longrightarrow> xs_ID s = xs_ID t"
    "\<And>s t. s \<in> set rows \<Longrightarrow> t \<in> set rows \<Longrightarrow> samePair s t \<Longrightarrow> xs_ID s = xs_ID t"
    "\<And>p. \<not> noLive ker p \<Longrightarrow> \<exists>s\<in>set rows. xs_Group s = p \<and> \<not> sessionReleased s \<and> xs_BootID s = boot"
  shows "rowsInv boot ker rows"
  unfolding rowsInv_def by (intro conjI ballI allI impI; (rule assms; assumption))

lemma rowsInv_subset:
  assumes inv: "rowsInv boot ker rows" and d: "distinct (map xs_ID rows')" and sub: "\<And>s. s \<in> set rows' \<Longrightarrow> s \<in> set rows"
    and un: "\<And>s. s \<in> set rows \<Longrightarrow> \<not> sessionReleased s \<Longrightarrow> s \<in> set rows'"
  shows "rowsInv boot ker rows'"
proof (rule rowsInvI[OF d])
  note i = rowsInvD[OF inv]
  show "placed s" "sane s" if "s \<in> set rows'" for s using i(2,3)[OF sub[OF that]] .
  show "xs_ID s = xs_ID t" if "s \<in> set rows'" "t \<in> set rows'" "\<not> sessionReleased s" "\<not> sessionReleased t" for s t
    by (rule i(4)[OF sub[OF that(1)] sub[OF that(2)] that(3,4)])
  show "xs_ID s = xs_ID t" if "s \<in> set rows'" "t \<in> set rows'" "samePair s t" for s t
    by (rule i(5)[OF sub[OF that(1)] sub[OF that(2)] that(3)])
  show "\<exists>s\<in>set rows'. xs_Group s = p \<and> \<not> sessionReleased s \<and> xs_BootID s = boot" if "\<not> noLive ker p" for p
    using i(6)[OF that] un by auto
qed

lemma retention_inv:
  assumes inv: "exInv {} ker e"
  shows "exInv {} ker (retention fmt err now e)"
proof -
  have m: "rowsInv (ex_boot e) ker (ex_db e)" "memInv {} e" using inv by (simp_all add: exInv_def)
  let ?e = "retention fmt err now e"
  have d0: "distinct (map xs_ID (ex_db e))" "distinct (map fst (ex_sessions e))" using rowsInvD(1)[OF m(1)] m(2) unfolding memInv_def by auto
  have d: "distinct (map xs_ID (ex_db ?e))" "distinct (map fst (ex_sessions ?e))"
    using d0 by (simp_all add: retention_def distinct_map_filter dropReceipts_def dropFirst_distinct)
  have db: "ex_db ?e = dropReceipts fmt err now (ex_db e)" "ex_boot ?e = ex_boot e" by (simp_all add: retention_def)
  have mem: "getSession k ?e = Some r \<longleftrightarrow> getSession k e = Some r \<and> \<not> (sessionReleased (rt_session r) \<and> \<not> rt_monitoring r)" for k r
    unfolding getSession_Some[OF d(2)] getSession_Some[OF d0(2)] by (auto simp: retention_def)
  show ?thesis
  proof (rule exInvI, goal_cases)
    case 1
    show ?case unfolding db by (rule rowsInv_subset[OF m(1) d(1)[unfolded db] dropReceipts_row dropReceipts_keeps])
  next
    case 2 show ?case by (rule d(2))
  next
    case (3 k r)
    then have g: "getSession k e = Some r" using mem by blast
    show ?case
    proof (intro conjI entryInvI)
      show "\<exists>s\<in>set (ex_db ?e). fixed s (rt_session r)" if "sessionReleased (rt_session r)"
        using mem 3 that exInvD(5)[OF inv g] by (auto simp: observable_def)
      show "\<exists>s\<in>set (ex_db ?e). fixed s (rt_session r) \<and> \<not> sessionReleased s" if "\<not> sessionReleased (rt_session r)"
        using exInvD(2)[OF inv g] that dropReceipts_keeps unfolding entryInv_def db by auto
      show "\<forall>s\<in>set (ex_db ?e). xs_ID s = k \<longrightarrow> sessionReleased s" if "sessionReleased (rt_session r)"
        using exInvD(2)[OF inv g] that dropReceipts_row unfolding entryInv_def db by auto
    qed (use exInvD[OF inv g] in \<open>simp_all add: entryInv_def db\<close>)
  next
    case (4 s)
    then have s: "s \<in> set (ex_db e)" using dropReceipts_row by (simp add: db)
    then obtain r where r: "getSession (xs_ID s) e = Some r" using m(2) 4(2) unfolding memInv_def by auto
    have "\<not> sessionReleased (rt_session r)" using exInvD(2)[OF inv r] s 4(2) unfolding entryInv_def by auto
    then show ?case using mem r by auto
  qed
qed

end
