(* ===== verification/WorkerJobs.thy ===== *)
theory WorkerJobs
  imports WorkerMoves ExecOps
begin

text \<open>
  The invariant of the worker when clients end, sessions are released or created, clients start, jobs enter and leave the
  memory, and when the worker starts again.
\<close>

section \<open>Fewer clients and sessions\<close>

lemma jobOK_mono:
  assumes "jobOK boot live H j" "set live' \<subseteq> set live" "\<And>t. H' t \<Longrightarrow> H t"
  shows "jobOK boot live' H' j"
  using assms unfolding jobOK_def by blast

lemma rowsOK_mono:
  assumes ok: "rowsOK boot live H rows" and s: "set live' \<subseteq> set live" "\<And>t. H' t \<Longrightarrow> H t"
  shows "rowsOK boot live' H' rows"
proof (rule rowsOKI)
  note r = rowsOKD[OF ok]
  show "distinct (map jobID rows)" by (rule r(1))
  show "jobOK boot live' H' x" if "x \<in> set rows" for x by (rule jobOK_mono[OF r(2)[OF that] s])
  show "\<exists>r\<in>set rows. jobID r = u" if "(u, i) \<in> set live'" for u i by (rule r(3)[OF subsetD[OF s(1) that]])
  show "\<exists>r\<in>set rows. jobID r = u" if "H' u" for u by (rule r(4)[OF s(2)[OF that]])
qed

lemma threadOK_mono:
  assumes x: "threadOK boot live H w th" and s: "set live' \<subseteq> set live" "\<And>t. H' t \<Longrightarrow> H t"
  shows "threadOK boot live' H' w th"
proof -
  have l: "(u, i) \<in> set live' \<Longrightarrow> (u, i) \<in> set live" for u i using s(1) by blast
  show ?thesis
  proof (cases th)
    case (TRun t pc)
    then show ?thesis using x l[of t] by (simp) blast
  next
    case (TClient t q y b) then show ?thesis using x l[of t] s(2)[of t] by auto
  next
    case (TReport t q y b g) then show ?thesis using x l[of t] s(2)[of t] by auto
  next
    case (THandoff t obj) then show ?thesis using x jobOK_mono[OF _ s] by (cases obj) auto
  qed (use x in auto)
qed

lemma upOK_I:
  assumes "rowsOK boot live H (wk_rows w)" "memOK boot live H w" "\<And>th. th \<in> set ths \<Longrightarrow> threadOK boot live H w th" "threadsOK boot' live' H' w' ths"
  shows "upOK boot live H w ths"
  using assms by (simp add: upOK_def threadsOK_def)

lemma upOK_mono:
  assumes "upOK boot live H w ths" and s: "set live' \<subseteq> set live" "\<And>t. H' t \<Longrightarrow> H t"
  shows "upOK boot live' H' w ths"
proof -
  note o = upOKD[OF assms(1)]
  note m = memOKD[OF o(2)]
  have mem: "memOK boot live' H' w"
  proof (rule memOKI)
    show "jobOK boot live' H' k" if "getJob u w = Some k" for u k by (rule jobOK_mono[OF m(3)[OF that] s])
  qed (fact m)+
  show ?thesis
  proof (rule upOK_I[OF _ mem _ o(3)])
    show "rowsOK boot live' H' (wk_rows w)" by (rule rowsOK_mono[OF o(1) s])
    show "threadOK boot live' H' w th" if "th \<in> set ths" for th by (rule threadOK_mono[OF o(4)[OF that] s])
  qed
qed

section \<open>More clients and sessions\<close>

text \<open>A task gets a client or a session, and its job and row are ready for that.\<close>

lemma inv_more:
  assumes ok: "upOK boot live H w ths" and j: "getJob t w = Some j" "jobOK boot live' H' j"
    and rows: "\<And>r. r \<in> set (wk_rows w) \<Longrightarrow> jobID r = t \<Longrightarrow> jobOK boot live' H' r"
    and others: "\<And>u i. u \<noteq> t \<Longrightarrow> (u, i) \<in> set live' \<longleftrightarrow> (u, i) \<in> set live" "\<And>u. u \<noteq> t \<Longrightarrow> H' u = H u"
    and ths: "\<And>th. th \<in> set ths \<Longrightarrow> threadTask th = Some t \<Longrightarrow> threadOK boot live' H' w th"
  shows "upOK boot live' H' w ths"
proof -
  note o = upOKD[OF ok]
  note r = rowsOKD[OF o(1)] and m = memOKD[OF o(2)]
  have job: "jobOK boot live' H' k" if "jobOK boot live H k" "jobID k \<noteq> t" for k
    using that others unfolding jobOK_def by metis
  have row: "\<exists>r\<in>set (wk_rows w). jobID r = t" using m(4)[OF j(1)] m(2)[OF j(1)] by (auto simp: agrees_def)
  have a: "rowsOK boot live' H' (wk_rows w)"
  proof (rule rowsOKI)
    show "distinct (map jobID (wk_rows w))" by (rule r(1))
    show "jobOK boot live' H' x" if "x \<in> set (wk_rows w)" for x using rows[OF that] job[OF r(2)[OF that]] by blast
    show "\<exists>r\<in>set (wk_rows w). jobID r = u" if "(u, i) \<in> set live'" for u i using that row others(1)[of u i] r(3)[of u i] by (cases "u = t") auto
    show "\<exists>r\<in>set (wk_rows w). jobID r = u" if "H' u" for u using that row others(2)[of u] r(4)[of u] by (cases "u = t") auto
  qed
  have b: "memOK boot live' H' w"
  proof (rule memOKI)
    show "jobOK boot live' H' k" if "getJob u w = Some k" for u k using that j m(2)[OF that] job[OF m(3)[OF that]] by (cases "u = t") auto
  qed (use m in blast)+
  have "threadOK boot live' H' w th" if "th \<in> set ths" for th
  proof (cases "threadTask th = Some t")
    case True then show ?thesis by (rule ths[OF that])
  next
    case False
    note x = o(4)[OF that]
    show ?thesis
    proof (cases th)
      case (TRun u pc) then show ?thesis using x False others by auto
    next
      case (TClient u q s l) then show ?thesis using x False others by auto
    next
      case (TReport u q s l g) then show ?thesis using x False others by auto
    next
      case (THandoff u obj) then show ?thesis using x False job by (cases obj) auto
    qed (use x in auto)
  qed
  then show ?thesis by (rule upOK_I[OF a b _ o(3)])
qed

lemma no_run_left:
  assumes ok: "upOK boot live H w ths" and th: "TRun t pc \<in> set ths" and o: "o' \<in> set (remove1 (TRun t pc) ths)"
  shows "runs o' = []"
proof (rule ccontr)
  assume "runs o' \<noteq> []"
  then have "concat (map runs (remove1 (TRun t pc) ths)) \<noteq> []" using o by auto
  moreover have "length (concat (map runs ths)) = length (runs (TRun t pc)) + length (concat (map runs (remove1 (TRun t pc) ths)))"
    using arg_cong[OF concat_remove1[OF th, of runs], of size] by simp
  ultimately show False using upOKD(3)[OF ok] by (cases "concat (map runs (remove1 (TRun t pc) ths))") (auto simp: threadsOK_def)
qed

text \<open>Threads of an unfinished job do not claim that its clients or sessions are gone.\<close>

lemma unfinished_thread:
  assumes x: "threadOK boot live H w th" and t: "threadTask th = Some t" "runs th = []" and j: "getJob t w = Some j" "\<not> finishedJ j" "jobOK boot live H j"
  shows "threadOK boot live' H' w th"
proof -
  have nh: "\<not> wj_HandoffComplete j" "\<not> wj_CopiesReleased j" using jobOK_D(3,4,5)[OF j(3)] j(2) by blast+
  show ?thesis
  proof (cases th)
    case (THandoff u obj) then show ?thesis using x t j nh by (cases obj) auto
  qed (use x t j nh in auto)
qed

text \<open>The executor creates the session of a run.\<close>

lemma inv_created:
  assumes ok: "upOK boot live H w ths" and th: "TRun t (PCreate a) \<in> set ths" and H': "\<And>u. H' u \<Longrightarrow> H u \<or> u = t"
  shows "upOK boot live H' w (remove1 (TRun t (PCreate a)) ths @ [TRun t (afterCreate reply)])"
proof -
  let ?G = "\<lambda>u. H u \<or> u = t" and ?ths = "remove1 (TRun t (PCreate a)) ths @ [TRun t (afterCreate reply)]"
  obtain j where j: "getJob t w = Some j" "\<not> finishedJ j" "intentJ j" "\<And>r. r \<in> set (wk_rows w) \<Longrightarrow> jobID r = t \<Longrightarrow> intentJ r"
    "t \<noteq> []" "wk_active w = t" "\<And>i. (t, i) \<notin> set live"
    using upOKD(4)[OF ok th] by auto
  note o = upOKD[OF ok]
  note m = memOKD[OF o(2)]
  have jo: "jobOK boot live H j" and id: "jobID j = t" using m(2,3) j(1) by blast+
  have nc: "\<not> completeJ j" using jobOK_D(3)[OF jo] j(2) by blast
  have up: "upOK boot live H w ?ths" by (intro inv_replace[OF ok th]) (use j in \<open>auto simp: afterCreate_def split: sum.splits\<close>)
  have "upOK boot live ?G w ?ths"
  proof (rule inv_more[OF up j(1)])
    show "jobOK boot live ?G j" using jo j(3) nc unfolding jobOK_def by blast
    show "jobOK boot live ?G r" if r: "r \<in> set (wk_rows w)" "jobID r = t" for r
    proof -
      obtain r0 where r0: "r0 \<in> set (wk_rows w)" "agrees r0 j" using m(4)[OF j(1)] by blast
      then have "r = r0" using job_unique[OF rowsOKD(1)[OF o(1)] r(1) r0(1)] r(2) id by (simp add: agrees_def)
      then have "\<not> completeJ r" using r0(2) nc by (simp add: agrees_def)
      then show ?thesis using rowsOKD(2)[OF o(1) r(1)] j(4)[OF r] unfolding jobOK_def by blast
    qed
    show "threadOK boot live ?G w n" if n: "n \<in> set ?ths" "threadTask n = Some t" for n
    proof (cases "runs n = []")
      case True then show ?thesis by (rule unfinished_thread[OF upOKD(4)[OF up n(1)] n(2) _ j(1,2) jo])
    next
      case False
      then have "n = TRun t (afterCreate reply)" using n(1) no_run_left[OF ok th] by auto
      then show ?thesis using upOKD(4)[OF up n(1)] by auto
    qed
  qed simp_all
  then show ?thesis by (rule upOK_mono) (use H' in auto)
qed

text \<open>A client starts.\<close>

lemma inv_launched:
  assumes ok: "upOK boot live H w ths" and th: "TRun t (PClient stage) \<in> set ths" and j: "getJob t w = Some j" and eq: "launchClient io (j, w) = (r, j', w')"
    and b: "\<And>b. la_boot io = Inr b \<Longrightarrow> b = boot" and k: "\<And>i k. la_start io = Inr i \<Longrightarrow> la_inspect io = Inr k \<Longrightarrow> k = i"
  shows "upOK boot (launched t r live) H (putJob (j', w')) (remove1 (TRun t (PClient stage)) ths @ [TRun t (afterLaunch stage r)])"
proof -
  let ?w = "putJob (j', w')" and ?th = "TRun t (PClient stage)" and ?n = "TRun t (afterLaunch stage r)"
  note o = upOKD[OF ok]
  have jo: "jobOK boot live H j" and id: "jobID j = t" using memOKD(2,3)[OF o(2)] j by blast+
  have x: "\<not> finishedJ j" "t \<noteq> []" "wk_active w = t" "\<And>i. (t, i) \<notin> set live" using o(4)[OF th] j by auto
  have q: "quiet boot live H (j, w) (j', w')" by (rule launchClient_quiet[OF jo x(1) _ eq]) (use x(4) id in simp)
  have sec: "secOK boot live H (j, w) (j', w')" "finishedJ j' = finishedJ j" "wk_active w' = wk_active w" using q by (auto simp: quiet_def calm_def)
  have up: "upOK boot live H ?w ths" by (rule inv_quiet[OF ok j q])
  have get: "getJob t ?w = Some j'" using section_memory(3)[OF o(1,2) j sec(1)] by simp
  have jo': "jobOK boot live H j'" and id': "jobID j' = t" using quiet_ok[OF q] secOK_D(1)[OF sec(1)] id by simp_all
  have anew: "\<And>a. afterLaunch stage r \<noteq> PCreate a" by (auto simp: afterLaunch_def split: sum.splits prod.splits)
  have new: "threadOK boot live H ?w ?n"
    using get x sec(2,3) anew by auto
  have up2: "upOK boot live H ?w (remove1 ?th ths @ [?n])" by (intro inv_replace[OF up th]) (use new in auto)
  show ?thesis
  proof (cases "\<exists>err p. r = Inr (err, Some p)")
    case False
    then have "launched t r live = live" by (auto simp: launched_def split: sum.splits prod.splits option.splits)
    then show ?thesis using up2 by simp
  next
    case True
    then obtain err p where r: "r = Inr (err, Some p)" by blast
    note kn = launchClient_knows[OF eq[unfolded r] b k]
    have l: "launched t r live = (t, p) # live" by (simp add: r launched_def)
    have ok1: "jobOK boot ((t, p) # live) H y" if "jobOK boot live H y" "jobID y = t \<Longrightarrow> knows boot (clientJ y) p" for y
      using that unfolding jobOK_def by auto
    show ?thesis unfolding l
    proof (rule inv_more[OF up2 get])
      show "jobOK boot ((t, p) # live) H j'" using kn(1) by (intro ok1[OF jo'])
      show "jobOK boot ((t, p) # live) H y" if y: "y \<in> set (wk_rows ?w)" "jobID y = t" for y
      proof (rule ok1[OF rowsOKD(2)[OF upOKD(1)[OF up2] y(1)]])
        show "knows boot (clientJ y) p" by (rule kn(2)) (use y id in simp_all)
      qed
      show "threadOK boot ((t, p) # live) H ?w n" if n: "n \<in> set (remove1 ?th ths @ [?n])" "threadTask n = Some t" for n
      proof (cases "runs n = []")
        case True then show ?thesis using unfinished_thread[OF upOKD(4)[OF up2 n(1)] n(2) _ get _ jo'] x(1) sec(2) by simp
      next
        case False
        then have "n = ?n" using n(1) no_run_left[OF ok th] by auto
        moreover have "afterLaunch stage r = PWait stage err (Some p)" by (simp add: r afterLaunch_def)
        ultimately show ?thesis using new x(4) by auto
      qed
    qed auto
  qed
qed

section \<open>Jobs that enter the memory\<close>

text \<open>The worker changes what it has of one task.\<close>

lemma inv_world:
  assumes ok: "upOK boot live H w ths" and rows': "rowsOK boot live H (wk_rows w')"
    and others: "\<And>u. u \<noteq> t \<Longrightarrow> getJob u w' = getJob u w" "\<And>r. jobID r \<noteq> t \<Longrightarrow> r \<in> set (wk_rows w') \<longleftrightarrow> r \<in> set (wk_rows w)"
    and w': "wk_instance w' = wk_instance w" "wk_active w' = wk_active w \<or> (\<forall>th\<in>set ths. runs th = [])" "distinct (map fst (wk_jobs w'))"
    and mem: "\<And>k. getJob t w' = Some k \<Longrightarrow> jobID k = t \<and> jobOK boot live H k \<and> (\<exists>r\<in>set (wk_rows w'). agrees r k)"
    and row: "\<And>r. r \<in> set (wk_rows w') \<Longrightarrow> jobID r = t \<Longrightarrow> \<not> completeJ r \<Longrightarrow> getJob t w' \<noteq> None"
    and ths: "\<And>th. th \<in> set ths \<Longrightarrow> threadTask th = Some t \<Longrightarrow> threadOK boot live H w' th"
  shows "upOK boot live H w' ths"
proof -
  note o = upOKD[OF ok]
  note m = memOKD[OF o(2)]
  have a: "memOK boot live H w'"
  proof (rule memOKI)
    show "distinct (map fst (wk_jobs w'))" by (rule w'(3))
    show "jobID k = u" if "getJob u w' = Some k" for u k using that others(1)[of u] m(2)[of u k] mem[of k] by (cases "u = t") auto
    show "jobOK boot live H k" if "getJob u w' = Some k" for u k using that others(1)[of u] m(3)[of u k] mem[of k] by (cases "u = t") auto
    show "\<exists>r\<in>set (wk_rows w'). agrees r k" if k: "getJob u w' = Some k" for u k
    proof (cases "u = t")
      case True then show ?thesis using k mem[of k] by simp
    next
      case False
      then have k': "getJob u w = Some k" using k others(1) by simp
      obtain r where r: "r \<in> set (wk_rows w)" "agrees r k" using m(4)[OF k'] by blast
      have "jobID r \<noteq> t" using r(2) m(2)[OF k'] False by (simp add: agrees_def)
      then show ?thesis using r others(2)[of r] by auto
    qed
    show "getJob (jobID r) w' \<noteq> None" if r: "r \<in> set (wk_rows w')" "\<not> completeJ r" for r
      using row[OF r(1) _ r(2)] others(1)[of "jobID r"] others(2)[of r] m(5)[of r] r by (cases "jobID r = t") auto
  qed
  have "threadOK boot live H w' th" if th: "th \<in> set ths" for th
  proof (cases "threadTask th = Some t")
    case True then show ?thesis by (rule ths[OF th])
  next
    case False
    note x = o(4)[OF th]
    show ?thesis
    proof (cases th)
      case (TRun u pc)
      have r: "wk_active w' = wk_active w" using w'(2) th TRun by auto
      have "u \<noteq> t" using False TRun by simp
      then show ?thesis using x others w'(1) r unfolding TRun by auto
    next
      case (THandoff u obj) then show ?thesis using x False others by (cases obj) auto
    qed (use x False others w'(1) in auto)
  qed
  then show ?thesis by (rule upOK_I[OF rows' a _ o(3)])
qed

text \<open>Without a job in memory, a task has at most a completed row and no goroutine but a handoff.\<close>

lemma absent_task:
  assumes ok: "upOK boot live H w ths" and none: "getJob t w = None"
  shows "r \<in> set (wk_rows w) \<Longrightarrow> jobID r = t \<Longrightarrow> completeJ r" "(t, i) \<notin> set live" "\<not> H t"
    "th \<in> set ths \<Longrightarrow> threadTask th = Some t \<Longrightarrow> runs th = [] \<and> observer th = None"
proof -
  note o = upOKD[OF ok]
  note rr = rowsOKD[OF o(1)]
  show c: "r \<in> set (wk_rows w) \<Longrightarrow> jobID r = t \<Longrightarrow> completeJ r" for r using memOKD(5)[OF o(2), of r] none by auto
  show "(t, i) \<notin> set live"
  proof
    assume i: "(t, i) \<in> set live"
    then obtain r where r: "r \<in> set (wk_rows w)" "jobID r = t" using rr(3) by blast
    then show False using jobOK_D(6,8)[OF rr(2)[OF r(1)]] c[OF r] i by (auto simp: knows_def)
  qed
  show "\<not> H t"
  proof
    assume i: "H t"
    then obtain r where r: "r \<in> set (wk_rows w)" "jobID r = t" using rr(4) by blast
    then show False using jobOK_D(10)[OF rr(2)[OF r(1)]] c[OF r] i by auto
  qed
  show "th \<in> set ths \<Longrightarrow> threadTask th = Some t \<Longrightarrow> runs th = [] \<and> observer th = None"
    using o(4)[of th] none by (cases th) auto
qed

lemma absent_thread:
  assumes ok: "upOK boot live H w ths" and none: "getJob t w = None" and th: "th \<in> set ths" "threadTask th = Some t"
    and k: "getJob t w' = Some k" "completeJ k"
    and handoff: "(\<And>r. r \<in> set (wk_rows w) \<Longrightarrow> jobID r = t \<Longrightarrow> wj_HandoffComplete r) \<Longrightarrow> wj_HandoffComplete k \<and> (\<forall>r\<in>set (wk_rows w'). jobID r = t \<longrightarrow> wj_HandoffComplete r)"
    and copies: "(\<And>r. r \<in> set (wk_rows w) \<Longrightarrow> jobID r = t \<Longrightarrow> wj_CopiesReleased r) \<Longrightarrow> wj_CopiesReleased k \<and> (\<forall>r\<in>set (wk_rows w'). jobID r = t \<longrightarrow> wj_CopiesReleased r)"
  shows "threadOK boot live H w' th"
proof -
  note x = upOKD(4)[OF ok th(1)] and a = absent_task(4)[OF ok none th]
  show ?thesis
  proof (cases th)
    case (THandoff u obj)
    then have u: "u = t" using th(2) by simp
    show ?thesis
    proof (cases obj)
      case None then show ?thesis using x handoff k(1) unfolding THandoff u by auto
    next
      case (Some y) then show ?thesis using x copies k(1) unfolding THandoff u by auto
    qed
  qed (use x a th(2) k in auto)
qed

lemma find_row: "findRow t w = Some r \<Longrightarrow> r \<in> set (wk_rows w) \<and> jobID r = t"
  by (auto simp: findRow_def find_Some_iff)

text \<open>A stored job is loaded.\<close>

lemma inv_loaded:
  assumes ok: "upOK boot live H w ths" and none: "getJob t w = None" and load: "loadJob err t w = Inr k"
  shows "upOK boot live H (enterJob t k w) ths"
proof -
  obtain r where r: "r \<in> set (wk_rows w)" "jobID r = t" "k = loadedJob w r"
    using load by (auto simp: loadJob_def split: option.splits dest: find_row)
  note o = upOKD[OF ok]
  have core: "coreJ k = coreJ r" by (simp add: r(3))
  note c = core_eqD[OF core]
  have a: "agrees r k" using c by (simp add: agrees_def)
  show ?thesis
  proof (rule inv_world[OF ok, where t = t])
    show "jobID l = t \<and> jobOK boot live H l \<and> (\<exists>s\<in>set (wk_rows (enterJob t k w)). agrees s l)" if "getJob t (enterJob t k w) = Some l" for l
    proof -
      have "l = k" using that by simp
      then show ?thesis using a r(1,2) c(1) c(9) rowsOKD(2)[OF o(1) r(1)] by auto
    qed
    show "threadOK boot live H (enterJob t k w) th" if th: "th \<in> set ths" "threadTask th = Some t" for th
    proof (rule absent_thread[OF ok none th, of _ k])
      show "completeJ k" using c(2) absent_task(1)[OF ok none r(1,2)] by simp
      show "wj_HandoffComplete k \<and> (\<forall>s\<in>set (wk_rows (enterJob t k w)). jobID s = t \<longrightarrow> wj_HandoffComplete s)"
        if "\<And>s. s \<in> set (wk_rows w) \<Longrightarrow> jobID s = t \<Longrightarrow> wj_HandoffComplete s" using that that[OF r(1,2)] c(6) by simp
      show "wj_CopiesReleased k \<and> (\<forall>s\<in>set (wk_rows (enterJob t k w)). jobID s = t \<longrightarrow> wj_CopiesReleased s)"
        if "\<And>s. s \<in> set (wk_rows w) \<Longrightarrow> jobID s = t \<Longrightarrow> wj_CopiesReleased s" using that that[OF r(1,2)] c(7) by simp
    qed simp
    show "distinct (map fst (wk_jobs (enterJob t k w)))" by (rule enter_distinct[OF memOKD(1)[OF o(2)]])
  qed (use o in simp_all)
qed

lemma inv_lookup:
  assumes ok: "upOK boot live H w ths" and eq: "lookupJob err t w = (found, w')"
  shows "upOK boot live H w' ths" "found = Some j \<Longrightarrow> getJob t w' = Some j \<or> getJob t w' = None \<and> w' = w \<and> loadJob err t w = Inr j \<and> wj_CopiesReleased j"
  using eq inv_loaded[OF ok] ok by (auto simp: lookupJob_def split: option.splits sum.splits if_splits)

text \<open>A task without a job in memory gets a new row and a job.\<close>

lemma inv_new:
  assumes ok: "upOK boot live H w ths" and none: "getJob t w = None" and j: "jobID j = t" "jobSane j"
    and sv: "saveJob err (j, w) = (None, k, w1)" and w': "wk_jobs w' = wk_jobs (enterJob t k w1)" "wk_rows w' = wk_rows w1" "wk_instance w' = wk_instance w1"
    and act: "wk_active w' = wk_active w \<or> (\<forall>th\<in>set ths. runs th = [])"
    and ths: "wj_CopiesReleased j \<or> (\<forall>th\<in>set ths. threadTask th \<noteq> Some t)"
  shows "upOK boot live H w' ths" "getJob t w' = Some k" "coreJ k = coreJ j"
proof -
  note o = upOKD[OF ok] and ab = absent_task[OF ok none]
  from sv have p: "k = j\<lparr>wj_indexedFiles := length (wj_Files j)\<rparr>" "putRow t j (wk_rows w) (wk_rows w1)" "wk_jobs w1 = wk_jobs w" "wk_instance w1 = wk_instance w"
    using j(1) by (auto elim: saveJob_cases)
  show core: "coreJ k = coreJ j" using p(1) by simp
  note c = core_eqD[OF core]
  have jo: "jobOK boot live H j" using j(2) ab(2,3) j(1) unfolding jobOK_def by simp
  have get: "getJob u w' = (if u = t then Some k else getJob u w)" for u
  proof -
    have "getJob u w' = getJob u (enterJob t k w1)" by (rule getJob_jobs[OF w'(1)])
    then show ?thesis using getJob_jobs[OF p(3), of u] by simp
  qed
  then show "getJob t w' = Some k" by simp
  note pr = putRowD[OF p(2)]
  obtain r where r: "r \<in> set (wk_rows w1)" "jobID r = t" using pr(3) by blast
  have rowc: "coreJ s = coreJ j" if "s \<in> set (wk_rows w1)" "jobID s = t" for s by (rule pr(2)[OF that])
  have ag: "agrees r k" using core_eqD[OF rowc[OF r]] c by (simp add: agrees_def)
  show "upOK boot live H w' ths"
  proof (rule inv_world[OF ok, where t = t])
    show "rowsOK boot live H (wk_rows w')" unfolding w'(2) by (rule putRow_rowsOK[OF o(1) p(2) jo])
    show "jobID l = t \<and> jobOK boot live H l \<and> (\<exists>s\<in>set (wk_rows w'). agrees s l)" if "getJob t w' = Some l" for l
    proof -
      have "l = k" using that get by simp
      then show ?thesis using ag r(1) c(1) c(9) j(1) jo w'(2) by auto
    qed
    show "distinct (map fst (wk_jobs w'))" unfolding w'(1) by (rule enter_distinct) (use memOKD(1)[OF o(2)] p(3) in simp)
    show "threadOK boot live H w' th" if th: "th \<in> set ths" "threadTask th = Some t" for th
    proof -
      have cp: "wj_CopiesReleased j" using ths th by blast
      have h: "wj_HandoffComplete j" "completeJ j" using jobOK_D(4,5)[OF jo] cp by blast+
      show ?thesis
      proof (rule absent_thread[OF ok none th, of _ k])
        show "getJob t w' = Some k" using get by simp
        show "completeJ k" using c(2) h(2) by simp
        show "wj_HandoffComplete k \<and> (\<forall>s\<in>set (wk_rows w'). jobID s = t \<longrightarrow> wj_HandoffComplete s)"
          using c(6) h(1) core_eqD(6)[OF rowc] w'(2) by simp
        show "wj_CopiesReleased k \<and> (\<forall>s\<in>set (wk_rows w'). jobID s = t \<longrightarrow> wj_CopiesReleased s)"
          using c(7) cp core_eqD(7)[OF rowc] w'(2) by simp
      qed
    qed
    show "getJob t w' \<noteq> None" using get by simp
    show "r \<in> set (wk_rows w') \<longleftrightarrow> r \<in> set (wk_rows w)" if "jobID r \<noteq> t" for r using pr(1)[OF that] w'(2) by simp
  qed (use get w'(3) p(4) act in auto)
qed

lemma zero_parts [simp]:
  "nx_Finished zeroNixExecution = None" "nr_State (nixResourcesIn s) = s" "ne_State (nixEvidenceIn s) = s" "ne_Attempts (nixEvidenceIn s) = 0"
  by (simp_all add: zeroNixExecution_def nixResourcesIn_def nixEvidenceIn_def)

lemma newJob_sane: "jobSane (newJob now a)" "jobID (newJob now a) = wr_TaskID a" "\<not> finishedJ (newJob now a)"
  by (simp_all add: jobSane_def newJob_def observe_defs zeroSession_def evidenceOK_def)

lemma tombstone_sane: "jobSane (tombstone now a)" "jobID (tombstone now a) = wr_TaskID a" "wj_CopiesReleased (tombstone now a)"
  by (simp_all add: jobSane_def tombstone_def newJob_def observe_defs zeroSession_def evidenceOK_def NixResources_Released_def)

lemma inv_sealed:
  assumes ok: "upOK boot live H w ths" and none: "getJob (wr_TaskID a) w = None" and eq: "sealTask err now a w = (reply, w')"
  shows "upOK boot live H w' ths"
proof (cases "saveJob err (tombstone now a, w)")
  case (fields sv k w1)
  show ?thesis
  proof (cases sv)
    case (Some e) then show ?thesis using eq fields ok by (simp add: sealTask_def)
  next
    case None
    then have "w' = enterJob (wr_TaskID a) k w1" "wk_active w1 = wk_active w" using eq fields by (auto simp: sealTask_def elim: saveJob_cases)
    then show ?thesis
      using inv_new(1)[OF ok none tombstone_sane(2,1) fields[unfolded None], of w'] tombstone_sane(3) by simp
  qed
qed

lemma wk_start:
  assumes ok: "upOK boot live H w ths" and eq: "callStart arch io now a w = (reply, w', started)" and id: "wr_TaskID a \<noteq> []"
    and alone: "started \<Longrightarrow> \<forall>th\<in>set ths. threadTask th \<noteq> Some (wr_TaskID a)"
  shows "upOK boot live H w' (ths @ (if started then [TRun (wr_TaskID a) PLog] else []))"
proof -
  let ?t = "wr_TaskID a"
  define v where "v = (if getJob ?t w \<noteq> None then w else (case loadJob (si_load io) ?t w of Inr old \<Rightarrow> enterJob ?t old w | Inl _ \<Rightarrow> w))"
  have v: "upOK boot live H v ths" unfolding v_def using ok inv_loaded[OF ok] by (auto split: sum.splits)
  show ?thesis
  proof (cases started)
    case False
    have "w' = v"
      using eq False unfolding callStart_def Let_def v_def[symmetric] by (auto split: option.splits if_splits prod.splits)
    then show ?thesis using v False by simp
  next
    case True
    obtain k w1 where s: "saveJob (si_save io) (newJob now a, v) = (None, k, w1)" "getJob ?t v = None" "wk_active v = []"
      "w' = (enterJob ?t k w1)\<lparr>wk_active := ?t, wk_cancel := ?t # removeAll ?t (wk_cancel w1), wk_cancelled := removeAll ?t (wk_cancelled w1)\<rparr>"
      using eq True unfolding callStart_def Let_def v_def[symmetric] by (auto split: option.splits if_splits prod.splits)
    have idle: "runs th = []" if "th \<in> set ths" for th using upOKD(4)[OF v that] s(3) by (cases th) auto
    have new: "upOK boot live H w' ths" "getJob ?t w' = Some k" "coreJ k = coreJ (newJob now a)"
      using inv_new[OF v s(2) newJob_sane(2,1) s(1), of w'] idle alone[OF True] s(4) by auto
    have th: "threadOK boot live H w' (TRun ?t PLog)"
      using new(2) core_eqD(3)[OF new(3)] newJob_sane(3) absent_task(2)[OF v s(2)] id s(4) by simp
    have "upOK boot live H w' (ths @ [TRun ?t PLog])" by (rule inv_add[OF new(1) th]) (use idle in auto)
    then show ?thesis using True by simp
  qed
qed

text \<open>Fields of the worker the invariant does not speak of.\<close>

lemma inv_fields:
  assumes ok: "upOK boot live H w ths" and w: "wk_jobs w' = wk_jobs w" "wk_rows w' = wk_rows w" "wk_instance w' = wk_instance w" "wk_active w' = wk_active w"
  shows "upOK boot live H w' ths"
proof -
  note o = upOKD[OF ok] and get = getJob_jobs[OF w(1)]
  have th: "threadOK boot live H w' th" if "th \<in> set ths" for th
  proof (cases th)
    case (THandoff t obj) then show ?thesis using o(4)[OF that] get w by (cases obj) simp_all
  qed (use o(4)[OF that] get w in simp_all)
  have mem: "memOK boot live H w'" using o(2) unfolding memOK_def get w .
  show ?thesis by (rule upOK_I[OF _ mem th o(3)]) (use o(1) w in simp_all)
qed

section \<open>Handoff of a job outside the memory\<close>

lemma inv_detached:
  assumes ok: "upOK boot live H w ths" and th: "THandoff t (Some j) \<in> set ths" and eq: "handoffEnd io now (j, w) = (failed, j', w')"
  shows "upOK boot live H w' (remove1 (THandoff t (Some j)) ths)"
proof -
  have up: "upOK boot live H w (remove1 (THandoff t (Some j)) ths)" using inv_replace[OF ok th, of "[]"] by simp
  have x: "jobID j = t" "jobOK boot live H j" "wj_CopiesReleased j" "\<And>k. getJob t w = Some k \<Longrightarrow> wj_CopiesReleased k" using upOKD(4)[OF ok th] by auto
  have h: "wj_HandoffComplete j" "completeJ j" using jobOK_D(4,5)[OF x(2)] x(3) by blast+
  note o = upOKD[OF up]
  note m = memOKD[OF o(2)]
  from eq show ?thesis
  proof (cases rule: handoffEnd_cases)
    case refused then show ?thesis using up by simp
  next
    case (removed j1 w1)
    note f = released_fields[OF removed(3) x(2) h(1)]
    from removed(1) show ?thesis
    proof (cases rule: saveJob_cases)
      case (failed e)
      then have "wk_jobs w' = wk_jobs w" "wk_rows w' = wk_rows w" "wk_instance w' = wk_instance w" "wk_active w' = wk_active w" using removed(2) by simp_all
      then show ?thesis by (rule inv_fields[OF up])
    next
      case saved
      then have p: "putRow t j1 (wk_rows w) (wk_rows w')" "wk_jobs w' = wk_jobs w" "wk_instance w' = wk_instance w" "wk_active w' = wk_active w"
        using removed(2) f(1) x(1) by simp_all
      note pr = putRowD[OF p(1)]
      have get: "getJob u w' = getJob u w" for u by (rule getJob_jobs[OF p(2)])
      have rowc: "coreJ s = coreJ j1" if "s \<in> set (wk_rows w')" "jobID s = t" for s by (rule pr(2)[OF that])
      obtain r where r: "r \<in> set (wk_rows w')" "jobID r = t" using pr(3) by blast
      note rc = core_eqD[OF rowc[OF r]]
      have copies: "wj_CopiesReleased k \<and> wj_HandoffComplete k \<and> completeJ k" if "getJob t w = Some k" for k
        using x(4)[OF that] jobOK_D(4,5)[OF m(3)[OF that]] by blast
      show ?thesis
      proof (rule inv_world[OF up, where t = t])
        show "rowsOK boot live H (wk_rows w')" by (rule putRow_rowsOK[OF o(1) p(1) f(9)])
        show "jobID k = t \<and> jobOK boot live H k \<and> (\<exists>s\<in>set (wk_rows w'). agrees s k)" if "getJob t w' = Some k" for k
        proof -
          have k: "getJob t w = Some k" using that get by simp
          have "agrees r k" using copies[OF k] rc f h(2) r(2) m(2)[OF k] by (simp add: agrees_def)
          then show ?thesis using m(2,3)[OF k] r(1) by blast
        qed
        show "getJob t w' \<noteq> None" if "s \<in> set (wk_rows w')" "jobID s = t" "\<not> completeJ s" for s
          using core_eqD(2)[OF rowc[OF that(1,2)]] that(3) f(2) h(2) by simp
        show "threadOK boot live H w' n" if n: "n \<in> set (remove1 (THandoff t (Some j)) ths)" "threadTask n = Some t" for n
        proof -
          note y = o(4)[OF n(1)]
          have rows: "wj_HandoffComplete s" "wj_CopiesReleased s" if "s \<in> set (wk_rows w')" "jobID s = t" for s
            using core_eqD(6,7)[OF rowc[OF that]] f(7,8) by simp_all
          show ?thesis
          proof (cases n)
            case (TRun u pc)
            then have "False" using y n(2) copies jobOK_D(3)[OF m(3)] by auto
            then show ?thesis ..
          next
            case (THandoff u obj) then show ?thesis using y n(2) rows get by (cases obj) auto
          qed (use y n(2) get p(3) in auto)
        qed
      qed (use pr(1) get p m(1) in auto)
    qed
  qed
qed

section \<open>Retention\<close>

lemma getJob_filter:
  "distinct (map fst (wk_jobs w)) \<Longrightarrow> wk_jobs w' = filter (\<lambda>(k, j). P j) (wk_jobs w) \<Longrightarrow>
     getJob t w' = (case getJob t w of Some j \<Rightarrow> if P j then Some j else None | None \<Rightarrow> None)"
proof -
  have "distinct (map fst xs) \<Longrightarrow> map_of (filter (\<lambda>(k, j). P j) xs) t = (case map_of xs t of Some j \<Rightarrow> if P j then Some j else None | None \<Rightarrow> None)" for xs :: "(string \<times> WJob) list"
    by (induction xs) (auto split: option.splits simp: map_of_eq_None_iff)
  then show "distinct (map fst (wk_jobs w)) \<Longrightarrow> wk_jobs w' = filter (\<lambda>(k, j). P j) (wk_jobs w) \<Longrightarrow>
     getJob t w' = (case getJob t w of Some j \<Rightarrow> if P j then Some j else None | None \<Rightarrow> None)" by (simp add: getJob_def)
qed

lemma wk_expire:
  assumes ok: "upOK boot live H w ths"
  shows "upOK boot live H (expireCompleted fmt deleteErr sweepErr now w) ths"
proof (cases "now - wk_lastRetention w < minute \<or> deleteErr \<noteq> None")
  case True then show ?thesis using ok by (simp add: expireCompleted_def)
next
  case False
  define v where "v = w\<lparr>wk_rows := dropFirst 128 (expiredRow fmt now) (wk_rows w), wk_jobs := filter (\<lambda>(k, j). \<not> wj_CopiesReleased j) (wk_jobs w)\<rparr>"
  note o = upOKD[OF ok]
  note m = memOKD[OF o(2)] and r = rowsOKD[OF o(1)]
  have get: "getJob t v = (case getJob t w of Some j \<Rightarrow> if \<not> wj_CopiesReleased j then Some j else None | None \<Rightarrow> None)" for t
    by (rule getJob_filter[OF m(1)]) (simp add: v_def)
  have sub: "x \<in> set (wk_rows v) \<Longrightarrow> x \<in> set (wk_rows w)" for x by (auto simp: v_def dest: dropFirst_set)
  have kept: "x \<in> set (wk_rows v)" if "x \<in> set (wk_rows w)" "\<not> completeJ x \<or> \<not> wj_CopiesReleased x" for x
    using dropFirst_keeps[OF that(1), of "expiredRow fmt now"] that(2) by (auto simp: v_def expiredRow_def completeJ_def)
  have found: "getJob t v = Some j" if "getJob t w = Some j" "\<not> completeJ j" for t j
    using get[of t] that jobOK_D(4,5)[OF m(3)[OF that(1)]] by auto
  have was: "getJob t w = Some j \<and> \<not> wj_CopiesReleased j" if "getJob t v = Some j" for t j
    using that get[of t] by (auto split: option.splits if_splits)
  have a: "rowsOK boot live H (wk_rows v)"
  proof (rule rowsOKI)
    show "distinct (map jobID (wk_rows v))" using dropFirst_distinct[OF r(1)] by (simp add: v_def)
    show "jobOK boot live H x" if "x \<in> set (wk_rows v)" for x by (rule r(2)[OF sub[OF that]])
    show "\<exists>x\<in>set (wk_rows v). jobID x = t" if i: "(t, i) \<in> set live" for t i
    proof -
      obtain x where x: "x \<in> set (wk_rows w)" "jobID x = t" using r(3)[OF i] by blast
      have "\<not> completeJ x" using jobOK_D(6,8)[OF r(2)[OF x(1)]] i x(2) by (auto simp: knows_def)
      then show ?thesis using kept[OF x(1)] x(2) by blast
    qed
    show "\<exists>x\<in>set (wk_rows v). jobID x = t" if i: "H t" for t
    proof -
      obtain x where x: "x \<in> set (wk_rows w)" "jobID x = t" using r(4)[OF i] by blast
      have "\<not> completeJ x" using jobOK_D(10)[OF r(2)[OF x(1)]] i x(2) by auto
      then show ?thesis using kept[OF x(1)] x(2) by blast
    qed
  qed
  have b: "memOK boot live H v"
  proof (rule memOKI)
    show "distinct (map fst (wk_jobs v))" using m(1) by (simp add: v_def distinct_map_filter)
    show "jobID k = u" if "getJob u v = Some k" for u k using m(2) was[OF that] by blast
    show "jobOK boot live H k" if "getJob u v = Some k" for u k using m(3) was[OF that] by blast
    show "\<exists>x\<in>set (wk_rows v). agrees x k" if k: "getJob u v = Some k" for u k
    proof -
      obtain x where x: "x \<in> set (wk_rows w)" "agrees x k" using m(4) was[OF k] by blast
      then show ?thesis using kept[OF x(1)] was[OF k] by (auto simp: agrees_def)
    qed
    show "getJob (jobID x) v \<noteq> None" if x: "x \<in> set (wk_rows v)" "\<not> completeJ x" for x
    proof -
      obtain k where k: "getJob (jobID x) w = Some k" using m(5)[OF sub[OF x(1)] x(2)] by blast
      obtain y where y: "y \<in> set (wk_rows w)" "agrees y k" using m(4)[OF k] by blast
      have "y = x" using job_unique[OF r(1) y(1) sub[OF x(1)]] y(2) m(2)[OF k] by (simp add: agrees_def)
      then show ?thesis using found[OF k] x(2) y(2) by (simp add: agrees_def)
    qed
  qed
  have th: "threadOK boot live H v th" if n: "th \<in> set ths" for th
  proof (cases th)
    case (TRun t pc)
    then obtain j where j: "getJob t w = Some j" "\<not> finishedJ j" using o(4)[OF n] by auto
    have "getJob t v = Some j" by (rule found[OF j(1)]) (use jobOK_D(3)[OF m(3)[OF j(1)]] j(2) in blast)
    then show ?thesis using o(4)[OF n] j sub unfolding TRun by (auto simp: v_def)
  next
    case (THandoff t obj) then show ?thesis using o(4)[OF n] was sub by (cases obj) auto
  next
    case (TObserved t) then show ?thesis using o(4)[OF n] was by auto
  qed (use o(4)[OF n] found in \<open>auto simp: v_def\<close>)
  have up: "upOK boot live H v ths" by (rule upOK_I[OF a b th o(3)])
  have "upOK boot live H (v\<lparr>wk_lastRetention := now\<rparr>) ths" by (rule inv_fields[OF up]) simp_all
  then show ?thesis using up False by (simp add: expireCompleted_def Let_def v_def)
qed

section \<open>Maintenance\<close>

lemma spawned_append: "spawned (a @ b) = spawned a @ spawned b"
  by (simp add: spawned_def)

lemma inv_maintainJob:
  assumes ok: "upOK boot live H w (ths @ spawned ss)" and eq: "maintainJob errs now t (w, ss) = (w', ss')"
  shows "upOK boot live H w' (ths @ spawned ss')"
proof (cases "getJob t w")
  case None then show ?thesis using ok eq by (simp add: maintainJob_def)
next
  case (Some j)
  have jo: "jobOK boot live H j" by (rule memOKD(3)[OF upOKD(2)[OF ok] Some])
  show ?thesis
  proof (cases "wj_Cleanup j = ''complete''")
    case False
    obtain j1 st where ob: "observeLocked j w = (j1, st)" by (cases "observeLocked j w")
    have "w' = putJob (j1, w)" "spawned ss' = spawned ss @ reconcileThread t st"
      using eq Some False ob by (auto simp: maintainJob_def reconcileThread_def spawned_append) (simp_all add: spawned_def)
    then show ?thesis using inv_observe_quiet[OF ok Some quiet_refl[OF jo] refl ob refl] by simp
  next
    case True
    obtain j1 w1 st where ob: "collectLocked (errs t) now (j, w) = ((j1, w1), st)" by (metis prod.exhaust)
    have e: "w' = putJob (j1, w1)" "spawned ss' = spawned ss @ (if st then [TCollect t] else [])"
      using eq Some True ob by (auto simp: maintainJob_def spawned_append) (simp_all add: spawned_def)
    have up: "upOK boot live H w' (ths @ spawned ss)" unfolding e(1) by (rule inv_quiet[OF ok Some collectLocked_quiet[OF jo ob]])
    have "upOK boot live H w' ((ths @ spawned ss) @ [TCollect t])" by (rule inv_add[OF up]) simp_all
    then show ?thesis using up e(2) by simp
  qed
qed

lemma inv_maintain:
  assumes ok: "upOK boot live H w ths" and eq: "maintainTick errs fmt deleteErr sweepErr now w = (w', ss)"
  shows "upOK boot live H w' (ths @ spawned ss)"
proof -
  have "upOK boot live H v (ths @ spawned s0) \<Longrightarrow> fold (maintainJob errs now) ts (v, s0) = (v', s1) \<Longrightarrow> upOK boot live H v' (ths @ spawned s1)" for ts v s0 v' s1
  proof (induction ts arbitrary: v s0)
    case (Cons t ts)
    obtain v2 s2 where st: "maintainJob errs now t (v, s0) = (v2, s2)" by (cases "maintainJob errs now t (v, s0)")
    show ?case by (rule Cons.IH[OF inv_maintainJob[OF Cons.prems(1) st]]) (use Cons.prems(2) st in simp)
  qed simp
  then have "fold (maintainJob errs now) (map fst (wk_jobs w)) (w, []) = (v', s1) \<Longrightarrow> upOK boot live H v' (ths @ spawned s1)" for v' s1
    using ok by (metis append_Nil2 list.simps(8) spawned_def)
  then show ?thesis using eq wk_expire by (auto simp: maintainTick_def split: prod.splits)
qed

section \<open>A start of the worker\<close>

lemma restartJob_fields:
  assumes ok: "jobOK boot live H j" and k: "k = restartJob now j"
  shows "jobID k = jobID j" "jobOK boot live H k" "completeJ k = completeJ j" "wj_CopiesReleased k = wj_CopiesReleased j"
proof -
  define j1 where "j1 = (if wj_State j = ''building'' \<or> wj_State j = ''importing''
    then onExecution (\<lambda>x. x\<lparr>nx_Finished := Some now,
           nx_Error := Some (Safe (Fail ''worker_restarted'' ''Worker restarted before the execution result was durable''))\<rparr>) (j\<lparr>wj_State := ''interrupted''\<rparr>)
    else j)"
  define j2 where "j2 = (if NixResources_Released (resourcesOf j1) then j1 else j1\<lparr>wj_Cleanup := ''pending''\<rparr>)"
  note d = jobOK_D[OF ok]
  have f1: "jobID j1 = jobID j" "completeJ j1 = completeJ j" "clientJ j1 = clientJ j" "intentJ j1 = intentJ j" "evidenceOf j1 = evidenceOf j" "resourcesOf j1 = resourcesOf j"
    "wj_ManifestDigest j1 = wj_ManifestDigest j" "wj_HandoffComplete j1 = wj_HandoffComplete j" "wj_CopiesReleased j1 = wj_CopiesReleased j"
    "finishedJ j1" "wj_State j1 \<noteq> ''importing''" "wj_State j1 \<noteq> ''building''"
    using d(7) by (auto simp: j1_def observe_defs onExecution_def)
  have c: "completeJ j2 = completeJ j" using d(2) f1(2,6) by (auto simp: j2_def cleanup_simps)
  have f2: "jobID j2 = jobID j" "clientJ j2 = clientJ j" "intentJ j2 = intentJ j" "evidenceOf j2 = evidenceOf j" "resourcesOf j2 = resourcesOf j"
    "wj_ManifestDigest j2 = wj_ManifestDigest j" "wj_HandoffComplete j2 = wj_HandoffComplete j" "wj_CopiesReleased j2 = wj_CopiesReleased j"
    "finishedJ j2" "wj_State j2 \<noteq> ''importing''" "wj_State j2 \<noteq> ''building''"
    using f1 by (simp_all add: j2_def cleanup_simps)
  have k': "k = (if ne_State (evidenceOf j2) = ''collecting''
     then if ne_Attempts (evidenceOf j2) \<ge> 3
       then onEvidence (\<lambda>x. x\<lparr>ne_State := ''blocked'',
              ne_Error := Some (jobLifecycleError now ''evidence'' (Fail ''worker_restarted'' ''Final evidence attempt was interrupted'') j2)\<rparr>) j2
       else onEvidence (\<lambda>x. x\<lparr>ne_State := ''pending''\<rparr>) j2
     else j2)"
    by (simp only: k restartJob_def Let_def j1_def[symmetric] j2_def[symmetric])
  have e: "evidenceOK (evidenceOf k) (wj_ManifestDigest k)" using d(1) f2(4,6) by (simp add: k' evidenceOK_def)
  have f: "jobID k = jobID j" "completeJ k = completeJ j" "clientJ k = clientJ j" "intentJ k = intentJ j" "resourcesOf k = resourcesOf j"
    "wj_HandoffComplete k = wj_HandoffComplete j" "wj_CopiesReleased k = wj_CopiesReleased j" "finishedJ k" "wj_State k \<noteq> ''importing''" "wj_State k \<noteq> ''building''"
    using c f2 by (simp_all add: k')
  show "jobID k = jobID j" "completeJ k = completeJ j" "wj_CopiesReleased k = wj_CopiesReleased j" by (rule f(1,2,7))+
  show "jobOK boot live H k" by (rule jobOK_I) (use f d e in auto)
qed

text \<open>The memory while the jobs are entered.\<close>

definition partOK :: "string \<Rightarrow> (string \<times> ProcessIdentity) list \<Rightarrow> (string \<Rightarrow> bool) \<Rightarrow> WJob list \<Rightarrow> Worker \<Rightarrow> bool" where
  "partOK boot live H js w \<longleftrightarrow> rowsOK boot live H (wk_rows w) \<and> distinct (map fst (wk_jobs w)) \<and>
     (\<forall>t j. getJob t w = Some j \<longrightarrow> jobID j = t \<and> jobOK boot live H j \<and> (\<exists>r\<in>set (wk_rows w). agrees r j)) \<and>
     (\<forall>r\<in>set (wk_rows w). \<not> completeJ r \<longrightarrow> getJob (jobID r) w \<noteq> None \<or> jobID r \<in> jobID ` set js) \<and> (\<forall>j\<in>set js. jobOK boot live H j)"

lemma partOKD:
  assumes "partOK boot live H js w"
  shows "rowsOK boot live H (wk_rows w)" "distinct (map fst (wk_jobs w))" "getJob t w = Some j \<Longrightarrow> jobID j = t" "getJob t w = Some j \<Longrightarrow> jobOK boot live H j"
    "getJob t w = Some j \<Longrightarrow> \<exists>r\<in>set (wk_rows w). agrees r j" "r \<in> set (wk_rows w) \<Longrightarrow> \<not> completeJ r \<Longrightarrow> getJob (jobID r) w \<noteq> None \<or> jobID r \<in> jobID ` set js"
    "j \<in> set js \<Longrightarrow> jobOK boot live H j"
  using assms unfolding partOK_def by blast+

lemma partOKI:
  assumes "rowsOK boot live H (wk_rows w)" "distinct (map fst (wk_jobs w))" "\<And>t j. getJob t w = Some j \<Longrightarrow> jobID j = t" "\<And>t j. getJob t w = Some j \<Longrightarrow> jobOK boot live H j"
    "\<And>t j. getJob t w = Some j \<Longrightarrow> \<exists>r\<in>set (wk_rows w). agrees r j"
    "\<And>r. r \<in> set (wk_rows w) \<Longrightarrow> \<not> completeJ r \<Longrightarrow> getJob (jobID r) w \<noteq> None \<or> jobID r \<in> jobID ` set js" "\<And>j. j \<in> set js \<Longrightarrow> jobOK boot live H j"
  shows "partOK boot live H js w"
  using assms unfolding partOK_def by blast

lemma restart_one:
  assumes ok: "partOK boot live H (j # js) w" and sv: "saveJob err (restartJob now j, w0) = (None, k, w2)"
    and w0: "wk_rows w0 = wk_rows w" "\<And>u. u \<noteq> jobID j \<Longrightarrow> getJob u w0 = getJob u w" "distinct (map fst (wk_jobs w0))"
  shows "partOK boot live H js (enterJob (jobID j) k w2)"
proof -
  note o = partOKD[OF ok]
  let ?j = "restartJob now j" and ?w = "enterJob (jobID j) k w2"
  note f = restartJob_fields[OF o(7)[OF list.set_intros(1)] refl, of now]
  from sv have p: "k = ?j\<lparr>wj_indexedFiles := length (wj_Files ?j)\<rparr>" "putRow (jobID j) ?j (wk_rows w) (wk_rows w2)" "wk_jobs w2 = wk_jobs w0"
    using f(1) w0(1) by (auto elim: saveJob_cases)
  have core: "coreJ k = coreJ ?j" using p(1) by simp
  note c = core_eqD[OF core] and pr = putRowD[OF p(2)]
  have get: "getJob u ?w = (if u = jobID j then Some k else getJob u w)" for u
    using getJob_jobs[OF p(3), of u] w0(2) by simp
  obtain r where r: "r \<in> set (wk_rows w2)" "jobID r = jobID j" using pr(3) by blast
  have ag: "agrees r k" using core_eqD[OF pr(2)[OF r]] c by (simp add: agrees_def)
  show ?thesis
  proof (rule partOKI)
    show "rowsOK boot live H (wk_rows ?w)" using putRow_rowsOK[OF o(1) p(2) f(2)] by simp
    show "distinct (map fst (wk_jobs ?w))" by (rule enter_distinct) (use p(3) w0(3) in simp)
    show "jobID l = u" if "getJob u ?w = Some l" for u l using that o(3)[of u l] c(1) f(1) get[of u] by (cases "u = jobID j") auto
    show "jobOK boot live H l" if "getJob u ?w = Some l" for u l using that o(4)[of u l] c(9) f(2) get[of u] by (cases "u = jobID j") auto
    show "\<exists>r\<in>set (wk_rows ?w). agrees r l" if l: "getJob u ?w = Some l" for u l
    proof (cases "u = jobID j")
      case True then show ?thesis using l get ag r(1) by auto
    next
      case False
      then have l': "getJob u w = Some l" using l get[of u] by simp
      obtain s where s: "s \<in> set (wk_rows w)" "agrees s l" using o(5)[OF l'] by blast
      have "jobID s \<noteq> jobID j" using s(2) o(3)[OF l'] False by (simp add: agrees_def)
      then show ?thesis using s pr(1)[of s] by auto
    qed
    show "getJob (jobID s) ?w \<noteq> None \<or> jobID s \<in> jobID ` set js" if s: "s \<in> set (wk_rows ?w)" "\<not> completeJ s" for s
    proof (cases "jobID s = jobID j")
      case True then show ?thesis using get by simp
    next
      case False
      then have "s \<in> set (wk_rows w)" using pr(1)[of s] s(1) by simp
      then show ?thesis using o(6)[OF _ s(2)] False get[of "jobID s"] by auto
    qed
    show "jobOK boot live H l" if "l \<in> set js" for l using o(7)[of l] that by simp
  qed
qed

lemma restart_all:
  assumes "partOK boot live H js w" "restartJobs errs now js w = (err, w')"
  shows "rowsOK boot live H (wk_rows w') \<and> (err = None \<longrightarrow> partOK boot live H [] w') \<and> wk_instance w' = wk_instance w"
  using assms
proof (induction js arbitrary: w)
  case Nil then show ?case using partOKD(1)[OF Nil.prems(1)] by simp
next
  case (Cons j js)
  note o = partOKD[OF Cons.prems(1)]
  define v where "v = (if NixResources_Released (resourcesOf (restartJob now j)) then w else w\<lparr>wk_active := jobID j\<rparr>)"
  note id = restartJob_fields(1)[OF o(7)[OF list.set_intros(1)] refl, of now]
  obtain sv k w2 where s: "saveJob (errs (jobID j)) (restartJob now j, enterJob (jobID j) (restartJob now j) v) = (sv, k, w2)"
    by (cases "saveJob (errs (jobID j)) (restartJob now j, enterJob (jobID j) (restartJob now j) v)")
  have v: "wk_rows v = wk_rows w" "wk_jobs v = wk_jobs w" "wk_instance v = wk_instance w" by (simp_all add: v_def)
  have step: "restartJobs errs now (j # js) w = (case sv of Some e \<Rightarrow> (Some e, w2) | None \<Rightarrow> restartJobs errs now js (enterJob (jobID j) k w2))"
    unfolding restartJobs.simps Let_def id v_def[symmetric] s prod.case by (cases sv) simp_all
  show ?case
  proof (cases sv)
    case (Some e)
    then have "w2 = enterJob (jobID j) (restartJob now j) v" using s by (auto elim: saveJob_cases)
    then show ?thesis using Cons.prems(2) step Some v o(1) by auto
  next
    case None
    have "partOK boot live H js (enterJob (jobID j) k w2)"
      by (rule restart_one[OF Cons.prems(1) s[unfolded None]]) (use v getJob_jobs[OF v(2)] enter_distinct[of v] o(2) in auto)
    moreover have "wk_instance w2 = wk_instance w" using s None v(3) by (auto elim: saveJob_cases)
    ultimately show ?thesis using Cons.IH[of "enterJob (jobID j) k w2"] Cons.prems(2) step None by simp
  qed
qed

lemma wk_restart:
  assumes rows: "rowsOK boot live H (wk_rows w)" and eq: "newWorker loadErr errs now w = (err, w')"
  shows "rowsOK boot live H (wk_rows w')" "err = None \<Longrightarrow> upOK boot live H w' []" "wk_instance w' = wk_instance w"
proof -
  have f: "wk_rows (freshWorker w) = wk_rows w" "wk_jobs (freshWorker w) = []" "wk_instance (freshWorker w) = wk_instance w" by (simp_all add: freshWorker_def)
  have "rowsOK boot live H (wk_rows w') \<and> (err = None \<longrightarrow> upOK boot live H w' []) \<and> wk_instance w' = wk_instance w"
  proof (cases loadErr)
    case (Some e) then show ?thesis using eq rows f by (auto simp: newWorker_def activeJobs_def)
  next
    case None
    let ?js = "map (loadedJob (freshWorker w)) (filter isActiveRow (wk_rows w))"
    have "partOK boot live H ?js (freshWorker w)"
    proof (rule partOKI)
      show "rowsOK boot live H (wk_rows (freshWorker w))" using rows f by simp
      show "getJob (jobID r) (freshWorker w) \<noteq> None \<or> jobID r \<in> jobID ` set ?js" if r: "r \<in> set (wk_rows (freshWorker w))" "\<not> completeJ r" for r
      proof -
        have "loadedJob (freshWorker w) r \<in> set ?js" using r f(1) by (auto simp: isActiveRow_def completeJ_def)
        moreover have "jobID (loadedJob (freshWorker w) r) = jobID r" by (rule core_eqD(1)) simp
        ultimately show ?thesis by (metis image_eqI)
      qed
      show "jobOK boot live H j" if j: "j \<in> set ?js" for j
      proof -
        obtain r where "r \<in> set (wk_rows w)" "j = loadedJob (freshWorker w) r" using j by auto
        then show ?thesis using rowsOKD(2)[OF rows] core_eqD(9)[of j r] by simp
      qed
    qed (simp_all add: f getJob_def)
    then have r: "rowsOK boot live H (wk_rows w') \<and> (err = None \<longrightarrow> partOK boot live H [] w') \<and> wk_instance w' = wk_instance (freshWorker w)"
      by (rule restart_all) (use eq None f in \<open>simp add: newWorker_def activeJobs_def\<close>)
    have "upOK boot live H w' []" if e: "err = None"
    proof -
      have pk: "partOK boot live H [] w'" using r e by blast
      note o = partOKD[OF pk]
      have "memOK boot live H w'" by (rule memOKI) (use o(2-6) in auto)
      then show ?thesis using o(1) by (simp add: upOK_def threadsOK_def)
    qed
    then show ?thesis using r f(3) by simp
  qed
  then show "rowsOK boot live H (wk_rows w')" "err = None \<Longrightarrow> upOK boot live H w' []" "wk_instance w' = wk_instance w" by blast+
qed

end
