(* ===== verification/ExecCalls.thy ===== *)
theory ExecCalls
  imports ExecOps
begin

text \<open>The calls of the worker and the recovery of the executor keep the invariant and the receipts.\<close>

section \<open>New sessions\<close>

lemma memInvD:
  assumes "exInv todo ker e"
  shows "rowsInv (ex_boot e) ker (ex_db e)" "memInv todo e" "distinct (map fst (ex_sessions e))"
    "s \<in> set (ex_db e) \<Longrightarrow> \<not> sessionReleased s \<Longrightarrow> xs_ID s \<notin> todo \<Longrightarrow> \<exists>r. getSession (xs_ID s) e = Some r"
  using assms unfolding exInv_def memInv_def by auto

lemma newRuntime_simps [simp]:
  "rt_session (newRuntime s) = s" "rt_monitoring (newRuntime s) = False" "observable (newRuntime s)" "rt_group (newRuntime s) = None"
  by (simp_all add: newRuntime_def observable_def)

lemma hasRow_iff: "hasRow k rows \<longleftrightarrow> (\<exists>s\<in>set rows. xs_ID s = k)"
  by (simp add: hasRow_def list_ex_iff)

lemma samePair_sym: "samePair a b \<Longrightarrow> samePair b a"
  by (simp add: samePair_def)

lemma rowsInv_new:
  assumes inv: "rowsInv boot ker rows" and fresh: "\<not> hasRow (xs_ID s) rows" and s: "placed s" "sane s"
    and pair: "\<And>t. t \<in> set rows \<Longrightarrow> \<not> samePair s t" and one: "sessionReleased s \<or> (\<forall>t\<in>set rows. sessionReleased t)"
  shows "rowsInv boot ker (rows @ [s])"
proof (rule rowsInvI)
  note i = rowsInvD[OF inv]
  have other: "xs_ID t \<noteq> xs_ID s" if "t \<in> set rows" for t using fresh that unfolding hasRow_iff by blast
  show "distinct (map xs_ID (rows @ [s]))" using i(1) fresh by (auto simp: hasRow_iff)
  show "placed t" "sane t" if "t \<in> set (rows @ [s])" for t using that i(2,3) s by auto
  show "xs_ID a = xs_ID b" if m: "a \<in> set (rows @ [s])" "b \<in> set (rows @ [s])" "\<not> sessionReleased a" "\<not> sessionReleased b" for a b
  proof (cases "a = s \<or> b = s")
    case True then show ?thesis using m one by auto
  next
    case False then show ?thesis using i(4)[of a b] m by simp
  qed
  show "xs_ID a = xs_ID b" if m: "a \<in> set (rows @ [s])" "b \<in> set (rows @ [s])" "samePair a b" for a b
  proof (cases "a = s \<or> b = s")
    case True then show ?thesis using m pair samePair_sym by auto
  next
    case False then show ?thesis using i(5)[of a b] m by simp
  qed
  show "\<exists>t\<in>set (rows @ [s]). xs_Group t = p \<and> \<not> sessionReleased t \<and> xs_BootID t = boot" if "\<not> noLive ker p" for p
    using i(6)[OF that] by auto
qed

lemma good_new:
  assumes inv: "exInv {} ker e" and fresh: "\<not> hasRow (xs_ID s) (ex_db e)" and s: "placed s" "sane s"
    and pair: "\<And>t. t \<in> set (ex_db e) \<Longrightarrow> \<not> samePair s t" and one: "sessionReleased s \<or> (\<forall>t\<in>set (ex_db e). sessionReleased t)"
    and boot: "owned s \<Longrightarrow> xs_BootID s = ex_boot e"
  shows "goodBut (\<lambda>t. \<not> sessionReleased s \<and> samePair s t) {} ker e (putBoth (xs_ID s) (newRuntime s, ex_db e @ [s]) e)"
proof -
  note m = memInvD[OF inv]
  let ?e = "putBoth (xs_ID s) (newRuntime s, ex_db e @ [s]) e"
  have other: "xs_ID t \<noteq> xs_ID s" if "t \<in> set (ex_db e)" for t using fresh that unfolding hasRow_iff by blast
  have "exInv {} ker ?e"
  proof (rule exInvI, goal_cases)
    case 1 show ?case using rowsInv_new[OF m(1) fresh s pair one] by simp
  next
    case 2 show ?case using distinct_put[OF m(3)] by (simp add: putBoth_def)
  next
    case (3 k r)
    show ?case
    proof (cases "k = xs_ID s")
      case True
      have "entryInv (ex_boot e) (ex_db e @ [s]) (xs_ID s) (newRuntime s)"
        by (rule entryInvI) (use s(2) boot other in \<open>auto intro: bexI[of _ s]\<close>)
      then show ?thesis using 3 True by simp
    next
      case False
      then have "getSession k e = Some r" using 3 by simp
      from entryInv_other[OF exInvD(2)[OF inv this], of "ex_db e @ [s]"] False show ?thesis by auto
    qed
  next
    case (4 t)
    then show ?case using m(4)[of t] by (cases "xs_ID t = xs_ID s") auto
  qed
  moreover have "grown (\<lambda>t. \<not> sessionReleased s \<and> samePair s t) (ex_db e) (ex_db e @ [s])"
    using samePair_equiv(1) by (auto simp: grown_def)
  ultimately show ?thesis by (simp add: goodBut_def keeps_def)
qed

lemma lookup_cases:
  assumes "lookupSession dbErr a e = (res, e')"
  obtains (same) "e' = e" "\<And>k. res = Inr k \<Longrightarrow> getSession k e \<noteq> None"
    | (entered) s where "s \<in> set (ex_db e)" "getSession (xs_ID s) e = None" "e' = putSession (xs_ID s) (newRuntime s) e" "res = Inr (xs_ID s)"
proof (cases "if xq_SessionID a \<noteq> [] then getSession (xq_SessionID a) e else None")
  case (Some r)
  then have "e' = e" "\<And>k. res = Inr k \<Longrightarrow> getSession k e \<noteq> None" using assms by (auto simp: lookupSession_def split: if_splits)
  then show ?thesis by (rule same)
next
  case None
  let ?f = "List.find (\<lambda>s. xs_WorkerInstance s = xq_WorkerInstance a \<and> xs_TaskID s = xq_TaskID a) (ex_db e)"
  have eq: "(case dbErr of Some x \<Rightarrow> (Inl x, e) | None \<Rightarrow> (case ?f of None \<Rightarrow> (Inl errNoRows, e) | Some s \<Rightarrow>
      if xq_SessionID a \<noteq> [] \<and> xq_SessionID a \<noteq> xs_ID s then (Inl ownershipMismatch, e)
      else if getSession (xs_ID s) e \<noteq> None then (Inr (xs_ID s), e)
      else (Inr (xs_ID s), putSession (xs_ID s) (newRuntime s) e))) = (res, e')"
    using assms unfolding lookupSession_def None option.case .
  show ?thesis
  proof (cases "dbErr = None \<and> ?f \<noteq> None")
    case False
    then have "e' = e" "\<And>k. res = Inr k \<Longrightarrow> getSession k e \<noteq> None" using eq by (auto split: option.splits)
    then show ?thesis by (rule same)
  next
    case True
    then obtain s where f: "?f = Some s" by auto
    have s: "s \<in> set (ex_db e)" using f by (auto simp: find_Some_iff)
    show ?thesis
    proof (cases "getSession (xs_ID s) e = None \<and> \<not> (xq_SessionID a \<noteq> [] \<and> xq_SessionID a \<noteq> xs_ID s)")
      case new: True
      show ?thesis by (rule entered[OF s]) (use eq f True new in simp_all)
    next
      case known: False
      have "e' = e" "\<And>k. res = Inr k \<Longrightarrow> getSession k e \<noteq> None" using eq f True known by (auto split: if_splits)
      then show ?thesis by (rule same)
    qed
  qed
qed

lemma good_lookup:
  assumes inv: "exInv {} ker e" and eq: "lookupSession dbErr a e = (res, e')"
  shows "good {} ker e e'"
  using eq
proof (cases rule: lookup_cases)
    case same then show ?thesis using good_refl[OF inv] by simp
  next
    case (entered s)
    note m = memInvD[OF inv]
    have rel: "sessionReleased s" using m(4)[OF entered(1)] entered(2) by auto
    have uniq: "t = s" if "t \<in> set (ex_db e)" "xs_ID t = xs_ID s" for t by (rule distinct_row[OF rowsInvD(1)[OF m(1)] that(1) entered(1) that(2)])
    have "entryInv (ex_boot e) (ex_db e) (xs_ID s) (newRuntime s)"
    proof (rule entryInvI)
      show "\<exists>t\<in>set (ex_db e). fixed t (rt_session (newRuntime s))" using entered(1) by (intro bexI[of _ s]) simp_all
      show "\<forall>t\<in>set (ex_db e). xs_ID t = xs_ID s \<longrightarrow> sessionReleased t" using uniq rel by blast
      show "xs_BootID (rt_session (newRuntime s)) = ex_boot e" if "owned (rt_session (newRuntime s))"
        using that rel by (simp add: owned_def released_states)
    qed (use rowsInvD(3)[OF m(1) entered(1)] rel in simp_all)
    note e = this
    have "exInv {} ker e'"
    proof (rule exInvI, goal_cases)
      case 1 show ?case using m(1) entered(3) by simp
    next
      case 2 show ?case using distinct_put[OF m(3)] entered(3) by simp
    next
      case (3 k r) then show ?case using e exInvD(2)[OF inv] entered(3) by (simp split: if_splits)
    next
      case (4 t) then show ?case using m(4)[of t] entered(3) by auto
    qed
    then show ?thesis using entered(3) by (simp add: goodBut_def keeps_refl)
qed

section \<open>Calls\<close>

lemma sealedSession_facts:
  "sessionReleased (sealedSession now k a e)" "sane (sealedSession now k a e)" "xs_ID (sealedSession now k a e) = k"
  "IDPattern k \<Longrightarrow> placed (sealedSession now k a e)" "\<not> owned (sealedSession now k a e)"
  by (simp_all add: sealedSession_def released_states sane_def owned_def placed_def nixResourcesIn_def hour_def minute_def second_def)

lemma saveSession_new:
  assumes "\<not> hasRow (xs_ID s) rows" "saveSession err s rows = (None, rows')"
  shows "rows' = rows @ [s]" "t \<in> set rows \<Longrightarrow> \<not> samePair s t"
  using assms by (auto simp: saveSession_def list_ex_iff split: option.splits if_splits)

lemma good_seal:
  assumes inv: "exInv {} ker e" and k: "IDPattern k" "\<not> hasRow k (ex_db e)" and eq: "sealJob err now k a e = (res, e')"
  shows "good {} ker e e'"
proof -
  let ?s = "sealedSession now k a e"
  obtain x rows where sv: "saveSession err ?s (ex_db e) = (x, rows)" by fastforce
  show ?thesis
  proof (cases x)
    case (Some er) then show ?thesis using eq sv good_refl[OF inv] by (auto simp: sealJob_def Let_def)
  next
    case None
    have fresh: "\<not> hasRow (xs_ID ?s) (ex_db e)" using k(2) by (simp add: sealedSession_facts)
    note n = saveSession_new[OF fresh sv[unfolded None]]
    have "e' = putBoth (xs_ID ?s) (newRuntime ?s, ex_db e @ [?s]) e" using eq sv None n(1) by (simp add: sealJob_def Let_def sealedSession_facts)
    then show ?thesis using good_new[OF inv fresh sealedSession_facts(4)[OF k(1)] sealedSession_facts(2) n(2)] sealedSession_facts(1,5) by simp
  qed
qed

lemma good_setupFailed:
  assumes inv: "exInv {} ker e" and r: "getSession k e = Some r" "\<not> sessionReleased (rt_session r)" "\<not> rt_monitoring r"
    and live: "noLive ker (xs_Group (rt_session r))"
  shows "good {} ker e (snd (setupFailed io now k err e))"
proof (cases "rt_group r = None \<and> isNotExist err")
  case False then show ?thesis using r(1) good_stop_snd[OF inv] by (auto simp: setupFailed_def)
next
  case True
  obtain x r' rows' where rel: "released (cr_fail io) now ''session_not_started'' (r, ex_db e) = (x, r', rows')"
    by (cases "released (cr_fail io) now ''session_not_started'' (r, ex_db e)")
  note rs = released_section[OF exInv_atWork[OF inv r(1,2)] exInvD(5)[OF inv r(1)] live rel]
  have "sectionOK ker (r, ex_db e) (r', rows')"
  proof (cases x)
    case None
    have "r'\<lparr>rt_group := rt_group r', rt_monitoring := False\<rparr> = r'" using rs(2)[OF None] r(3) by simp
    then show ?thesis using rs(1)[OF None, of "rt_group r'"] by simp
  qed (use rs(3) in simp)
  from good_section[OF inv r(1,2) this] show ?thesis using True r(1) rel by (simp add: setupFailed_def)
qed

lemma good_setup:
  assumes inv: "exInv {} ker e" and r: "getSession k e = Some r" "\<not> sessionReleased (rt_session r)" "\<not> rt_monitoring r"
    and live: "noLive ker (xs_Group (rt_session r))"
  shows "good {} ker e (snd (setupSession io now k e))"
proof -
  have failed: "good {} ker e (snd (setupFailed io now k err e))" for err by (rule good_setupFailed[OF assms])
  have "good {} ker e (snd (setupSession io now k e))" if op: "cr_mkdir io = None" "cr_open io = Inr inode" for inode
  proof -
    let ?r = "r\<lparr>rt_group := Some inode, rt_session := (rt_session r)\<lparr>xs_GroupInode := inode\<rparr>\<rparr>"
    obtain x rows where sv: "saveSession (cr_save2 io) (rt_session ?r) (ex_db e) = (x, rows)" by fastforce
    have facts: "fixed (rt_session r) (rt_session ?r)" "sane (rt_session ?r)" "\<not> sessionReleased (rt_session ?r)" "owned (rt_session ?r) = owned (rt_session r)"
      using exInvD(4)[OF inv r(1)] r(2) by (simp_all add: fixed_def sane_def sessionReleased_def owned_def)
    have g: "good {} ker e (putBoth k (r2, rows) e)" if "rt_session r2 = rt_session ?r" "\<not> rt_monitoring r2" for r2
      by (rule good_section[OF inv r(1,2) section_save[OF exInv_atWork[OF inv r(1,2)] _ _ _ observable_idle _ sv[folded that(1)]]])
        (use that facts in simp_all)
    have f: "good {} ker e (snd (setupFailed io now k err (putBoth k (r2, rows) e)))" if "rt_session r2 = rt_session ?r" "\<not> rt_monitoring r2" for r2 err
      by (rule good_trans[OF g[OF that] good_setupFailed[OF good_inv[OF g[OF that]], where r = r2]])
        (use that facts live in \<open>simp_all add: fixed_def\<close>)
    show ?thesis
      using op r(1) sv r(3) g f by (auto simp: setupSession_def Let_def split: option.splits)
  qed
  then show ?thesis using failed good_refl[OF inv] by (auto simp: setupSession_def split: option.splits sum.splits)
qed

lemma openedSession_facts:
  "xs_ID (openedSession now k d a e) = k" "\<not> sessionReleased (openedSession now k d a e)" "xs_BootID (openedSession now k d a e) = ex_boot e"
  "IDPattern k \<Longrightarrow> placed (openedSession now k d a e)" "\<not> now + 24 * hour < d \<Longrightarrow> sane (openedSession now k d a e)"
  "xs_Group (openedSession now k d a e) = groupPath (ex_groups e) k"
  by (auto simp: openedSession_def released_states sane_def placed_def nixResourcesIn_def)

lemma idle_released:
  assumes inv: "exInv {} ker e" and idle: "\<not> list_ex (\<lambda>(k, r). \<not> sessionReleased (rt_session r)) (ex_sessions e)"
  shows "s \<in> set (ex_db e) \<Longrightarrow> sessionReleased s" "noLive ker p"
proof -
  have *: "sessionReleased s" if s: "s \<in> set (ex_db e)" for s
  proof (rule ccontr)
    assume un: "\<not> sessionReleased s"
    obtain r where r: "getSession (xs_ID s) e = Some r" using memInvD(4)[OF inv s un] by auto
    then have "(xs_ID s, r) \<in> set (ex_sessions e)" using getSession_Some[OF memInvD(3)[OF inv]] by simp
    then have "sessionReleased (rt_session r)" using idle by (auto simp: list_ex_iff)
    then show False using exInvD(2)[OF inv r] s un by (auto simp: entryInv_def)
  qed
  show "s \<in> set (ex_db e) \<Longrightarrow> sessionReleased s" by (rule *)
  show "noLive ker p" using rowsInvD(6)[OF memInvD(1)[OF inv], of p] * by blast
qed

text \<open>The session a request asks for.\<close>

definition asked :: "ExecRequest \<Rightarrow> ExecSession \<Rightarrow> bool" where
  "asked a s \<longleftrightarrow> xs_WorkerInstance s = xq_WorkerInstance a \<and> xs_TaskID s = xq_TaskID a"

lemma asked_pair: "asked a s \<Longrightarrow> samePair s t \<Longrightarrow> asked a t"
  by (simp add: asked_def samePair_def)

lemma openedSession_asked: "asked a (openedSession now k d a e)"
  by (simp add: asked_def openedSession_def)

lemma good_create:
  assumes inv: "exInv {} ker e" and k: "IDPattern k" "\<not> hasRow k (ex_db e)"
  shows "goodBut (asked a) {} ker e (snd (createSession io now k a e))"
proof (cases "\<not> ex_closing e \<and> \<not> list_ex (\<lambda>(k, r). \<not> sessionReleased (rt_session r)) (ex_sessions e) \<and>
    (\<exists>d. xq_Deadline a = Some d \<and> now < d \<and> \<not> now + 24 * hour < d)")
  case False
  then have "snd (createSession io now k a e) = e" by (auto simp: createSession_def split: option.splits)
  then show ?thesis using good_refl[OF inv] by simp
next
  case True
  then obtain d where d: "xq_Deadline a = Some d" "now < d" "\<not> now + 24 * hour < d" by blast
  let ?s = "openedSession now k d a e"
  obtain x rows where sv: "saveSession (cr_save1 io) ?s (ex_db e) = (x, rows)" by fastforce
  show ?thesis
  proof (cases x)
    case (Some err) then show ?thesis using True d sv good_refl[OF inv] by (auto simp: createSession_def Let_def)
  next
    case None
    have fresh: "\<not> hasRow (xs_ID ?s) (ex_db e)" using k(2) by (simp add: openedSession_facts)
    note n = saveSession_new[OF fresh sv[unfolded None]]
    let ?e = "putBoth k (newRuntime ?s, rows) e"
    have "goodBut (\<lambda>t. \<not> sessionReleased ?s \<and> samePair ?s t) {} ker e ?e"
      using good_new[OF inv fresh openedSession_facts(4)[OF k(1)] openedSession_facts(5)[OF d(3)] n(2)] idle_released(1)[OF inv] True n(1)
      by (simp add: openedSession_facts)
    then have g: "goodBut (asked a) {} ker e ?e" by (rule good_mono) (use asked_pair[OF openedSession_asked] in blast)
    have "good {} ker ?e (snd (setupSession io now k ?e))"
      by (rule good_setup[OF good_inv[OF g], where r = "newRuntime ?s"]) (use idle_released(2)[OF inv] True in \<open>simp_all add: openedSession_facts\<close>)
    from good_then[OF g this asked_pair] show ?thesis using True d sv None by (simp add: createSession_def Let_def)
  qed
qed

lemma good_extend:
  assumes inv: "exInv todo ker e"
  shows "good todo ker e (snd (extendSession sio err now k a e))"
proof (cases "getSession k e")
  case None then show ?thesis using good_refl[OF inv] by (simp add: extendSession_def)
next
  case (Some r0)
  define e1 where "e1 = (if now < xs_Deadline (rt_session r0) then e else snd (stopSession sio now ''deadline'' k e))"
  have g: "good todo ker e e1" using good_refl[OF inv] good_stop_snd[OF inv] by (simp add: e1_def)
  note inv1 = good_inv[OF g]
  define res where "res = extendSession sio err now k a e"
  have "snd res = e1 \<or> (\<exists>r d rows. getSession k e1 = Some r \<and> owned (rt_session r) \<and> \<not> xs_Created (rt_session r) + 24 * hour < d \<and>
      saveSession err ((rt_session r)\<lparr>xs_Deadline := d\<rparr>) (ex_db e1) = (None, rows) \<and>
      snd res = putBoth k (r\<lparr>rt_session := (rt_session r)\<lparr>xs_Deadline := d\<rparr>\<rparr>, rows) e1)"
  proof (cases "getSession k e1")
    case None then show ?thesis using Some by (simp add: res_def extendSession_def Let_def e1_def)
  next
    case r: (Some r)
    let ?s = "rt_session r"
    have "res = (case xq_Deadline a of None \<Rightarrow> (Inl (Fail ''invalid_state'' ''Only an owned session can be extended within its lifetime''), e1)
      | Some d \<Rightarrow> if xs_Stopping ?s \<noteq> None \<or> nr_State (xs_Resources ?s) \<noteq> ''owned'' \<or> d < xs_Deadline ?s \<or> xs_Created ?s + 24 * hour < d
          then (Inl (Fail ''invalid_state'' ''Only an owned session can be extended within its lifetime''), e1)
          else (case saveSession err (?s\<lparr>xs_Deadline := d\<rparr>) (ex_db e1) of
             (Some x, _) \<Rightarrow> (Inl x, e1)
           | (None, rows) \<Rightarrow> (Inr (?s\<lparr>xs_Deadline := d\<rparr>), putBoth k (r\<lparr>rt_session := ?s\<lparr>xs_Deadline := d\<rparr>\<rparr>, rows) e1)))"
      using Some r unfolding res_def extendSession_def e1_def Let_def by (simp only: option.case)
    then show ?thesis using r by (auto simp: owned_def split: option.splits if_splits prod.splits)
  qed
  then have "good todo ker e1 (snd res)"
  proof
    assume "snd res = e1" then show ?thesis using good_refl[OF inv1] by simp
  next
    assume "\<exists>r d rows. getSession k e1 = Some r \<and> owned (rt_session r) \<and> \<not> xs_Created (rt_session r) + 24 * hour < d \<and>
      saveSession err ((rt_session r)\<lparr>xs_Deadline := d\<rparr>) (ex_db e1) = (None, rows) \<and>
      snd res = putBoth k (r\<lparr>rt_session := (rt_session r)\<lparr>xs_Deadline := d\<rparr>\<rparr>, rows) e1"
    then obtain r d rows where r: "getSession k e1 = Some r" "owned (rt_session r)" "\<not> xs_Created (rt_session r) + 24 * hour < d"
      and sv: "saveSession err ((rt_session r)\<lparr>xs_Deadline := d\<rparr>) (ex_db e1) = (None, rows)"
      and e': "snd res = putBoth k (r\<lparr>rt_session := (rt_session r)\<lparr>xs_Deadline := d\<rparr>\<rparr>, rows) e1" by blast
    let ?r = "r\<lparr>rt_session := (rt_session r)\<lparr>xs_Deadline := d\<rparr>\<rparr>"
    have un: "\<not> sessionReleased (rt_session r)" using r(2) by (simp add: owned_def released_states)
    have "sectionOK ker (r, ex_db e1) (?r, rows)"
      by (rule section_save[OF exInv_atWork[OF inv1 r(1) un], where err = err and x = None])
        (use r un sv exInvD(4,5)[OF inv1 r(1)] in \<open>simp_all add: fixed_def sane_def observable_def owned_def sessionReleased_def\<close>)
    from good_section[OF inv1 r(1) un this] show ?thesis unfolding e' .
  qed
  from good_trans[OF g this] show ?thesis by (simp add: res_def)
qed

lemma good_known:
  assumes inv: "exInv todo ker e"
  shows "good todo ker e (snd (knownCall io now verb a k e))"
  using good_refl[OF inv] good_extend[OF inv] good_stop[OF inv]
  by (auto simp: knownCall_def split: option.splits prod.splits)

lemma good_call:
  assumes inv: "exInv {} ker e" and k: "IDPattern k" "\<not> hasRow k (ex_db e)"
  shows "goodBut (\<lambda>s. verb = ''create'' \<and> asked a s) {} ker e (snd (executorCall io now k verb a e))"
proof -
  obtain res e1 where eq: "lookupSession (cl_lookup io) a e = (res, e1)" by fastforce
  note g = good_lookup[OF inv eq]
  have same: "e1 = e" if "res = Inl x" for x using eq by (cases rule: lookup_cases) (use that in simp_all)
  show ?thesis
  proof (cases res)
    case (Inr kk)
    have "goodBut (\<lambda>s. verb = ''create'' \<and> asked a s) {} ker e (snd (knownCall io now verb a kk e1))"
      by (rule good_mono[OF good_trans[OF g good_known[OF good_inv[OF g]]]]) simp
    then show ?thesis using good_refl[OF inv] by (simp add: executorCall_def eq Inr)
  next
    case (Inl err)
    have seal: "goodBut P {} ker e (snd (sealJob (cl_seal io) now k a e))" for P
      by (rule good_mono[OF good_seal[OF inv k prod.collapse[symmetric]]]) simp
    show ?thesis
      using good_refl[OF inv] good_create[OF inv k] seal same[OF Inl] by (simp add: executorCall_def eq Inl)
  qed
qed

section \<open>The reply to a stop\<close>

lemma stop_pairs:
  assumes inv: "exInv todo ker e"
  shows "list_all2 fixed (ex_db e) (ex_db (snd (stopSession io now reason k e)))"
proof (cases "getSession k e")
  case (Some r)
  obtain x r' rows' where eq: "stopLocked io (ex_cfg e) now reason (r, ex_db e) = (x, r', rows')" by (cases "stopLocked io (ex_cfg e) now reason (r, ex_db e)")
  have "list_all2 fixed (ex_db e) rows'"
  proof (cases "sessionReleased (rt_session r)")
    case True then show ?thesis using eq by (simp add: stopLocked_def list_all2_refl_pw)
  next
    case False
    show ?thesis
      by (rule list_all2_mono[OF sectionOK_D(5)[OF stop_section(1)[OF exInv_atWork[OF inv Some False] exInvD(5)[OF inv Some] eq]] rowRel_fixed])
  qed
  then show ?thesis using Some eq by (simp add: stopSession_def)
qed (simp add: stopSession_def list_all2_refl_pw)

lemma stop_rows:
  assumes inv: "exInv todo ker e"
  shows "map xs_ID (ex_db (snd (stopSession io now reason k e))) = map xs_ID (ex_db e)"
  using stop_pairs[OF inv, of io now reason k] by (induction rule: list_all2_induct) (simp_all add: fixed_ID)

lemma stop_asked:
  assumes inv: "exInv todo ker e" and s: "s \<in> set (ex_db e)" "xs_ID s = k" "asked a s" and st: "stopSession io now reason l e = (err, e')"
  shows "\<exists>v\<in>set (ex_db e'). xs_ID v = k \<and> asked a v"
proof -
  have "list_all2 fixed (ex_db e) (ex_db e')" using stop_pairs[OF inv, of io now reason l] st by simp
  then obtain v where "v \<in> set (ex_db e')" "fixed s v" using s(1) by (metis in_set_conv_nth list_all2_conv_all_nth)
  then show ?thesis using s(2,3) by (auto simp: fixed_def asked_def)
qed

lemma lookup_asked:
  assumes inv: "exInv {} ker e" and eq: "lookupSession dbErr a e = (Inr k, e1)"
  shows "\<exists>s\<in>set (ex_db e). xs_ID s = k \<and> asked a s"
proof (cases "if xq_SessionID a \<noteq> [] then getSession (xq_SessionID a) e else None")
  case (Some r)
  then have r: "getSession k e = Some r" "asked a (rt_session r)" using eq by (auto simp: lookupSession_def asked_def split: if_splits)
  obtain s where s: "s \<in> set (ex_db e)" "fixed s (rt_session r)" using exInvD(2)[OF inv r(1)] by (auto simp: entryInv_def)
  then have "xs_ID s = k" "asked a s" using exInvD(3)[OF inv r(1)] r(2) by (simp_all add: fixed_def asked_def)
  then show ?thesis using s(1) by blast
next
  case None
  then show ?thesis
    using eq by (auto simp: lookupSession_def find_Some_iff asked_def split: option.splits if_splits)
qed

lemma stop_reply:
  assumes inv: "exInv {} ker e" and k: "IDPattern k" "\<not> hasRow k (ex_db e)" and eq: "executorCall io now k ''stop'' a e = (Inr s, e')"
    and rel: "sessionReleased s" and t: "t \<in> set (ex_db e')" "asked a t"
  shows "sessionReleased t"
proof -
  have inv': "exInv {} ker e'" using good_inv[OF good_call[OF inv k, of "''stop''" a io now]] eq by simp
  have pair: "u = t" if "u \<in> set (ex_db e')" "asked a u" for u
    using distinct_row[OF rowsInvD(1)[OF memInvD(1)[OF inv']] that(1) t(1)] rowsInvD(5)[OF memInvD(1)[OF inv'] that(1) t(1)] that(2) t(2)
    by (simp add: asked_def samePair_def)
  obtain res e1 where l: "lookupSession (cl_lookup io) a e = (res, e1)" by fastforce
  show ?thesis
  proof (cases res)
    case (Inl err)
    have "sealJob (cl_seal io) now k a e1 = (Inr s, e')" using eq l Inl by (auto simp: executorCall_def split: if_splits)
    moreover have "e1 = e" using l by (cases rule: lookup_cases) (use Inl in simp_all)
    ultimately have "s = sealedSession now k a e" "s \<in> set (ex_db e')"
      using k(2) by (auto simp: sealJob_def Let_def saveSession_def sealedSession_facts(3) hasRow_def[symmetric] split: option.splits if_splits prod.splits)
    then show ?thesis using pair[of s] rel by (simp add: asked_def sealedSession_def)
  next
    case (Inr kk)
    note g = good_lookup[OF inv l]
    have rows: "ex_db e1 = ex_db e" using l by (cases rule: lookup_cases) simp_all
    obtain s0 where s0: "s0 \<in> set (ex_db e)" "xs_ID s0 = kk" "asked a s0" using lookup_asked[OF inv l[unfolded Inr]] by blast
    have st: "stopSession (cl_stop io) now (xq_Reason a) kk e1 = (None, e')" "currentSession kk e' = Inr s"
      using eq l Inr by (auto simp: executorCall_def knownCall_def split: if_splits option.splits prod.splits)
    then obtain r where r: "getSession kk e' = Some r" "rt_session r = s" by (auto simp: currentSession_def split: option.splits)
    have ids: "map xs_ID (ex_db e') = map xs_ID (ex_db e1)" using stop_rows[OF good_inv[OF g], of "cl_stop io" now "xq_Reason a" kk] st(1) by simp
    obtain u where u: "u \<in> set (ex_db e')" "fixed u s" using exInvD(2)[OF inv' r(1)] r(2) by (auto simp: entryInv_def)
    have uk: "xs_ID u = kk" using u(2) exInvD(3)[OF inv' r(1)] r(2) by (simp add: fixed_def)
    have "sessionReleased u" using exInvD(2)[OF inv' r(1)] r(2) rel u(1) uk by (auto simp: entryInv_def)
    moreover have "asked a u"
    proof -
      have gs: "good {} ker e1 e'" using good_stop[OF good_inv[OF g] st(1)] .
      have "\<exists>v\<in>set (ex_db e'). xs_ID v = kk \<and> asked a v" by (rule stop_asked[OF good_inv[OF g] _ s0(2,3) st(1)]) (use s0(1) rows in simp)
      then obtain v where v: "v \<in> set (ex_db e')" "xs_ID v = kk" "asked a v" by blast
      have "v = u" using distinct_row[OF rowsInvD(1)[OF memInvD(1)[OF inv']] v(1) u(1)] v(2) uk by simp
      then show ?thesis using v(3) by simp
    qed
    ultimately show ?thesis using pair[OF u(1)] by simp
  qed
qed

end
