(* ===== verification/ExecSystem.thy ===== *)
theory ExecSystem
  imports ExecCalls
begin

text \<open>
  The executor with the kernel: recovery, the invariant of every reachable state, and what receipts of the executor mean.
\<close>

section \<open>Recovery\<close>

lemma putSession_twice: "putSession k r' (putSession k r e) = putSession k r' e"
proof -
  have "map (\<lambda>(a, v). if a = k then (a, r') else (a, v)) xs = xs" if "k \<notin> fst ` set xs" for xs
    using that by (induction xs) auto
  moreover have "map (\<lambda>(a, v). if a = k then (a, r') else (a, v)) (map (\<lambda>(a, v). if a = k then (a, r) else (a, v)) xs) =
      map (\<lambda>(a, v). if a = k then (a, r') else (a, v)) xs" for xs
    by (induction xs) auto
  moreover have "putSession k r' (putSession k r e) =
      (putSession k r e)\<lparr>ex_sessions := map (\<lambda>(a, v). if a = k then (a, r') else (a, v)) (ex_sessions (putSession k r e))\<rparr>"
    by (subst putSession_def) simp
  ultimately show ?thesis using getSession_None[of k e] by (simp add: putSession_def del: map_map)
qed

lemma putBoth_over: "putBoth k (r', rows) (putSession k r e) = putBoth k (r', rows) e"
  by (simp add: putBoth_def putSession_twice)

lemma putSession_both: "putSession k r e = putBoth k (r, ex_db e) e"
  by (simp add: putBoth_def putSession_def)

lemma released_owned: "released io now c (r, rows) = (err, r', rows') \<Longrightarrow> \<not> owned (rt_session r')"
  by (auto simp: released_def block_def Let_def releasedSession_facts blocked_facts split: option.splits prod.splits)

text \<open>A stored session, before its recovery.\<close>

definition waiting :: "kernel \<Rightarrow> Executor \<Rightarrow> ExecSession \<Rightarrow> bool" where
  "waiting ker e s \<longleftrightarrow> rowsInv (ex_boot e) ker (ex_db e) \<and> ex_sessions e = [] \<and> s \<in> set (ex_db e) \<and> \<not> sessionReleased s"

lemma waiting_atWork:
  assumes "waiting ker e s"
  shows "atWork (newRuntime s) (ex_db e)" "memInv UNIV e"
proof -
  note w = assms[unfolded waiting_def]
  have r: "rowsInv (ex_boot e) ker (ex_db e)" "s \<in> set (ex_db e)" "\<not> sessionReleased s" using w by auto
  have "t = s" if "t \<in> set (ex_db e)" "xs_ID t = xs_ID s" for t by (rule distinct_row[OF rowsInvD(1)[OF r(1)] that(1) r(2) that(2)])
  moreover have "hasRow (xs_ID s) (ex_db e)" using r(2) unfolding hasRow_iff by blast
  ultimately have "fixed t s \<and> \<not> sessionReleased t \<and> sane t" if "t \<in> set (ex_db e)" "xs_ID t = xs_ID s" for t
    using that r(3) rowsInvD(3)[OF r(1,2)] fixed_refl by metis
  then show "atWork (newRuntime s) (ex_db e)" using r(3) rowsInvD(3)[OF r(1,2)] \<open>hasRow (xs_ID s) (ex_db e)\<close> unfolding atWork_def by simp
  show "memInv UNIV e" using w by (simp add: memInv_def getSession_def)
qed

text \<open>Recovery of a session changes no other row.\<close>

definition restored :: "kernel \<Rightarrow> Executor \<Rightarrow> ExecSession \<Rightarrow> Executor \<Rightarrow> bool" where
  "restored ker e s e' \<longleftrightarrow> good (UNIV - {xs_ID s}) ker e e' \<and> map xs_ID (ex_db e') = map xs_ID (ex_db e)"

lemma good_enter:
  assumes w: "waiting ker e s" and sec: "sectionOK ker (newRuntime s, ex_db e) (r', rows')"
    and boot: "owned (rt_session r') \<Longrightarrow> xs_BootID s = ex_boot e"
  shows "restored ker e s (putBoth (xs_ID s) (r', rows') e)"
proof -
  have s: "rowsInv (ex_boot e) ker (ex_db e)" "s \<in> set (ex_db e)" "fixed s (rt_session (newRuntime s))" "\<not> sessionReleased s"
    using w by (auto simp: waiting_def)
  have "exInv (UNIV - {xs_ID s}) ker (putBoth (xs_ID s) (r', rows') e)"
    by (rule inv_entered[OF section_rows[OF s(1) sec s(2,3,4)] waiting_atWork(2)[OF w] _ section_entry[OF sec _ s(2,3)]])
      (use sectionOK_D(5)[OF sec] boot in simp_all)
  moreover have "keeps nothing (ex_db e) rows'" using section_keeps[OF waiting_atWork(1)[OF w]] sectionOK_D(5)[OF sec] by simp
  ultimately show ?thesis using rowRel_IDs[OF sectionOK_D(5)[OF sec]] by (simp add: goodBut_def restored_def)
qed

lemma good_recover:
  assumes w: "waiting ker e s" and open_: "honestOpen ker (xs_Group s) opened" and eq: "recoverSession io now opened s e = (err, e')"
  shows "restored ker e s e'"
proof -
  let ?k = "xs_ID s" and ?r = "newRuntime s"
  note a = waiting_atWork(1)[OF w]
  have blocking: "restored ker e s (putBoth ?k (block (sv_block io) now c m (?r, ex_db e)) (putSession ?k ?r e))" for c m
  proof (cases "block (sv_block io) now c m (?r, ex_db e)")
    case (Pair r' rows')
    have "restored ker e s (putBoth ?k (r', rows') e)"
      by (rule good_enter[OF w block_section(1)[OF a _ Pair]]) (use block_section(3)[OF a _ Pair] in simp_all)
    then show ?thesis using Pair by (simp add: putBoth_over)
  qed
  have releasing: "restored ker e s (snd (case released io now c (?r, ex_db e) of (er, x) \<Rightarrow> (er, putBoth ?k x (putSession ?k ?r e))))"
    if live: "noLive ker (xs_Group s)" for c
  proof (cases "released io now c (?r, ex_db e)")
    case (fields er r' rows')
    note rs = released_section[OF a _ _ fields]
    have "sectionOK ker (?r, ex_db e) (r', rows')"
    proof (cases er)
      case None
      have "r'\<lparr>rt_group := rt_group r', rt_monitoring := False\<rparr> = r'" using rs(2)[OF _ _ None] live by simp
      then show ?thesis using rs(1)[OF _ _ None, where g = "rt_group r'"] live by simp
    qed (use rs(3) live in simp)
    from good_enter[OF w this] show ?thesis using released_owned[OF fields] fields by (simp add: putBoth_over)
  qed
  have rows: "rowsInv (ex_boot e) ker (ex_db e)" "s \<in> set (ex_db e)" "\<not> sessionReleased s" using w by (auto simp: waiting_def)
  have host: "noLive ker (xs_Group s)" if b: "xs_BootID s \<noteq> ex_boot e"
  proof (rule ccontr)
    assume "\<not> noLive ker (xs_Group s)"
    then obtain t where t: "t \<in> set (ex_db e)" "\<not> sessionReleased t" "xs_BootID t = ex_boot e" using rowsInvD(6)[OF rows(1)] by blast
    have "t = s" by (rule distinct_row[OF rowsInvD(1)[OF rows(1)] t(1) rows(2) rowsInvD(4)[OF rows(1) t(1) rows(2) t(2) rows(3)]])
    then show False using b t(3) by simp
  qed
  have gone: "noLive ker (xs_Group s)" if "opened = Inl er" "isNotExist er" for er
    using open_ that by (simp add: honestOpen_def noLive_def)
  have entered: "restored ker e s (putSession ?k (?r\<lparr>rt_group := g\<rparr>) e)" if "xs_BootID s = ex_boot e" for g
    unfolding putSession_both by (rule good_enter[OF w section_same[OF a]]) (use that in \<open>simp_all add: observable_def newRuntime_def\<close>)
  have stopped: "restored ker e s (snd (stopSession io now ''executor_restarted'' ?k (putSession ?k (?r\<lparr>rt_group := g\<rparr>) e)))"
    if "xs_BootID s = ex_boot e" for g
  proof -
    have g: "good (UNIV - {?k}) ker e (putSession ?k (?r\<lparr>rt_group := g\<rparr>) e)" using entered[OF that] by (simp add: restored_def)
    show ?thesis
      using good_trans[OF g good_stop_snd[OF good_inv[OF g]]] stop_rows[OF good_inv[OF g]] by (simp add: restored_def)
  qed
  have e': "e' = snd (recoverSession io now opened s e)" using eq by simp
  show ?thesis
  proof (cases opened)
    case (Inl er)
    show ?thesis unfolding e' recoverSession_def Let_def Inl sum.case
      using blocking releasing[OF host] releasing[OF gone[OF Inl]] by simp
  next
    case (Inr inode)
    show ?thesis unfolding e' recoverSession_def Let_def Inr sum.case
      using blocking releasing[OF host] stopped by simp
  qed
qed

lemma exInv_done: "exInv todo ker e \<Longrightarrow> (\<And>s. s \<in> set (ex_db e) \<Longrightarrow> \<not> sessionReleased s \<Longrightarrow> xs_ID s \<notin> todo) \<Longrightarrow> exInv {} ker e"
  unfolding exInv_def memInv_def by auto

text \<open>There is at most one session to recover.\<close>

lemma one_waiting:
  assumes inv: "rowsInv boot ker rows"
  shows "filter (\<lambda>s. nr_State (xs_Resources s) \<noteq> ''released'') rows = [] \<or>
    (\<exists>s\<in>set rows. \<not> sessionReleased s \<and> filter (\<lambda>s. nr_State (xs_Resources s) \<noteq> ''released'') rows = [s])"
proof -
  let ?f = "filter (\<lambda>s. nr_State (xs_Resources s) \<noteq> ''released'') rows"
  have un: "\<not> sessionReleased s \<and> s \<in> set rows" if "s \<in> set ?f" for s
    using that rowsInvD(3)[OF inv] by (auto simp: released_states sane_def)
  have d: "distinct (map xs_ID ?f)" using rowsInvD(1)[OF inv] by (simp add: distinct_map_filter)
  have eq: "xs_ID s = xs_ID t" if "s \<in> set ?f" "t \<in> set ?f" for s t using rowsInvD(4)[OF inv] un[OF that(1)] un[OF that(2)] by blast
  show ?thesis
  proof (cases ?f)
    case (Cons s ss)
    have "ss = []"
    proof (cases ss)
      case (Cons t ts)
      then have "xs_ID s = xs_ID t" using eq[of s t] \<open>?f = s # ss\<close> by simp
      then show ?thesis using d \<open>?f = s # ss\<close> Cons by simp
    qed simp
    then show ?thesis using un[of s] Cons by auto
  qed simp
qed

lemma good_recoverExecutor:
  assumes rows: "rowsInv (ex_boot e) ker (ex_db e)" and empty: "ex_sessions e = []" and open_: "\<And>p. honestOpen ker p (opened p)"
    and eq: "recoverExecutor io now opened e = (err, e')"
  shows "rowsInv (ex_boot e') ker (ex_db e')" "keeps nothing (ex_db e) (ex_db e')" "err = None \<Longrightarrow> exInv {} ker e'"
proof -
  have "good {} ker e e'"
    using one_waiting[OF rows]
  proof
    assume none: "filter (\<lambda>s. nr_State (xs_Resources s) \<noteq> ''released'') (ex_db e) = []"
    have rel: "sessionReleased s" if "s \<in> set (ex_db e)" for s
      using none that rowsInvD(3)[OF rows that] by (simp add: filter_empty_conv released_states)
    have "exInv {} ker e"
      by (rule exInvI[OF rows]) (use empty rel in \<open>simp_all add: getSession_def\<close>)
    moreover have "e' = e" using eq none by (simp add: recoverExecutor_def)
    ultimately show ?thesis by (simp add: good_refl)
  next
    assume "\<exists>s\<in>set (ex_db e). \<not> sessionReleased s \<and> filter (\<lambda>s. nr_State (xs_Resources s) \<noteq> ''released'') (ex_db e) = [s]"
    then obtain s where s: "s \<in> set (ex_db e)" "\<not> sessionReleased s" "filter (\<lambda>s. nr_State (xs_Resources s) \<noteq> ''released'') (ex_db e) = [s]" by blast
    have w: "waiting ker e s" using rows empty s by (simp add: waiting_def)
    obtain er e1 where r: "recoverSession (io (xs_ID s)) now (opened (xs_Group s)) s e = (er, e1)" by fastforce
    have "e' = e1" using eq r s(3) by (auto simp: recoverExecutor_def split: option.splits)
    then have rec: "restored ker e s e'" using good_recover[OF w open_ r] by simp
    then have g: "good (UNIV - {xs_ID s}) ker e e'" and ids: "map xs_ID (ex_db e') = map xs_ID (ex_db e)" by (simp_all add: restored_def)
    have "exInv {} ker e'"
    proof (rule exInv_done[OF good_inv[OF g]])
      fix t assume t: "t \<in> set (ex_db e')" "\<not> sessionReleased t"
      have "xs_ID t \<in> set (map xs_ID (ex_db e))" using t(1) ids[symmetric] by simp
      then obtain u where u: "u \<in> set (ex_db e)" "xs_ID u = xs_ID t" by auto
      have "\<not> sessionReleased u"
      proof
        assume rel: "sessionReleased u"
        then have "u \<in> set (ex_db e')" using g u(1) unfolding goodBut_def keeps_def by blast
        then have "u = t" using distinct_row[OF rowsInvD(1)[OF memInvD(1)[OF good_inv[OF g]]] _ t(1) u(2)] by blast
        then show False using rel t(2) by simp
      qed
      then have "xs_ID u = xs_ID s" using rowsInvD(4)[OF rows u(1) s(1)] s(2) by blast
      then show "xs_ID t \<notin> UNIV - {xs_ID s}" using u(2) by simp
    qed
    then show ?thesis using g by (simp add: goodBut_def)
  qed
  then show "rowsInv (ex_boot e') ker (ex_db e')" "keeps nothing (ex_db e) (ex_db e')" "err = None \<Longrightarrow> exInv {} ker e'"
    using memInvD(1) by (auto simp: goodBut_def)
qed

section \<open>Every step\<close>

text \<open>The invariant of the machine, and that receipts of a released session stay.\<close>

definition executorInv :: "ExSys \<Rightarrow> bool" where
  "executorInv x \<longleftrightarrow> rowsInv (ex_boot (x_ex x)) (x_kernel x) (ex_db (x_ex x)) \<and> (x_up x \<longrightarrow> exInv {} (x_kernel x) (x_ex x))"

definition receiptsKept :: "ExecSession list \<Rightarrow> ExecSession list \<Rightarrow> bool" where
  "receiptsKept rows rows' \<longleftrightarrow> (\<forall>s\<in>set rows. sessionReleased s \<longrightarrow> (\<forall>s'\<in>set rows'. samePair s s' \<longrightarrow> s' = s))"

lemma pair_unique: "rowsInv boot ker rows \<Longrightarrow> s \<in> set rows \<Longrightarrow> t \<in> set rows \<Longrightarrow> samePair s t \<Longrightarrow> t = s"
  by (rule distinct_row[OF rowsInvD(1), THEN sym]) (auto intro: rowsInvD(5))

lemma keeps_receipts:
  assumes "keeps P rows rows'" "rowsInv boot ker rows'"
  shows "receiptsKept rows rows'"
  unfolding receiptsKept_def using assms(1) pair_unique[OF assms(2)] unfolding keeps_def by blast

lemma same_receipts: "rowsInv boot ker rows \<Longrightarrow> receiptsKept rows rows"
  by (rule keeps_receipts[OF keeps_refl])

lemma rowsInv_kernel:
  assumes inv: "rowsInv boot ker rows"
    and live: "\<And>p. \<not> noLive ker' p \<Longrightarrow> \<not> noLive ker p \<or> (\<exists>s\<in>set rows. xs_Group s = p \<and> \<not> sessionReleased s \<and> xs_BootID s = boot')"
    and boot: "boot' = boot \<or> (\<forall>p. noLive ker' p)"
  shows "rowsInv boot' ker' rows"
proof (rule rowsInvI)
  note i = rowsInvD[OF inv]
  show "distinct (map xs_ID rows)" by (rule i(1))
  show "placed s" "sane s" if "s \<in> set rows" for s using that i(2,3) by auto
  show "xs_ID s = xs_ID t" if "s \<in> set rows" "t \<in> set rows" "\<not> sessionReleased s" "\<not> sessionReleased t" for s t by (rule i(4)[OF that])
  show "xs_ID s = xs_ID t" if "s \<in> set rows" "t \<in> set rows" "samePair s t" for s t by (rule i(5)[OF that])
  show "\<exists>s\<in>set rows. xs_Group s = p \<and> \<not> sessionReleased s \<and> xs_BootID s = boot'" if "\<not> noLive ker' p" for p
    using live[OF that] i(6)[of p] boot that by blast
qed

lemma executorInv_kernel:
  assumes inv: "executorInv x" and live: "\<And>p. \<not> noLive ker' p \<Longrightarrow> \<not> noLive (x_kernel x) p"
  shows "executorInv (x\<lparr>x_kernel := ker'\<rparr>)"
proof -
  have r: "rowsInv (ex_boot (x_ex x)) ker' (ex_db (x_ex x))"
    by (rule rowsInv_kernel[of "ex_boot (x_ex x)" "x_kernel x"]) (use inv live in \<open>auto simp: executorInv_def\<close>)
  then show ?thesis using inv by (simp add: executorInv_def exInv_def)
qed

lemma executorInv_rows: "executorInv x \<Longrightarrow> rowsInv (ex_boot (x_ex x)) (x_kernel x) (ex_db (x_ex x))"
  by (simp add: executorInv_def)

lemma executorInv_up: "executorInv x \<Longrightarrow> x_up x \<Longrightarrow> exInv {} (x_kernel x) (x_ex x)"
  by (simp add: executorInv_def)

definition stepOK :: "(ExecSession \<Rightarrow> bool) \<Rightarrow> ExSys \<Rightarrow> ExSys \<Rightarrow> bool" where
  "stepOK P x y \<longleftrightarrow> executorInv y \<and> receiptsKept (ex_db (x_ex x)) (ex_db (x_ex y)) \<and> grown P (ex_db (x_ex x)) (ex_db (x_ex y))"

lemma step_good:
  assumes "goodBut P {} (x_kernel x) (x_ex x) e"
  shows "stepOK P x (x\<lparr>x_ex := e\<rparr>)"
proof -
  note g = good_inv[OF assms]
  have "receiptsKept (ex_db (x_ex x)) (ex_db e)" "grown P (ex_db (x_ex x)) (ex_db e)"
    using keeps_receipts[OF conjunct2[OF assms[unfolded goodBut_def]] memInvD(1)[OF g]] assms by (simp_all add: goodBut_def keeps_def)
  then show ?thesis using g memInvD(1)[OF g] by (simp add: stepOK_def executorInv_def)
qed

lemma step_kernel:
  assumes inv: "executorInv x" and live: "\<And>p. \<not> noLive ker' p \<Longrightarrow> \<not> noLive (x_kernel x) p"
  shows "stepOK nothing x (x\<lparr>x_kernel := ker'\<rparr>)"
  using executorInv_kernel[OF assms] same_receipts[OF executorInv_rows[OF inv]] grown_refl by (simp add: stepOK_def)

lemma step_call:
  assumes inv: "executorInv x" and up: "x_up x" and k: "IDPattern k" "\<not> hasRow k (ex_db (x_ex x))"
    and path: "cr_mkdir (cl_create io) = None \<longrightarrow> x_kernel x p = None" and e: "executorCall io now k verb a (x_ex x) = (reply, e)"
  shows "stepOK (\<lambda>s. verb = ''create'' \<and> asked a s) x (x\<lparr>x_ex := e, x_kernel := (if b then kernelAfterCreate (cl_create io) p (x_kernel x) else x_kernel x)\<rparr>)"
proof -
  have g: "stepOK (\<lambda>s. verb = ''create'' \<and> asked a s) x (x\<lparr>x_ex := e\<rparr>)" by (rule step_good) (use good_call[OF executorInv_up[OF inv up] k, of verb a io now] e in simp)
  have "executorInv ((x\<lparr>x_ex := e\<rparr>)\<lparr>x_kernel := (if b then kernelAfterCreate (cl_create io) p (x_kernel x) else x_kernel x)\<rparr>)"
    by (rule executorInv_kernel) (use g in \<open>auto simp: stepOK_def kernelAfterCreate_def noLive_def split: sum.splits if_splits\<close>)
  then show ?thesis using g by (simp add: stepOK_def)
qed

lemma step_daemon:
  assumes inv: "executorInv x" and up: "x_up x" and r: "getSession k (x_ex x) = Some r" "admits r (x_ex x)"
    and ker: "x_kernel x (xs_Group (rt_session r)) = Some (i, n)"
  shows "stepOK nothing x (x\<lparr>x_ex := acceptDaemon io now None k (x_ex x), x_kernel := (x_kernel x)(xs_Group (rt_session r) \<mapsto> (i, Suc n))\<rparr>)"
proof -
  note up' = executorInv_up[OF inv up]
  let ?e = "acceptDaemon io now None k (x_ex x)" and ?ker = "(x_kernel x)(xs_Group (rt_session r) \<mapsto> (i, Suc n))"
  have e: "?e = putSession k (r\<lparr>rt_children := rt_children r + 1\<rparr>) (x_ex x)" using r by (simp add: acceptDaemon_def)
  have own: "owned (rt_session r)" using r(2) by (simp add: admits_def owned_def)
  then have un: "\<not> sessionReleased (rt_session r)" by (simp add: owned_def released_states)
  obtain s where s: "s \<in> set (ex_db (x_ex x))" "fixed s (rt_session r)" "\<not> sessionReleased s" using exInv_row[OF up' r(1) un] by blast
  have "xs_BootID (rt_session r) = ex_boot (x_ex x)" using exInvD(2)[OF up' r(1)] own by (simp add: entryInv_def)
  then have s': "xs_Group s = xs_Group (rt_session r)" "xs_BootID s = ex_boot (x_ex x)" using s(2) by (simp_all add: fixed_def)
  have rows: "rowsInv (ex_boot (x_ex x)) ?ker (ex_db (x_ex x))"
  proof (rule rowsInv_kernel[OF executorInv_rows[OF inv]])
    fix p assume p: "\<not> noLive ?ker p"
    show "\<not> noLive (x_kernel x) p \<or> (\<exists>s\<in>set (ex_db (x_ex x)). xs_Group s = p \<and> \<not> sessionReleased s \<and> xs_BootID s = ex_boot (x_ex x))"
    proof (cases "p = xs_Group (rt_session r)")
      case True then show ?thesis using s s' by blast
    next
      case False then show ?thesis using p by (simp add: noLive_def)
    qed
  qed simp
  have g: "good {} (x_kernel x) (x_ex x) ?e" by (rule good_accept[OF up'])
  have "exInv {} ?ker ?e" using good_inv[OF g] rows unfolding exInv_def e by simp
  then show ?thesis using rows same_receipts[OF rows] grown_refl by (simp add: stepOK_def executorInv_def e)
qed

lemma step_tick:
  assumes inv: "executorInv x" and up: "x_up x"
  shows "stepOK nothing x (x\<lparr>x_ex := deadlines ios fmt err b now (x_ex x)\<rparr>)"
proof -
  note g = good_stopExpired[OF executorInv_up[OF inv up], of ios now]
  let ?e = "stopExpired ios now (x_ex x)"
  have i: "exInv {} (x_kernel x) (deadlines ios fmt err b now (x_ex x))"
    using good_inv[OF g] retention_inv by (simp add: deadlines_def Let_def)
  have k: "receiptsKept (ex_db (x_ex x)) (ex_db ?e)" "grown nothing (ex_db (x_ex x)) (ex_db ?e)"
    using keeps_receipts[OF conjunct2[OF g[unfolded goodBut_def]] memInvD(1)[OF good_inv[OF g]]] g by (simp_all add: goodBut_def keeps_def)
  have "grown nothing (ex_db ?e) (ex_db (deadlines ios fmt err b now (x_ex x)))"
    by (rule grown_subset) (auto simp: deadlines_def Let_def retention_def dest: dropReceipts_row split: if_splits)
  then have gr: "grown nothing (ex_db (x_ex x)) (ex_db (deadlines ios fmt err b now (x_ex x)))" by (rule grown_after[OF k(2)])
  from k(1) have "receiptsKept (ex_db (x_ex x)) (ex_db (deadlines ios fmt err b now (x_ex x)))"
    by (auto simp: deadlines_def Let_def receiptsKept_def retention_def dest: dropReceipts_row)
  then show ?thesis using i memInvD(1)[OF i] gr by (simp add: stepOK_def executorInv_def)
qed

lemma step_start:
  assumes inv: "executorInv x" and open_: "\<And>p. honestOpen (x_kernel x) p (opened p)"
    and e: "recoverExecutor io now opened ((x_ex x)\<lparr>ex_invocation := invocation, ex_groups := groups, ex_cfg := cfg, ex_sessions := [], ex_closing := False\<rparr>) = (err, e)"
  shows "stepOK nothing x (x\<lparr>x_up := (err = None), x_ex := e\<rparr>)"
proof -
  let ?e = "(x_ex x)\<lparr>ex_invocation := invocation, ex_groups := groups, ex_cfg := cfg, ex_sessions := [], ex_closing := False\<rparr>"
  have "rowsInv (ex_boot ?e) (x_kernel x) (ex_db ?e)" "ex_sessions ?e = []" using executorInv_rows[OF inv] by simp_all
  note g = good_recoverExecutor[OF this open_ e]
  show ?thesis using g keeps_receipts[OF g(2,1)] by (simp add: stepOK_def executorInv_def keeps_def)
qed

lemma executor_own:
  assumes step: "exOwn x y" and inv: "executorInv x"
  shows "stepOK nothing x y"
  using step
proof cases
  case (fork p i n) show ?thesis unfolding fork(1) by (rule step_kernel[OF inv]) (use fork(2) in \<open>auto simp: noLive_def split: if_splits\<close>)
next
  case (exits p i n) show ?thesis unfolding exits(1) by (rule step_kernel[OF inv]) (use exits(2) in \<open>auto simp: noLive_def split: if_splits\<close>)
next
  case (rmdir p i) show ?thesis unfolding rmdir(1) by (rule step_kernel[OF inv]) (auto simp: noLive_def split: if_splits)
next
  case crash then show ?thesis using executorInv_rows[OF inv] same_receipts[OF executorInv_rows[OF inv]] grown_refl by (simp add: stepOK_def executorInv_def)
next
  case (reboot boot)
  have "rowsInv boot (\<lambda>_. None) (ex_db (x_ex x))" by (rule rowsInv_kernel[OF executorInv_rows[OF inv]]) (simp_all add: noLive_def)
  then show ?thesis using reboot same_receipts[OF executorInv_rows[OF inv]] grown_refl by (simp add: stepOK_def executorInv_def)
next
  case start show ?thesis unfolding start(1) by (rule step_start[OF inv start(3,4)])
next
  case refuse show ?thesis unfolding refuse(1) by (rule step_good[OF good_accept[OF executorInv_up[OF inv refuse(2)]]])
next
  case daemonFails show ?thesis unfolding daemonFails(1) by (rule step_good[OF good_accept[OF executorInv_up[OF inv daemonFails(2)]]])
next
  case daemonStarts show ?thesis unfolding daemonStarts(1) by (rule step_daemon[OF inv daemonStarts(2,3,5,6)])
next
  case daemonEnds show ?thesis unfolding daemonEnds(1) by (rule step_good[OF good_exit[OF executorInv_up[OF inv daemonEnds(2)]]])
next
  case observe show ?thesis unfolding observe(1) by (rule step_good[OF good_observe[OF executorInv_up[OF inv observe(2)] observe(3-6)]])
next
  case tick show ?thesis unfolding tick(1) by (rule step_tick[OF inv tick(2)])
next
  case shut show ?thesis unfolding shut(1) by (rule step_good[OF good_shutdown[OF executorInv_up[OF inv shut(2)]]])
qed

lemma executor_call:
  assumes step: "exCall x verb a reply y" and inv: "executorInv x"
  shows "stepOK (\<lambda>s. verb = ''create'' \<and> asked a s) x y"
  using step
proof cases
  case exCallI show ?thesis unfolding exCallI(1) by (rule step_call[OF inv exCallI(2,3,4,6,7)])
qed

lemma executor_step:
  assumes "exStep x y" "executorInv x"
  shows "executorInv y \<and> receiptsKept (ex_db (x_ex x)) (ex_db (x_ex y))"
  using assms executor_own executor_call by cases (auto simp: stepOK_def)

interpretation executor: invariant_system exStart exStep executorInv
proof
  show "executorInv s" if "exStart s" for s
    using that by (auto simp: exStart_def executorInv_def rowsInv_def noLive_def)
  show "executorInv t" if "executorInv s" "exStep s t" for s t
    using executor_step[OF that(2,1)] by simp
qed

lemma groupPath_ID:
  assumes "groupPath g a = groupPath h b" "IDPattern a" "IDPattern b"
  shows "a = b"
proof -
  have "drop (length (groupPath g a) - 32) (groupPath g a) = a" "drop (length (groupPath h b) - 32) (groupPath h b) = b"
    using assms(2,3) by (simp_all add: groupPath_def IDPattern_def)
  then show ?thesis using assms(1) by simp
qed

lemma session_live:
  assumes inv: "executorInv x" and s: "s \<in> set (ex_db (x_ex x))" and live: "\<not> noLive (x_kernel x) (xs_Group s)"
  shows "\<not> sessionReleased s"
proof -
  note d = rowsInvD[OF executorInv_rows[OF inv]]
  obtain t where t: "t \<in> set (ex_db (x_ex x))" "xs_Group t = xs_Group s" "\<not> sessionReleased t" using d(6)[OF live] by blast
  obtain g where g: "xs_Group t = groupPath g (xs_ID t)" "IDPattern (xs_ID t)" using d(2)[OF t(1)] t(3) by (auto simp: placed_def)
  obtain h where h: "xs_Group s = groupPath h (xs_ID s)" "IDPattern (xs_ID s)"
    using d(2)[OF s] t(2) g by (auto simp: placed_def groupPath_def)
  have "t = s" by (rule distinct_row[OF d(1) t(1) s]) (use groupPath_ID[of g "xs_ID t" h "xs_ID s"] g h t(2) in simp)
  then show ?thesis using t(3) by simp
qed

section \<open>What a receipt means\<close>

text \<open>
  C7. A process runs in a control group of the machine only while the session of that group is unreleased, and it is then
  the only unreleased session; a session whose receipt says released has no process left, whatever was interrupted.
\<close>

theorem released_session_empty:
  assumes "reach exStart exStep x" "s \<in> set (ex_db (x_ex x))" "x_kernel x (xs_Group s) = Some (i, n)" "0 < n"
  shows "\<not> sessionReleased s \<and> (\<forall>t\<in>set (ex_db (x_ex x)). \<not> sessionReleased t \<longrightarrow> t = s)"
proof -
  note inv = executor.reach_inv[OF assms(1)]
  note d = rowsInvD[OF executorInv_rows[OF inv]]
  have "\<not> noLive (x_kernel x) (xs_Group s)" using assms(3,4) by (auto simp: noLive_def)
  then have s: "\<not> sessionReleased s" by (rule session_live[OF inv assms(2)])
  moreover have "u = s" if "u \<in> set (ex_db (x_ex x))" "\<not> sessionReleased u" for u
    by (rule distinct_row[OF d(1) that(1) assms(2) d(4)[OF that(1) assms(2) that(2) s]])
  ultimately show ?thesis by blast
qed

text \<open>
  C8. A receipt is final: whatever happens next, no step replaces the released session of a job by another one.
\<close>

theorem receipt_final:
  assumes "reach exStart exStep x" "exStep x y" "s \<in> set (ex_db (x_ex x))" "sessionReleased s" "s' \<in> set (ex_db (x_ex y))" "samePair s s'"
  shows "s' = s"
  using executor_step[OF assms(2) executor.reach_inv[OF assms(1)]] assms(3-6) by (simp add: receiptsKept_def)


section \<open>A run\<close>

definition runID :: string where "runID = replicate 32 CHR ''a''"
definition runSave :: save_io where "runSave = \<lparr>sv_first = None, sv_block = None\<rparr>"
definition runCall :: call_io where
  "runCall = \<lparr>cl_lookup = None, cl_seal = None, cl_create = \<lparr>cr_save1 = None, cr_mkdir = None, cr_open = Inr 7, cr_save2 = None, cr_listen = None,
     cr_socket = None, cr_fail = runSave\<rparr>, cl_stop = runSave, cl_extend = None\<rparr>"
definition runRequest :: ExecRequest where
  "runRequest = \<lparr>xq_WorkerInstance = runID, xq_TaskID = runID, xq_SessionID = [], xq_Deadline = Some 10, xq_Reason = []\<rparr>"
definition runExecutor :: Executor where
  "runExecutor = \<lparr>ex_cfg = \<lparr>xc_StopGrace = 1, xc_ReleaseTimeout = 2, xc_SocketDir = ''/run''\<rparr>, ex_instance = ''x'', ex_db = [], ex_groups = ''/g'',
     ex_boot = ''b'', ex_invocation = ''i'', ex_sessions = [], ex_closing = False\<rparr>"
definition runCreated :: Executor where "runCreated = snd (executorCall runCall 5 runID ''create'' runRequest runExecutor)"
definition runSession :: runtimeSession where
  "runSession = \<lparr>rt_killAttempted = False, rt_session = (openedSession 5 runID 10 runRequest runExecutor)\<lparr>xs_GroupInode := 7\<rparr>,
     rt_group = Some 7, rt_listener = True, rt_children = 0, rt_monitoring = False\<rparr>"
definition runServing :: Executor where "runServing = acceptDaemon runSave 6 None runID runCreated"
definition runStopping :: Executor where "runStopping = deadlines (\<lambda>_. runSave) (\<lambda>_. []) None False 11 runServing"

lemma runID_ok: "IDPattern runID" by code_simp

lemma runCreated_eq: "runCreated = runExecutor\<lparr>ex_sessions := [(runID, runSession)], ex_db := [rt_session runSession]\<rparr>"
  by code_simp

definition runObserve :: observe_io where
  "runObserve = \<lparr>ob_events = Inr (''populated 0'' @ [CHR 0x0A] @ ''frozen 0''), ob_kill = None, ob_save = runSave, ob_blockSave = None, ob_text = (\<lambda>_. [])\<rparr>"
definition runReleased :: Executor where
  "runReleased = (case observeSession runObserve 12 runID runStopping of Some e \<Rightarrow> e | None \<Rightarrow> runStopping)"
definition runState :: "Executor \<Rightarrow> (nat \<times> nat) option \<Rightarrow> ExSys" where
  "runState e g = \<lparr>x_up = True, x_ex = e, x_kernel = (\<lambda>_. None)(groupPath ''/g'' runID := g)\<rparr>"

lemma run_started: "reach exStart exStep (runState runExecutor None)"
proof -
  let ?x = "\<lparr>x_up = False, x_ex = runExecutor, x_kernel = (\<lambda>_. None)\<rparr>"
  have r: "recoverExecutor (\<lambda>_. runSave) 0 (\<lambda>_. Inl (EErrno 2 [])) ((x_ex ?x)\<lparr>ex_invocation := ''i'', ex_groups := ''/g'', ex_cfg := ex_cfg runExecutor,
      ex_sessions := [], ex_closing := False\<rparr>) = (None, runExecutor)" by code_simp
  have "exStep ?x (?x\<lparr>x_up := (None = (None :: goerr option)), x_ex := runExecutor\<rparr>)"
    by (rule exStep.own, rule exOwn.start[OF _ _ r]) (simp_all add: honestOpen_def)
  moreover have "exStart ?x" by (simp add: exStart_def runExecutor_def)
  ultimately show ?thesis using reach_trans[OF reach_start[of exStart ?x exStep]] by (simp add: runState_def fun_upd_idem)
qed

lemma run_call: "executorCall runCall 5 runID ''create'' runRequest runExecutor = (Inr (rt_session runSession), runCreated)"
  unfolding runCreated_eq by code_simp

lemma run_creates: "creates ''create'' runRequest runCall runID 5 runExecutor"
  by code_simp

lemma run_createCall: "exCall (runState runExecutor None) ''create'' runRequest (Inr (rt_session runSession)) (runState runCreated (Some (7, 0)))"
proof -
  have "exCall (runState runExecutor None) ''create'' runRequest (Inr (rt_session runSession)) ((runState runExecutor None)\<lparr>x_ex := runCreated, x_kernel :=
      (if creates ''create'' runRequest runCall runID 5 (x_ex (runState runExecutor None))
       then kernelAfterCreate (cl_create runCall) (groupPath (ex_groups (x_ex (runState runExecutor None))) runID) (x_kernel (runState runExecutor None))
       else x_kernel (runState runExecutor None))\<rparr>)"
    by (rule exCallI) (use runID_ok run_call in \<open>simp_all add: runState_def runExecutor_def getSession_def hasRow_def\<close>)
  moreover have "kernelAfterCreate (cl_create runCall) (groupPath (ex_groups runExecutor) runID) (x_kernel (runState runExecutor None)) =
      (\<lambda>_. None)(groupPath ''/g'' runID \<mapsto> (7, 0))"
    by (simp add: kernelAfterCreate_def runCall_def runState_def) (simp add: runExecutor_def)
  ultimately show ?thesis using run_creates by (simp add: runState_def)
qed

lemma run_created: "reach exStart exStep (runState runCreated (Some (7, 0)))"
  by (rule reach_trans[of exStart exStep, OF run_started exStep.call[OF run_createCall]])

lemma runCreated_session: "getSession runID runCreated = Some runSession"
  by (simp add: runCreated_eq getSession_def)

lemma runSession_facts: "admits runSession runCreated" "rt_listener runSession" "rt_group runSession = Some 7"
  "xs_Group (rt_session runSession) = groupPath ''/g'' runID"
  by (code_simp+)

lemma run_serving: "reach exStart exStep (runState runServing (Some (7, 1)))"
proof -
  have "exStep (runState runCreated (Some (7, 0))) ((runState runCreated (Some (7, 0)))\<lparr>x_ex := acceptDaemon runSave 6 None runID (x_ex (runState runCreated (Some (7, 0)))),
      x_kernel := (x_kernel (runState runCreated (Some (7, 0))))(xs_Group (rt_session runSession) \<mapsto> (7, Suc 0))\<rparr>)"
    by (rule exStep.own[OF exOwn.daemonStarts]) (use runCreated_session runSession_facts in \<open>simp_all add: runState_def\<close>)
  from reach_trans[of exStart exStep, OF run_created this] show ?thesis by (simp add: runState_def runServing_def runSession_facts)
qed

lemma run_stopping: "reach exStart exStep (runState runStopping (Some (7, 0)))"
proof -
  have k: "x_kernel (runState runServing (Some (7, 1))) (groupPath ''/g'' runID) = Some (7, Suc 0)" by (simp add: runState_def)
  from reach_trans[of exStart exStep, OF run_serving exStep.own[OF exOwn.exits[OF k]]] have "reach exStart exStep (runState runServing (Some (7, 0)))" by (simp add: runState_def)
  from reach_trans[of exStart exStep, OF this exStep.own[OF exOwn.tick[of _ "\<lambda>_. runSave" "\<lambda>_. []" None False 11]]] show ?thesis by (simp add: runState_def runStopping_def)
qed

definition runWatched :: runtimeSession where
  "runWatched = stopping (ex_cfg runExecutor) 11 ''deadline'' (runSession\<lparr>rt_children := 1\<rparr>)\<lparr>rt_monitoring := True\<rparr>"

lemma runStopping_session: "getSession runID runStopping = Some runWatched"
  by code_simp

lemma runReleased_eq: "observeSession runObserve 12 runID runStopping = Some runReleased"
  by code_simp

lemma runObserve_live: "ob_live runObserve = Inr False"
  by code_simp

lemma run_released: "reach exStart exStep (runState runReleased (Some (7, 0)))"
proof -
  have w: "rt_monitoring runWatched" "rt_group runWatched = Some 7" "xs_Group (rt_session runWatched) = groupPath ''/g'' runID" by (code_simp+)
  have "exStep (runState runStopping (Some (7, 0))) ((runState runStopping (Some (7, 0)))\<lparr>x_ex := runReleased\<rparr>)"
    by (rule exStep.own[OF exOwn.observe[where io = runObserve and now = 12 and ident = runID and r = runWatched]])
      (use runStopping_session runReleased_eq w in \<open>simp_all add: runState_def honestLive_def runObserve_live\<close>)
  from reach_trans[of exStart exStep, OF run_stopping this] show ?thesis by (simp add: runState_def)
qed

lemma run_rows: "ex_db runServing = [rt_session runSession]" "\<exists>s. ex_db runReleased = [s] \<and> sessionReleased s"
proof -
  show "ex_db runServing = [rt_session runSession]" by code_simp
  have "map sessionReleased (ex_db runReleased) = [True]" by code_simp
  then show "\<exists>s. ex_db runReleased = [s] \<and> sessionReleased s" by (cases "ex_db runReleased") auto
qed

theorem released_session_empty_witness:
  "\<not> sessionReleased (rt_session runSession) \<and> rt_session runSession \<in> set (ex_db runServing)"
  using released_session_empty[OF run_serving, of "rt_session runSession" 7 1] run_rows(1) runSession_facts(4) by (simp add: runState_def)

theorem receipt_final_witness:
  "\<exists>s y. exStep (runState runReleased (Some (7, 0))) y \<and> ex_db runReleased = [s] \<and> sessionReleased s \<and> (\<forall>s'\<in>set (ex_db (x_ex y)). samePair s s' \<longrightarrow> s' = s)"
proof -
  obtain s where s: "ex_db runReleased = [s]" "sessionReleased s" using run_rows(2) by blast
  have "exStep (runState runReleased (Some (7, 0))) ((runState runReleased (Some (7, 0)))\<lparr>x_up := False\<rparr>)" by (rule exStep.own[OF exOwn.crash])
  then show ?thesis using receipt_final[OF run_released _ _ s(2)] s by (auto simp: runState_def)
qed


end
