(* ===== verification/WorkerSystem.thy ===== *)
theory WorkerSystem
  imports WorkerJobs ExecSystem
begin

text \<open>
  The worker over an executor: what the worker relies on is the locale \<open>session_authority\<close>, which the executor's model
  interprets, and what follows for every run of both.
\<close>

section \<open>What the worker relies on\<close>

text \<open>
  \<open>held e i t\<close>: the executor still answers for processes of task \<open>t\<close> of worker \<open>i\<close>.  Only a \<^verbatim>\<open>create\<close> of that task makes it so,
  and a \<^verbatim>\<open>stop\<close> that reports released resources ends it.
\<close>

locale session_authority =
  fixes fine :: "'e \<Rightarrow> bool" and estep :: "'e \<Rightarrow> 'e \<Rightarrow> bool" and ecall :: "'e \<Rightarrow> string \<Rightarrow> ExecRequest \<Rightarrow> ExecSession res \<Rightarrow> 'e \<Rightarrow> bool"
    and held :: "'e \<Rightarrow> string \<Rightarrow> string \<Rightarrow> bool" and begins :: "'e \<Rightarrow> bool"
  assumes begins_fine: "begins e \<Longrightarrow> fine e \<and> \<not> held e i t"
    and step_fine: "fine e \<Longrightarrow> estep e e' \<Longrightarrow> fine e'"
    and step_held: "fine e \<Longrightarrow> estep e e' \<Longrightarrow> held e' i t \<Longrightarrow> held e i t"
    and call_fine: "fine e \<Longrightarrow> ecall e verb a r e' \<Longrightarrow> fine e'"
    and call_held: "fine e \<Longrightarrow> ecall e verb a r e' \<Longrightarrow> held e' i t \<Longrightarrow>
      held e i t \<or> verb = ''create'' \<and> i = xq_WorkerInstance a \<and> t = xq_TaskID a"
    and stop_ends: "fine e \<Longrightarrow> ecall e ''stop'' a (Inr s) e' \<Longrightarrow> NixResources_Released (xs_Resources s) \<Longrightarrow>
      \<not> held e' (xq_WorkerInstance a) (xq_TaskID a)"

text \<open>The invariant of the worker over its executor.\<close>

definition workerInv :: "('e \<Rightarrow> bool) \<Rightarrow> ('e \<Rightarrow> string \<Rightarrow> string \<Rightarrow> bool) \<Rightarrow> 'e WSys \<Rightarrow> bool" where
  "workerInv fine held x \<longleftrightarrow> fine (wx_exec x) \<and>
     (if wx_up x then upOK (wx_boot x) (wx_live x) (held (wx_exec x) (wk_instance (wx_w x))) (wx_w x) (wx_threads x)
      else rowsOK (wx_boot x) (wx_live x) (held (wx_exec x) (wk_instance (wx_w x))) (wk_rows (wx_w x)))"

lemma workerInv_rows: "workerInv fine held x \<Longrightarrow> rowsOK (wx_boot x) (wx_live x) (held (wx_exec x) (wk_instance (wx_w x))) (wk_rows (wx_w x))"
  using upOKD(1) by (auto simp: workerInv_def split: if_splits)

lemma workerInvI:
  assumes "fine (wx_exec y)" "wx_up y" "upOK (wx_boot y) (wx_live y) (held (wx_exec y) (wk_instance (wx_w y))) (wx_w y) (wx_threads y)"
  shows "workerInv fine held y"
  using assms by (simp add: workerInv_def)

lemma workerInv_up:
  assumes "workerInv fine held x" "wx_up x"
  shows "fine (wx_exec x)" "upOK (wx_boot x) (wx_live x) (held (wx_exec x) (wk_instance (wx_w x))) (wx_w x) (wx_threads x)"
  using assms by (simp_all add: workerInv_def)

lemma workerInv_less:
  assumes inv: "workerInv fine held x" and e: "fine e" and sub: "set live' \<subseteq> set (wx_live x)"
    and less: "\<And>t. held e (wk_instance (wx_w x)) t \<Longrightarrow> held (wx_exec x) (wk_instance (wx_w x)) t"
  shows "workerInv fine held (x\<lparr>wx_exec := e, wx_live := live'\<rparr>)"
proof (cases "wx_up x")
  case True
  have "upOK (wx_boot x) live' (held e (wk_instance (wx_w x))) (wx_w x) (wx_threads x)"
    by (rule upOK_mono[OF workerInv_up(2)[OF inv True] sub less])
  then show ?thesis using True e by (simp add: workerInv_def)
next
  case False
  have "rowsOK (wx_boot x) live' (held e (wk_instance (wx_w x))) (wk_rows (wx_w x))"
    by (rule rowsOK_mono[OF workerInv_rows[OF inv] sub less])
  then show ?thesis using False e by (simp add: workerInv_def)
qed

lemma withJob_cases:
  assumes "withJob t f w = Some (a, w')"
  obtains j j' v where "getJob t w = Some j" "f (j, w) = (a, j', v)" "w' = putJob (j', v)"
  using assms by (auto simp: withJob_def split: option.splits prod.splits)

text \<open>Fields a step leaves alone.\<close>

lemma putJob_instance: "wk_instance (putJob jw) = wk_instance (snd jw)"
  by (cases jw) simp

lemma quiet_instance: "quiet boot live H (j, w) (j', w') \<Longrightarrow> wk_instance w' = wk_instance w"
  using secOK_D(3) by (auto simp: quiet_def)

section \<open>Steps of a run\<close>

text \<open>A section of a run, which may move on.\<close>

lemma run_next:
  assumes ok: "upOK boot live H w ths" and th: "TRun t pc \<in> set ths" and j: "getJob t w = Some j" and q: "quiet boot live H (j, w) (j', w')"
    and wait: "\<And>i. (t, i) \<in> set live \<Longrightarrow> False"
    and create: "\<And>a. pc' = PCreate a \<Longrightarrow> xq_WorkerInstance a = wk_instance w \<and> xq_TaskID a = t \<and> intentJ j' \<and> (\<forall>r\<in>set (wk_rows w'). jobID r = t \<longrightarrow> intentJ r)"
  shows "upOK boot live H (putJob (j', w')) (remove1 (TRun t pc) ths @ [TRun t pc'])"
proof -
  note up = inv_quiet[OF ok j q]
  have sec: "secOK boot live H (j, w) (j', w')" "finishedJ j' = finishedJ j" "wk_active w' = wk_active w" using q by (auto simp: quiet_def calm_def)
  have get: "getJob t (putJob (j', w')) = Some j'" using section_memory(3)[OF upOKD(1,2)[OF ok] j sec(1)] by simp
  have x: "t \<noteq> []" "wk_active w = t" "\<not> finishedJ j" using upOKD(4)[OF ok th] j by auto
  have "threadOK boot live H (putJob (j', w')) (TRun t pc')"
    using get x sec wait create quiet_instance[OF q] by auto
  then show ?thesis by (intro inv_replace[OF up th]) auto
qed

lemma sectional_idle:
  assumes ok: "upOK boot live H w ths" and th: "TRun t pc \<in> set ths" and pc: "\<And>st err p. pc \<noteq> PWait st err p"
  shows "(t, i) \<notin> set live"
  using upOKD(4)[OF ok th] pc by auto

lemma wk_run:
  assumes ok: "upOK boot live H w ths" and th: "TRun t pc \<in> set ths" and pc: "sectional pc" and j: "getJob t w = Some j"
    and eq: "runSection io now pc (j, w) = ((pc', started), j', w')"
  shows "upOK boot live H (putJob (j', w')) (remove1 (TRun t pc) ths @ runThread t pc' @ reconcileThread t started) \<and> wk_instance w' = wk_instance w"
proof -
  have jo: "jobOK boot live H j" and id: "jobID j = t" using memOKD(2,3)[OF upOKD(2)[OF ok]] j by blast+
  have nf: "\<not> finishedJ j" using upOKD(4)[OF ok th] j by auto
  have idle: "(t, i) \<notin> set live" for i by (rule sectional_idle[OF ok th]) (use pc in auto)
  have step: "upOK boot live H (putJob (j', w')) (remove1 (TRun t pc) ths @ runThread t pc' @ reconcileThread t started) \<and> wk_instance w' = wk_instance w"
    if q: "quiet boot live H (j, w) (j', w')" and p: "pc' = Some p" "\<not> started" and c: "\<And>a. p \<noteq> PCreate a" for p
    using run_next[OF ok th j q, of p] idle c quiet_instance[OF q] p by (simp add: runThread_def reconcileThread_def)
  have nocreate: "onError e p \<noteq> PCreate a" if "\<And>a. p \<noteq> PCreate a" for e p a using that by (simp add: onError_def)
  show ?thesis
  proof (cases pc)
    case PLog
    show ?thesis by (rule step[where p = "onError (rn_err io) PAdmit"]) (use eq PLog quiet_refl[OF jo] nocreate in \<open>auto simp: runSection_def\<close>)
  next
    case PAdmit
    obtain res j1 w1 where a: "admitBegin (rn_described io) (rn_err io) (j, w) = (res, j1, w1)" by (cases "admitBegin (rn_described io) (rn_err io) (j, w)")
    note q = admitBegin_quiet[OF jo nf a]
    have e: "j' = j1" "w' = w1" "\<not> started" "pc' = Some (case res of Inl e \<Rightarrow> PComplete (Some e) False | Inr a \<Rightarrow> PCreate a)"
      using eq PAdmit a by (auto simp: runSection_def split: sum.splits)
    have "upOK boot live H (putJob (j', w')) (remove1 (TRun t pc) ths @ [TRun t (case res of Inl e \<Rightarrow> PComplete (Some e) False | Inr a \<Rightarrow> PCreate a)])"
      by (rule run_next[OF ok th j]) (use q idle e id in \<open>auto split: sum.splits\<close>)
    then show ?thesis using e quiet_instance[OF q(1)] by (simp add: runThread_def reconcileThread_def)
  next
    case (PAdmitted s)
    obtain err j1 w1 where a: "admitEnd s (rn_err io) (j, w) = (err, j1, w1)" by (cases "admitEnd s (rn_err io) (j, w)")
    show ?thesis by (rule step[where p = "onError err (PClient ''session'')"])
        (use eq PAdmitted a admitEnd_quiet[OF jo nf a] nocreate in \<open>auto simp: runSection_def\<close>)
  next
    case (PStage stage)
    obtain err j1 w1 where a: "enterStage stage (rn_err io) (j, w) = (err, j1, w1)" by (cases "enterStage stage (rn_err io) (j, w)")
    show ?thesis by (rule step[where p = "onError err (PClient stage)"])
        (use eq PStage a enterStage_quiet[OF jo a] nocreate in \<open>auto simp: runSection_def\<close>)
  next
    case PBuild
    obtain err j1 w1 where a: "enterBuild (rn_err io) (j, w) = (err, j1, w1)" by (cases "enterBuild (rn_err io) (j, w)")
    show ?thesis by (rule step[where p = "onError err (PClient ''build'')"])
        (use eq PBuild a enterBuild_quiet[OF jo nf a] nocreate in \<open>auto simp: runSection_def\<close>)
  next
    case (PResult stage err)
    have "afterClient stage err io \<noteq> PCreate a" for a by (simp add: afterClient_def Let_def)
    then show ?thesis
      by (intro step[where p = "afterClient stage err io"]) (use eq PResult recordProcess_quiet[OF jo] in \<open>auto simp: runSection_def\<close>)
  next
    case (POutputs err interrupted outs)
    show ?thesis by (rule step[where p = "PComplete err interrupted"]) (use eq POutputs setOutputs_quiet[OF jo] in \<open>auto simp: runSection_def\<close>)
  next
    case (PComplete err interrupted)
    have e: "completeJob (rn_err io) now err interrupted (j, w) = ((j', w'), started)" "pc' = None"
      using eq PComplete by (auto simp: runSection_def split: prod.splits)
    have up: "upOK boot live H w (remove1 (TRun t pc) ths)" using inv_replace[OF ok th, of "[]"] by simp
    have "wk_instance w' = wk_instance w"
      using e(1) by (auto simp: completeJob_def Let_def split: prod.splits elim!: saveJob_cases)
    moreover have "upOK boot live H (putJob (j', w')) (remove1 (TRun t pc) ths @ reconcileThread t started)"
      by (rule inv_complete[OF up j nf _ e(1)]) (use no_run_left[OF ok th] in auto)
    ultimately show ?thesis using e(2) by (simp add: runThread_def)
  qed (use pc in simp_all)
qed

lemma wk_reap:
  assumes ok: "upOK boot live H w ths" and th: "TRun t (PWait stage err p) \<in> set ths" and gone: "\<And>i. p = Some i \<Longrightarrow> (t, i) \<notin> set live"
    and j: "getJob t w = Some j" and eq: "reapedClient x saveErr (j, w) = (e, j', w')"
  shows "upOK boot live H (putJob (j', w')) (remove1 (TRun t (PWait stage err p)) ths @ [TRun t (PResult stage e)])" "wk_instance w' = wk_instance w"
proof -
  have jo: "jobOK boot live H j" and id: "jobID j = t" using memOKD(2,3)[OF upOKD(2)[OF ok]] j by blast+
  have x: "\<not> finishedJ j" "(t, i) \<in> set live \<Longrightarrow> p = Some i" for i using upOKD(4)[OF ok th] j by simp_all
  have nf: "\<not> finishedJ j" "(t, i) \<notin> set live" for i using x(1) x(2)[of i] gone[of i] by blast+
  note q = reapedClient_quiet[OF jo nf(1) _ eq]
  have q: "quiet boot live H (j, w) (j', w')" by (rule q) (use nf(2) id in simp)
  show "upOK boot live H (putJob (j', w')) (remove1 (TRun t (PWait stage err p)) ths @ [TRun t (PResult stage e)])"
    by (rule run_next[OF ok th j q]) (use nf(2) in auto)
  show "wk_instance w' = wk_instance w" by (rule quiet_instance[OF q])
qed

section \<open>Steps of an observation\<close>

lemma wk_stop:
  assumes ok: "upOK boot live H w ths" and th: "TStop t q \<in> set ths" and H': "\<And>u. H' u \<Longrightarrow> H u" and b: "\<And>b. bt = Some b \<Longrightarrow> b = boot"
    and rel: "\<And>s. rc_intent q \<Longrightarrow> reply = Inr s \<Longrightarrow> NixResources_Released (xs_Resources s) \<Longrightarrow> \<not> H' t"
  shows "upOK boot live H' w (remove1 (TStop t q) ths @ [TClient t q (stopReply reply q) (stillLaunching bt q)])"
proof -
  have up: "upOK boot live H' w ths" by (rule upOK_mono[OF ok]) (use H' in auto)
  obtain j where j: "getJob t w = Some j" "wj_observing j" "\<not> completeJ j"
    "rc_finished q \<Longrightarrow> finishedJ j \<and> clientJ j = (rc_client q, rc_launching q, rc_clientBoot q) \<and> intentJ j = rc_intent q"
    using upOKD(4)[OF up th] by auto
  have jo: "jobOK boot live H' j" and id: "jobID j = t" using memOKD(2,3)[OF upOKD(2)[OF up]] j(1) by blast+
  have live: "stillLaunching bt q \<or> rc_client q = Some i" if f: "rc_finished q" and i: "(t, i) \<in> set live" for i
    using jobOK_D(8)[OF jo] i id j(4)[OF f] b by (auto simp: knows_def stillLaunching_def split: option.splits)
  have free: "\<not> H' t" if f: "rc_finished q" and r: "NixResources_Released (sp_resources (stopReply reply q))" "sp_err (stopReply reply q) = None"
  proof (cases "rc_intent q")
    case False then show ?thesis using jobOK_D(9)[OF jo] id j(4)[OF f] by blast
  next
    case True
    then obtain s where "reply = Inr s" "sp_resources (stopReply reply q) = xs_Resources s"
      using r(2) by (auto simp: stopReply_def split: sum.splits)
    then show ?thesis using rel[OF True] r(1) by simp
  qed
  have "threadOK boot live H' w (TClient t q (stopReply reply q) (stillLaunching bt q))" using j live free by auto
  then show ?thesis by (intro inv_replace[OF up th]) auto
qed

lemma wk_client:
  assumes ok: "upOK boot live H w ths" and th: "TClient t q s l \<in> set ths" and io: "honestRelease live t (rc_client q) io"
  shows "upOK boot live H w (remove1 (TClient t q s l) ths @ [TReport t q s l (clientGone io l s q)])"
proof -
  obtain j where j: "getJob t w = Some j" "wj_observing j" "\<not> completeJ j" "rc_finished q \<Longrightarrow> finishedJ j"
    "\<And>i. rc_finished q \<Longrightarrow> (t, i) \<in> set live \<Longrightarrow> l \<or> rc_client q = Some i"
    "rc_finished q \<Longrightarrow> NixResources_Released (sp_resources s) \<Longrightarrow> sp_err s = None \<Longrightarrow> \<not> H t"
    using upOKD(4)[OF ok th] by auto
  let ?g = "clientGone io l s q"
  have g: "rc_finished q" "\<not> l" "sp_err s = None" "releaseClient io (rc_client q) = (True, None)" if "fst ?g" "snd ?g = None"
    using that by (auto simp: clientGone_def prod_eq_iff split: if_splits)
  have none: "(t, i) \<notin> set live" if gg: "fst ?g" "snd ?g = None" for i
  proof
    assume i: "(t, i) \<in> set live"
    then have "rc_client q = Some i" using j(5)[OF g(1)[OF gg]] g(2)[OF gg] by blast
    then show False using io i g(4)[OF gg] by (auto simp: honestRelease_def releaseClient_def split: option.splits sum.splits if_splits)
  qed
  have "threadOK boot live H w (TReport t q s l ?g)" using j g none by auto
  then show ?thesis by (intro inv_replace[OF ok th]) auto
qed

section \<open>Instances\<close>

lemma save_instance: "saveJob err (j, w) = (e, j', w') \<Longrightarrow> wk_instance w' = wk_instance w"
  by (auto elim: saveJob_cases)

lemma instances:
  "callStart arch io now a w = (reply, w', started) \<Longrightarrow> wk_instance w' = wk_instance w"
  "lookupJob err t w = (found, w') \<Longrightarrow> wk_instance w' = wk_instance w"
  "sealTask err now a w = (view, w') \<Longrightarrow> wk_instance w' = wk_instance w"
  by (auto simp: callStart_def lookupJob_def sealTask_def Let_def split: option.splits sum.splits if_splits prod.splits dest: save_instance)

lemma collect_instance: "collectLocked err now (j, w) = ((j', w'), started) \<Longrightarrow> wk_instance w' = wk_instance w"
  by (auto simp: collectLocked_def Let_def saveJob_def split: option.splits if_splits prod.splits)

lemma maintain_instance:
  assumes "maintainTick errs fmt deleteErr sweepErr now w = (w', ss)"
  shows "wk_instance w' = wk_instance w"
proof -
  have one: "wk_instance (fst (maintainJob errs now t (v, s))) = wk_instance v" for t v s
    by (auto simp: maintainJob_def collectLocked_def Let_def saveJob_def split: option.splits prod.splits if_splits)
  have "wk_instance (fst (fold (maintainJob errs now) ts (v, s))) = wk_instance v" for ts v s
  proof (induction ts arbitrary: v s)
    case (Cons t ts) then show ?case using one[of t v s] by (cases "maintainJob errs now t (v, s)") simp
  qed simp
  from this[of "map fst (wk_jobs w)" w "[]"] show ?thesis
    using assms by (auto simp: maintainTick_def expireCompleted_def Let_def split: prod.splits if_splits)
qed

section \<open>Every step\<close>

lemma add_plain:
  assumes ok: "upOK boot live H w ths" and ns: "\<And>n. n \<in> set ns \<Longrightarrow> threadOK boot live H w n \<and> observedBy n = [] \<and> runs n = []"
  shows "upOK boot live H w (ths @ ns)"
  using ns
proof (induction ns rule: rev_induct)
  case (snoc n ns)
  have "upOK boot live H w ((ths @ ns) @ [n])" by (rule inv_add[OF snoc.IH]) (use snoc.prems in auto)
  then show ?case by simp
qed (use ok in simp)

text \<open>A call on a job the controller asks for.\<close>

lemma lookup_absent:
  assumes ok: "upOK boot live H w ths" and l: "lookupJob err t w = (Some j, w')" "getJob t w' \<noteq> Some j"
  shows "w' = w" "getJob t w = None" "jobID j = t" "jobOK boot live H j" "wj_CopiesReleased j" "completeJ j" "wj_HandoffComplete j"
    "\<And>r. r \<in> set (wk_rows w) \<Longrightarrow> jobID r = t \<Longrightarrow> wj_CopiesReleased r"
proof -
  have x: "getJob t w' = None" "w' = w" "loadJob err t w = Inr j" "wj_CopiesReleased j" using inv_lookup(2)[OF ok l(1) refl] l(2) by auto
  obtain r where r: "r \<in> set (wk_rows w)" "jobID r = t" "j = loadedJob w r"
    using x(3) by (auto simp: loadJob_def split: option.splits dest: find_row)
  have core: "coreJ j = coreJ r" by (simp add: r(3))
  note c = core_eqD[OF core]
  show jo: "jobOK boot live H j" using c(9) rowsOKD(2)[OF upOKD(1)[OF ok] r(1)] by simp
  show "w' = w" "getJob t w = None" "jobID j = t" "wj_CopiesReleased j" using x c(1) r(2) by simp_all
  show "completeJ j" "wj_HandoffComplete j" using jobOK_D(4,5)[OF jo] x(4) by blast+
  show "wj_CopiesReleased s" if "s \<in> set (wk_rows w)" "jobID s = t" for s
    using job_unique[OF rowsOKD(1)[OF upOKD(1)[OF ok]] that(1) r(1)] that(2) r(2) c(7) x(4) by simp
qed

lemma putJob_absent: "getJob (jobID j) w = None \<Longrightarrow> putJob (j, w) = w"
  by (simp add: putJob_def)

text \<open>The row of a task outside the memory is written again.\<close>

lemma wk_rewrite:
  assumes ok: "upOK boot live H w ths" and none: "getJob t w = None" and p: "putRow t r (wk_rows w) (wk_rows w')" and r: "jobOK boot live H r" "wj_CopiesReleased r"
    and w: "wk_jobs w' = wk_jobs w" "wk_instance w' = wk_instance w" "wk_active w' = wk_active w"
  shows "upOK boot live H w' ths"
proof -
  note o = upOKD[OF ok] and pr = putRowD[OF p] and get = getJob_jobs[OF w(1)]
  have h: "wj_HandoffComplete r" "completeJ r" using jobOK_D(4,5)[OF r(1)] r(2) by blast+
  have row: "wj_CopiesReleased s" "wj_HandoffComplete s" "completeJ s" if "s \<in> set (wk_rows w')" "jobID s = t" for s
    using core_eqD(2,6,7)[OF pr(2)[OF that]] h r(2) by simp_all
  show ?thesis
  proof (rule inv_world[OF ok, where t = t])
    show "rowsOK boot live H (wk_rows w')" by (rule putRow_rowsOK[OF o(1) p r(1)])
    show "threadOK boot live H w' th" if th: "th \<in> set ths" "threadTask th = Some t" for th
    proof -
      note x = o(4)[OF th(1)] and a = absent_task(4)[OF ok none th]
      show ?thesis
      proof (cases th)
        case (THandoff u obj) then show ?thesis using x th(2) row get by (cases obj) auto
      qed (use x a th(2) get none in auto)
    qed
  qed (use pr(1) get none w row(3) memOKD(1)[OF o(2)] in auto)
qed

lemma wk_resources:
  assumes ok: "upOK boot live H w ths" and l: "lookupJob err t w = (Some j, w0)" and eq: "callResources retry (j, w0) = (jw, started)"
  shows "upOK boot live H (putJob jw) (ths @ reconcileThread t started)" "wk_instance (putJob jw) = wk_instance w"
proof -
  have up: "upOK boot live H w0 ths" by (rule inv_lookup(1)[OF ok l])
  show "upOK boot live H (putJob jw) (ths @ reconcileThread t started)"
  proof (cases "getJob t w0 = Some j")
    case True then show ?thesis by (rule inv_callResources[OF up _ eq])
  next
    case False
    note a = lookup_absent[OF ok l False]
    have fin: "nx_Finished (wj_Execution j) \<noteq> None" using jobOK_D(3)[OF a(4)] a(6) by (simp add: finishedJ_def)
    have "jw = (j, cancelContext (jobID j) w)" "\<not> started"
      using eq a(1,6) fin by (auto simp: callResources_def Let_def observeLocked_def completeJ_def)
    then have "putJob jw = cancelContext (jobID j) w" "\<not> started" using putJob_absent[of j "cancelContext (jobID j) w"] a(2,3) by (simp_all add: getJob_def)
    then show ?thesis using inv_fields[OF ok, of "cancelContext (jobID j) w"] by (simp add: reconcileThread_def)
  qed
  have "wk_instance (snd jw) = wk_instance w0" using eq by (auto simp: callResources_def Let_def split: prod.splits)
  then show "wk_instance (putJob jw) = wk_instance w" using instances(2)[OF l] by (simp add: putJob_instance)
qed

lemma collectThread_plain: "n \<in> set (collectThread t started) \<Longrightarrow> threadOK boot live H w n \<and> observedBy n = [] \<and> runs n = []"
  by (auto simp: collectThread_def split: if_splits)

lemma wk_evidence:
  assumes ok: "upOK boot live H w ths" and l: "lookupJob err t w = (Some j, w0)" and eq: "callEvidence retry cerr serr now (j, w0) = ((reply, jw), started)"
  shows "upOK boot live H (putJob jw) (ths @ collectThread t started)" "wk_instance (putJob jw) = wk_instance w"
proof -
  have up: "upOK boot live H w0 ths" by (rule inv_lookup(1)[OF ok l])
  obtain j' w' where jw: "jw = (j', w')" by (cases jw)
  have jo: "jobOK boot live H j"
  proof (cases "getJob t w0 = Some j")
    case True then show ?thesis by (rule memOKD(3)[OF upOKD(2)[OF up]])
  next
    case False then show ?thesis by (rule lookup_absent(4)[OF ok l])
  qed
  note q = callEvidence_quiet[OF jo eq[unfolded jw]]
  show "wk_instance (putJob jw) = wk_instance w" using quiet_instance[OF q] instances(2)[OF l] by (simp add: jw)
  show "upOK boot live H (putJob jw) (ths @ collectThread t started)"
  proof (cases "getJob t w0 = Some j")
    case True
    from inv_quiet[OF up True q] show ?thesis unfolding jw by (rule add_plain) (rule collectThread_plain)
  next
    case False
    note a = lookup_absent[OF ok l False]
    have sec: "secOK boot live H (j, w) (j', w')" and c: "calm (j, w) (j', w')" using q a(1) by (simp_all add: quiet_def)
    note d = secOK_D[OF sec]
    have put: "putJob (j', w') = w'" by (rule putJob_absent) (use d(1,2) a(2,3) in \<open>simp add: getJob_def\<close>)
    have "upOK boot live H w' ths"
      using sec
    proof (cases rule: secOK_cases)
      case same then show ?thesis by (intro inv_fields[OF ok]) (use d c in \<open>simp_all add: calm_def\<close>)
    next
      case (put r) show ?thesis by (rule wk_rewrite[OF ok a(2) put(1)[unfolded a(3)] put(2)]) (use put d c a in \<open>simp_all add: calm_def\<close>)
    qed
    from add_plain[OF this collectThread_plain] show ?thesis unfolding jw put .
  qed
qed

lemma wk_handoff:
  assumes ok: "upOK boot live H w ths" and l: "lookupJob err t w = (Some j, w0)" and eq: "handoffBegin digest serr sent (j, w0) = (failed, jw)"
  shows "upOK boot live H (putJob jw) (ths @ (if failed = None then [THandoff t (if getJob t w0 = None then Some (fst jw) else None)] else []))"
    "wk_instance (putJob jw) = wk_instance w"
proof -
  have up: "upOK boot live H w0 ths" by (rule inv_lookup(1)[OF ok l])
  obtain j' w' where jw: "jw = (j', w')" by (cases jw)
  have "wk_instance w' = wk_instance w0" using eq[unfolded jw] by (cases rule: handoffBegin_cases) (auto dest: save_instance)
  then show "wk_instance (putJob jw) = wk_instance w" using instances(2)[OF l] by (simp add: jw)
  show "upOK boot live H (putJob jw) (ths @ (if failed = None then [THandoff t (if getJob t w0 = None then Some (fst jw) else None)] else []))"
  proof (cases "getJob t w0 = Some j")
    case True
    note h = handoffBegin_sec[OF up True eq[unfolded jw]]
    show ?thesis unfolding jw by (rule add_plain[OF h(1)]) (use True h(2) in \<open>auto split: if_splits\<close>)
  next
    case False
    note a = lookup_absent[OF ok l False]
    have "j' = j" "w' = w" using eq[unfolded jw a(1)] by (cases rule: handoffBegin_cases; use a(7) in simp)+
    then have e: "putJob jw = w" "fst jw = j" using putJob_absent[of j w] a(2,3) jw by simp_all
    have "threadOK boot live H w (THandoff t (Some j))" using a(2-5,8) by simp
    then show ?thesis unfolding e a(1) by (intro add_plain[OF ok]) (use a(2) in \<open>auto split: if_splits\<close>)
  qed
qed

context session_authority
begin

lemma called_fine: "fine e \<Longrightarrow> called ecall e verb a reply e' \<Longrightarrow> fine e'"
  using call_fine by (auto simp: called_def)

lemma called_held: "fine e \<Longrightarrow> called ecall e verb a reply e' \<Longrightarrow> held e' i t \<Longrightarrow> held e i t \<or> verb = ''create'' \<and> i = xq_WorkerInstance a \<and> t = xq_TaskID a"
  using call_held unfolding called_def by blast

lemma called_stops: "fine e \<Longrightarrow> called ecall e ''stop'' a (Inr s) e' \<Longrightarrow> NixResources_Released (xs_Resources s) \<Longrightarrow> \<not> held e' (xq_WorkerInstance a) (xq_TaskID a)"
  using stop_ends unfolding called_def by blast

text \<open>A step of the running worker alone.\<close>

lemma own_step:
  assumes inv: "workerInv fine held x" and up: "wx_up x" and w: "wk_instance w' = wk_instance (wx_w x)"
    and ok: "upOK (wx_boot x) live' (held (wx_exec x) (wk_instance (wx_w x))) w' ths'"
    and y: "wx_exec y = wx_exec x" "wx_up y" "wx_boot y = wx_boot x" "wx_live y = live'" "wx_w y = w'" "wx_threads y = ths'"
  shows "workerInv fine held y"
  using workerInv_up(1)[OF inv up] ok w y by (simp add: workerInv_def)

text \<open>A step in which the executor answers a call.\<close>

lemma called_step:
  assumes inv: "workerInv fine held x" and up: "wx_up x" and c: "called ecall (wx_exec x) verb a reply e"
    and ok: "upOK (wx_boot x) (wx_live x) (held e (wk_instance (wx_w x))) (wx_w x) ths'"
    and y: "wx_exec y = e" "wx_up y" "wx_boot y = wx_boot x" "wx_live y = wx_live x" "wx_w y = wx_w x" "wx_threads y = ths'"
  shows "workerInv fine held y"
  using called_fine[OF workerInv_up(1)[OF inv up] c] ok y by (simp add: workerInv_def)

lemma called_less:
  assumes inv: "workerInv fine held x" and up: "wx_up x" and c: "called ecall (wx_exec x) verb a reply e" and v: "verb \<noteq> ''create''"
    and th: "th \<in> set (wx_threads x)" and ns: "\<And>n. n \<in> set ns \<Longrightarrow> (\<forall>boot live H w. threadOK boot live H w n) \<and> observedBy n = [] \<and> runs n = []"
  shows "upOK (wx_boot x) (wx_live x) (held e (wk_instance (wx_w x))) (wx_w x) (remove1 th (wx_threads x) @ ns)"
proof -
  have "upOK (wx_boot x) (wx_live x) (held e (wk_instance (wx_w x))) (wx_w x) (wx_threads x)"
    by (rule upOK_mono[OF workerInv_up(2)[OF inv up]]) (use called_held[OF workerInv_up(1)[OF inv up] c] v in blast)+
  from inv_replace[OF this th, of "[]"] have "upOK (wx_boot x) (wx_live x) (held e (wk_instance (wx_w x))) (wx_w x) (remove1 th (wx_threads x))" by simp
  then show ?thesis by (rule add_plain) (use ns in blast)
qed

lemma step_down:
  assumes inv: "workerInv fine held x" and y: "wx_exec y = wx_exec x" "\<not> wx_up y" "wx_w y = wx_w x" "wx_live y = wx_live x \<and> wx_boot y = wx_boot x \<or> wx_live y = []"
  shows "workerInv fine held y"
proof -
  note r = workerInv_rows[OF inv]
  have "rowsOK (wx_boot y) (wx_live y) (held (wx_exec x) (wk_instance (wx_w x))) (wk_rows (wx_w x))"
  proof (cases "wx_live y = []")
    case False then show ?thesis using r y(4) by simp
  next
    case True
    have "jobOK (wx_boot y) [] (held (wx_exec x) (wk_instance (wx_w x))) j" if "jobOK (wx_boot x) (wx_live x) (held (wx_exec x) (wk_instance (wx_w x))) j" for j
      using that by (simp add: jobOK_def)
    then show ?thesis using rowsOKD[OF r] True by (intro rowsOKI) auto
  qed
  then show ?thesis using inv y by (simp add: workerInv_def)
qed

theorem step_inv:
  assumes step: "wkStep estep ecall digest arch x y" and inv: "workerInv fine held x"
  shows "workerInv fine held y"
  using step
proof cases
  case (executor e)
  have f: "fine (wx_exec x)" using inv by (simp add: workerInv_def)
  show ?thesis unfolding executor(1)
    using workerInv_less[OF inv step_fine[OF f executor(2)] subset_refl step_held[OF f executor(2)]] by simp
next
  case (clientExits p)
  have f: "fine (wx_exec x)" using inv by (simp add: workerInv_def)
  show ?thesis unfolding clientExits using workerInv_less[OF inv f, of "removeAll p (wx_live x)"] by auto
next
  case crash show ?thesis unfolding crash by (rule step_down[OF inv]) simp_all
next
  case reboot show ?thesis unfolding reboot by (rule step_down[OF inv]) simp_all
next
  case (restart loadErr errs now err w)
  note r = wk_restart[OF workerInv_rows[OF inv] restart(3)]
  have "fine (wx_exec x)" using inv by (simp add: workerInv_def)
  then show ?thesis unfolding restart(1) using r by (simp add: workerInv_def)
next
  case (start a io now reply w started)
  have "wr_TaskID a \<noteq> []" using start(3) by (auto simp: IDPattern_def)
  from wk_start[OF workerInv_up(2)[OF inv start(2)] start(4) this] start(5)
  show ?thesis unfolding start(1) by (intro own_step[OF inv start(2) instances(1)[OF start(4)]]) (use start(2) in simp_all)
next
  case (sealed a loadErr w0 err now reply w)
  note l = inv_lookup(1)[OF workerInv_up(2)[OF inv sealed(2)] sealed(4)]
  have none: "getJob (wr_TaskID a) w0 = None" using sealed(4) by (auto simp: lookupJob_def split: option.splits sum.splits)
  show ?thesis unfolding sealed(1)
    by (rule own_step[OF inv sealed(2) _ inv_sealed[OF l none sealed(5)]]) (use instances(2)[OF sealed(4)] instances(3)[OF sealed(5)] sealed(2) in simp_all)
next
  case (query loadErr t found w)
  show ?thesis unfolding query(1)
    by (rule own_step[OF inv query(2) instances(2)[OF query(3)] inv_lookup(1)[OF workerInv_up(2)[OF inv query(2)] query(3)]]) (use query(2) in simp_all)
next
  case (resources loadErr t j w0 retry jw started)
  note r = wk_resources[OF workerInv_up(2)[OF inv resources(2)] resources(3,4)]
  show ?thesis unfolding resources(1) by (rule own_step[OF inv resources(2) r(2,1)]) (use resources(2) in simp_all)
next
  case (evidence loadErr t j w0 retry collectErr saveErr now reply jw started)
  note r = wk_evidence[OF workerInv_up(2)[OF inv evidence(2)] evidence(3,4)]
  show ?thesis unfolding evidence(1) by (rule own_step[OF inv evidence(2) r(2,1)]) (use evidence(2) in simp_all)
next
  case (extend loadErr t j w0 a q d)
  have "upOK (wx_boot x) (wx_live x) (held (wx_exec x) (wk_instance (wx_w x))) w0 (wx_threads x @ [TExtend t d q])"
    by (rule add_plain[OF inv_lookup(1)[OF workerInv_up(2)[OF inv extend(2)] extend(3)]]) simp
  then show ?thesis unfolding extend(1) by (rule own_step[OF inv extend(2) instances(2)[OF extend(3)]]) (use extend(2) in simp_all)
next
  case (extendCalled t d q reply e)
  show ?thesis unfolding extendCalled(1)
    by (rule called_step[OF inv extendCalled(2,4) called_less[OF inv extendCalled(2,4) _ extendCalled(3), of "[TExtended t d reply]"]])
      (use extendCalled(2) in \<open>simp_all add: replaceThread_def\<close>)
next
  case (extended t d reply err answer w)
  obtain j j' v where j: "getJob t (wx_w x) = Some j" "extendEnd err d reply (j, wx_w x) = (answer, j', v)" "w = putJob (j', v)" using withJob_cases[OF extended(4)] .
  note up = workerInv_up(2)[OF inv extended(2)]
  note q = extendEnd_quiet[OF memOKD(3)[OF upOKD(2)[OF up] j(1)] j(2)]
  have "upOK (wx_boot x) (wx_live x) (held (wx_exec x) (wk_instance (wx_w x))) w (remove1 (TExtended t d reply) (wx_threads x))"
    using inv_replace[OF inv_quiet[OF up j(1) q] extended(3), of "[]"] j(3) by simp
  then show ?thesis unfolding extended(1)
    by (rule own_step[OF inv extended(2), rotated]) (use extended(2) quiet_instance[OF q] j(3) in \<open>simp_all add: replaceThread_def\<close>)
next
  case (handoff loadErr t j w0 err sent failed jw)
  note r = wk_handoff[OF workerInv_up(2)[OF inv handoff(2)] handoff(3,4)]
  show ?thesis unfolding handoff(1) by (rule own_step[OF inv handoff(2) r(2,1)]) (use handoff(2) in simp_all)
next
  case (handedOff t io now failed w)
  obtain j j' v where j: "getJob t (wx_w x) = Some j" "handoffEnd io now (j, wx_w x) = (failed, j', v)" "w = putJob (j', v)" using withJob_cases[OF handedOff(4)] .
  note up = workerInv_up(2)[OF inv handedOff(2)]
  have "wj_HandoffComplete j" using upOKD(4)[OF up handedOff(3)] j(1) by simp
  note h = handoffEnd_calm[OF memOKD(3)[OF upOKD(2)[OF up] j(1)] this j(2)]
  have "upOK (wx_boot x) (wx_live x) (held (wx_exec x) (wk_instance (wx_w x))) w (remove1 (THandoff t None) (wx_threads x))"
    using inv_replace[OF wk_section[OF up j(1) h(1) calm_careful[OF up j(1) h(2)]] handedOff(3), of "[]"] j(3) by simp
  then show ?thesis unfolding handedOff(1)
    by (rule own_step[OF inv handedOff(2), rotated]) (use handedOff(2) secOK_D(3)[OF h(1)] j(3) in \<open>simp_all add: replaceThread_def\<close>)
next
  case (handedOffDetached t j io now failed j' w)
  note up = workerInv_up(2)[OF inv handedOffDetached(2)]
  have "wk_instance w = wk_instance (wx_w x)" using handedOffDetached(4) by (cases rule: handoffEnd_cases) (auto dest: save_instance)
  from own_step[OF inv handedOffDetached(2) this inv_detached[OF up handedOffDetached(3,4)]]
  show ?thesis unfolding handedOffDetached(1) using handedOffDetached(2) by (simp add: replaceThread_def)
next
  case (run t pc io now pc' started w)
  obtain j j' v where j: "getJob t (wx_w x) = Some j" "runSection io now pc (j, wx_w x) = ((pc', started), j', v)" "w = putJob (j', v)" using withJob_cases[OF run(5)] .
  note r = wk_run[OF workerInv_up(2)[OF inv run(2)] run(3,4) j(1,2)]
  show ?thesis unfolding run(1)
    by (rule own_step[OF inv run(2) _ conjunct1[OF r]]) (use run(2) conjunct2[OF r] j(3) in \<open>simp_all add: replaceThread_def\<close>)
next
  case (create t a reply e)
  note up = workerInv_up[OF inv create(2)]
  have "xq_WorkerInstance a = wk_instance (wx_w x)" "xq_TaskID a = t" using upOKD(4)[OF up(2) create(3)] by auto
  then have less: "\<And>u. held e (wk_instance (wx_w x)) u \<Longrightarrow> held (wx_exec x) (wk_instance (wx_w x)) u \<or> u = t" using called_held[OF up(1) create(4)] by blast
  show ?thesis unfolding create(1)
    by (rule called_step[OF inv create(2,4) inv_created[OF up(2) create(3) less]]) (use create(2) in \<open>simp_all add: replaceThread_def\<close>)
next
  case (launch t stage io r w)
  obtain j j' v where j: "getJob t (wx_w x) = Some j" "launchClient io (j, wx_w x) = (r, j', v)" "w = putJob (j', v)" using withJob_cases[OF launch(6)] .
  note up = workerInv_up(2)[OF inv launch(2)]
  have "wk_instance v = wk_instance (wx_w x)"
    using j(2) by (auto simp: launchClient_def split: sum.splits option.splits prod.splits dest!: save_instance)
  from own_step[OF inv launch(2) _ inv_launched[OF up launch(3) j(1,2) launch(4,5)]] this j(3)
  show ?thesis unfolding launch(1) using launch(2) by (simp add: replaceThread_def)
next
  case (reap t stage err p waitErr saveErr e w)
  obtain j j' v where j: "getJob t (wx_w x) = Some j" "reapedClient (firstErr err waitErr) saveErr (j, wx_w x) = (e, j', v)" "w = putJob (j', v)" using withJob_cases[OF reap(6)] .
  note r = wk_reap[OF workerInv_up(2)[OF inv reap(2)] reap(3,4) j(1,2)]
  show ?thesis unfolding reap(1) by (rule own_step[OF inv reap(2) _ r(1)]) (use reap(2) r(2) j(3) in \<open>simp_all add: replaceThread_def\<close>)
next
  case (watch t pc now started w)
  obtain j j' v where j: "getJob t (wx_w x) = Some j" "watchDeadline now (j, wx_w x) = ((j', v), started)" "w = putJob (j', v)"
    by (rule withJob_cases[OF watch(5)]) (auto split: prod.splits)
  have "wk_instance v = wk_instance (wx_w x)" using j(2) by (auto simp: watchDeadline_def split: if_splits prod.splits)
  from own_step[OF inv watch(2) _ inv_watch[OF workerInv_up(2)[OF inv watch(2)] j(1,2)]] this j(3)
  show ?thesis unfolding watch(1) using watch(2) by simp
next
  case (reconcile t now q w)
  obtain j j' where j: "getJob t (wx_w x) = Some j" "reconcileBegin now (j, wx_w x) = (q, j')" "w = putJob (j', wx_w x)"
    by (rule withJob_cases[OF reconcile(4)]) (auto split: prod.splits)
  from own_step[OF inv reconcile(2) _ inv_reconcileBegin[OF workerInv_up(2)[OF inv reconcile(2)] j(1) reconcile(3) j(2)]] j(3)
  show ?thesis unfolding reconcile(1) using reconcile(2) by (simp add: replaceThread_def)
next
  case (stop t q boot reply e)
  note up = workerInv_up[OF inv stop(2)]
  have q: "xq_WorkerInstance (rc_request q) = wk_instance (wx_w x)" "xq_TaskID (rc_request q) = t" using upOKD(4)[OF up(2) stop(3)] by auto
  have c: "rc_intent q \<Longrightarrow> called ecall (wx_exec x) ''stop'' (rc_request q) reply e" "\<not> rc_intent q \<Longrightarrow> e = wx_exec x" using stop(5) by (auto split: if_splits)
  have less: "held (wx_exec x) (wk_instance (wx_w x)) u" if "held e (wk_instance (wx_w x)) u" for u using called_held[OF up(1) c(1)] c(2) that by (cases "rc_intent q") auto
  have fin: "fine e" using called_fine[OF up(1) c(1)] c(2) up(1) by (cases "rc_intent q") auto
  have free: "\<not> held e (wk_instance (wx_w x)) t" if "rc_intent q" "reply = Inr s" "NixResources_Released (xs_Resources s)" for s
    using called_stops[OF up(1) c(1)[OF that(1), unfolded that(2)] that(3)] q by simp
  have "upOK (wx_boot x) (wx_live x) (held e (wk_instance (wx_w x))) (wx_w x)
      (remove1 (TStop t q) (wx_threads x) @ [TClient t q (stopReply reply q) (stillLaunching boot q)])"
    by (rule wk_stop[OF up(2) stop(3)]) (fact less stop(4) free)+
  then show ?thesis unfolding stop(1) using fin stop(2) by (simp add: workerInv_def replaceThread_def)
next
  case (client t q s l io)
  from own_step[OF inv client(2) refl wk_client[OF workerInv_up(2)[OF inv client(2)] client(3,4)]]
  show ?thesis unfolding client(1) using client(2) by (simp add: replaceThread_def)
next
  case (report t q s l g saveErr collectErr now started w)
  obtain j j' v where j: "getJob t (wx_w x) = Some j" "reconcileEnd saveErr collectErr now s l g q (j, wx_w x) = ((j', v), started)" "w = putJob (j', v)"
    by (rule withJob_cases[OF report(4)]) (auto split: prod.splits)
  have "wk_instance v = wk_instance (wx_w x)"
    using j(2) by (auto simp: reconcileEnd_def Let_def split: prod.splits option.splits if_splits dest!: save_instance collect_instance)
  from own_step[OF inv report(2) _ inv_report[OF workerInv_up(2)[OF inv report(2)] j(1) report(3) j(2)]] this j(3)
  show ?thesis unfolding report(1) using report(2) by (simp add: replaceThread_def)
next
  case (observed t)
  have "wk_instance (case getJob t (wx_w x) of Some j \<Rightarrow> putJob (j\<lparr>wj_observing := False\<rparr>, wx_w x) | None \<Rightarrow> wx_w x) = wk_instance (wx_w x)" by (simp split: option.splits)
  from own_step[OF inv observed(2) this inv_observed[OF workerInv_up(2)[OF inv observed(2)] observed(3)]]
  show ?thesis unfolding observed(1) using observed(2) by (simp add: replaceThread_def)
next
  case (collected t io now u w)
  obtain j j' v where j: "getJob t (wx_w x) = Some j" "collectEnd digest io now (j, wx_w x) = (j', v)" "w = putJob (j', v)" by (rule withJob_cases[OF collected(5)]) auto
  note up = workerInv_up(2)[OF inv collected(2)]
  note q = collectEnd_quiet[OF memOKD(3)[OF upOKD(2)[OF up] j(1)] j(2)]
  have "upOK (wx_boot x) (wx_live x) (held (wx_exec x) (wk_instance (wx_w x))) w (remove1 (TCollect t) (wx_threads x))"
    using inv_replace[OF inv_quiet[OF up j(1) q] collected(3), of "[]"] j(3) by simp
  then show ?thesis unfolding collected(1)
    by (rule own_step[OF inv collected(2), rotated]) (use collected(2) quiet_instance[OF q] j(3) in \<open>simp_all add: replaceThread_def\<close>)
next
  case (maintain errs fmt deleteErr sweepErr now w ss)
  from own_step[OF inv maintain(2) maintain_instance[OF maintain(3)] inv_maintain[OF workerInv_up(2)[OF inv maintain(2)] maintain(3)]]
  show ?thesis unfolding maintain(1) using maintain(2) by simp
next
  case (closes w requests)
  have w: "wk_jobs w = wk_jobs (wx_w x)" "wk_rows w = wk_rows (wx_w x)" "wk_instance w = wk_instance (wx_w x)" "wk_active w = wk_active (wx_w x)"
    using closes(3) by (auto simp: closeWorker_def)
  have "upOK (wx_boot x) (wx_live x) (held (wx_exec x) (wk_instance (wx_w x))) w (wx_threads x @ map TClosing requests)"
    by (rule add_plain[OF inv_fields[OF workerInv_up(2)[OF inv closes(2)] w]]) auto
  then show ?thesis unfolding closes(1) by (rule own_step[OF inv closes(2) w(3)]) (use closes(2) in simp_all)
next
  case (closeStops q reply e)
  show ?thesis unfolding closeStops(1)
    by (rule called_step[OF inv closeStops(2,4) called_less[OF inv closeStops(2,4) _ closeStops(3), of "[]"]]) (use closeStops(2) in \<open>simp_all add: replaceThread_def\<close>)
next
  case (streamOpens t)
  from own_step[OF inv streamOpens(2) _ inv_fields[OF workerInv_up(2)[OF inv streamOpens(2)], of "(wx_w x)\<lparr>wk_streams := t # wk_streams (wx_w x)\<rparr>"]]
  show ?thesis unfolding streamOpens(1) using streamOpens(2) by simp
next
  case (streamCloses t)
  from own_step[OF inv streamCloses(2) _ inv_fields[OF workerInv_up(2)[OF inv streamCloses(2)], of "(wx_w x)\<lparr>wk_streams := remove1 t (wk_streams (wx_w x))\<rparr>"]]
  show ?thesis unfolding streamCloses(1) using streamCloses(2) by simp
qed

lemma start_inv: "wkStart begins x \<Longrightarrow> workerInv fine held x"
  using begins_fine by (auto simp: wkStart_def workerInv_def rowsOK_def)

lemma reach_inv: "reach (wkStart begins) (wkStep estep ecall digest arch) x \<Longrightarrow> workerInv fine held x"
  by (induction rule: reach.induct) (use start_inv step_inv in blast)+

text \<open>A job the worker reports as complete has no client, and the executor holds nothing for it.\<close>

lemma complete_free:
  assumes "reach (wkStart begins) (wkStep estep ecall digest arch) x" "r \<in> set (wk_rows (wx_w x))" "wj_Cleanup r = ''complete''"
  shows "(jobID r, i) \<notin> set (wx_live x)" "\<not> held (wx_exec x) (wk_instance (wx_w x)) (jobID r)"
proof -
  note ok = rowsOKD(2)[OF workerInv_rows[OF reach_inv[OF assms(1)]] assms(2)]
  have c: "completeJ r" using assms(3) by (simp add: completeJ_def)
  show "(jobID r, i) \<notin> set (wx_live x)" using jobOK_D(6,8)[OF ok] c by (auto simp: knows_def)
  show "\<not> held (wx_exec x) (wk_instance (wx_w x)) (jobID r)" using jobOK_D(10)[OF ok] c by blast
qed

end

section \<open>The executor is such an authority\<close>

definition holds :: "ExSys \<Rightarrow> string \<Rightarrow> string \<Rightarrow> bool" where
  "holds x i t \<longleftrightarrow> (\<exists>s\<in>set (ex_db (x_ex x)). xs_WorkerInstance s = i \<and> xs_TaskID s = t \<and> \<not> sessionReleased s)"

lemma grown_holds:
  assumes "grown P (ex_db (x_ex x)) (ex_db (x_ex y))" "holds y i t"
  shows "holds x i t \<or> (\<exists>s. P s \<and> xs_WorkerInstance s = i \<and> xs_TaskID s = t)"
  using assms unfolding grown_def holds_def samePair_def by metis

lemma call_stop_ends:
  assumes inv: "executorInv x" and c: "exCall x ''stop'' a (Inr s) y" and rel: "NixResources_Released (xs_Resources s)"
  shows "\<not> holds y (xq_WorkerInstance a) (xq_TaskID a)"
  using c
proof cases
  case (exCallI ident io now e)
  have "sessionReleased t" if "t \<in> set (ex_db e)" "asked a t" for t
    by (rule stop_reply[OF executorInv_up[OF inv exCallI(2)] exCallI(3,4,7) _ that]) (use rel in \<open>simp add: sessionReleased_def\<close>)
  then show ?thesis unfolding exCallI(1) by (auto simp: holds_def asked_def)
qed

interpretation executor_sessions: session_authority executorInv exOwn exCall holds exStart
proof
  fix x y verb a r i t s
  show "executorInv x \<and> \<not> holds x i t" if "exStart x" using executor.inv_start[OF that] that by (simp add: exStart_def holds_def)
  show "executorInv y" if "executorInv x" "exOwn x y" using executor_own[OF that(2,1)] by (simp add: stepOK_def)
  show "holds x i t" if "executorInv x" "exOwn x y" "holds y i t"
    using grown_holds[of nothing x y i t] executor_own[OF that(2,1)] that(3) by (auto simp: stepOK_def)
  show "executorInv y" if "executorInv x" "exCall x verb a r y" using executor_call[OF that(2,1)] by (simp add: stepOK_def)
  show "holds x i t \<or> verb = ''create'' \<and> i = xq_WorkerInstance a \<and> t = xq_TaskID a" if "executorInv x" "exCall x verb a r y" "holds y i t"
    using grown_holds[of "\<lambda>s. verb = ''create'' \<and> asked a s" x y i t] executor_call[OF that(2,1)] that(3) by (auto simp: stepOK_def asked_def)
  show "\<not> holds y (xq_WorkerInstance a) (xq_TaskID a)" if "executorInv x" "exCall x ''stop'' a (Inr s) y" "NixResources_Released (xs_Resources s)"
    by (rule call_stop_ends[OF that])
qed

text \<open>The worker over the executor.\<close>

abbreviation nixStep :: "(WFile list \<Rightarrow> string) \<Rightarrow> string \<Rightarrow> ExSys WSys \<Rightarrow> ExSys WSys \<Rightarrow> bool" where
  "nixStep \<equiv> wkStep exOwn exCall"

abbreviation nixStart :: "ExSys WSys \<Rightarrow> bool" where
  "nixStart \<equiv> wkStart exStart"

end
