(* ===== verification/WorkerRun.thy ===== *)
theory WorkerRun
  imports WorkerSystem
begin

text \<open>A run of the worker over the executor, on which the properties of the worker are evaluated.\<close>

section \<open>A job is accepted, admitted and its first client starts\<close>

definition wkRequest :: WRequest where
  "wkRequest = zeroRequest\<lparr>wr_UploadID := runID, wr_InstanceID := runID, wr_TaskID := runID, wr_Derivation := ''/nix/store/'' @ replicate 32 CHR ''a'' @ ''-x.drv'',
     wr_System := ''x86_64-linux'', wr_Cache := ''/files/c'', wr_TimeoutSeconds := 1\<rparr>"
definition wkURL :: urlParts where "wkURL = \<lparr>ul_Scheme = [], ul_Host = [], ul_Path = ''/files/c'', ul_RawQuery = [], ul_Fragment = []\<rparr>"
definition wkStartIO :: start_io where "wkStartIO = \<lparr>si_load = None, si_url = Inr wkURL, si_mkdir = None, si_save = None\<rparr>"
definition wkEmpty :: Worker where
  "wkEmpty = \<lparr>wk_closing = False, wk_lastRetention = 0, wk_instance = runID, wk_rows = [], wk_files = [], wk_jobs = [], wk_cancel = [], wk_cancelled = [], wk_streams = [], wk_active = []\<rparr>"
definition wkIO :: run_io where
  "wkIO = \<lparr>rn_err = None, rn_described = Inr (describeExecutor runExecutor, True), rn_process = processResult ''session'' None, rn_outputs = [], rn_interrupted = False\<rparr>"
definition wkAt :: "Worker \<Rightarrow> wthread list \<Rightarrow> (string \<times> ProcessIdentity) list \<Rightarrow> ExSys \<Rightarrow> ExSys WSys" where
  "wkAt w ths live e = \<lparr>wx_up = True, wx_w = w, wx_threads = ths, wx_live = live, wx_boot = ''b'', wx_exec = e\<rparr>"
definition wkDown :: "ExSys \<Rightarrow> ExSys WSys" where
  "wkDown e = \<lparr>wx_up = False, wx_w = wkEmpty, wx_threads = [], wx_live = [], wx_boot = ''b'', wx_exec = e\<rparr>"
definition wkBegin :: gotime where "wkBegin = 10 - second"

definition wkFresh :: Worker where "wkFresh = snd (newWorker None (\<lambda>_. None) 0 wkEmpty)"
definition wkStarted :: Worker where "wkStarted = fst (snd (callStart ''amd64'' wkStartIO wkBegin wkRequest wkFresh))"
definition after :: "(WJob \<times> Worker \<Rightarrow> 'a \<times> WJob \<times> Worker) \<Rightarrow> Worker \<Rightarrow> Worker" where
  "after f w = (case withJob runID f w of Some (_, w') \<Rightarrow> w' | None \<Rightarrow> w)"
definition wkAdmitting :: Worker where "wkAdmitting = after (runSection wkIO 1 PAdmit) wkStarted"
definition wkAdmitted :: Worker where "wkAdmitted = after (runSection wkIO 1 (PAdmitted (rt_session runSession))) wkAdmitting"
definition wkProcess :: ProcessIdentity where "wkProcess = \<lparr>pi_PID = 4, pi_Start = ''s''\<rparr>"
definition wkLaunch :: launch_io where
  "wkLaunch = \<lparr>la_boot = Inr ''b'', la_save1 = None, la_start = Inr wkProcess, la_inspect = Inr wkProcess, la_save2 = None\<rparr>"
definition wkLaunched :: Worker where "wkLaunched = after (launchClient wkLaunch) wkAdmitted"

abbreviation nixReach :: "ExSys WSys \<Rightarrow> bool" where
  "nixReach \<equiv> reach nixStart (nixStep (\<lambda>_. []) ''amd64'')"

lemmas wk_next = reach_trans[of nixStart "nixStep (\<lambda>_. []) ''amd64''"]

lemma wk_up: "nixReach (wkAt wkFresh [] [] (runState runExecutor None))"
proof -
  let ?e = "\<lparr>x_up = False, x_ex = runExecutor, x_kernel = (\<lambda>_. None)\<rparr>"
  have r: "recoverExecutor (\<lambda>_. runSave) 0 (\<lambda>_. Inl (EErrno 2 [])) ((x_ex ?e)\<lparr>ex_invocation := ''i'', ex_groups := ''/g'', ex_cfg := ex_cfg runExecutor,
      ex_sessions := [], ex_closing := False\<rparr>) = (None, runExecutor)" by code_simp
  have "exOwn ?e (?e\<lparr>x_up := (None = (None :: goerr option)), x_ex := runExecutor\<rparr>)"
    by (rule exOwn.start[OF _ _ r]) (simp_all add: honestOpen_def)
  then have e: "exOwn ?e (runState runExecutor None)" by (simp add: runState_def fun_upd_idem)
  have "nixStart (wkDown ?e)" by (simp add: wkStart_def wkDown_def wkEmpty_def exStart_def runExecutor_def)
  from wk_next[OF reach_start[of nixStart, OF this] wkStep.executor[of exOwn, OF _]] e
  have "nixReach ((wkDown ?e)\<lparr>wx_exec := runState runExecutor None\<rparr>)" by (simp add: wkDown_def)
  then have down: "nixReach (wkDown (runState runExecutor None))" by (simp add: wkDown_def)
  have n: "newWorker None (\<lambda>_. None) 0 wkEmpty = (None, wkFresh)" by code_simp
  have "nixStep (\<lambda>_. []) ''amd64'' (wkDown (runState runExecutor None)) ((wkDown (runState runExecutor None))\<lparr>wx_up := (None = (None :: goerr option)), wx_w := wkFresh, wx_threads := []\<rparr>)"
    by (rule wkStep.restart[where loadErr = None and errs = "\<lambda>_. None" and now = 0]) (simp_all add: wkDown_def n)
  from wk_next[OF down this] show ?thesis by (simp add: wkAt_def wkDown_def)
qed

lemma wk_accepted: "nixReach (wkAt wkStarted [TRun runID PLog] [] (runState runExecutor None))"
proof -
  have "\<not> isl (fst (callStart ''amd64'' wkStartIO wkBegin wkRequest wkFresh)) \<and> snd (snd (callStart ''amd64'' wkStartIO wkBegin wkRequest wkFresh))" by code_simp
  then obtain v where v: "callStart ''amd64'' wkStartIO wkBegin wkRequest wkFresh = (Inr v, wkStarted, True)"
    by (cases "callStart ''amd64'' wkStartIO wkBegin wkRequest wkFresh"; cases "fst (callStart ''amd64'' wkStartIO wkBegin wkRequest wkFresh)") (auto simp: wkStarted_def)
  have t: "wr_TaskID wkRequest = runID" by (simp add: wkRequest_def)
  have "nixStep (\<lambda>_. []) ''amd64'' (wkAt wkFresh [] [] (runState runExecutor None))
      ((wkAt wkFresh [] [] (runState runExecutor None))\<lparr>wx_w := wkStarted,
        wx_threads := wx_threads (wkAt wkFresh [] [] (runState runExecutor None)) @ (if True then [TRun (wr_TaskID wkRequest) PLog] else [])\<rparr>)"
    by (rule wkStep.start[where io = wkStartIO and now = wkBegin and reply = "Inr v"]) (use runID_ok t v in \<open>simp_all add: wkAt_def\<close>)
  from wk_next[OF wk_up this] show ?thesis by (simp add: wkAt_def t)
qed

lemma wk_section_step:
  assumes "nixReach (wkAt w [TRun runID pc] [] e)" "sectional pc" "withJob runID (runSection io now pc) w = Some ((pc', started), w')"
  shows "nixReach (wkAt w' (runThread runID pc' @ reconcileThread runID started) [] e)"
proof -
  have "nixStep (\<lambda>_. []) ''amd64'' (wkAt w [TRun runID pc] [] e)
      ((replaceThread (TRun runID pc) (runThread runID pc' @ reconcileThread runID started) (wkAt w [TRun runID pc] [] e))\<lparr>wx_w := w'\<rparr>)"
    by (rule wkStep.run) (use assms(2,3) in \<open>simp_all add: wkAt_def\<close>)
  from wk_next[OF assms(1) this] show ?thesis by (simp add: wkAt_def replaceThread_def)
qed

lemma wk_created: "nixReach (wkAt wkAdmitting [TRun runID (PAdmitted (rt_session runSession))] [] (runState runCreated (Some (7, 0))))"
proof -
  have "withJob runID (runSection wkIO 1 PLog) wkStarted = Some ((Some PAdmit, False), wkStarted)" by code_simp
  from wk_section_step[OF wk_accepted _ this] have a: "nixReach (wkAt wkStarted [TRun runID PAdmit] [] (runState runExecutor None))"
    by (simp add: runThread_def reconcileThread_def)
  have "withJob runID (runSection wkIO 1 PAdmit) wkStarted = Some ((Some (PCreate runRequest), False), wkAdmitting)" by code_simp
  from wk_section_step[OF a _ this] have b: "nixReach (wkAt wkAdmitting [TRun runID (PCreate runRequest)] [] (runState runExecutor None))"
    by (simp add: runThread_def reconcileThread_def)
  have "nixStep (\<lambda>_. []) ''amd64'' (wkAt wkAdmitting [TRun runID (PCreate runRequest)] [] (runState runExecutor None))
      ((replaceThread (TRun runID (PCreate runRequest)) [TRun runID (afterCreate (Inr (rt_session runSession)))]
        (wkAt wkAdmitting [TRun runID (PCreate runRequest)] [] (runState runExecutor None)))\<lparr>wx_exec := runState runCreated (Some (7, 0))\<rparr>)"
    by (rule wkStep.create) (use run_createCall in \<open>simp_all add: wkAt_def called_def\<close>)
  from wk_next[OF b this] show ?thesis by (simp add: wkAt_def replaceThread_def afterCreate_def)
qed

lemma wk_launched: "nixReach (wkAt wkLaunched [TRun runID (PWait ''session'' None (Some wkProcess))] [(runID, wkProcess)] (runState runCreated (Some (7, 0))))"
proof -
  have "withJob runID (runSection wkIO 1 (PAdmitted (rt_session runSession))) wkAdmitting = Some ((Some (PClient ''session''), False), wkAdmitted)" by code_simp
  from wk_section_step[OF wk_created _ this] have a: "nixReach (wkAt wkAdmitted [TRun runID (PClient ''session'')] [] (runState runCreated (Some (7, 0))))"
    by (simp add: runThread_def reconcileThread_def)
  have l: "withJob runID (launchClient wkLaunch) wkAdmitted = Some (Inr (None, Some wkProcess), wkLaunched)" by code_simp
  have "nixStep (\<lambda>_. []) ''amd64'' (wkAt wkAdmitted [TRun runID (PClient ''session'')] [] (runState runCreated (Some (7, 0))))
      ((replaceThread (TRun runID (PClient ''session'')) [TRun runID (afterLaunch ''session'' (Inr (None, Some wkProcess)))]
        (wkAt wkAdmitted [TRun runID (PClient ''session'')] [] (runState runCreated (Some (7, 0)))))\<lparr>wx_w := wkLaunched,
        wx_live := launched runID (Inr (None, Some wkProcess)) (wx_live (wkAt wkAdmitted [TRun runID (PClient ''session'')] [] (runState runCreated (Some (7, 0)))))\<rparr>)"
    by (rule wkStep.launch[where io = wkLaunch]) (use l in \<open>simp_all add: wkAt_def wkLaunch_def\<close>)
  from wk_next[OF a this] show ?thesis by (simp add: wkAt_def replaceThread_def afterLaunch_def launched_def)
qed

section \<open>A job fails early and is cleaned up\<close>

definition wkFailIO :: run_io where "wkFailIO = wkIO\<lparr>rn_err := Some (EText ''log'')\<rparr>"
definition wkEnded :: Worker where "wkEnded = after (runSection wkIO 2 (PComplete (Some (EText ''log'')) False)) wkStarted"
definition wkNothing :: Recon where
  "wkNothing = \<lparr>rc_finished = False, rc_request = runRequest, rc_intent = False, rc_expected = [], rc_client = None, rc_launching = False, rc_clientBoot = [], rc_releaseDeadline = 0\<rparr>"
definition wkRecon :: Recon where
  "wkRecon = (case getJob runID wkEnded of Some j \<Rightarrow> (case reconcileBegin 3 (j, wkEnded) of (Some q, _) \<Rightarrow> q | _ \<Rightarrow> wkNothing) | None \<Rightarrow> wkNothing)"
definition wkObserved :: Worker where "wkObserved = after (\<lambda>(j, w). case reconcileBegin 3 (j, w) of (q, j1) \<Rightarrow> (q, j1, w)) wkEnded"
definition wkRelease :: release_io where "wkRelease = \<lparr>ri_pidfd = None, ri_identity = Inl (EText []), ri_kill = None\<rparr>"
definition wkComplete :: Worker where
  "wkComplete = after (\<lambda>jw. case reconcileEnd None None 4 neverAdmitted False (True, None) wkRecon jw of (y, started) \<Rightarrow> (started, y)) wkObserved"

lemma wk_ended: "nixReach (wkAt wkEnded [TReconcile runID] [] (runState runExecutor None))"
proof -
  have "withJob runID (runSection wkFailIO 1 PLog) wkStarted = Some ((Some (PComplete (Some (EText ''log'')) False), False), wkStarted)" by code_simp
  from wk_section_step[OF wk_accepted _ this] have a: "nixReach (wkAt wkStarted [TRun runID (PComplete (Some (EText ''log'')) False)] [] (runState runExecutor None))"
    by (simp add: runThread_def reconcileThread_def)
  have "withJob runID (runSection wkIO 2 (PComplete (Some (EText ''log'')) False)) wkStarted = Some ((None, True), wkEnded)" by code_simp
  from wk_section_step[OF a _ this] show ?thesis by (simp add: runThread_def reconcileThread_def)
qed

lemma wk_complete: "nixReach (wkAt wkComplete [TObserved runID, TCollect runID] [] (runState runExecutor None))"
proof -
  let ?e = "runState runExecutor None"
  have r: "withJob runID (\<lambda>(j, w). case reconcileBegin 3 (j, w) of (q, j1) \<Rightarrow> (q, j1, w)) wkEnded = Some (Some wkRecon, wkObserved)" by code_simp
  have "nixStep (\<lambda>_. []) ''amd64'' (wkAt wkEnded [TReconcile runID] [] ?e)
      ((replaceThread (TReconcile runID) [afterReconcile runID (Some wkRecon)] (wkAt wkEnded [TReconcile runID] [] ?e))\<lparr>wx_w := wkObserved\<rparr>)"
    by (rule wkStep.reconcile[where now = 3]) (use r in \<open>simp_all add: wkAt_def\<close>)
  from wk_next[OF wk_ended this] have a: "nixReach (wkAt wkObserved [TStop runID wkRecon] [] ?e)" by (simp add: wkAt_def replaceThread_def afterReconcile_def)
  have q: "\<not> rc_intent wkRecon" "rc_finished wkRecon" "\<not> rc_launching wkRecon" "rc_client wkRecon = None" by (code_simp+)
  have "nixStep (\<lambda>_. []) ''amd64'' (wkAt wkObserved [TStop runID wkRecon] [] ?e)
      ((replaceThread (TStop runID wkRecon) [TClient runID wkRecon (stopReply (Inl ECanceled) wkRecon) (stillLaunching None wkRecon)] (wkAt wkObserved [TStop runID wkRecon] [] ?e))\<lparr>wx_exec := ?e\<rparr>)"
    by (rule wkStep.stop) (use q in \<open>simp_all add: wkAt_def\<close>)
  from wk_next[OF a this] have b: "nixReach (wkAt wkObserved [TClient runID wkRecon neverAdmitted False] [] ?e)"
    using q by (simp add: wkAt_def replaceThread_def stopReply_def stillLaunching_def)
  have "nixStep (\<lambda>_. []) ''amd64'' (wkAt wkObserved [TClient runID wkRecon neverAdmitted False] [] ?e)
      (replaceThread (TClient runID wkRecon neverAdmitted False) [TReport runID wkRecon neverAdmitted False (clientGone wkRelease False neverAdmitted wkRecon)]
        (wkAt wkObserved [TClient runID wkRecon neverAdmitted False] [] ?e))"
    by (rule wkStep.client) (use q in \<open>simp_all add: wkAt_def honestRelease_def\<close>)
  from wk_next[OF b this] have c: "nixReach (wkAt wkObserved [TReport runID wkRecon neverAdmitted False (True, None)] [] ?e)"
    using q by (simp add: wkAt_def replaceThread_def clientGone_def releaseClient_def neverAdmitted_def)
  have f: "withJob runID (\<lambda>jw. case reconcileEnd None None 4 neverAdmitted False (True, None) wkRecon jw of (y, started) \<Rightarrow> (started, y)) wkObserved = Some (True, wkComplete)"
    by code_simp
  have "nixStep (\<lambda>_. []) ''amd64'' (wkAt wkObserved [TReport runID wkRecon neverAdmitted False (True, None)] [] ?e)
      ((replaceThread (TReport runID wkRecon neverAdmitted False (True, None)) (TObserved runID # collectThread runID True)
        (wkAt wkObserved [TReport runID wkRecon neverAdmitted False (True, None)] [] ?e))\<lparr>wx_w := wkComplete\<rparr>)"
    by (rule wkStep.report) (use f in \<open>simp_all add: wkAt_def\<close>)
  from wk_next[OF c this] show ?thesis by (simp add: wkAt_def replaceThread_def collectThread_def)
qed

section \<open>What holds in every run\<close>

text \<open>
  C1. When the worker has recorded a job as cleaned up, no Nix client of that job lives, the executor holds no session for
  it, and no process is left in the control groups of its sessions: whatever crashed, was lost or was restarted before.
\<close>

theorem complete_job_frees_everything:
  assumes "reach nixStart (nixStep digest arch) x" "r \<in> set (wk_rows (wx_w x))" "wj_Cleanup r = ''complete''"
  shows "(\<forall>p. (jobID r, p) \<notin> set (wx_live x)) \<and>
    (\<forall>s\<in>set (ex_db (x_ex (wx_exec x))). xs_WorkerInstance s = wk_instance (wx_w x) \<and> xs_TaskID s = jobID r \<longrightarrow>
       sessionReleased s \<and> (\<forall>i n. x_kernel (wx_exec x) (xs_Group s) = Some (i, n) \<longrightarrow> n = 0))"
proof -
  have inv: "executorInv (wx_exec x)" using executor_sessions.reach_inv[OF assms(1)] by (simp add: workerInv_def)
  have "sessionReleased s \<and> noLive (x_kernel (wx_exec x)) (xs_Group s)"
    if s: "s \<in> set (ex_db (x_ex (wx_exec x)))" "xs_WorkerInstance s = wk_instance (wx_w x)" "xs_TaskID s = jobID r" for s
  proof -
    have rel: "sessionReleased s" using executor_sessions.complete_free(2)[OF assms] s unfolding holds_def by blast
    then show ?thesis using session_live[OF inv s(1)] by blast
  qed
  then show ?thesis using executor_sessions.complete_free(1)[OF assms] unfolding noLive_def by blast
qed

text \<open>
  C16. Every Nix client that lives is on record: the stored job of its task names it, or says that a client was being
  launched in the boot that still runs, so that a worker that starts again finds it.
\<close>

theorem living_client_on_record:
  assumes "reach nixStart (nixStep digest arch) x" "(t, p) \<in> set (wx_live x)"
  shows "\<exists>r\<in>set (wk_rows (wx_w x)). jobID r = t \<and> wj_Cleanup r \<noteq> ''complete'' \<and>
    (ws_Client (wj_Session r) = Some p \<or> ws_Launching (wj_Session r) \<and> ws_ClientBoot (wj_Session r) = wx_boot x)"
proof -
  note rows = workerInv_rows[OF executor_sessions.reach_inv[OF assms(1)]]
  obtain r where r: "r \<in> set (wk_rows (wx_w x))" "jobID r = t" using rowsOKD(3)[OF rows assms(2)] by blast
  note ok = rowsOKD(2)[OF rows r(1)]
  have k: "knows (wx_boot x) (clientJ r) p" by (rule jobOK_D(8)[OF ok]) (use assms(2) r(2) in simp)
  moreover have "wj_Cleanup r \<noteq> ''complete''" using jobOK_D(6)[OF ok] k by (auto simp: completeJ_def knows_def)
  ultimately show ?thesis using r by (auto simp: knows_def clientJ_def)
qed

text \<open>
  C17. The stages of a job in the store come in order: copies are removed only after the handoff is acknowledged, the handoff
  only after the clean-up is complete, and that only with released resources and a recorded end; evidence is collected
  at most three times without an intervention.
\<close>

theorem stored_job_stages:
  assumes "reach nixStart (nixStep digest arch) x" "r \<in> set (wk_rows (wx_w x))"
  shows "(wj_CopiesReleased r \<longrightarrow> wj_HandoffComplete r) \<and> (wj_HandoffComplete r \<longrightarrow> wj_Cleanup r = ''complete'') \<and>
    (wj_Cleanup r = ''complete'' \<longrightarrow> NixResources_Released (nx_Resources (wj_Execution r)) \<and> nx_Finished (wj_Execution r) \<noteq> None) \<and>
    0 \<le> ne_Attempts (nx_Evidence (wj_Execution r)) \<and> ne_Attempts (nx_Evidence (wj_Execution r)) \<le> 3"
  using jobOK_D(1-5)[OF rowsOKD(2)[OF workerInv_rows[OF executor_sessions.reach_inv[OF assms(1)]] assms(2)]]
  by (auto simp: completeJ_def finishedJ_def resourcesOf_def evidenceOf_def evidenceOK_def)

text \<open>
  The worker runs one job at a time, and each job has at most one observer: of the goroutines at work at most one is a
  run, its task is the active one, and no two observe the same job.
\<close>

lemma one_run_one_observer:
  assumes "reach nixStart (nixStep digest arch) x" "wx_up x"
  shows "length (concat (map runs (wx_threads x))) \<le> 1 \<and> distinct (concat (map observedBy (wx_threads x))) \<and>
    (\<forall>t pc. TRun t pc \<in> set (wx_threads x) \<longrightarrow> wk_active (wx_w x) = t)"
proof -
  note up = workerInv_up(2)[OF executor_sessions.reach_inv[OF assms(1)] assms(2)]
  have "wk_active (wx_w x) = t" if "TRun t pc \<in> set (wx_threads x)" for t pc using upOKD(4)[OF up that] by simp
  then show ?thesis using upOKD(3)[OF up] by (simp add: threadsOK_def)
qed

text \<open>
  As long as the table can be read, a task that has a row or a job in memory is never run again, and its row stays: the
  tombstone of a sealed task refuses a start that arrives late.
\<close>

lemma known_task_not_run_again:
  assumes "si_load io = None" "findRow (wr_TaskID a) w \<noteq> None \<or> getJob (wr_TaskID a) w \<noteq> None"
  shows "\<exists>reply w'. callStart arch io now a w = (reply, w', False) \<and> wk_rows w' = wk_rows w \<and> wk_active w' = wk_active w"
proof -
  define v where "v = (if getJob (wr_TaskID a) w \<noteq> None then w else (case loadJob (si_load io) (wr_TaskID a) w of Inr old \<Rightarrow> enterJob (wr_TaskID a) old w | Inl _ \<Rightarrow> w))"
  have "getJob (wr_TaskID a) v \<noteq> None"
  proof (cases "getJob (wr_TaskID a) w")
    case None
    then obtain r where "findRow (wr_TaskID a) w = Some r" using assms(2) by blast
    then show ?thesis using None assms(1) by (simp add: v_def loadJob_def)
  qed (simp add: v_def)
  then obtain old where old: "getJob (wr_TaskID a) v = Some old" by blast
  have v: "wk_rows v = wk_rows w" "wk_active v = wk_active w" by (auto simp: v_def split: sum.splits)
  show ?thesis unfolding callStart_def Let_def v_def[symmetric] old option.case using v by auto
qed

text \<open>
  C37. A read that fails is taken for a missing row: a start of a task whose stored job is complete then overwrites that job
  and runs the task once more.
\<close>

theorem failed_read_runs_again:
  assumes "si_load io = Some err" "getJob (wr_TaskID a) w = None" "\<not> wk_closing w" "wk_active w = []" "IDPattern (wr_UploadID a)"
    "wr_System a = hostSystem arch" "StorePattern (wr_Derivation a)" "HasSuffix (wr_Derivation a) ''.drv''" "1 \<le> wr_TimeoutSeconds a" "wr_TimeoutSeconds a \<le> 86400"
    "cachePath (si_url io)" "si_mkdir io = None" "si_save io = None" "findRow (wr_TaskID a) w = Some r" "wj_Cleanup r = ''complete''"
  shows "\<exists>view w' r'. callStart arch io now a w = (Inr view, w', True) \<and> findRow (wr_TaskID a) w' = Some r' \<and> wj_Cleanup r' = ''pending'' \<and> wj_State r' = ''importing''"
proof -
  have row: "r \<in> set (wk_rows w)" "jobID r = wr_TaskID a" using find_row[OF assms(14)] by auto
  have id: "jobID (rowOf (newJob now a)) = wr_TaskID a" "wj_Cleanup (rowOf (newJob now a)) = ''pending''" "wj_State (rowOf (newJob now a)) = ''importing''"
    by (simp_all add: rowOf_def newJob_def jobID_def)
  obtain view w' where c: "callStart arch io now a w = (Inr view, w', True)" "wk_rows w' = upsertRow (rowOf (newJob now a)) (wk_rows w)"
    using assms(1-13) by (simp add: callStart_def loadJob_def saveJob_def Let_def)
  have m: "\<exists>x\<in>set (wk_rows w'). jobID x = wr_TaskID a" using putRowD(3)[OF putRow_upsert[OF core_rowOf, of "newJob now a" "wk_rows w"]] c(2) newJob_sane(2) by simp
  obtain r' where f: "findRow (wr_TaskID a) w' = Some r'"
    using m by (cases "findRow (wr_TaskID a) w'") (auto simp: findRow_def find_None_iff)
  have "coreJ r' = coreJ (newJob now a)"
    using putRowD(2)[OF putRow_upsert[OF core_rowOf, of "newJob now a" "wk_rows w"]] c(2) find_row[OF f] newJob_sane(2) by simp
  then have "wj_Cleanup r' = ''pending'' \<and> wj_State r' = ''importing''" by (simp add: coreJ_def newJob_def)
  then show ?thesis using c(1) f by blast
qed

lemma wk_rows_seen:
  "\<exists>r. wk_rows wkComplete = [r] \<and> jobID r = runID \<and> wj_Cleanup r = ''complete''" "\<exists>r. wk_rows wkLaunched = [r] \<and> jobID r = runID \<and> ws_Client (wj_Session r) = Some wkProcess"
proof -
  have "map (\<lambda>r. (jobID r, wj_Cleanup r)) (wk_rows wkComplete) = [(runID, ''complete'')]" by code_simp
  then show "\<exists>r. wk_rows wkComplete = [r] \<and> jobID r = runID \<and> wj_Cleanup r = ''complete''" by (cases "wk_rows wkComplete") auto
  have "map (\<lambda>r. (jobID r, ws_Client (wj_Session r))) (wk_rows wkLaunched) = [(runID, Some wkProcess)]" by code_simp
  then show "\<exists>r. wk_rows wkLaunched = [r] \<and> jobID r = runID \<and> ws_Client (wj_Session r) = Some wkProcess" by (cases "wk_rows wkLaunched") auto
qed

theorem complete_job_frees_everything_witness:
  "\<exists>r. wk_rows wkComplete = [r] \<and> wj_Cleanup r = ''complete'' \<and> (\<forall>s\<in>set (ex_db runExecutor). xs_WorkerInstance s = runID \<and> xs_TaskID s = jobID r \<longrightarrow> sessionReleased s)"
proof -
  obtain r where r: "wk_rows wkComplete = [r]" "wj_Cleanup r = ''complete''" using wk_rows_seen(1) by blast
  have "wk_instance wkComplete = runID" by code_simp
  then show ?thesis using complete_job_frees_everything[OF wk_complete, of r] r by (simp add: wkAt_def runState_def)
qed

theorem living_client_on_record_witness:
  "\<exists>r\<in>set (wk_rows wkLaunched). jobID r = runID \<and> (ws_Client (wj_Session r) = Some wkProcess \<or> ws_Launching (wj_Session r) \<and> ws_ClientBoot (wj_Session r) = ''b'')"
  using living_client_on_record[OF wk_launched, of runID wkProcess] by (auto simp: wkAt_def)

theorem stored_job_stages_witness:
  "\<exists>r. wk_rows wkComplete = [r] \<and> NixResources_Released (nx_Resources (wj_Execution r)) \<and> ne_Attempts (nx_Evidence (wj_Execution r)) \<le> 3"
proof -
  obtain r where r: "wk_rows wkComplete = [r]" "wj_Cleanup r = ''complete''" using wk_rows_seen(1) by blast
  then show ?thesis using stored_job_stages[OF wk_complete, of r] by (simp add: wkAt_def)
qed

theorem failed_read_runs_again_witness:
  "\<exists>view w' r. callStart ''amd64'' (wkStartIO\<lparr>si_load := Some (EText ''busy'')\<rparr>) 9 wkRequest (wkComplete\<lparr>wk_jobs := []\<rparr>) = (Inr view, w', True) \<and>
     findRow runID w' = Some r \<and> wj_Cleanup r = ''pending''"
proof -
  obtain r where r: "wk_rows wkComplete = [r]" "jobID r = runID" "wj_Cleanup r = ''complete''" using wk_rows_seen(1) by blast
  have t: "wr_TaskID wkRequest = runID" by (simp add: wkRequest_def)
  have f: "findRow (wr_TaskID wkRequest) (wkComplete\<lparr>wk_jobs := []\<rparr>) = Some r" using r t by (simp add: findRow_def)
  have c: "si_load (wkStartIO\<lparr>si_load := Some (EText ''busy'')\<rparr>) = Some (EText ''busy'')" "getJob (wr_TaskID wkRequest) (wkComplete\<lparr>wk_jobs := []\<rparr>) = None"
    "\<not> wk_closing (wkComplete\<lparr>wk_jobs := []\<rparr>)" "wk_active (wkComplete\<lparr>wk_jobs := []\<rparr>) = []" "IDPattern (wr_UploadID wkRequest)" "wr_System wkRequest = hostSystem ''amd64''"
    "StorePattern (wr_Derivation wkRequest)" "HasSuffix (wr_Derivation wkRequest) ''.drv''" "1 \<le> wr_TimeoutSeconds wkRequest" "wr_TimeoutSeconds wkRequest \<le> 86400"
    "cachePath (si_url (wkStartIO\<lparr>si_load := Some (EText ''busy'')\<rparr>))" "si_mkdir (wkStartIO\<lparr>si_load := Some (EText ''busy'')\<rparr>) = None"
    "si_save (wkStartIO\<lparr>si_load := Some (EText ''busy'')\<rparr>) = None"
    by (code_simp+)
  from failed_read_runs_again[OF c f r(3), of 9] show ?thesis unfolding t by blast
qed

end
