(* ===== verification/Handoff.thy ===== *)
theory Handoff
  imports Safefs WorkerInv "HOL-Library.Char_ord" "HOL-Library.List_Lexorder"
begin

text \<open>
  The handoff of evidence from the Nix worker to the controller: \<^verbatim>\<open>internal/wire/handoff.go\<close>, \<^verbatim>\<open>internal/nixos/evidence.go\<close>,
  \<^verbatim>\<open>PublishEvidence\<close> of \<^verbatim>\<open>repository_evidence.go\<close> and \<^verbatim>\<open>transferNixEvidence\<close> of \<^verbatim>\<open>nix_lifecycle.go\<close>, over the worker's side
  in the theory \<open>Worker\<close>.  The decoded replies of the worker, the streams it serves and the outcomes of file operations are
  inputs; SHA-256 and the digest of a manifest are parameters.  The last section shows that the worker, which removes its
  copies once a handoff is accepted, accepts one only when the controller holds every file.
\<close>

section \<open>The manifest\<close>

record HandoffFile =
  hf_ID :: string
  hf_Size :: int
  hf_SHA256 :: string

definition ManifestDigest :: "(HandoffFile list \<Rightarrow> string) \<Rightarrow> HandoffFile list \<Rightarrow> string" where
  "ManifestDigest seal files = seal (sort_key hf_ID files)"

definition handoffFile :: "WFile \<Rightarrow> HandoffFile" where
  "handoffFile f = \<lparr>hf_ID = wf_ID f, hf_Size = wf_Size f, hf_SHA256 = wf_SHA256 f\<rparr>"

section \<open>The log\<close>

text \<open>One reply of the worker to a read of its log: the bytes, the next offset and whether the end was reached.\<close>

record LogReply =
  lr_data :: string
  lr_next :: int
  lr_eof :: bool

text \<open>
  \<^verbatim>\<open>io.CopyN\<close> from a \<^verbatim>\<open>workerLogReader\<close>: at most \<open>left\<close> bytes are appended; \<open>replies\<close> are the decoded replies in the order of the
  calls, and running out of them is a call that does not return before the deadline.
\<close>

fun copyLog :: "LogReply res list \<Rightarrow> nat \<Rightarrow> string \<Rightarrow> goerr option \<times> string" where
  "copyLog [] left text = (if left = 0 then None else Some EDeadlineExceeded, text)"
| "copyLog (reply # replies) left text =
    (if left = 0 then (None, text)
     else (case reply of
        Inl e \<Rightarrow> (Some e, text)
      | Inr v \<Rightarrow>
         if lr_next v \<noteq> int (length text) + int (length (lr_data v)) \<or> lr_data v = [] \<and> \<not> lr_eof v
         then (Some (EText ''invalid worker read offset''), text)
         else let text' = text @ take left (lr_data v) in
           if lr_eof v then (None, text') else copyLog replies (left - length (lr_data v)) text'))"

text \<open>The log of the task on disk, and what happens to one attempt to extend it.\<close>

record log_io =
  li_open :: "goerr option"
  li_replies :: "LogReply res list"
  li_sync :: "goerr option"

definition extendLog :: "log_io \<Rightarrow> string \<Rightarrow> goerr option \<times> string" where
  "extendLog io text =
    (case li_open io of
       Some e \<Rightarrow> (Some e, text)
     | None \<Rightarrow> (case copyLog (li_replies io) (64 * 1024 * 1024) text of
         (err, text') \<Rightarrow> (orElse (li_sync io) err, text')))"

text \<open>The log on disk stays a prefix of the worker's log, as long as the worker serves what it has at the offset it names.\<close>

lemma copyLog_prefix:
  assumes "prefix text0 whole" "copyLog replies left text0 = (e, text1)"
    "\<forall>v. Inr v \<in> set replies \<longrightarrow> prefix (lr_data v) (drop (nat (lr_next v) - length (lr_data v)) whole)"
  shows "prefix text1 whole"
  using assms
proof (induction replies left text0 rule: copyLog.induct)
  case (2 reply replies left text0)
  show ?case
  proof (cases reply)
    case (Inr v)
    have "prefix (text0 @ take left (lr_data v)) whole" if "lr_next v = int (length text0) + int (length (lr_data v))"
    proof -
      obtain rest where w: "whole = text0 @ rest" using "2.prems"(1) by (auto simp: prefix_def)
      have "prefix (lr_data v) rest" using "2.prems"(3) Inr that w by (auto simp: nat_add_distrib)
      then show ?thesis using w take_is_prefix[of left "lr_data v"] by (auto intro: prefix_order.trans)
    qed
    then show ?thesis using 2 Inr by (auto simp: Let_def split: if_splits)
  qed (use 2 in \<open>auto split: if_splits\<close>)
qed (auto split: if_splits)

section \<open>One file\<close>

text \<open>What the controller keeps: the files below its state directory and the evidence table.\<close>

record EvStore =
  es_files :: fs
  es_log :: string
  es_rows :: "(string \<times> Artifact) list"

record fetch_io =
  fi_root :: "goerr option"
  fi_read :: "goerr option"
  fi_stream :: "string res"
  fi_write :: write_io
  fi_fresh :: string
  fi_removed :: bool
  fi_publish :: "goerr option"
  fi_now :: gotime

definition evidencePath :: "string \<Rightarrow> string \<Rightarrow> string" where
  "evidencePath task ident = ''tasks/'' @ task @ ''/artifacts/'' @ ident"

text \<open>\<^verbatim>\<open>MkdirAll\<close> of the directory the file is written to: the missing ones of the listed components are made.\<close>

fun mkdirAll :: "fs \<Rightarrow> string \<Rightarrow> string list \<Rightarrow> fs" where
  "mkdirAll f cur [] = f"
| "mkdirAll f cur (p # ps) = (let cur' = pathJoin cur p in mkdirAll (if f cur' = None then f(cur' \<mapsto> FDir) else f) cur' ps)"

definition withDirs :: "write_io \<Rightarrow> string \<Rightarrow> fs \<Rightarrow> fs" where
  "withDirs io path f = (if io_mkdir io = None then mkdirAll f [] (butlast (splitOn CHR ''/'' path)) else f)"

definition isMissing :: "goerr \<Rightarrow> bool" where
  "isMissing e = (e = notExist)"

definition evidenceIntegrity :: goerr where
  "evidenceIntegrity = Fail ''evidence_integrity'' ''Worker evidence size or hash mismatch''"

text \<open>The size and sum of a file that is there, or of the one that is fetched; a fetched file that differs from its claim is removed again.\<close>

definition measured :: "(string \<Rightarrow> string) \<Rightarrow> nat \<Rightarrow> string \<Rightarrow> nat \<times> string" where
  "measured sha limit content = (let data = take (limit + 1) content in (length data, sha data))"

definition obtainFile :: "(string \<Rightarrow> string) \<Rightarrow> nat \<Rightarrow> fetch_io \<Rightarrow> string \<Rightarrow> WFile \<Rightarrow> fs \<Rightarrow> fs \<times> (nat \<times> string) res" where
  "obtainFile sha limit io path a f =
    (case Regular f path of
       Inr content \<Rightarrow> (case fi_read io of Some e \<Rightarrow> (f, Inl e) | None \<Rightarrow> (f, Inr (measured sha limit content)))
     | Inl e \<Rightarrow>
        if \<not> isMissing e then (f, Inl e)
        else (case fi_stream io of
           Inl e \<Rightarrow> (f, Inl e)
         | Inr body \<Rightarrow>
            (case Safefs.Write (fi_write io) sha (fi_fresh io) (withDirs (fi_write io) path f) path body limit of
               (f1, Inl e) \<Rightarrow> (f1, Inl e)
             | (f1, Inr (n, h)) \<Rightarrow>
                (if (int n \<noteq> wf_Size a \<or> h \<noteq> wf_SHA256 a) \<and> fi_removed io then f1(path := None) else f1, Inr (n, h)))))"

definition PublishEvidence :: "Artifact \<Rightarrow> (string \<times> Artifact) list \<Rightarrow> (string \<times> Artifact) list" where
  "PublishEvidence a rows = (if map_of rows (ar_ID a) = None then rows @ [(ar_ID a, a)] else rows)"

definition evidenceArtifact :: "string \<Rightarrow> gotime \<Rightarrow> WFile \<Rightarrow> nat \<Rightarrow> string \<Rightarrow> Artifact" where
  "evidenceArtifact task now a n h = \<lparr>ar_ExecutionID = task, ar_ExecutionKind = ''nixos'', ar_Source = ''nix_worker'', ar_Pinned = False, ar_ID = wf_ID a,
     ar_Name = wf_Name a, ar_Size = int n, ar_SHA256 = h, ar_Created = now, ar_Path = evidencePath task (wf_ID a)\<rparr>"

definition fetchFile :: "(string \<Rightarrow> string) \<Rightarrow> nat \<Rightarrow> string \<Rightarrow> fetch_io \<Rightarrow> WFile \<Rightarrow> EvStore \<Rightarrow> HandoffFile res \<times> EvStore" where
  "fetchFile sha limit task io a s =
    (if \<not> IDPattern (wf_ID a) then (Inl (EText ''invalid worker artifact ID''), s)
     else if fi_root io \<noteq> None then (Inl (the (fi_root io)), s)
     else (case obtainFile sha limit io (evidencePath task (wf_ID a)) a (es_files s) of
        (f, Inl e) \<Rightarrow> (Inl e, s\<lparr>es_files := f\<rparr>)
      | (f, Inr (n, h)) \<Rightarrow>
         if int n \<noteq> wf_Size a \<or> h \<noteq> wf_SHA256 a then (Inl evidenceIntegrity, s\<lparr>es_files := f\<rparr>)
         else (case fi_publish io of
            Some e \<Rightarrow> (Inl e, s\<lparr>es_files := f\<rparr>)
          | None \<Rightarrow> (Inr \<lparr>hf_ID = wf_ID a, hf_Size = int n, hf_SHA256 = h\<rparr>,
              s\<lparr>es_files := f, es_rows := PublishEvidence (evidenceArtifact task (fi_now io) a n h) (es_rows s)\<rparr>))))"

section \<open>All files\<close>

fun fetchItems :: "(string \<Rightarrow> string) \<Rightarrow> nat \<Rightarrow> string \<Rightarrow> (WFile \<times> fetch_io) list \<Rightarrow> HandoffFile list \<Rightarrow> EvStore \<Rightarrow> HandoffFile list res \<times> EvStore" where
  "fetchItems sha limit task [] manifest s = (Inr manifest, s)"
| "fetchItems sha limit task ((a, io) # items) manifest s =
    (case fetchFile sha limit task io a s of
       (Inl e, s1) \<Rightarrow> (Inl e, s1)
     | (Inr m, s1) \<Rightarrow> fetchItems sha limit task items (manifest @ [m]) s1)"

text \<open>A page of the inventory with what happens to its items; running out of pages is a call that does not return in time.\<close>

record EvPage =
  ep_items :: "(WFile \<times> fetch_io) list"
  ep_next :: int
  ep_eof :: bool

fun fetchPages :: "(string \<Rightarrow> string) \<Rightarrow> nat \<Rightarrow> string \<Rightarrow> EvPage res list \<Rightarrow> int \<Rightarrow> HandoffFile list \<Rightarrow> EvStore \<Rightarrow> HandoffFile list res \<times> EvStore" where
  "fetchPages sha limit task [] cursor manifest s = (Inl EDeadlineExceeded, s)"
| "fetchPages sha limit task (Inl e # pages) cursor manifest s = (Inl e, s)"
| "fetchPages sha limit task (Inr page # pages) cursor manifest s =
    (case fetchItems sha limit task (ep_items page) manifest s of
       (Inl e, s1) \<Rightarrow> (Inl e, s1)
     | (Inr manifest1, s1) \<Rightarrow>
        if ep_eof page then (Inr manifest1, s1)
        else if ep_next page \<le> cursor then (Inl (EText ''invalid worker file cursor''), s1)
        else fetchPages sha limit task pages (ep_next page) manifest1 s1)"

text \<open>
  \<^verbatim>\<open>workerEvidence\<close> for artifacts: the digest, or \<open>None\<close> where the worker never accepted the job or has its
  acknowledgement already.
\<close>

definition workerEvidence :: "(string \<Rightarrow> string) \<Rightarrow> (HandoffFile list \<Rightarrow> string) \<Rightarrow> nat \<Rightarrow> string \<Rightarrow> string \<times> bool \<Rightarrow> log_io \<Rightarrow> EvPage res list \<Rightarrow> EvStore
    \<Rightarrow> string option res \<times> EvStore" where
  "workerEvidence sha seal limit task = (\<lambda>(state, handedOff) lio pages s.
     if state = [] \<or> handedOff then (Inr None, s)
     else (case extendLog lio (es_log s) of
        (Some e, text) \<Rightarrow> (Inl e, s\<lparr>es_log := text\<rparr>)
      | (None, text) \<Rightarrow> (case fetchPages sha limit task pages 0 [] (s\<lparr>es_log := text\<rparr>) of
           (Inl e, s1) \<Rightarrow> (Inl e, s1)
         | (Inr manifest, s1) \<Rightarrow> (Inr (Some (ManifestDigest seal manifest)), s1))))"

section \<open>The transfer\<close>

text \<open>
  The sections of \<^verbatim>\<open>transferNixEvidence\<close> on the job state of the task: whether there is something to do, what the evidence call
  returned, and that the handoff was acknowledged.
\<close>

definition transferNeeded :: "NixJobState \<Rightarrow> bool" where
  "transferNeeded j = (\<not> nj_HandoffComplete j)"

definition transferDigest :: "string option \<Rightarrow> NixJobState \<Rightarrow> NixJobState" where
  "transferDigest digest j = (let j1 = (case digest of Some d \<Rightarrow> if d \<noteq> [] then j\<lparr>nj_ManifestDigest := d\<rparr> else j | None \<Rightarrow> j) in
     j1\<lparr>nj_Evidence := (nj_Evidence j1)\<lparr>ne_State := ''transferring''\<rparr>\<rparr>)"

definition transferDone :: "NixJobState \<Rightarrow> NixJobState" where
  "transferDone j = j\<lparr>nj_HandoffComplete := True\<rparr>"

text \<open>The controller's side of one task: the job in memory and its row, the evidence store, and the call under way.\<close>

datatype transferCall =
  TIdle
| TEvidence
| TCollected "string option"
| THandoff string
| TAccepted

record TransferSys =
  tx_job :: NixJobState
  tx_row :: NixJobState
  tx_store :: EvStore
  tx_call :: transferCall

text \<open>
  One step.  The worker's replies, and with them the files it lists and serves, are arbitrary; files of other tasks are fetched
  in between, and the controller may crash at any point.
\<close>

inductive transferStep :: "(string \<Rightarrow> string) \<Rightarrow> (HandoffFile list \<Rightarrow> string) \<Rightarrow> nat \<Rightarrow> string \<Rightarrow> TransferSys \<Rightarrow> TransferSys \<Rightarrow> bool"
  for sha seal limit task where
  tr_start: "tx_call x = TIdle \<Longrightarrow> transferNeeded (tx_job x) \<Longrightarrow> transferStep sha seal limit task x (x\<lparr>tx_call := TEvidence\<rparr>)"
| tr_fetch: "tx_call x = TEvidence \<Longrightarrow> workerEvidence sha seal limit task envelope lio pages (tx_store x) = (r, s) \<Longrightarrow>
    transferStep sha seal limit task x (x\<lparr>tx_store := s, tx_call := (case r of Inl e \<Rightarrow> TIdle | Inr d \<Rightarrow> TCollected d)\<rparr>)"
| tr_digest: "tx_call x = TCollected d \<Longrightarrow> j = transferDigest d (tx_job x) \<Longrightarrow>
    transferStep sha seal limit task x (x\<lparr>tx_job := j, tx_row := (if saved = (None::goerr option) then j else tx_row x),
      tx_call := (if saved = None then THandoff (nj_ManifestDigest j) else TIdle)\<rparr>)"
| tr_handoff: "tx_call x = THandoff d \<Longrightarrow>
    transferStep sha seal limit task x (x\<lparr>tx_call := (case reply of Some (e::goerr) \<Rightarrow> TIdle | None \<Rightarrow> TAccepted)\<rparr>)"
| tr_done: "tx_call x = TAccepted \<Longrightarrow> j = transferDone (tx_job x) \<Longrightarrow>
    transferStep sha seal limit task x (x\<lparr>tx_job := j, tx_row := (if saved = (None::goerr option) then j else tx_row x), tx_call := TIdle\<rparr>)"
| tr_other: "workerEvidence sha seal limit other envelope lio pages (tx_store x) = (r, s) \<Longrightarrow>
    transferStep sha seal limit task x (x\<lparr>tx_store := s\<lparr>es_log := es_log (tx_store x)\<rparr>\<rparr>)"
| tr_save: "transferStep sha seal limit task x (x\<lparr>tx_row := tx_job x\<rparr>)"
| tr_crash: "transferStep sha seal limit task x (x\<lparr>tx_job := tx_row x, tx_call := TIdle\<rparr>)"

definition transferStart :: "TransferSys \<Rightarrow> bool" where
  "transferStart x = (tx_call x = TIdle \<and> nj_ManifestDigest (tx_job x) = [] \<and> nj_ManifestDigest (tx_row x) = [] \<and>
     (\<forall>q. es_files (tx_store x) q \<noteq> Some FLink))"


section \<open>Files that are there stay there\<close>

text \<open>The names \<^verbatim>\<open>Regular\<close> looks at on its way to a file.\<close>

fun walkNames :: "string \<Rightarrow> string list \<Rightarrow> string list" where
  "walkNames cur [] = []"
| "walkNames cur (p # ps) = pathJoin cur p # walkNames (pathJoin cur p) ps"

definition namesTo :: "string \<Rightarrow> string set" where
  "namesTo path = set (walkNames [] (splitOn CHR ''/'' path))"

definition linkless :: "fs \<Rightarrow> bool" where
  "linkless f = (\<forall>q. f q \<noteq> Some FLink)"

lemma regularWalk_None: "regularWalk f cur ps = None \<longleftrightarrow> (\<forall>q\<in>set (walkNames cur ps). f q \<noteq> None \<and> f q \<noteq> Some FLink)"
  by (induction ps arbitrary: cur) (auto simp: Let_def split: option.splits fsnode.splits)

lemma Regular_Inr:
  "Regular f path = Inr c \<longleftrightarrow> Name path = None \<and> (\<forall>q\<in>namesTo path. f q \<noteq> None \<and> f q \<noteq> Some FLink) \<and> f path = Some (FFile c)"
  unfolding namesTo_def regularWalk_None[symmetric] by (auto simp: Regular_def split: option.splits fsnode.splits)

lemma pathJoin_plain:
  assumes "\<forall>e\<in>set es. plainElem e" "plainElem p"
  shows "pathJoin (joinWith ''/'' es) p = joinWith ''/'' (es @ [p])"
proof (cases "es = []")
  case True
  then show ?thesis using assms Clean_join_plain[of "[p]"] by (simp add: pathJoin_def plainElem_def)
next
  case False
  then have "joinWith ''/'' es \<noteq> []" using assms joinWith_Nil by (auto simp: plainElem_def)
  moreover have "joinWith ''/'' (es @ [p]) = joinWith ''/'' es @ ''/'' @ p" using False by (simp add: joinWith_append)
  moreover have "Clean (joinWith ''/'' (es @ [p])) = joinWith ''/'' (es @ [p])" using assms by (intro Clean_join_plain) auto
  ultimately show ?thesis using assms by (simp add: pathJoin_def plainElem_def)
qed

lemma walkNames_plain:
  assumes "\<forall>e\<in>set (es @ ps). plainElem e"
  shows "set (walkNames (joinWith ''/'' es) ps) = {joinWith ''/'' (es @ qs) | qs. qs \<noteq> [] \<and> prefix qs ps}"
  using assms
proof (induction ps arbitrary: es)
  case (Cons p ps)
  have j: "pathJoin (joinWith ''/'' es) p = joinWith ''/'' (es @ [p])" using Cons.prems by (intro pathJoin_plain) auto
  have "set (walkNames (joinWith ''/'' (es @ [p])) ps) = {joinWith ''/'' ((es @ [p]) @ qs) | qs. qs \<noteq> [] \<and> prefix qs ps}"
    using Cons.prems by (intro Cons.IH) auto
  moreover have "{joinWith ''/'' (es @ qs) | qs. qs \<noteq> [] \<and> prefix qs (p # ps)} =
      insert (joinWith ''/'' (es @ [p])) {joinWith ''/'' ((es @ [p]) @ qs) | qs. qs \<noteq> [] \<and> prefix qs ps}"
    by (auto simp: prefix_Cons)
  ultimately show ?case using j by simp
qed simp

lemma namesTo_prefixes:
  assumes "Name path = None"
  shows "namesTo path = {joinWith ''/'' qs | qs. qs \<noteq> [] \<and> prefix qs (splitOn CHR ''/'' path)}"
  using walkNames_plain[of "[]" "splitOn CHR ''/'' path"] assms by (simp add: namesTo_def Name_None_iff)

text \<open>A name on the way to a file has its own way there.\<close>

lemma namesTo_trans:
  assumes "Name path = None" "q \<in> namesTo path"
  shows "Name q = None \<and> namesTo q \<subseteq> namesTo path"
proof -
  obtain qs where q: "q = joinWith ''/'' qs" and qs: "qs \<noteq> []" "prefix qs (splitOn CHR ''/'' path)"
    using assms namesTo_prefixes by auto
  have plain: "\<forall>e\<in>set qs. plainElem e" using assms(1) set_mono_prefix[OF qs(2)] by (auto simp: Name_None_iff)
  then have split: "splitOn CHR ''/'' q = qs" unfolding q using qs by (intro join_splitOn) (auto simp: plainElem_def)
  have "c \<in> set (joinWith ''/'' qs) \<Longrightarrow> c \<in> set path" for c
    using qs by (auto simp: prefix_def) (metis splitOn_join UnI1 joinWith_append joinWith.simps set_append append_Nil2)
  then have "Name q = None" using assms(1) plain split unfolding q by (auto simp: Name_None_iff)
  then show ?thesis using assms(1) qs(2) split by (auto simp: namesTo_prefixes intro: prefix_order.trans)
qed

lemma namesTo_parents:
  assumes "Name path = None"
  shows "namesTo path = insert path (set (walkNames [] (butlast (splitOn CHR ''/'' path))))"
proof -
  let ?ps = "splitOn CHR ''/'' path"
  have plain: "\<forall>e\<in>set ?ps. plainElem e" and ne: "?ps \<noteq> []" using assms by (auto simp: Name_None_iff)
  have "\<forall>e\<in>set (butlast ?ps). plainElem e" using plain by (auto dest: in_set_butlastD)
  then have "set (walkNames [] (butlast ?ps)) = {joinWith ''/'' qs | qs. qs \<noteq> [] \<and> prefix qs (butlast ?ps)}"
    using walkNames_plain[of "[]" "butlast ?ps"] by simp
  moreover have "prefix qs ?ps \<longleftrightarrow> qs = ?ps \<or> prefix qs (butlast ?ps)" for qs
    using ne by (metis append_butlast_last_id prefix_snoc)
  moreover have "path = joinWith ''/'' ?ps" by (simp add: splitOn_join)
  ultimately show ?thesis using ne by (auto simp: namesTo_prefixes[OF assms])
qed

text \<open>An entry of a map that stays, and the names that are made below a directory.\<close>

lemma mkdirAll_keeps: "f q \<noteq> None \<Longrightarrow> mkdirAll f cur ps q = f q"
  by (induction f cur ps rule: mkdirAll.induct) (auto simp: Let_def)

lemma mkdirAll_made: "q \<in> set (walkNames cur ps) \<Longrightarrow> mkdirAll f cur ps q \<noteq> None"
  by (induction f cur ps rule: mkdirAll.induct) (auto simp: Let_def mkdirAll_keeps)

lemma mkdirAll_linkless: "linkless f \<Longrightarrow> linkless (mkdirAll f cur ps)"
  by (induction f cur ps rule: mkdirAll.induct) (auto simp: Let_def linkless_def)

lemma Write_keeps:
  assumes "Safefs.Write io sha fresh f path src limit = (f', r)" "q \<noteq> path" "f q \<noteq> None"
  shows "f' q = f q"
  using assms
  by (auto simp: Safefs.Write_def Publish_def createExcl_def Let_def orElse_def split: option.splits if_splits prod.splits)

lemma Write_linkless:
  assumes "Safefs.Write io sha fresh f path src limit = (f', r)" "linkless f"
  shows "linkless f'"
proof (cases r)
  case (Inl e)
  then show ?thesis using Write_Inl assms by (fastforce simp: linkless_def)
next
  case (Inr nh)
  then show ?thesis using Write_Inr assms by (cases nh) (fastforce simp: linkless_def)
qed

text \<open>A change to a name that \<^verbatim>\<open>Regular\<close> finds missing reaches no file that is there.\<close>

lemma Regular_frame:
  assumes held: "Regular f p = Inr c" and missing: "Regular f path = Inl notExist"
    and frame: "\<And>q. q \<noteq> path \<Longrightarrow> f q \<noteq> None \<Longrightarrow> f' q = f q"
  shows "Regular f' p = Inr c"
proof -
  have h: "Name p = None" "\<forall>q\<in>namesTo p. f q \<noteq> None \<and> f q \<noteq> Some FLink" "f p = Some (FFile c)" using held by (auto simp: Regular_Inr)
  have "path \<notin> namesTo p"
  proof
    assume mem: "path \<in> namesTo p"
    then have n: "Name path = None" "namesTo path \<subseteq> namesTo p" using namesTo_trans h(1) by auto
    then have "regularWalk f [] (splitOn CHR ''/'' path) = None" using h(2) by (auto simp: regularWalk_None namesTo_def[symmetric])
    moreover have "f path \<noteq> None" using mem h(2) by auto
    ultimately show False using missing n(1) by (auto simp: Regular_def notExist_def Fail_def split: option.splits fsnode.splits)
  qed
  moreover have "path \<noteq> p" using held missing by auto
  ultimately have "f' q = f q" if "q \<in> insert p (namesTo p)" for q using that h by (intro frame) auto
  then show ?thesis using h by (simp add: Regular_Inr)
qed

lemma withDirs_keeps: "f q \<noteq> None \<Longrightarrow> withDirs io path f q = f q"
  by (simp add: withDirs_def mkdirAll_keeps)

lemma withDirs_linkless: "linkless f \<Longrightarrow> linkless (withDirs io path f)"
  by (simp add: withDirs_def mkdirAll_linkless)

lemma obtainFile_keeps:
  assumes "obtainFile sha limit io path a f = (f', r)" "Regular f p = Inr c"
  shows "Regular f' p = Inr c"
proof (cases "f' = f")
  case False
  then obtain body f1 r1 where missing: "Regular f path = Inl notExist"
    and w: "Safefs.Write (fi_write io) sha (fi_fresh io) (withDirs (fi_write io) path f) path body limit = (f1, r1)"
    and f': "f' = f1 \<or> f' = f1(path := None)"
    using assms(1) by (auto simp: obtainFile_def isMissing_def split: sum.splits option.splits if_splits prod.splits)
  show ?thesis
  proof (rule Regular_frame[OF assms(2) missing])
    fix q assume q: "q \<noteq> path" "f q \<noteq> None"
    have "f1 q = f q" using Write_keeps[OF w q(1)] q(2) by (simp add: withDirs_keeps)
    then show "f' q = f q" using f' q by auto
  qed
qed (use assms in simp)

lemma obtainFile_linkless:
  assumes "obtainFile sha limit io path a f = (f', r)" "linkless f"
  shows "linkless f'"
proof (cases "f' = f")
  case False
  then obtain body f1 r1 where w: "Safefs.Write (fi_write io) sha (fi_fresh io) (withDirs (fi_write io) path f) path body limit = (f1, r1)"
    and f': "f' = f1 \<or> f' = f1(path := None)"
    using assms(1) by (auto simp: obtainFile_def isMissing_def split: sum.splits option.splits if_splits prod.splits)
  have "linkless f1" using Write_linkless[OF w] withDirs_linkless assms(2) by auto
  then show ?thesis using f' by (auto simp: linkless_def split: if_splits)
qed (use assms in simp)

text \<open>A file whose size and sum agree with the claim is there afterwards.\<close>

lemma obtainFile_held:
  assumes ok: "obtainFile sha limit io path a f = (f', Inr (n, h))" and claim: "int n = wf_Size a" "h = wf_SHA256 a" and l: "linkless f"
  shows "\<exists>c. Regular f' path = Inr c \<and> measured sha limit c = (n, h)"
proof (cases "Regular f path")
  case (Inr c)
  then show ?thesis using ok by (auto simp: obtainFile_def split: option.splits)
next
  case (Inl e)
  let ?f = "withDirs (fi_write io) path f"
  obtain body where w: "Safefs.Write (fi_write io) sha (fi_fresh io) ?f path body limit = (f', Inr (n, h))"
    using ok claim Inl by (auto simp: obtainFile_def split: sum.splits option.splits if_splits prod.splits)
  have f': "f' path = Some (FFile body)" and len: "n = length body" "h = sha body" "length body \<le> limit"
    using Write_Inr[OF w] by auto
  have name: "Name path = None" and made: "io_mkdir (fi_write io) = None"
    using w by (auto simp: Safefs.Write_def orElse_def split: option.splits)
  have "f' q \<noteq> None \<and> f' q \<noteq> Some FLink" if "q \<in> namesTo path" for q
  proof (cases "q = path")
    case False
    then have "?f q \<noteq> None" using that mkdirAll_made made by (auto simp: namesTo_parents[OF name] withDirs_def)
    moreover have "linkless f'" by (rule Write_linkless[OF w withDirs_linkless[OF l]])
    ultimately show ?thesis using Write_keeps[OF w False] by (auto simp: linkless_def)
  qed (simp add: f')
  then have "Regular f' path = Inr body" using name f' by (simp add: Regular_Inr)
  then show ?thesis using len by (intro exI[of _ body]) (simp add: measured_def)
qed

section \<open>What a collection leaves behind\<close>

definition kept :: "EvStore \<Rightarrow> EvStore \<Rightarrow> bool" where
  "kept s s' = ((\<forall>p c. Regular (es_files s) p = Inr c \<longrightarrow> Regular (es_files s') p = Inr c) \<and>
     (\<forall>k a. map_of (es_rows s) k = Some a \<longrightarrow> map_of (es_rows s') k = Some a) \<and> (linkless (es_files s) \<longrightarrow> linkless (es_files s')))"

text \<open>The controller holds what an entry of a manifest says.\<close>

definition present :: "(string \<Rightarrow> string) \<Rightarrow> nat \<Rightarrow> string \<Rightarrow> EvStore \<Rightarrow> HandoffFile \<Rightarrow> bool" where
  "present sha limit task s m = ((\<exists>c n. Regular (es_files s) (evidencePath task (hf_ID m)) = Inr c \<and> measured sha limit c = (n, hf_SHA256 m) \<and> int n = hf_Size m) \<and>
     map_of (es_rows s) (hf_ID m) \<noteq> None)"

lemma kept_refl [simp]: "kept s s" "kept s (s\<lparr>es_log := t\<rparr>)" "kept (s\<lparr>es_log := t\<rparr>) s"
  by (simp_all add: kept_def)

lemma kept_trans: "kept s s' \<Longrightarrow> kept s' s'' \<Longrightarrow> kept s s''"
  by (simp add: kept_def)

lemma kept_log [simp]: "kept s (s'\<lparr>es_log := t\<rparr>) = kept s s'" "kept (s\<lparr>es_log := t\<rparr>) s' = kept s s'"
  by (simp_all add: kept_def)

lemma kept_linkless: "kept s s' \<Longrightarrow> linkless (es_files s) \<Longrightarrow> linkless (es_files s')"
  by (simp add: kept_def)

lemma present_kept: "present sha limit task s m \<Longrightarrow> kept s s' \<Longrightarrow> present sha limit task s' m"
  unfolding present_def kept_def by (metis option.exhaust option.distinct(1))

lemma PublishEvidence_keeps: "map_of rows k = Some a \<Longrightarrow> map_of (PublishEvidence b rows) k = Some a"
  by (simp add: PublishEvidence_def map_add_def)

lemma PublishEvidence_row: "map_of (PublishEvidence b rows) (ar_ID b) \<noteq> None"
  by (simp add: PublishEvidence_def map_add_def split: option.splits)

lemma fetchFile_kept:
  assumes "fetchFile sha limit task io a s = (r, s')"
  shows "kept s s'"
proof -
  let ?p = "evidencePath task (wf_ID a)"
  obtain f q where o: "obtainFile sha limit io ?p a (es_files s) = (f, q)" by fastforce
  have s': "s' = s \<or> es_files s' = f \<and> (es_rows s' = es_rows s \<or> (\<exists>b. es_rows s' = PublishEvidence b (es_rows s)))"
    using assms o by (auto simp: fetchFile_def split: if_splits sum.splits option.splits prod.splits)
  then show ?thesis
    using obtainFile_keeps[OF o] obtainFile_linkless[OF o] PublishEvidence_keeps by (auto simp: kept_def)
qed

lemma fetchFile_present:
  assumes ok: "fetchFile sha limit task io a s = (Inr m, s')" and l: "linkless (es_files s)"
  shows "m = handoffFile a \<and> present sha limit task s' m"
proof -
  let ?p = "evidencePath task (wf_ID a)"
  obtain f n h where o: "obtainFile sha limit io ?p a (es_files s) = (f, Inr (n, h))" and c: "int n = wf_Size a" "h = wf_SHA256 a"
    and m: "m = \<lparr>hf_ID = wf_ID a, hf_Size = int n, hf_SHA256 = h\<rparr>"
    and s': "s' = s\<lparr>es_files := f, es_rows := PublishEvidence (evidenceArtifact task (fi_now io) a n h) (es_rows s)\<rparr>"
    using ok by (auto simp: fetchFile_def split: if_splits sum.splits option.splits prod.splits)
  obtain b where b: "Regular f ?p = Inr b" "measured sha limit b = (n, h)" using obtainFile_held[OF o c l] by auto
  have "map_of (es_rows s') (wf_ID a) \<noteq> None"
    using PublishEvidence_row[of "evidenceArtifact task (fi_now io) a n h" "es_rows s"] s' by (simp add: evidenceArtifact_def)
  then show ?thesis using b c m s' by (auto simp: present_def handoffFile_def)
qed

lemma fetchItems_kept: "fetchItems sha limit task items manifest s = (r, s') \<Longrightarrow> kept s s'"
proof (induction items arbitrary: manifest s)
  case (Cons item items)
  obtain a io where item: "item = (a, io)" by fastforce
  obtain q s1 where f: "fetchFile sha limit task io a s = (q, s1)" by fastforce
  then show ?case using Cons item fetchFile_kept[OF f] by (auto split: sum.splits intro: kept_trans)
qed simp

lemma fetchItems_present:
  assumes "fetchItems sha limit task items manifest s = (Inr manifest', s')" "linkless (es_files s)" "\<forall>m\<in>set manifest. present sha limit task s m"
  shows "manifest' = manifest @ map (handoffFile \<circ> fst) items \<and> (\<forall>m\<in>set manifest'. present sha limit task s' m)"
  using assms
proof (induction items arbitrary: manifest s)
  case (Cons item items)
  obtain a io where item: "item = (a, io)" by fastforce
  obtain m s1 where f: "fetchFile sha limit task io a s = (Inr m, s1)" and rest: "fetchItems sha limit task items (manifest @ [m]) s1 = (Inr manifest', s')"
    using Cons.prems(1) item by (auto split: sum.splits prod.splits)
  have k: "kept s s1" by (rule fetchFile_kept[OF f])
  have m: "m = handoffFile a" "present sha limit task s1 m" using fetchFile_present[OF f Cons.prems(2)] by auto
  have "\<forall>x\<in>set (manifest @ [m]). present sha limit task s1 x" using Cons.prems(3) m(2) present_kept[OF _ k] by auto
  with Cons.IH[OF rest kept_linkless[OF k Cons.prems(2)]] show ?case using m(1) item by auto
qed simp

lemma fetchPages_kept: "fetchPages sha limit task pages cursor manifest s = (r, s') \<Longrightarrow> kept s s'"
proof (induction sha limit task pages cursor manifest s rule: fetchPages.induct)
  case (3 sha limit task page pages cursor manifest s)
  obtain q s1 where f: "fetchItems sha limit task (ep_items page) manifest s = (q, s1)" by fastforce
  then show ?case using 3 fetchItems_kept[OF f] by (auto split: sum.splits if_splits intro: kept_trans)
qed simp_all

lemma fetchPages_present:
  assumes "fetchPages sha limit task pages cursor manifest s = (Inr manifest', s')" "linkless (es_files s)" "\<forall>m\<in>set manifest. present sha limit task s m"
  shows "\<forall>m\<in>set manifest'. present sha limit task s' m"
  using assms
proof (induction sha limit task pages cursor manifest s rule: fetchPages.induct)
  case (3 sha limit task page pages cursor manifest s)
  obtain man s1 where f: "fetchItems sha limit task (ep_items page) manifest s = (Inr man, s1)"
    using 3(2) by (cases "fetchItems sha limit task (ep_items page) manifest s"; cases "fst (fetchItems sha limit task (ep_items page) manifest s)") auto
  have p: "\<forall>m\<in>set man. present sha limit task s1 m" using fetchItems_present[OF f 3(3,4)] by simp
  have l: "linkless (es_files s1)" by (rule kept_linkless[OF fetchItems_kept[OF f] 3(3)])
  show ?case using 3(1)[OF f[symmetric] _ _ _ _ l p] 3(2) f p by (auto split: if_splits)
qed simp_all

lemma workerEvidence_kept: "workerEvidence sha seal limit task envelope lio pages s = (r, s') \<Longrightarrow> kept s s'"
  by (cases envelope) (auto simp: workerEvidence_def split: if_splits prod.splits option.splits sum.splits dest!: fetchPages_kept)

lemma workerEvidence_present:
  assumes "workerEvidence sha seal limit task envelope lio pages s = (Inr (Some d), s')" "linkless (es_files s)"
  shows "\<exists>files. d = ManifestDigest seal files \<and> (\<forall>m\<in>set files. present sha limit task s' m)"
  using assms fetchPages_present[where manifest = "[]"]
  by (cases envelope) (fastforce simp: workerEvidence_def split: if_splits prod.splits option.splits sum.splits)

section \<open>The invariant of the transfer\<close>

definition covered :: "(string \<Rightarrow> string) \<Rightarrow> (HandoffFile list \<Rightarrow> string) \<Rightarrow> nat \<Rightarrow> string \<Rightarrow> EvStore \<Rightarrow> string \<Rightarrow> bool" where
  "covered sha seal limit task s d = (d = [] \<or> (\<exists>files. d = ManifestDigest seal files \<and> (\<forall>m\<in>set files. present sha limit task s m)))"

definition callCovered :: "(string \<Rightarrow> bool) \<Rightarrow> transferCall \<Rightarrow> bool" where
  "callCovered P c = (case c of TCollected (Some d) \<Rightarrow> P d | THandoff d \<Rightarrow> P d | _ \<Rightarrow> True)"

definition transferInv :: "(string \<Rightarrow> string) \<Rightarrow> (HandoffFile list \<Rightarrow> string) \<Rightarrow> nat \<Rightarrow> string \<Rightarrow> TransferSys \<Rightarrow> bool" where
  "transferInv sha seal limit task x = (linkless (es_files (tx_store x)) \<and>
     covered sha seal limit task (tx_store x) (nj_ManifestDigest (tx_job x)) \<and>
     covered sha seal limit task (tx_store x) (nj_ManifestDigest (tx_row x)) \<and>
     callCovered (covered sha seal limit task (tx_store x)) (tx_call x))"

lemma covered_kept: "covered sha seal limit task s d \<Longrightarrow> kept s s' \<Longrightarrow> covered sha seal limit task s' d"
  unfolding covered_def using present_kept by blast

lemma callCovered_kept: "callCovered (covered sha seal limit task s) c \<Longrightarrow> kept s s' \<Longrightarrow> callCovered (covered sha seal limit task s') c"
  by (auto simp: callCovered_def split: transferCall.splits option.splits intro: covered_kept)

lemma transferInv_store:
  assumes "transferInv sha seal limit task x" "kept (tx_store x) s" "callCovered (covered sha seal limit task s) c"
  shows "transferInv sha seal limit task (x\<lparr>tx_store := s, tx_call := c\<rparr>)"
  using assms by (auto simp: transferInv_def intro: covered_kept kept_linkless)

lemma covered_digest:
  assumes "covered sha seal limit task s (nj_ManifestDigest j)" "callCovered (covered sha seal limit task s) (TCollected d)"
  shows "covered sha seal limit task s (nj_ManifestDigest (transferDigest d j))"
  using assms by (auto simp: transferDigest_def callCovered_def Let_def split: option.splits)

lemma transferInv_step:
  assumes inv: "transferInv sha seal limit task x" and step: "transferStep sha seal limit task x y"
  shows "transferInv sha seal limit task y"
  using step
proof (cases rule: transferStep.cases)
  case (tr_fetch envelope lio pages r s)
  have k: "kept (tx_store x) s" by (rule workerEvidence_kept[OF tr_fetch(3)])
  have "callCovered (covered sha seal limit task s) (case r of Inl e \<Rightarrow> TIdle | Inr d \<Rightarrow> TCollected d)"
    using workerEvidence_present[of sha seal limit task envelope lio pages "tx_store x" _ s] tr_fetch(3) inv
    by (auto simp: callCovered_def covered_def transferInv_def split: sum.splits option.splits)
  then show ?thesis using transferInv_store[OF inv k] tr_fetch(1) by simp
next
  case (tr_digest d j saved)
  have "covered sha seal limit task (tx_store x) (nj_ManifestDigest j)"
    using covered_digest[of sha seal limit task "tx_store x" "tx_job x" d] tr_digest(2,3) inv by (simp add: transferInv_def)
  then show ?thesis using inv tr_digest(1) by (auto simp: transferInv_def callCovered_def)
next
  case (tr_other other envelope lio pages r s)
  have k: "kept (tx_store x) (s\<lparr>es_log := es_log (tx_store x)\<rparr>)" using workerEvidence_kept[OF tr_other(2)] by simp
  have "callCovered (covered sha seal limit task (s\<lparr>es_log := es_log (tx_store x)\<rparr>)) (tx_call x)"
    using inv callCovered_kept[OF _ k] by (simp add: transferInv_def)
  then show ?thesis using transferInv_store[OF inv k] tr_other(1) by fastforce
qed (use inv in \<open>auto simp: transferInv_def callCovered_def transferDone_def split: option.splits\<close>)

interpretation transfer: invariant_system transferStart "transferStep sha seal limit task" "transferInv sha seal limit task" for sha seal limit task
proof
  show "transferInv sha seal limit task x" if "transferStart x" for x
    using that by (simp add: transferStart_def transferInv_def covered_def callCovered_def linkless_def)
qed (rule transferInv_step)

section \<open>The worker's side\<close>

lemma ManifestDigest_files:
  assumes "inj seal" "ManifestDigest seal xs = ManifestDigest seal ys"
  shows "set xs = set ys"
  using assms by (metis ManifestDigest_def injD set_sort)

lemma handoffBegin_digest:
  assumes "handoffBegin digest err sent (j, w) = (None, j', w')" "\<not> wj_HandoffComplete j"
  shows "digest (wj_Files j) = sent"
  using assms by (auto simp: handoffBegin_def split: if_splits)

text \<open>
  C14. Whatever the worker listed and served in any number of attempts, with failures and crashes of the controller in between, a
  handoff call that makes the worker accept the handoff of its retained files is sent only when the controller
  holds every one of them: an ordinary file with the size and sum the worker recorded, and a row of the evidence table.
  The digest of a manifest is collision free and never empty.
\<close>
theorem accepted_handoff_held:
  assumes "reach transferStart (transferStep sha seal limit task) x" "tx_call x = THandoff d"
    and "handoffBegin (\<lambda>files. ManifestDigest seal (map handoffFile files)) err d (j, w) = (None, j', w')" "\<not> wj_HandoffComplete j"
    and "inj seal" "\<forall>files. seal files \<noteq> []" "\<forall>f\<in>set (wj_Files j). wf_Size f \<le> int limit"
  shows "\<forall>f\<in>set (wj_Files j). map_of (es_rows (tx_store x)) (wf_ID f) \<noteq> None \<and>
    (\<exists>content. Regular (es_files (tx_store x)) (evidencePath task (wf_ID f)) = Inr content \<and> int (length content) = wf_Size f \<and> sha content = wf_SHA256 f)"
proof
  fix f assume f: "f \<in> set (wj_Files j)"
  have "covered sha seal limit task (tx_store x) d"
    using transfer.reach_inv[OF assms(1)] assms(2) by (simp add: transferInv_def callCovered_def)
  moreover have d: "ManifestDigest seal (map handoffFile (wj_Files j)) = d" using handoffBegin_digest[OF assms(3,4)] by simp
  then have "d \<noteq> []" using assms(6) by (auto simp: ManifestDigest_def)
  ultimately obtain files where files: "d = ManifestDigest seal files" "\<forall>m\<in>set files. present sha limit task (tx_store x) m"
    by (auto simp: covered_def)
  have "handoffFile f \<in> set files" using ManifestDigest_files[OF assms(5), of "map handoffFile (wj_Files j)" files] d files(1) f by auto
  then have "present sha limit task (tx_store x) (handoffFile f)" using files(2) by simp
  then obtain c where row: "map_of (es_rows (tx_store x)) (wf_ID f) \<noteq> None" and c: "Regular (es_files (tx_store x)) (evidencePath task (wf_ID f)) = Inr c"
    "int (length (take (limit + 1) c)) = wf_Size f" "sha (take (limit + 1) c) = wf_SHA256 f"
    by (auto simp: present_def handoffFile_def measured_def Let_def)
  have "length c \<le> limit" using c(2) assms(7) f by (cases "length c \<le> limit") auto
  then show "map_of (es_rows (tx_store x)) (wf_ID f) \<noteq> None \<and>
    (\<exists>content. Regular (es_files (tx_store x)) (evidencePath task (wf_ID f)) = Inr content \<and> int (length content) = wf_Size f \<and> sha content = wf_SHA256 f)"
    using row c by auto
qed

section \<open>A worker that lists its files\<close>

text \<open>The pages a worker serves, with what happens to the transfer of each file.\<close>

fun servedPages :: "(WFile \<Rightarrow> fetch_io) \<Rightarrow> string \<Rightarrow> Worker \<Rightarrow> nat \<Rightarrow> int \<Rightarrow> EvPage res list" where
  "servedPages io task w 0 after = []"
| "servedPages io task w (Suc k) after = (let p = filePage task after w in
    Inr \<lparr>ep_items = map (\<lambda>f. (f, io f)) (fp_items p), ep_next = fp_next_cursor p, ep_eof = fp_eof p\<rparr> # servedPages io task w k (fp_next_cursor p))"

definition rowsAfter :: "string \<Rightarrow> int \<Rightarrow> Worker \<Rightarrow> (nat \<times> string \<times> WFile) list" where
  "rowsAfter task after w = filter (\<lambda>(n, t, _). t = task \<and> int n > after) (wk_files w)"

text \<open>The rows of the table in the order of their sequence numbers, which start at one.\<close>

definition sequenced :: "Worker \<Rightarrow> bool" where
  "sequenced w = (sorted_wrt (<) (map fst (wk_files w)) \<and> (\<forall>r\<in>set (wk_files w). 0 < fst r))"

lemma rowsAfter_sorted: "sequenced w \<Longrightarrow> sorted_wrt (\<lambda>a b. fst a < fst b) (rowsAfter task after w)"
  by (simp add: sequenced_def rowsAfter_def sorted_wrt_filter sorted_wrt_map)

lemma filter_above_last:
  fixes xs ys :: "(nat \<times> 'b) list"
  assumes "sorted_wrt (\<lambda>a b. fst a < fst b) (xs @ ys)" "xs \<noteq> []"
  shows "filter (\<lambda>r. fst (last xs) < fst r) (xs @ ys) = ys"
proof -
  have "\<not> fst (last xs) < fst r" if r: "r \<in> set xs" for r
  proof -
    have "xs = butlast xs @ [last xs]" using assms(2) by simp
    then have "sorted_wrt (\<lambda>a b. fst a < fst b) (butlast xs @ [last xs])" using assms(1) by (metis sorted_wrt_append)
    moreover have "r \<in> set (butlast xs) \<or> r = last xs" using r assms(2) by (metis append_butlast_last_id rotate1.simps(2) set_ConsD set_rotate1)
    ultimately show ?thesis by (auto simp: sorted_wrt_append)
  qed
  moreover have "fst (last xs) < fst r" if "r \<in> set ys" for r using that assms by (auto simp: sorted_wrt_append)
  ultimately show ?thesis by simp
qed

lemma rowsAfter_next:
  assumes "sequenced w" "100 < length (rowsAfter task after w)" "next = int (fst (last (take 100 (rowsAfter task after w))))"
  shows "rowsAfter task next w = drop 100 (rowsAfter task after w) \<and> after < next"
proof -
  let ?R = "rowsAfter task after w" and ?n = "fst (last (take 100 (rowsAfter task after w)))"
  have ne: "take 100 ?R \<noteq> []" using assms(2) by auto
  have "last (take 100 ?R) \<in> set ?R" using ne by (metis in_set_takeD last_in_set)
  then have lt: "after < next" using assms(3) by (auto simp: rowsAfter_def)
  then have "rowsAfter task next w = filter (\<lambda>r. ?n < fst r) ?R"
    using assms(3) by (auto simp: rowsAfter_def intro!: filter_cong)
  also have "\<dots> = drop 100 ?R"
    using filter_above_last[of "take 100 ?R" "drop 100 ?R"] rowsAfter_sorted[OF assms(1)] ne by simp
  finally show ?thesis using lt by simp
qed

lemma rowsAfter_all: "sequenced w \<Longrightarrow> map (\<lambda>(_, _, f). f) (rowsAfter task 0 w) = storedFiles task w"
  unfolding rowsAfter_def storedFiles_def sequenced_def by (intro arg_cong[where f = "map _"] filter_cong) auto

lemma fetchItems_append:
  "fetchItems sha limit task (xs @ ys) manifest s =
    (case fetchItems sha limit task xs manifest s of (Inl e, s1) \<Rightarrow> (Inl e, s1) | (Inr m, s1) \<Rightarrow> fetchItems sha limit task ys m s1)"
  by (induction xs arbitrary: manifest s) (auto split: sum.splits prod.splits)

text \<open>The loop over pages is one pass over the files the worker has on record.\<close>

lemma paged_inventory:
  assumes "sequenced w" "0 < k" "length (rowsAfter task after w) \<le> 100 * k"
  shows "fetchPages sha limit task (servedPages io task w k after) after manifest s =
    fetchItems sha limit task (map (\<lambda>(_, _, f). (f, io f)) (rowsAfter task after w)) manifest s"
  using assms(2,3)
proof (induction k arbitrary: after manifest s)
  case (Suc k)
  let ?R = "rowsAfter task after w"
  let ?g = "\<lambda>(n::nat, t::string, f). (f, io f)"
  have page: "map (\<lambda>f. (f, io f)) (fp_items (filePage task after w)) = map ?g (take 100 ?R)" "fp_eof (filePage task after w) = (length ?R \<le> 100)"
    by (auto simp: filePage_def rowsAfter_def Let_def split_beta)
  show ?case
  proof (cases "length ?R \<le> 100")
    case True
    then show ?thesis by (simp add: Let_def page split: sum.splits prod.splits)
  next
    case False
    let ?next = "int (fst (last (take 100 ?R)))"
    have cursor: "fp_next_cursor (filePage task after w) = ?next" using False by (auto simp: filePage_def rowsAfter_def Let_def)
    have rest: "rowsAfter task ?next w = drop 100 ?R" "after < ?next" using rowsAfter_next[OF assms(1), of task after] False by auto
    have k: "0 < k" "length (rowsAfter task ?next w) \<le> 100 * k" using False Suc.prems rest(1) by (cases k; simp)+
    have "map ?g ?R = map ?g (take 100 ?R) @ map ?g (rowsAfter task ?next w)" using rest(1) by (simp flip: map_append)
    then show ?thesis using False rest(2) Suc.IH[OF k] by (auto simp: Let_def page cursor fetchItems_append split: sum.splits prod.splits)
  qed
qed simp

lemma fetchItems_manifest:
  "fetchItems sha limit task items manifest s = (Inr manifest', s') \<Longrightarrow> manifest' = manifest @ map (handoffFile \<circ> fst) items"
proof (induction items arbitrary: manifest s)
  case (Cons item items)
  obtain a io where item: "item = (a, io)" by fastforce
  obtain m s1 where f: "fetchFile sha limit task io a s = (Inr m, s1)" and rest: "fetchItems sha limit task items (manifest @ [m]) s1 = (Inr manifest', s')"
    using Cons.prems item by (auto split: sum.splits prod.splits)
  have "m = handoffFile a" using f by (auto simp: fetchFile_def handoffFile_def split: if_splits sum.splits option.splits prod.splits)
  then show ?case using Cons.IH[OF rest] item by simp
qed simp

text \<open>
  C15. The digest the controller sends is the one the worker asks for: after a collection over the pages of a worker, in which every
  file was fetched, the worker accepts the handoff of a job that is cleaned up and offers its evidence, whatever the number of
  files and whatever the controller held before.
\<close>
theorem listed_files_acknowledged:
  assumes "sequenced w" "storedFiles task w = wj_Files j" "length (wj_Files j) \<le> 100 * k" "0 < k"
    and "workerEvidence sha seal limit task (state, False) lio (servedPages io task w k 0) s = (Inr (Some d), s')"
    and "jobID j \<notin> set (wk_streams w)" "wj_Cleanup j = ''complete''" "ne_State (evidenceOf j) = ''transferring''" "\<not> wj_HandoffComplete j"
  shows "\<exists>j' w'. handoffBegin (\<lambda>files. ManifestDigest seal (map handoffFile files)) None d (j, w) = (None, j', w') \<and>
    wj_HandoffComplete j' \<and> wj_ManifestDigest j' = d"
proof -
  have all: "map (\<lambda>(_, _, f). f) (rowsAfter task 0 w) = wj_Files j" using rowsAfter_all[OF assms(1)] assms(2) by simp
  have len: "length (rowsAfter task 0 w) \<le> 100 * k" using assms(3) arg_cong[OF all, of length] by simp
  obtain t manifest where f: "fetchPages sha limit task (servedPages io task w k 0) 0 [] (s\<lparr>es_log := t\<rparr>) = (Inr manifest, s')"
    and d: "d = ManifestDigest seal manifest"
    using assms(5) by (auto simp: workerEvidence_def split: if_splits prod.splits option.splits sum.splits)
  have "manifest = map handoffFile (wj_Files j)"
    using fetchItems_manifest[OF f[unfolded paged_inventory[OF assms(1,4) len]]] by (simp add: all[symmetric] split_beta comp_def)
  then show ?thesis using assms(6-9) d by (auto simp: handoffBegin_def saveJob_def)
qed

section \<open>A transfer\<close>

text \<open>
  A worker holds one file of five bytes.  The sum of a file is the file itself, and a manifest is sealed by a text from which it can be read
  back.
\<close>

definition quoted :: "string \<Rightarrow> string" where
  "quoted s = concat (map (\<lambda>c. [CHR ''c'', c]) s) @ ''.''"

definition unary :: "int \<Rightarrow> string" where
  "unary i = (if i < 0 then CHR ''-'' else CHR ''+'') # replicate (nat \<bar>i\<bar>) CHR ''1'' @ ''.''"

fun sampleSeal :: "HandoffFile list \<Rightarrow> string" where
  "sampleSeal [] = ''.''"
| "sampleSeal (m # ms) = CHR ''f'' # quoted (hf_ID m) @ unary (hf_Size m) @ quoted (hf_SHA256 m) @ sampleSeal ms"

lemma quoted_inj: "quoted s @ r = quoted s' @ r' \<longleftrightarrow> s = s' \<and> r = r'"
proof (induction s arbitrary: s')
  case Nil
  show ?case by (cases s') (auto simp: quoted_def)
next
  case (Cons c s)
  have "quoted (c # s) @ r = CHR ''c'' # c # quoted s @ r" for c s r by (simp add: quoted_def)
  then show ?case using Cons by (cases s') (auto simp: quoted_def)
qed

lemma replicate_inj: "replicate n CHR ''1'' @ CHR ''.'' # r = replicate m CHR ''1'' @ CHR ''.'' # r' \<longleftrightarrow> n = m \<and> r = r'"
proof (induction n arbitrary: m)
  case 0
  show ?case by (cases m) auto
next
  case (Suc n)
  then show ?case by (cases m) auto
qed

lemma unary_inj: "unary i @ r = unary i' @ r' \<longleftrightarrow> i = i' \<and> r = r'"
  by (auto simp: unary_def replicate_inj split: if_splits)

lemma sampleSeal_inj: "inj sampleSeal"
proof
  show "ms = ms'" if "sampleSeal ms = sampleSeal ms'" for ms ms' using that
  proof (induction ms arbitrary: ms')
    case Nil
    then show ?case by (cases ms') auto
  next
    case (Cons m ms)
    then show ?case by (cases ms') (auto simp: quoted_inj unary_inj)
  qed
qed

lemma sampleSeal_nonempty: "\<forall>files. sampleSeal files \<noteq> []"
proof
  show "sampleSeal files \<noteq> []" for files by (cases files) auto
qed

definition sampleTask :: string where "sampleTask = ''t''"

definition sampleFile :: WFile where
  "sampleFile = \<lparr>wf_SHA256 = ''hello'', wf_ID = replicate 32 CHR ''a'', wf_Name = ''n'', wf_Root = [], wf_Relative = [], wf_Size = 5\<rparr>"

definition sampleIO :: fetch_io where
  "sampleIO = \<lparr>fi_root = None, fi_read = None, fi_stream = Inr ''hello'', fi_write = \<lparr>io_mkdir = None, io_create = None, io_copy = None, io_sync = None, io_close = None,
     io_publish = \<lparr>io_rename = None, io_opendir = None, io_syncdir = None\<rparr>\<rparr>, fi_fresh = ''b'', fi_removed = True, fi_publish = None, fi_now = 0\<rparr>"

definition sampleLogIO :: log_io where
  "sampleLogIO = \<lparr>li_open = None, li_replies = [Inr \<lparr>lr_data = ''log'', lr_next = 3, lr_eof = True\<rparr>], li_sync = None\<rparr>"

definition sampleStore :: EvStore where "sampleStore = \<lparr>es_files = Map.empty, es_log = [], es_rows = []\<rparr>"

definition sampleDone :: "string option res \<times> EvStore" where
  "sampleDone = workerEvidence (\<lambda>s. s) sampleSeal 10 sampleTask (''passed'', False) sampleLogIO
     [Inr \<lparr>ep_items = [(sampleFile, sampleIO)], ep_next = 1, ep_eof = True\<rparr>] sampleStore"

definition sampleDigest :: string where "sampleDigest = ManifestDigest sampleSeal [handoffFile sampleFile]"

definition sampleNix :: NixJobState where
  "sampleNix = \<lparr>nj_Dispatched = True, nj_Evidence = nixEvidenceIn ''collecting'', nj_ManifestDigest = [], nj_WorkerInstance = [], nj_CacheID = [],
     nj_Derivation = [], nj_System = [], nj_NixExecution = None, nj_HandoffComplete = False\<rparr>"

definition sampleWorkerJob :: WJob where
  "sampleWorkerJob = (newJob 0 (zeroRequest\<lparr>wr_TaskID := sampleTask\<rparr>))\<lparr>wj_Cleanup := ''complete'', wj_Files := [sampleFile],
     wj_Execution := zeroNixExecution\<lparr>nx_Evidence := nixEvidenceIn ''transferring''\<rparr>\<rparr>"

definition sampleWorker :: Worker where
  "sampleWorker = \<lparr>wk_closing = False, wk_lastRetention = 0, wk_instance = [], wk_rows = [], wk_files = [(1, sampleTask, sampleFile)], wk_jobs = [], wk_cancel = [],
     wk_cancelled = [], wk_streams = [], wk_active = []\<rparr>"

definition sampleSys :: "EvStore \<Rightarrow> NixJobState \<Rightarrow> transferCall \<Rightarrow> TransferSys" where
  "sampleSys s j c = \<lparr>tx_job = j, tx_row = j, tx_store = s, tx_call = c\<rparr>"

lemma sample_log: "extendLog sampleLogIO [] = (None, ''log'')"
  by (simp add: extendLog_def sampleLogIO_def orElse_def)

lemma sample_fetch: "fst (fetchFile (\<lambda>s. s) 10 sampleTask sampleIO sampleFile (sampleStore\<lparr>es_log := ''log''\<rparr>)) = Inr (handoffFile sampleFile)"
  by code_simp

lemma sample_evidence:
  "workerEvidence (\<lambda>s. s) sampleSeal 10 sampleTask (''passed'', False) sampleLogIO [Inr \<lparr>ep_items = [(sampleFile, sampleIO)], ep_next = 1, ep_eof = True\<rparr>] sampleStore =
    (Inr (Some sampleDigest), snd sampleDone)" (is "?e = _")
proof -
  obtain s' where f: "fetchFile (\<lambda>s. s) 10 sampleTask sampleIO sampleFile (sampleStore\<lparr>es_log := ''log''\<rparr>) = (Inr (handoffFile sampleFile), s')"
    using sample_fetch by (metis prod.collapse)
  have "es_log sampleStore = []" by (simp add: sampleStore_def)
  then have e: "?e = (Inr (Some sampleDigest), s')" using f sample_log by (simp add: workerEvidence_def sampleDigest_def)
  then have "snd sampleDone = s'" by (simp add: sampleDone_def)
  with e show ?thesis by (simp only:)
qed

text \<open>The state in which the controller has collected the file and calls handoff.\<close>

definition sampleCollected :: TransferSys where
  "sampleCollected = sampleSys (snd sampleDone) (transferDigest (Some sampleDigest) sampleNix) (THandoff sampleDigest)"

lemma sampleDigest_nonempty: "sampleDigest \<noteq> []"
  using sampleSeal_nonempty by (simp add: sampleDigest_def ManifestDigest_def)

lemma sample_reached: "reach transferStart (transferStep (\<lambda>s. s) sampleSeal 10 sampleTask) sampleCollected"
proof -
  let ?step = "transferStep (\<lambda>s. s) sampleSeal 10 sampleTask"
  have "reach transferStart ?step (sampleSys sampleStore sampleNix TIdle)"
    by (rule reach_start) (simp add: transferStart_def sampleSys_def sampleNix_def sampleStore_def)
  moreover have "?step (sampleSys sampleStore sampleNix TIdle) (sampleSys sampleStore sampleNix TEvidence)"
    using tr_start[of "sampleSys sampleStore sampleNix TIdle"] by (simp add: sampleSys_def transferNeeded_def sampleNix_def)
  moreover have "?step (sampleSys sampleStore sampleNix TEvidence) (sampleSys (snd sampleDone) sampleNix (TCollected (Some sampleDigest)))"
    using tr_fetch[of "sampleSys sampleStore sampleNix TEvidence", OF _ trans[OF _ sample_evidence]] by (simp add: sampleSys_def)
  moreover have "?step (sampleSys (snd sampleDone) sampleNix (TCollected (Some sampleDigest))) sampleCollected"
    using tr_digest[of "sampleSys (snd sampleDone) sampleNix (TCollected (Some sampleDigest))" "Some sampleDigest", OF _ refl, where saved = None] sampleDigest_nonempty
    by (simp add: sampleSys_def sampleCollected_def transferDigest_def Let_def)
  ultimately show ?thesis by (meson reach_trans)
qed

lemma sample_handoff: "\<exists>j' w'. handoffBegin (\<lambda>files. ManifestDigest sampleSeal (map handoffFile files)) None sampleDigest (sampleWorkerJob, sampleWorker) = (None, j', w')"
  by (simp add: handoffBegin_def sampleWorkerJob_def sampleWorker_def sampleDigest_def evidenceOf_def nixEvidenceIn_def saveJob_def newJob_def)

theorem accepted_handoff_held_witness:
  "map_of (es_rows (tx_store sampleCollected)) (replicate 32 CHR ''a'') \<noteq> None \<and>
    (\<exists>content. Regular (es_files (tx_store sampleCollected)) (evidencePath sampleTask (replicate 32 CHR ''a'')) = Inr content \<and> int (length content) = 5 \<and> content = ''hello'')"
proof -
  obtain j' w' where a: "handoffBegin (\<lambda>files. ManifestDigest sampleSeal (map handoffFile files)) None sampleDigest (sampleWorkerJob, sampleWorker) = (None, j', w')"
    using sample_handoff by auto
  have "tx_call sampleCollected = THandoff sampleDigest" by (simp add: sampleCollected_def sampleSys_def)
  from accepted_handoff_held[OF sample_reached this a _ sampleSeal_inj sampleSeal_nonempty]
  have "\<forall>f\<in>set (wj_Files sampleWorkerJob). map_of (es_rows (tx_store sampleCollected)) (wf_ID f) \<noteq> None \<and>
    (\<exists>content. Regular (es_files (tx_store sampleCollected)) (evidencePath sampleTask (wf_ID f)) = Inr content \<and> int (length content) = wf_Size f \<and> content = wf_SHA256 f)"
    by (simp add: sampleWorkerJob_def newJob_def sampleFile_def)
  then show ?thesis by (simp add: sampleWorkerJob_def sampleFile_def)
qed

theorem listed_files_acknowledged_witness:
  "\<exists>j' w'. handoffBegin (\<lambda>files. ManifestDigest sampleSeal (map handoffFile files)) None sampleDigest (sampleWorkerJob, sampleWorker) = (None, j', w') \<and>
    wj_HandoffComplete j' \<and> wj_ManifestDigest j' = sampleDigest"
proof -
  have pages: "servedPages (\<lambda>_. sampleIO) sampleTask sampleWorker 1 0 = [Inr \<lparr>ep_items = [(sampleFile, sampleIO)], ep_next = 1, ep_eof = True\<rparr>]"
    by (simp add: filePage_def sampleWorker_def One_nat_def)
  note got = sample_evidence[folded pages]
  show ?thesis
    by (rule listed_files_acknowledged[OF _ _ _ _ got])
      (simp_all add: sequenced_def sampleWorker_def storedFiles_def sampleWorkerJob_def newJob_def evidenceOf_def nixEvidenceIn_def)
qed

end
