(* ===== verification/Gui.thy ===== *)
theory Gui
  imports Model
begin

text \<open>
  The global GUI setting a lab borrows from VirtualBox (\<^verbatim>\<open>internal/control/gui.go\<close>).  \<^verbatim>\<open>setGUI\<close> is a journal: the
  value to be written is recorded as \<^verbatim>\<open>Pending\<close> before VirtualBox is told, and confirmed afterwards, so that
  a controller that crashes in between still knows both values it may find.  The model keeps the lab in memory, its
  row in the store, the setting itself and the call under way; the outcomes of VBoxManage and of the store are inputs.
\<close>

section \<open>The sections of setGUI\<close>

datatype guiNext =
  GuiReturn "goerr option"
| GuiWrite string

definition guiConflict :: goerr where
  "guiConflict = Fail ''gui_conflict'' ''Global GUI resolution policy was changed externally; inspect it locally before cleanup''"

definition guiUnconfirmed :: goerr where
  "guiUnconfirmed = Fail ''gui_conflict'' ''Global GUI resolution policy could not be confirmed''"

definition ownGUI :: "string \<Rightarrow> GUIOwnership" where
  "ownGUI current = \<lparr>gu_Original = current, gu_Expected = current, gu_Pending = None, gu_Restored = False\<rparr>"

text \<open>The first section, after the current value was read; \<open>saved\<close> is the outcome of its write to the store.\<close>

definition setGUIBegin :: "goerr option \<Rightarrow> string \<Rightarrow> string \<Rightarrow> bool \<Rightarrow> LabState \<Rightarrow> guiNext \<times> LabState" where
  "setGUIBegin saved current val restore lab =
    (if lb_GUI lab = None \<and> restore then (GuiReturn None, lab)
     else
       let g = (case lb_GUI lab of None \<Rightarrow> ownGUI current | Some g \<Rightarrow> g);
           lab1 = lab\<lparr>lb_GUI := Some g\<rparr> in
       if gu_Restored g then (GuiReturn None, lab1)
       else if current \<noteq> gu_Expected g \<and> gu_Pending g \<noteq> Some current then (GuiReturn (Some guiConflict), lab1)
       else
         let v = (if restore then gu_Original g else val);
             lab2 = lab1\<lparr>lb_GUI := Some (g\<lparr>gu_Pending := Some v\<rparr>)\<rparr> in
         ((if saved \<noteq> None then GuiReturn saved else GuiWrite v), lab2))"

text \<open>The reply of VirtualBox to the write, and the last section.\<close>

definition guiReply :: "string res \<Rightarrow> string \<Rightarrow> goerr option" where
  "guiReply reply v = (case reply of Inl e \<Rightarrow> Some e | Inr observed \<Rightarrow> if observed \<noteq> v then Some guiUnconfirmed else None)"

definition setGUIEnd :: "string \<Rightarrow> bool \<Rightarrow> LabState \<Rightarrow> LabState" where
  "setGUIEnd v restore lab = lab\<lparr>lb_GUI := map_option (\<lambda>g. g\<lparr>gu_Expected := v, gu_Pending := None, gu_Restored := restore\<rparr>) (lb_GUI lab)\<rparr>"

text \<open>Which values \<^verbatim>\<open>changeGUI\<close> admits, and when clean-up restores.\<close>

definition guiRequest :: "string \<Rightarrow> goerr option" where
  "guiRequest v = (if oneOf v [''any'', ''auto''] then None else Some (Fail ''invalid_argument'' ''max_guest_resolution must be any or auto''))"

definition needsRestore :: "LabState \<Rightarrow> bool" where
  "needsRestore lab = (case lb_GUI lab of None \<Rightarrow> False | Some g \<Rightarrow> \<not> gu_Restored g)"

section \<open>The setting, the store and the call under way\<close>

datatype guiCall =
  GIdle
| GRead string bool string
| GWrite string bool
| GWritten string bool

record GuiSys =
  gx_setting :: string
  gx_lab :: LabState
  gx_row :: LabState
  gx_call :: guiCall

text \<open>
  One step.  A call reads the setting, journals, writes and confirms; a write that fails may still have taken
  effect.  Any section of the controller may save the lab, and the controller may crash at any point, which
  loses the call and brings back the stored row.
\<close>

inductive guiStep :: "GuiSys \<Rightarrow> GuiSys \<Rightarrow> bool" where
  gui_read: "gx_call x = GIdle \<Longrightarrow> restore \<or> guiRequest v = None \<Longrightarrow> guiStep x (x\<lparr>gx_call := GRead v restore (gx_setting x)\<rparr>)"
| gui_begin: "gx_call x = GRead v restore current \<Longrightarrow> setGUIBegin saved current v restore (gx_lab x) = (act, lab) \<Longrightarrow>
    guiStep x (x\<lparr>gx_lab := lab,
      gx_row := (case act of GuiWrite _ \<Rightarrow> lab | GuiReturn _ \<Rightarrow> gx_row x),
      gx_call := (case act of GuiWrite w \<Rightarrow> GWrite w restore | GuiReturn _ \<Rightarrow> GIdle)\<rparr>)"
| gui_write: "gx_call x = GWrite v restore \<Longrightarrow> now = v \<or> now = gx_setting x \<and> reply \<noteq> Inr v \<Longrightarrow> (\<forall>seen. reply = Inr seen \<longrightarrow> seen = now) \<Longrightarrow>
    guiStep x (x\<lparr>gx_setting := now, gx_call := (if guiReply reply v = None then GWritten v restore else GIdle)\<rparr>)"
| gui_end: "gx_call x = GWritten v restore \<Longrightarrow> lab = setGUIEnd v restore (gx_lab x) \<Longrightarrow>
    guiStep x (x\<lparr>gx_lab := lab, gx_row := (if saved = (None::goerr option) then lab else gx_row x), gx_call := GIdle\<rparr>)"
| gui_save: "guiStep x (x\<lparr>gx_row := gx_lab x\<rparr>)"
| gui_crash: "guiStep x (x\<lparr>gx_lab := gx_row x, gx_call := GIdle\<rparr>)"

definition guiStart :: "string \<Rightarrow> GuiSys \<Rightarrow> bool" where
  "guiStart origin x = (gx_setting x = origin \<and> lb_GUI (gx_lab x) = None \<and> lb_GUI (gx_row x) = None \<and> gx_call x = GIdle)"

section \<open>The invariant of the journal\<close>

text \<open>What a journal says of the setting: its origin, and whether it was given back.\<close>

definition journalOK :: "string \<Rightarrow> string \<Rightarrow> GUIOwnership option \<Rightarrow> bool" where
  "journalOK origin now = (\<lambda>g. case g of None \<Rightarrow> now = origin
     | Some g \<Rightarrow> gu_Original g = origin \<and> (gu_Restored g \<longrightarrow> now = origin))"

text \<open>The journal names the setting: it is the expected or the pending value.\<close>

definition named :: "string \<Rightarrow> LabState \<Rightarrow> bool" where
  "named now lab = (case lb_GUI lab of None \<Rightarrow> True | Some g \<Rightarrow> now = gu_Expected g \<or> gu_Pending g = Some now)"

definition callOK :: "string \<Rightarrow> GuiSys \<Rightarrow> bool" where
  "callOK origin x = (case gx_call x of
     GIdle \<Rightarrow> True
   | GRead v restore current \<Rightarrow> current = gx_setting x
   | GWrite v restore \<Rightarrow> (restore \<longrightarrow> v = origin) \<and> (\<forall>l\<in>{gx_lab x, gx_row x}. \<exists>g. lb_GUI l = Some g \<and> gu_Pending g = Some v \<and> \<not> gu_Restored g)
   | GWritten v restore \<Rightarrow> (restore \<longrightarrow> v = origin) \<and> v = gx_setting x \<and> (\<exists>g. lb_GUI (gx_lab x) = Some g))"

definition guiInv :: "string \<Rightarrow> GuiSys \<Rightarrow> bool" where
  "guiInv origin x = (journalOK origin (gx_setting x) (lb_GUI (gx_lab x)) \<and> journalOK origin (gx_setting x) (lb_GUI (gx_row x)) \<and> callOK origin x)"

lemma journal_begin:
  assumes "journalOK origin now (lb_GUI lab)" "setGUIBegin saved now v restore lab = (act, lab')"
  shows "journalOK origin now (lb_GUI lab')"
    "\<And>w. act = GuiWrite w \<Longrightarrow> (restore \<longrightarrow> w = origin) \<and> (\<exists>g. lb_GUI lab' = Some g \<and> gu_Pending g = Some w \<and> \<not> gu_Restored g)"
proof -
  show "journalOK origin now (lb_GUI lab')"
    using assms by (cases "lb_GUI lab") (auto simp: setGUIBegin_def journalOK_def ownGUI_def Let_def split: if_splits)
  show "(restore \<longrightarrow> w = origin) \<and> (\<exists>g. lb_GUI lab' = Some g \<and> gu_Pending g = Some w \<and> \<not> gu_Restored g)" if "act = GuiWrite w" for w
    using assms that by (cases "lb_GUI lab") (auto simp: setGUIBegin_def journalOK_def ownGUI_def Let_def split: if_splits)
qed

lemma journal_end:
  assumes "journalOK origin v (lb_GUI lab)" "restore \<longrightarrow> v = origin"
  shows "journalOK origin v (lb_GUI (setGUIEnd v restore lab))"
  using assms by (auto simp: setGUIEnd_def journalOK_def split: option.splits)

lemma journal_write:
  assumes "journalOK origin now g" "g = Some h" "gu_Pending h = Some v" "\<not> gu_Restored h"
  shows "journalOK origin v g"
  using assms by (simp add: journalOK_def)

lemma guiInv_step:
  assumes "guiInv origin x" "guiStep x y"
  shows "guiInv origin y"
proof -
  have j: "journalOK origin (gx_setting x) (lb_GUI (gx_lab x))" "journalOK origin (gx_setting x) (lb_GUI (gx_row x))" and c: "callOK origin x"
    using assms(1) by (simp_all add: guiInv_def)
  from assms(2) show ?thesis
  proof (cases rule: guiStep.cases)
    case (gui_read restore v)
    then show ?thesis using j by (simp add: guiInv_def callOK_def)
  next
    case (gui_begin v restore current saved act lab)
    then have cur: "current = gx_setting x" using c by (simp add: callOK_def)
    note b = journal_begin[OF j(1) gui_begin(3)[unfolded cur]]
    then show ?thesis using j gui_begin(1) by (auto simp: guiInv_def callOK_def split: guiNext.splits)
  next
    case (gui_write v restore now reply)
    then obtain g h where "restore \<longrightarrow> v = origin" "lb_GUI (gx_lab x) = Some g" "gu_Pending g = Some v" "\<not> gu_Restored g"
      "lb_GUI (gx_row x) = Some h" "gu_Pending h = Some v" "\<not> gu_Restored h" using c by (auto simp: callOK_def)
    then show ?thesis using j gui_write journal_write[OF j(1)] journal_write[OF j(2)]
      by (auto simp: guiInv_def callOK_def guiReply_def split: sum.splits if_splits)
  next
    case (gui_end v restore lab saved)
    then have w: "restore \<longrightarrow> v = origin" "v = gx_setting x" using c by (auto simp: callOK_def)
    then show ?thesis using j gui_end journal_end[of origin v "gx_lab x" restore] by (auto simp: guiInv_def callOK_def)
  next
    case gui_save
    then show ?thesis using j c by (cases "gx_call x") (auto simp: guiInv_def callOK_def)
  next
    case gui_crash
    then show ?thesis using j by (simp add: guiInv_def callOK_def)
  qed
qed

interpretation gui_journal: invariant_system "guiStart origin" guiStep "guiInv origin" for origin
proof
  show "guiInv origin x" if "guiStart origin x" for x using that by (simp add: guiStart_def guiInv_def callOK_def journalOK_def)
qed (rule guiInv_step)

section \<open>Restoring\<close>

text \<open>A run of \<^verbatim>\<open>setGUI\<close> in which no call fails.\<close>

definition setGUI :: "string \<Rightarrow> bool \<Rightarrow> GuiSys \<Rightarrow> goerr option \<times> GuiSys" where
  "setGUI v restore x = (case setGUIBegin None (gx_setting x) v restore (gx_lab x) of
     (GuiReturn e, lab) \<Rightarrow> (e, x\<lparr>gx_lab := lab\<rparr>)
   | (GuiWrite w, lab) \<Rightarrow> (let lab' = setGUIEnd w restore lab in (None, x\<lparr>gx_setting := w, gx_lab := lab', gx_row := lab'\<rparr>)))"

text \<open>
  C13. Whatever was changed, failed or crashed before, a lab whose record says restored, in memory or in the store, has given
  the global setting back; and a restoring call that meets no failure does so, unless it finds a value the journal does
  not name, which it reports and leaves alone.
\<close>
theorem gui_setting_given_back:
  assumes "reach (guiStart origin) guiStep x" "gx_call x = GIdle"
  shows "(\<forall>l\<in>{gx_lab x, gx_row x}. \<not> needsRestore l \<longrightarrow> gx_setting x = origin) \<and>
    (if named (gx_setting x) (gx_lab x) then fst (setGUI v True x) = None \<and> gx_setting (snd (setGUI v True x)) = origin
     else if needsRestore (gx_lab x) then setGUI v True x = (Some guiConflict, x)
     else fst (setGUI v True x) = None \<and> gx_setting (snd (setGUI v True x)) = origin)"
proof -
  have "guiInv origin x" by (rule gui_journal.reach_inv[OF assms(1)])
  then have j: "journalOK origin (gx_setting x) (lb_GUI (gx_lab x))" "journalOK origin (gx_setting x) (lb_GUI (gx_row x))"
    by (simp_all add: guiInv_def)
  have given: "\<forall>l\<in>{gx_lab x, gx_row x}. \<not> needsRestore l \<longrightarrow> gx_setting x = origin"
    using j by (auto simp: needsRestore_def journalOK_def split: option.splits)
  show ?thesis
  proof (cases "lb_GUI (gx_lab x)")
    case None
    then show ?thesis using given j(1) by (simp add: setGUI_def setGUIBegin_def journalOK_def named_def)
  next
    case (Some g)
    then have "gx_lab x\<lparr>lb_GUI := Some g\<rparr> = gx_lab x" by (cases "gx_lab x") simp
    then show ?thesis using given j(1) Some
      by (auto simp: setGUI_def setGUIBegin_def setGUIEnd_def journalOK_def named_def needsRestore_def Let_def)
  qed
qed

lemma guiConflict_keeps:
  assumes "lb_GUI lab = Some g" "\<not> gu_Restored g" "current \<noteq> gu_Expected g" "gu_Pending g \<noteq> Some current"
  shows "setGUIBegin saved current v restore lab = (GuiReturn (Some guiConflict), lab)"
  using assms by (simp add: setGUIBegin_def)

definition guiLab :: LabState where
  "guiLab = \<lparr>lb_Nodes = [], lb_Router = None, lb_RouterPassword = [], lb_RouterISO = [], lb_RouterBootID = [], lb_NetworkUpdated = 0,
     lb_NetworkLeaseExpires = 0, lb_NetworkPolicyHash = [], lb_NetworkObservation = None, lb_GUI = None, lb_LAN = [], lb_DHCP = False,
     lb_DNS = [], lb_Internet = False, lb_Network = ''pending'', lb_Commands = [], lb_Endpoints = [], lb_Captures = []\<rparr>"

definition guiJournal :: LabState where
  "guiJournal = snd (setGUIBegin None ''1024x768'' ''any'' False guiLab)"

text \<open>One call, up to a write whose reply is an error; \<open>now\<close> is the setting after it.\<close>

lemma gui_lost_write:
  assumes "reach (guiStart origin) guiStep \<lparr>gx_setting = c, gx_lab = lab, gx_row = row, gx_call = GIdle\<rparr>"
    "setGUIBegin None c v restore lab = (GuiWrite w, lab')" "restore \<or> guiRequest v = None" "now = w \<or> now = c"
  shows "reach (guiStart origin) guiStep \<lparr>gx_setting = now, gx_lab = lab', gx_row = lab', gx_call = GIdle\<rparr>"
proof -
  let ?r = "reach (guiStart origin) guiStep"
  let ?x = "\<lparr>gx_setting = c, gx_lab = lab, gx_row = row, gx_call = GIdle\<rparr>"
  let ?q = "\<lparr>gx_setting = c, gx_lab = lab, gx_row = row, gx_call = GRead v restore c\<rparr>"
  let ?w = "\<lparr>gx_setting = c, gx_lab = lab', gx_row = lab', gx_call = GWrite w restore\<rparr>"
  have "guiStep ?x ?q" using gui_read[of ?x restore v] assms(3) by simp
  from reach_trans[OF assms(1) this] have "?r ?q" .
  moreover have "guiStep ?q ?w" using gui_begin[of ?q v restore c None "GuiWrite w" lab'] assms(2) by simp
  ultimately have "?r ?w" by (rule reach_trans)
  moreover have "guiStep ?w \<lparr>gx_setting = now, gx_lab = lab', gx_row = lab', gx_call = GIdle\<rparr>"
    using gui_write[of ?w w restore now "Inl (EText ''killed'')"] assms(4) by (auto simp: guiReply_def)
  ultimately show ?thesis by (rule reach_trans)
qed

lemma gui_crashed: "reach (guiStart ''1024x768'') guiStep \<lparr>gx_setting = ''any'', gx_lab = guiJournal, gx_row = guiJournal, gx_call = GIdle\<rparr>"
proof (rule gui_lost_write)
  show "reach (guiStart ''1024x768'') guiStep \<lparr>gx_setting = ''1024x768'', gx_lab = guiLab, gx_row = guiLab, gx_call = GIdle\<rparr>"
    by (rule reach_start) (simp add: guiStart_def guiLab_def)
  show "setGUIBegin None ''1024x768'' ''any'' False guiLab = (GuiWrite ''any'', guiJournal)"
    by (simp add: guiJournal_def setGUIBegin_def guiLab_def ownGUI_def Let_def)
qed (simp_all add: guiRequest_def)

theorem gui_setting_given_back_witness:
  "gx_setting (snd (setGUI [] True \<lparr>gx_setting = ''any'', gx_lab = guiJournal, gx_row = guiJournal, gx_call = GIdle\<rparr>)) = ''1024x768''"
proof -
  have "named ''any'' guiJournal" by (simp add: named_def guiJournal_def setGUIBegin_def guiLab_def ownGUI_def Let_def)
  then show ?thesis using gui_setting_given_back[OF gui_crashed, of "[]"] by simp
qed

text \<open>
  C38. The journal keeps one pending value only: a write whose reply was lost, followed by a write that failed, leaves a
  setting the controller wrote itself and no longer names, and every later restoring call takes it for an external
  change.
\<close>
theorem own_write_taken_for_external:
  "\<exists>x. reach (guiStart ''1024x768'') guiStep x \<and> gx_call x = GIdle \<and> gx_setting x = ''any'' \<and> (\<forall>v. setGUI v True x = (Some guiConflict, x))"
proof -
  define stuck where "stuck = guiJournal\<lparr>lb_GUI := map_option (\<lambda>g. g\<lparr>gu_Pending := Some ''1024x768''\<rparr>) (lb_GUI guiJournal)\<rparr>"
  have g: "lb_GUI guiJournal = Some \<lparr>gu_Original = ''1024x768'', gu_Expected = ''1024x768'', gu_Pending = Some ''any'', gu_Restored = False\<rparr>"
    by (simp add: guiJournal_def setGUIBegin_def guiLab_def ownGUI_def Let_def)
  have "setGUIBegin None ''any'' [] True guiJournal = (GuiWrite ''1024x768'', stuck)" by (simp add: setGUIBegin_def stuck_def g Let_def)
  from gui_lost_write[OF gui_crashed this, of "''any''"]
  have "reach (guiStart ''1024x768'') guiStep \<lparr>gx_setting = ''any'', gx_lab = stuck, gx_row = stuck, gx_call = GIdle\<rparr>" by simp
  moreover have "setGUI v True \<lparr>gx_setting = ''any'', gx_lab = stuck, gx_row = stuck, gx_call = GIdle\<rparr> =
      (Some guiConflict, \<lparr>gx_setting = ''any'', gx_lab = stuck, gx_row = stuck, gx_call = GIdle\<rparr>)" for v
    using guiConflict_keeps[of stuck _ "''any''" None v True] by (simp add: setGUI_def stuck_def g)
  ultimately show ?thesis by (intro exI[of _ "\<lparr>gx_setting = ''any'', gx_lab = stuck, gx_row = stuck, gx_call = GIdle\<rparr>"]) simp
qed

end
