(* ===== verification/Sessions.thy ===== *)
theory Sessions
  imports Model Ipv4 "HOL-Library.Char_ord" "HOL-Library.List_Lexorder"
begin

text \<open>
  Calls into a guest through VBoxManage: the captured result of a host process (\<^verbatim>\<open>internal/hostexec/run.go\<close>), the view
  of a guest exit (\<^verbatim>\<open>internal/control/guest_exec.go\<close>) and the ledger of guest sessions that calls leave behind
  (\<^verbatim>\<open>internal/control/guest_sessions.go\<close>).  Each method runs under the mutex of its tracker and is one function; the replies
  of VBoxManage and of the session inspector are inputs.
\<close>

section \<open>Captured output\<close>

record bounded =
  bd_buffer :: string
  bd_max :: nat
  bd_truncated :: bool

definition bounded_Write :: "string \<Rightarrow> bounded \<Rightarrow> nat \<times> bounded" where
  "bounded_Write p b =
    (let b1 = (if length p > bd_max b - length (bd_buffer b) then b\<lparr>bd_truncated := True\<rparr> else b) in
     (length p, if length (bd_buffer b1) < bd_max b1
        then b1\<lparr>bd_buffer := bd_buffer b1 @ take (min (length p) (bd_max b1 - length (bd_buffer b1))) p\<rparr> else b1))"

record HostResult =
  hr_Stdout :: string
  hr_Stderr :: string
  hr_ExitCode :: int
  hr_TimedOut :: bool
  hr_StdoutTruncated :: bool
  hr_StderrTruncated :: bool
  hr_ProcessID :: int
  hr_Reaped :: bool

definition emptyResult :: HostResult where
  "emptyResult = \<lparr>hr_Stdout = [], hr_Stderr = [], hr_ExitCode = 0, hr_TimedOut = False, hr_StdoutTruncated = False,
     hr_StderrTruncated = False, hr_ProcessID = 0, hr_Reaped = False\<rparr>"

text \<open>The result of a run: the two captured streams, and the process state when there is one (process id and exit code).\<close>

definition runResult :: "string list \<Rightarrow> string list \<Rightarrow> bool \<Rightarrow> (int \<times> int) option \<Rightarrow> HostResult" where
  "runResult outs errs timedOut process =
    (let out = fold (\<lambda>p b. snd (bounded_Write p b)) outs \<lparr>bd_buffer = [], bd_max = 1048576, bd_truncated = False\<rparr>;
         errout = fold (\<lambda>p b. snd (bounded_Write p b)) errs \<lparr>bd_buffer = [], bd_max = 8192, bd_truncated = False\<rparr>;
         r = \<lparr>hr_Stdout = bd_buffer out, hr_Stderr = bd_buffer errout, hr_ExitCode = - 1, hr_TimedOut = timedOut,
              hr_StdoutTruncated = bd_truncated out, hr_StderrTruncated = bd_truncated errout, hr_ProcessID = 0, hr_Reaped = False\<rparr> in
     case process of None \<Rightarrow> r | Some (pid, code) \<Rightarrow> r\<lparr>hr_ProcessID := pid, hr_Reaped := True, hr_ExitCode := code\<rparr>)"

lemma bounded_fold:
  assumes "b = \<lparr>bd_buffer = take m xs, bd_max = m, bd_truncated = (m < length xs)\<rparr>"
  shows "fold (\<lambda>p b. snd (bounded_Write p b)) ps b = \<lparr>bd_buffer = take m (xs @ concat ps), bd_max = m, bd_truncated = (m < length (xs @ concat ps))\<rparr>"
  using assms
proof (induction ps arbitrary: b xs)
  case (Cons p ps)
  have "snd (bounded_Write p b) = \<lparr>bd_buffer = take m (xs @ p), bd_max = m, bd_truncated = (m < length (xs @ p))\<rparr>"
    using Cons.prems by (auto simp: bounded_Write_def Let_def min_def)
  from Cons.IH[OF this] show ?case by simp
qed simp

lemma runResult_output:
  "hr_Stdout (runResult outs errs t p) = take 1048576 (concat outs) \<and> hr_StdoutTruncated (runResult outs errs t p) = (1048576 < length (concat outs))"
  "hr_Stderr (runResult outs errs t p) = take 8192 (concat errs) \<and> hr_StderrTruncated (runResult outs errs t p) = (8192 < length (concat errs))"
  using bounded_fold[of "\<lparr>bd_buffer = [], bd_max = 1048576, bd_truncated = False\<rparr>" 1048576 "[]" outs]
    bounded_fold[of "\<lparr>bd_buffer = [], bd_max = 8192, bd_truncated = False\<rparr>" 8192 "[]" errs]
  by (auto simp: runResult_def Let_def split: option.splits)

section \<open>The view of a guest exit\<close>

record ExecView =
  ev_state :: string
  ev_exitCode :: "int option"
  ev_exitMinimum :: "int option"
  ev_termination :: string
  ev_confirmed :: bool
  ev_error :: "werror option"

definition execView :: "HostResult \<Rightarrow> goerr option \<Rightarrow> ExecView" where
  "execView r err =
    (let view = (\<lambda>state code least termination failure. \<lparr>ev_state = state, ev_exitCode = code, ev_exitMinimum = least,
           ev_termination = termination, ev_confirmed = (state = ''completed''), ev_error = failure\<rparr>) in
     case err of
       None \<Rightarrow> view ''completed'' (Some 0) None ''exited'' None
     | Some e \<Rightarrow>
        if \<not> hr_TimedOut r \<and> 33 \<le> hr_ExitCode r \<and> hr_ExitCode r \<le> 125 then view ''completed'' (Some (hr_ExitCode r - 32)) None ''exited'' None
        else if \<not> hr_TimedOut r \<and> hr_ExitCode r = 126 then view ''completed'' None (Some 94) ''exited'' None
        else if \<not> hr_TimedOut r \<and> (hr_ExitCode r = 18 \<or> hr_ExitCode r = 19) then view ''completed'' None None ''abnormal'' None
        else view ''uncertain'' None None ''unconfirmed'' (Some (Safe e)))"

section \<open>The ledger of guest sessions\<close>

record sessionTracker =
  tk_pending :: "string list"
  tk_observation :: GuestSessionState
  tk_next :: gotime
  tk_unmatched :: int
  tk_unmatchedKnown :: bool
  tk_inFlight :: int
  tk_attributionPending :: bool

definition zeroObservation :: GuestSessionState where
  "zeroObservation = \<lparr>gs_State = [], gs_Checked = 0, gs_Observed = None, gs_Before = None, gs_After = None, gs_Matched = 0,
     gs_CloseRequested = 0, gs_CloseErrors = 0, gs_CloseError = 0, gs_LiveOwner = 0, gs_ForeignOwner = 0, gs_Unconfirmed = 0,
     gs_InFlight = 0, gs_AttributionPending = False, gs_RuntimeVersion = 0, gs_Error = None\<rparr>"

definition newTracker :: sessionTracker where
  "newTracker = \<lparr>tk_pending = [], tk_observation = zeroObservation, tk_next = 0, tk_unmatched = 0, tk_unmatchedKnown = False,
     tk_inFlight = 0, tk_attributionPending = False\<rparr>"

definition sessionName :: "int \<Rightarrow> string \<Rightarrow> string \<Rightarrow> string" where
  "sessionName pid uuid operation = ''['' @ showInt pid @ ''] VBoxManage Guest Control ['' @ uuid @ ''] - '' @ operation"

definition sessionOperation :: "string \<Rightarrow> bool" where
  "sessionOperation operation = oneOf operation [''run'', ''copyto'', ''copyfrom'']"

definition retireGuestSession :: "string \<Rightarrow> string \<Rightarrow> HostResult \<Rightarrow> sessionTracker \<Rightarrow> sessionTracker" where
  "retireGuestSession uuid operation r v =
    (let v1 = v\<lparr>tk_inFlight := tk_inFlight v - 1\<rparr>;
         v2 = (if tk_inFlight v1 = 0 \<and> tk_attributionPending v1 then v1\<lparr>tk_next := 0\<rparr> else v1) in
     if hr_ProcessID r \<le> 1 \<or> \<not> hr_Reaped r \<or> \<not> sessionOperation operation then v2
     else v2\<lparr>tk_pending := List.insert (sessionName (hr_ProcessID r) uuid operation) (tk_pending v2)\<rparr>)"

definition sessionsBlocked :: "sessionTracker \<Rightarrow> bool" where
  "sessionsBlocked v = (tk_attributionPending v \<or> length (tk_pending v) \<ge> 4 \<or>
     (case gs_After (tk_observation v) of Some n \<Rightarrow> n \<ge> 24 | None \<Rightarrow> False) \<or>
     (case gs_Error (tk_observation v) of Some e \<Rightarrow> Code e = ''guest_session_attribution'' | None \<Rightarrow> False))"

text \<open>The decoded reply of the session inspector.\<close>

record SessionReply =
  sr_before :: int
  sr_after :: int
  sr_matched :: int
  sr_closeRequested :: int
  sr_closeErrors :: int
  sr_closeError :: int
  sr_liveOwner :: int
  sr_foreignOwner :: int
  sr_remaining :: "bool list"
  sr_runtimeVersion :: int

definition failSessions :: "gotime \<Rightarrow> goerr \<Rightarrow> sessionTracker \<Rightarrow> sessionTracker" where
  "failSessions now err v = v\<lparr>tk_observation := (tk_observation v)\<lparr>gs_State := ''unavailable'', gs_Checked := now,
     gs_Unconfirmed := int (length (tk_pending v)), gs_Error := Some (Safe err)\<rparr>\<rparr>"

definition sessionLimit :: goerr where
  "sessionLimit = Fail ''guest_session_limit'' ''Guest session reconciliation exceeded its bounded ledger''"

definition sessionProtocol :: "SessionReply \<Rightarrow> string list \<Rightarrow> goerr option" where
  "sessionProtocol r names =
    (if length (sr_remaining r) \<noteq> length names \<or> sr_runtimeVersion r = 0 \<or> sr_before r < 0 \<or> sr_after r < 0
     then Some (Fail ''guest_session_protocol'' ''Session inspector returned invalid confirmation data'')
     else if sr_after r < int (length (filter id (sr_remaining r)))
     then Some (Fail ''guest_session_protocol'' ''Session counts conflict with selected identities'') else None)"

definition unattributed :: "int \<Rightarrow> SessionReply \<Rightarrow> sessionTracker \<Rightarrow> werror" where
  "unattributed unmatched r v = WError ''guest_session_attribution'' ''Unattributed guest sessions increased; no unmatched session was closed'' [] [] []
     [(''previous'', GInt (tk_unmatched v)), (''observed'', GInt unmatched), (''runtime_version'', GInt (sr_runtimeVersion r))]"

definition unreleased :: "SessionReply \<Rightarrow> werror" where
  "unreleased r = WError ''guest_session_release_unconfirmed'' ''Selected guest sessions have not been confirmed absent'' [] [] []
     [(''close_hresult'', GInt (sr_closeError r)), (''live_owner'', GInt (sr_liveOwner r)), (''foreign_owner'', GInt (sr_foreignOwner r))]"

definition unmatchedOf :: "SessionReply \<Rightarrow> int" where
  "unmatchedOf r = sr_after r - int (length (filter id (sr_remaining r)))"

text \<open>The ledger after a reply that was accepted: names whose session is gone leave it.\<close>

definition stillPending :: "string list \<Rightarrow> bool list \<Rightarrow> string list \<Rightarrow> string list" where
  "stillPending names remaining pending = filter (\<lambda>n. (n, False) \<notin> set (zip names remaining)) pending"

definition applySessions :: "gotime \<Rightarrow> string list \<Rightarrow> SessionReply \<Rightarrow> sessionTracker \<Rightarrow> sessionTracker" where
  "applySessions now names r v =
    (let unmatched = unmatchedOf r;
         attribution = (tk_inFlight v > 0 \<and> (\<not> tk_unmatchedKnown v \<or> unmatched > tk_unmatched v));
         v1 = v\<lparr>tk_attributionPending := attribution\<rparr>;
         v2 = (if tk_inFlight v1 = 0 then v1\<lparr>tk_unmatched := unmatched, tk_unmatchedKnown := True\<rparr> else v1);
         v3 = v2\<lparr>tk_pending := stillPending names (sr_remaining r) (tk_pending v2)\<rparr>;
         o1 = \<lparr>gs_State = ''observed'', gs_Checked = now, gs_Observed = Some now, gs_Before = Some (sr_before r), gs_After = Some (sr_after r),
           gs_Matched = sr_matched r, gs_CloseRequested = sr_closeRequested r, gs_CloseErrors = sr_closeErrors r, gs_CloseError = 0,
           gs_LiveOwner = sr_liveOwner r, gs_ForeignOwner = sr_foreignOwner r, gs_Unconfirmed = int (length (tk_pending v3)),
           gs_InFlight = tk_inFlight v3, gs_AttributionPending = tk_attributionPending v3, gs_RuntimeVersion = sr_runtimeVersion r, gs_Error = None\<rparr>;
         o2 = (if tk_pending v3 \<noteq> [] then o1\<lparr>gs_State := ''release_pending'', gs_CloseError := sr_closeError r, gs_Error := Some (unreleased r)\<rparr> else o1);
         v4 = v3\<lparr>tk_observation := o2\<rparr> in
     if tk_pending v4 = [] \<and> sr_after r < 24 \<and> \<not> tk_attributionPending v4 then v4\<lparr>tk_next := 0\<rparr> else v4)"

text \<open>\<open>owned\<close> is the ownership check of the machine, \<open>reply\<close> the decoded answer of the inspector.\<close>

definition reconcileSessions :: "gotime \<Rightarrow> goerr option \<Rightarrow> SessionReply res \<Rightarrow> sessionTracker \<Rightarrow> sessionTracker" where
  "reconcileSessions now owned reply v =
    (let v1 = v\<lparr>tk_next := now + 5 * second\<rparr>; names = sort (tk_pending v) in
     if length names > 7 then failSessions now sessionLimit v1
     else if names \<noteq> [] \<and> owned \<noteq> None then failSessions now (the owned) v1
     else (case reply of
        Inl e \<Rightarrow> failSessions now e v1
      | Inr r \<Rightarrow> (case sessionProtocol r names of
           Some e \<Rightarrow> failSessions now e v1
         | None \<Rightarrow>
            if tk_unmatchedKnown v1 \<and> (names \<noteq> [] \<or> tk_attributionPending v1) \<and> unmatchedOf r > tk_unmatched v1 + tk_inFlight v1
            then failSessions now (EWire (unattributed (unmatchedOf r) r v1)) v1
            else applySessions now names r v1)))"

text \<open>One turn of the loop of \<^verbatim>\<open>admitGuestSession\<close>: admitted, refused, or to wait for a call to retire.\<close>

datatype admission = Admitted | SessionBusy goerr | AwaitRetire

definition countVal :: "int option \<Rightarrow> gval" where
  "countVal n = (case n of Some k \<Rightarrow> GInt k | None \<Rightarrow> GNil)"

definition observationVal :: "GuestSessionState \<Rightarrow> gval" where
  "observationVal g = GMap ([(''state'', GStr (gs_State g)), (''checked'', GTime (gs_Checked g))] @
     (case gs_Observed g of Some t \<Rightarrow> [(''observed'', GTime t)] | None \<Rightarrow> []) @
     [(''before'', countVal (gs_Before g)), (''after'', countVal (gs_After g)), (''matched'', GInt (gs_Matched g)),
      (''close_requested'', GInt (gs_CloseRequested g)), (''close_errors'', GInt (gs_CloseErrors g)), (''close_error'', GInt (gs_CloseError g)),
      (''live_owner'', GInt (gs_LiveOwner g)), (''foreign_owner'', GInt (gs_ForeignOwner g)), (''unconfirmed'', GInt (gs_Unconfirmed g)),
      (''in_flight'', GInt (gs_InFlight g)), (''attribution_pending'', GBool (gs_AttributionPending g)), (''runtime_version'', GInt (gs_RuntimeVersion g))] @
     (case gs_Error g of Some e \<Rightarrow> [(''error'', GErr e)] | None \<Rightarrow> []))"

definition sessionsBusy :: "sessionTracker \<Rightarrow> goerr" where
  "sessionsBusy v = EWire (WError ''resource_busy'' ''Guest sessions require confirmed release before another invocation'' [] [] []
     [(''sessions'', observationVal (tk_observation v)), (''next_attempt'', GTime (tk_next v))])"

definition admitTurn :: "gotime \<Rightarrow> goerr option \<Rightarrow> SessionReply res \<Rightarrow> sessionTracker \<Rightarrow> admission \<times> sessionTracker" where
  "admitTurn now owned reply v =
    (let v1 = (if sessionsBlocked v \<and> tk_next v \<le> now then reconcileSessions now owned reply v else v) in
     if tk_attributionPending v1 \<and> tk_inFlight v1 > 0 then (AwaitRetire, v1)
     else if sessionsBlocked v1 then (SessionBusy (sessionsBusy v1), v1)
     else (Admitted, v1\<lparr>tk_inFlight := tk_inFlight v1 + 1\<rparr>))"

definition observeGuestSessions :: "gotime \<Rightarrow> goerr option \<Rightarrow> SessionReply res \<Rightarrow> sessionTracker \<Rightarrow> GuestSessionState \<times> sessionTracker" where
  "observeGuestSessions now owned reply v =
    (let v1 = (if tk_next v \<le> now then reconcileSessions now owned reply v else v) in
     ((tk_observation v1)\<lparr>gs_Unconfirmed := int (length (tk_pending v1)), gs_InFlight := tk_inFlight v1,
        gs_AttributionPending := tk_attributionPending v1\<rparr>, v1))"


section \<open>The calls of one guest\<close>

text \<open>
  The sessions that exist in the guest, and the calls that hold one of the four slots: still asking for admission, admitted,
  or running as a VBoxManage process whose session has a known name.
\<close>

datatype call = CAsking | CAdmitted | CRunning int string

record SessSys =
  sx_tracker :: sessionTracker
  sx_calls :: "call list"
  sx_alive :: "string list"
  sx_unreaped :: "string list"

definition callName :: "string \<Rightarrow> call \<Rightarrow> string list" where
  "callName uuid c = (case c of CRunning pid operation \<Rightarrow> [sessionName pid uuid operation] | _ \<Rightarrow> [])"

text \<open>The inspector closes some of the named sessions and reports for each name whether its session is still there.\<close>

definition honestReply :: "sessionTracker \<Rightarrow> string list \<Rightarrow> string list \<Rightarrow> SessionReply res \<Rightarrow> bool" where
  "honestReply v alive alive' reply = (set alive' \<subseteq> set alive \<and>
     (\<forall>r. reply = Inr r \<and> length (sr_remaining r) = length (tk_pending v) \<longrightarrow> sr_remaining r = map (\<lambda>n. n \<in> set alive') (sort (tk_pending v))))"

inductive sessStep :: "string \<Rightarrow> SessSys \<Rightarrow> SessSys \<Rightarrow> bool" for uuid :: string where
  sess_slot: "length (sx_calls x) < 4 \<Longrightarrow> sessStep uuid x (x\<lparr>sx_calls := CAsking # sx_calls x\<rparr>)"
| sess_admit: "sx_calls x = us @ CAsking # ws \<Longrightarrow> honestReply (sx_tracker x) (sx_alive x) alive' reply \<Longrightarrow>
    admitTurn now owned reply (sx_tracker x) = (a, v) \<Longrightarrow>
    sessStep uuid x (x\<lparr>sx_alive := alive', sx_tracker := v,
      sx_calls := us @ (case a of Admitted \<Rightarrow> [CAdmitted] | SessionBusy _ \<Rightarrow> [] | AwaitRetire \<Rightarrow> [CAsking]) @ ws\<rparr>)"
| sess_giveup: "sx_calls x = us @ CAsking # ws \<Longrightarrow> sessStep uuid x (x\<lparr>sx_calls := us @ ws\<rparr>)"
| sess_fork: "sx_calls x = us @ CAdmitted # ws \<Longrightarrow> 1 < pid \<Longrightarrow> sessionOperation operation \<Longrightarrow>
    sessStep uuid x (x\<lparr>sx_calls := us @ CRunning pid operation # ws\<rparr>)"
| sess_open: "CRunning pid operation \<in> set (sx_calls x) \<Longrightarrow> sessStep uuid x (x\<lparr>sx_alive := sessionName pid uuid operation # sx_alive x\<rparr>)"
| sess_gone: "sessStep uuid x (x\<lparr>sx_alive := filter P (sx_alive x)\<rparr>)"
| sess_failed: "sx_calls x = us @ CAdmitted # ws \<Longrightarrow> hr_ProcessID r \<le> 1 \<Longrightarrow>
    sessStep uuid x (x\<lparr>sx_calls := us @ ws, sx_tracker := retireGuestSession uuid operation r (sx_tracker x)\<rparr>)"
| sess_retire: "sx_calls x = us @ CRunning pid operation # ws \<Longrightarrow> hr_ProcessID r = pid \<and> hr_Reaped r \<or> \<not> hr_Reaped r \<Longrightarrow>
    sessStep uuid x (x\<lparr>sx_calls := us @ ws, sx_tracker := retireGuestSession uuid operation r (sx_tracker x),
      sx_unreaped := (if hr_Reaped r then [] else [sessionName pid uuid operation]) @ sx_unreaped x\<rparr>)"
| sess_observe: "honestReply (sx_tracker x) (sx_alive x) alive' reply \<Longrightarrow>
    sessStep uuid x (x\<lparr>sx_alive := alive', sx_tracker := snd (observeGuestSessions now owned reply (sx_tracker x))\<rparr>)"

definition sessStart :: "SessSys \<Rightarrow> bool" where
  "sessStart x = (sx_tracker x = newTracker \<and> sx_calls x = [] \<and> sx_alive x = [] \<and> sx_unreaped x = [])"

section \<open>The bound of the ledger\<close>

definition flying :: "call list \<Rightarrow> nat" where
  "flying cs = length (filter (\<lambda>c. c \<noteq> CAsking) cs)"

definition sessInv :: "string \<Rightarrow> SessSys \<Rightarrow> bool" where
  "sessInv uuid x = (let v = sx_tracker x in length (sx_calls x) \<le> 4 \<and> tk_inFlight v = int (flying (sx_calls x)) \<and> distinct (tk_pending v) \<and>
     length (tk_pending v) + flying (sx_calls x) \<le> 7 \<and>
     (\<forall>pid operation. CRunning pid operation \<in> set (sx_calls x) \<longrightarrow> 1 < pid \<and> sessionOperation operation) \<and>
     set (sx_alive x) \<subseteq> set (tk_pending v) \<union> set (sx_unreaped x) \<union> set (concat (map (callName uuid) (sx_calls x))))"

lemma flying_simps [simp]: "flying [] = 0" "flying (CAsking # cs) = flying cs" "flying (CAdmitted # cs) = Suc (flying cs)"
  "flying (CRunning p a # cs) = Suc (flying cs)" "flying (us @ ws) = flying us + flying ws"
  by (simp_all add: flying_def)

lemma flying_le: "flying cs \<le> length cs" by (simp add: flying_def)

text \<open>What a reconciliation keeps: it never adds to the ledger, and drops a name only on the word of the inspector.\<close>

definition settles :: "string list \<Rightarrow> sessionTracker \<Rightarrow> sessionTracker \<Rightarrow> bool" where
  "settles alive v w = (tk_inFlight w = tk_inFlight v \<and> set (tk_pending w) \<subseteq> set (tk_pending v) \<and>
     (distinct (tk_pending v) \<longrightarrow> distinct (tk_pending w)) \<and> length (tk_pending w) \<le> length (tk_pending v) \<and>
     set (tk_pending v) \<inter> set alive \<subseteq> set (tk_pending w))"

lemma settles_refl [simp]: "settles alive v v" "settles alive v (v\<lparr>tk_next := t\<rparr>)" "settles alive v (failSessions now e v)"
  "settles alive v (failSessions now e (v\<lparr>tk_next := t\<rparr>))"
  by (simp_all add: settles_def failSessions_def)

lemma stillPending_alive:
  assumes "remaining = map (\<lambda>n. n \<in> set alive) names"
  shows "set pending \<inter> set alive \<subseteq> set (stillPending names remaining pending)"
proof -
  have "(n, False) \<notin> set (zip names remaining)" if "n \<in> set alive" for n
    using that assms by (auto simp: in_set_zip)
  then show ?thesis by (auto simp: stillPending_def)
qed

lemma settles_apply:
  assumes "sr_remaining r = map (\<lambda>n. n \<in> set alive) names"
  shows "settles alive v (applySessions now names r v)"
proof -
  have f: "tk_pending (applySessions now names r v) = stillPending names (sr_remaining r) (tk_pending v)"
    "tk_inFlight (applySessions now names r v) = tk_inFlight v"
    by (simp_all add: applySessions_def Let_def)
  have "set (stillPending names (sr_remaining r) (tk_pending v)) \<subseteq> set (tk_pending v)"
    "distinct (tk_pending v) \<longrightarrow> distinct (stillPending names (sr_remaining r) (tk_pending v))"
    "length (stillPending names (sr_remaining r) (tk_pending v)) \<le> length (tk_pending v)"
    by (auto simp: stillPending_def)
  with f stillPending_alive[OF assms, of "tk_pending v"] show ?thesis by (simp add: settles_def)
qed

lemma settles_reconcile:
  assumes "honestReply v alive alive' reply"
  shows "settles alive' v (reconcileSessions now owned reply v)"
proof (cases "\<exists>r. reply = Inr r \<and> sessionProtocol r (sort (tk_pending v)) = None")
  case True
  then obtain r where r: "reply = Inr r" "sessionProtocol r (sort (tk_pending v)) = None" by blast
  then have "length (sr_remaining r) = length (tk_pending v)" by (simp add: sessionProtocol_def split: if_splits)
  then have "sr_remaining r = map (\<lambda>n. n \<in> set alive') (sort (tk_pending v))" using assms r(1) by (simp add: honestReply_def)
  then have "settles alive' (v\<lparr>tk_next := now + 5 * second\<rparr>) (applySessions now (sort (tk_pending v)) r (v\<lparr>tk_next := now + 5 * second\<rparr>))"
    by (rule settles_apply)
  then have "settles alive' v (applySessions now (sort (tk_pending v)) r (v\<lparr>tk_next := now + 5 * second\<rparr>))" by (simp add: settles_def)
  then show ?thesis using r settles_refl(4) by (cases "tk_pending v = []") (auto simp: reconcileSessions_def Let_def)
next
  case False
  then show ?thesis by (auto simp: reconcileSessions_def Let_def split: sum.splits option.splits)
qed

lemma settles_admit:
  assumes "honestReply v alive alive' reply" "admitTurn now owned reply v = (a, w)"
  shows "\<exists>u. settles alive' v u \<and> (if a = Admitted then length (tk_pending u) < 4 \<and> w = u\<lparr>tk_inFlight := tk_inFlight u + 1\<rparr> else w = u)"
proof -
  define u where "u = (if sessionsBlocked v \<and> tk_next v \<le> now then reconcileSessions now owned reply v else v)"
  have "settles alive' v u" using settles_reconcile[OF assms(1)] by (simp add: u_def)
  moreover have "if a = Admitted then length (tk_pending u) < 4 \<and> w = u\<lparr>tk_inFlight := tk_inFlight u + 1\<rparr> else w = u"
    using assms(2) unfolding admitTurn_def u_def[symmetric] Let_def by (auto simp: sessionsBlocked_def split: if_splits)
  ultimately show ?thesis by blast
qed

lemma settles_observe:
  assumes "honestReply v alive alive' reply"
  shows "settles alive' v (snd (observeGuestSessions now owned reply v))"
  using settles_reconcile[OF assms] by (simp add: observeGuestSessions_def Let_def)

lemma retire_fields:
  "tk_inFlight (retireGuestSession uuid operation r v) = tk_inFlight v - 1"
  "tk_pending (retireGuestSession uuid operation r v) =
     (if 1 < hr_ProcessID r \<and> hr_Reaped r \<and> sessionOperation operation
      then List.insert (sessionName (hr_ProcessID r) uuid operation) (tk_pending v) else tk_pending v)"
  by (auto simp: retireGuestSession_def Let_def)

lemma callName_simps [simp]: "callName uuid CAsking = []" "callName uuid CAdmitted = []" "callName uuid (CRunning p a) = [sessionName p uuid a]"
  by (simp_all add: callName_def)

lemma sessInvI:
  assumes "length (sx_calls x) \<le> 4" "tk_inFlight (sx_tracker x) = int (flying (sx_calls x))" "distinct (tk_pending (sx_tracker x))"
    "length (tk_pending (sx_tracker x)) + flying (sx_calls x) \<le> 7"
    "\<And>pid operation. CRunning pid operation \<in> set (sx_calls x) \<Longrightarrow> 1 < pid \<and> sessionOperation operation"
    "set (sx_alive x) \<subseteq> set (tk_pending (sx_tracker x)) \<union> set (sx_unreaped x) \<union> set (concat (map (callName uuid) (sx_calls x)))"
  shows "sessInv uuid x"
  using assms by (auto simp: sessInv_def Let_def)

lemma sessInvD:
  assumes "sessInv uuid x"
  shows "length (sx_calls x) \<le> 4" "tk_inFlight (sx_tracker x) = int (flying (sx_calls x))" "distinct (tk_pending (sx_tracker x))"
    "length (tk_pending (sx_tracker x)) + flying (sx_calls x) \<le> 7"
    "CRunning pid operation \<in> set (sx_calls x) \<Longrightarrow> 1 < pid \<and> sessionOperation operation"
    "set (sx_alive x) \<subseteq> set (tk_pending (sx_tracker x)) \<union> set (sx_unreaped x) \<union> set (concat (map (callName uuid) (sx_calls x)))"
  using assms by (auto simp: sessInv_def Let_def)

text \<open>A section that settles the ledger keeps the invariant, and so does one more admission after it.\<close>

lemma sessInv_settles:
  assumes "sessInv uuid x" "settles alive' (sx_tracker x) w" "set alive' \<subseteq> set (sx_alive x)"
  shows "sessInv uuid (x\<lparr>sx_alive := alive', sx_tracker := w\<rparr>)"
  by (rule sessInvI) (use assms(2,3) sessInvD[OF assms(1)] in \<open>auto simp: settles_def\<close>)

lemma sessInv_admitted:
  assumes "sessInv uuid x" "sx_calls x = us @ CAsking # ws" "length (tk_pending (sx_tracker x)) < 4"
  shows "sessInv uuid (x\<lparr>sx_tracker := (sx_tracker x)\<lparr>tk_inFlight := tk_inFlight (sx_tracker x) + 1\<rparr>, sx_calls := us @ CAdmitted # ws\<rparr>)"
proof -
  note d = sessInvD[OF assms(1), unfolded assms(2)]
  have "flying us + flying ws \<le> 3" using d(1) flying_le[of us] flying_le[of ws] by simp
  then show ?thesis by (intro sessInvI) (use d assms(3) in auto)
qed

lemma sessInv_without:
  assumes "sessInv uuid x" "sx_calls x = us @ CAsking # ws"
  shows "sessInv uuid (x\<lparr>sx_calls := us @ ws\<rparr>)"
  by (rule sessInvI) (use sessInvD[OF assms(1), unfolded assms(2)] in auto)

lemma sessInv_retire:
  assumes "sessInv uuid x" "sx_calls x = us @ c # ws" "c \<noteq> CAsking" "callName uuid c = [] \<and> hr_ProcessID r \<le> 1 \<and> lost = [] \<or>
    c = CRunning pid operation \<and> (hr_ProcessID r = pid \<and> hr_Reaped r \<and> lost = [] \<or> \<not> hr_Reaped r \<and> lost = [sessionName pid uuid operation])"
  shows "sessInv uuid (x\<lparr>sx_calls := us @ ws, sx_tracker := retireGuestSession uuid operation r (sx_tracker x), sx_unreaped := lost @ sx_unreaped x\<rparr>)"
proof -
  note d = sessInvD[OF assms(1), unfolded assms(2)]
  have f: "flying (c # ws) = Suc (flying ws)" using assms(3) by (simp add: flying_def)
  have p: "length (List.insert n ps) \<le> Suc (length ps)" for n :: string and ps by (simp add: List.insert_def)
  have run: "c = CRunning pid operation \<Longrightarrow> 1 < pid \<and> sessionOperation operation" using d(5)[of pid operation] by simp
  show ?thesis
  proof (rule sessInvI)
    show "length (tk_pending (sx_tracker (x\<lparr>sx_calls := us @ ws, sx_tracker := retireGuestSession uuid operation r (sx_tracker x), sx_unreaped := lost @ sx_unreaped x\<rparr>))) +
      flying (sx_calls (x\<lparr>sx_calls := us @ ws, sx_tracker := retireGuestSession uuid operation r (sx_tracker x), sx_unreaped := lost @ sx_unreaped x\<rparr>)) \<le> 7"
      using d(4) f p[of "sessionName (hr_ProcessID r) uuid operation" "tk_pending (sx_tracker x)"] by (simp add: retire_fields)
  qed (use d(1-3,5,6) f assms(4) run in \<open>auto simp: retire_fields\<close>)
qed

lemma sessInv_step:
  assumes inv: "sessInv uuid x" and tr: "sessStep uuid x y"
  shows "sessInv uuid y"
proof -
  note d = sessInvD[OF inv]
  from tr show ?thesis
  proof (cases rule: sessStep.cases)
    case sess_slot
    then show ?thesis by (intro sessInvI) (use d in auto)
  next
    case (sess_admit us ws alive' reply now owned a v)
    obtain u where u: "settles alive' (sx_tracker x) u" "if a = Admitted then length (tk_pending u) < 4 \<and> v = u\<lparr>tk_inFlight := tk_inFlight u + 1\<rparr> else v = u"
      using settles_admit[OF sess_admit(3,4)] by blast
    let ?x = "x\<lparr>sx_alive := alive', sx_tracker := u\<rparr>"
    have i: "sessInv uuid ?x"
      by (rule sessInv_settles[OF inv u(1)]) (use sess_admit(3) in \<open>simp add: honestReply_def\<close>)
    show ?thesis
    proof (cases a)
      case Admitted
      then show ?thesis using sessInv_admitted[OF i, of us ws] u(2) sess_admit(1,2) by simp
    next
      case (SessionBusy e)
      then show ?thesis using sessInv_without[OF i, of us ws] u(2) sess_admit(1,2) by simp
    next
      case AwaitRetire
      moreover have "x\<lparr>sx_alive := alive', sx_tracker := u, sx_calls := us @ CAsking # ws\<rparr> = x\<lparr>sx_alive := alive', sx_tracker := u\<rparr>"
        using sess_admit(2) by (cases x) simp
      ultimately show ?thesis using i u(2) sess_admit(1) by simp
    qed
  next
    case (sess_giveup us ws)
    then show ?thesis using sessInv_without[OF inv] by simp
  next
    case (sess_fork us ws pid operation)
    then show ?thesis by (intro sessInvI) (use d in auto)
  next
    case (sess_open pid operation)
    then have "sessionName pid uuid operation \<in> set (concat (map (callName uuid) (sx_calls x)))"
      by (auto intro!: bexI[of _ "CRunning pid operation"])
    then show ?thesis using sess_open(1) by (intro sessInvI) (use d in \<open>auto simp del: set_concat\<close>)
  next
    case (sess_gone P)
    then show ?thesis by (intro sessInvI) (use d in auto)
  next
    case (sess_failed us ws r operation)
    then show ?thesis using sessInv_retire[OF inv sess_failed(2), of r "[]" _ operation] by simp
  next
    case (sess_retire us pid operation ws r)
    then show ?thesis using sessInv_retire[OF inv sess_retire(2), of r "if hr_Reaped r then [] else [sessionName pid uuid operation]" pid operation] by auto
  next
    case (sess_observe alive' reply now owned)
    then show ?thesis using sessInv_settles[OF inv settles_observe[OF sess_observe(2)]] by (simp add: honestReply_def)
  qed
qed

interpretation session_ledger: invariant_system sessStart "sessStep uuid" "sessInv uuid" for uuid
proof
  show "sessInv uuid x" if "sessStart x" for x using that by (simp add: sessStart_def sessInv_def newTracker_def)
qed (rule sessInv_step)

section \<open>Properties\<close>

text \<open>
  C11. Under every interleaving of calls, retirements and inspections the ledger of one guest holds at most seven
  names, so that a reconciliation never meets its own limit, and no session is forgotten: one that still
  exists is in the ledger, belongs to a running call, or its VBoxManage process was never reaped.
\<close>
theorem session_ledger_bounded:
  assumes "reach sessStart (sessStep uuid) x"
  shows "length (tk_pending (sx_tracker x)) \<le> 7 \<and>
    (\<forall>n\<in>set (sx_alive x). n \<in> set (tk_pending (sx_tracker x)) \<or> n \<in> set (sx_unreaped x) \<or>
       (\<exists>pid operation. CRunning pid operation \<in> set (sx_calls x) \<and> n = sessionName pid uuid operation))"
proof -
  note d = sessInvD[OF session_ledger.reach_inv[OF assms]]
  have "\<exists>pid operation. CRunning pid operation \<in> set (sx_calls x) \<and> n = sessionName pid uuid operation"
    if "n \<in> set (concat (map (callName uuid) (sx_calls x)))" for n
    using that by (auto simp: callName_def split: call.splits)
  then show ?thesis using d(4,6) by (auto simp del: set_concat)
qed

text \<open>A guest after one finished call, whose session is still there.\<close>

definition sessAfter :: SessSys where
  "sessAfter = \<lparr>sx_tracker = newTracker\<lparr>tk_pending := [sessionName 42 ''u'' ''run'']\<rparr>, sx_calls = [], sx_alive = [sessionName 42 ''u'' ''run''], sx_unreaped = []\<rparr>"

lemma sessAfter_reach: "reach sessStart (sessStep ''u'') sessAfter"
proof -
  let ?r = "reach sessStart (sessStep ''u'')"
  let ?s = "\<lambda>v cs alive. \<lparr>sx_tracker = v, sx_calls = cs, sx_alive = alive, sx_unreaped = []\<rparr>"
  let ?v = "newTracker\<lparr>tk_inFlight := 1\<rparr>" and ?n = "sessionName 42 ''u'' ''run''"
  have "?r (?s newTracker [] [])" by (rule reach_start) (simp add: sessStart_def)
  then have "?r (?s newTracker [CAsking] [])" by (rule reach_trans) (use sess_slot[of "?s newTracker [] []"] in simp)
  moreover have "admitTurn 1 None (Inl EUnexpectedEOF) newTracker = (Admitted, ?v)"
    by (simp add: admitTurn_def sessionsBlocked_def newTracker_def zeroObservation_def)
  then have "sessStep ''u'' (?s newTracker [CAsking] []) (?s ?v [CAdmitted] [])"
    using sess_admit[of "?s newTracker [CAsking] []" "[]" "[]" "[]" "Inl EUnexpectedEOF" 1 None Admitted ?v "''u''"] by (simp add: honestReply_def)
  ultimately have "?r (?s ?v [CAdmitted] [])" by (rule reach_trans)
  then have "?r (?s ?v [CRunning 42 ''run''] [])"
    by (rule reach_trans) (use sess_fork[of "?s ?v [CAdmitted] []" "[]" "[]" 42 "''run''" "''u''"] in \<open>simp add: sessionOperation_def\<close>)
  then have "?r (?s ?v [CRunning 42 ''run''] [?n])"
    by (rule reach_trans) (use sess_open[of 42 "''run''" "?s ?v [CRunning 42 ''run''] []" "''u''"] in simp)
  then show ?thesis
    by (rule reach_trans) (use sess_retire[of "?s ?v [CRunning 42 ''run''] [?n]" "[]" 42 "''run''" "[]" "emptyResult\<lparr>hr_ProcessID := 42, hr_Reaped := True\<rparr>" "''u''"]
      in \<open>simp add: sessAfter_def retireGuestSession_def sessionOperation_def newTracker_def\<close>)
qed

theorem session_ledger_bounded_witness:
  "length (tk_pending (sx_tracker sessAfter)) \<le> 7 \<and> sessionName 42 ''u'' ''run'' \<in> set (tk_pending (sx_tracker sessAfter))"
  using session_ledger_bounded[OF sessAfter_reach] by (auto simp: sessAfter_def)

text \<open>The exit a guest process made known to VBoxManage is the exit the view shows.\<close>

definition guestStatus :: "int \<Rightarrow> int" where
  "guestStatus n = (if n = 0 then 0 else if n \<le> 93 then n + 32 else 126)"

lemma execView_exit:
  assumes "0 < n" "hr_ExitCode r = guestStatus n" "\<not> hr_TimedOut r"
  shows "ev_confirmed (execView r (Some e)) \<and> (if n \<le> 93 then ev_exitCode (execView r (Some e)) = Some n else ev_exitMinimum (execView r (Some e)) = Some 94 \<and> 94 \<le> n)"
  using assms by (auto simp: execView_def guestStatus_def Let_def)

lemma execView_timeout: "hr_TimedOut r \<Longrightarrow> \<not> ev_confirmed (execView r (Some e))"
  by (simp add: execView_def)

end
