(* ===== verification/Router.thy ===== *)
theory Router
  imports Netpolicy
begin

text \<open>
  The helper that configures the router of a lab (\<^verbatim>\<open>internal/router/router.go\<close>): \<^verbatim>\<open>Apply\<close> puts a policy in force and
  records it in \<^verbatim>\<open>applied.json\<close>, \<^verbatim>\<open>Init\<close> applies the seed policy that lets nothing out.  The state is what the helper
  changes: the record, the nft table and its lease, the file of dnsmasq and what the running service has read.  The encoding of
  a policy and the hash are parameters; the outcomes of the commands it runs are inputs.
\<close>

section \<open>State and outcomes\<close>

record Router =
  rt_applied :: string
  rt_rules :: string
  rt_lease :: gotime
  rt_conf :: string
  rt_service :: "string option"

text \<open>
  Of each command its error; of \<^verbatim>\<open>nft\<close> and of the restart also what they did when they failed (a command that is
  killed may have taken effect).
\<close>

record apply_io =
  ai_setup :: "goerr option"
  ai_nft :: "goerr option"
  ai_nftDone :: bool
  ai_ip :: "goerr option"
  ai_replace :: "goerr option"
  ai_restart :: "goerr option"
  ai_restarted :: "string option"
  ai_active :: "goerr option"
  ai_final :: "goerr option"

definition renewLease :: "gotime \<Rightarrow> Policy \<Rightarrow> Router \<Rightarrow> Router" where
  "renewLease now p r = r\<lparr>rt_lease := now + p_LeaseSeconds p * second\<rparr>"

definition loadRules :: "gotime \<Rightarrow> Policy \<Rightarrow> string \<Rightarrow> Router \<Rightarrow> Router" where
  "loadRules now p rules r = renewLease now p (r\<lparr>rt_rules := rules\<rparr>)"

text \<open>The part of \<^verbatim>\<open>apply\<close> after the rules are loaded.\<close>

definition applyRest :: "apply_io \<Rightarrow> string \<Rightarrow> Policy \<Rightarrow> Router \<Rightarrow> goerr option \<times> Router" where
  "applyRest io data p r =
    (if ai_ip io \<noteq> None then (ai_ip io, r)
     else (case DNSMasq p of
        Inl e \<Rightarrow> (Some e, r)
      | Inr dns \<Rightarrow>
         let (e, r1) =
           (if rt_conf r \<noteq> dns then
              (if ai_replace io \<noteq> None then (ai_replace io, r)
               else if ai_restart io \<noteq> None then (ai_restart io, r\<lparr>rt_conf := dns, rt_service := ai_restarted io\<rparr>)
               else (None, r\<lparr>rt_conf := dns, rt_service := Some dns\<rparr>))
            else (ai_active io, r)) in
         if e \<noteq> None then (e, r1)
         else if ai_final io \<noteq> None then (ai_final io, r1) else (None, r1\<lparr>rt_applied := data\<rparr>)))"

definition applyPolicy :: "(Policy \<Rightarrow> string) \<Rightarrow> (string \<Rightarrow> string) \<Rightarrow> apply_io \<Rightarrow> gotime \<Rightarrow> Policy \<Rightarrow> Router \<Rightarrow> goerr option \<times> Router" where
  "applyPolicy json sha io now p r =
    (if Policy_Validate p \<noteq> None then (Policy_Validate p, r)
     else if ai_setup io \<noteq> None then (ai_setup io, r)
     else if sha (rt_applied r) = sha (json p) then
       (if ai_active io \<noteq> None then (ai_active io, r)
        else (ai_nft io, if ai_nft io = None \<or> ai_nftDone io then renewLease now p r else r))
     else (case NFT p of
        Inl e \<Rightarrow> (Some e, r)
      | Inr rules \<Rightarrow>
         if ai_nft io \<noteq> None then (ai_nft io, if ai_nftDone io then loadRules now p rules r else r)
         else applyRest io (json p) p (loadRules now p rules r)))"

section \<open>Initialisation\<close>

record Seed =
  sd_Password :: string
  sd_LANMAC :: string
  sd_WANMAC :: string
  sd_LAN :: string
  sd_WAN :: string

definition seedPolicy :: "Seed \<Rightarrow> Policy" where
  "seedPolicy s = \<lparr>p_LAN = sd_LAN s, p_WAN = sd_WAN s, p_DHCP = False, p_Internet = False, p_DNS = [''1.1.1.1''], p_Protected = [],
     p_LeaseSeconds = 15, p_Nodes = [], p_Entries = []\<rparr>"

definition seedPassword :: "string \<Rightarrow> bool" where
  "seedPassword w = (length w = 64 \<and> list_all (\<lambda>c. c \<in> set ''0123456789abcdef'') w)"

text \<open>\<open>nics\<close> is the outcome of finding and naming the two interfaces, \<open>after\<close> that of setting the password and the marker.\<close>

definition initRouter :: "(Policy \<Rightarrow> string) \<Rightarrow> (string \<Rightarrow> string) \<Rightarrow> goerr option \<Rightarrow> apply_io \<Rightarrow> goerr option \<Rightarrow> gotime \<Rightarrow> Seed \<Rightarrow> Router \<Rightarrow> goerr option \<times> Router" where
  "initRouter json sha nics io after now s r =
    (if \<not> seedPassword (sd_Password s) then (Some (EText ''invalid seed credential''), r)
     else if Policy_Validate (seedPolicy s) \<noteq> None then (Policy_Validate (seedPolicy s), r)
     else if nics \<noteq> None then (nics, r)
     else (case applyPolicy json sha io now (seedPolicy s) r of (Some e, r1) \<Rightarrow> (Some e, r1) | (None, r1) \<Rightarrow> (after, r1)))"

section \<open>What an acknowledged policy means\<close>

text \<open>The rules and the name service are those of the policy.\<close>

definition inForce :: "Policy \<Rightarrow> Router \<Rightarrow> bool" where
  "inForce p r = (NFT p = Inr (rt_rules r) \<and> DNSMasq p = Inr (rt_conf r))"

text \<open>The record tells the truth, as far as the policies in \<open>P\<close> are concerned.\<close>

definition truthful :: "(Policy \<Rightarrow> string) \<Rightarrow> Policy set \<Rightarrow> Router \<Rightarrow> bool" where
  "truthful json P r = (\<forall>p\<in>P. rt_applied r = json p \<longrightarrow> inForce p r)"

lemma NFT_ok: "Policy_Validate p = None \<Longrightarrow> \<exists>t. NFT p = Inr t" by (simp add: NFT_def)
lemma DNSMasq_ok: "Policy_Validate p = None \<Longrightarrow> \<exists>t. DNSMasq p = Inr t" by (simp add: DNSMasq_def)

lemma applyRest_ok:
  assumes "applyRest io data p r = (None, r')"
  shows "DNSMasq p = Inr (rt_conf r')" "rt_rules r' = rt_rules r" "rt_lease r' = rt_lease r" "rt_applied r' = data"
  using assms by (auto simp: applyRest_def Let_def split: if_splits sum.splits)

lemma applyRest_fail:
  assumes "applyRest io data p r = (Some e, r')"
  shows "rt_rules r' = rt_rules r" "rt_lease r' = rt_lease r" "rt_applied r' = rt_applied r"
  using assms by (auto simp: applyRest_def Let_def split: if_splits sum.splits)

text \<open>An acknowledgement renews the lease and leaves the record at the policy; with another record before, the policy is in force.\<close>

lemma applyPolicy_ok:
  assumes "applyPolicy json sha io now p r = (None, r')"
  shows "Policy_Validate p = None" "rt_lease r' = now + p_LeaseSeconds p * second"
    "sha (rt_applied r) \<noteq> sha (json p) \<Longrightarrow> inForce p r' \<and> rt_applied r' = json p"
    "sha (rt_applied r) = sha (json p) \<Longrightarrow> r' = renewLease now p r"
proof -
  show v: "Policy_Validate p = None" using assms by (auto simp: applyPolicy_def split: if_splits)
  obtain rules where t: "NFT p = Inr rules" using NFT_ok[OF v] by blast
  show full: "inForce p r' \<and> rt_applied r' = json p" if "sha (rt_applied r) \<noteq> sha (json p)"
    using assms that v t applyRest_ok[of io "json p" p "loadRules now p rules r" r']
    by (auto simp: applyPolicy_def inForce_def loadRules_def renewLease_def split: if_splits)
  show same: "r' = renewLease now p r" if "sha (rt_applied r) = sha (json p)"
    using assms that v by (auto simp: applyPolicy_def split: if_splits)
  show "rt_lease r' = now + p_LeaseSeconds p * second"
  proof (cases "sha (rt_applied r) = sha (json p)")
    case True then show ?thesis by (simp add: same renewLease_def)
  next
    case False
    then show ?thesis using assms v t applyRest_ok(3)[of io "json p" p "loadRules now p rules r" r']
      by (auto simp: applyPolicy_def loadRules_def renewLease_def split: if_splits)
  qed
qed

lemma inForce_renew [simp]: "inForce p (renewLease now q r) = inForce p r" "rt_applied (renewLease now q r) = rt_applied r"
  by (simp_all add: inForce_def renewLease_def)


text \<open>
  The record is not withdrawn before the rules change: when a policy was loaded and a later command failed, the next
  application of the recorded policy is acknowledged with the lease renewed, while the rules in force are still those of the policy
  that failed.
\<close>
lemma failed_policy_stays_in_force:
  assumes "inForce p r" "rt_applied r = json p" "sha (json p) \<noteq> sha (json q)" "Policy_Validate p = None" "Policy_Validate q = None" "NFT p \<noteq> NFT q"
    "ai_setup io = None" "ai_nft io = None" "ai_ip io = Some err" "ai_setup io' = None" "ai_nft io' = None" "ai_active io' = None"
  shows "\<exists>r1 r2. applyPolicy json sha io now q r = (Some err, r1) \<and> applyPolicy json sha io' later p r1 = (None, r2) \<and>
    rt_lease r2 = later + p_LeaseSeconds p * second \<and> NFT q = Inr (rt_rules r2) \<and> \<not> inForce p r2"
proof -
  obtain rules where t: "NFT q = Inr rules" using NFT_ok[OF assms(5)] by blast
  let ?r1 = "loadRules now q rules r"
  have 1: "applyPolicy json sha io now q r = (Some err, ?r1)" using assms t by (simp add: applyPolicy_def applyRest_def)
  have "rt_applied ?r1 = json p" "rt_rules ?r1 = rules" using assms(2) by (simp_all add: loadRules_def renewLease_def)
  then have 2: "applyPolicy json sha io' later p ?r1 = (None, renewLease later p ?r1)" using assms by (simp add: applyPolicy_def)
  have "\<not> inForce p (renewLease later p ?r1)" using assms(6) t by (simp add: inForce_def loadRules_def renewLease_def)
  then show ?thesis using 1 2 t by (simp add: loadRules_def renewLease_def)
qed


section \<open>Two applications\<close>

definition sampleJSON :: "Policy \<Rightarrow> string" where
  "sampleJSON p = showInt (p_LeaseSeconds p)"

definition sampleSeed :: Seed where
  "sampleSeed = \<lparr>sd_Password = replicate 64 CHR ''a'', sd_LANMAC = [], sd_WANMAC = [], sd_LAN = ''10.1.0.0/24'', sd_WAN = ''10.2.0.0/28''\<rparr>"

definition sampleOutcome :: apply_io where
  "sampleOutcome = \<lparr>ai_setup = None, ai_nft = None, ai_nftDone = True, ai_ip = None, ai_replace = None, ai_restart = None, ai_restarted = None,
     ai_active = None, ai_final = None\<rparr>"

definition freshRouter :: Router where
  "freshRouter = \<lparr>rt_applied = [], rt_rules = [], rt_lease = 0, rt_conf = [], rt_service = None\<rparr>"

lemma showInt_nonempty: "showInt i \<noteq> []"
  by (simp add: showInt_def showNat.simps[of "nat i"])

lemma sampleSeconds: "showInt 30 = ''30''" "showInt 45 = ''45''" "showInt 15 = ''15''" by code_simp+

lemma outcome_succeeds:
  assumes "Policy_Validate p = None"
  shows "\<exists>r'. applyPolicy json sha sampleOutcome now p r = (None, r')"
proof -
  obtain a b where "NFT p = Inr a" "DNSMasq p = Inr b" using NFT_ok[OF assms] DNSMasq_ok[OF assms] by blast
  then show ?thesis using assms
    by (cases "sha (rt_applied r) = sha (json p)") (simp_all add: applyPolicy_def applyRest_def sampleOutcome_def Let_def)
qed

lemma sample_differs: "NFT (samplePolicy 30) \<noteq> NFT (samplePolicy 45)"
proof -
  have f: "p_LeaseSeconds (samplePolicy t) = t" "p_Protected (samplePolicy 30) = p_Protected (samplePolicy 45)" "p_WAN (samplePolicy 30) = p_WAN (samplePolicy 45)" for t
    by (simp_all add: samplePolicy_def)
  show ?thesis using samplePolicy_ok[of 30] samplePolicy_ok[of 45] by (simp add: NFT_def f sampleSeconds)
qed


end
