(* ===== verification/Netlease.thy ===== *)
theory Netlease
  imports Lab Router
begin

text \<open>
  The network lease of a lab: \<^verbatim>\<open>internal/control/network.go\<close>, with \<^verbatim>\<open>degrade\<close>, \<^verbatim>\<open>openRelay\<close> and \<^verbatim>\<open>closeRelays\<close> of \<^verbatim>\<open>server.go\<close>, the
  network and endpoint operations of \<^verbatim>\<open>operations.go\<close>, and \<^verbatim>\<open>Network\<close> and \<^verbatim>\<open>recoverRouter\<close> of \<^verbatim>\<open>vbox.go\<close>, over the router
  helper of the theory \<open>Router\<close>.  Each critical section is one function; a step relation interleaves the
  holder of the network lock with the observer, the clock and the router.  Saving the task is not part of this
  model: every section works on the task in memory.
\<close>

section \<open>Sections of the lease\<close>

definition networkBudget :: duration where "networkBudget = 5 * second"

definition labOf :: "Task \<Rightarrow> LabState" where
  "labOf t = (case t_domain t of DLab l \<Rightarrow> l | DNix _ \<Rightarrow> emptyLab)"

definition network :: "Task \<Rightarrow> string" where
  "network t = lb_Network (labOf t)"

definition confirmed :: "Task \<Rightarrow> bool" where
  "confirmed t = oneOf (network t) [''ready'', ''suspect'']"

definition leaseExpired :: goerr where
  "leaseExpired = Fail ''network_lease_expired'' ''Network lease is unavailable; explicit recovery is required''"

definition leaseCheck :: "gotime \<Rightarrow> int \<Rightarrow> bool \<Rightarrow> Task \<Rightarrow> goerr option" where
  "leaseCheck now seconds recover t =
    (if \<not> recover \<and> (network t = ''degraded'' \<or> confirmed t \<and> (lb_NetworkUpdated (labOf t) = zeroTime \<or> now - lb_NetworkUpdated (labOf t) \<ge> seconds * second))
     then Some leaseExpired else None)"

definition leaseEnd :: "int \<Rightarrow> gotime \<Rightarrow> gotime" where
  "leaseEnd seconds leaseStart = leaseStart + seconds * second"

definition ackCheck :: "goerr option \<Rightarrow> gotime \<Rightarrow> int \<Rightarrow> gotime \<Rightarrow> goerr option" where
  "ackCheck ctxErr now seconds leaseStart =
    (if ctxErr \<noteq> None then ctxErr
     else if \<not> now < leaseEnd seconds leaseStart
     then Some (Fail ''network_lease_expired'' ''Policy acknowledgement arrived after its conservative lease deadline'') else None)"

definition reopen :: "Endpoint \<Rightarrow> Endpoint" where
  "reopen e = (if en_State e \<noteq> ''closed'' then e\<lparr>en_State := ''open''\<rparr> else e)"

definition suspend :: "Endpoint \<Rightarrow> Endpoint" where
  "suspend e = (if en_State e = ''open'' then e\<lparr>en_State := ''suspended''\<rparr> else e)"

definition setEndpoint :: "string \<Rightarrow> string \<Rightarrow> LabState \<Rightarrow> LabState" where
  "setEndpoint ident state l = l\<lparr>lb_Endpoints := map (\<lambda>e. if en_ID e = ident then e\<lparr>en_State := state\<rparr> else e) (lb_Endpoints l)\<rparr>"

text \<open>The last section of \<^verbatim>\<open>refreshNetworkAttempt\<close>.\<close>

definition refreshEnd :: "bool \<Rightarrow> string \<Rightarrow> int \<Rightarrow> gotime \<Rightarrow> string \<Rightarrow> Task \<Rightarrow> goerr option \<times> Task" where
  "refreshEnd recover bootID seconds leaseStart policyHash t =
    (if Terminal t \<or> network t = ''degraded'' \<and> \<not> recover
     then (Some (Fail ''network_degraded'' ''Task or network state changed before policy acknowledgement''), t)
     else (None, mapLab (\<lambda>l. l\<lparr>lb_Network := ''ready'', lb_RouterBootID := bootID, lb_NetworkUpdated := leaseStart,
        lb_NetworkLeaseExpires := leaseEnd seconds leaseStart, lb_NetworkPolicyHash := policyHash,
        lb_Endpoints := (if recover then map reopen (lb_Endpoints l) else lb_Endpoints l)\<rparr>) t))"

text \<open>\<^verbatim>\<open>degrade\<close>: the task and the relays that stay open.\<close>

definition degrade :: "gotime \<Rightarrow> goerr \<Rightarrow> Task \<times> string list \<Rightarrow> Task \<times> string list" where
  "degrade now err = (\<lambda>(t, relays).
     if Terminal t \<or> network t = ''degraded'' then (t, relays)
     else if Code (Safe err) = ''network_lease_expired'' \<and> now < lb_NetworkLeaseExpires (labOf t) then (t, relays)
     else (mapLab (\<lambda>l. l\<lparr>lb_Network := ''degraded'', lb_Endpoints := map suspend (lb_Endpoints l)\<rparr>) t, []))"

text \<open>The verdict of \<^verbatim>\<open>heartbeatNetwork\<close> on a failed refresh, and its section.\<close>

definition tolerates :: "gotime \<Rightarrow> string \<Rightarrow> string \<Rightarrow> goerr \<Rightarrow> Task \<Rightarrow> bool" where
  "tolerates now stage policyHash err t =
    (oneOf (Code (Safe err)) [''backend_timeout'', ''resource_busy''] \<and>
     (policyHash = [] \<and> stage = ''network_lock'' \<or> policyHash \<noteq> [] \<and> policyHash = lb_NetworkPolicyHash (labOf t)) \<and>
     \<not> Terminal t \<and> confirmed t \<and> now < lb_NetworkLeaseExpires (labOf t))"

definition heartbeatFailed :: "gotime \<Rightarrow> string \<Rightarrow> string \<Rightarrow> goerr \<Rightarrow> Task \<Rightarrow> bool \<times> Task" where
  "heartbeatFailed now stage policyHash err t =
    (if tolerates now stage policyHash err t then (True, mapLab (\<lambda>l. l\<lparr>lb_Network := ''suspect''\<rparr>) t) else (False, t))"

definition recordNetworkAttempt :: "NetworkAttempt \<Rightarrow> gotime \<Rightarrow> goerr option \<Rightarrow> Task \<Rightarrow> Task" where
  "recordNetworkAttempt a now err t =
    (let a1 = a\<lparr>na_Finished := now, na_ExecutionMS := max 0 ((now - na_clockStart a) div millisecond - na_LockWaitMS a)\<rparr>;
         a2 = (case err of None \<Rightarrow> a1 | Some e \<Rightarrow> a1\<lparr>na_Error := Some (Safe e),
                 na_Stage := (case map_of (Details (Safe e)) ''stage'' of Some (GStr s) \<Rightarrow> s | _ \<Rightarrow> na_Stage a1)\<rparr>) in
     mapLab (\<lambda>l. l\<lparr>lb_NetworkObservation := Some a2\<rparr>) t)"

definition networkStage :: "goerr option \<Rightarrow> string \<Rightarrow> goerr option" where
  "networkStage err stage = map_option (\<lambda>e. EWire (WError (Code (Safe e)) (Message (Safe e)) [] [] []
     [(''stage'', GStr stage), (''cause'', GErr (Safe e))])) err"

section \<open>Operations on the network\<close>

definition attemptVal :: "NetworkAttempt option \<Rightarrow> gval" where
  "attemptVal a = (case a of None \<Rightarrow> GNil
     | Some a \<Rightarrow> GMap ([(''stage'', GStr (na_Stage a)), (''started'', GTime (na_Started a)), (''deadline'', GTime (na_Deadline a)),
         (''finished'', GTime (na_Finished a)), (''budget_ms'', GInt (na_BudgetMS a)), (''lock_wait_ms'', GInt (na_LockWaitMS a)),
         (''execution_ms'', GInt (na_ExecutionMS a))] @ (case na_Error a of None \<Rightarrow> [] | Some e \<Rightarrow> [(''error'', GErr e)]) @
         (if na_PolicyHash a = [] then [] else [(''policy_hash'', GStr (na_PolicyHash a))])))"

definition endpointAdmission :: "Task \<Rightarrow> goerr option" where
  "endpointAdmission t =
    (if t_State t \<noteq> ''running'' then Some (EWire (WError ''invalid_state'' ''Endpoint publication requires a running lab'' [] [] []
        [(''phase'', GStr (phase t)), (''required_phase'', GStr ''running''), (''next_action'', GStr ''Inspect lab_get; wait for preparation or create another batch after cleanup'')]))
     else if network t \<noteq> ''ready'' then Some (EWire (WError ''network_not_ready'' ''Endpoint publication requires a ready router policy and protection'' [] [] []
        [(''network'', GStr (network t)), (''observation'', attemptVal (lb_NetworkObservation (labOf t))), (''next_action'', GStr ''Inspect lab_get network observation; use network_recover after resolving a degraded network'')]))
     else let active = int (length (filter (\<lambda>e. en_State e \<noteq> ''closed'') (lb_Endpoints (labOf t)))) in
       if active \<ge> 128 then Some (EWire (WError ''endpoint_limit'' ''Lab has reached its active endpoint limit'' [] [] []
          [(''limit'', GInt 128), (''active'', GInt active)]))
       else None)"

definition usedPorts :: "LabState \<Rightarrow> int list" where
  "usedPorts l = concat (map (\<lambda>e. [en_HostPort e, en_LoopbackPort e]) (filter (\<lambda>e. en_State e \<noteq> ''closed'') (lb_Endpoints l)))"

text \<open>\<open>free i p\<close>: the \<open>i\<close>-th port can be bound at \<open>p\<close> (the first at the listen address, the second at the loopback address).\<close>

fun pickPorts :: "(nat \<Rightarrow> int \<Rightarrow> bool) \<Rightarrow> int list \<Rightarrow> int list \<Rightarrow> int list \<Rightarrow> int list" where
  "pickPorts free used ports [] = ports"
| "pickPorts free used ports (p # ps) =
    (if \<not> length ports < 2 then ports
     else if p \<in> set used \<or> \<not> free (length ports) p then pickPorts free used ports ps
     else pickPorts free used (ports @ [p]) ps)"

definition addEndpoint :: "(nat \<Rightarrow> int \<Rightarrow> bool) \<Rightarrow> int \<Rightarrow> int \<Rightarrow> string \<Rightarrow> string \<Rightarrow> string \<Rightarrow> int \<Rightarrow> Task \<Rightarrow> Task res" where
  "addEndpoint free portMin portMax ident nodeID protocol port t =
    (case pickPorts free (usedPorts (labOf t)) [] [portMin..portMax] of
       [host, loopback] \<Rightarrow> Inr (mapLab (\<lambda>l. l\<lparr>lb_Endpoints := lb_Endpoints l @
          [\<lparr>en_ID = ident, en_NodeID = nodeID, en_Protocol = protocol, en_GuestPort = port, en_HostPort = host, en_RouterPort = loopback,
            en_LoopbackPort = loopback, en_State = ''opening''\<rparr>]\<rparr>) t)
     | _ \<Rightarrow> Inl (Fail ''resource_busy'' ''No free endpoint ports''))"

definition endpointRequest :: "string \<Rightarrow> int \<Rightarrow> goerr option" where
  "endpointRequest protocol port =
    (if \<not> oneOf protocol [''tcp'', ''udp''] \<or> port < 1 \<or> port > 65535 then Some (Fail ''invalid_argument'' ''Invalid endpoint'') else None)"

text \<open>The settings a change proposes, and the section of \<^verbatim>\<open>changeNetwork\<close> that adopts them.\<close>

record NetworkRequest =
  nq_Internet :: "bool option"
  nq_DHCP :: "bool option"
  nq_DNS :: "string list option"
  nq_Nodes :: "(string \<times> string) list"

fun registerNodes :: "string list \<Rightarrow> (string \<times> string) list \<Rightarrow> Task \<Rightarrow> Task res" where
  "registerNodes seen [] t = Inr t"
| "registerNodes seen ((ident, ip) # rest) t =
    (case Task_Node t ident of
       Inl _ \<Rightarrow> Inl (Fail ''invalid_argument'' ''Invalid or duplicate node address registration'')
     | Inr _ \<Rightarrow>
        if ident \<in> set seen then Inl (Fail ''invalid_argument'' ''Invalid or duplicate node address registration'')
        else registerNodes (ident # seen) rest
          (mapLab (\<lambda>l. l\<lparr>lb_Nodes := map (\<lambda>n. if n_ID n = ident then n\<lparr>n_Request := (n_Request n)\<lparr>rq_IPv4 := ip\<rparr>\<rparr> else n) (lb_Nodes l)\<rparr>) t))"

definition proposeNetwork :: "NetworkRequest \<Rightarrow> Task \<Rightarrow> Task res" where
  "proposeNetwork a t =
    registerNodes [] (nq_Nodes a) (mapLab (\<lambda>l. l\<lparr>
      lb_Internet := (case nq_Internet a of Some b \<Rightarrow> b | None \<Rightarrow> lb_Internet l),
      lb_DHCP := (case nq_DHCP a of Some b \<Rightarrow> b | None \<Rightarrow> lb_DHCP l),
      lb_DNS := (case nq_DNS a of Some d \<Rightarrow> d | None \<Rightarrow> lb_DNS l)\<rparr>) t)"

definition changeBegin :: "string \<Rightarrow> int \<Rightarrow> bool \<Rightarrow> NetworkRequest \<Rightarrow> Task \<Rightarrow> Task res" where
  "changeBegin wan seconds recover a t =
    (if t_State t \<noteq> ''running'' \<or> \<not> recover \<and> network t \<noteq> ''ready'' then Inl (Fail ''invalid_state'' ''Lab or network state changed'')
     else (case proposeNetwork a t of
        Inl e \<Rightarrow> Inl e
      | Inr proposal \<Rightarrow> (case Policy_Validate (taskPolicy proposal (labOf proposal) wan seconds []) of
           Some e \<Rightarrow> Inl e
         | None \<Rightarrow> Inr proposal)))"


section \<open>The holder of the network lock\<close>

text \<open>
  Who refreshes the policy, and how far the call is: the snapshot was taken and the lease checked, the router was identified,
  the policy is being applied, it was acknowledged, relays are being restored, or the call ends with or without an error.
\<close>

datatype purpose = PPrepare | PHeartbeat | PChange bool | POpen string | PClose string

datatype netCall =
  NIdle
| NAsked purpose
| NRecovering purpose Policy string
| NStarted purpose Policy string
| NProbed purpose Policy string gotime
| NAcked purpose string string gotime
| NRestoring purpose string string gotime "string list"
| NDone purpose
| NRelay string
| NOpened string
| NFailed purpose string string goerr
| NDegrade purpose goerr

definition recovers :: "purpose \<Rightarrow> bool" where
  "recovers p = (p = PChange True)"

record NetSys =
  ns_task :: Task
  ns_relays :: "string list"
  ns_call :: netCall
  ns_router :: Router
  ns_boot :: string
  ns_now :: gotime

text \<open>The configuration: WAN block, lease seconds, port range, encoding and hash of a policy.\<close>

record NetCfg =
  nc_WAN :: string
  nc_seconds :: int
  nc_portMin :: int
  nc_portMax :: int
  nc_json :: "Policy \<Rightarrow> string"
  nc_sha :: "string \<Rightarrow> string"

definition setCall :: "netCall \<Rightarrow> NetSys \<Rightarrow> NetSys" where
  "setCall c x = x\<lparr>ns_call := c\<rparr>"

definition failWith :: "purpose \<Rightarrow> string \<Rightarrow> string \<Rightarrow> goerr option \<Rightarrow> netCall \<Rightarrow> netCall" where
  "failWith p stage policyHash err c = (case err of Some e \<Rightarrow> NFailed p stage policyHash e | None \<Rightarrow> c)"

text \<open>The refresh up to the call of the backend: \<open>protected\<close> is the outcome of collecting the protected ranges.\<close>

definition refreshBegin :: "NetCfg \<Rightarrow> string list res \<Rightarrow> purpose \<Rightarrow> NetSys \<Rightarrow> NetSys" where
  "refreshBegin cfg protected p x =
    (case protected of
       Inl e \<Rightarrow> setCall (NFailed p ''host_protection'' [] e) x
     | Inr ranges \<Rightarrow>
        let t = ns_task x; policy = taskPolicy t (labOf t) (nc_WAN cfg) (nc_seconds cfg) ranges; h = nc_sha cfg (nc_json cfg policy) in
        setCall (failWith p ''lease'' h (leaseCheck (ns_now x) (nc_seconds cfg) (recovers p) t) (if recovers p then NRecovering p policy h else NStarted p policy h)) x)"

text \<open>The router is identified; \<open>probe\<close> is the outcome of the probe with the boot it reports.\<close>

definition routerIdentified :: "bool \<Rightarrow> string \<Rightarrow> string res \<Rightarrow> string res" where
  "routerIdentified recover known probe =
    (case probe of
       Inl e \<Rightarrow> Inl (the (networkStage (Some e) ''router_probe''))
     | Inr boot \<Rightarrow>
        if \<not> UUIDPattern boot then Inl (the (networkStage (Some (Fail ''network_degraded'' ''Router identity could not be verified'')) ''router_identity''))
        else if \<not> recover \<and> known \<noteq> [] \<and> known \<noteq> boot
        then Inl (the (networkStage (Some (Fail ''network_degraded'' ''Router restarted; explicit network_recover is required'')) ''router_identity''))
        else Inr boot)"

text \<open>Errors of the backend are not lease errors.\<close>

definition backendError :: "goerr \<Rightarrow> bool" where
  "backendError e = (Code (Safe e) \<noteq> ''network_lease_expired'')"

inductive netStep :: "NetCfg \<Rightarrow> NetSys \<Rightarrow> NetSys \<Rightarrow> bool" for cfg :: NetCfg where
  net_clock: "ns_now x \<le> now \<Longrightarrow> netStep cfg x (x\<lparr>ns_now := now\<rparr>)"
| net_reboot: "boot \<noteq> ns_boot x \<Longrightarrow> boot \<noteq> lb_RouterBootID (labOf (ns_task x)) \<Longrightarrow> (\<forall>p h b s. ns_call x = NAcked p h b s \<longrightarrow> b \<noteq> boot) \<Longrightarrow>
    (\<forall>p h b s e. ns_call x = NRestoring p h b s e \<longrightarrow> b \<noteq> boot) \<Longrightarrow> (\<forall>p q b s. ns_call x = NProbed p q b s \<longrightarrow> b \<noteq> boot) \<Longrightarrow>
    netStep cfg x (x\<lparr>ns_router := \<lparr>rt_applied = [], rt_rules = [], rt_lease = 0, rt_conf = [], rt_service = None\<rparr>, ns_boot := boot\<rparr>)"
| net_prepare: "ns_call x = NIdle \<Longrightarrow> t_State (ns_task x) = ''preparing'' \<Longrightarrow> netStep cfg x (setCall (NAsked PPrepare) x)"
| net_running: "ns_call x = NIdle \<Longrightarrow> t_State (ns_task x) = ''preparing'' \<Longrightarrow> netStep cfg x (x\<lparr>ns_task := (ns_task x)\<lparr>t_State := ''running''\<rparr>\<rparr>)"
| net_ends: "oneOf state [''finished'', ''cancelled'', ''timed_out'', ''failed'', ''interrupted''] \<Longrightarrow>
    netStep cfg x (x\<lparr>ns_task := (ns_task x)\<lparr>t_State := state\<rparr>\<rparr>)"
| net_heartbeat: "ns_call x = NIdle \<Longrightarrow> confirmed (ns_task x) \<Longrightarrow> \<not> Terminal (ns_task x) \<Longrightarrow> netStep cfg x (setCall (NAsked PHeartbeat) x)"
| net_change: "ns_call x = NIdle \<Longrightarrow> changeBegin (nc_WAN cfg) (nc_seconds cfg) recover a (ns_task x) = Inr t \<Longrightarrow>
    netStep cfg x (x\<lparr>ns_task := t, ns_relays := (if recover then [] else ns_relays x), ns_call := NAsked (PChange recover)\<rparr>)"
| net_open: "ns_call x = NIdle \<Longrightarrow> endpointRequest protocol port = None \<Longrightarrow> Task_Node (ns_task x) nodeID = Inr n \<Longrightarrow> endpointAdmission (ns_task x) = None \<Longrightarrow>
    addEndpoint free (nc_portMin cfg) (nc_portMax cfg) ident nodeID protocol port (ns_task x) = Inr t \<Longrightarrow>
    netStep cfg x (x\<lparr>ns_task := t, ns_call := (if saved = (None :: goerr option) then NAsked (POpen ident) else NIdle)\<rparr>)"
| net_close: "ns_call x = NIdle \<Longrightarrow> t_State (ns_task x) = ''running'' \<Longrightarrow> t = mapLab (setEndpoint ident ''closing'') (ns_task x) \<Longrightarrow>
    netStep cfg x (x\<lparr>ns_task := t, ns_relays := filter (\<lambda>r. r \<noteq> ident) (ns_relays x),
      ns_call := failWith (PClose ident) [] [] err (if network t = ''ready'' then NAsked (PClose ident) else NDone (PClose ident))\<rparr>)"
| net_snapshot: "ns_call x = NAsked p \<Longrightarrow> (\<forall>e. protected = Inl e \<longrightarrow> backendError e) \<Longrightarrow> netStep cfg x (refreshBegin cfg protected p x)"
| net_recover: "ns_call x = NRecovering p policy h \<Longrightarrow>
    initRouter (nc_json cfg) (nc_sha cfg) nics io after (ns_now x) seed (ns_router x) = (err, r) \<Longrightarrow> backendError e \<Longrightarrow>
    netStep cfg x (x\<lparr>ns_router := r, ns_call := (if err = None then NStarted p policy h else if retry then ns_call x else NFailed p ''router_recovery'' h e)\<rparr>)"
| net_probe: "ns_call x = NStarted p policy h \<Longrightarrow> (\<forall>b. probe = Inr b \<longrightarrow> b = ns_boot x) \<Longrightarrow> (\<forall>e. probe = Inl e \<longrightarrow> backendError e) \<Longrightarrow>
    netStep cfg x (setCall (case routerIdentified (recovers p) (lb_RouterBootID (labOf (ns_task x))) probe of
      Inl e \<Rightarrow> NFailed p ''router_identity'' h e | Inr b \<Rightarrow> NProbed p policy b (ns_now x)) x)"
| net_upload: "ns_call x = NProbed p policy b start \<Longrightarrow> (\<forall>e. err = Some e \<longrightarrow> backendError e) \<Longrightarrow>
    netStep cfg x (setCall (failWith p ''policy_upload'' h err (NProbed p policy b (ns_now x))) x)"
| net_apply: "ns_call x = NProbed p policy b start \<Longrightarrow> applyPolicy (nc_json cfg) (nc_sha cfg) io (ns_now x) policy (ns_router x) = (err, r) \<Longrightarrow>
    backendError lost \<Longrightarrow> (\<forall>e. err = Some e \<longrightarrow> backendError e) \<Longrightarrow> h = nc_sha cfg (nc_json cfg policy) \<Longrightarrow>
    netStep cfg x (x\<lparr>ns_router := r, ns_call := (if err = None \<and> \<not> timeout then NAcked p h b start
      else NFailed p ''policy_apply'' h (case err of Some e \<Rightarrow> e | None \<Rightarrow> lost))\<rparr>)"
| net_ack: "ns_call x = NAcked p h b start \<Longrightarrow> (\<forall>e. ctxErr = Some e \<longrightarrow> backendError e) \<Longrightarrow>
    netStep cfg x (setCall (failWith p ''policy_apply'' h (ackCheck ctxErr (ns_now x) (nc_seconds cfg) start)
      (NRestoring p h b start (if recovers p then map en_ID (filter (\<lambda>e. en_State e \<noteq> ''closed'') (lb_Endpoints (labOf (ns_task x)))) else []))) x)"
| net_restore: "ns_call x = NRestoring p h b start (e # todo) \<Longrightarrow> (\<forall>e. err = Some e \<longrightarrow> backendError e) \<Longrightarrow>
    netStep cfg x (x\<lparr>ns_relays := (if err = None then e # ns_relays x else []), ns_call := failWith p ''endpoint_restore'' h err (NRestoring p h b start todo)\<rparr>)"
| net_confirm: "ns_call x = NRestoring p h b start [] \<Longrightarrow> refreshEnd (recovers p) b (nc_seconds cfg) start h (ns_task x) = (err, t) \<Longrightarrow>
    netStep cfg x (x\<lparr>ns_task := t, ns_call := failWith p ''endpoint_restore'' h err (NDone p)\<rparr>)"
| net_done: "ns_call x = NDone p \<Longrightarrow>
    netStep cfg x (x\<lparr>ns_task := (case p of PClose ident \<Rightarrow> mapLab (setEndpoint ident ''closed'') (ns_task x) | _ \<Rightarrow> ns_task x),
      ns_call := (case p of POpen ident \<Rightarrow> NRelay ident | _ \<Rightarrow> NIdle)\<rparr>)"
| net_relay: "ns_call x = NRelay ident \<Longrightarrow> (\<forall>e. err = Some e \<longrightarrow> backendError e) \<Longrightarrow>
    netStep cfg x (x\<lparr>ns_relays := (if err = None then ident # ns_relays x else ns_relays x), ns_call := failWith (POpen ident) [] [] err (NOpened ident)\<rparr>)"
| net_opened: "ns_call x = NOpened ident \<Longrightarrow>
    netStep cfg x (x\<lparr>ns_task := mapLab (setEndpoint ident ''open'') (ns_task x), ns_call := NIdle\<rparr>)"
| net_failed: "ns_call x = NFailed p stage h e \<Longrightarrow> p \<noteq> PHeartbeat \<Longrightarrow>
    netStep cfg x (x\<lparr>ns_task := (case p of POpen ident \<Rightarrow> mapLab (setEndpoint ident ''suspended'') (ns_task x)
        | PClose ident \<Rightarrow> mapLab (setEndpoint ident ''release_failed'') (ns_task x) | _ \<Rightarrow> ns_task x),
      ns_call := (if p = PPrepare then NIdle else NDegrade p e)\<rparr>)"
| net_late: "ns_call x = NFailed PHeartbeat stage h e \<Longrightarrow> heartbeatFailed (ns_now x) stage h e (ns_task x) = (ok, t) \<Longrightarrow>
    netStep cfg x (x\<lparr>ns_task := t, ns_call := (if ok then NIdle else NDegrade PHeartbeat e)\<rparr>)"
| net_busy: "heartbeatFailed (ns_now x) ''network_lock'' [] e (ns_task x) = (True, t) \<Longrightarrow> netStep cfg x (x\<lparr>ns_task := t\<rparr>)"
| net_degrade: "ns_call x = NDegrade p e \<Longrightarrow> degrade (ns_now x) e (ns_task x, ns_relays x) = (t, relays) \<Longrightarrow>
    netStep cfg x (x\<lparr>ns_task := t, ns_relays := relays, ns_call := NIdle\<rparr>)"
| net_observe: "degrade (ns_now x) e (ns_task x, ns_relays x) = (t, relays) \<Longrightarrow> netStep cfg x (x\<lparr>ns_task := t, ns_relays := relays\<rparr>)"
| net_record: "netStep cfg x (x\<lparr>ns_task := recordNetworkAttempt a (ns_now x) err (ns_task x)\<rparr>)"

definition netStart :: "NetCfg \<Rightarrow> NetSys \<Rightarrow> bool" where
  "netStart cfg x = (0 \<le> nc_seconds cfg \<and> t_Kind (ns_task x) = ''lab'' \<and> (\<exists>l. t_domain (ns_task x) = DLab l \<and> lb_Network l = ''pending'' \<and> lb_RouterBootID l = [] \<and> lb_NetworkLeaseExpires l = 0 \<and>
     lb_NetworkUpdated l = 0) \<and> t_State (ns_task x) = ''preparing'' \<and> ns_relays x = [] \<and> ns_call x = NIdle \<and> 0 \<le> ns_now x \<and> ns_boot x \<noteq> [] \<and> rt_lease (ns_router x) \<le> ns_now x + minute)"


section \<open>The invariant\<close>

text \<open>What the lease depends on of a task.\<close>

definition leaseView :: "Task \<Rightarrow> bool \<times> bool \<times> string \<times> string \<times> gotime" where
  "leaseView t = ((\<exists>l. t_domain t = DLab l), Terminal t, network t, lb_RouterBootID (labOf t), lb_NetworkLeaseExpires (labOf t))"

abbreviation expires :: "Task \<Rightarrow> gotime" where
  "expires t \<equiv> lb_NetworkLeaseExpires (labOf t)"

abbreviation routerBoot :: "Task \<Rightarrow> string" where
  "routerBoot t \<equiv> lb_RouterBootID (labOf t)"

definition isLab :: "Task \<Rightarrow> bool" where
  "isLab t = (\<exists>l. t_domain t = DLab l)"

lemma lab_map [simp]: "isLab t \<Longrightarrow> labOf (mapLab f t) = f (labOf t)" "isLab (mapLab f t) = isLab t" "t_State (mapLab f t) = t_State t"
  "Terminal (mapLab f t) = Terminal t"
  by (auto simp: isLab_def labOf_def mapLab_def Terminal_def split: executionDomain.splits)

lemma leaseView_iff: "leaseView t = leaseView u \<longleftrightarrow> isLab t = isLab u \<and> Terminal t = Terminal u \<and> network t = network u \<and> routerBoot t = routerBoot u \<and> expires t = expires u"
  by (simp add: leaseView_def isLab_def)

lemma leaseView_map:
  assumes "isLab t" "\<And>l. lb_Network (f l) = lb_Network l \<and> lb_RouterBootID (f l) = lb_RouterBootID l \<and> lb_NetworkLeaseExpires (f l) = lb_NetworkLeaseExpires l"
  shows "leaseView (mapLab f t) = leaseView t"
  using assms by (simp add: leaseView_iff network_def)

lemma leaseView_register:
  assumes "isLab t" "registerNodes seen ns t = Inr u"
  shows "leaseView u = leaseView t"
  using assms
proof (induction seen ns t rule: registerNodes.induct)
  case (2 seen ident ip rest t)
  let ?u = "mapLab (\<lambda>l. l\<lparr>lb_Nodes := map (\<lambda>n. if n_ID n = ident then n\<lparr>n_Request := (n_Request n)\<lparr>rq_IPv4 := ip\<rparr>\<rparr> else n) (lb_Nodes l)\<rparr>) t"
  obtain n where n: "Task_Node t ident = Inr n" "ident \<notin> set seen" "registerNodes (ident # seen) rest ?u = Inr u"
    using 2(3) by (auto split: sum.splits if_splits)
  have "leaseView u = leaseView ?u" by (rule "2.IH"[OF n(1,2) _ n(3)]) (use 2(2) in simp)
  also have "\<dots> = leaseView t" by (rule leaseView_map[OF 2(2)]) simp
  finally show ?case .
qed simp

lemma leaseView_change: "isLab t \<Longrightarrow> changeBegin wan seconds recover a t = Inr u \<Longrightarrow> leaseView u = leaseView t"
proof -
  assume t: "isLab t" and c: "changeBegin wan seconds recover a t = Inr u"
  let ?f = "\<lambda>l. l\<lparr>lb_Internet := (case nq_Internet a of Some b \<Rightarrow> b | None \<Rightarrow> lb_Internet l), lb_DHCP := (case nq_DHCP a of Some b \<Rightarrow> b | None \<Rightarrow> lb_DHCP l),
    lb_DNS := (case nq_DNS a of Some d \<Rightarrow> d | None \<Rightarrow> lb_DNS l)\<rparr>"
  have "registerNodes [] (nq_Nodes a) (mapLab ?f t) = Inr u" using c by (auto simp: changeBegin_def proposeNetwork_def split: if_splits sum.splits option.splits)
  then have "leaseView u = leaseView (mapLab ?f t)" by (rule leaseView_register[rotated]) (use t in simp)
  also have "\<dots> = leaseView t" by (rule leaseView_map[OF t]) simp
  finally show ?thesis .
qed

lemma leaseView_endpoint:
  assumes "isLab t"
  shows "leaseView (mapLab (setEndpoint ident state) t) = leaseView t" "addEndpoint free lo hi ident nodeID protocol port t = Inr u \<Longrightarrow> leaseView u = leaseView t"
  using assms by (auto simp: addEndpoint_def setEndpoint_def intro!: leaseView_map split: list.splits)

lemma leaseView_record: "isLab t \<Longrightarrow> leaseView (recordNetworkAttempt a now err t) = leaseView t"
  by (auto simp: recordNetworkAttempt_def Let_def intro!: leaseView_map)

lemma apply_lease:
  assumes "applyPolicy json sha io now p r = (err, r')"
  shows "rt_lease r' = rt_lease r \<or> rt_lease r' = now + p_LeaseSeconds p * second \<and> p_LeaseSeconds p \<le> 60"
    "err = None \<Longrightarrow> rt_lease r' = now + p_LeaseSeconds p * second"
proof -
  have v: "p_LeaseSeconds p \<le> 60" if "Policy_Validate p = None" using that by (auto simp: Policy_Validate_def split: option.splits if_splits)
  have rest: "rt_lease r2 = rt_lease r1" if "applyRest io d p r1 = (e, r2)" for d e r1 r2
    using that applyRest_ok(3) applyRest_fail(2) by (cases e) blast+
  show "rt_lease r' = rt_lease r \<or> rt_lease r' = now + p_LeaseSeconds p * second \<and> p_LeaseSeconds p \<le> 60"
    using assms v rest by (auto simp: applyPolicy_def loadRules_def renewLease_def split: if_splits sum.splits)
  show "rt_lease r' = now + p_LeaseSeconds p * second" if "err = None" using applyPolicy_ok(2) assms that by blast
qed

lemma init_lease:
  assumes "initRouter json sha nics io after now s r = (err, r')"
  shows "rt_lease r' = rt_lease r \<or> rt_lease r' \<le> now + minute"
proof -
  have "r' = r \<or> (\<exists>e. applyPolicy json sha io now (seedPolicy s) r = (e, r'))"
    using assms by (auto simp: initRouter_def split: if_splits prod.splits option.splits)
  then show ?thesis using apply_lease(1)[of json sha io now "seedPolicy s" r _ r'] by (auto simp: seedPolicy_def time_defs)
qed


text \<open>A recovery that is not confirmed yet: it has initialised the router, with another lease.\<close>

definition unsettled :: "netCall \<Rightarrow> bool" where
  "unsettled c = (case c of NAsked p \<Rightarrow> recovers p | NRecovering p _ _ \<Rightarrow> recovers p | NStarted p _ _ \<Rightarrow> recovers p | NProbed p _ _ _ \<Rightarrow> recovers p
     | NAcked p _ _ _ \<Rightarrow> recovers p | NRestoring p _ _ _ _ \<Rightarrow> recovers p | NFailed p _ _ _ \<Rightarrow> recovers p | NDegrade p _ \<Rightarrow> recovers p | _ \<Rightarrow> False)"

definition lapsed :: "purpose \<Rightarrow> goerr \<Rightarrow> NetSys \<Rightarrow> bool" where
  "lapsed p e x = (recovers p \<longrightarrow> backendError e \<or> expires (ns_task x) \<le> ns_now x)"

definition acked :: "NetCfg \<Rightarrow> string \<Rightarrow> gotime \<Rightarrow> NetSys \<Rightarrow> bool" where
  "acked cfg b start x = (start \<le> ns_now x \<and> expires (ns_task x) \<le> leaseEnd (nc_seconds cfg) start \<and>
     (b = ns_boot x \<longrightarrow> leaseEnd (nc_seconds cfg) start \<le> rt_lease (ns_router x)))"

definition leaseCall :: "NetCfg \<Rightarrow> NetSys \<Rightarrow> bool" where
  "leaseCall cfg x = (case ns_call x of
     NRecovering p q h \<Rightarrow> recovers p \<and> p_LeaseSeconds q = nc_seconds cfg
   | NStarted p q h \<Rightarrow> p_LeaseSeconds q = nc_seconds cfg
   | NProbed p q b start \<Rightarrow> p_LeaseSeconds q = nc_seconds cfg \<and> start \<le> ns_now x \<and> expires (ns_task x) \<le> leaseEnd (nc_seconds cfg) start
   | NAcked p h b start \<Rightarrow> acked cfg b start x
   | NRestoring p h b start todo \<Rightarrow> acked cfg b start x
   | NFailed p stage h e \<Rightarrow> lapsed p e x
   | NDegrade p e \<Rightarrow> lapsed p e x
   | _ \<Rightarrow> True)"

definition covered :: "NetSys \<Rightarrow> bool" where
  "covered x = (\<not> Terminal (ns_task x) \<and> confirmed (ns_task x) \<and> routerBoot (ns_task x) = ns_boot x \<and> \<not> unsettled (ns_call x) \<longrightarrow>
     expires (ns_task x) \<le> rt_lease (ns_router x))"

definition netInv :: "NetCfg \<Rightarrow> NetSys \<Rightarrow> bool" where
  "netInv cfg x = (isLab (ns_task x) \<and> (0 \<le> ns_now x \<and> rt_lease (ns_router x) \<le> ns_now x + minute) \<and> expires (ns_task x) \<le> leaseEnd (nc_seconds cfg) (ns_now x) \<and>
     covered x \<and> leaseCall cfg x)"

lemma netInvI:
  assumes "isLab (ns_task x)" "0 \<le> ns_now x \<and> rt_lease (ns_router x) \<le> ns_now x + minute" "expires (ns_task x) \<le> leaseEnd (nc_seconds cfg) (ns_now x)" "covered x" "leaseCall cfg x"
  shows "netInv cfg x"
  using assms by (simp add: netInv_def)

lemma netInvD:
  assumes "netInv cfg x"
  shows "isLab (ns_task x)" "0 \<le> ns_now x \<and> rt_lease (ns_router x) \<le> ns_now x + minute" "expires (ns_task x) \<le> leaseEnd (nc_seconds cfg) (ns_now x)" "covered x" "leaseCall cfg x"
  using assms by (simp_all add: netInv_def)

text \<open>A section that leaves the lease as it was.\<close>

lemma netInv_frame:
  assumes "netInv cfg x" "leaseView t = leaseView (ns_task x)" "unsettled (ns_call x) \<longrightarrow> unsettled c"
    "leaseCall cfg (x\<lparr>ns_task := t, ns_relays := rs, ns_call := c\<rparr>)"
  shows "netInv cfg (x\<lparr>ns_task := t, ns_relays := rs, ns_call := c\<rparr>)"
  by (rule netInvI) (use netInvD[OF assms(1)] assms(2-4) in \<open>auto simp: leaseView_iff covered_def confirmed_def\<close>)

lemma netInv_call:
  assumes "netInv cfg x" "unsettled (ns_call x) \<longrightarrow> unsettled c" "leaseCall cfg (setCall c x)"
  shows "netInv cfg (setCall c x)"
  using netInv_frame[OF assms(1) refl, of c "ns_relays x"] assms(2,3) by (simp add: setCall_def)

lemma leaseCall_frame:
  assumes "leaseCall cfg x" "leaseView t = leaseView (ns_task x)"
  shows "leaseCall cfg (x\<lparr>ns_task := t, ns_relays := rs\<rparr>)"
  using assms by (auto simp: leaseCall_def acked_def lapsed_def leaseView_iff split: netCall.splits)

lemma netInv_task:
  assumes "netInv cfg x" "leaseView t = leaseView (ns_task x)"
  shows "netInv cfg (x\<lparr>ns_task := t\<rparr>)"
  using netInv_frame[OF assms, of "ns_call x" "ns_relays x"] leaseCall_frame[OF netInvD(5)[OF assms(1)] assms(2), of "ns_relays x"] by simp

lemma leaseCall_simps [simp]:
  "leaseCall cfg (x\<lparr>ns_call := NIdle\<rparr>)" "leaseCall cfg (x\<lparr>ns_call := NAsked p\<rparr>)" "leaseCall cfg (x\<lparr>ns_call := NDone p\<rparr>)" "leaseCall cfg (x\<lparr>ns_call := NRelay i\<rparr>)" "leaseCall cfg (x\<lparr>ns_call := NOpened i\<rparr>)"
  "leaseCall cfg (x\<lparr>ns_call := NFailed p st h e\<rparr>) = lapsed p e x" "leaseCall cfg (x\<lparr>ns_call := NDegrade p e\<rparr>) = lapsed p e x"
  "leaseCall cfg (x\<lparr>ns_call := NStarted p q h\<rparr>) = (p_LeaseSeconds q = nc_seconds cfg)" "leaseCall cfg (x\<lparr>ns_call := NRecovering p q h\<rparr>) = (recovers p \<and> p_LeaseSeconds q = nc_seconds cfg)"
  "leaseCall cfg (x\<lparr>ns_call := NAcked p h b start\<rparr>) = acked cfg b start x" "leaseCall cfg (x\<lparr>ns_call := NRestoring p h b start todo\<rparr>) = acked cfg b start x"
  by (simp_all add: leaseCall_def lapsed_def acked_def)

lemma unsettled_simps [simp]:
  "\<not> unsettled NIdle" "unsettled (NAsked p) = recovers p" "\<not> unsettled (NDone p)" "\<not> unsettled (NRelay i)" "\<not> unsettled (NOpened i)" "unsettled (NFailed p st h e) = recovers p"
  "unsettled (NDegrade p e) = recovers p" "unsettled (NStarted p q h) = recovers p" "unsettled (NRecovering p q h) = recovers p" "unsettled (NProbed p q b start) = recovers p"
  "unsettled (NAcked p h b start) = recovers p" "unsettled (NRestoring p h b start todo) = recovers p"
  by (simp_all add: unsettled_def)

lemma recovers_simps [simp]: "recovers (PChange r) = r" "\<not> recovers PPrepare" "\<not> recovers PHeartbeat" "\<not> recovers (POpen i)" "\<not> recovers (PClose i)"
  by (simp_all add: recovers_def)

lemma Fail_backend [simp]: "c \<noteq> ''network_lease_expired'' \<Longrightarrow> backendError (Fail c m)"
  by (simp add: backendError_def Fail_def)

lemma networkStage_backend: "backendError e \<Longrightarrow> backendError (the (networkStage (Some e) stage))"
  by (simp add: backendError_def networkStage_def)


lemma degrade_view:
  assumes "isLab t" "degrade now e (t, rs) = (u, rs')"
  shows "leaseView u = leaseView t \<and> (\<not> Terminal t \<longrightarrow> network t = ''degraded'' \<or> \<not> backendError e \<and> now < expires t) \<or>
    isLab u \<and> Terminal u = Terminal t \<and> network u = ''degraded'' \<and> routerBoot u = routerBoot t \<and> expires u = expires t"
  using assms by (auto simp: degrade_def backendError_def network_def split: if_splits)

lemma degraded_unconfirmed: "network t = ''degraded'' \<Longrightarrow> \<not> confirmed t" by (simp add: confirmed_def)

lemma netInv_degraded:
  assumes "netInv cfg x" "isLab u" "Terminal u = Terminal (ns_task x)" "network u = ''degraded''" "routerBoot u = routerBoot (ns_task x)" "expires u = expires (ns_task x)"
    "leaseCall cfg (x\<lparr>ns_task := u, ns_relays := rs, ns_call := c\<rparr>)"
  shows "netInv cfg (x\<lparr>ns_task := u, ns_relays := rs, ns_call := c\<rparr>)"
  by (rule netInvI) (use netInvD[OF assms(1)] assms(2-7) degraded_unconfirmed[OF assms(4)] in \<open>auto simp: covered_def\<close>)

lemma leaseCall_expires:
  assumes "leaseCall cfg x" "expires u = expires (ns_task x)"
  shows "leaseCall cfg (x\<lparr>ns_task := u, ns_relays := rs\<rparr>)"
  using assms by (auto simp: leaseCall_def acked_def lapsed_def split: netCall.splits)

lemma heartbeat_view:
  assumes "isLab t" "heartbeatFailed now stage h e t = (ok, u)"
  shows "isLab u \<and> Terminal u = Terminal t \<and> (confirmed u \<longrightarrow> confirmed t) \<and> routerBoot u = routerBoot t \<and> expires u = expires t"
  using assms by (auto simp: heartbeatFailed_def tolerates_def split: if_splits)

lemma netInv_heartbeat:
  assumes "netInv cfg x" "isLab u \<and> Terminal u = Terminal (ns_task x) \<and> (confirmed u \<longrightarrow> confirmed (ns_task x)) \<and> routerBoot u = routerBoot (ns_task x) \<and> expires u = expires (ns_task x)"
    "unsettled (ns_call x) \<longrightarrow> unsettled c" "leaseCall cfg (x\<lparr>ns_task := u, ns_call := c\<rparr>)"
  shows "netInv cfg (x\<lparr>ns_task := u, ns_call := c\<rparr>)"
  by (rule netInvI) (use netInvD[OF assms(1)] assms(2-4) in \<open>auto simp: covered_def\<close>)

text \<open>The sections of a refresh.\<close>

lemma lease_snapshot:
  assumes "netInv cfg x" "ns_call x = NAsked p" "\<forall>e. protected = Inl e \<longrightarrow> backendError e"
  shows "netInv cfg (refreshBegin cfg protected p x)"
proof (cases protected)
  case (Inl e)
  then show ?thesis using netInv_call[OF assms(1), of "NFailed p ''host_protection'' [] e"] assms(2,3) by (simp add: refreshBegin_def setCall_def lapsed_def)
next
  case (Inr ranges)
  define q where "q = taskPolicy (ns_task x) (labOf (ns_task x)) (nc_WAN cfg) (nc_seconds cfg) ranges"
  define h where "h = nc_sha cfg (nc_json cfg q)"
  have q: "p_LeaseSeconds q = nc_seconds cfg" by (simp add: q_def taskPolicy_def)
  show ?thesis
  proof (cases "leaseCheck (ns_now x) (nc_seconds cfg) (recovers p) (ns_task x)")
    case None
    then have r: "refreshBegin cfg protected p x = setCall (if recovers p then NRecovering p q h else NStarted p q h) x"
      using Inr by (simp add: refreshBegin_def Let_def q_def h_def failWith_def)
    show ?thesis unfolding r by (rule netInv_call[OF assms(1)]) (use assms(2) q in \<open>auto simp: setCall_def\<close>)
  next
    case (Some e)
    then have r: "refreshBegin cfg protected p x = setCall (NFailed p ''lease'' h e) x" "\<not> recovers p"
      using Inr by (auto simp: refreshBegin_def Let_def q_def h_def failWith_def leaseCheck_def split: if_splits)
    show ?thesis unfolding r(1) by (rule netInv_call[OF assms(1)]) (use assms(2) r(2) in \<open>auto simp: setCall_def lapsed_def\<close>)
  qed
qed

lemma lease_probe:
  assumes "netInv cfg x" "ns_call x = NStarted p q h" "\<forall>e. probe = Inl e \<longrightarrow> backendError e"
  shows "netInv cfg (setCall (case routerIdentified (recovers p) k probe of Inl e \<Rightarrow> NFailed p ''router_identity'' h e | Inr b \<Rightarrow> NProbed p q b (ns_now x)) x)"
proof (cases "routerIdentified (recovers p) k probe")
  case (Inl e)
  then have "backendError e" using assms(3) networkStage_backend by (auto simp: routerIdentified_def split: sum.splits if_splits)
  then show ?thesis using Inl netInv_call[OF assms(1), of "NFailed p ''router_identity'' h e"] assms(2) by (simp add: setCall_def lapsed_def)
next
  case (Inr b)
  have "p_LeaseSeconds q = nc_seconds cfg" using netInvD(5)[OF assms(1)] assms(2) by (simp add: leaseCall_def)
  then show ?thesis using Inr netInv_call[OF assms(1), of "NProbed p q b (ns_now x)"] assms(2) netInvD(3)[OF assms(1)] by (simp add: setCall_def leaseCall_def)
qed

lemma lease_recover:
  assumes inv: "netInv cfg x" and call: "ns_call x = NRecovering p q h" and i: "initRouter json sha nics io after (ns_now x) seed (ns_router x) = (err, r)" and e: "backendError e"
  shows "netInv cfg (x\<lparr>ns_router := r, ns_call := (if err = None then NStarted p q h else if retry then ns_call x else NFailed p ''router_recovery'' h e)\<rparr>)"
proof -
  note d = netInvD[OF inv]
  have q: "p_LeaseSeconds q = nc_seconds cfg" and rec: "recovers p" using d(5) call by (simp_all add: leaseCall_def)
  have "rt_lease r \<le> ns_now x + minute" using init_lease[OF i] d(2) by auto
  then show ?thesis by (intro netInvI) (use d call q rec e in \<open>auto simp: covered_def lapsed_def leaseCall_def\<close>)
qed

lemma lease_apply:
  assumes inv: "netInv cfg x" and call: "ns_call x = NProbed p q b start" and a: "applyPolicy json sha io (ns_now x) q (ns_router x) = (err, r)"
    and e: "backendError lost" "\<forall>e. err = Some e \<longrightarrow> backendError e"
  shows "netInv cfg (x\<lparr>ns_router := r, ns_call := (if err = None \<and> \<not> timeout then NAcked p h b start else NFailed p ''policy_apply'' h (case err of Some e \<Rightarrow> e | None \<Rightarrow> lost))\<rparr>)"
proof -
  note d = netInvD[OF inv]
  have c: "p_LeaseSeconds q = nc_seconds cfg" "start \<le> ns_now x" "expires (ns_task x) \<le> leaseEnd (nc_seconds cfg) start" using d(5) call by (simp_all add: leaseCall_def)
  note l = apply_lease[OF a, unfolded c(1)]
  have up: "rt_lease r \<le> ns_now x + minute" using l(1) d(2) by (auto simp: time_defs)
  have cov: "covered (x\<lparr>ns_router := r, ns_call := c'\<rparr>)" if "recovers p \<longrightarrow> unsettled c'" for c'
    using d(3,4) l(1) call that by (auto simp: covered_def leaseEnd_def)
  show ?thesis
  proof (rule netInvI)
    let ?c = "if err = None \<and> \<not> timeout then NAcked p h b start else NFailed p ''policy_apply'' h (case err of Some e \<Rightarrow> e | None \<Rightarrow> lost)"
    show "covered (x\<lparr>ns_router := r, ns_call := ?c\<rparr>)" by (rule cov) simp
    show "leaseCall cfg (x\<lparr>ns_router := r, ns_call := ?c\<rparr>)"
      using c(2,3) l(2) e by (auto simp: acked_def lapsed_def leaseEnd_def split: option.splits)
  qed (use d up in auto)
qed

lemma lease_ack:
  assumes inv: "netInv cfg x" and call: "ns_call x = NAcked p h b start" and e: "\<forall>e. ctxErr = Some e \<longrightarrow> backendError e"
  shows "netInv cfg (setCall (failWith p ''policy_apply'' h (ackCheck ctxErr (ns_now x) (nc_seconds cfg) start) (NRestoring p h b start todo)) x)"
proof -
  have a: "acked cfg b start x" using netInvD(5)[OF inv] call by (simp add: leaseCall_def)
  then have "lapsed p er x" if "ackCheck ctxErr (ns_now x) (nc_seconds cfg) start = Some er" for er
    using that e by (auto simp: ackCheck_def lapsed_def acked_def split: if_splits)
  then show ?thesis by (intro netInv_call[OF inv]) (use call a in \<open>auto simp: failWith_def setCall_def split: option.splits\<close>)
qed

lemma lease_confirm:
  assumes inv: "netInv cfg x" and call: "ns_call x = NRestoring p h b start []" and r: "refreshEnd (recovers p) b (nc_seconds cfg) start h (ns_task x) = (err, t)"
  shows "netInv cfg (x\<lparr>ns_task := t, ns_call := failWith p ''endpoint_restore'' h err (NDone p)\<rparr>)"
proof (cases err)
  case (Some e)
  then have "t = ns_task x" "backendError e" using r by (auto simp: refreshEnd_def split: if_splits)
  then show ?thesis using Some netInv_call[OF inv, of "NFailed p ''endpoint_restore'' h e"] call by (simp add: failWith_def setCall_def lapsed_def)
next
  case None
  note d = netInvD[OF inv]
  have a: "acked cfg b start x" using d(5) call by (simp add: leaseCall_def)
  have t: "isLab t" "routerBoot t = b" "expires t = leaseEnd (nc_seconds cfg) start" using r None d(1) by (auto simp: refreshEnd_def split: if_splits)
  show ?thesis using None
    by (intro netInvI) (use d t a in \<open>auto simp: covered_def failWith_def acked_def leaseEnd_def\<close>)
qed

lemma lease_degrade:
  assumes inv: "netInv cfg x" and call: "ns_call x = NDegrade p e" and g: "degrade (ns_now x) e (ns_task x, ns_relays x) = (t, rs)"
  shows "netInv cfg (x\<lparr>ns_task := t, ns_relays := rs, ns_call := NIdle\<rparr>)"
proof -
  note d = netInvD[OF inv]
  have l: "recovers p \<longrightarrow> backendError e \<or> expires (ns_task x) \<le> ns_now x" using d(5) call by (simp add: leaseCall_def lapsed_def)
  from degrade_view[OF d(1) g] show ?thesis
  proof
    assume a: "leaseView t = leaseView (ns_task x) \<and> (\<not> Terminal (ns_task x) \<longrightarrow> network (ns_task x) = ''degraded'' \<or> \<not> backendError e \<and> ns_now x < expires (ns_task x))"
    then have "covered (x\<lparr>ns_task := t, ns_relays := rs, ns_call := NIdle\<rparr>)"
      using d(4) l call degraded_unconfirmed[of "ns_task x"] by (auto simp: covered_def leaseView_iff confirmed_def)
    then show ?thesis by (intro netInvI) (use a d in \<open>auto simp: leaseView_iff leaseCall_def\<close>)
  next
    assume "isLab t \<and> Terminal t = Terminal (ns_task x) \<and> network t = ''degraded'' \<and> routerBoot t = routerBoot (ns_task x) \<and> expires t = expires (ns_task x)"
    then show ?thesis by (intro netInv_degraded[OF inv]) (auto simp: leaseCall_def)
  qed
qed

lemma lease_observe:
  assumes inv: "netInv cfg x" and g: "degrade (ns_now x) e (ns_task x, ns_relays x) = (t, rs)"
  shows "netInv cfg (x\<lparr>ns_task := t, ns_relays := rs\<rparr>)"
proof -
  note d = netInvD[OF inv]
  from degrade_view[OF d(1) g] show ?thesis
  proof
    assume a: "leaseView t = leaseView (ns_task x) \<and> (\<not> Terminal (ns_task x) \<longrightarrow> network (ns_task x) = ''degraded'' \<or> \<not> backendError e \<and> ns_now x < expires (ns_task x))"
    have "netInv cfg (x\<lparr>ns_task := t, ns_relays := rs, ns_call := ns_call x\<rparr>)"
      by (rule netInv_frame[OF inv]) (use a leaseCall_frame[OF d(5), of t rs] in simp_all)
    then show ?thesis by simp
  next
    assume a: "isLab t \<and> Terminal t = Terminal (ns_task x) \<and> network t = ''degraded'' \<and> routerBoot t = routerBoot (ns_task x) \<and> expires t = expires (ns_task x)"
    have "netInv cfg (x\<lparr>ns_task := t, ns_relays := rs, ns_call := ns_call x\<rparr>)"
      by (rule netInv_degraded[OF inv]) (use a leaseCall_expires[OF d(5), of t rs] in simp_all)
    then show ?thesis by simp
  qed
qed


lemma netInv_step:
  assumes inv: "netInv cfg x" and tr: "netStep cfg x y"
  shows "netInv cfg y"
proof -
  note d = netInvD[OF inv]
  note lab = d(1)
  note view = netInv_frame[OF inv]
  from tr show ?thesis
  proof (cases rule: netStep.cases)
    case (net_clock now)
    then show ?thesis by (intro netInvI) (use d in \<open>auto simp: covered_def leaseEnd_def leaseCall_def acked_def lapsed_def split: netCall.splits\<close>)
  next
    case (net_reboot boot)
    have b: "boot \<noteq> routerBoot (ns_task x)" using net_reboot by simp
    have "leaseCall cfg y" using d(5) net_reboot by (auto simp: leaseCall_def acked_def lapsed_def split: netCall.splits)
    then show ?thesis using net_reboot(1) b by (intro netInvI) (use d in \<open>auto simp: covered_def time_defs\<close>)
  next
    case net_prepare
    then show ?thesis using netInv_call[OF inv, of "NAsked PPrepare"] by (simp add: setCall_def)
  next
    case net_running
    then have "\<not> Terminal (ns_task x)" "\<not> Terminal ((ns_task x)\<lparr>t_State := ''running''\<rparr>)" by (simp_all add: Terminal_def)
    then have "leaseView ((ns_task x)\<lparr>t_State := ''running''\<rparr>) = leaseView (ns_task x)" by (simp add: leaseView_def network_def labOf_def)
    from netInv_task[OF inv this] show ?thesis using net_running(1) by simp
  next
    case (net_ends state)
    let ?t = "(ns_task x)\<lparr>t_State := state\<rparr>"
    have t: "Terminal ?t" "isLab ?t = isLab (ns_task x)" "labOf ?t = labOf (ns_task x)" using net_ends(2) by (auto simp: Terminal_def oneOf_iff isLab_def labOf_def)
    then have "leaseCall cfg y" using leaseCall_expires[OF d(5), of ?t "ns_relays x"] net_ends(1) by simp
    then show ?thesis using net_ends(1) by (intro netInvI) (use d t in \<open>auto simp: covered_def\<close>)
  next
    case net_heartbeat
    then show ?thesis using netInv_call[OF inv, of "NAsked PHeartbeat"] by (simp add: setCall_def)
  next
    case (net_change recover a t)
    then show ?thesis using view[OF leaseView_change[OF lab net_change(3)], of "NAsked (PChange recover)" "if recover then [] else ns_relays x"] by simp
  next
    case (net_open protocol port nodeID n free ident t saved)
    then show ?thesis using view[OF leaseView_endpoint(2)[OF lab net_open(6)], of "if saved = None then NAsked (POpen ident) else NIdle" "ns_relays x"] by simp
  next
    case (net_close t ident err)
    have "leaseCall cfg (z\<lparr>ns_call := failWith (PClose ident) [] [] err (if network t = ''ready'' then NAsked (PClose ident) else NDone (PClose ident))\<rparr>)" for z
      by (auto simp: failWith_def lapsed_def split: option.splits)
    then show ?thesis using net_close view[of t "failWith (PClose ident) [] [] err (if network t = ''ready'' then NAsked (PClose ident) else NDone (PClose ident))"] leaseView_endpoint(1)[OF lab]
      by simp
  next
    case (net_snapshot p protected)
    then show ?thesis using lease_snapshot[OF inv] by simp
  next
    case (net_recover p policy h nics io after seed err r e retry)
    then show ?thesis using lease_recover[OF inv net_recover(2,3,4)] by simp
  next
    case (net_probe p policy h probe)
    then show ?thesis using lease_probe[OF inv net_probe(2)] by simp
  next
    case (net_upload p policy b start err h)
    have q: "p_LeaseSeconds policy = nc_seconds cfg" using d(5) net_upload(2) by (simp add: leaseCall_def)
    then have "netInv cfg (setCall (failWith p ''policy_upload'' h err (NProbed p policy b (ns_now x))) x)"
      by (intro netInv_call[OF inv]) (use net_upload d(3) in \<open>auto simp: failWith_def setCall_def lapsed_def leaseCall_def split: option.splits\<close>)
    then show ?thesis using net_upload(1) by simp
  next
    case (net_apply p policy b start io err r lost h timeout)
    then show ?thesis using lease_apply[OF inv net_apply(2,3,4,5)] by simp
  next
    case (net_ack p h b start ctxErr)
    then show ?thesis using lease_ack[OF inv] by simp
  next
    case (net_restore p h b start e todo err)
    have a: "acked cfg b start x" using d(5) net_restore(2) by (simp add: leaseCall_def)
    have "leaseCall cfg (x\<lparr>ns_relays := rs, ns_call := failWith p ''endpoint_restore'' h err (NRestoring p h b start todo)\<rparr>)" for rs
      using a net_restore(3) by (auto simp: failWith_def lapsed_def acked_def split: option.splits)
    then show ?thesis using view[OF refl, of "failWith p ''endpoint_restore'' h err (NRestoring p h b start todo)" "if err = None then e # ns_relays x else []"] net_restore(1,2)
      by (auto simp: failWith_def split: option.splits)
  next
    case (net_confirm p h b start err t)
    then show ?thesis using lease_confirm[OF inv] by simp
  next
    case (net_done p)
    have "leaseView (case p of PClose ident \<Rightarrow> mapLab (setEndpoint ident ''closed'') (ns_task x) | _ \<Rightarrow> ns_task x) = leaseView (ns_task x)"
      using leaseView_endpoint(1)[OF lab] by (simp split: purpose.splits)
    from view[OF this, of "case p of POpen ident \<Rightarrow> NRelay ident | _ \<Rightarrow> NIdle" "ns_relays x"] show ?thesis using net_done by (simp split: purpose.splits)
  next
    case (net_relay ident err)
    have "leaseCall cfg (x\<lparr>ns_relays := rs, ns_call := failWith (POpen ident) [] [] err (NOpened ident)\<rparr>)" for rs
      by (auto simp: failWith_def lapsed_def split: option.splits)
    then show ?thesis using view[OF refl, of "failWith (POpen ident) [] [] err (NOpened ident)" "if err = None then ident # ns_relays x else ns_relays x"] net_relay(1,2) by auto
  next
    case (net_opened ident)
    then show ?thesis using view[OF leaseView_endpoint(1)[OF lab], of NIdle "ns_relays x" ident "''open''"] by simp
  next
    case (net_failed p stage h e)
    have l: "lapsed p e x" using d(5) net_failed(2) by (simp add: leaseCall_def)
    let ?t = "case p of POpen ident \<Rightarrow> mapLab (setEndpoint ident ''suspended'') (ns_task x) | PClose ident \<Rightarrow> mapLab (setEndpoint ident ''release_failed'') (ns_task x) | _ \<Rightarrow> ns_task x"
    have v: "leaseView ?t = leaseView (ns_task x)" using leaseView_endpoint(1)[OF lab] by (simp split: purpose.splits)
    have "leaseCall cfg (x\<lparr>ns_task := ?t, ns_call := (if p = PPrepare then NIdle else NDegrade p e)\<rparr>)" using l v by (auto simp: lapsed_def leaseView_iff)
    then show ?thesis using view[OF v, of "if p = PPrepare then NIdle else NDegrade p e" "ns_relays x"] net_failed(1,2) by auto
  next
    case (net_late stage h e ok t)
    then show ?thesis using netInv_heartbeat[OF inv heartbeat_view[OF lab net_late(3)], of "if ok then NIdle else NDegrade PHeartbeat e"] by (simp add: lapsed_def)
  next
    case (net_busy e t)
    note v = heartbeat_view[OF lab net_busy(2)]
    from netInv_heartbeat[OF inv v, of "ns_call x"] leaseCall_expires[OF d(5), of t "ns_relays x"] v show ?thesis using net_busy(1) by simp
  next
    case (net_degrade p e t relays)
    then show ?thesis using lease_degrade[OF inv] by simp
  next
    case (net_observe e t relays)
    then show ?thesis using lease_observe[OF inv] by simp
  next
    case (net_record a err)
    note v = leaseView_record[OF lab, of a "ns_now x" err]
    from netInv_task[OF inv v] show ?thesis using net_record by simp
  qed
qed


interpretation network_lease: invariant_system "netStart cfg" "netStep cfg" "netInv cfg" for cfg
proof
  show "netInv cfg x" if "netStart cfg x" for x
    using that by (auto simp: netStart_def netInv_def covered_def leaseCall_def confirmed_def network_def labOf_def isLab_def leaseEnd_def second_def)
qed (rule netInv_step)

lemma view_network: "leaseView u = leaseView t \<Longrightarrow> network u = network t" by (simp add: leaseView_iff)

lemma degraded_stays:
  assumes lab: "isLab (ns_task x)" and tr: "netStep cfg x y" and deg: "network (ns_task x) = ''degraded''"
  shows "network (ns_task y) = ''degraded'' \<or> (\<exists>h b start. ns_call x = NRestoring (PChange True) h b start [])"
  using tr
proof (cases rule: netStep.cases)
  case (net_change recover a t)
  then show ?thesis using view_network[OF leaseView_change[OF lab net_change(3)]] deg by simp
next
  case (net_open protocol port nodeID n free ident t saved)
  then show ?thesis using deg by (simp add: endpointAdmission_def split: if_splits)
next
  case (net_snapshot p protected)
  then show ?thesis using deg by (simp add: refreshBegin_def setCall_def Let_def split: sum.splits)
next
  case (net_confirm p h b start err t)
  then show ?thesis using deg by (cases "recovers p") (auto simp: refreshEnd_def recovers_def split: if_splits)
next
  case (net_late stage h e ok t)
  then show ?thesis using deg degraded_unconfirmed[OF deg] by (auto simp: heartbeatFailed_def tolerates_def split: if_splits)
next
  case (net_busy e t)
  then show ?thesis using degraded_unconfirmed[OF deg] by (auto simp: heartbeatFailed_def tolerates_def split: if_splits)
next
  case (net_degrade p e t relays)
  then show ?thesis using deg by (simp add: degrade_def)
next
  case (net_observe e t relays)
  then show ?thesis using deg by (simp add: degrade_def)
next
  case (net_record a err)
  then show ?thesis using view_network[OF leaseView_record[OF lab, of a "ns_now x" err]] deg by simp
qed (use deg view_network[OF leaseView_endpoint(1)[OF lab]] in \<open>auto simp: setCall_def network_def labOf_def split: purpose.splits\<close>)

end
