(* ===== verification/NetRun.thy ===== *)
theory NetRun
  imports Netlease
begin

text \<open>
  The properties of the network lease, with a run of the system on which they are evaluated: a lab is prepared, an endpoint is
  opened, and the lease runs out while its relay is being set up.
\<close>

section \<open>A refresh that succeeds\<close>

abbreviation netReach :: "NetCfg \<Rightarrow> NetSys \<Rightarrow> bool" where
  "netReach cfg \<equiv> reach (netStart cfg) (netStep cfg)"

definition confirmedTask :: "NetCfg \<Rightarrow> gotime \<Rightarrow> string \<Rightarrow> string \<Rightarrow> Task \<Rightarrow> Task" where
  "confirmedTask cfg now boot h t = snd (refreshEnd False boot (nc_seconds cfg) now h t)"

lemma net_refresh:
  assumes r: "netReach cfg x" and call: "ns_call x = NAsked p" "\<not> recovers p"
    and lease: "leaseCheck (ns_now x) (nc_seconds cfg) False (ns_task x) = None" and live: "\<not> Terminal (ns_task x)" "network (ns_task x) \<noteq> ''degraded''"
    and q: "q = taskPolicy (ns_task x) (labOf (ns_task x)) (nc_WAN cfg) (nc_seconds cfg) ranges" "Policy_Validate q = None"
    and boot: "UUIDPattern (ns_boot x)" "routerBoot (ns_task x) = [] \<or> routerBoot (ns_task x) = ns_boot x" and pos: "0 < nc_seconds cfg"
  shows "\<exists>rt h. netReach cfg (x\<lparr>ns_router := rt, ns_task := confirmedTask cfg (ns_now x) (ns_boot x) h (ns_task x), ns_call := NDone p\<rparr>)"
proof -
  define h where "h = nc_sha cfg (nc_json cfg q)"
  let ?now = "ns_now x" and ?b = "ns_boot x"
  have "netStep cfg x (x\<lparr>ns_call := NStarted p q h\<rparr>)"
    using net_snapshot[of x p "Inr ranges" cfg] call lease q(1) by (simp add: refreshBegin_def setCall_def failWith_def Let_def h_def)
  from reach_trans[OF r this] have "netReach cfg (x\<lparr>ns_call := NStarted p q h\<rparr>)" .
  moreover have "routerIdentified False (routerBoot (ns_task x)) (Inr ?b) = Inr ?b" using boot by (auto simp: routerIdentified_def)
  then have "netStep cfg (x\<lparr>ns_call := NStarted p q h\<rparr>) (x\<lparr>ns_call := NProbed p q ?b ?now\<rparr>)"
    using net_probe[of "x\<lparr>ns_call := NStarted p q h\<rparr>" p q h "Inr ?b" cfg] call(2) by (simp add: setCall_def)
  ultimately have 1: "netReach cfg (x\<lparr>ns_call := NProbed p q ?b ?now\<rparr>)" by (rule reach_trans)
  obtain rt where a: "applyPolicy (nc_json cfg) (nc_sha cfg) sampleOutcome ?now q (ns_router x) = (None, rt)" using outcome_succeeds[OF q(2)] by blast
  have "netStep cfg (x\<lparr>ns_call := NProbed p q ?b ?now\<rparr>) (x\<lparr>ns_router := rt, ns_call := NAcked p h ?b ?now\<rparr>)"
    using net_apply[of "x\<lparr>ns_call := NProbed p q ?b ?now\<rparr>" p q ?b ?now cfg sampleOutcome None rt "Fail [] []" h False] a by (simp add: h_def)
  from reach_trans[OF 1 this] have 2: "netReach cfg (x\<lparr>ns_router := rt, ns_call := NAcked p h ?b ?now\<rparr>)" .
  have "ackCheck None ?now (nc_seconds cfg) ?now = None" using pos by (simp add: ackCheck_def leaseEnd_def second_def)
  then have "netStep cfg (x\<lparr>ns_router := rt, ns_call := NAcked p h ?b ?now\<rparr>) (x\<lparr>ns_router := rt, ns_call := NRestoring p h ?b ?now []\<rparr>)"
    using net_ack[of "x\<lparr>ns_router := rt, ns_call := NAcked p h ?b ?now\<rparr>" p h ?b ?now None cfg] call(2) by (simp add: setCall_def failWith_def)
  from reach_trans[OF 2 this] have 3: "netReach cfg (x\<lparr>ns_router := rt, ns_call := NRestoring p h ?b ?now []\<rparr>)" .
  have "refreshEnd False ?b (nc_seconds cfg) ?now h (ns_task x) = (None, confirmedTask cfg ?now ?b h (ns_task x))"
    using live by (simp add: refreshEnd_def confirmedTask_def)
  then have "netStep cfg (x\<lparr>ns_router := rt, ns_call := NRestoring p h ?b ?now []\<rparr>)
      (x\<lparr>ns_router := rt, ns_task := confirmedTask cfg ?now ?b h (ns_task x), ns_call := NDone p\<rparr>)"
    using net_confirm[of "x\<lparr>ns_router := rt, ns_call := NRestoring p h ?b ?now []\<rparr>" p h ?b ?now cfg None] call(2) by (simp add: failWith_def)
  from reach_trans[OF 3 this] show ?thesis by blast
qed

section \<open>The run\<close>

definition netCfg :: NetCfg where
  "netCfg = \<lparr>nc_WAN = ''10.2.0.0/28'', nc_seconds = 30, nc_portMin = 2021, nc_portMax = 2023, nc_json = (\<lambda>_. ''p''), nc_sha = id\<rparr>"

definition netNode :: Node where
  "netNode = pendingNode ''n'' (sampleAddressed\<lparr>rq_Name := ''a'', rq_IPv4 := ''10.1.0.2''\<rparr>) [] ''02:00:00:00:00:01'' 0 True"

definition netLab :: LabState where
  "netLab = emptyLab\<lparr>lb_LAN := ''10.1.0.0/24'', lb_DHCP := True, lb_Internet := True, lb_DNS := [''1.1.1.1''], lb_Network := ''pending'', lb_Nodes := [netNode]\<rparr>"

definition netTask :: "string \<Rightarrow> LabState \<Rightarrow> Task" where
  "netTask state l = (newTask ''t'' 0 ''lab'' 3600)\<lparr>t_domain := DLab l, t_State := state\<rparr>"

definition netBoot :: string where
  "netBoot = ''00000000-0000-4000-8000-000000000000''"

definition netSys :: "Task \<Rightarrow> string list \<Rightarrow> netCall \<Rightarrow> Router \<Rightarrow> gotime \<Rightarrow> NetSys" where
  "netSys t rs c r now = \<lparr>ns_task = t, ns_relays = rs, ns_call = c, ns_router = r, ns_boot = netBoot, ns_now = now\<rparr>"

definition netReady :: "string \<Rightarrow> LabState \<Rightarrow> LabState" where
  "netReady h l = l\<lparr>lb_Network := ''ready'', lb_RouterBootID := netBoot, lb_NetworkUpdated := 1, lb_NetworkLeaseExpires := 1 + 30 * second, lb_NetworkPolicyHash := h\<rparr>"

definition netEndpoint :: "string \<Rightarrow> Endpoint" where
  "netEndpoint state = \<lparr>en_ID = ''e'', en_NodeID = ''n'', en_Protocol = ''tcp'', en_GuestPort = 22, en_HostPort = 2021, en_RouterPort = 2022, en_LoopbackPort = 2022, en_State = state\<rparr>"

lemmas net_eval = netTask_def newTask_def labOf_def netLab_def emptyLab_def network_def confirmed_def netReady_def

lemma netBoot_uuid: "UUIDPattern netBoot" by code_simp

definition netPolicy :: "Entry list \<Rightarrow> Policy" where
  "netPolicy es = (samplePolicy 30)\<lparr>p_Entries := es\<rparr>"

lemma netPolicy_ok: "Policy_Validate (netPolicy []) = None" "Policy_Validate (netPolicy [\<lparr>e_Protocol = ''tcp'', e_Port = 2022, e_IPv4 = ''10.1.0.2'', e_GuestPort = 22\<rparr>]) = None"
  by (simp_all add: netPolicy_def sample_eval)

lemma netTask_policy:
  assumes "lb_LAN l = ''10.1.0.0/24''" "lb_DHCP l" "lb_Internet l" "lb_DNS l = [''1.1.1.1'']" "lb_Nodes l = [netNode]"
  shows "lb_Endpoints l = [] \<Longrightarrow> taskPolicy (netTask st l) l (nc_WAN netCfg) (nc_seconds netCfg) [''203.0.113.0/24''] = netPolicy []"
    "lb_Endpoints l = [netEndpoint s] \<Longrightarrow> s \<noteq> ''closed'' \<Longrightarrow> taskPolicy (netTask st l) l (nc_WAN netCfg) (nc_seconds netCfg) [''203.0.113.0/24''] =
      netPolicy [\<lparr>e_Protocol = ''tcp'', e_Port = 2022, e_IPv4 = ''10.1.0.2'', e_GuestPort = 22\<rparr>]"
  using assms by (simp_all add: taskPolicy_def netPolicy_def samplePolicy_def netCfg_def nodeLease_def netNode_def pendingNode_def endpointEntry_def netEndpoint_def
      Task_Node_def netTask_def newTask_def)

lemma confirmed_ready:
  assumes "st \<noteq> ''finished''" "st \<noteq> ''cancelled''" "st \<noteq> ''timed_out''" "st \<noteq> ''failed''" "st \<noteq> ''interrupted''" "lb_Network l \<noteq> ''degraded''"
  shows "confirmedTask netCfg 1 netBoot h (netTask st l) = netTask st (netReady h l)"
  using assms by (simp add: confirmedTask_def refreshEnd_def Terminal_def mapLab_def leaseEnd_def netCfg_def net_eval)

lemma run_prepared: "\<exists>r h. netReach netCfg (netSys (netTask ''running'' (netReady h netLab)) [] NIdle r 1)"
proof -
  let ?x = "\<lambda>c. netSys (netTask ''preparing'' netLab) [] c freshRouter 1"
  have "netReach netCfg (?x NIdle)"
    by (rule reach_start) (simp add: netStart_def netSys_def netCfg_def netBoot_def freshRouter_def minute_def zeroTime_def net_eval)
  moreover have "netStep netCfg (?x NIdle) (?x (NAsked PPrepare))" using net_prepare[of "?x NIdle" netCfg] by (simp add: netSys_def setCall_def net_eval)
  ultimately have 1: "netReach netCfg (?x (NAsked PPrepare))" by (rule reach_trans)
  have p: "taskPolicy (netTask ''preparing'' netLab) netLab (nc_WAN netCfg) (nc_seconds netCfg) [''203.0.113.0/24''] = netPolicy []"
    by (rule netTask_policy(1)) (simp_all add: netLab_def emptyLab_def)
  have "\<exists>rt h. netReach netCfg (?x (NAsked PPrepare)\<lparr>ns_router := rt, ns_task := confirmedTask netCfg 1 netBoot h (netTask ''preparing'' netLab), ns_call := NDone PPrepare\<rparr>)"
    using net_refresh[OF 1, of PPrepare "netPolicy []" "[''203.0.113.0/24'']"] p netPolicy_ok(1) netBoot_uuid
    by (simp add: netSys_def leaseCheck_def Terminal_def net_eval) (simp add: netCfg_def)
  then obtain rt h where 2: "netReach netCfg (netSys (netTask ''preparing'' (netReady h netLab)) [] (NDone PPrepare) rt 1)"
    using confirmed_ready[of "''preparing''" netLab] by (auto simp: netSys_def netLab_def)
  have "netStep netCfg (netSys (netTask ''preparing'' (netReady h netLab)) [] (NDone PPrepare) rt 1) (netSys (netTask ''preparing'' (netReady h netLab)) [] NIdle rt 1)"
    using net_done[of "netSys (netTask ''preparing'' (netReady h netLab)) [] (NDone PPrepare) rt 1" PPrepare netCfg] by (simp add: netSys_def)
  with 2 have 3: "netReach netCfg (netSys (netTask ''preparing'' (netReady h netLab)) [] NIdle rt 1)" by (rule reach_trans)
  have "netStep netCfg (netSys (netTask ''preparing'' (netReady h netLab)) [] NIdle rt 1) (netSys (netTask ''running'' (netReady h netLab)) [] NIdle rt 1)"
    using net_running[of "netSys (netTask ''preparing'' (netReady h netLab)) [] NIdle rt 1" netCfg] by (simp add: netSys_def netTask_def)
  with 3 have "netReach netCfg (netSys (netTask ''running'' (netReady h netLab)) [] NIdle rt 1)" by (rule reach_trans)
  then show ?thesis by blast
qed

definition netOpening :: "string \<Rightarrow> LabState" where
  "netOpening h = (netReady h netLab)\<lparr>lb_Endpoints := [netEndpoint ''opening'']\<rparr>"

lemma run_opening: "\<exists>r h. netReach netCfg (netSys (netTask ''running'' (netOpening h)) [] (NRelay ''e'') r 1)"
proof -
  obtain r h where 1: "netReach netCfg (netSys (netTask ''running'' (netReady h netLab)) [] NIdle r 1)" using run_prepared by blast
  let ?y = "\<lambda>c rt g. netSys (netTask ''running'' ((netReady g netLab)\<lparr>lb_Endpoints := [netEndpoint ''opening'']\<rparr>)) [] c rt 1"
  have add: "addEndpoint (\<lambda>_ _. True) (nc_portMin netCfg) (nc_portMax netCfg) ''e'' ''n'' ''tcp'' 22 (netTask ''running'' (netReady h netLab)) =
      Inr (netTask ''running'' (netOpening h))"
    by (simp add: addEndpoint_def netCfg_def upto.simps usedPorts_def mapLab_def netOpening_def netEndpoint_def net_eval)
  have "endpointAdmission (netTask ''running'' (netReady h netLab)) = None" "endpointRequest ''tcp'' 22 = None"
    by (simp_all add: endpointAdmission_def endpointRequest_def net_eval)
  moreover have "Task_Node (netTask ''running'' (netReady h netLab)) ''n'' = Inr netNode"
    by (simp add: Task_Node_def netNode_def pendingNode_def net_eval)
  ultimately have "netStep netCfg (netSys (netTask ''running'' (netReady h netLab)) [] NIdle r 1) (?y (NAsked (POpen ''e'')) r h)"
    using net_open[of "netSys (netTask ''running'' (netReady h netLab)) [] NIdle r 1" "''tcp''" 22 "''n''" netNode "\<lambda>_ _. True" netCfg "''e''" "netTask ''running'' (netOpening h)" None] add
    by (simp add: netSys_def netOpening_def)
  with 1 have 2: "netReach netCfg (?y (NAsked (POpen ''e'')) r h)" by (rule reach_trans)
  let ?l = "netOpening h"
  have p: "taskPolicy (netTask ''running'' ?l) ?l (nc_WAN netCfg) (nc_seconds netCfg) [''203.0.113.0/24''] =
      netPolicy [\<lparr>e_Protocol = ''tcp'', e_Port = 2022, e_IPv4 = ''10.1.0.2'', e_GuestPort = 22\<rparr>]"
    by (rule netTask_policy(2)[of _ "''opening''"]) (simp_all add: netOpening_def netReady_def netLab_def emptyLab_def)
  have "\<exists>rt g. netReach netCfg (?y (NAsked (POpen ''e'')) r h\<lparr>ns_router := rt, ns_task := confirmedTask netCfg 1 netBoot g (netTask ''running'' ?l), ns_call := NDone (POpen ''e'')\<rparr>)"
    using net_refresh[OF 2, of "POpen ''e''" "netPolicy [\<lparr>e_Protocol = ''tcp'', e_Port = 2022, e_IPv4 = ''10.1.0.2'', e_GuestPort = 22\<rparr>]" "[''203.0.113.0/24'']"] p netPolicy_ok(2) netBoot_uuid
    by (simp add: netSys_def leaseCheck_def Terminal_def netOpening_def net_eval) (simp add: netCfg_def second_def zeroTime_def)
  moreover have ne: "lb_Network ?l \<noteq> ''degraded''" by (simp add: netOpening_def netReady_def)
  have "netReady g ?l = (netReady g netLab)\<lparr>lb_Endpoints := [netEndpoint ''opening'']\<rparr>" for g
    by (simp add: netReady_def netOpening_def netLab_def emptyLab_def)
  then have "confirmedTask netCfg 1 netBoot g (netTask ''running'' ?l) = netTask ''running'' ((netReady g netLab)\<lparr>lb_Endpoints := [netEndpoint ''opening'']\<rparr>)" for g
    using confirmed_ready[of "''running''" ?l g] ne by simp
  ultimately obtain rt g where 3: "netReach netCfg (?y (NDone (POpen ''e'')) rt g)" by (auto simp: netSys_def)
  have "netStep netCfg (?y (NDone (POpen ''e'')) rt g) (?y (NRelay ''e'') rt g)"
    using net_done[of "?y (NDone (POpen ''e'')) rt g" "POpen ''e''" netCfg] by (simp add: netSys_def)
  with 3 have "netReach netCfg (?y (NRelay ''e'') rt g)" by (rule reach_trans)
  then show ?thesis unfolding netOpening_def by blast
qed

lemma run_degraded_open:
  "\<exists>x. netReach netCfg x \<and> ns_call x = NIdle \<and> \<not> Terminal (ns_task x) \<and> network (ns_task x) = ''degraded'' \<and> ns_relays x = [''e''] \<and>
     lb_Endpoints (labOf (ns_task x)) = [netEndpoint ''open'']"
proof -
  obtain r h where 1: "netReach netCfg (netSys (netTask ''running'' (netOpening h)) [] (NRelay ''e'') r 1)" using run_opening by blast
  let ?late = "1 + 31 * second"
  let ?d = "(netOpening h)\<lparr>lb_Network := ''degraded''\<rparr>"
  let ?z = "\<lambda>t rs c. netSys t rs c r ?late"
  have "netStep netCfg (netSys (netTask ''running'' (netOpening h)) [] (NRelay ''e'') r 1) (?z (netTask ''running'' (netOpening h)) [] (NRelay ''e''))"
    using net_clock[of "netSys (netTask ''running'' (netOpening h)) [] (NRelay ''e'') r 1" ?late netCfg] by (simp add: netSys_def second_def)
  with 1 have 2: "netReach netCfg (?z (netTask ''running'' (netOpening h)) [] (NRelay ''e''))" by (rule reach_trans)
  have "degrade ?late leaseExpired (netTask ''running'' (netOpening h), []) = (netTask ''running'' ?d, [])"
    by (simp add: degrade_def Terminal_def leaseExpired_def mapLab_def netOpening_def suspend_def netEndpoint_def second_def net_eval)
  then have "netStep netCfg (?z (netTask ''running'' (netOpening h)) [] (NRelay ''e'')) (?z (netTask ''running'' ?d) [] (NRelay ''e''))"
    using net_observe[of "?z (netTask ''running'' (netOpening h)) [] (NRelay ''e'')" leaseExpired "netTask ''running'' ?d" "[]" netCfg] by (simp add: netSys_def)
  with 2 have 3: "netReach netCfg (?z (netTask ''running'' ?d) [] (NRelay ''e''))" by (rule reach_trans)
  have "netStep netCfg (?z (netTask ''running'' ?d) [] (NRelay ''e'')) (?z (netTask ''running'' ?d) [''e''] (NOpened ''e''))"
    using net_relay[of "?z (netTask ''running'' ?d) [] (NRelay ''e'')" "''e''" None netCfg] by (simp add: netSys_def failWith_def)
  with 3 have 4: "netReach netCfg (?z (netTask ''running'' ?d) [''e''] (NOpened ''e''))" by (rule reach_trans)
  let ?t = "mapLab (setEndpoint ''e'' ''open'') (netTask ''running'' ?d)"
  have "netStep netCfg (?z (netTask ''running'' ?d) [''e''] (NOpened ''e'')) (?z ?t [''e''] NIdle)"
    using net_opened[of "?z (netTask ''running'' ?d) [''e''] (NOpened ''e'')" "''e''" netCfg] by (simp add: netSys_def)
  with 4 have 5: "netReach netCfg (?z ?t [''e''] NIdle)" by (rule reach_trans)
  have "\<not> Terminal ?t" "network ?t = ''degraded''" "lb_Endpoints (labOf ?t) = [netEndpoint ''open'']"
    by (simp_all add: Terminal_def mapLab_def setEndpoint_def netOpening_def netEndpoint_def net_eval)
  then show ?thesis using 5 by (intro exI[of _ "?z ?t [''e''] NIdle"]) (simp add: netSys_def)
qed

section \<open>Properties\<close>


text \<open>
  C10. A degraded network comes back only by an explicit recovery: no heartbeat, change, endpoint operation or late acknowledgement
  makes it ready again.
\<close>
theorem degraded_until_recovered:
  assumes "reach (netStart cfg) (netStep cfg) x" "netStep cfg x y" "network (ns_task x) = ''degraded''"
  shows "network (ns_task y) = ''degraded'' \<or> (\<exists>h b start. ns_call x = NRestoring (PChange True) h b start [])"
  by (rule degraded_stays[OF netInvD(1)[OF network_lease.reach_inv[OF assms(1)]] assms(2,3)])

text \<open>
  C40. \<^verbatim>\<open>closeEndpoint\<close> refreshes the policy while the endpoint is still \<^verbatim>\<open>closing\<close>, which \<^verbatim>\<open>taskPolicy\<close> counts as open: the policy it
  applies still forwards to the endpoint, and is not the policy of the lab once the endpoint is closed.
\<close>
theorem closing_endpoint_still_forwarded:
  assumes "isLab t" "e \<in> set (lb_Endpoints (labOf t))" "en_State e \<noteq> ''closed''"
    "closing = mapLab (setEndpoint (en_ID e) ''closing'') t" "after = mapLab (setEndpoint (en_ID e) ''closed'') closing"
  shows "endpointEntry closing e \<in> set (p_Entries (taskPolicy closing (labOf closing) wan seconds ranges)) \<and>
    taskPolicy after (labOf after) wan seconds ranges \<noteq> taskPolicy closing (labOf closing) wan seconds ranges"
proof -
  let ?e = "e\<lparr>en_State := ''closing''\<rparr>"
  have l: "isLab closing" "labOf closing = setEndpoint (en_ID e) ''closing'' (labOf t)" "labOf after = setEndpoint (en_ID e) ''closed'' (labOf closing)"
    using assms(1,4,5) by simp_all
  have in1: "?e \<in> set (filter (\<lambda>e. en_State e \<noteq> ''closed'') (lb_Endpoints (labOf closing)))"
    using assms(2) l(2) by (auto simp: setEndpoint_def)
  have "endpointEntry closing ?e = endpointEntry closing e" by (simp add: endpointEntry_def)
  then have a: "endpointEntry closing e \<in> set (p_Entries (taskPolicy closing (labOf closing) wan seconds ranges))"
    using in1 by (auto simp: taskPolicy_def simp del: set_filter intro!: image_eqI[of _ _ ?e])
  let ?n = "\<lambda>l. length (filter (\<lambda>e. en_State e \<noteq> ''closed'') (lb_Endpoints l))"
  have le: "length (filter (\<lambda>e. en_State e \<noteq> ''closed'') (map f es)) \<le> length (filter (\<lambda>e. en_State e \<noteq> ''closed'') es)"
    if "\<And>e. en_State e = ''closed'' \<Longrightarrow> en_State (f e) = ''closed''" for f and es :: "Endpoint list"
    using that by (induction es) auto
  have "?n (labOf after) < ?n (labOf closing)"
  proof -
    let ?f = "\<lambda>x. if en_ID x = en_ID e then x\<lparr>en_State := ''closed''\<rparr> else x"
    have m: "?e \<in> set (lb_Endpoints (labOf closing))" using in1 by simp
    obtain us ws where s: "lb_Endpoints (labOf closing) = us @ ?e # ws" using split_list[OF m] by blast
    have "length (filter (\<lambda>e. en_State e \<noteq> ''closed'') (map ?f us)) \<le> length (filter (\<lambda>e. en_State e \<noteq> ''closed'') us)"
      "length (filter (\<lambda>e. en_State e \<noteq> ''closed'') (map ?f ws)) \<le> length (filter (\<lambda>e. en_State e \<noteq> ''closed'') ws)" by (rule le, simp)+
    then show ?thesis using l(3) s by (simp add: setEndpoint_def)
  qed
  then have "length (p_Entries (taskPolicy after (labOf after) wan seconds ranges)) < length (p_Entries (taskPolicy closing (labOf closing) wan seconds ranges))"
    by (simp add: taskPolicy_def)
  then show ?thesis using a by fastforce
qed

text \<open>
  C39. The observer degrades a network whose lease has run out without the network lock: an endpoint whose relay is being set
  up at that moment is published all the same, and the degraded network keeps an open relay and an endpoint that is shown as
  open.
\<close>
theorem endpoint_open_on_degraded_network:
  "\<exists>cfg x. reach (netStart cfg) (netStep cfg) x \<and> ns_call x = NIdle \<and> \<not> Terminal (ns_task x) \<and> network (ns_task x) = ''degraded'' \<and> ns_relays x \<noteq> [] \<and>
     (\<exists>e\<in>set (lb_Endpoints (labOf (ns_task x))). en_State e = ''open'')"
  using run_degraded_open by (force simp: netEndpoint_def)


theorem degraded_until_recovered_witness:
  "\<exists>x. netReach netCfg x \<and> network (ns_task x) = ''degraded'' \<and> network (ns_task (x\<lparr>ns_now := ns_now x + 60 * second\<rparr>)) = ''degraded''"
proof -
  obtain x where x: "netReach netCfg x" "ns_call x = NIdle" "network (ns_task x) = ''degraded''" using run_degraded_open by blast
  have "netStep netCfg x (x\<lparr>ns_now := ns_now x + 60 * second\<rparr>)" by (rule net_clock) (simp add: second_def)
  from degraded_until_recovered[OF x(1) this x(3)] show ?thesis using x by auto
qed

theorem closing_endpoint_still_forwarded_witness:
  "\<exists>t. taskPolicy t (labOf t) ''10.2.0.0/28'' 30 [] \<noteq> taskPolicy (mapLab (setEndpoint ''e'' ''closed'') t) (labOf (mapLab (setEndpoint ''e'' ''closed'') t)) ''10.2.0.0/28'' 30 []"
proof -
  let ?t = "netTask ''running'' (netOpening [])"
  have "isLab ?t" "netEndpoint ''opening'' \<in> set (lb_Endpoints (labOf ?t))" "en_State (netEndpoint ''opening'') \<noteq> ''closed''" "en_ID (netEndpoint ''opening'') = ''e''"
    by (simp_all add: isLab_def netOpening_def netEndpoint_def net_eval)
  from closing_endpoint_still_forwarded[OF this(1-3) refl refl, of "''10.2.0.0/28''" 30 "[]"] this(4) show ?thesis by metis
qed

end
